(* ===== verification/Owl_Prelude.thy ===== *)
theory Owl_Prelude
  imports Main "HOL-Library.Word"
begin

text \<open>
  Shared vocabulary of the development: the result type of JavaScript code that may throw,
  the JavaScript string operations the sources use, the codec interface (an encoder with a
  decoder that may throw) as a locale, and the reachability interface of the state machines.

  A model \<open>string\<close> is the UTF-8 encoding of the JavaScript string it stands for, so that
  \<open>TextEncoder\<close> is the identity on its bytes.  Upper- and lower-casing and trimming act on the
  ASCII part of a string.  An array index out of range is \<open>undefined\<close>, which is \<open>None\<close>.
\<close>

section \<open>Results of code that may throw\<close>

text \<open>The errors the sources construct; the string is the \<open>message\<close>.\<close>

datatype js_error = Error string | TypeError string | AbortError string

type_synonym 'a res = "js_error + 'a"

fun message :: "js_error \<Rightarrow> string" where
  "message (Error m) = m"
| "message (TypeError m) = m"
| "message (AbortError m) = m"

definition bindR :: "'e + 'a \<Rightarrow> ('a \<Rightarrow> 'e + 'b) \<Rightarrow> 'e + 'b" where
  "bindR m f = (case m of Inl e \<Rightarrow> Inl e | Inr x \<Rightarrow> f x)"

text \<open>A \<open>for\<close> loop that pushes one result per element and stops at the first throw.\<close>

fun mapR :: "('a \<Rightarrow> 'e + 'b) \<Rightarrow> 'a list \<Rightarrow> 'e + 'b list" where
  "mapR f [] = Inr []"
| "mapR f (x # xs) = bindR (f x) (\<lambda>y. bindR (mapR f xs) (\<lambda>ys. Inr (y # ys)))"

definition isInr :: "'e + 'a \<Rightarrow> bool" where
  "isInr r = (case r of Inl _ \<Rightarrow> False | Inr _ \<Rightarrow> True)"

definition the_or :: "'a \<Rightarrow> 'a option \<Rightarrow> 'a" where
  "the_or d x = (case x of None \<Rightarrow> d | Some v \<Rightarrow> v)"

text \<open>Facts that rewrite the result operations; \<open>res_simps\<close> carries the component proofs.\<close>

named_theorems res_simps \<open>rewriting of results\<close>
named_theorems js_simps \<open>rewriting of the JavaScript string operations\<close>

lemma bindR_simps [simp, res_simps]:
  "bindR (Inl e) f = Inl e"
  "bindR (Inr x) f = f x"
  by (simp_all add: bindR_def)

lemma bindR_assoc: "bindR (bindR m f) g = bindR m (\<lambda>x. bindR (f x) g)"
  by (cases m) simp_all

lemma bindR_eq_Inr [res_simps]: "bindR m f = Inr y \<longleftrightarrow> (\<exists>x. m = Inr x \<and> f x = Inr y)"
  by (cases m) simp_all

lemma bindR_eq_Inl [res_simps]:
  "bindR m f = Inl e \<longleftrightarrow> m = Inl e \<or> (\<exists>x. m = Inr x \<and> f x = Inl e)"
  by (cases m) auto

lemma isInr_simps [simp]: "isInr (Inl e) = False" "isInr (Inr x) = True"
  by (simp_all add: isInr_def)

lemma isInr_ex: "isInr r \<longleftrightarrow> (\<exists>x. r = Inr x)"
  by (cases r) auto

lemma the_or_simps [simp]: "the_or d None = d" "the_or d (Some v) = v"
  by (simp_all add: the_or_def)

lemma mapR_Inr_iff:
  "mapR f xs = Inr ys \<longleftrightarrow> length ys = length xs \<and> (\<forall>i < length xs. f (xs ! i) = Inr (ys ! i))"
proof (induction xs arbitrary: ys)
  case Nil
  then show ?case by auto
next
  case (Cons x xs)
  show ?case
  proof (cases ys)
    case Nil
    then show ?thesis by (simp add: bindR_eq_Inr)
  next
    case (Cons y zs)
    then show ?thesis
      using Cons.IH [of zs] by (auto simp: bindR_eq_Inr nth_Cons split: nat.splits) 
  qed
qed

lemma mapR_all_Inr: "(\<And>x. x \<in> set xs \<Longrightarrow> f x = Inr (g x)) \<Longrightarrow> mapR f xs = Inr (map g xs)"
  by (induction xs) simp_all

lemma mapR_length: "mapR f xs = Inr ys \<Longrightarrow> length ys = length xs"
  by (simp add: mapR_Inr_iff)

section \<open>JavaScript strings\<close>

abbreviation code :: "char \<Rightarrow> nat" where
  "code c \<equiv> of_char c"

text \<open>\<open>s.split(c)\<close> for a one-character separator.\<close>

fun splitOn :: "char \<Rightarrow> string \<Rightarrow> string list" where
  "splitOn c [] = [[]]"
| "splitOn c (x # xs) =
     (if x = c then [] # splitOn c xs
      else (case splitOn c xs of [] \<Rightarrow> [[x]] | p # ps \<Rightarrow> (x # p) # ps))"

text \<open>\<open>ps.join(c)\<close>.\<close>

fun joinWith :: "string \<Rightarrow> string list \<Rightarrow> string" where
  "joinWith sep [] = []"
| "joinWith sep [p] = p"
| "joinWith sep (p # q # ps) = p @ sep @ joinWith sep (q # ps)"

definition startsWith :: "string \<Rightarrow> string \<Rightarrow> bool" where
  "startsWith s p = (take (length p) s = p)"

fun includesStr :: "string \<Rightarrow> string \<Rightarrow> bool" where
  "includesStr [] p = (p = [])"
| "includesStr (x # xs) p = (startsWith (x # xs) p \<or> includesStr xs p)"

definition isAsciiUpper :: "char \<Rightarrow> bool" where
  "isAsciiUpper c = (65 \<le> code c \<and> code c \<le> 90)"

definition isAsciiLower :: "char \<Rightarrow> bool" where
  "isAsciiLower c = (97 \<le> code c \<and> code c \<le> 122)"

definition isDigit :: "char \<Rightarrow> bool" where
  "isDigit c = (48 \<le> code c \<and> code c \<le> 57)"

definition upperChar :: "char \<Rightarrow> char" where
  "upperChar c = (if isAsciiLower c then char_of (code c - 32) else c)"

definition lowerChar :: "char \<Rightarrow> char" where
  "lowerChar c = (if isAsciiUpper c then char_of (code c + 32) else c)"

definition toUpperCase :: "string \<Rightarrow> string" where
  "toUpperCase s = map upperChar s"

definition toLowerCase :: "string \<Rightarrow> string" where
  "toLowerCase s = map lowerChar s"

text \<open>The ASCII white space \<open>trim\<close> removes: tab, line feed, vertical tab, form feed, carriage
  return and space.\<close>

definition isSpace :: "char \<Rightarrow> bool" where
  "isSpace c = (code c = 32 \<or> (9 \<le> code c \<and> code c \<le> 13))"

definition trimStart :: "string \<Rightarrow> string" where
  "trimStart s = dropWhile isSpace s"

definition trim :: "string \<Rightarrow> string" where
  "trim s = rev (dropWhile isSpace (rev (trimStart s)))"

text \<open>\<open>s.replace(/a/g, b)\<close> for single characters, and \<open>s.replace(/=+$/, '')\<close>.\<close>

definition replaceAll :: "char \<Rightarrow> char \<Rightarrow> string \<Rightarrow> string" where
  "replaceAll a b s = map (\<lambda>c. if c = a then b else c) s"

definition stripTrailing :: "char \<Rightarrow> string \<Rightarrow> string" where
  "stripTrailing a s = rev (dropWhile (\<lambda>c. c = a) (rev s))"

text \<open>\<open>String(n)\<close> and template interpolation for an integer.\<close>

fun showNat :: "nat \<Rightarrow> string" where
  "showNat n = (if n < 10 then [char_of (48 + n)] else showNat (n div 10) @ [char_of (48 + n mod 10)])"

declare showNat.simps [simp del]

definition showInt :: "int \<Rightarrow> string" where
  "showInt i = (if i < 0 then ''-'' @ showNat (nat (- i)) else showNat (nat i))"

text \<open>The code-unit order of \<open><\<close> and of \<open>Array.prototype.sort\<close> without a comparator.\<close>

fun str_less :: "string \<Rightarrow> string \<Rightarrow> bool" where
  "str_less [] ys = (ys \<noteq> [])"
| "str_less (x # xs) [] = False"
| "str_less (x # xs) (y # ys) = (code x < code y \<or> code x = code y \<and> str_less xs ys)"

definition str_le :: "string \<Rightarrow> string \<Rightarrow> bool" where
  "str_le a b = (a = b \<or> str_less a b)"

text \<open>A stable insertion sort stands for \<open>sort()\<close>, which the standard requires to be stable.\<close>

fun insertBy :: "('a \<Rightarrow> 'a \<Rightarrow> bool) \<Rightarrow> 'a \<Rightarrow> 'a list \<Rightarrow> 'a list" where
  "insertBy le x [] = [x]"
| "insertBy le x (y # ys) = (if le x y then x # y # ys else y # insertBy le x ys)"

definition sortBy :: "('a \<Rightarrow> 'a \<Rightarrow> bool) \<Rightarrow> 'a list \<Rightarrow> 'a list" where
  "sortBy le xs = foldr (insertBy le) xs []"

text \<open>\<open>new Set(xs)\<close> keeps the first occurrence of every element, in insertion order.\<close>

fun setAdd :: "'a list \<Rightarrow> 'a \<Rightarrow> 'a list" where
  "setAdd xs x = (if x \<in> set xs then xs else xs @ [x])"

definition setOf :: "'a list \<Rightarrow> 'a list" where
  "setOf xs = foldl setAdd [] xs"

section \<open>Lemmas on the string operations\<close>

lemma splitOn_nonempty [simp]: "splitOn c s \<noteq> []"
  by (induction s) (auto split: list.splits)

lemma splitOn_no_sep: "c \<notin> set s \<Longrightarrow> splitOn c s = [s]"
  by (induction s) auto

lemma splitOn_append_sep: "c \<notin> set p \<Longrightarrow> splitOn c (p @ c # s) = p # splitOn c s"
  by (induction p) auto

lemma joinWith_Cons: "ps \<noteq> [] \<Longrightarrow> joinWith sep (p # ps) = p @ sep @ joinWith sep ps"
  by (cases ps) auto

lemma splitOn_joinWith:
  "ps \<noteq> [] \<Longrightarrow> (\<And>p. p \<in> set ps \<Longrightarrow> c \<notin> set p) \<Longrightarrow> splitOn c (joinWith [c] ps) = ps"
proof (induction ps)
  case Nil
  then show ?case by simp
next
  case (Cons p ps)
  show ?case
  proof (cases "ps = []")
    case True
    then show ?thesis using Cons.prems by (simp add: splitOn_no_sep)
  next
    case False
    then show ?thesis
      using Cons.IH Cons.prems by (simp add: joinWith_Cons splitOn_append_sep)
  qed
qed

lemma joinWith_splitOn: "joinWith [c] (splitOn c s) = s"
proof (induction s)
  case Nil
  then show ?case by simp
next
  case (Cons x xs)
  obtain p ps where ps: "splitOn c xs = p # ps"
    using splitOn_nonempty by (metis neq_Nil_conv)
  then show ?case
    using Cons.IH by (cases ps) auto
qed

lemma splitOn_parts: "p \<in> set (splitOn c s) \<Longrightarrow> c \<notin> set p"
proof (induction s arbitrary: p)
  case Nil
  then show ?case by simp
next
  case (Cons x xs)
  then show ?case by (cases "splitOn c xs") (auto split: if_splits)
qed

lemma startsWith_append [simp, js_simps]: "startsWith (p @ s) p"
  by (simp add: startsWith_def)

lemma startsWith_iff: "startsWith s p \<longleftrightarrow> (\<exists>r. s = p @ r)"
  unfolding startsWith_def by (metis append_take_drop_id append_eq_conv_conj)

lemma upperChar_idem [simp]: "upperChar (upperChar c) = upperChar c"
  by (auto simp: upperChar_def isAsciiLower_def)

lemma toUpperCase_idem [simp, js_simps]: "toUpperCase (toUpperCase s) = toUpperCase s"
  by (simp add: toUpperCase_def)

lemma length_toUpperCase [simp]: "length (toUpperCase s) = length s"
  by (simp add: toUpperCase_def)

lemma upperChar_upper: "isAsciiUpper c \<Longrightarrow> upperChar c = c"
  by (simp add: upperChar_def isAsciiLower_def isAsciiUpper_def)

lemma toUpperCase_upper: "list_all isAsciiUpper s \<Longrightarrow> toUpperCase s = s"
  by (induction s) (simp_all add: toUpperCase_def upperChar_upper)

lemma isSpace_not_upper: "isAsciiUpper c \<Longrightarrow> \<not> isSpace c"
  by (auto simp: isSpace_def isAsciiUpper_def)

lemma dropWhile_none: "(\<And>x. x \<in> set xs \<Longrightarrow> \<not> P x) \<Longrightarrow> dropWhile P xs = xs"
  by (cases xs) auto

lemma trim_no_space:
  assumes "\<And>c. c \<in> set s \<Longrightarrow> \<not> isSpace c"
  shows "trim s = s"
proof -
  have "dropWhile isSpace s = s" and "dropWhile isSpace (rev s) = rev s"
    using assms by (auto intro: dropWhile_none)
  then show ?thesis by (simp add: trim_def trimStart_def)
qed

lemma trim_upper: "list_all isAsciiUpper s \<Longrightarrow> trim s = s"
  by (rule trim_no_space) (auto simp: list_all_iff isSpace_not_upper)

lemma stripTrailing_append: "stripTrailing a (s @ replicate n a) = stripTrailing a s"
proof -
  have "dropWhile (\<lambda>c. c = a) (replicate n a @ rev s) = dropWhile (\<lambda>c. c = a) (rev s)"
    by (induction n) simp_all
  then show ?thesis by (simp add: stripTrailing_def)
qed

lemma stripTrailing_id: "a \<notin> set s \<Longrightarrow> stripTrailing a s = s"
  unfolding stripTrailing_def by (subst dropWhile_none) auto

section \<open>Sets and sorting\<close>

lemma set_setAdd [simp]: "set (setAdd xs x) = insert x (set xs)"
  by auto

lemma set_foldl_setAdd: "set (foldl setAdd acc xs) = set acc \<union> set xs"
  by (induction xs arbitrary: acc) (auto simp del: setAdd.simps)

lemma set_setOf [simp]: "set (setOf xs) = set xs"
  by (simp add: setOf_def set_foldl_setAdd)

lemma distinct_foldl_setAdd: "distinct acc \<Longrightarrow> distinct (foldl setAdd acc xs)"
  by (induction xs arbitrary: acc) auto

lemma distinct_setOf [simp]: "distinct (setOf xs)"
  by (simp add: setOf_def distinct_foldl_setAdd)

lemma foldl_setAdd_append:
  "distinct (acc @ xs) \<Longrightarrow> foldl setAdd acc xs = acc @ xs"
  by (induction xs arbitrary: acc) auto

lemma setOf_distinct: "distinct xs \<Longrightarrow> setOf xs = xs"
  by (simp add: setOf_def foldl_setAdd_append)

lemma str_less_irrefl [simp]: "\<not> str_less a a"
  by (induction a) auto

lemma str_less_trans: "str_less a b \<Longrightarrow> str_less b c \<Longrightarrow> str_less a c"
proof (induction a b arbitrary: c rule: str_less.induct)
  case (1 ys)
  then show ?case by (cases c; cases ys) auto
next
  case (2 x xs)
  then show ?case by simp
next
  case (3 x xs y ys)
  then show ?case by (cases c) (auto dest: "3.IH")
qed

lemma str_less_linear: "str_less a b \<or> a = b \<or> str_less b a"
proof (induction a b rule: str_less.induct)
  case (3 x xs y ys)
  then show ?case by (cases "code x" "code y" rule: linorder_cases) auto
qed auto

lemma str_less_asym: "str_less a b \<Longrightarrow> \<not> str_less b a"
  using str_less_trans str_less_irrefl by blast

lemma str_le_linear: "str_le a b \<or> str_le b a"
  using str_less_linear by (auto simp: str_le_def)

lemma str_le_trans: "str_le a b \<Longrightarrow> str_le b c \<Longrightarrow> str_le a c"
  using str_less_trans by (auto simp: str_le_def)

lemma str_le_antisym: "str_le a b \<Longrightarrow> str_le b a \<Longrightarrow> a = b"
  using str_less_asym by (auto simp: str_le_def)

lemma set_insertBy [simp]: "set (insertBy le x ys) = insert x (set ys)"
  by (induction ys) auto

lemma length_insertBy [simp]: "length (insertBy le x ys) = Suc (length ys)"
  by (induction ys) auto

lemma set_sortBy [simp]: "set (sortBy le xs) = set xs"
  by (induction xs) (simp_all add: sortBy_def)

lemma length_sortBy [simp]: "length (sortBy le xs) = length xs"
  by (induction xs) (simp_all add: sortBy_def)

lemma distinct_insertBy [simp]: "distinct (insertBy le x ys) \<longleftrightarrow> x \<notin> set ys \<and> distinct ys"
  by (induction ys) auto

lemma distinct_sortBy [simp]: "distinct (sortBy le xs) \<longleftrightarrow> distinct xs"
proof (induction xs)
  case Nil
  then show ?case by (simp add: sortBy_def)
next
  case (Cons x xs)
  have "sortBy le (x # xs) = insertBy le x (sortBy le xs)" by (simp add: sortBy_def)
  then show ?case using Cons by simp
qed

lemma sorted_insertBy:
  assumes "\<And>a b. le a b \<or> le b a" and "\<And>a b c. le a b \<Longrightarrow> le b c \<Longrightarrow> le a c"
    and "sorted_wrt le ys"
  shows "sorted_wrt le (insertBy le x ys)"
  using assms(3)
proof (induction ys)
  case Nil
  then show ?case by simp
next
  case (Cons y ys)
  then show ?case using assms(1) [of x y] assms(2) by auto
qed

lemma sorted_sortBy:
  assumes "\<And>a b. le a b \<or> le b a" and "\<And>a b c. le a b \<Longrightarrow> le b c \<Longrightarrow> le a c"
  shows "sorted_wrt le (sortBy le xs)"
proof (induction xs)
  case Nil
  then show ?case by (simp add: sortBy_def)
next
  case (Cons x xs)
  have "sortBy le (x # xs) = insertBy le x (sortBy le xs)" by (simp add: sortBy_def)
  then show ?case using sorted_insertBy [of le, OF assms Cons.IH] by simp
qed

lemma insertBy_hd: "(\<And>y. y \<in> set ys \<Longrightarrow> le x y) \<Longrightarrow> insertBy le x ys = x # ys"
  by (cases ys) auto

lemma sortBy_sorted: "sorted_wrt le xs \<Longrightarrow> sortBy le xs = xs"
proof (induction xs)
  case Nil
  then show ?case by (simp add: sortBy_def)
next
  case (Cons x xs)
  then have "sortBy le xs = xs" by simp
  then show ?case using Cons.prems by (simp add: sortBy_def insertBy_hd)
qed

lemma sorted_wrt_unique:
  assumes "\<And>a b. le a b \<Longrightarrow> le b a \<Longrightarrow> a = b"
  shows "sorted_wrt le xs \<Longrightarrow> sorted_wrt le ys \<Longrightarrow> distinct xs \<Longrightarrow> distinct ys \<Longrightarrow>
    set xs = set ys \<Longrightarrow> xs = ys"
proof (induction xs arbitrary: ys)
  case Nil
  then show ?case by simp
next
  case (Cons x xs)
  then obtain y zs where ys: "ys = y # zs" by (cases ys) auto
  have "x = y"
  proof (rule ccontr)
    assume "x \<noteq> y"
    then have "x \<in> set zs" and "y \<in> set xs" using Cons.prems ys by auto
    then have "le y x" and "le x y" using Cons.prems ys by auto
    then show False using assms \<open>x \<noteq> y\<close> by blast
  qed
  moreover have "set xs = set zs" using Cons.prems ys \<open>x = y\<close> by auto
  ultimately show ?case using Cons.IH [of zs] Cons.prems ys by auto
qed

lemma sorted_sortBy_str: "sorted_wrt str_le (sortBy str_le xs)"
  by (rule sorted_sortBy) (use str_le_linear str_le_trans in blast)+

text \<open>Sorting strings by code units depends only on the set of strings.\<close>

lemma sortBy_str_set_eq:
  assumes "distinct xs" and "distinct ys" and "set xs = set ys"
  shows "sortBy str_le xs = sortBy str_le ys"
proof (rule sorted_wrt_unique [where le = str_le, OF str_le_antisym])
qed (use assms in \<open>auto intro: sorted_sortBy_str\<close>)

text \<open>Case analysis on a conditional that returned a value, without its condition.\<close>

lemma if_SomeE: "(if c then x else y) = Some b \<Longrightarrow> (x = Some b \<Longrightarrow> Q) \<Longrightarrow> (y = Some b \<Longrightarrow> Q) \<Longrightarrow> Q"
  by (cases c) simp_all

section \<open>Encoders with decoders\<close>

text \<open>
  The interface every encoding of the sources offers to its clients: decoding what was encoded
  gives the value back, for the values \<open>ok\<close> that the encoding is meant for.  Clients only use
  that the encoding is injective and that two codecs compose.
\<close>

locale codec =
  fixes enc :: "'a \<Rightarrow> 'b" and dec :: "'b \<Rightarrow> 'e + 'a" and ok :: "'a \<Rightarrow> bool"
  assumes dec_enc: "ok x \<Longrightarrow> dec (enc x) = Inr x"
begin

lemma enc_inject: "ok x \<Longrightarrow> ok y \<Longrightarrow> enc x = enc y \<Longrightarrow> x = y"
  by (metis dec_enc sum.inject(2))

lemma dec_enc_bind: "ok x \<Longrightarrow> bindR (dec (enc x)) f = f x"
  by (simp add: dec_enc)

lemma dec_enc_mapR: "list_all ok xs \<Longrightarrow> mapR dec (map enc xs) = Inr xs"
  by (induction xs) (simp_all add: dec_enc)

end

text \<open>One codec on top of another, as \<open>JSON.parse(utf8String(b64urlDecode(s)))\<close> is.\<close>

locale codec_chain = inner: codec enc1 dec1 ok1 + outer: codec enc2 dec2 ok2
  for enc1 :: "'a \<Rightarrow> 'b" and dec1 :: "'b \<Rightarrow> 'e + 'a" and ok1 :: "'a \<Rightarrow> bool"
    and enc2 :: "'b \<Rightarrow> 'c" and dec2 :: "'c \<Rightarrow> 'e + 'b" and ok2 :: "'b \<Rightarrow> bool" +
  assumes inner_ok: "ok1 x \<Longrightarrow> ok2 (enc1 x)"
begin

lemma chain_dec_enc: "ok1 x \<Longrightarrow> bindR (dec2 (enc2 (enc1 x))) dec1 = Inr x"
  by (simp add: outer.dec_enc inner_ok inner.dec_enc)

end

sublocale codec_chain \<subseteq> chain: codec "\<lambda>x. enc2 (enc1 x)" "\<lambda>y. bindR (dec2 y) dec1" ok1
  by unfold_locales (rule chain_dec_enc)

section \<open>State machines\<close>

text \<open>
  The interface of an event-driven component: a start state, a step function on events and an
  invariant every step keeps.  Its client facts are about whole runs.
\<close>

fun run_events :: "('s \<Rightarrow> 'e \<Rightarrow> 's) \<Rightarrow> 's \<Rightarrow> 'e list \<Rightarrow> 's" where
  "run_events step s [] = s"
| "run_events step s (e # es) = run_events step (step s e) es"

lemma run_events_append: "run_events step s (es @ fs) = run_events step (run_events step s es) fs"
  by (induction es arbitrary: s) auto

text \<open>A run whose events the environment is allowed to produce: the guard sees the state the event meets.\<close>

fun allowed_run :: "('s \<Rightarrow> 'e \<Rightarrow> bool) \<Rightarrow> ('s \<Rightarrow> 'e \<Rightarrow> 's) \<Rightarrow> 's \<Rightarrow> 'e list \<Rightarrow> bool" where
  "allowed_run ok step s [] \<longleftrightarrow> True"
| "allowed_run ok step s (e # es) \<longleftrightarrow> ok s e \<and> allowed_run ok step (step s e) es"

locale guarded_machine =
  fixes step :: "'s \<Rightarrow> 'e \<Rightarrow> 's" and inv :: "'s \<Rightarrow> bool" and ok :: "'s \<Rightarrow> 'e \<Rightarrow> bool"
  assumes guarded_step: "inv s \<Longrightarrow> ok s e \<Longrightarrow> inv (step s e)"
begin

lemma guarded_run: "inv s \<Longrightarrow> allowed_run ok step s es \<Longrightarrow> inv (run_events step s es)"
  by (induction es arbitrary: s) (auto intro: guarded_step)

end

locale event_machine =
  fixes step :: "'s \<Rightarrow> 'e \<Rightarrow> 's" and inv :: "'s \<Rightarrow> bool"
  assumes step_inv: "inv s \<Longrightarrow> inv (step s e)"

sublocale event_machine \<subseteq> free: guarded_machine step inv "\<lambda>_ _. True"
  by unfold_locales (rule step_inv)

context event_machine
begin

lemma run_inv: "inv s \<Longrightarrow> inv (run_events step s es)"
proof (rule free.guarded_run)
  show "allowed_run (\<lambda>_ _. True) step s es" by (induction es arbitrary: s) auto
qed

end

end
