(* ===== verification/Encoding.thy ===== *)
theory Encoding
  imports Owl_Prelude
begin

text \<open>
  Byte encodings of the SDK: \<open>packages/sdk/src/encoding.ts\<close> (base64, base64url and hex over
  \<open>ArrayBuffer\<close>s) and the encoding primitives of \<open>packages/sdk/src/sd-jwt.ts\<close>.  The browser's
  \<open>btoa\<close>, \<open>atob\<close> (the forgiving base64 decoder), \<open>parseInt(_, 16)\<close> and the modulo-256 store
  into a \<open>Uint8Array\<close> are written out, so that malformed input behaves as it does in the code.
  The lemmas show the round trips, that the two hex printers agree, and that the base64url texts
  use the URL-safe alphabet only.
\<close>

section \<open>Bytes\<close>

type_synonym byte = "8 word"
type_synonym bytes = "byte list"

text \<open>\<open>String.fromCharCode(b)\<close> and \<open>s.charCodeAt(i)\<close> on binary strings.\<close>

definition byteChar :: "byte \<Rightarrow> char" where
  "byteChar b = char_of (unat b)"

definition charByte :: "char \<Rightarrow> byte" where
  "charByte c = word_of_nat (code c)"

section \<open>The base64 functions of the browser\<close>

definition b64char :: "nat \<Rightarrow> char" where
  "b64char n =
     (if n < 26 then char_of (65 + n)
      else if n < 52 then char_of (71 + n)
      else if n < 62 then char_of (n - 4)
      else if n = 62 then CHR ''+'' else CHR ''/'')"

definition b64val :: "char \<Rightarrow> nat option" where
  "b64val c =
     (if isAsciiUpper c then Some (code c - 65)
      else if isAsciiLower c then Some (code c - 71)
      else if isDigit c then Some (code c + 4)
      else if c = CHR ''+'' then Some 62
      else if c = CHR ''/'' then Some 63
      else None)"

fun sextets :: "nat list \<Rightarrow> nat list" where
  "sextets [] = []"
| "sextets [a] = [a div 4, (a mod 4) * 16]"
| "sextets [a, b] = [a div 4, (a mod 4) * 16 + b div 16, (b mod 16) * 4]"
| "sextets (a # b # c # r) =
     [a div 4, (a mod 4) * 16 + b div 16, (b mod 16) * 4 + c div 64, c mod 64] @ sextets r"

fun unsextets :: "nat list \<Rightarrow> nat list" where
  "unsextets (a # b # c # d # r) =
     [a * 4 + b div 16, (b mod 16) * 16 + c div 4, (c mod 4) * 64 + d] @ unsextets r"
| "unsextets [a, b, c] = [a * 4 + b div 16, (b mod 16) * 16 + c div 4]"
| "unsextets [a, b] = [a * 4 + b div 16]"
| "unsextets _ = []"

definition padding :: "nat \<Rightarrow> string" where
  "padding n = (if n mod 3 = 0 then [] else replicate (3 - n mod 3) (CHR ''=''))"

definition btoa :: "string \<Rightarrow> string" where
  "btoa s = map b64char (sextets (map code s)) @ padding (length s)"

definition isAsciiSpace :: "char \<Rightarrow> bool" where
  "isAsciiSpace c = (code c \<in> {9, 10, 12, 13, 32})"

text \<open>Removal of at most two trailing padding characters from a text of full groups.\<close>

definition dropPadding :: "string \<Rightarrow> string" where
  "dropPadding s =
     (if length s mod 4 = 0 then
        (if drop (length s - 2) s = ''=='' then take (length s - 2) s
         else if drop (length s - 1) s = ''='' then take (length s - 1) s
         else s)
      else s)"

definition atob :: "string \<Rightarrow> string res" where
  "atob s =
     (let t = dropPadding (filter (\<lambda>c. \<not> isAsciiSpace c) s) in
      if length t mod 4 = 1 \<or> \<not> list_all (\<lambda>c. b64val c \<noteq> None) t
      then Inl (Error ''InvalidCharacterError'')
      else Inr (map char_of (unsextets (map (\<lambda>c. the_or 0 (b64val c)) t))))"

section \<open>\<open>parseInt(_, 16)\<close> and \<open>Uint8Array\<close> stores\<close>

definition hexVal :: "char \<Rightarrow> nat option" where
  "hexVal c =
     (if isDigit c then Some (code c - 48)
      else if 97 \<le> code c \<and> code c \<le> 102 then Some (code c - 87)
      else if 65 \<le> code c \<and> code c \<le> 70 then Some (code c - 55)
      else None)"

definition hexFold :: "string \<Rightarrow> nat" where
  "hexFold ds = foldl (\<lambda>n c. 16 * n + the_or 0 (hexVal c)) 0 ds"

definition parseHexDigits :: "string \<Rightarrow> nat option" where
  "parseHexDigits s =
     (let t = (if startsWith s ''0x'' \<or> startsWith s ''0X'' then drop 2 s else s);
          ds = takeWhile (\<lambda>c. hexVal c \<noteq> None) t
      in if ds = [] then None else Some (hexFold ds))"

text \<open>\<open>None\<close> is \<open>NaN\<close>.\<close>

definition parseInt16 :: "string \<Rightarrow> int option" where
  "parseInt16 s =
     (case trimStart s of
        [] \<Rightarrow> None
      | c # r \<Rightarrow>
          if c = CHR ''-'' then map_option (\<lambda>n. - int n) (parseHexDigits r)
          else if c = CHR ''+'' then map_option int (parseHexDigits r)
          else map_option int (parseHexDigits (c # r)))"

text \<open>Storing a number into a \<open>Uint8Array\<close> keeps it modulo 256, and \<open>NaN\<close> is stored as 0.\<close>

definition u8 :: "int option \<Rightarrow> byte" where
  "u8 n = (case n of None \<Rightarrow> 0 | Some i \<Rightarrow> word_of_int i)"

section \<open>\<open>encoding.ts\<close>\<close>

definition bufferToBase64 :: "bytes \<Rightarrow> string" where
  "bufferToBase64 bs = btoa (map byteChar bs)"

definition base64ToBuffer :: "string \<Rightarrow> bytes res" where
  "base64ToBuffer s = bindR (atob s) (\<lambda>bin. Inr (map charByte bin))"

definition bufferToBase64url :: "bytes \<Rightarrow> string" where
  "bufferToBase64url bs =
     stripTrailing (CHR ''='')
       (replaceAll (CHR ''/'') (CHR ''_'') (replaceAll (CHR ''+'') (CHR ''-'') (bufferToBase64 bs)))"

definition base64urlToBuffer :: "string \<Rightarrow> bytes res" where
  "base64urlToBuffer s =
     base64ToBuffer (replaceAll (CHR ''_'') (CHR ''/'') (replaceAll (CHR ''-'') (CHR ''+'') s))"

definition hexDigit :: "nat \<Rightarrow> char" where
  "hexDigit n = (if n < 10 then char_of (48 + n) else char_of (87 + n))"

text \<open>\<open>n.toString(16)\<close> and \<open>s.padStart(2, '0')\<close>.\<close>

fun toString16 :: "nat \<Rightarrow> string" where
  "toString16 n = (if n < 16 then [hexDigit n] else toString16 (n div 16) @ [hexDigit (n mod 16)])"

declare toString16.simps [simp del]

definition padStart :: "nat \<Rightarrow> char \<Rightarrow> string \<Rightarrow> string" where
  "padStart n c s = replicate (n - length s) c @ s"

definition bytesToHex :: "bytes \<Rightarrow> string" where
  "bytesToHex bs = concat (map (\<lambda>b. padStart 2 (CHR ''0'') (toString16 (unat b))) bs)"

text \<open>The array has \<open>hex.length / 2\<close> slots, rounded down; a store past the end is ignored, so
  an odd last character is dropped.\<close>

fun hexToBytes :: "string \<Rightarrow> bytes" where
  "hexToBytes (a # b # r) = u8 (parseInt16 [a, b]) # hexToBytes r"
| "hexToBytes _ = []"

section \<open>Encoding primitives of \<open>sd-jwt.ts\<close>\<close>

definition hexEncode :: "bytes \<Rightarrow> string" where
  "hexEncode bs = concat (map (\<lambda>b. [hexDigit (unat (drop_bit 4 b)), hexDigit (unat (take_bit 4 b))]) bs)"

definition hexDecode :: "string \<Rightarrow> bytes res" where
  "hexDecode s = (if length s mod 2 \<noteq> 0 then Inl (Error ''odd-length hex'') else Inr (hexToBytes s))"

definition b64urlEncode :: "bytes \<Rightarrow> string" where
  "b64urlEncode bs =
     stripTrailing (CHR ''='')
       (replaceAll (CHR ''/'') (CHR ''_'') (replaceAll (CHR ''+'') (CHR ''-'') (btoa (map byteChar bs))))"

definition b64urlDecode :: "string \<Rightarrow> bytes res" where
  "b64urlDecode s =
     (let pad = (if length s mod 4 = 0 then [] else replicate (4 - length s mod 4) (CHR ''=''));
          b64 = replaceAll (CHR ''_'') (CHR ''/'') (replaceAll (CHR ''-'') (CHR ''+'') s) @ pad
      in bindR (atob b64) (\<lambda>bin. Inr (map charByte bin)))"

definition utf8Bytes :: "string \<Rightarrow> bytes" where
  "utf8Bytes s = map charByte s"

definition utf8String :: "bytes \<Rightarrow> string" where
  "utf8String bs = map byteChar bs"

section \<open>Lemmas\<close>

lemma charByte_byteChar [simp]: "charByte (byteChar b) = b"
proof -
  have "unat b < 256" using unsigned_less [of b] by simp
  then show ?thesis by (simp add: charByte_def byteChar_def)
qed

lemma byteChar_charByte [simp]: "byteChar (charByte c) = c"
  by (simp add: charByte_def byteChar_def unat_of_nat)

lemma utf8_roundtrip [simp]: "utf8String (utf8Bytes s) = s"
  by (simp add: utf8Bytes_def utf8String_def comp_def)

lemma utf8_roundtrip' [simp]: "utf8Bytes (utf8String bs) = bs"
  by (simp add: utf8Bytes_def utf8String_def comp_def)

lemma utf8Bytes_inject [simp]: "utf8Bytes s = utf8Bytes t \<longleftrightarrow> s = t"
  by (metis utf8_roundtrip)

subsection \<open>Base64\<close>

lemma b64val_b64char: "n < 64 \<Longrightarrow> b64val (b64char n) = Some n"
  by (auto simp: b64val_def b64char_def isAsciiUpper_def isAsciiLower_def isDigit_def)

lemma sextets_bound: "list_all (\<lambda>a. a < 256) xs \<Longrightarrow> list_all (\<lambda>n. n < 64) (sextets xs)"
  by (induction xs rule: sextets.induct) auto

lemma unsextets_sextets: "list_all (\<lambda>a. a < 256) xs \<Longrightarrow> unsextets (sextets xs) = xs"
proof (induction xs rule: sextets.induct)
  case (3 a b)
  then have "b div 16 < 16" by auto
  then show ?case by simp
next
  case (4 a b c r)
  then have "b div 16 < 16" and "c div 64 < 4" by auto
  then show ?case using 4 by simp
qed auto

lemma length_sextets_mod4:
  "length (sextets xs) mod 4 = (if length xs mod 3 = 0 then 0 else length xs mod 3 + 1)"
proof (induction xs rule: sextets.induct)
  case (4 a b c r)
  have "length r mod 3 < 3" by simp
  then show ?case using 4 by (simp add: mod_Suc) arith
qed (simp_all add: mod_Suc)

lemma list_all_code: "list_all (\<lambda>a. a < 256) (map code s)"
  by (simp add: list_all_iff)

text \<open>The unpadded base64 text of a binary string.\<close>

definition b64body :: "string \<Rightarrow> string" where
  "b64body s = map b64char (sextets (map code s))"

lemma b64val_facts:
  assumes "b64val c \<noteq> None"
  shows "c \<noteq> CHR ''=''" and "c \<noteq> CHR ''-''" and "c \<noteq> CHR ''_''" and "\<not> isAsciiSpace c"
  using assms
  by (auto simp: b64val_def isAsciiUpper_def isAsciiLower_def isDigit_def isAsciiSpace_def
      split: if_splits)

lemma b64body_val: "c \<in> set (b64body s) \<Longrightarrow> b64val c \<noteq> None"
  using sextets_bound [OF list_all_code, of s]
  by (auto simp: b64body_def list_all_iff b64val_b64char)

lemmas b64body_facts = b64val_facts [OF b64body_val] b64body_val

lemma length_b64body_mod4:
  "length (b64body s) mod 4 = (if length s mod 3 = 0 then 0 else length s mod 3 + 1)"
  by (simp add: b64body_def length_sextets_mod4)

lemma b64body_mod4_not1 [simp]: "length (b64body s) mod 4 \<noteq> Suc 0"
  by (simp add: length_b64body_mod4)

lemma b64body_no_special [simp]:
  "CHR ''='' \<notin> set (b64body s)" "CHR ''-'' \<notin> set (b64body s)" "CHR ''_'' \<notin> set (b64body s)"
  using b64body_facts by blast+

lemma padding_eq: "padding (length s) = replicate ((4 - length (b64body s) mod 4) mod 4) (CHR ''='')"
proof -
  have "length s mod 3 = 0 \<or> length s mod 3 = 1 \<or> length s mod 3 = 2" by arith
  then show ?thesis by (auto simp: padding_def length_b64body_mod4)
qed

lemma btoa_eq: "btoa s = b64body s @ replicate ((4 - length (b64body s) mod 4) mod 4) (CHR ''='')"
  by (simp add: btoa_def b64body_def padding_eq [unfolded b64body_def])

lemma dropPadding_id: "CHR ''='' \<notin> set t \<Longrightarrow> dropPadding t = t"
proof -
  assume a: "CHR ''='' \<notin> set t"
  have "drop n t \<noteq> ''==''" and "drop n t \<noteq> ''=''" for n
    using a set_drop_subset [of n t] by auto
  then show ?thesis by (simp add: dropPadding_def)
qed

lemma dropPadding_pad:
  assumes "CHR ''='' \<notin> set t" and "length t mod 4 \<noteq> Suc 0"
  shows "dropPadding (t @ replicate ((4 - length t mod 4) mod 4) (CHR ''='')) = t"
proof -
  have "length t mod 4 < 4" by simp
  then consider (zero) "length t mod 4 = 0" | (two) "length t mod 4 = 2" | (three) "length t mod 4 = 3"
    using assms(2) by linarith
  then show ?thesis
  proof cases
    case zero
    then show ?thesis using assms by (simp add: dropPadding_id)
  next
    case two
    then show ?thesis by (simp add: dropPadding_def mod_Suc numeral_2_eq_2)
  next
    case three
    then obtain u c where t: "t = u @ [c]" by (cases t rule: rev_cases) auto
    with assms have "c \<noteq> CHR ''=''" by auto
    with three t show ?thesis by (simp add: dropPadding_def mod_Suc)
  qed
qed

lemma unpack_b64body:
  "map char_of (unsextets (map (\<lambda>c. the_or 0 (b64val c)) (b64body s))) = s"
proof -
  have "map (\<lambda>c. the_or 0 (b64val c)) (b64body s) = sextets (map code s)"
    using sextets_bound [OF list_all_code, of s]
    by (auto simp: b64body_def list_all_iff b64val_b64char intro: map_idI)
  then show ?thesis
    by (simp add: unsextets_sextets list_all_code comp_def)
qed

lemma filter_space_body:
  "filter (\<lambda>c. \<not> isAsciiSpace c) (b64body s @ replicate n (CHR ''='')) = b64body s @ replicate n (CHR ''='')"
  by (rule filter_True) (auto dest: b64body_facts(4) simp: isAsciiSpace_def [of "CHR ''=''"])

lemma atob_b64body_pad:
  "dropPadding (b64body s @ replicate n (CHR ''='')) = b64body s \<Longrightarrow>
    atob (b64body s @ replicate n (CHR ''='')) = Inr s"
  using b64body_facts(5) [of _ s] unfolding atob_def filter_space_body
  by (auto simp: unpack_b64body list_all_iff Let_def)

lemma atob_b64body: "atob (b64body s) = Inr s"
  using atob_b64body_pad [of s 0] by (simp add: dropPadding_id)

lemma atob_btoa: "atob (btoa s) = Inr s"
  unfolding btoa_eq
  by (intro atob_b64body_pad dropPadding_pad) simp_all

text \<open>The URL-safe rewriting of a base64 body, and its inverse.\<close>

definition urlsafe :: "string \<Rightarrow> string" where
  "urlsafe s = replaceAll (CHR ''/'') (CHR ''_'') (replaceAll (CHR ''+'') (CHR ''-'') s)"

definition urlplain :: "string \<Rightarrow> string" where
  "urlplain s = replaceAll (CHR ''_'') (CHR ''/'') (replaceAll (CHR ''-'') (CHR ''+'') s)"

lemma urlplain_urlsafe: "urlplain (urlsafe (b64body s)) = b64body s"
  by (auto simp: urlplain_def urlsafe_def replaceAll_def b64body_facts intro!: map_idI)

lemma length_urlsafe [simp]: "length (urlsafe s) = length s"
  by (simp add: urlsafe_def replaceAll_def)

lemma b64urlEncode_eq: "b64urlEncode bs = urlsafe (b64body (map byteChar bs))"
proof -
  let ?b = "b64body (map byteChar bs)"
  have "CHR ''='' \<notin> set (urlsafe ?b)"
    by (auto simp: urlsafe_def replaceAll_def dest: b64body_facts)
  moreover have "b64urlEncode bs =
      stripTrailing (CHR ''='') (urlsafe ?b @ replicate ((4 - length ?b mod 4) mod 4) (CHR ''=''))"
    by (simp add: b64urlEncode_def btoa_eq urlsafe_def replaceAll_def)
  ultimately show ?thesis by (simp add: stripTrailing_append stripTrailing_id)
qed

text \<open>The two base64url encoders are one function.\<close>

lemma bufferToBase64url_eq: "bufferToBase64url bs = b64urlEncode bs"
  by (simp add: bufferToBase64url_def b64urlEncode_def bufferToBase64_def)

lemma charByte_comp_byteChar [simp]: "charByte \<circ> byteChar = id"
  by (simp add: fun_eq_iff)

lemma b64urlDecode_b64urlEncode: "b64urlDecode (b64urlEncode bs) = Inr bs"
proof -
  let ?b = "b64body (map byteChar bs)"
  let ?pad = "replicate ((4 - length ?b mod 4) mod 4) (CHR ''='')"
  have pad: "(if length ?b mod 4 = 0 then [] else replicate (4 - length ?b mod 4) (CHR ''='')) = ?pad"
    by (auto simp: mod_less)
  have "dropPadding (?b @ ?pad) = ?b"
    by (rule dropPadding_pad) simp_all
  then have "atob (?b @ ?pad) = Inr (map byteChar bs)" by (rule atob_b64body_pad)
  moreover have "b64urlDecode (b64urlEncode bs) =
      bindR (atob (?b @ ?pad)) (\<lambda>bin. Inr (map charByte bin))"
    unfolding b64urlDecode_def b64urlEncode_eq Let_def length_urlsafe pad
    by (simp add: urlplain_urlsafe [unfolded urlplain_def])
  ultimately show ?thesis by simp
qed

lemma base64ToBuffer_bufferToBase64: "base64ToBuffer (bufferToBase64 bs) = Inr bs"
  by (simp add: base64ToBuffer_def bufferToBase64_def atob_btoa comp_def)

lemma base64urlToBuffer_bufferToBase64url: "base64urlToBuffer (bufferToBase64url bs) = Inr bs"
  by (simp add: base64urlToBuffer_def bufferToBase64url_eq b64urlEncode_eq
      urlplain_urlsafe [unfolded urlplain_def] base64ToBuffer_def atob_b64body comp_def)

interpretation b64: codec bufferToBase64 base64ToBuffer "\<lambda>_. True"
  by unfold_locales (rule base64ToBuffer_bufferToBase64)

interpretation b64url: codec b64urlEncode b64urlDecode "\<lambda>_. True"
  by unfold_locales (rule b64urlDecode_b64urlEncode)

text \<open>A base64url text has none of the separators of a JWS or an SD-JWT.\<close>

lemma b64url_alphabet:
  assumes "c \<in> set (b64urlEncode bs)"
  shows "isAsciiUpper c \<or> isAsciiLower c \<or> isDigit c \<or> c = CHR ''-'' \<or> c = CHR ''_''"
proof -
  obtain d e where d: "d \<in> set (b64body (map byteChar bs))"
      and e: "e = (if d = CHR ''+'' then CHR ''-'' else d)"
      and c: "c = (if e = CHR ''/'' then CHR ''_'' else e)"
    using assms unfolding b64urlEncode_eq urlsafe_def replaceAll_def set_map by blast
  then show ?thesis
    using b64body_val [OF d] by (auto simp: b64val_def split: if_splits)
qed

lemma b64url_no_sep [simp]:
  "CHR ''.'' \<notin> set (b64urlEncode bs)" "CHR ''~'' \<notin> set (b64urlEncode bs)"
  using b64url_alphabet by (fastforce simp: isAsciiUpper_def isAsciiLower_def isDigit_def)+

subsection \<open>Hex\<close>

lemma hexVal_hexDigit: "n < 16 \<Longrightarrow> hexVal (hexDigit n) = Some n"
  by (auto simp: hexVal_def hexDigit_def isDigit_def)

lemma hexDigit_facts:
  assumes "n < 16"
  shows "\<not> isSpace (hexDigit n)" and "hexDigit n \<noteq> CHR ''-''" and "hexDigit n \<noteq> CHR ''+''"
    and "hexDigit n \<noteq> CHR ''x''" and "hexDigit n \<noteq> CHR ''X''"
  using hexVal_hexDigit [OF assms]
  by (auto simp: hexVal_def isSpace_def isDigit_def split: if_splits)

lemma parseInt16_pair:
  assumes "m < 16" and "n < 16"
  shows "parseInt16 [hexDigit m, hexDigit n] = Some (int (16 * m + n))"
  using assms
  by (simp add: parseInt16_def parseHexDigits_def trimStart_def hexDigit_facts hexVal_hexDigit
      hexFold_def startsWith_def)

lemma unat_byte_less [simp]: "unat (b :: byte) < 256"
  using unsigned_less [of b] by simp

lemma hexEncode_eq:
  "hexEncode bs = concat (map (\<lambda>b. [hexDigit (unat b div 16), hexDigit (unat b mod 16)]) bs)"
  by (simp add: hexEncode_def unat_drop_bit_eq drop_bit_eq_div [where ?'a = nat]
      unsigned_take_bit_eq take_bit_eq_mod [where ?'a = nat])

lemma hexToBytes_hexEncode: "hexToBytes (hexEncode bs) = bs"
proof (induction bs)
  case Nil
  then show ?case by (simp add: hexEncode_def)
next
  case (Cons b bs)
  have "unat b div 16 < 16" by (rule less_mult_imp_div_less) simp
  then have "parseInt16 [hexDigit (unat b div 16), hexDigit (unat b mod 16)] = Some (int (unat b))"
    by (simp add: parseInt16_pair)
  then show ?case using Cons by (simp add: hexEncode_eq u8_def)
qed

lemma length_hexEncode [simp]: "length (hexEncode bs) = 2 * length bs"
  by (induction bs) (simp_all add: hexEncode_def)

lemma hexDecode_hexEncode: "hexDecode (hexEncode bs) = Inr bs"
  by (simp add: hexDecode_def hexToBytes_hexEncode)

lemma bytesToHex_eq_hexEncode: "bytesToHex bs = hexEncode bs"
proof -
  have "padStart 2 (CHR ''0'') (toString16 n) = [hexDigit (n div 16), hexDigit (n mod 16)]"
    if "n < 256" for n
  proof (cases "n < 16")
    case True
    moreover have "hexDigit 0 = CHR ''0''" by code_simp
    ultimately show ?thesis
      by (simp add: toString16.simps [of n] padStart_def)
  next
    case False
    moreover have "n div 16 < 16" using that by (intro less_mult_imp_div_less) simp
    ultimately show ?thesis
      by (simp add: toString16.simps [of n] toString16.simps [of "n div 16"] padStart_def)
  qed
  then show ?thesis
    by (simp add: bytesToHex_def hexEncode_eq)
qed

lemma length_hexToBytes: "length (hexToBytes s) = length s div 2"
  by (induction s rule: hexToBytes.induct) auto

lemma hexDecode_length: "hexDecode s = Inr bs \<Longrightarrow> length s = 2 * length bs"
  by (auto simp: hexDecode_def length_hexToBytes split: if_splits)

interpretation hex: codec hexEncode hexDecode "\<lambda>_. True"
  by unfold_locales (rule hexDecode_hexEncode)

end
