(* ===== verification/Json.thy ===== *)
theory Json
  imports Encoding
begin

text \<open>
  JSON values, \<open>JSON.stringify\<close> and \<open>JSON.parse\<close>, which the SDK uses for SD-JWT disclosures, JWS
  headers and payloads, wallet storage and the recovery file.

  Numbers are integers: a text whose number has a fraction or an exponent is outside the model and
  is refused like a syntax error.  An object is an association list in insertion order; parsing a
  repeated key replaces the earlier value in place.  The parser is a recursive descent with fuel;
  \<open>JSON_parse\<close> starts it with the length of the text, and the round-trip lemma shows that this is
  enough for every printed value.
\<close>

section \<open>Values\<close>

datatype json =
    JNull
  | JBool bool
  | JNum int
  | JStr string
  | JArr "json list"
  | JObj "(string \<times> json) list"

text \<open>Property access \<open>v.k\<close> on a parsed value; \<open>None\<close> is \<open>undefined\<close>.\<close>

fun getField :: "string \<Rightarrow> json \<Rightarrow> json option" where
  "getField k (JObj kvs) = map_of kvs k"
| "getField k _ = None"

fun putField :: "string \<Rightarrow> json \<Rightarrow> (string \<times> json) list \<Rightarrow> (string \<times> json) list" where
  "putField k v [] = [(k, v)]"
| "putField k v ((k', v') # kvs) = (if k = k' then (k, v) # kvs else (k', v') # putField k v kvs)"

fun asStr :: "json option \<Rightarrow> string option" where
  "asStr (Some (JStr s)) = Some s"
| "asStr _ = None"

fun asNum :: "json option \<Rightarrow> int option" where
  "asNum (Some (JNum n)) = Some n"
| "asNum _ = None"

fun asArr :: "json option \<Rightarrow> json list option" where
  "asArr (Some (JArr xs)) = Some xs"
| "asArr _ = None"

text \<open>Array element access; out of range is \<open>undefined\<close>.\<close>

definition item :: "json list \<Rightarrow> nat \<Rightarrow> json option" where
  "item xs i = (if i < length xs then Some (xs ! i) else None)"

text \<open>Objects have distinct keys, at every level.\<close>

fun json_wf :: "json \<Rightarrow> bool" where
  "json_wf (JArr xs) = list_all json_wf xs"
| "json_wf (JObj kvs) = (distinct (map fst kvs) \<and> list_all (\<lambda>kv. json_wf (snd kv)) kvs)"
| "json_wf _ = True"

section \<open>\<open>JSON.stringify\<close>\<close>

definition escChar :: "char \<Rightarrow> string" where
  "escChar c =
     (if c = CHR 0x22 then [CHR 0x5C, CHR 0x22]
      else if c = CHR 0x5C then [CHR 0x5C, CHR 0x5C]
      else if code c = 8 then [CHR 0x5C, CHR ''b'']
      else if code c = 9 then [CHR 0x5C, CHR ''t'']
      else if code c = 10 then [CHR 0x5C, CHR ''n'']
      else if code c = 12 then [CHR 0x5C, CHR ''f'']
      else if code c = 13 then [CHR 0x5C, CHR ''r'']
      else if code c < 32 then
        [CHR 0x5C, CHR ''u'', CHR ''0'', CHR ''0'', hexDigit (code c div 16), hexDigit (code c mod 16)]
      else [c])"

definition quote :: "string \<Rightarrow> string" where
  "quote s = CHR 0x22 # concat (map escChar s) @ [CHR 0x22]"

fun stringify :: "json \<Rightarrow> string" where
  "stringify JNull = ''null''"
| "stringify (JBool b) = (if b then ''true'' else ''false'')"
| "stringify (JNum n) = showInt n"
| "stringify (JStr s) = quote s"
| "stringify (JArr xs) = ''['' @ joinWith '','' (map stringify xs) @ '']''"
| "stringify (JObj kvs) =
     ''{'' @ joinWith '','' (map (\<lambda>kv. quote (fst kv) @ '':'' @ stringify (snd kv)) kvs) @ ''}''"

section \<open>\<open>JSON.parse\<close>\<close>

definition isJsonWs :: "char \<Rightarrow> bool" where
  "isJsonWs c = (code c \<in> {9, 10, 13, 32})"

definition skipWs :: "string \<Rightarrow> string" where
  "skipWs s = dropWhile isJsonWs s"

text \<open>The UTF-8 encoding of a code point.\<close>

definition utf8Char :: "nat \<Rightarrow> string" where
  "utf8Char n =
     (if n < 128 then [char_of n]
      else if n < 2048 then [char_of (192 + n div 64), char_of (128 + n mod 64)]
      else if n < 65536 then
        [char_of (224 + n div 4096), char_of (128 + n div 64 mod 64), char_of (128 + n mod 64)]
      else [char_of (240 + n div 262144), char_of (128 + n div 4096 mod 64),
            char_of (128 + n div 64 mod 64), char_of (128 + n mod 64)])"

fun hex4 :: "string \<Rightarrow> (nat \<times> string) option" where
  "hex4 (a # b # c # d # r) =
     (case (hexVal a, hexVal b, hexVal c, hexVal d) of
        (Some w, Some x, Some y, Some z) \<Rightarrow> Some (((w * 16 + x) * 16 + y) * 16 + z, r)
      | _ \<Rightarrow> None)"
| "hex4 _ = None"

text \<open>The part of an escape after the letter \<open>u\<close>: four hex digits, and a second escape when the
  first is the high half of a surrogate pair.\<close>

definition unicodeEscape :: "string \<Rightarrow> (string \<times> string) option" where
  "unicodeEscape s =
     (case hex4 s of
        None \<Rightarrow> None
      | Some (hi, r) \<Rightarrow>
          if 55296 \<le> hi \<and> hi < 56320 then
            (case r of
               b # u # r' \<Rightarrow>
                 (if b = CHR 0x5C \<and> u = CHR ''u'' then
                    (case hex4 r' of
                       Some (lo, r'') \<Rightarrow>
                         if 56320 \<le> lo \<and> lo < 57344
                         then Some (utf8Char (65536 + (hi - 55296) * 1024 + (lo - 56320)), r'')
                         else Some (utf8Char hi, r)
                     | None \<Rightarrow> Some (utf8Char hi, r))
                  else Some (utf8Char hi, r))
             | _ \<Rightarrow> Some (utf8Char hi, r))
          else Some (utf8Char hi, r))"

definition simpleEscape :: "char \<Rightarrow> string option" where
  "simpleEscape e =
     (if e = CHR 0x22 \<or> e = CHR 0x5C \<or> e = CHR ''/'' then Some [e]
      else if e = CHR ''b'' then Some [char_of (8 :: nat)]
      else if e = CHR ''f'' then Some [char_of (12 :: nat)]
      else if e = CHR ''n'' then Some [char_of (10 :: nat)]
      else if e = CHR ''r'' then Some [char_of (13 :: nat)]
      else if e = CHR ''t'' then Some [char_of (9 :: nat)]
      else None)"

definition escape :: "string \<Rightarrow> (string \<times> string) option" where
  "escape s =
     (case s of
        [] \<Rightarrow> None
      | e # r \<Rightarrow>
          if e = CHR ''u'' then unicodeEscape r
          else (case simpleEscape e of None \<Rightarrow> None | Some t \<Rightarrow> Some (t, r)))"

lemma hex4_length: "hex4 s = Some (n, r) \<Longrightarrow> length r < length s"
  by (cases s rule: hex4.cases) (auto split: option.splits)

lemma unicodeEscape_length: "unicodeEscape s = Some (t, r) \<Longrightarrow> length r < length s"
  by (auto simp: unicodeEscape_def split: option.splits list.splits if_splits dest!: hex4_length)

lemma escape_length: "escape s = Some (t, r) \<Longrightarrow> length r < length s"
  by (auto simp: escape_def split: option.splits list.splits if_splits dest: unicodeEscape_length)

text \<open>The characters of a string literal after its opening quote.\<close>

function pstring :: "string \<Rightarrow> (string \<times> string) option" where
  "pstring s =
     (case s of
        [] \<Rightarrow> None
      | c # r \<Rightarrow>
          if c = CHR 0x22 then Some ([], r)
          else if c = CHR 0x5C then
            (case escape r of
               None \<Rightarrow> None
             | Some (t, r') \<Rightarrow> map_option (\<lambda>(u, r''). (t @ u, r'')) (pstring r'))
          else if code c < 32 then None
          else map_option (\<lambda>(u, r'). (c # u, r')) (pstring r))"
  by pat_completeness auto
termination
  by (relation "measure length") (auto dest: escape_length)

declare pstring.simps [simp del]

definition readNat :: "string \<Rightarrow> nat" where
  "readNat ds = foldl (\<lambda>n c. 10 * n + (code c - 48)) 0 ds"

definition pdigits :: "string \<Rightarrow> (nat \<times> string) option" where
  "pdigits s =
     (let ds = takeWhile isDigit s; ds' = (if ds \<noteq> [] \<and> hd ds = CHR ''0'' then [CHR ''0''] else ds);
          r = drop (length ds') s
      in if ds = [] then None
         else if r \<noteq> [] \<and> hd r \<in> {CHR ''.'', CHR ''e'', CHR ''E''} then None
         else Some (readNat ds', r))"

definition pnumber :: "string \<Rightarrow> (json \<times> string) option" where
  "pnumber s =
     (case s of
        [] \<Rightarrow> None
      | c # r \<Rightarrow>
          if c = CHR ''-'' then map_option (\<lambda>(n, r'). (JNum (- int n), r')) (pdigits r)
          else map_option (\<lambda>(n, r'). (JNum (int n), r')) (pdigits s))"

definition pliteral :: "string \<Rightarrow> json \<Rightarrow> string \<Rightarrow> (json \<times> string) option" where
  "pliteral lit v s = (if startsWith s lit then Some (v, drop (length lit) s) else None)"

fun pvalue :: "nat \<Rightarrow> string \<Rightarrow> (json \<times> string) option"
  and pelems :: "nat \<Rightarrow> string \<Rightarrow> json list \<Rightarrow> (json \<times> string) option"
  and pmembers :: "nat \<Rightarrow> string \<Rightarrow> (string \<times> json) list \<Rightarrow> (json \<times> string) option" where
  "pvalue 0 s = None"
| "pvalue (Suc n) s =
     (case skipWs s of
        [] \<Rightarrow> None
      | c # r \<Rightarrow>
          if c = CHR 0x22 then map_option (\<lambda>(t, r'). (JStr t, r')) (pstring r)
          else if c = CHR ''['' then
            (case skipWs r of
               [] \<Rightarrow> None
             | d # r' \<Rightarrow> if d = CHR '']'' then Some (JArr [], r') else pelems n r [])
          else if c = CHR ''{'' then
            (case skipWs r of
               [] \<Rightarrow> None
             | d # r' \<Rightarrow> if d = CHR ''}'' then Some (JObj [], r') else pmembers n r [])
          else if c = CHR ''-'' \<or> isDigit c then pnumber (c # r)
          else if c = CHR ''n'' then pliteral ''null'' JNull (c # r)
          else if c = CHR ''t'' then pliteral ''true'' (JBool True) (c # r)
          else pliteral ''false'' (JBool False) (c # r))"
| "pelems 0 s acc = None"
| "pelems (Suc n) s acc =
     (case pvalue n s of
        None \<Rightarrow> None
      | Some (v, r) \<Rightarrow>
          (case skipWs r of
             [] \<Rightarrow> None
           | d # r' \<Rightarrow>
               if d = CHR '','' then pelems n r' (acc @ [v])
               else if d = CHR '']'' then Some (JArr (acc @ [v]), r')
               else None))"
| "pmembers 0 s acc = None"
| "pmembers (Suc n) s acc =
     (case skipWs s of
        [] \<Rightarrow> None
      | q # s' \<Rightarrow>
          if q \<noteq> CHR 0x22 then None
          else
            (case pstring s' of
               None \<Rightarrow> None
             | Some (k, r) \<Rightarrow>
                 (case skipWs r of
                    [] \<Rightarrow> None
                  | c # r1 \<Rightarrow>
                      if c \<noteq> CHR '':'' then None
                      else
                        (case pvalue n r1 of
                           None \<Rightarrow> None
                         | Some (v, r2) \<Rightarrow>
                             (case skipWs r2 of
                                [] \<Rightarrow> None
                              | d # r3 \<Rightarrow>
                                  if d = CHR '','' then pmembers n r3 (putField k v acc)
                                  else if d = CHR ''}'' then Some (JObj (putField k v acc), r3)
                                  else None)))))"

definition JSON_parse :: "string \<Rightarrow> json res" where
  "JSON_parse s =
     (case pvalue (length s) s of
        Some (v, r) \<Rightarrow> if skipWs r = [] then Inr v else Inl (Error ''SyntaxError'')
      | None \<Rightarrow> Inl (Error ''SyntaxError''))"

section \<open>Round trip\<close>

subsection \<open>String literals\<close>

lemma pstring_quote: "pstring (CHR 0x22 # r) = Some ([], r)"
  by (subst pstring.simps) simp

lemma pstring_escape:
  "escape t = Some (u, r) \<Longrightarrow>
    pstring (CHR 0x5C # t) = map_option (\<lambda>(v, r'). (u @ v, r')) (pstring r)"
  by (subst pstring.simps) simp

lemma pstring_plain:
  "c \<noteq> CHR 0x22 \<Longrightarrow> c \<noteq> CHR 0x5C \<Longrightarrow> 32 \<le> code c \<Longrightarrow>
    pstring (c # t) = map_option (\<lambda>(u, r'). (c # u, r')) (pstring t)"
  by (subst pstring.simps) simp

text \<open>What \<open>stringify\<close> writes for one character is either the character or one escape for it.\<close>

lemma escape_control:
  assumes "code c < 32"
  shows "escape (CHR ''u'' # CHR ''0'' # CHR ''0'' # hexDigit (code c div 16)
    # hexDigit (code c mod 16) # r) = Some ([c], r)"
proof -
  have "hexVal CHR ''0'' = Some 0" by code_simp
  moreover have "code c div 16 < 16" using assms by auto
  ultimately have "hex4 (CHR ''0'' # CHR ''0'' # hexDigit (code c div 16) # hexDigit (code c mod 16) # r)
      = Some (code c, r)"
    by (simp add: hexVal_hexDigit)
  then show ?thesis using assms by (simp add: escape_def unicodeEscape_def utf8Char_def)
qed

lemma escChar_cases:
  "(\<exists>t. escChar c = CHR 0x5C # t \<and> (\<forall>r. escape (t @ r) = Some ([c], r))) \<or>
   (escChar c = [c] \<and> c \<noteq> CHR 0x22 \<and> c \<noteq> CHR 0x5C \<and> 32 \<le> code c)"
proof -
  have eq: "char_of (code c) = c" by simp
  consider "c = CHR 0x22" | "c = CHR 0x5C" | "code c = 8" | "code c = 9" | "code c = 10"
    | "code c = 12" | "code c = 13" | "c \<noteq> CHR 0x22" "c \<noteq> CHR 0x5C" "32 \<le> code c"
    | "code c < 32" "code c \<notin> {8, 9, 10, 12, 13}"
    by fastforce
  then show ?thesis
  proof cases
    case 9
    then show ?thesis using escape_control [of c] by (auto simp: escChar_def)
  qed (use eq in \<open>auto simp: escChar_def escape_def simpleEscape_def\<close>)
qed

lemma pstring_escaped: "pstring (concat (map escChar s) @ CHR 0x22 # r) = Some (s, r)"
proof (induction s)
  case Nil
  then show ?case by (simp add: pstring_quote)
next
  case (Cons c s)
  let ?rest = "concat (map escChar s) @ CHR 0x22 # r"
  show ?case
    using escChar_cases [of c]
  proof
    assume "\<exists>t. escChar c = CHR 0x5C # t \<and> (\<forall>r. escape (t @ r) = Some ([c], r))"
    then obtain t where t: "escChar c = CHR 0x5C # t" and esc: "escape (t @ ?rest) = Some ([c], ?rest)"
      by blast
    have "pstring (CHR 0x5C # t @ ?rest) = Some (c # s, r)"
      using pstring_escape [OF esc] Cons.IH by simp
    then show ?thesis using t by simp
  next
    assume "escChar c = [c] \<and> c \<noteq> CHR 0x22 \<and> c \<noteq> CHR 0x5C \<and> 32 \<le> code c"
    then show ?thesis using Cons.IH by (simp add: pstring_plain)
  qed
qed

subsection \<open>Numbers\<close>

lemma isDigit_digit [simp]: "n < 10 \<Longrightarrow> isDigit (char_of (48 + n :: nat))"
  by (simp add: isDigit_def)

lemma showNat_digits: "list_all isDigit (showNat n)"
proof (induction n rule: showNat.induct)
  case (1 n)
  then show ?case by (subst showNat.simps) simp
qed

lemma showNat_nonempty [simp]: "showNat n \<noteq> []"
  by (subst showNat.simps) simp

lemma readNat_showNat: "readNat (showNat n) = n"
proof (induction n rule: showNat.induct)
  case (1 n)
  show ?case
  proof (cases "n < 10")
    case True
    then show ?thesis by (subst showNat.simps) (simp add: readNat_def)
  next
    case False
    then show ?thesis using 1 by (subst showNat.simps) (simp add: readNat_def)
  qed
qed

lemma showNat_leading_zero: "hd (showNat n) = CHR ''0'' \<Longrightarrow> n = 0"
proof (induction n rule: showNat.induct)
  case (1 n)
  have zero: "code CHR ''0'' = (48 :: nat)" by code_simp
  show ?case
  proof (cases "n < 10")
    case True
    then have "char_of (48 + n) = CHR ''0''" using 1 by (subst (asm) showNat.simps) simp
    then have "code (char_of (48 + n)) = (48 :: nat)" using zero by simp
    then show ?thesis using True by simp
  next
    case False
    then have "hd (showNat (n div 10)) = CHR ''0''"
      using "1.prems" by (subst (asm) showNat.simps) simp
    then show ?thesis using 1 False by simp
  qed
qed

definition follow :: "string \<Rightarrow> bool" where
  "follow r = (r = [] \<or> hd r \<in> {CHR '','', CHR '']'', CHR ''}''})"

lemma follow_Nil [simp]: "follow []"
  by (simp add: follow_def)

lemma follow_Cons [simp]: "follow (c # r) \<longleftrightarrow> c \<in> {CHR '','', CHR '']'', CHR ''}''}"
  by (simp add: follow_def)

lemma follow_not_number:
  assumes "follow r"
  shows "takeWhile isDigit r = []" and "\<not> (r \<noteq> [] \<and> hd r \<in> {CHR ''.'', CHR ''e'', CHR ''E''})"
    and "skipWs r = r"
  using assms by (cases r; auto simp: isDigit_def skipWs_def isJsonWs_def)+

lemma pdigits_showNat: "follow r \<Longrightarrow> pdigits (showNat n @ r) = Some (n, r)"
proof -
  assume r: "follow r"
  have tw: "takeWhile isDigit (showNat n @ r) = showNat n"
    using showNat_digits [of n] follow_not_number(1) [OF r] by (simp add: takeWhile_append2 list_all_iff)
  have "showNat 0 = [CHR ''0'']" by code_simp
  then have "(if showNat n \<noteq> [] \<and> hd (showNat n) = CHR ''0'' then [CHR ''0''] else showNat n) = showNat n"
    using showNat_leading_zero [of n] by auto
  then show ?thesis
    using follow_not_number(2) [OF r] unfolding pdigits_def tw Let_def
    by (simp add: readNat_showNat del: insert_iff)
qed

lemma showNat_hd: "\<exists>c t. showNat n = c # t \<and> isDigit c"
  using showNat_digits [of n] by (cases "showNat n") auto

lemma pnumber_showInt: "follow r \<Longrightarrow> pnumber (showInt i @ r) = Some (JNum i, r)"
proof (cases "i < 0")
  case True
  then show "follow r \<Longrightarrow> ?thesis" by (simp add: pnumber_def showInt_def pdigits_showNat)
next
  case False
  obtain c t where c: "showNat (nat i) = c # t" "isDigit c" using showNat_hd by blast
  then have "c \<noteq> CHR ''-''" by (auto simp: isDigit_def)
  with False c show "follow r \<Longrightarrow> ?thesis"
    using pdigits_showNat [of r "nat i"] by (simp add: pnumber_def showInt_def)
qed

subsection \<open>Values\<close>

definition value_start :: "char \<Rightarrow> bool" where
  "value_start c = (\<not> isJsonWs c \<and> c \<noteq> CHR '']'' \<and> c \<noteq> CHR ''}'')"

lemma stringify_hd: "\<exists>c t. stringify j = c # t \<and> value_start c"
proof (cases j)
  case (JNum i)
  obtain c t where "showNat (nat i) = c # t" "isDigit c" using showNat_hd by blast
  then show ?thesis using JNum
    by (cases "i < 0") (auto simp: showInt_def value_start_def isJsonWs_def isDigit_def)
qed (auto simp: value_start_def isJsonWs_def quote_def)

lemma skipWs_value: "value_start c \<Longrightarrow> skipWs (c # t) = c # t"
  by (simp add: skipWs_def value_start_def)

lemma skipWs_punct [simp]:
  "skipWs (CHR '','' # r) = CHR '','' # r" "skipWs (CHR '']'' # r) = CHR '']'' # r"
  "skipWs (CHR ''}'' # r) = CHR ''}'' # r" "skipWs (CHR '':'' # r) = CHR '':'' # r"
  "skipWs (CHR 0x22 # r) = CHR 0x22 # r" "skipWs (CHR ''['' # r) = CHR ''['' # r"
  "skipWs (CHR ''{'' # r) = CHR ''{'' # r" "skipWs [] = []"
  by (simp_all add: skipWs_def isJsonWs_def)

text \<open>A value prints and parses back, with any text after it that may follow a value.\<close>

definition parses_back :: "json \<Rightarrow> bool" where
  "parses_back j = (\<forall>n r. length (stringify j) \<le> n \<longrightarrow> follow r \<longrightarrow>
     pvalue n (stringify j @ r) = Some (j, r))"

lemma parses_backD:
  "parses_back j \<Longrightarrow> length (stringify j) \<le> n \<Longrightarrow> follow r \<Longrightarrow> pvalue n (stringify j @ r) = Some (j, r)"
  by (simp add: parses_back_def)

lemma joinWith_map_Cons:
  "xs \<noteq> [] \<Longrightarrow> joinWith sep (map f (x # xs)) = f x @ sep @ joinWith sep (map f xs)"
  by (simp add: joinWith_Cons)

lemma pelems_join:
  assumes "xs \<noteq> []" and "\<And>x. x \<in> set xs \<Longrightarrow> parses_back x"
    and "length (joinWith '','' (map stringify xs)) < n"
  shows "pelems n (joinWith '','' (map stringify xs) @ CHR '']'' # r) acc = Some (JArr (acc @ xs), r)"
  using assms
proof (induction xs arbitrary: n acc)
  case Nil
  then show ?case by simp
next
  case (Cons x xs)
  then obtain m where n: "n = Suc m" by (cases n) auto
  have x: "parses_back x" using Cons.prems by simp
  show ?case
  proof (cases "xs = []")
    case True
    then show ?thesis using parses_backD [OF x, of m "CHR '']'' # r"] Cons.prems n by simp
  next
    case False
    let ?rest = "joinWith '','' (map stringify xs)"
    have len: "length (stringify x) \<le> m" and len': "length ?rest < m"
      using Cons.prems(3) n False by (auto simp: joinWith_map_Cons simp del: list.map)
    have "pvalue m (stringify x @ CHR '','' # ?rest @ CHR '']'' # r)
        = Some (x, CHR '','' # ?rest @ CHR '']'' # r)"
      by (rule parses_backD [OF x len]) simp
    moreover have "pelems m (?rest @ CHR '']'' # r) (acc @ [x]) = Some (JArr ((acc @ [x]) @ xs), r)"
      using Cons.IH [OF False _ len'] Cons.prems by simp
    ultimately show ?thesis
      using n False by (simp add: joinWith_map_Cons del: list.map)
  qed
qed

lemma putField_new: "k \<notin> fst ` set acc \<Longrightarrow> putField k v acc = acc @ [(k, v)]"
  by (induction acc) auto

abbreviation member :: "string \<times> json \<Rightarrow> string" where
  "member kv \<equiv> quote (fst kv) @ '':'' @ stringify (snd kv)"

lemma pmembers_join:
  assumes "kvs \<noteq> []" and "\<And>kv. kv \<in> set kvs \<Longrightarrow> parses_back (snd kv)"
    and "distinct (map fst (acc @ kvs))"
    and "length (joinWith '','' (map member kvs)) < n"
  shows "pmembers n (joinWith '','' (map member kvs) @ CHR ''}'' # r) acc = Some (JObj (acc @ kvs), r)"
  using assms
proof (induction kvs arbitrary: n acc)
  case Nil
  then show ?case by simp
next
  case (Cons kv kvs)
  obtain k v where kv: "kv = (k, v)" by fastforce
  from Cons.prems obtain m where n: "n = Suc m" by (cases n) auto
  have v: "parses_back v" using Cons.prems(2) [of kv] kv by simp
  have put: "putField k v acc = acc @ [kv]" using Cons.prems(3) kv by (auto simp: putField_new)
  show ?case
  proof (cases "kvs = []")
    case True
    then have "pvalue m (stringify v @ CHR ''}'' # r) = Some (v, CHR ''}'' # r)"
      using Cons.prems(4) n kv by (intro parses_backD [OF v]) (auto simp: quote_def)
    then show ?thesis
      using True n kv put by (simp add: quote_def pstring_escaped)
  next
    case False
    let ?rest = "joinWith '','' (map member kvs)"
    have len: "length (stringify v) \<le> m" and len': "length ?rest < m"
      using Cons.prems(4) n kv False
      by (auto simp: joinWith_map_Cons quote_def simp del: list.map)
    have "pvalue m (stringify v @ CHR '','' # ?rest @ CHR ''}'' # r)
        = Some (v, CHR '','' # ?rest @ CHR ''}'' # r)"
      by (rule parses_backD [OF v len]) simp
    moreover have "pmembers m (?rest @ CHR ''}'' # r) (acc @ [kv]) = Some (JObj ((acc @ [kv]) @ kvs), r)"
      using Cons.IH [OF False _ _ len', of "acc @ [kv]"] Cons.prems by auto
    ultimately show ?thesis
      using n False kv put
      by (simp add: joinWith_map_Cons quote_def pstring_escaped del: list.map)
  qed
qed

lemma parses_back_scalar:
  "parses_back JNull" "parses_back (JBool b)" "parses_back (JStr s)" "parses_back (JNum i)"
proof -
  have lit: "isDigit CHR ''n'' = False" "isDigit CHR ''t'' = False" "isDigit CHR ''f'' = False"
    by (simp_all add: isDigit_def)
  have ws: "skipWs (CHR ''n'' # t) = CHR ''n'' # t" "skipWs (CHR ''t'' # t) = CHR ''t'' # t"
      "skipWs (CHR ''f'' # t) = CHR ''f'' # t" for t
    by (simp_all add: skipWs_def isJsonWs_def)
  show "parses_back JNull"
    unfolding parses_back_def
  proof (intro allI impI)
    fix n r assume "length (stringify JNull) \<le> n"
    then show "pvalue n (stringify JNull @ r) = Some (JNull, r)"
      by (cases n) (simp_all add: ws lit pliteral_def startsWith_def)
  qed
  show "parses_back (JBool b)"
    unfolding parses_back_def
  proof (intro allI impI)
    fix n r assume "length (stringify (JBool b)) \<le> n"
    then show "pvalue n (stringify (JBool b) @ r) = Some (JBool b, r)"
      by (cases n; cases b) (simp_all add: ws lit pliteral_def startsWith_def)
  qed
  show "parses_back (JStr s)"
    unfolding parses_back_def
  proof (intro allI impI)
    fix n r assume "length (stringify (JStr s)) \<le> n"
    then show "pvalue n (stringify (JStr s) @ r) = Some (JStr s, r)"
      by (cases n) (simp_all add: quote_def pstring_escaped)
  qed
  show "parses_back (JNum i)"
    unfolding parses_back_def
  proof (intro allI impI)
    fix n r assume n: "length (stringify (JNum i)) \<le> n" and r: "follow r"
    obtain c t where c: "showInt i = c # t" "value_start c" "c = CHR ''-'' \<or> isDigit c"
    proof (cases "i < 0")
      case True
      then show ?thesis
        by (intro that [of "CHR ''-''" "showNat (nat (- i))"])
          (simp_all add: showInt_def value_start_def isJsonWs_def)
    next
      case False
      obtain d u where "showNat (nat i) = d # u" "isDigit d" using showNat_hd by blast
      then show ?thesis using False
        by (intro that [of d u]) (auto simp: showInt_def value_start_def isJsonWs_def isDigit_def)
    qed
    then have neq: "c \<noteq> CHR 0x22" "c \<noteq> CHR ''[''" "c \<noteq> CHR ''{''" by (auto simp: isDigit_def)
    from n c obtain m where "n = Suc m" by (cases n) auto
    then show "pvalue n (stringify (JNum i) @ r) = Some (JNum i, r)"
      using pnumber_showInt [OF r, of i] c neq by (auto simp: skipWs_value)
  qed
qed

lemma parses_back_arr:
  assumes "\<And>x. x \<in> set xs \<Longrightarrow> parses_back x"
  shows "parses_back (JArr xs)"
  unfolding parses_back_def
proof (intro allI impI)
  fix n r assume n: "length (stringify (JArr xs)) \<le> n"
  then obtain m where m: "n = Suc m" by (cases n) auto
  show "pvalue n (stringify (JArr xs) @ r) = Some (JArr xs, r)"
  proof (cases "xs = []")
    case True
    then show ?thesis using m by simp
  next
    case False
    then obtain y ys where ys: "xs = y # ys" by (cases xs) auto
    obtain c t where "stringify y = c # t" "value_start c" using stringify_hd by blast
    then obtain t' where "joinWith '','' (map stringify xs) = c # t'"
      using ys by (cases ys) auto
    moreover have "pelems m (joinWith '','' (map stringify xs) @ CHR '']'' # r) [] = Some (JArr xs, r)"
      using pelems_join [OF False assms, of m r "[]"] n m by simp
    ultimately show ?thesis
      using m \<open>value_start c\<close> skipWs_value [of c] by (simp add: value_start_def)
  qed
qed

lemma parses_back_obj:
  assumes "\<And>kv. kv \<in> set kvs \<Longrightarrow> parses_back (snd kv)" and "distinct (map fst kvs)"
  shows "parses_back (JObj kvs)"
  unfolding parses_back_def
proof (intro allI impI)
  fix n r assume n: "length (stringify (JObj kvs)) \<le> n"
  then obtain m where m: "n = Suc m" by (cases n) auto
  show "pvalue n (stringify (JObj kvs) @ r) = Some (JObj kvs, r)"
  proof (cases "kvs = []")
    case True
    then show ?thesis using m by simp
  next
    case False
    then obtain y ys where ys: "kvs = y # ys" by (cases kvs) auto
    then obtain t' where "joinWith '','' (map member kvs) = CHR 0x22 # t'"
      by (cases ys) (auto simp: quote_def)
    moreover have "pmembers m (joinWith '','' (map member kvs) @ CHR ''}'' # r) [] = Some (JObj kvs, r)"
      using pmembers_join [OF False assms(1), of "[]" m r] assms(2) n m by simp
    ultimately show ?thesis using m by simp
  qed
qed

lemma stringify_parses_back: "json_wf j \<Longrightarrow> parses_back j"
proof (induction j)
  case (JArr xs)
  then show ?case by (intro parses_back_arr) (auto simp: list_all_iff)
next
  case (JObj kvs)
  show ?case
  proof (rule parses_back_obj)
    fix kv assume kv: "kv \<in> set kvs"
    moreover have "snd kv \<in> Basic_BNFs.snds kv" by (cases kv) simp
    ultimately show "parses_back (snd kv)" using JObj by (auto simp: list_all_iff)
  next
    show "distinct (map fst kvs)" using JObj.prems by simp
  qed
qed (auto intro: parses_back_scalar)

lemma JSON_parse_stringify: "json_wf j \<Longrightarrow> JSON_parse (stringify j) = Inr j"
  using parses_backD [OF stringify_parses_back, of j "length (stringify j)" "[]"]
  by (simp add: JSON_parse_def)

interpretation json: codec stringify JSON_parse json_wf
  by unfold_locales (rule JSON_parse_stringify)

end
