(* ===== verification/Sd_Jwt.thy ===== *)
theory Sd_Jwt
  imports Json
begin

text \<open>
  The SD-JWT VC primitives of \<open>packages/sdk/src/sd-jwt.ts\<close>: holder key pairs, JWS signing and
  verification with EdDSA, the parsed credential \<open>SdJwtVc\<close> with its accessors, \<open>present\<close>, which
  discloses a subset of claims and appends a key-binding JWT, and the verifier \<open>verifySdJwt\<close>; and
  \<open>presentSdJwtVc\<close> of \<open>packages/sdk/src/present.ts\<close>.

  Ed25519 and SHA-256 come from the \<open>@noble\<close> packages and are parameters of the definitions, the
  record \<open>noble\<close>.  What the code relies on is the named hypothesis \<open>sig_correct\<close>: a signature made
  with a seed verifies under the public key of that seed.
\<close>

section \<open>Parameters\<close>

text \<open>The operations may throw, as the library does on malformed keys and signatures.\<close>

record noble =
  nobleSha256 :: "bytes \<Rightarrow> bytes"
  edPublicKey :: "bytes \<Rightarrow> bytes res"
  edSign :: "bytes \<Rightarrow> bytes \<Rightarrow> bytes res"
  edVerify :: "bytes \<Rightarrow> bytes \<Rightarrow> bytes \<Rightarrow> bool res"

definition sig_correct :: "noble \<Rightarrow> bool" where
  "sig_correct cr \<longleftrightarrow>
     (\<forall>seed msg. length seed = 32 \<longrightarrow>
        (\<exists>pk sg. edPublicKey cr seed = Inr pk \<and> length pk = 32 \<and>
          edSign cr msg seed = Inr sg \<and> edVerify cr sg msg pk = Inr True))"

section \<open>Key pairs\<close>

record keyPair =
  seed :: bytes

definition newKeyPair :: "bytes \<Rightarrow> keyPair res" where
  "newKeyPair s =
     (if length s \<noteq> 32 then Inl (Error ''Ed25519 seed must be 32 bytes'') else Inr \<lparr>seed = s\<rparr>)"

text \<open>\<open>randomPrivateKey()\<close> of the library is the argument.\<close>

definition KeyPair_generate :: "bytes \<Rightarrow> keyPair res" where
  "KeyPair_generate random = newKeyPair random"

definition KeyPair_fromHex :: "string \<Rightarrow> keyPair res" where
  "KeyPair_fromHex privateKeyHex = bindR (hexDecode privateKeyHex) newKeyPair"

definition publicKeyHex :: "noble \<Rightarrow> keyPair \<Rightarrow> string res" where
  "publicKeyHex cr kp = bindR (edPublicKey cr (seed kp)) (\<lambda>pk. Inr (hexEncode pk))"

definition KeyPair_toHex :: "keyPair \<Rightarrow> string" where
  "KeyPair_toHex kp = hexEncode (seed kp)"

definition PublicKey_fromHex :: "string \<Rightarrow> string res" where
  "PublicKey_fromHex hex =
     bindR (hexDecode hex) (\<lambda>b.
       if length b \<noteq> 32 then Inl (Error ''Ed25519 pubkey must be 32 bytes'') else Inr (toLowerCase hex))"

section \<open>JWS with EdDSA\<close>

definition JWT_TYP :: string where "JWT_TYP = ''dc+sd-jwt''"
definition JWT_TYP_LEGACY :: string where "JWT_TYP_LEGACY = ''vc+sd-jwt''"
definition KB_TYP :: string where "KB_TYP = ''kb+jwt''"
definition SD_ALG :: string where "SD_ALG = ''sha-256''"
definition ALG_EDDSA :: string where "ALG_EDDSA = ''EdDSA''"

text \<open>One base64url segment of a JWS, and reading it back.\<close>

definition jsonSegment :: "json \<Rightarrow> string" where
  "jsonSegment v = b64urlEncode (utf8Bytes (stringify v))"

definition parseSegment :: "string \<Rightarrow> json res" where
  "parseSegment s = bindR (b64urlDecode s) (\<lambda>b. JSON_parse (utf8String b))"

definition jwsSignEd25519 :: "noble \<Rightarrow> json \<Rightarrow> json \<Rightarrow> string \<Rightarrow> string res" where
  "jwsSignEd25519 cr header payload privSeedHex =
     (let h = jsonSegment header; p = jsonSegment payload; signingInput = h @ ''.'' @ p in
      bindR (hexDecode privSeedHex) (\<lambda>sd.
      bindR (edSign cr (utf8Bytes signingInput) sd) (\<lambda>sg.
        Inr (signingInput @ ''.'' @ b64urlEncode sg))))"

definition jwsVerifyEd25519 :: "noble \<Rightarrow> string \<Rightarrow> string \<Rightarrow> (json \<times> json) res" where
  "jwsVerifyEd25519 cr token pubKeyHex =
     (let parts = splitOn (CHR ''.'') token in
      if length parts \<noteq> 3 then Inl (Error ''JWS must have 3 parts'')
      else
        let signingInput = parts ! 0 @ ''.'' @ parts ! 1 in
        bindR (b64urlDecode (parts ! 2)) (\<lambda>sg.
        bindR (hexDecode pubKeyHex) (\<lambda>pk.
        bindR (edVerify cr sg (utf8Bytes signingInput) pk) (\<lambda>good.
          if \<not> good then Inl (Error ''JWS signature invalid'')
          else
            bindR (parseSegment (parts ! 0)) (\<lambda>header.
            bindR (parseSegment (parts ! 1)) (\<lambda>payload. Inr (header, payload)))))))"

section \<open>The parsed credential\<close>

record kbInput =
  holderPrivateKeyHex :: string
  kb_aud :: string
  kb_nonce :: string
  kb_iat :: int

record verificationResult =
  vr_valid :: bool
  vr_claims :: "string option"
  vr_issuer :: "string option"
  vr_credentialType :: "string option"
  vr_keyBound :: bool
  vr_error :: "string option"

record sdJwtVc =
  jwt :: string
  disclosures :: "(string \<times> string) list"

definition parseDisclosure :: "string \<Rightarrow> (string \<times> string) res" where
  "parseDisclosure d =
     bindR (parseSegment d) (\<lambda>arr.
       case asArr (Some arr) of
         None \<Rightarrow> Inl (Error ''disclosure missing claim name'')
       | Some xs \<Rightarrow>
           (case asStr (item xs 1) of
              None \<Rightarrow> Inl (Error ''disclosure missing claim name'')
            | Some name \<Rightarrow> Inr (name, d)))"

text \<open>\<open>parts.slice(1, -1)\<close> without the empty elements.\<close>

definition disclosureSlice :: "string list \<Rightarrow> string list" where
  "disclosureSlice parts = filter (\<lambda>d. d \<noteq> []) (butlast (tl parts))"

definition SdJwtVc_parse :: "string \<Rightarrow> sdJwtVc res" where
  "SdJwtVc_parse sdJwt =
     (let parts = splitOn (CHR ''~'') sdJwt in
      if length parts < 2 then Inl (Error ''not an SD-JWT (no ~)'')
      else bindR (mapR parseDisclosure (disclosureSlice parts)) (\<lambda>ds.
             Inr \<lparr>jwt = hd parts, disclosures = ds\<rparr>))"

definition serialize :: "sdJwtVc \<Rightarrow> string" where
  "serialize vc = jwt vc @ ''~'' @ concat (map (\<lambda>(_, d). d @ ''~'') (disclosures vc))"

definition credentialId :: "noble \<Rightarrow> sdJwtVc \<Rightarrow> string" where
  "credentialId cr vc = b64urlEncode (nobleSha256 cr (utf8Bytes (jwt vc)))"

definition credentialIdHex :: "noble \<Rightarrow> sdJwtVc \<Rightarrow> string" where
  "credentialIdHex cr vc = bytesToHex (nobleSha256 cr (utf8Bytes (jwt vc)))"

definition disclosedClaimNames :: "sdJwtVc \<Rightarrow> string list" where
  "disclosedClaimNames vc = map fst (disclosures vc)"

text \<open>The result is \<open>Some JNull\<close> for \<open>null\<close> and \<open>None\<close> for \<open>undefined\<close>.\<close>

definition disclosedClaim :: "sdJwtVc \<Rightarrow> string \<Rightarrow> json option res" where
  "disclosedClaim vc name =
     (case map_of (disclosures vc) name of
        None \<Rightarrow> Inr (Some JNull)
      | Some d \<Rightarrow>
          bindR (parseSegment d) (\<lambda>arr.
            case asArr (Some arr) of None \<Rightarrow> Inr (Some JNull) | Some xs \<Rightarrow> Inr (item xs 2)))"

text \<open>Reading a property of \<open>null\<close> throws.\<close>

definition readProp :: "string \<Rightarrow> json \<Rightarrow> json option res" where
  "readProp k v = (if v = JNull then Inl (TypeError ''Cannot read properties of null'') else Inr (getField k v))"

definition owlRootHex :: "sdJwtVc \<Rightarrow> string option res" where
  "owlRootHex vc =
     (let parts = splitOn (CHR ''.'') (jwt vc) in
      if length parts \<noteq> 3 then Inr None
      else bindR (parseSegment (parts ! 1)) (\<lambda>payload.
           bindR (readProp ''owl_root'' payload) (\<lambda>v. Inr (asStr v))))"

record rawDisclosure =
  rd_name :: string
  rd_value :: "json option"
  rd_salt :: string

text \<open>A disclosure whose JSON is not an array with a string salt contributes nothing.\<close>

definition rawDisclosureOf :: "string \<times> string \<Rightarrow> rawDisclosure list res" where
  "rawDisclosureOf nd =
     bindR (parseSegment (snd nd)) (\<lambda>arr.
       case asArr (Some arr) of
         None \<Rightarrow> Inr []
       | Some xs \<Rightarrow>
           (case asStr (item xs 0) of
              None \<Rightarrow> Inr []
            | Some salt \<Rightarrow> Inr [\<lparr>rd_name = fst nd, rd_value = item xs 2, rd_salt = salt\<rparr>]))"

definition disclosuresRaw :: "sdJwtVc \<Rightarrow> rawDisclosure list res" where
  "disclosuresRaw vc = bindR (mapR rawDisclosureOf (disclosures vc)) (\<lambda>rs. Inr (concat rs))"

text \<open>\<open>out[name] = salt\<close> in order: the last salt of a repeated name stays.\<close>

definition disclosureSaltsByName :: "sdJwtVc \<Rightarrow> (string \<Rightarrow> string option) res" where
  "disclosureSaltsByName vc =
     bindR (disclosuresRaw vc) (\<lambda>rs. Inr (foldl (\<lambda>m r. m(rd_name r \<mapsto> rd_salt r)) Map.empty rs))"

definition peekIssuer :: "sdJwtVc \<Rightarrow> string res" where
  "peekIssuer vc =
     (let parts = splitOn (CHR ''.'') (jwt vc) in
      if length parts \<noteq> 3 then Inl (Error ''issuer JWT must have 3 parts'')
      else bindR (parseSegment (parts ! 1)) (\<lambda>payload.
           bindR (readProp ''iss'' payload) (\<lambda>v.
             case asStr v of None \<Rightarrow> Inl (Error ''iss missing'') | Some iss \<Rightarrow> Inr iss)))"

section \<open>Presentation\<close>

definition pickDisclosure :: "sdJwtVc \<Rightarrow> string \<Rightarrow> string res" where
  "pickDisclosure vc name =
     (case map_of (disclosures vc) name of
        None \<Rightarrow> Inl (Error (''no disclosure for '' @ [CHR 0x27] @ name @ [CHR 0x27]))
      | Some d \<Rightarrow> Inr d)"

definition kbHeader :: json where
  "kbHeader = JObj [(''typ'', JStr KB_TYP), (''alg'', JStr ALG_EDDSA)]"

definition kbPayload :: "kbInput \<Rightarrow> string \<Rightarrow> json" where
  "kbPayload kb sdHash =
     JObj [(''iat'', JNum (kb_iat kb)), (''aud'', JStr (kb_aud kb)),
           (''nonce'', JStr (kb_nonce kb)), (''sd_hash'', JStr sdHash)]"

definition sdHashOf :: "noble \<Rightarrow> string \<Rightarrow> string" where
  "sdHashOf cr s = b64urlEncode (nobleSha256 cr (utf8Bytes s))"

definition present :: "noble \<Rightarrow> sdJwtVc \<Rightarrow> string list \<Rightarrow> kbInput option \<Rightarrow> string res" where
  "present cr vc disclose kb =
     bindR (mapR (pickDisclosure vc) disclose) (\<lambda>ds.
       let s = jwt vc @ ''~'' @ concat (map (\<lambda>d. d @ ''~'') ds) in
       case kb of
         None \<Rightarrow> Inr s
       | Some k \<Rightarrow>
           bindR (jwsSignEd25519 cr kbHeader (kbPayload k (sdHashOf cr s)) (holderPrivateKeyHex k))
             (\<lambda>kbToken. Inr (s @ kbToken)))"

text \<open>\<open>presentSdJwtVc\<close> of \<open>present.ts\<close>; \<open>now\<close> is \<open>Math.floor(Date.now() / 1000)\<close>.\<close>

definition presentSdJwtVc ::
  "noble \<Rightarrow> int \<Rightarrow> string \<Rightarrow> string \<Rightarrow> string list \<Rightarrow> string \<Rightarrow> string \<Rightarrow> int option \<Rightarrow> string res" where
  "presentSdJwtVc cr now sdJwtVc holderKeyHex disclose aud nonce iat =
     bindR (SdJwtVc_parse sdJwtVc) (\<lambda>vc.
       present cr vc disclose
         (Some \<lparr>holderPrivateKeyHex = holderKeyHex, kb_aud = aud, kb_nonce = nonce,
                kb_iat = the_or now iat\<rparr>))"

section \<open>Verification\<close>

text \<open>Optional chaining \<open>v?.k\<close>.\<close>

definition optProp :: "string \<Rightarrow> json option \<Rightarrow> json option" where
  "optProp k v = (case v of None \<Rightarrow> None | Some w \<Rightarrow> getField k w)"

fun falsy :: "json option \<Rightarrow> bool" where
  "falsy None = True"
| "falsy (Some JNull) = True"
| "falsy (Some (JBool b)) = (\<not> b)"
| "falsy (Some (JNum n)) = (n = 0)"
| "falsy (Some (JStr s)) = (s = [])"
| "falsy _ = False"

text \<open>One turn of the loop over the disclosures: the claims collected so far and one segment.\<close>

definition checkDisclosure ::
  "noble \<Rightarrow> json list \<Rightarrow> (string \<times> json) list \<Rightarrow> string \<Rightarrow> (string \<times> json) list res" where
  "checkDisclosure cr sdSet claims d =
     (if JStr (b64urlEncode (nobleSha256 cr (utf8Bytes d))) \<notin> set sdSet
      then Inl (Error ''disclosure not in _sd'')
      else
        bindR (parseSegment d) (\<lambda>arr.
          case arr of
            JArr [_, JStr name, v] \<Rightarrow> Inr (putField name v claims)
          | _ \<Rightarrow> Inl (Error ''bad disclosure shape'')))"

fun checkDisclosures ::
  "noble \<Rightarrow> json list \<Rightarrow> (string \<times> json) list \<Rightarrow> string list \<Rightarrow> (string \<times> json) list res" where
  "checkDisclosures cr sdSet claims [] = Inr claims"
| "checkDisclosures cr sdSet claims (d # ds) =
     bindR (checkDisclosure cr sdSet claims d) (\<lambda>claims'. checkDisclosures cr sdSet claims' ds)"

definition mismatch :: "string option \<Rightarrow> json option \<Rightarrow> bool" where
  "mismatch want got = (case want of None \<Rightarrow> False | Some w \<Rightarrow> w \<noteq> [] \<and> got \<noteq> Some (JStr w))"

definition checkKb ::
  "noble \<Rightarrow> json \<Rightarrow> string \<Rightarrow> string \<Rightarrow> string option \<Rightarrow> string option \<Rightarrow> bool res" where
  "checkKb cr payload presentation kb audience nonce =
     (let cnfJwk = optProp ''jwk'' (optProp ''cnf'' (Some payload)) in
      if falsy cnfJwk then Inl (Error ''cnf.jwk missing'')
      else if optProp ''kty'' cnfJwk \<noteq> Some (JStr ''OKP'') \<or> optProp ''crv'' cnfJwk \<noteq> Some (JStr ''Ed25519'')
      then Inl (Error ''TS verify only supports Ed25519 cnf'')
      else
        (case asStr (optProp ''x'' cnfJwk) of
           None \<Rightarrow> Inl (TypeError ''cnf.jwk.x is not a string'')
         | Some x \<Rightarrow>
             bindR (b64urlDecode x) (\<lambda>xb.
             bindR (jwsVerifyEd25519 cr kb (hexEncode xb)) (\<lambda>(kh, kp).
               if optProp ''typ'' (Some kh) \<noteq> Some (JStr KB_TYP)
               then Inl (Error ''KB-JWT typ must be kb+jwt'')
               else if mismatch audience (optProp ''aud'' (Some kp))
               then Inl (Error ''KB-JWT aud mismatch'')
               else if mismatch nonce (optProp ''nonce'' (Some kp))
               then Inl (Error ''KB-JWT nonce mismatch'')
               else if optProp ''sd_hash'' (Some kp)
                    \<noteq> Some (JStr (sdHashOf cr (take (length presentation - length kb) presentation)))
               then Inl (Error ''KB-JWT sd_hash mismatch'')
               else Inr True))))"

definition verifyBody ::
  "noble \<Rightarrow> string \<Rightarrow> string \<Rightarrow> bool \<Rightarrow> string option \<Rightarrow> string option \<Rightarrow> verificationResult res" where
  "verifyBody cr presentation issuerPublicKeyHex requireKb audience nonce =
     (let segments = splitOn (CHR ''~'') presentation in
      if length segments < 2 then Inl (Error ''not an SD-JWT (no ~)'')
      else
        let kb = last segments in
        bindR (jwsVerifyEd25519 cr (hd segments) issuerPublicKeyHex) (\<lambda>(header, payload).
          let typ = optProp ''typ'' (Some header) in
          if typ \<noteq> Some (JStr JWT_TYP) \<and> typ \<noteq> Some (JStr JWT_TYP_LEGACY)
          then Inl (Error ''issuer JWT typ must be dc+sd-jwt'')
          else if optProp ''_sd_alg'' (Some payload) \<noteq> Some (JStr SD_ALG)
          then Inl (Error ''_sd_alg must be sha-256'')
          else
            bindR (checkDisclosures cr (the_or [] (asArr (getField ''_sd'' payload))) []
                     (disclosureSlice segments)) (\<lambda>claims.
            bindR (if kb \<noteq> [] then checkKb cr payload presentation kb audience nonce
                   else if requireKb then Inl (Error ''Key Binding required but absent'')
                   else Inr False) (\<lambda>keyBound.
              Inr \<lparr>vr_valid = True, vr_claims = Some (stringify (JObj claims)),
                   vr_issuer = asStr (getField ''iss'' payload),
                   vr_credentialType = asStr (getField ''vct'' payload),
                   vr_keyBound = keyBound, vr_error = None\<rparr>))))"

definition verifySdJwt ::
  "noble \<Rightarrow> string \<Rightarrow> string \<Rightarrow> bool \<Rightarrow> string option \<Rightarrow> string option \<Rightarrow> verificationResult" where
  "verifySdJwt cr presentation issuerPublicKeyHex requireKb audience nonce =
     (case verifyBody cr presentation issuerPublicKeyHex requireKb audience nonce of
        Inr r \<Rightarrow> r
      | Inl e \<Rightarrow> \<lparr>vr_valid = False, vr_claims = None, vr_issuer = None, vr_credentialType = None,
                   vr_keyBound = False, vr_error = Some (message e)\<rparr>)"

section \<open>Segments and signatures\<close>

interpretation utf8url: codec "\<lambda>s. b64urlEncode (utf8Bytes s)"
    "\<lambda>t. bindR (b64urlDecode t) (\<lambda>b. Inr (utf8String b))" "\<lambda>_. True"
  by unfold_locales (simp add: b64url.dec_enc)

interpretation seg: codec_chain stringify JSON_parse json_wf "\<lambda>s. b64urlEncode (utf8Bytes s)"
    "\<lambda>t. bindR (b64urlDecode t) (\<lambda>b. Inr (utf8String b))" "\<lambda>_. True"
  by unfold_locales simp

lemma parseSegment_jsonSegment: "json_wf v \<Longrightarrow> parseSegment (jsonSegment v) = Inr v"
  using seg.chain_dec_enc [of v] by (simp add: parseSegment_def jsonSegment_def bindR_assoc)

lemma jsonSegment_no_sep [simp]:
  "CHR ''.'' \<notin> set (jsonSegment v)" "CHR ''~'' \<notin> set (jsonSegment v)"
  by (simp_all add: jsonSegment_def)

lemma split_jws:
  "CHR ''.'' \<notin> set h \<Longrightarrow> CHR ''.'' \<notin> set p \<Longrightarrow> CHR ''.'' \<notin> set g \<Longrightarrow>
    splitOn (CHR ''.'') (h @ CHR ''.'' # p @ CHR ''.'' # g) = [h, p, g]"
  by (simp add: splitOn_append_sep splitOn_no_sep)

lemma sig_correctD:
  assumes "sig_correct cr" and "length sd = 32" and "edPublicKey cr sd = Inr pk"
    and "edSign cr msg sd = Inr sg"
  shows "edVerify cr sg msg pk = Inr True"
  using assms unfolding sig_correct_def by (metis sum.inject(2))

text \<open>What signing produces: three dot-free segments, the last one the signature.\<close>

lemma jwsSign_shape:
  assumes "jwsSignEd25519 cr header payload priv = Inr tok"
  obtains sd sg where "hexDecode priv = Inr sd"
    and "edSign cr (utf8Bytes (jsonSegment header @ CHR ''.'' # jsonSegment payload)) sd = Inr sg"
    and "tok = jsonSegment header @ CHR ''.'' # jsonSegment payload @ CHR ''.'' # b64urlEncode sg"
  using assms by (auto simp: jwsSignEd25519_def Let_def bindR_eq_Inr)

lemma jwsSign_no_tilde: "jwsSignEd25519 cr header payload priv = Inr tok \<Longrightarrow> CHR ''~'' \<notin> set tok \<and> tok \<noteq> []"
  by (auto elim!: jwsSign_shape)

lemma jws_sign_verify:
  assumes sig: "sig_correct cr" and wf: "json_wf header" "json_wf payload"
    and sd: "hexDecode priv = Inr sd" "length sd = 32" and pk: "edPublicKey cr sd = Inr pk"
    and tok: "jwsSignEd25519 cr header payload priv = Inr tok"
  shows "jwsVerifyEd25519 cr tok (hexEncode pk) = Inr (header, payload)"
proof -
  from tok obtain sg where
      sg: "edSign cr (utf8Bytes (jsonSegment header @ CHR ''.'' # jsonSegment payload)) sd = Inr sg"
    and t: "tok = jsonSegment header @ CHR ''.'' # jsonSegment payload @ CHR ''.'' # b64urlEncode sg"
    using sd by (auto elim!: jwsSign_shape)
  have "splitOn (CHR ''.'') tok = [jsonSegment header, jsonSegment payload, b64urlEncode sg]"
    unfolding t by (rule split_jws) simp_all
  then show ?thesis
    using sig_correctD [OF sig sd(2) pk sg] wf
    by (simp add: jwsVerifyEd25519_def b64url.dec_enc hex.dec_enc parseSegment_jsonSegment)
qed

text \<open>A token that verifies has a signature the key accepts over its first two segments.\<close>

lemma jwsVerify_sound:
  assumes "jwsVerifyEd25519 cr tok pub = Inr (header, payload)"
  obtains h p g sg pk where "splitOn (CHR ''.'') tok = [h, p, g]" and "b64urlDecode g = Inr sg"
    and "hexDecode pub = Inr pk" and "edVerify cr sg (utf8Bytes (h @ ''.'' @ p)) pk = Inr True"
    and "parseSegment h = Inr header" and "parseSegment p = Inr payload"
proof -
  from assms have "length (splitOn (CHR ''.'') tok) = 3"
    by (auto simp: jwsVerifyEd25519_def Let_def split: if_splits)
  then obtain h p g where parts: "splitOn (CHR ''.'') tok = [h, p, g]"
    by (auto simp: numeral_3_eq_3 length_Suc_conv)
  from assms parts obtain sg pk where "b64urlDecode g = Inr sg" and "hexDecode pub = Inr pk"
      and "edVerify cr sg (utf8Bytes (h @ ''.'' @ p)) pk = Inr True"
      and "parseSegment h = Inr header" and "parseSegment p = Inr payload"
    by (auto simp: jwsVerifyEd25519_def Let_def bindR_eq_Inr split: if_splits)
  with parts show ?thesis by (rule that)
qed

section \<open>Parsing and printing credentials\<close>

definition vc_wf :: "sdJwtVc \<Rightarrow> bool" where
  "vc_wf vc \<longleftrightarrow> CHR ''~'' \<notin> set (jwt vc) \<and>
     (\<forall>n d. (n, d) \<in> set (disclosures vc) \<longrightarrow>
        CHR ''~'' \<notin> set d \<and> d \<noteq> [] \<and> parseDisclosure d = Inr (n, d))"

lemma split_sdjwt:
  assumes "CHR ''~'' \<notin> set j" and "\<And>d. d \<in> set ds \<Longrightarrow> CHR ''~'' \<notin> set d" and "CHR ''~'' \<notin> set t"
  shows "splitOn (CHR ''~'') (j @ CHR ''~'' # concat (map (\<lambda>d. d @ ''~'') ds) @ t) = j # ds @ [t]"
proof -
  have "splitOn (CHR ''~'') (concat (map (\<lambda>d. d @ ''~'') ds) @ t) = ds @ [t]"
    using assms(2)
  proof (induction ds)
    case Nil
    then show ?case using assms(3) by (simp add: splitOn_no_sep)
  next
    case (Cons d ds)
    then show ?case by (simp add: splitOn_append_sep)
  qed
  then show ?thesis using assms(1) by (simp add: splitOn_append_sep)
qed

lemma disclosureSlice_eq:
  "(\<And>d. d \<in> set ds \<Longrightarrow> d \<noteq> []) \<Longrightarrow> disclosureSlice (j # ds @ [t]) = ds"
  by (simp add: disclosureSlice_def)

lemma parseDisclosure_snd: "parseDisclosure d = Inr (n, e) \<Longrightarrow> e = d"
  by (auto simp: parseDisclosure_def bindR_eq_Inr split: option.splits)

lemma mapR_parseDisclosure:
  "(\<And>n d. (n, d) \<in> set nds \<Longrightarrow> parseDisclosure d = Inr (n, d)) \<Longrightarrow>
    mapR parseDisclosure (map snd nds) = Inr nds"
proof (induction nds)
  case Nil
  then show ?case by simp
next
  case (Cons nd nds)
  have "parseDisclosure (snd nd) = Inr nd" using Cons.prems [of "fst nd" "snd nd"] by simp
  then show ?case using Cons by simp
qed

lemma SdJwtVc_parse_parts:
  assumes "CHR ''~'' \<notin> set j" and "CHR ''~'' \<notin> set t"
    and "\<And>n d. (n, d) \<in> set nds \<Longrightarrow> CHR ''~'' \<notin> set d \<and> d \<noteq> [] \<and> parseDisclosure d = Inr (n, d)"
  shows "SdJwtVc_parse (j @ CHR ''~'' # concat (map (\<lambda>d. d @ ''~'') (map snd nds)) @ t)
    = Inr \<lparr>jwt = j, disclosures = nds\<rparr>"
proof -
  have "splitOn (CHR ''~'') (j @ CHR ''~'' # concat (map (\<lambda>d. d @ ''~'') (map snd nds)) @ t)
      = j # map snd nds @ [t]"
    using assms by (intro split_sdjwt) auto
  moreover have "disclosureSlice (j # map snd nds @ [t]) = map snd nds"
    using assms(3) by (intro disclosureSlice_eq) auto
  moreover have "mapR parseDisclosure (map snd nds) = Inr nds"
    using assms(3) by (intro mapR_parseDisclosure) auto
  ultimately show ?thesis by (simp add: SdJwtVc_parse_def)
qed

lemma serialize_eq:
  "serialize vc = jwt vc @ CHR ''~'' # concat (map (\<lambda>d. d @ ''~'') (map snd (disclosures vc)))"
  by (simp add: serialize_def case_prod_beta' comp_def)

lemma parse_serialize: "vc_wf vc \<Longrightarrow> SdJwtVc_parse (serialize vc) = Inr vc"
  using SdJwtVc_parse_parts [of "jwt vc" "[]" "disclosures vc"]
  by (auto simp: vc_wf_def serialize_eq)

interpretation sdjwt: codec serialize SdJwtVc_parse vc_wf
  by unfold_locales (rule parse_serialize)

lemma mapR_parseDisclosure_mem:
  "mapR parseDisclosure ds = Inr nds \<Longrightarrow> (n, d) \<in> set nds \<Longrightarrow> d \<in> set ds \<and> parseDisclosure d = Inr (n, d)"
proof (induction ds arbitrary: nds)
  case Nil
  then show ?case by simp
next
  case (Cons x ds)
  then obtain y ys where y: "parseDisclosure x = Inr y" and ys: "mapR parseDisclosure ds = Inr ys"
      and nds: "nds = y # ys"
    by (auto simp: bindR_eq_Inr)
  have "y = (fst y, x)" using parseDisclosure_snd [of x "fst y" "snd y"] y by (cases y) auto
  then show ?case using Cons.IH [OF ys] Cons.prems(2) y nds by auto
qed

lemma parse_vc_wf: "SdJwtVc_parse s = Inr vc \<Longrightarrow> vc_wf vc"
proof -
  assume p: "SdJwtVc_parse s = Inr vc"
  let ?parts = "splitOn (CHR ''~'') s"
  from p obtain ds where ds: "mapR parseDisclosure (disclosureSlice ?parts) = Inr ds"
      and vc: "vc = \<lparr>jwt = hd ?parts, disclosures = ds\<rparr>"
    by (auto simp: SdJwtVc_parse_def Let_def bindR_eq_Inr split: if_splits)
  have slice: "d \<in> set (disclosureSlice ?parts) \<Longrightarrow> d \<in> set ?parts \<and> d \<noteq> []" for d
    unfolding disclosureSlice_def by (auto dest!: in_set_butlastD list.set_sel(2) [rotated])
  have "hd ?parts \<in> set ?parts" by simp
  then show ?thesis
    using ds vc slice by (fastforce simp: vc_wf_def dest: mapR_parseDisclosure_mem splitOn_parts)
qed

section \<open>Presentations\<close>

lemma mapR_pick:
  assumes "mapR (pickDisclosure vc) names = Inr ds"
  shows "ds = map (\<lambda>n. the (map_of (disclosures vc) n)) names
    \<and> (\<forall>n \<in> set names. n \<in> fst ` set (disclosures vc))"
  using assms
proof (induction names arbitrary: ds)
  case Nil
  then show ?case by simp
next
  case (Cons n names)
  then obtain d es where d: "pickDisclosure vc n = Inr d"
      and es: "mapR (pickDisclosure vc) names = Inr es" and ds: "ds = d # es"
    by (auto simp: bindR_eq_Inr)
  have "map_of (disclosures vc) n = Some d"
    using d by (auto simp: pickDisclosure_def split: option.splits)
  then show ?case using Cons.IH [OF es] ds by (force dest: map_of_SomeD)
qed

text \<open>The disclosures that \<open>present\<close> selects, in the order of the request.\<close>

definition selected :: "sdJwtVc \<Rightarrow> string list \<Rightarrow> (string \<times> string) list" where
  "selected vc names = map (\<lambda>n. (n, the (map_of (disclosures vc) n))) names"

lemma selected_mem:
  "\<forall>n \<in> set names. n \<in> fst ` set (disclosures vc) \<Longrightarrow> (n, d) \<in> set (selected vc names) \<Longrightarrow>
    (n, d) \<in> set (disclosures vc)"
  by (force simp: selected_def dest: weak_map_of_SomeI intro: map_of_SomeD)

text \<open>The text of a presentation: issuer JWT, chosen disclosures, and what follows the last tilde.\<close>

lemma present_shape:
  assumes "present cr vc names kb = Inr p"
  obtains t where
    "p = jwt vc @ CHR ''~'' # concat (map (\<lambda>d. d @ ''~'') (map snd (selected vc names))) @ t"
    and "\<forall>n \<in> set names. n \<in> fst ` set (disclosures vc)" and "CHR ''~'' \<notin> set t"
    and "kb = None \<longleftrightarrow> t = []"
    and "\<And>k. kb = Some k \<Longrightarrow> jwsSignEd25519 cr kbHeader
        (kbPayload k (sdHashOf cr (take (length p - length t) p))) (holderPrivateKeyHex k) = Inr t"
proof -
  from assms obtain ds where ds: "mapR (pickDisclosure vc) names = Inr ds"
    by (auto simp: present_def bindR_eq_Inr)
  have d: "ds = map snd (selected vc names)" and mem: "\<forall>n \<in> set names. n \<in> fst ` set (disclosures vc)"
    using mapR_pick [OF ds] by (auto simp: selected_def)
  show ?thesis
  proof (cases kb)
    case None
    then show ?thesis using assms ds d mem by (intro that [of "[]"]) (auto simp: present_def)
  next
    case (Some k)
    let ?s = "jwt vc @ CHR ''~'' # concat (map (\<lambda>d. d @ ''~'') ds)"
    obtain t where t: "jwsSignEd25519 cr kbHeader (kbPayload k (sdHashOf cr ?s)) (holderPrivateKeyHex k) = Inr t"
        and p: "p = ?s @ t"
      using assms ds Some by (auto simp: present_def bindR_eq_Inr)
    moreover have "take (length p - length t) p = ?s" using p by simp
    ultimately show ?thesis
      using Some d mem jwsSign_no_tilde [OF t] by (intro that [of t]) auto
  qed
qed

lemma parse_present:
  assumes wf: "vc_wf vc" and p: "present cr vc names kb = Inr p"
  shows "SdJwtVc_parse p = Inr \<lparr>jwt = jwt vc, disclosures = selected vc names\<rparr>"
proof -
  from p obtain t where
      t: "p = jwt vc @ CHR ''~'' # concat (map (\<lambda>d. d @ ''~'') (map snd (selected vc names))) @ t"
    and mem: "\<forall>n \<in> set names. n \<in> fst ` set (disclosures vc)" and "CHR ''~'' \<notin> set t"
    by (rule present_shape)
  moreover have "CHR ''~'' \<notin> set d \<and> d \<noteq> [] \<and> parseDisclosure d = Inr (n, d)"
    if "(n, d) \<in> set (selected vc names)" for n d
    using wf selected_mem [OF mem that] unfolding vc_wf_def by blast
  moreover have "CHR ''~'' \<notin> set (jwt vc)" using wf by (simp add: vc_wf_def)
  ultimately show ?thesis unfolding t by (intro SdJwtVc_parse_parts)
qed

section \<open>What an accepted presentation guarantees\<close>

lemma split_last_suffix:
  fixes s :: string
  shows "s = take (length s - length (last (splitOn c s))) s @ last (splitOn c s)"
proof -
  have "\<exists>q. s = q @ last (splitOn c s)"
  proof (induction s)
    case Nil
    then show ?case by simp
  next
    case (Cons x s)
    then obtain q where q: "s = q @ last (splitOn c s)" by blast
    obtain p ps where ps: "splitOn c s = p # ps" by (metis splitOn_nonempty neq_Nil_conv)
    show ?case
    proof (cases "x \<noteq> c \<and> ps = []")
      case True
      then show ?thesis using ps joinWith_splitOn [of c s] by simp
    next
      case False
      then have "last (splitOn c (x # s)) = last (splitOn c s)" using ps by auto
      then show ?thesis using q by (metis append_Cons)
    qed
  qed
  then show ?thesis by (metis append_eq_conv_conj diff_add_inverse2 length_append)
qed

lemma verifySdJwt_valid_iff:
  "vr_valid (verifySdJwt cr pr pub req aud nonce) \<longleftrightarrow> isInr (verifyBody cr pr pub req aud nonce)"
proof (cases "verifyBody cr pr pub req aud nonce")
  case (Inl e)
  then show ?thesis by (simp add: verifySdJwt_def)
next
  case (Inr r)
  then have "vr_valid r" by (auto simp: verifyBody_def Let_def bindR_eq_Inr split: if_splits)
  then show ?thesis using Inr by (simp add: verifySdJwt_def)
qed

lemma checkDisclosures_digests:
  "checkDisclosures cr sdSet claims ds = Inr out \<Longrightarrow> d \<in> set ds \<Longrightarrow> JStr (sdHashOf cr d) \<in> set sdSet"
  by (induction ds arbitrary: claims)
    (auto simp: bindR_eq_Inr checkDisclosure_def sdHashOf_def split: if_splits)

text \<open>The facts a successful run of the verifier's body establishes, in the order of its checks.\<close>

lemma verifyBody_facts:
  assumes "verifyBody cr pr pub req aud nonce = Inr r"
  obtains header payload claims where
    "jwsVerifyEd25519 cr (hd (splitOn (CHR ''~'') pr)) pub = Inr (header, payload)"
    and "optProp ''typ'' (Some header) \<in> {Some (JStr JWT_TYP), Some (JStr JWT_TYP_LEGACY)}"
    and "getField ''_sd_alg'' payload = Some (JStr SD_ALG)"
    and "checkDisclosures cr (the_or [] (asArr (getField ''_sd'' payload))) []
           (disclosureSlice (splitOn (CHR ''~'') pr)) = Inr claims"
    and "last (splitOn (CHR ''~'') pr) \<noteq> [] \<longrightarrow>
           checkKb cr payload pr (last (splitOn (CHR ''~'') pr)) aud nonce = Inr (vr_keyBound r)"
    and "last (splitOn (CHR ''~'') pr) = [] \<longrightarrow> \<not> req \<and> \<not> vr_keyBound r"
    and "vr_claims r = Some (stringify (JObj claims))"
    and "vr_issuer r = asStr (getField ''iss'' payload)"
proof -
  from assms obtain header payload where
      h: "jwsVerifyEd25519 cr (hd (splitOn (CHR ''~'') pr)) pub = Inr (header, payload)"
    by (auto simp: verifyBody_def Let_def bindR_eq_Inr split: if_splits)
  moreover from assms h obtain claims where
      "checkDisclosures cr (the_or [] (asArr (getField ''_sd'' payload))) []
         (disclosureSlice (splitOn (CHR ''~'') pr)) = Inr claims"
    by (auto simp: verifyBody_def Let_def bindR_eq_Inr split: if_splits)
  ultimately show ?thesis
    using assms
    by (intro that [of header payload claims])
      (auto simp: verifyBody_def Let_def bindR_eq_Inr optProp_def split: if_splits)
qed

lemma checkKb_true: "checkKb cr payload pr kb aud nonce = Inr b \<Longrightarrow> b"
  by (auto simp: checkKb_def Let_def bindR_eq_Inr split: if_splits option.splits)

lemma checkKb_facts:
  assumes "checkKb cr payload pr kb aud nonce = Inr b"
  obtains x xb kh kp where "asStr (optProp ''x'' (optProp ''jwk'' (getField ''cnf'' payload))) = Some x"
    and "b64urlDecode x = Inr xb" and "jwsVerifyEd25519 cr kb (hexEncode xb) = Inr (kh, kp)"
    and "getField ''typ'' kh = Some (JStr KB_TYP)"
    and "\<not> mismatch aud (getField ''aud'' kp)" and "\<not> mismatch nonce (getField ''nonce'' kp)"
    and "getField ''sd_hash'' kp = Some (JStr (sdHashOf cr (take (length pr - length kb) pr)))"
  using assms
  by (fastforce simp: checkKb_def Let_def bindR_eq_Inr optProp_def split: if_splits option.splits)

section \<open>Honest presentations are accepted\<close>

text \<open>
  A credential as the issuer signs it: the issuer's JWT over a payload that fixes the hash
  algorithm, lists the digest of every disclosure and carries the holder's Ed25519 key as \<open>cnf\<close>.
\<close>

definition issuerHeader :: json where
  "issuerHeader = JObj [(''typ'', JStr JWT_TYP), (''alg'', JStr ALG_EDDSA)]"

definition cnfOf :: "bytes \<Rightarrow> json" where
  "cnfOf hpk = JObj [(''jwk'', JObj [(''kty'', JStr ''OKP''), (''crv'', JStr ''Ed25519''),
     (''x'', JStr (b64urlEncode hpk))])]"

definition issued :: "noble \<Rightarrow> string \<Rightarrow> bytes \<Rightarrow> json \<Rightarrow> sdJwtVc \<Rightarrow> bool" where
  "issued cr issuerPriv hpk payload vc \<longleftrightarrow>
     json_wf payload \<and> jwsSignEd25519 cr issuerHeader payload issuerPriv = Inr (jwt vc) \<and>
     getField ''_sd_alg'' payload = Some (JStr SD_ALG) \<and> getField ''cnf'' payload = Some (cnfOf hpk) \<and>
     (\<forall>n d. (n, d) \<in> set (disclosures vc) \<longrightarrow>
        CHR ''~'' \<notin> set d \<and> d \<noteq> [] \<and>
        (\<exists>salt v. parseSegment d = Inr (JArr [salt, JStr n, v])) \<and>
        JStr (sdHashOf cr d) \<in> set (the_or [] (asArr (getField ''_sd'' payload))))"

text \<open>An Ed25519 key as hex text: 32 seed bytes with their public key.\<close>

definition edKey :: "noble \<Rightarrow> string \<Rightarrow> bytes \<Rightarrow> bool" where
  "edKey cr priv pk \<longleftrightarrow> (\<exists>sd. hexDecode priv = Inr sd \<and> length sd = 32 \<and> edPublicKey cr sd = Inr pk)"

lemma jws_sign_verify_key:
  assumes "sig_correct cr" and "edKey cr priv pk" and "json_wf header" and "json_wf payload"
    and "jwsSignEd25519 cr header payload priv = Inr tok"
  shows "jwsVerifyEd25519 cr tok (hexEncode pk) = Inr (header, payload)"
  using assms by (auto simp: edKey_def intro: jws_sign_verify)

lemma checkDisclosures_issued:
  assumes "\<And>n d. (n, d) \<in> set nds \<Longrightarrow> (\<exists>salt v. parseSegment d = Inr (JArr [salt, JStr n, v])) \<and>
      JStr (sdHashOf cr d) \<in> set sdSet"
  shows "\<exists>out. checkDisclosures cr sdSet claims (map snd nds) = Inr out"
  using assms
proof (induction nds arbitrary: claims)
  case Nil
  then show ?case by simp
next
  case (Cons nd nds)
  obtain salt v where p: "parseSegment (snd nd) = Inr (JArr [salt, JStr (fst nd), v])"
      and "JStr (sdHashOf cr (snd nd)) \<in> set sdSet"
    using Cons.prems [of "fst nd" "snd nd"] by auto
  then have "checkDisclosure cr sdSet claims (snd nd) = Inr (putField (fst nd) v claims)"
    by (simp add: checkDisclosure_def sdHashOf_def)
  moreover have "\<exists>out. checkDisclosures cr sdSet (putField (fst nd) v claims) (map snd nds) = Inr out"
    by (rule Cons.IH) (use Cons.prems in auto)
  ultimately show ?case by simp
qed

lemma checkKb_honest:
  assumes sig: "sig_correct cr" and key: "edKey cr (holderPrivateKeyHex k) hpk"
    and cnf: "getField ''cnf'' payload = Some (cnfOf hpk)"
    and kb: "jwsSignEd25519 cr kbHeader (kbPayload k (sdHashOf cr (take (length p - length t) p)))
      (holderPrivateKeyHex k) = Inr t"
  shows "checkKb cr payload p t (Some (kb_aud k)) (Some (kb_nonce k)) = Inr True"
proof -
  have "json_wf kbHeader" and "json_wf (kbPayload k h)" for h
    by (simp_all add: kbHeader_def kbPayload_def)
  then have "jwsVerifyEd25519 cr t (hexEncode hpk)
      = Inr (kbHeader, kbPayload k (sdHashOf cr (take (length p - length t) p)))"
    using jws_sign_verify_key [OF sig key _ _ kb] by blast
  then show ?thesis
    using cnf by (simp add: checkKb_def optProp_def cnfOf_def kbHeader_def kbPayload_def
        mismatch_def b64url.dec_enc)
qed

lemma present_accepted:
  assumes sig: "sig_correct cr" and ikey: "edKey cr issuerPriv ipk"
    and hkey: "edKey cr (holderPrivateKeyHex k) hpk" and vc: "issued cr issuerPriv hpk payload vc"
    and p: "present cr vc names (Some k) = Inr p"
  shows "\<exists>r. verifyBody cr p (hexEncode ipk) req (Some (kb_aud k)) (Some (kb_nonce k)) = Inr r
    \<and> vr_keyBound r \<and> vr_issuer r = asStr (getField ''iss'' payload)"
proof -
  from p obtain t where
      t: "p = jwt vc @ CHR ''~'' # concat (map (\<lambda>d. d @ ''~'') (map snd (selected vc names))) @ t"
    and mem: "\<forall>n \<in> set names. n \<in> fst ` set (disclosures vc)" and nt: "CHR ''~'' \<notin> set t" "t \<noteq> []"
    and kb: "jwsSignEd25519 cr kbHeader (kbPayload k (sdHashOf cr (take (length p - length t) p)))
      (holderPrivateKeyHex k) = Inr t"
    by (rule present_shape) auto
  have jw: "jwsSignEd25519 cr issuerHeader payload issuerPriv = Inr (jwt vc)" and wf: "json_wf payload"
      and alg: "getField ''_sd_alg'' payload = Some (JStr SD_ALG)"
      and cnf: "getField ''cnf'' payload = Some (cnfOf hpk)"
    using vc by (simp_all add: issued_def)
  have sel: "CHR ''~'' \<notin> set d \<and> d \<noteq> [] \<and> (\<exists>salt v. parseSegment d = Inr (JArr [salt, JStr n, v])) \<and>
      JStr (sdHashOf cr d) \<in> set (the_or [] (asArr (getField ''_sd'' payload)))"
    if "(n, d) \<in> set (selected vc names)" for n d
    using selected_mem [OF mem that] vc unfolding issued_def by blast
  have split: "splitOn (CHR ''~'') p = jwt vc # map snd (selected vc names) @ [t]"
    unfolding t using sel nt jwsSign_no_tilde [OF jw] by (intro split_sdjwt) auto
  have slice: "disclosureSlice (splitOn (CHR ''~'') p) = map snd (selected vc names)"
    unfolding split using sel by (intro disclosureSlice_eq) auto
  have hv: "jwsVerifyEd25519 cr (jwt vc) (hexEncode ipk) = Inr (issuerHeader, payload)"
    using jws_sign_verify_key [OF sig ikey _ wf jw] by (simp add: issuerHeader_def)
  obtain out where out: "checkDisclosures cr (the_or [] (asArr (getField ''_sd'' payload))) []
      (map snd (selected vc names)) = Inr out"
    using checkDisclosures_issued [of "selected vc names" cr "the_or [] (asArr (getField ''_sd'' payload))" "[]"]
      sel by blast
  have ty: "optProp ''typ'' (Some issuerHeader) = Some (JStr JWT_TYP)"
    by (simp add: optProp_def issuerHeader_def)
  show ?thesis
    using checkKb_honest [OF sig hkey cnf kb] hv out alg ty nt
    unfolding verifyBody_def Let_def slice by (simp add: split optProp_def)
qed

section \<open>Properties\<close>

text \<open>A JWS made by \<open>jwsSignEd25519\<close> with an Ed25519 key is accepted by
  \<open>jwsVerifyEd25519\<close> under the public key of that seed, and gives the signed header and payload back.\<close>

theorem jws_roundtrip:
  assumes "sig_correct cr" and "edKey cr priv pk" and "json_wf header" and "json_wf payload"
    and "jwsSignEd25519 cr header payload priv = Inr tok"
  shows "jwsVerifyEd25519 cr tok (hexEncode pk) = Inr (header, payload)"
  using assms by (rule jws_sign_verify_key)

text \<open>Parsing is stable: serialising a parsed credential and parsing it again gives the same
  credential, whether it was parsed from the issuance form or from a presentation.\<close>

theorem sdjwt_parse_serialize:
  assumes "SdJwtVc_parse s = Inr vc"
  shows "SdJwtVc_parse (serialize vc) = Inr vc"
  using assms by (intro sdjwt.dec_enc parse_vc_wf)

text \<open>C4: A presentation discloses exactly the requested claims, in the requested order: it parses
  to the same issuer JWT (so it keeps the credential id) with the requested names, and every
  disclosure in it is one of the credential's, byte for byte.\<close>

theorem present_discloses_exactly:
  assumes "SdJwtVc_parse s = Inr vc" and "present cr vc names kb = Inr p"
  shows "\<exists>vc'. SdJwtVc_parse p = Inr vc' \<and> disclosedClaimNames vc' = names \<and>
    set (disclosures vc') \<subseteq> set (disclosures vc) \<and>
    credentialId cr vc' = credentialId cr vc \<and> credentialIdHex cr vc' = credentialIdHex cr vc"
proof -
  from assms(2) have mem: "\<forall>n \<in> set names. n \<in> fst ` set (disclosures vc)" by (rule present_shape)
  have "disclosedClaimNames \<lparr>jwt = jwt vc, disclosures = selected vc names\<rparr> = names"
    by (simp add: disclosedClaimNames_def selected_def comp_def)
  then show ?thesis
    using parse_present [OF parse_vc_wf [OF assms(1)] assms(2)] selected_mem [OF mem]
    by (auto simp: credentialId_def credentialIdHex_def)
qed

text \<open>C1: What \<open>verifySdJwt\<close> accepts is issuer-signed: the issuer's key accepts the signature over
  the presented JWT, and the SHA-256 digest of every disclosed segment is listed in the signed
  \<open>_sd\<close> array.  With \<open>requireKb\<close> the result is key-bound.\<close>

theorem verify_issuer_signed:
  assumes "vr_valid (verifySdJwt cr pr pub req aud nonce)"
  shows "\<exists>h p g sg pk payload.
    splitOn (CHR ''.'') (hd (splitOn (CHR ''~'') pr)) = [h, p, g] \<and> b64urlDecode g = Inr sg \<and>
    hexDecode pub = Inr pk \<and> edVerify cr sg (utf8Bytes (h @ ''.'' @ p)) pk = Inr True \<and>
    parseSegment p = Inr payload \<and> getField ''_sd_alg'' payload = Some (JStr SD_ALG) \<and>
    (\<forall>d \<in> set (disclosureSlice (splitOn (CHR ''~'') pr)).
       JStr (sdHashOf cr d) \<in> set (the_or [] (asArr (getField ''_sd'' payload)))) \<and>
    (req \<longrightarrow> vr_keyBound (verifySdJwt cr pr pub req aud nonce))"
proof -
  from assms obtain r where r: "verifyBody cr pr pub req aud nonce = Inr r"
    by (auto simp: verifySdJwt_valid_iff isInr_ex)
  from r obtain header payload claims where
      h: "jwsVerifyEd25519 cr (hd (splitOn (CHR ''~'') pr)) pub = Inr (header, payload)"
    and alg: "getField ''_sd_alg'' payload = Some (JStr SD_ALG)"
    and ds: "checkDisclosures cr (the_or [] (asArr (getField ''_sd'' payload))) []
           (disclosureSlice (splitOn (CHR ''~'') pr)) = Inr claims"
    and kb: "last (splitOn (CHR ''~'') pr) \<noteq> [] \<longrightarrow>
           checkKb cr payload pr (last (splitOn (CHR ''~'') pr)) aud nonce = Inr (vr_keyBound r)"
    and nokb: "last (splitOn (CHR ''~'') pr) = [] \<longrightarrow> \<not> req \<and> \<not> vr_keyBound r"
    by (rule verifyBody_facts) blast
  have "req \<longrightarrow> vr_keyBound r" using kb nokb checkKb_true by blast
  moreover have "verifySdJwt cr pr pub req aud nonce = r" by (simp add: verifySdJwt_def r)
  ultimately show ?thesis
    using h alg checkDisclosures_digests [OF ds] by (auto elim!: jwsVerify_sound)
qed

text \<open>C2: What \<open>verifySdJwt\<close> reports as key-bound is signed by the holder for this verifier: the
  \<open>cnf\<close> key of the issuer-signed payload accepts the signature of the key-binding JWT, whose \<open>aud\<close>
  and \<open>nonce\<close> are the verifier's (when given and not empty) and whose \<open>sd_hash\<close> covers exactly the
  presented text before it.\<close>

theorem verify_key_bound:
  assumes "vr_keyBound (verifySdJwt cr pr pub req aud nonce)"
  shows "\<exists>payload x xb kp prefix h p g sg. let kb = last (splitOn (CHR ''~'') pr) in
    pr = prefix @ kb \<and> asStr (optProp ''x'' (optProp ''jwk'' (getField ''cnf'' payload))) = Some x \<and>
    b64urlDecode x = Inr xb \<and> splitOn (CHR ''.'') kb = [h, p, g] \<and> b64urlDecode g = Inr sg \<and>
    edVerify cr sg (utf8Bytes (h @ ''.'' @ p)) xb = Inr True \<and> parseSegment p = Inr kp \<and>
    (\<forall>a. aud = Some a \<and> a \<noteq> [] \<longrightarrow> getField ''aud'' kp = Some (JStr a)) \<and>
    (\<forall>n. nonce = Some n \<and> n \<noteq> [] \<longrightarrow> getField ''nonce'' kp = Some (JStr n)) \<and>
    getField ''sd_hash'' kp = Some (JStr (sdHashOf cr prefix)) \<and>
    (\<exists>header. jwsVerifyEd25519 cr (hd (splitOn (CHR ''~'') pr)) pub = Inr (header, payload))"
proof -
  let ?kb = "last (splitOn (CHR ''~'') pr)"
  from assms obtain r where r: "verifyBody cr pr pub req aud nonce = Inr r" and bound: "vr_keyBound r"
    by (auto simp: verifySdJwt_def split: sum.splits)
  from r obtain header payload where
      h: "jwsVerifyEd25519 cr (hd (splitOn (CHR ''~'') pr)) pub = Inr (header, payload)"
    and kb: "?kb \<noteq> [] \<longrightarrow> checkKb cr payload pr ?kb aud nonce = Inr (vr_keyBound r)"
    and nokb: "?kb = [] \<longrightarrow> \<not> req \<and> \<not> vr_keyBound r"
    by (rule verifyBody_facts) blast
  have "?kb \<noteq> []" using nokb bound by blast
  with kb have "checkKb cr payload pr ?kb aud nonce = Inr (vr_keyBound r)" by blast
  then obtain x xb kh kp where
      cnf: "asStr (optProp ''x'' (optProp ''jwk'' (getField ''cnf'' payload))) = Some x"
        "b64urlDecode x = Inr xb"
    and kv: "jwsVerifyEd25519 cr ?kb (hexEncode xb) = Inr (kh, kp)"
    and an: "\<not> mismatch aud (getField ''aud'' kp)" "\<not> mismatch nonce (getField ''nonce'' kp)"
    and sd: "getField ''sd_hash'' kp = Some (JStr (sdHashOf cr (take (length pr - length ?kb) pr)))"
    by (rule checkKb_facts)
  from kv obtain h' p' g' sg where "splitOn (CHR ''.'') ?kb = [h', p', g']" "b64urlDecode g' = Inr sg"
      "edVerify cr sg (utf8Bytes (h' @ ''.'' @ p')) xb = Inr True" "parseSegment p' = Inr kp"
    by (auto elim!: jwsVerify_sound simp: hex.dec_enc)
  moreover have "pr = take (length pr - length ?kb) pr @ ?kb" by (rule split_last_suffix)
  ultimately show ?thesis
    using h cnf an sd unfolding Let_def mismatch_def by (auto split: option.splits)
qed

text \<open>C3: Honest presentations are accepted: a credential signed by the issuer, presented with the
  holder key it is bound to, verifies as valid and key-bound for the audience and nonce it was made
  for, whatever subset of its claims is disclosed.\<close>

theorem honest_presentation_accepted:
  assumes "sig_correct cr" and "edKey cr issuerPriv ipk"
    and "edKey cr (holderPrivateKeyHex k) hpk" and "issued cr issuerPriv hpk payload vc"
    and "present cr vc names (Some k) = Inr p"
  shows "vr_valid (verifySdJwt cr p (hexEncode ipk) req (Some (kb_aud k)) (Some (kb_nonce k)))
    \<and> vr_keyBound (verifySdJwt cr p (hexEncode ipk) req (Some (kb_aud k)) (Some (kb_nonce k)))"
proof -
  obtain r where "verifyBody cr p (hexEncode ipk) req (Some (kb_aud k)) (Some (kb_nonce k)) = Inr r"
      and "vr_keyBound r"
    using present_accepted [OF assms] by blast
  then show ?thesis by (simp add: verifySdJwt_valid_iff) (simp add: verifySdJwt_def)
qed

section \<open>Witnesses\<close>

text \<open>Concrete stand-ins for the library, for the witnesses: the public key is the seed and a
  signature is the seed with the message.\<close>

definition plainNoble :: noble where
  "plainNoble = \<lparr>nobleSha256 = (\<lambda>b. b), edPublicKey = (\<lambda>s. Inr s),
     edSign = (\<lambda>m s. Inr (s @ m)), edVerify = (\<lambda>g m pk. Inr (g = pk @ m))\<rparr>"

lemma plainNoble_sig_correct: "sig_correct plainNoble"
  by (simp add: sig_correct_def plainNoble_def)

text \<open>A credential with one claim, issued under one key and bound to another.\<close>

definition exIssuer :: bytes where "exIssuer = replicate 32 1"
definition exHolder :: bytes where "exHolder = replicate 32 2"

definition exDisclosure :: string where
  "exDisclosure = jsonSegment (JArr [JStr ''salt'', JStr ''name'', JStr ''Ann''])"

definition exPayload :: json where
  "exPayload = JObj [(''iss'', JStr ''did:web:issuer''), (''_sd_alg'', JStr SD_ALG),
     (''_sd'', JArr [JStr (sdHashOf plainNoble exDisclosure)]), (''cnf'', cnfOf exHolder)]"

definition exSigned :: "json \<Rightarrow> json \<Rightarrow> bytes \<Rightarrow> string" where
  "exSigned h p k = (let si = jsonSegment h @ CHR ''.'' # jsonSegment p in
     si @ CHR ''.'' # b64urlEncode (k @ utf8Bytes si))"

definition exVc :: sdJwtVc where
  "exVc = \<lparr>jwt = exSigned issuerHeader exPayload exIssuer, disclosures = [(''name'', exDisclosure)]\<rparr>"

definition exKb :: kbInput where
  "exKb = \<lparr>holderPrivateKeyHex = hexEncode exHolder, kb_aud = ''verifier'', kb_nonce = ''n-1'',
     kb_iat = 1700000000\<rparr>"

definition exPresentation :: string where
  "exPresentation = (let s = jwt exVc @ ''~'' @ exDisclosure @ ''~'' in
     s @ exSigned kbHeader (kbPayload exKb (sdHashOf plainNoble s)) exHolder)"

lemma exSigned_sign: "jwsSignEd25519 plainNoble h p (hexEncode k) = Inr (exSigned h p k)"
  by (simp add: jwsSignEd25519_def exSigned_def Let_def hex.dec_enc plainNoble_def)

lemma exKeys:
  "edKey plainNoble (hexEncode exIssuer) exIssuer" "edKey plainNoble (holderPrivateKeyHex exKb) exHolder"
  by (simp_all add: edKey_def hex.dec_enc plainNoble_def exIssuer_def exHolder_def exKb_def)

lemma exDisclosure_facts:
  "CHR ''~'' \<notin> set exDisclosure" "exDisclosure \<noteq> []"
  "parseSegment exDisclosure = Inr (JArr [JStr ''salt'', JStr ''name'', JStr ''Ann''])"
proof -
  show seg: "parseSegment exDisclosure = Inr (JArr [JStr ''salt'', JStr ''name'', JStr ''Ann''])"
    by (simp add: exDisclosure_def parseSegment_jsonSegment)
  have "parseSegment [] \<noteq> Inr v" for v
    by (simp add: parseSegment_def b64urlDecode_def replaceAll_def atob_def dropPadding_def
        utf8String_def JSON_parse_def)
  then show "exDisclosure \<noteq> []" using seg by metis
qed (simp add: exDisclosure_def)

lemma exVc_issued: "issued plainNoble (hexEncode exIssuer) exHolder exPayload exVc"
  by (simp add: issued_def exVc_def exSigned_sign exDisclosure_facts)
    (simp add: exPayload_def cnfOf_def)

lemma exVc_wf: "vc_wf exVc"
  using jwsSign_no_tilde [OF exSigned_sign, of issuerHeader exPayload exIssuer]
  by (simp add: vc_wf_def exVc_def exDisclosure_facts parseDisclosure_def item_def)

lemma exPresent: "present plainNoble exVc [''name''] (Some exKb) = Inr exPresentation"
  by (simp add: present_def pickDisclosure_def exPresentation_def Let_def exVc_def exKb_def
      exSigned_sign)

lemma exVerified:
  "\<exists>r. verifyBody plainNoble exPresentation (hexEncode exIssuer) True (Some ''verifier'') (Some ''n-1'')
    = Inr r \<and> vr_keyBound r"
  using present_accepted [OF plainNoble_sig_correct exKeys exVc_issued exPresent]
  by (auto simp: exKb_def)

theorem jws_roundtrip_witness:
  "jwsVerifyEd25519 plainNoble (exSigned issuerHeader exPayload exIssuer) (hexEncode exIssuer)
    = Inr (issuerHeader, exPayload)"
  by (rule jws_roundtrip [OF plainNoble_sig_correct exKeys(1) _ _ exSigned_sign])
    (simp_all add: issuerHeader_def exPayload_def cnfOf_def)

theorem sdjwt_parse_serialize_witness:
  "\<exists>vc. SdJwtVc_parse exPresentation = Inr vc \<and> SdJwtVc_parse (serialize vc) = Inr vc"
  using parse_present [OF exVc_wf exPresent] sdjwt_parse_serialize by blast

theorem present_discloses_exactly_witness:
  "\<exists>vc'. SdJwtVc_parse exPresentation = Inr vc' \<and> disclosedClaimNames vc' = [''name'']"
  using present_discloses_exactly [OF parse_serialize [OF exVc_wf] exPresent] by blast

theorem verify_issuer_signed_witness:
  "\<exists>h p g sg. splitOn (CHR ''.'') (hd (splitOn (CHR ''~'') exPresentation)) = [h, p, g] \<and>
    b64urlDecode g = Inr sg \<and> edVerify plainNoble sg (utf8Bytes (h @ ''.'' @ p)) exIssuer = Inr True"
proof -
  have "vr_valid (verifySdJwt plainNoble exPresentation (hexEncode exIssuer) True
      (Some ''verifier'') (Some ''n-1''))"
    using exVerified by (auto simp: verifySdJwt_valid_iff)
  from verify_issuer_signed [OF this] show ?thesis by (auto simp: hex.dec_enc)
qed

theorem verify_key_bound_witness:
  "\<exists>kp prefix p. parseSegment p = Inr kp \<and> getField ''nonce'' kp = Some (JStr ''n-1'') \<and>
    getField ''sd_hash'' kp = Some (JStr (sdHashOf plainNoble prefix)) \<and>
    exPresentation = prefix @ last (splitOn (CHR ''~'') exPresentation)"
proof -
  have "vr_keyBound (verifySdJwt plainNoble exPresentation (hexEncode exIssuer) True
      (Some ''verifier'') (Some ''n-1''))"
    using exVerified by (auto simp: verifySdJwt_def)
  from verify_key_bound [OF this] show ?thesis by (auto simp: Let_def)
qed

theorem honest_presentation_accepted_witness:
  "vr_valid (verifySdJwt plainNoble exPresentation (hexEncode exIssuer) True
     (Some (kb_aud exKb)) (Some (kb_nonce exKb)))"
  using honest_presentation_accepted
    [OF plainNoble_sig_correct exKeys exVc_issued exPresent, of True] by blast

end
