(* ===== verification/Countries.thy ===== *)
theory Countries
  imports Owl_Prelude
begin

text \<open>
  Country data of \<open>packages/sdk/src/countries.ts\<close>: the EU-27 overlay, the lookups by ISO 3166-1
  alpha-2 code and \<open>toAlpha2\<close>, which folds alpha-2 and alpha-3 input to alpha-2.

  The list of countries comes from the package \<open>countries-list\<close> and the name order from the
  runtime's \<open>localeCompare\<close>; both are parameters, the record \<open>countryData\<close>.
\<close>

section \<open>Data\<close>

record rawCountry =
  raw_alpha2 :: string
  raw_name :: string
  raw_native :: string
  raw_continent :: string

record countryData =
  RAW_COUNTRIES :: "rawCountry list"
  localeLe :: "string \<Rightarrow> string \<Rightarrow> bool"

record country =
  alpha2 :: string
  cname :: string
  native :: string
  continent :: string
  eu :: bool

definition EU_27 :: "string list" where
  "EU_27 =
     [''AT'', ''BE'', ''BG'', ''CY'', ''CZ'', ''DE'', ''DK'', ''EE'', ''ES'',
      ''FI'', ''FR'', ''GR'', ''HR'', ''HU'', ''IE'', ''IT'', ''LT'', ''LU'',
      ''LV'', ''MT'', ''NL'', ''PL'', ''PT'', ''RO'', ''SE'', ''SI'', ''SK'']"

definition ALL_COUNTRIES :: "countryData \<Rightarrow> country list" where
  "ALL_COUNTRIES cd =
     sortBy (\<lambda>a b. localeLe cd (cname a) (cname b))
       (map (\<lambda>c. \<lparr>alpha2 = raw_alpha2 c, cname = raw_name c, native = raw_native c,
                    continent = raw_continent c, eu = raw_alpha2 c \<in> set EU_27\<rparr>)
         (RAW_COUNTRIES cd))"

definition BY_ALPHA2 :: "countryData \<Rightarrow> string \<Rightarrow> country option" where
  "BY_ALPHA2 cd = foldl (\<lambda>m c. m(alpha2 c \<mapsto> c)) Map.empty (ALL_COUNTRIES cd)"

definition countryByAlpha2 :: "countryData \<Rightarrow> string \<Rightarrow> country option" where
  "countryByAlpha2 cd cc = BY_ALPHA2 cd (toUpperCase cc)"

definition countryName :: "countryData \<Rightarrow> string \<Rightarrow> string" where
  "countryName cd cc =
     (case BY_ALPHA2 cd (toUpperCase cc) of None \<Rightarrow> toUpperCase cc | Some c \<Rightarrow> cname c)"

definition isAlpha2 :: "countryData \<Rightarrow> string \<Rightarrow> bool" where
  "isAlpha2 cd cc = (if length cc \<noteq> 2 then False else BY_ALPHA2 cd (toUpperCase cc) \<noteq> None)"

definition isEuCountry :: "countryData \<Rightarrow> string \<Rightarrow> bool" where
  "isEuCountry cd cc = (case BY_ALPHA2 cd (toUpperCase cc) of None \<Rightarrow> False | Some c \<Rightarrow> eu c)"

definition EU_COUNTRIES :: "countryData \<Rightarrow> string list" where
  "EU_COUNTRIES cd = map alpha2 (filter eu (ALL_COUNTRIES cd))"

definition COUNTRY_PRESETS :: "countryData \<Rightarrow> (string \<times> string list) list" where
  "COUNTRY_PRESETS cd =
     [(''EU-27'', EU_COUNTRIES cd),
      (''EEA'', EU_COUNTRIES cd @ [''IS'', ''LI'', ''NO'']),
      (''DACH'', [''DE'', ''AT'', ''CH'']),
      (''Nordics'', [''DK'', ''FI'', ''IS'', ''NO'', ''SE'']),
      (''Benelux'', [''BE'', ''NL'', ''LU''])]"

definition ALPHA3_TO_ALPHA2 :: "(string \<times> string) list" where
  "ALPHA3_TO_ALPHA2 =
     [(''ABW'', ''AW''), (''AFG'', ''AF''), (''AGO'', ''AO''), (''AIA'', ''AI''), (''ALA'', ''AX''), (''ALB'', ''AL''),
      (''AND'', ''AD''), (''ARE'', ''AE''), (''ARG'', ''AR''), (''ARM'', ''AM''), (''ASM'', ''AS''), (''ATA'', ''AQ''),
      (''ATF'', ''TF''), (''ATG'', ''AG''), (''AUS'', ''AU''), (''AUT'', ''AT''), (''AZE'', ''AZ''), (''BDI'', ''BI''),
      (''BEL'', ''BE''), (''BEN'', ''BJ''), (''BES'', ''BQ''), (''BFA'', ''BF''), (''BGD'', ''BD''), (''BGR'', ''BG''),
      (''BHR'', ''BH''), (''BHS'', ''BS''), (''BIH'', ''BA''), (''BLM'', ''BL''), (''BLR'', ''BY''), (''BLZ'', ''BZ''),
      (''BMU'', ''BM''), (''BOL'', ''BO''), (''BRA'', ''BR''), (''BRB'', ''BB''), (''BRN'', ''BN''), (''BTN'', ''BT''),
      (''BVT'', ''BV''), (''BWA'', ''BW''), (''CAF'', ''CF''), (''CAN'', ''CA''), (''CCK'', ''CC''), (''CHE'', ''CH''),
      (''CHL'', ''CL''), (''CHN'', ''CN''), (''CIV'', ''CI''), (''CMR'', ''CM''), (''COD'', ''CD''), (''COG'', ''CG''),
      (''COK'', ''CK''), (''COL'', ''CO''), (''COM'', ''KM''), (''CPV'', ''CV''), (''CRI'', ''CR''), (''CUB'', ''CU''),
      (''CUW'', ''CW''), (''CXR'', ''CX''), (''CYM'', ''KY''), (''CYP'', ''CY''), (''CZE'', ''CZ''), (''DEU'', ''DE''),
      (''DJI'', ''DJ''), (''DMA'', ''DM''), (''DNK'', ''DK''), (''DOM'', ''DO''), (''DZA'', ''DZ''), (''ECU'', ''EC''),
      (''EGY'', ''EG''), (''ERI'', ''ER''), (''ESH'', ''EH''), (''ESP'', ''ES''), (''EST'', ''EE''), (''ETH'', ''ET''),
      (''FIN'', ''FI''), (''FJI'', ''FJ''), (''FLK'', ''FK''), (''FRA'', ''FR''), (''FRO'', ''FO''), (''FSM'', ''FM''),
      (''GAB'', ''GA''), (''GBR'', ''GB''), (''GEO'', ''GE''), (''GGY'', ''GG''), (''GHA'', ''GH''), (''GIB'', ''GI''),
      (''GIN'', ''GN''), (''GLP'', ''GP''), (''GMB'', ''GM''), (''GNB'', ''GW''), (''GNQ'', ''GQ''), (''GRC'', ''GR''),
      (''GRD'', ''GD''), (''GRL'', ''GL''), (''GTM'', ''GT''), (''GUF'', ''GF''), (''GUM'', ''GU''), (''GUY'', ''GY''),
      (''HKG'', ''HK''), (''HMD'', ''HM''), (''HND'', ''HN''), (''HRV'', ''HR''), (''HTI'', ''HT''), (''HUN'', ''HU''),
      (''IDN'', ''ID''), (''IMN'', ''IM''), (''IND'', ''IN''), (''IOT'', ''IO''), (''IRL'', ''IE''), (''IRN'', ''IR''),
      (''IRQ'', ''IQ''), (''ISL'', ''IS''), (''ISR'', ''IL''), (''ITA'', ''IT''), (''JAM'', ''JM''), (''JEY'', ''JE''),
      (''JOR'', ''JO''), (''JPN'', ''JP''), (''KAZ'', ''KZ''), (''KEN'', ''KE''), (''KGZ'', ''KG''), (''KHM'', ''KH''),
      (''KIR'', ''KI''), (''KNA'', ''KN''), (''KOR'', ''KR''), (''KWT'', ''KW''), (''LAO'', ''LA''), (''LBN'', ''LB''),
      (''LBR'', ''LR''), (''LBY'', ''LY''), (''LCA'', ''LC''), (''LIE'', ''LI''), (''LKA'', ''LK''), (''LSO'', ''LS''),
      (''LTU'', ''LT''), (''LUX'', ''LU''), (''LVA'', ''LV''), (''MAC'', ''MO''), (''MAF'', ''MF''), (''MAR'', ''MA''),
      (''MCO'', ''MC''), (''MDA'', ''MD''), (''MDG'', ''MG''), (''MDV'', ''MV''), (''MEX'', ''MX''), (''MHL'', ''MH''),
      (''MKD'', ''MK''), (''MLI'', ''ML''), (''MLT'', ''MT''), (''MMR'', ''MM''), (''MNE'', ''ME''), (''MNG'', ''MN''),
      (''MNP'', ''MP''), (''MOZ'', ''MZ''), (''MRT'', ''MR''), (''MSR'', ''MS''), (''MTQ'', ''MQ''), (''MUS'', ''MU''),
      (''MWI'', ''MW''), (''MYS'', ''MY''), (''MYT'', ''YT''), (''NAM'', ''NA''), (''NCL'', ''NC''), (''NER'', ''NE''),
      (''NFK'', ''NF''), (''NGA'', ''NG''), (''NIC'', ''NI''), (''NIU'', ''NU''), (''NLD'', ''NL''), (''NOR'', ''NO''),
      (''NPL'', ''NP''), (''NRU'', ''NR''), (''NZL'', ''NZ''), (''OMN'', ''OM''), (''PAK'', ''PK''), (''PAN'', ''PA''),
      (''PCN'', ''PN''), (''PER'', ''PE''), (''PHL'', ''PH''), (''PLW'', ''PW''), (''PNG'', ''PG''), (''POL'', ''PL''),
      (''PRI'', ''PR''), (''PRK'', ''KP''), (''PRT'', ''PT''), (''PRY'', ''PY''), (''PSE'', ''PS''), (''PYF'', ''PF''),
      (''QAT'', ''QA''), (''REU'', ''RE''), (''ROU'', ''RO''), (''RUS'', ''RU''), (''RWA'', ''RW''), (''SAU'', ''SA''),
      (''SDN'', ''SD''), (''SEN'', ''SN''), (''SGP'', ''SG''), (''SGS'', ''GS''), (''SHN'', ''SH''), (''SJM'', ''SJ''),
      (''SLB'', ''SB''), (''SLE'', ''SL''), (''SLV'', ''SV''), (''SMR'', ''SM''), (''SOM'', ''SO''), (''SPM'', ''PM''),
      (''SRB'', ''RS''), (''SSD'', ''SS''), (''STP'', ''ST''), (''SUR'', ''SR''), (''SVK'', ''SK''), (''SVN'', ''SI''),
      (''SWE'', ''SE''), (''SWZ'', ''SZ''), (''SXM'', ''SX''), (''SYC'', ''SC''), (''SYR'', ''SY''), (''TCA'', ''TC''),
      (''TCD'', ''TD''), (''TGO'', ''TG''), (''THA'', ''TH''), (''TJK'', ''TJ''), (''TKL'', ''TK''), (''TKM'', ''TM''),
      (''TLS'', ''TL''), (''TON'', ''TO''), (''TTO'', ''TT''), (''TUN'', ''TN''), (''TUR'', ''TR''), (''TUV'', ''TV''),
      (''TWN'', ''TW''), (''TZA'', ''TZ''), (''UGA'', ''UG''), (''UKR'', ''UA''), (''UMI'', ''UM''), (''URY'', ''UY''),
      (''USA'', ''US''), (''UZB'', ''UZ''), (''VAT'', ''VA''), (''VCT'', ''VC''), (''VEN'', ''VE''), (''VGB'', ''VG''),
      (''VIR'', ''VI''), (''VNM'', ''VN''), (''VUT'', ''VU''), (''WLF'', ''WF''), (''WSM'', ''WS''), (''YEM'', ''YE''),
      (''ZAF'', ''ZA''), (''ZMB'', ''ZM''), (''ZWE'', ''ZW'')]"

definition toAlpha2 :: "countryData \<Rightarrow> string \<Rightarrow> string option" where
  "toAlpha2 cd v =
     (let upper = toUpperCase (trim v) in
      if length upper = 2 \<and> BY_ALPHA2 cd upper \<noteq> None then Some upper
      else if length upper = 3 then map_of ALPHA3_TO_ALPHA2 upper
      else None)"

text \<open>The shape \<open>/^[A-Z]{2}$/\<close> of an alpha-2 code.\<close>

definition alpha2Shape :: "string \<Rightarrow> bool" where
  "alpha2Shape s = (length s = 2 \<and> list_all isAsciiUpper s)"

section \<open>Lemmas\<close>

lemma foldl_index:
  "foldl (\<lambda>m c. m(f c \<mapsto> c)) m0 cs k = Some c \<Longrightarrow> m0 k = Some c \<or> c \<in> set cs \<and> f c = k"
  by (induction cs arbitrary: c rule: rev_induct) (auto split: if_splits)

lemma foldl_index_dom: "k \<in> f ` set cs \<Longrightarrow> foldl (\<lambda>m c. m(f c \<mapsto> c)) m0 cs k \<noteq> None"
proof (induction cs rule: rev_induct)
  case Nil
  then show ?case by simp
next
  case (snoc c cs)
  then show ?case by auto
qed

lemma BY_ALPHA2_Some: "BY_ALPHA2 cd k = Some c \<Longrightarrow> c \<in> set (ALL_COUNTRIES cd) \<and> alpha2 c = k"
  unfolding BY_ALPHA2_def by (drule foldl_index) simp

lemma BY_ALPHA2_dom: "c \<in> set (ALL_COUNTRIES cd) \<Longrightarrow> BY_ALPHA2 cd (alpha2 c) \<noteq> None"
  unfolding BY_ALPHA2_def by (rule foldl_index_dom) simp

lemma ALL_COUNTRIES_eu: "c \<in> set (ALL_COUNTRIES cd) \<Longrightarrow> eu c \<longleftrightarrow> alpha2 c \<in> set EU_27"
  by (auto simp: ALL_COUNTRIES_def)

lemma ALPHA3_values: "map_of ALPHA3_TO_ALPHA2 k = Some v \<Longrightarrow> alpha2Shape v"
proof -
  have "list_all (\<lambda>p. alpha2Shape (snd p)) ALPHA3_TO_ALPHA2" by code_simp
  moreover assume "map_of ALPHA3_TO_ALPHA2 k = Some v"
  then have "(k, v) \<in> set ALPHA3_TO_ALPHA2" by (rule map_of_SomeD)
  ultimately show ?thesis by (force simp: list_all_iff)
qed

lemma toUpperCase_alpha2Shape: "alpha2Shape s \<Longrightarrow> toUpperCase s = s"
  by (simp add: alpha2Shape_def toUpperCase_upper)

lemma trim_alpha2Shape: "alpha2Shape s \<Longrightarrow> trim s = s"
  by (simp add: alpha2Shape_def trim_upper)

section \<open>Properties\<close>

text \<open>\<open>toAlpha2\<close> returns alpha-2 codes only, and is stable: when every alpha-2 code of the table
  is a registered country, feeding a result back gives the same result.\<close>

theorem toAlpha2_stable:
  assumes "\<And>c. c \<in> set (RAW_COUNTRIES cd) \<Longrightarrow> alpha2Shape (raw_alpha2 c)"
    and "snd ` set ALPHA3_TO_ALPHA2 \<subseteq> raw_alpha2 ` set (RAW_COUNTRIES cd)"
    and "toAlpha2 cd v = Some a"
  shows "alpha2Shape a \<and> toAlpha2 cd a = Some a"
proof -
  have mem: "a \<in> raw_alpha2 ` set (RAW_COUNTRIES cd)"
  proof (cases "length (toUpperCase (trim v)) = 2")
    case True
    then obtain c where "BY_ALPHA2 cd a = Some c"
      using assms(3) by (auto simp: toAlpha2_def Let_def split: if_splits)
    then show ?thesis by (auto dest!: BY_ALPHA2_Some simp: ALL_COUNTRIES_def)
  next
    case False
    then have "map_of ALPHA3_TO_ALPHA2 (toUpperCase (trim v)) = Some a"
      using assms(3) by (auto simp: toAlpha2_def Let_def split: if_splits)
    then show ?thesis using assms(2) by (force dest: map_of_SomeD)
  qed
  then have shape: "alpha2Shape a" using assms(1) by auto
  obtain c where "c \<in> set (ALL_COUNTRIES cd)" "alpha2 c = a"
    using mem by (force simp: ALL_COUNTRIES_def)
  then have "BY_ALPHA2 cd a \<noteq> None" using BY_ALPHA2_dom by blast
  then show ?thesis
    using shape by (simp add: toAlpha2_def trim_alpha2Shape toUpperCase_alpha2Shape) (simp add: alpha2Shape_def)
qed

definition exCountries :: countryData where
  "exCountries = \<lparr>RAW_COUNTRIES = map (\<lambda>p. \<lparr>raw_alpha2 = snd p, raw_name = fst p, raw_native = fst p,
       raw_continent = ''EU''\<rparr>) ALPHA3_TO_ALPHA2, localeLe = str_le\<rparr>"

theorem toAlpha2_stable_witness:
  "toAlpha2 exCountries '' nld'' = Some ''NL'' \<and> toAlpha2 exCountries ''NL'' = Some ''NL''"
proof -
  have "toUpperCase (trim '' nld'') = ''NLD''" by code_simp
  moreover have "map_of ALPHA3_TO_ALPHA2 ''NLD'' = Some ''NL''" by code_simp
  ultimately have nl: "toAlpha2 exCountries '' nld'' = Some ''NL''" by (simp add: toAlpha2_def)
  have "list_all (\<lambda>p. alpha2Shape (snd p)) ALPHA3_TO_ALPHA2" by code_simp
  then have "alpha2Shape (raw_alpha2 c)" if "c \<in> set (RAW_COUNTRIES exCountries)" for c
    using that by (auto simp: exCountries_def list_all_iff)
  moreover have "snd ` set ALPHA3_TO_ALPHA2 \<subseteq> raw_alpha2 ` set (RAW_COUNTRIES exCountries)"
    by (force simp: exCountries_def)
  ultimately show ?thesis using toAlpha2_stable [OF _ _ nl] nl by blast
qed

text \<open>\<open>isEuCountry\<close> decides EU-27 membership of a registered country in any letter case, and
  \<open>EU_COUNTRIES\<close> lists exactly the registered EU-27 codes.\<close>

theorem eu_membership:
  "(isEuCountry cd cc \<longleftrightarrow>
     toUpperCase cc \<in> set EU_27 \<and> toUpperCase cc \<in> raw_alpha2 ` set (RAW_COUNTRIES cd)) \<and>
   set (EU_COUNTRIES cd) = set EU_27 \<inter> raw_alpha2 ` set (RAW_COUNTRIES cd)"
proof (rule conjI)
  have reg: "BY_ALPHA2 cd k \<noteq> None \<longleftrightarrow> k \<in> raw_alpha2 ` set (RAW_COUNTRIES cd)" for k
    using BY_ALPHA2_dom [of _ cd] BY_ALPHA2_Some [of cd k]
    by (force simp: ALL_COUNTRIES_def image_iff)
  show "isEuCountry cd cc \<longleftrightarrow>
     toUpperCase cc \<in> set EU_27 \<and> toUpperCase cc \<in> raw_alpha2 ` set (RAW_COUNTRIES cd)"
    using reg [of "toUpperCase cc"] BY_ALPHA2_Some ALL_COUNTRIES_eu
    by (force simp: isEuCountry_def split: option.splits)
  show "set (EU_COUNTRIES cd) = set EU_27 \<inter> raw_alpha2 ` set (RAW_COUNTRIES cd)"
    by (force simp: EU_COUNTRIES_def ALL_COUNTRIES_def)
qed

text \<open>\<open>EU_COUNTRIES\<close> follows the order of the English names, not of the codes: with Croatia and
  Cyprus it lists \<open>HR\<close> before \<open>CY\<close>.\<close>

theorem eu_countries_by_name:
  "EU_COUNTRIES \<lparr>RAW_COUNTRIES =
       [\<lparr>raw_alpha2 = ''CY'', raw_name = ''Cyprus'', raw_native = ''Kypros'', raw_continent = ''EU''\<rparr>,
        \<lparr>raw_alpha2 = ''HR'', raw_name = ''Croatia'', raw_native = ''Hrvatska'', raw_continent = ''EU''\<rparr>],
     localeLe = str_le\<rparr> = [''HR'', ''CY'']"
  by code_simp

end
