(* ===== verification/Wallet_Storage.thy ===== *)
theory Wallet_Storage
  imports Json
begin

text \<open>
  The wallet's persistent storage, \<open>packages/sdk/src/storage.ts\<close>: the storage adapter the manager is
  constructed with, the browser's \<open>localStorage\<close> adapter, the card shapes, and every operation of
  \<open>CredentialStorageManager\<close>.

  An adapter is a record of operations on a storage state, as the constructor argument is an object
  of operations.  The locale \<open>storage_adapter\<close> states what the manager relies on; its lemmas are about
  the manager over any lawful adapter, and it is interpreted on \<open>browserStorageAdapter\<close>.  The manager
  is shown to refine an ordered dictionary from credential ids to credentials with their wrapped keys.
  Storage that refuses a write (a full quota) is not modelled.
\<close>

section \<open>Stored data\<close>

record storedWebAuthnCredential =
  wa_credentialId :: string
  wa_publicKey :: "string option"
  wa_counter :: int
  wa_transports :: "string list"

text \<open>\<open>VerifiedClaims\<close> is read by key in the code (\<open>Record<string, unknown>\<close>).\<close>

type_synonym verifiedClaims = "(string \<times> json) list"

datatype cardShape =
    Passport "string option"
  | GoogleAccount "string option"
  | AppleId "bool option"
  | GenericOidc string "string option"

record walletCredential =
  wc_credentialId :: string
  wc_sdJwtVc :: string
  wc_issuer :: string
  wc_providerId :: string
  wc_issuedAt :: string
  wc_expiresAt :: "string option"
  wc_cardShape :: cardShape
  wc_verifiedClaims :: verifiedClaims
  wc_holderPublicKeyHex :: string
  wc_batchSiblings :: "string list option"

section \<open>Storage keys and adapters\<close>

definition WALLET_INDEX :: string where "WALLET_INDEX = ''owl_wallet_index''"
definition WALLET_CRED_PREFIX :: string where "WALLET_CRED_PREFIX = ''owl_wallet_cred:''"
definition WALLET_KEY_PREFIX :: string where "WALLET_KEY_PREFIX = ''owl_wallet_key:''"
definition WEBAUTHN_CREDENTIAL :: string where "WEBAUTHN_CREDENTIAL = ''owl_webauthn_credential''"
definition USERNAME :: string where "USERNAME = ''owl_username''"

record 's storageAdapter =
  getItem :: "'s \<Rightarrow> string \<Rightarrow> string option"
  setItem :: "'s \<Rightarrow> string \<Rightarrow> string \<Rightarrow> 's"
  removeItem :: "'s \<Rightarrow> string \<Rightarrow> 's"

text \<open>The browser: whether \<open>window\<close> and \<open>localStorage\<close> exist, and what is stored.\<close>

record browser =
  isBrowser :: bool
  localStorage :: "string \<Rightarrow> string option"

definition browserStorageAdapter :: "browser storageAdapter" where
  "browserStorageAdapter =
     \<lparr>getItem = (\<lambda>s k. if isBrowser s then localStorage s k else None),
      setItem = (\<lambda>s k v. if isBrowser s then s\<lparr>localStorage := (localStorage s)(k \<mapsto> v)\<rparr> else s),
      removeItem = (\<lambda>s k. if isBrowser s then s\<lparr>localStorage := (localStorage s)(k := None)\<rparr> else s)\<rparr>"

definition buildCardShape :: "string \<Rightarrow> verifiedClaims \<Rightarrow> cardShape" where
  "buildCardShape providerId claims =
     (let i = toLowerCase providerId in
      if i = ''didit'' \<or> startsWith i ''mock-'' then Passport (asStr (map_of claims ''portraitImage''))
      else if i = ''google'' then GoogleAccount (asStr (map_of claims ''hostedDomain''))
      else if i = ''apple'' then
        AppleId (case map_of claims ''isPrivateEmail'' of Some (JBool b) \<Rightarrow> Some b | _ \<Rightarrow> None)
      else GenericOidc providerId None)"

section \<open>Serialisation\<close>

text \<open>\<open>JSON.stringify\<close> leaves out the fields that are \<open>undefined\<close>.\<close>

definition optField :: "string \<Rightarrow> ('a \<Rightarrow> json) \<Rightarrow> 'a option \<Rightarrow> (string \<times> json) list" where
  "optField k f v = (case v of None \<Rightarrow> [] | Some x \<Rightarrow> [(k, f x)])"

fun cardToJson :: "cardShape \<Rightarrow> json" where
  "cardToJson (Passport p) = JObj ((''kind'', JStr ''passport'') # optField ''portraitImage'' JStr p)"
| "cardToJson (GoogleAccount h) =
     JObj ((''kind'', JStr ''google-account'') # optField ''hostedDomain'' JStr h)"
| "cardToJson (AppleId r) = JObj ((''kind'', JStr ''apple-id'') # optField ''relayEmail'' JBool r)"
| "cardToJson (GenericOidc b l) =
     JObj ([(''kind'', JStr ''generic-oidc''), (''brandName'', JStr b)] @ optField ''logoUrl'' JStr l)"

definition asBool :: "json option \<Rightarrow> bool option" where
  "asBool v = (case v of Some (JBool b) \<Rightarrow> Some b | _ \<Rightarrow> None)"

definition strField :: "string \<Rightarrow> json \<Rightarrow> string" where
  "strField k v = the_or [] (asStr (getField k v))"

definition strings :: "json list \<Rightarrow> string list" where
  "strings vs = concat (map (\<lambda>v. case v of JStr s \<Rightarrow> [s] | _ \<Rightarrow> []) vs)"

definition cardOfJson :: "json \<Rightarrow> cardShape" where
  "cardOfJson v =
     (let k = strField ''kind'' v in
      if k = ''passport'' then Passport (asStr (getField ''portraitImage'' v))
      else if k = ''google-account'' then GoogleAccount (asStr (getField ''hostedDomain'' v))
      else if k = ''apple-id'' then AppleId (asBool (getField ''relayEmail'' v))
      else GenericOidc (strField ''brandName'' v) (asStr (getField ''logoUrl'' v)))"

definition credToJson :: "walletCredential \<Rightarrow> json" where
  "credToJson c = JObj
     ([(''credentialId'', JStr (wc_credentialId c)), (''sdJwtVc'', JStr (wc_sdJwtVc c)),
       (''issuer'', JStr (wc_issuer c)), (''providerId'', JStr (wc_providerId c)),
       (''issuedAt'', JStr (wc_issuedAt c))] @ optField ''expiresAt'' JStr (wc_expiresAt c) @
      [(''cardShape'', cardToJson (wc_cardShape c)), (''verifiedClaims'', JObj (wc_verifiedClaims c)),
       (''holderPublicKeyHex'', JStr (wc_holderPublicKeyHex c))] @
      optField ''batchSiblings'' (\<lambda>xs. JArr (map JStr xs)) (wc_batchSiblings c))"

text \<open>\<open>JSON.parse(json) as WalletCredential\<close>: the fields as they are read; a missing string reads
  as the empty string.\<close>

definition credOfJson :: "json \<Rightarrow> walletCredential" where
  "credOfJson v =
     \<lparr>wc_credentialId = strField ''credentialId'' v, wc_sdJwtVc = strField ''sdJwtVc'' v,
      wc_issuer = strField ''issuer'' v, wc_providerId = strField ''providerId'' v,
      wc_issuedAt = strField ''issuedAt'' v, wc_expiresAt = asStr (getField ''expiresAt'' v),
      wc_cardShape = cardOfJson (the_or JNull (getField ''cardShape'' v)),
      wc_verifiedClaims = (case getField ''verifiedClaims'' v of Some (JObj kvs) \<Rightarrow> kvs | _ \<Rightarrow> []),
      wc_holderPublicKeyHex = strField ''holderPublicKeyHex'' v,
      wc_batchSiblings = map_option strings (asArr (getField ''batchSiblings'' v))\<rparr>"

definition webAuthnToJson :: "storedWebAuthnCredential \<Rightarrow> json" where
  "webAuthnToJson c = JObj
     ((''credentialId'', JStr (wa_credentialId c)) # optField ''publicKey'' JStr (wa_publicKey c) @
      [(''counter'', JNum (wa_counter c)), (''transports'', JArr (map JStr (wa_transports c)))])"

definition webAuthnOfJson :: "json \<Rightarrow> storedWebAuthnCredential" where
  "webAuthnOfJson v =
     \<lparr>wa_credentialId = strField ''credentialId'' v, wa_publicKey = asStr (getField ''publicKey'' v),
      wa_counter = the_or 0 (asNum (getField ''counter'' v)),
      wa_transports = strings (the_or [] (asArr (getField ''transports'' v)))\<rparr>"

text \<open>\<open>if (!json) return null; try { return JSON.parse(json) } catch { return null }\<close>.\<close>

definition parseStored :: "(json \<Rightarrow> 'a) \<Rightarrow> string option \<Rightarrow> 'a option" where
  "parseStored f t =
     (case t of
        None \<Rightarrow> None
      | Some j \<Rightarrow>
          if j = [] then None
          else (case JSON_parse j of
                  Inl _ \<Rightarrow> None
                | Inr v \<Rightarrow> if v = JNull then None else Some (f v)))"

section \<open>The storage manager\<close>

definition saveWebAuthnCredential :: "'s storageAdapter \<Rightarrow> 's \<Rightarrow> storedWebAuthnCredential \<Rightarrow> 's" where
  "saveWebAuthnCredential A s c = setItem A s WEBAUTHN_CREDENTIAL (stringify (webAuthnToJson c))"

definition loadWebAuthnCredential :: "'s storageAdapter \<Rightarrow> 's \<Rightarrow> storedWebAuthnCredential option" where
  "loadWebAuthnCredential A s = parseStored webAuthnOfJson (getItem A s WEBAUTHN_CREDENTIAL)"

definition saveSelectedWebAuthnCredential ::
  "'s storageAdapter \<Rightarrow> 's \<Rightarrow> string \<Rightarrow> string list \<Rightarrow> 's \<times> storedWebAuthnCredential" where
  "saveSelectedWebAuthnCredential A s credId transports =
     (let existing = loadWebAuthnCredential A s;
          next = \<lparr>wa_credentialId = credId,
                  wa_publicKey = (case existing of None \<Rightarrow> None | Some e \<Rightarrow> wa_publicKey e),
                  wa_counter = (case existing of None \<Rightarrow> 0 | Some e \<Rightarrow> wa_counter e),
                  wa_transports = (case existing of None \<Rightarrow> transports
                     | Some e \<Rightarrow> if wa_transports e \<noteq> [] then wa_transports e else transports)\<rparr>
      in (saveWebAuthnCredential A s next, next))"

text \<open>The truth value of a stored string.\<close>

definition truthy :: "string option \<Rightarrow> bool" where
  "truthy v = (case v of None \<Rightarrow> False | Some t \<Rightarrow> t \<noteq> [])"

definition hasWebAuthnCredential :: "'s storageAdapter \<Rightarrow> 's \<Rightarrow> bool" where
  "hasWebAuthnCredential A s = truthy (getItem A s WEBAUTHN_CREDENTIAL)"

definition saveUsername :: "'s storageAdapter \<Rightarrow> 's \<Rightarrow> string \<Rightarrow> 's" where
  "saveUsername A s username = setItem A s USERNAME username"

definition loadUsername :: "'s storageAdapter \<Rightarrow> 's \<Rightarrow> string option" where
  "loadUsername A s = getItem A s USERNAME"

definition readIndex :: "'s storageAdapter \<Rightarrow> 's \<Rightarrow> string list" where
  "readIndex A s =
     (case getItem A s WALLET_INDEX of
        None \<Rightarrow> []
      | Some j \<Rightarrow>
          if j = [] then []
          else (case JSON_parse j of Inr (JArr vs) \<Rightarrow> strings vs | _ \<Rightarrow> []))"

definition writeIndex :: "'s storageAdapter \<Rightarrow> 's \<Rightarrow> string list \<Rightarrow> 's" where
  "writeIndex A s ids = setItem A s WALLET_INDEX (stringify (JArr (map JStr ids)))"

definition addCredential :: "'s storageAdapter \<Rightarrow> 's \<Rightarrow> walletCredential \<Rightarrow> string \<Rightarrow> 's" where
  "addCredential A s c wrappedKey =
     (let ids = readIndex A s; i = wc_credentialId c;
          ids' = (if i \<in> set ids then ids else ids @ [i]);
          s1 = setItem A s (WALLET_CRED_PREFIX @ i) (stringify (credToJson c));
          s2 = setItem A s1 (WALLET_KEY_PREFIX @ i) wrappedKey
      in writeIndex A s2 ids')"

definition getCredential :: "'s storageAdapter \<Rightarrow> 's \<Rightarrow> string \<Rightarrow> walletCredential option" where
  "getCredential A s i = parseStored credOfJson (getItem A s (WALLET_CRED_PREFIX @ i))"

definition listCredentials :: "'s storageAdapter \<Rightarrow> 's \<Rightarrow> walletCredential list" where
  "listCredentials A s = concat (map (\<lambda>i. case getCredential A s i of None \<Rightarrow> [] | Some c \<Rightarrow> [c]) (readIndex A s))"

definition removeCredential :: "'s storageAdapter \<Rightarrow> 's \<Rightarrow> string \<Rightarrow> 's" where
  "removeCredential A s i =
     (let ids = filter (\<lambda>j. j \<noteq> i) (readIndex A s);
          s1 = removeItem A s (WALLET_CRED_PREFIX @ i);
          s2 = removeItem A s1 (WALLET_KEY_PREFIX @ i)
      in writeIndex A s2 ids)"

definition hasAnyCredential :: "'s storageAdapter \<Rightarrow> 's \<Rightarrow> bool" where
  "hasAnyCredential A s =
     list_ex (\<lambda>i. truthy (getItem A s (WALLET_CRED_PREFIX @ i)) \<and> truthy (getItem A s (WALLET_KEY_PREFIX @ i)))
       (readIndex A s)"

definition getCredentialKeyWrapped :: "'s storageAdapter \<Rightarrow> 's \<Rightarrow> string \<Rightarrow> string option" where
  "getCredentialKeyWrapped A s i = getItem A s (WALLET_KEY_PREFIX @ i)"

definition clearAll :: "'s storageAdapter \<Rightarrow> 's \<Rightarrow> 's" where
  "clearAll A s =
     (let perCred = concat (map (\<lambda>i. [WALLET_CRED_PREFIX @ i, WALLET_KEY_PREFIX @ i]) (readIndex A s))
      in foldl (removeItem A) s ([WALLET_INDEX, WEBAUTHN_CREDENTIAL, USERNAME] @ perCred))"

section \<open>Serialisation round trips\<close>

lemma strings_JStr [simp]: "strings (map JStr xs) = xs"
  by (induction xs) (simp_all add: strings_def)

lemma cardOfJson_cardToJson: "cardOfJson (cardToJson c) = c"
  by (cases c) (auto simp: cardOfJson_def strField_def optField_def asBool_def Let_def split: option.splits)

definition cred_wf :: "walletCredential \<Rightarrow> bool" where
  "cred_wf c = json_wf (JObj (wc_verifiedClaims c))"

lemma cardToJson_wf: "json_wf (cardToJson c)"
  by (cases c) (auto simp: optField_def split: option.splits)

lemma credToJson_wf: "cred_wf c \<Longrightarrow> json_wf (credToJson c)"
  by (cases "wc_expiresAt c"; cases "wc_batchSiblings c")
    (simp_all add: credToJson_def cred_wf_def optField_def cardToJson_wf list_all_iff)

lemma credOfJson_credToJson: "credOfJson (credToJson c) = c"
  by (cases "wc_expiresAt c"; cases "wc_batchSiblings c")
    (simp_all add: credToJson_def credOfJson_def optField_def strField_def cardOfJson_cardToJson)

lemma webAuthn_roundtrip:
  "json_wf (webAuthnToJson c)" "webAuthnOfJson (webAuthnToJson c) = c"
  by (cases "wa_publicKey c";
      simp add: webAuthnToJson_def webAuthnOfJson_def optField_def strField_def list_all_iff)+

lemma stringify_nonempty [simp]: "stringify v \<noteq> []"
  using stringify_hd [of v] by auto

lemma parseStored_stringify:
  "json_wf v \<Longrightarrow> v \<noteq> JNull \<Longrightarrow> parseStored f (Some (stringify v)) = Some (f v)"
  by (simp add: parseStored_def json.dec_enc)

lemma parseStored_cred: "cred_wf c \<Longrightarrow> parseStored credOfJson (Some (stringify (credToJson c))) = Some c"
  using parseStored_stringify [OF credToJson_wf, of c credOfJson]
  by (simp add: credOfJson_credToJson) (simp add: credToJson_def)

lemma parseStored_webAuthn:
  "parseStored webAuthnOfJson (Some (stringify (webAuthnToJson c))) = Some c"
  using parseStored_stringify [OF webAuthn_roundtrip(1), of c webAuthnOfJson]
  by (simp add: webAuthn_roundtrip) (simp add: webAuthnToJson_def)

section \<open>The contract of an adapter\<close>

lemmas key_defs = WALLET_INDEX_def WALLET_CRED_PREFIX_def WALLET_KEY_PREFIX_def
  WEBAUTHN_CREDENTIAL_def USERNAME_def

text \<open>The storage keys never collide, whatever the credential ids are.\<close>

lemma keys_apart [simp]:
  "WALLET_CRED_PREFIX @ i \<noteq> WALLET_KEY_PREFIX @ j" "WALLET_KEY_PREFIX @ j \<noteq> WALLET_CRED_PREFIX @ i"
  "WALLET_CRED_PREFIX @ i \<noteq> WALLET_INDEX" "WALLET_INDEX \<noteq> WALLET_CRED_PREFIX @ i"
  "WALLET_KEY_PREFIX @ i \<noteq> WALLET_INDEX" "WALLET_INDEX \<noteq> WALLET_KEY_PREFIX @ i"
  "WALLET_CRED_PREFIX @ i \<noteq> WEBAUTHN_CREDENTIAL" "WEBAUTHN_CREDENTIAL \<noteq> WALLET_CRED_PREFIX @ i"
  "WALLET_KEY_PREFIX @ i \<noteq> WEBAUTHN_CREDENTIAL" "WEBAUTHN_CREDENTIAL \<noteq> WALLET_KEY_PREFIX @ i"
  "WALLET_CRED_PREFIX @ i \<noteq> USERNAME" "USERNAME \<noteq> WALLET_CRED_PREFIX @ i"
  "WALLET_KEY_PREFIX @ i \<noteq> USERNAME" "USERNAME \<noteq> WALLET_KEY_PREFIX @ i"
  "WALLET_INDEX \<noteq> WEBAUTHN_CREDENTIAL" "WEBAUTHN_CREDENTIAL \<noteq> WALLET_INDEX"
  "WALLET_INDEX \<noteq> USERNAME" "USERNAME \<noteq> WALLET_INDEX" "USERNAME \<noteq> WEBAUTHN_CREDENTIAL"
  "WEBAUTHN_CREDENTIAL \<noteq> USERNAME"
  by (simp_all add: key_defs)

text \<open>The wallet as an ordered dictionary, and the dictionary's own operations.\<close>

type_synonym dictionary = "(string \<times> walletCredential option \<times> string option) list"

definition walletView :: "'s storageAdapter \<Rightarrow> 's \<Rightarrow> dictionary" where
  "walletView A s = map (\<lambda>i. (i, getCredential A s i, getCredentialKeyWrapped A s i)) (readIndex A s)"

definition upsert :: "string \<Rightarrow> walletCredential \<Rightarrow> string \<Rightarrow> dictionary \<Rightarrow> dictionary" where
  "upsert i c k d =
     (if i \<in> fst ` set d then map (\<lambda>e. if fst e = i then (i, Some c, Some k) else e) d
      else d @ [(i, Some c, Some k)])"

text \<open>The invariant: the index has no duplicates, and each of its ids has a credential that carries
  that id and a wrapped key.\<close>

definition wallet_ok :: "'s storageAdapter \<Rightarrow> 's \<Rightarrow> bool" where
  "wallet_ok A s \<longleftrightarrow> distinct (readIndex A s) \<and>
     (\<forall>i \<in> set (readIndex A s). (\<exists>c. getCredential A s i = Some c \<and> wc_credentialId c = i) \<and>
        getCredentialKeyWrapped A s i \<noteq> None)"

locale storage_adapter =
  fixes A :: "'s storageAdapter" and live :: "'s \<Rightarrow> bool"
  assumes get_set: "live s \<Longrightarrow> getItem A (setItem A s k v) k' = (if k' = k then Some v else getItem A s k')"
    and get_remove: "live s \<Longrightarrow> getItem A (removeItem A s k) k' = (if k' = k then None else getItem A s k')"
    and live_set: "live s \<Longrightarrow> live (setItem A s k v)"
    and live_remove: "live s \<Longrightarrow> live (removeItem A s k)"
begin

lemmas adapter_simps = get_set get_remove live_set live_remove

lemma readIndex_writeIndex: "live s \<Longrightarrow> readIndex A (writeIndex A s ids) = ids"
  using json.dec_enc [of "JArr (map JStr ids)"]
  by (simp add: readIndex_def writeIndex_def get_set list_all_iff del: stringify.simps)

lemma getItem_writeIndex:
  "live s \<Longrightarrow> k \<noteq> WALLET_INDEX \<Longrightarrow> getItem A (writeIndex A s ids) k = getItem A s k"
  by (simp add: writeIndex_def get_set)

lemma live_add: "live s \<Longrightarrow> live (addCredential A s c k)"
  by (simp add: addCredential_def Let_def writeIndex_def live_set)

lemma live_removeCredential: "live s \<Longrightarrow> live (removeCredential A s i)"
  by (simp add: removeCredential_def Let_def writeIndex_def live_set live_remove)

lemma readIndex_add:
  "live s \<Longrightarrow> readIndex A (addCredential A s c k) = setAdd (readIndex A s) (wc_credentialId c)"
  by (simp add: addCredential_def Let_def readIndex_writeIndex live_set)

lemma getItem_add:
  "live s \<Longrightarrow> q \<noteq> WALLET_INDEX \<Longrightarrow> getItem A (addCredential A s c k) q =
    (if q = WALLET_KEY_PREFIX @ wc_credentialId c then Some k
     else if q = WALLET_CRED_PREFIX @ wc_credentialId c then Some (stringify (credToJson c))
     else getItem A s q)"
  by (simp add: addCredential_def Let_def getItem_writeIndex adapter_simps)

lemma getCredential_add:
  "live s \<Longrightarrow> cred_wf c \<Longrightarrow> getCredential A (addCredential A s c k) i =
    (if i = wc_credentialId c then Some c else getCredential A s i)"
  by (simp add: getCredential_def getItem_add parseStored_cred)

lemma getKey_add:
  "live s \<Longrightarrow> getCredentialKeyWrapped A (addCredential A s c k) i =
    (if i = wc_credentialId c then Some k else getCredentialKeyWrapped A s i)"
  by (simp add: getCredentialKeyWrapped_def getItem_add)

lemma readIndex_remove:
  "live s \<Longrightarrow> readIndex A (removeCredential A s i) = filter (\<lambda>j. j \<noteq> i) (readIndex A s)"
  by (simp add: removeCredential_def Let_def readIndex_writeIndex live_remove)

lemma getItem_removeCredential:
  "live s \<Longrightarrow> q \<noteq> WALLET_INDEX \<Longrightarrow> getItem A (removeCredential A s i) q =
    (if q = WALLET_KEY_PREFIX @ i \<or> q = WALLET_CRED_PREFIX @ i then None else getItem A s q)"
  by (simp add: removeCredential_def Let_def getItem_writeIndex adapter_simps)

lemma get_removeCredential:
  assumes "live s"
  shows "getCredential A (removeCredential A s i) j = (if j = i then None else getCredential A s j)"
    and "getCredentialKeyWrapped A (removeCredential A s i) j
      = (if j = i then None else getCredentialKeyWrapped A s j)"
  using assms
  by (simp_all add: getCredential_def getCredentialKeyWrapped_def getItem_removeCredential parseStored_def)

lemma view_add:
  assumes "live s" and "cred_wf c"
  shows "walletView A (addCredential A s c k) = upsert (wc_credentialId c) c k (walletView A s)"
  using assms
  by (auto simp: walletView_def upsert_def readIndex_add getCredential_add getKey_add image_iff)

lemma view_remove:
  "live s \<Longrightarrow> walletView A (removeCredential A s i) = filter (\<lambda>e. fst e \<noteq> i) (walletView A s)"
  by (auto simp: walletView_def readIndex_remove get_removeCredential filter_map comp_def)

lemma wallet_ok_add: "live s \<Longrightarrow> cred_wf c \<Longrightarrow> wallet_ok A s \<Longrightarrow> wallet_ok A (addCredential A s c k)"
  by (auto simp: wallet_ok_def readIndex_add getCredential_add getKey_add)

lemma wallet_ok_remove: "live s \<Longrightarrow> wallet_ok A s \<Longrightarrow> wallet_ok A (removeCredential A s i)"
  by (auto simp: wallet_ok_def readIndex_remove get_removeCredential)

lemma getItem_foldl_remove:
  "live s \<Longrightarrow> getItem A (foldl (removeItem A) s ks) k = (if k \<in> set ks then None else getItem A s k)"
  by (induction ks arbitrary: s) (auto simp: adapter_simps)

lemma getItem_clearAll:
  "live s \<Longrightarrow> getItem A (clearAll A s) k =
    (if k \<in> {WALLET_INDEX, WEBAUTHN_CREDENTIAL, USERNAME} \<or>
        (\<exists>i \<in> set (readIndex A s). k = WALLET_CRED_PREFIX @ i \<or> k = WALLET_KEY_PREFIX @ i)
     then None else getItem A s k)"
  unfolding clearAll_def Let_def by (subst getItem_foldl_remove) auto

lemma readIndex_clearAll: "live s \<Longrightarrow> readIndex A (clearAll A s) = []"
  by (simp add: readIndex_def getItem_clearAll)

lemma wallet_ok_other_key:
  assumes "live s" and "wallet_ok A s" and "k = WEBAUTHN_CREDENTIAL \<or> k = USERNAME"
  shows "wallet_ok A (setItem A s k v)"
proof -
  have "getItem A (setItem A s k v) q = getItem A s q"
    if "q = WALLET_INDEX \<or> (\<exists>i. q = WALLET_CRED_PREFIX @ i \<or> q = WALLET_KEY_PREFIX @ i)" for q
    using assms(1,3) that by (auto simp: get_set)
  then show ?thesis
    using assms(2) unfolding wallet_ok_def readIndex_def getCredential_def getCredentialKeyWrapped_def
    by simp
qed

lemma loadWebAuthn_saveSelected:
  "live s \<Longrightarrow> loadWebAuthnCredential A (fst (saveSelectedWebAuthnCredential A s i ts))
    = Some (snd (saveSelectedWebAuthnCredential A s i ts))"
  by (simp add: saveSelectedWebAuthnCredential_def Let_def loadWebAuthnCredential_def
      saveWebAuthnCredential_def get_set parseStored_webAuthn)

lemma list_ids: "wallet_ok A s \<Longrightarrow> map wc_credentialId (listCredentials A s) = readIndex A s"
proof -
  assume "wallet_ok A s"
  then have "\<forall>i \<in> set (readIndex A s). \<exists>c. getCredential A s i = Some c \<and> wc_credentialId c = i"
    by (simp add: wallet_ok_def)
  then have "map wc_credentialId (concat (map (\<lambda>i. case getCredential A s i of None \<Rightarrow> [] | Some c \<Rightarrow> [c]) is)) = is"
    if "set is \<subseteq> set (readIndex A s)" for "is"
    using that by (induction "is") auto
  then show ?thesis by (simp add: listCredentials_def)
qed

lemma list_ids_set: "wallet_ok A s \<Longrightarrow> i \<in> set (readIndex A s) \<longleftrightarrow> (\<exists>d \<in> set (listCredentials A s). wc_credentialId d = i)"
  using list_ids [of s] by (metis (no_types, lifting) image_iff set_map)

lemma list_of_ids:
  assumes "wallet_ok A s"
  shows "listCredentials A s = map (\<lambda>i. the (getCredential A s i)) (readIndex A s)"
proof -
  have "concat (map (\<lambda>i. case getCredential A s i of None \<Rightarrow> [] | Some c \<Rightarrow> [c]) is)
      = map (\<lambda>i. the (getCredential A s i)) is" if "set is \<subseteq> set (readIndex A s)" for "is"
    using that assms by (induction "is") (auto simp: wallet_ok_def)
  then show ?thesis by (simp add: listCredentials_def)
qed

lemma ok_id: "wallet_ok A s \<Longrightarrow> i \<in> set (readIndex A s) \<Longrightarrow> wc_credentialId (the (getCredential A s i)) = i"
  by (auto simp: wallet_ok_def)

lemma list_add:
  assumes "live s" "cred_wf c" "wallet_ok A s"
  shows "listCredentials A (addCredential A s c k) =
    (if \<exists>d \<in> set (listCredentials A s). wc_credentialId d = wc_credentialId c
     then map (\<lambda>d. if wc_credentialId d = wc_credentialId c then c else d) (listCredentials A s)
     else listCredentials A s @ [c])"
  unfolding list_of_ids [OF wallet_ok_add [OF assms]] list_ids_set [OF assms(3), symmetric]
  using assms by (auto simp: list_of_ids readIndex_add getCredential_add ok_id)

lemma list_remove:
  assumes "live s" "wallet_ok A s"
  shows "listCredentials A (removeCredential A s i) = filter (\<lambda>d. wc_credentialId d \<noteq> i) (listCredentials A s)"
  unfolding list_of_ids [OF wallet_ok_remove [OF assms]]
  using assms by (auto simp: list_of_ids readIndex_remove get_removeCredential filter_map comp_def ok_id cong: filter_cong)

end

interpretation bsa: storage_adapter browserStorageAdapter isBrowser
  by unfold_locales (simp_all add: browserStorageAdapter_def)

section \<open>Properties\<close>

text \<open>C19: In a browser the storage manager refines an ordered dictionary, and keeps nothing else.  \<open>addCredential\<close>
  inserts the credential with its wrapped key, replacing in place an entry with the same id and appending a new one;
  \<open>removeCredential\<close> deletes the entry, and \<open>listCredentials\<close> shows exactly that in a well-formed wallet.  Of the storage
  itself, \<open>removeCredential\<close> erases the stored credential and its wrapped key, \<open>addCredential\<close> stores the wrapped key it is
  given, and every other item but the index is left as it was.\<close>

theorem storage_refines_dictionary:
  assumes "isBrowser s" and "cred_wf c"
  shows "walletView browserStorageAdapter (addCredential browserStorageAdapter s c k)
      = upsert (wc_credentialId c) c k (walletView browserStorageAdapter s) \<and>
    walletView browserStorageAdapter (removeCredential browserStorageAdapter s i)
      = filter (\<lambda>e. fst e \<noteq> i) (walletView browserStorageAdapter s) \<and>
    (wallet_ok browserStorageAdapter s \<longrightarrow>
       listCredentials browserStorageAdapter (addCredential browserStorageAdapter s c k) =
         (if wc_credentialId c \<in> wc_credentialId ` set (listCredentials browserStorageAdapter s)
          then map (\<lambda>d. if wc_credentialId d = wc_credentialId c then c else d) (listCredentials browserStorageAdapter s)
          else listCredentials browserStorageAdapter s @ [c]) \<and>
       listCredentials browserStorageAdapter (removeCredential browserStorageAdapter s i)
         = filter (\<lambda>d. wc_credentialId d \<noteq> i) (listCredentials browserStorageAdapter s)) \<and>
    (\<forall>q. q \<noteq> WALLET_INDEX \<longrightarrow>
       localStorage (removeCredential browserStorageAdapter s i) q =
         (if q = ''owl_wallet_cred:'' @ i \<or> q = ''owl_wallet_key:'' @ i then None else localStorage s q) \<and>
       localStorage (addCredential browserStorageAdapter s c k) q =
         (if q = ''owl_wallet_key:'' @ wc_credentialId c then Some k
          else if q = ''owl_wallet_cred:'' @ wc_credentialId c then Some (stringify (credToJson c)) else localStorage s q))"
proof -
  have get: "getItem browserStorageAdapter t q = localStorage t q" if "isBrowser t" for t q
    using that by (simp add: browserStorageAdapter_def)
  note live = bsa.live_add [OF assms(1), of c k] bsa.live_removeCredential [OF assms(1), of i]
  have "localStorage (removeCredential browserStorageAdapter s i) q =
         (if q = ''owl_wallet_cred:'' @ i \<or> q = ''owl_wallet_key:'' @ i then None else localStorage s q) \<and>
       localStorage (addCredential browserStorageAdapter s c k) q =
         (if q = ''owl_wallet_key:'' @ wc_credentialId c then Some k
          else if q = ''owl_wallet_cred:'' @ wc_credentialId c then Some (stringify (credToJson c)) else localStorage s q)"
    if "q \<noteq> WALLET_INDEX" for q
    using that assms(1) bsa.getItem_removeCredential [of s q i] bsa.getItem_add [of s q c k]
    by (simp only: get live WALLET_CRED_PREFIX_def WALLET_KEY_PREFIX_def) auto
  then show ?thesis
    using assms bsa.list_add [OF assms] bsa.list_remove [OF assms(1)]
    by (simp add: bsa.view_add bsa.view_remove image_iff eq_commute)
qed

text \<open>C20: Every operation of the storage manager keeps the wallet well formed: after adding or removing
  a credential, saving a passkey or a user name, or clearing, the index has no duplicates and each
  indexed id has its credential and its wrapped key.\<close>

theorem storage_keeps_wallet_ok:
  assumes "isBrowser s" and "wallet_ok browserStorageAdapter s" and "cred_wf c"
  shows "wallet_ok browserStorageAdapter (addCredential browserStorageAdapter s c k) \<and>
    wallet_ok browserStorageAdapter (removeCredential browserStorageAdapter s i) \<and>
    wallet_ok browserStorageAdapter (fst (saveSelectedWebAuthnCredential browserStorageAdapter s i ts)) \<and>
    wallet_ok browserStorageAdapter (saveWebAuthnCredential browserStorageAdapter s w) \<and>
    wallet_ok browserStorageAdapter (saveUsername browserStorageAdapter s u) \<and>
    wallet_ok browserStorageAdapter (clearAll browserStorageAdapter s)"
  using assms
  by (simp add: bsa.wallet_ok_add bsa.wallet_ok_remove saveSelectedWebAuthnCredential_def Let_def
      saveWebAuthnCredential_def saveUsername_def bsa.wallet_ok_other_key)
    (simp add: wallet_ok_def bsa.readIndex_clearAll)

text \<open>\<open>clearAll\<close> wipes the wallet: no credential, wrapped key, passkey, user name or index entry
  of it is left.\<close>

theorem clearAll_wipes:
  assumes "isBrowser s"
  shows "listCredentials browserStorageAdapter (clearAll browserStorageAdapter s) = [] \<and>
    \<not> hasAnyCredential browserStorageAdapter (clearAll browserStorageAdapter s) \<and>
    \<not> hasWebAuthnCredential browserStorageAdapter (clearAll browserStorageAdapter s) \<and>
    loadUsername browserStorageAdapter (clearAll browserStorageAdapter s) = None \<and>
    (\<forall>i \<in> set (readIndex browserStorageAdapter s).
       getCredential browserStorageAdapter (clearAll browserStorageAdapter s) i = None \<and>
       getCredentialKeyWrapped browserStorageAdapter (clearAll browserStorageAdapter s) i = None)"
  using assms
  by (auto simp: listCredentials_def hasAnyCredential_def bsa.readIndex_clearAll
      hasWebAuthnCredential_def truthy_def loadUsername_def bsa.getItem_clearAll
      getCredential_def getCredentialKeyWrapped_def parseStored_def)

section \<open>Witnesses\<close>

definition exCred :: walletCredential where
  "exCred = \<lparr>wc_credentialId = ''c1'', wc_sdJwtVc = ''eyJ.a.b~'', wc_issuer = ''did:web:issuer'',
     wc_providerId = ''google'', wc_issuedAt = ''2026-01-01'', wc_expiresAt = None,
     wc_cardShape = GoogleAccount None, wc_verifiedClaims = [(''email'', JStr ''a@b'')],
     wc_holderPublicKeyHex = ''00'', wc_batchSiblings = None\<rparr>"

definition exBrowser :: browser where
  "exBrowser = \<lparr>isBrowser = True, localStorage = Map.empty\<rparr>"

lemma exCred_wf: "cred_wf exCred"
  by (simp add: cred_wf_def exCred_def)

lemma exBrowser_facts: "isBrowser exBrowser" "readIndex browserStorageAdapter exBrowser = []"
  "wallet_ok browserStorageAdapter exBrowser"
  by (simp_all add: exBrowser_def readIndex_def browserStorageAdapter_def wallet_ok_def)

theorem storage_refines_dictionary_witness:
  "walletView browserStorageAdapter (addCredential browserStorageAdapter exBrowser exCred ''wrapped'')
     = [(''c1'', Some exCred, Some ''wrapped'')] \<and>
   listCredentials browserStorageAdapter (addCredential browserStorageAdapter exBrowser exCred ''wrapped'') = [exCred] \<and>
   localStorage (removeCredential browserStorageAdapter
     (addCredential browserStorageAdapter exBrowser exCred ''wrapped'') ''c1'') ''owl_wallet_key:c1'' = None"
proof -
  let ?s = "addCredential browserStorageAdapter exBrowser exCred ''wrapped''"
  have "walletView browserStorageAdapter ?s = [(''c1'', Some exCred, Some ''wrapped'')]"
    using storage_refines_dictionary [OF exBrowser_facts(1) exCred_wf, of "''wrapped''"]
    by (simp add: walletView_def exBrowser_facts upsert_def) (simp add: exCred_def)
  moreover have "listCredentials browserStorageAdapter ?s = [exCred]"
    using storage_refines_dictionary [OF exBrowser_facts(1) exCred_wf, of "''wrapped''"]
    by (simp add: exBrowser_facts) (simp add: listCredentials_def exBrowser_facts)
  moreover have "localStorage (removeCredential browserStorageAdapter ?s ''c1'') ''owl_wallet_key:c1'' = None"
    using storage_refines_dictionary [OF bsa.live_add [OF exBrowser_facts(1)] exCred_wf, of exCred "''wrapped''" _ "''c1''"]
    by (simp add: WALLET_INDEX_def)
  ultimately show ?thesis by blast
qed

theorem storage_keeps_wallet_ok_witness:
  "wallet_ok browserStorageAdapter (addCredential browserStorageAdapter exBrowser exCred ''wrapped'')"
  using storage_keeps_wallet_ok [OF exBrowser_facts(1,3) exCred_wf] by blast

theorem clearAll_wipes_witness:
  "listCredentials browserStorageAdapter
     (clearAll browserStorageAdapter (addCredential browserStorageAdapter exBrowser exCred ''wrapped'')) = []"
  using clearAll_wipes [OF bsa.live_add [OF exBrowser_facts(1)]] by blast

end
