(* ===== verification/Js_Async.thy ===== *)
theory Js_Async
  imports Owl_Prelude
begin

text \<open>
  Asynchronous code that reads and changes the outside world and may throw: an action takes a state
  and gives a result with the next state.  \<open>await\<close> sequences actions, so one call of a handler is one
  action.  The rules \<open>keeps\<close> and \<open>ensures\<close> carry invariants and postconditions through handlers.
\<close>

type_synonym ('s, 'a) act = "'s \<Rightarrow> 'a res \<times> 's"

definition returnA :: "'a \<Rightarrow> ('s, 'a) act" where
  "returnA x s = (Inr x, s)"

definition throwA :: "js_error \<Rightarrow> ('s, 'a) act" where
  "throwA e s = (Inl e, s)"

definition liftA :: "'a res \<Rightarrow> ('s, 'a) act" where
  "liftA r s = (r, s)"

definition bindA :: "('s, 'a) act \<Rightarrow> ('a \<Rightarrow> ('s, 'b) act) \<Rightarrow> ('s, 'b) act" where
  "bindA m f s = (case m s of (Inl e, s') \<Rightarrow> (Inl e, s') | (Inr x, s') \<Rightarrow> f x s')"

definition seqA :: "('s, 'a) act \<Rightarrow> ('s, 'b) act \<Rightarrow> ('s, 'b) act" where
  "seqA m n = bindA m (\<lambda>_. n)"

text \<open>\<open>try { m } catch (e) { h(e) }\<close>.\<close>

definition tryA :: "('s, 'a) act \<Rightarrow> (js_error \<Rightarrow> ('s, 'a) act) \<Rightarrow> ('s, 'a) act" where
  "tryA m h s = (case m s of (Inl e, s') \<Rightarrow> h e s' | (Inr x, s') \<Rightarrow> (Inr x, s'))"

definition getA :: "('s \<Rightarrow> 'a) \<Rightarrow> ('s, 'a) act" where
  "getA f s = (Inr (f s), s)"

definition modA :: "('s \<Rightarrow> 's) \<Rightarrow> ('s, unit) act" where
  "modA f s = (Inr (), f s)"

text \<open>A \<open>for\<close> loop that collects what each round pushes.\<close>

fun collectA :: "('a \<Rightarrow> ('s, 'b list) act) \<Rightarrow> 'a list \<Rightarrow> ('s, 'b list) act" where
  "collectA f [] = returnA []"
| "collectA f (x # xs) = bindA (f x) (\<lambda>ys. bindA (collectA f xs) (\<lambda>zs. returnA (ys @ zs)))"

lemmas act_defs = returnA_def throwA_def liftA_def bindA_def seqA_def tryA_def getA_def modA_def

section \<open>Invariants\<close>

named_theorems keeps_intros \<open>introduction rules for invariants of actions\<close>

text \<open>Whatever the action returns or throws, it keeps \<open>I\<close>.\<close>

definition keeps :: "('s \<Rightarrow> bool) \<Rightarrow> ('s, 'a) act \<Rightarrow> bool" where
  "keeps I m \<longleftrightarrow> (\<forall>s. I s \<longrightarrow> I (snd (m s)))"

lemma keepsD: "keeps I m \<Longrightarrow> I s \<Longrightarrow> m s = (r, s') \<Longrightarrow> I s'"
  by (force simp: keeps_def)

lemma keeps_return [keeps_intros]: "keeps I (returnA x)"
  by (simp add: keeps_def returnA_def)

lemma keeps_throw [keeps_intros]: "keeps I (throwA e)"
  by (simp add: keeps_def throwA_def)

lemma keeps_lift [keeps_intros]: "keeps I (liftA r)"
  by (simp add: keeps_def liftA_def)

lemma keeps_get [keeps_intros]: "keeps I (getA f)"
  by (simp add: keeps_def getA_def)

lemma keeps_mod [keeps_intros]: "(\<And>s. I s \<Longrightarrow> I (f s)) \<Longrightarrow> keeps I (modA f)"
  by (simp add: keeps_def modA_def)

lemma keeps_bind [keeps_intros]: "keeps I m \<Longrightarrow> (\<And>x. keeps I (f x)) \<Longrightarrow> keeps I (bindA m f)"
  unfolding keeps_def bindA_def by (auto split: prod.splits sum.splits)

lemma keeps_seq [keeps_intros]: "keeps I m \<Longrightarrow> keeps I n \<Longrightarrow> keeps I (seqA m n)"
  unfolding seqA_def by (rule keeps_bind)

lemma keeps_try [keeps_intros]: "keeps I m \<Longrightarrow> (\<And>e. keeps I (h e)) \<Longrightarrow> keeps I (tryA m h)"
  unfolding keeps_def tryA_def by (auto split: prod.splits sum.splits)

lemma keeps_collect [keeps_intros]: "(\<And>x. x \<in> set xs \<Longrightarrow> keeps I (f x)) \<Longrightarrow> keeps I (collectA f xs)"
  by (induction xs) (auto intro!: keeps_intros)

lemma keeps_if [keeps_intros]: "(c \<Longrightarrow> keeps I m) \<Longrightarrow> (\<not> c \<Longrightarrow> keeps I n) \<Longrightarrow> keeps I (if c then m else n)"
  by simp

lemma keeps_case_option [keeps_intros]:
  "(x = None \<Longrightarrow> keeps I m) \<Longrightarrow> (\<And>y. x = Some y \<Longrightarrow> keeps I (f y)) \<Longrightarrow> keeps I (case x of None \<Rightarrow> m | Some y \<Rightarrow> f y)"
  by (cases x) auto

lemma keeps_case_sum [keeps_intros]:
  "(\<And>e. x = Inl e \<Longrightarrow> keeps I (g e)) \<Longrightarrow> (\<And>y. x = Inr y \<Longrightarrow> keeps I (f y)) \<Longrightarrow>
    keeps I (case x of Inl e \<Rightarrow> g e | Inr y \<Rightarrow> f y)"
  by (cases x) auto

lemma keeps_case_prod [keeps_intros]:
  "(\<And>a b. x = (a, b) \<Longrightarrow> keeps I (f a b)) \<Longrightarrow> keeps I (case x of (a, b) \<Rightarrow> f a b)"
  by (cases x) auto

section \<open>Postconditions\<close>

text \<open>Started in a state with \<open>P\<close>, a normal return gives \<open>Q\<close>.\<close>

definition ensures :: "('s \<Rightarrow> bool) \<Rightarrow> ('s, 'a) act \<Rightarrow> ('a \<Rightarrow> 's \<Rightarrow> bool) \<Rightarrow> bool" where
  "ensures P m Q \<longleftrightarrow> (\<forall>s x s'. P s \<longrightarrow> m s = (Inr x, s') \<longrightarrow> Q x s')"

lemma ensuresD: "ensures P m Q \<Longrightarrow> P s \<Longrightarrow> m s = (Inr x, s') \<Longrightarrow> Q x s'"
  by (simp add: ensures_def)

lemma ensures_return [intro]: "(\<And>s. P s \<Longrightarrow> Q x s) \<Longrightarrow> ensures P (returnA x) Q"
  by (simp add: ensures_def returnA_def)

lemma ensures_throw [intro]: "ensures P (throwA e) Q"
  by (simp add: ensures_def throwA_def)

lemma ensures_bind: "ensures P m R \<Longrightarrow> (\<And>x. ensures (R x) (f x) Q) \<Longrightarrow> ensures P (bindA m f) Q"
  unfolding ensures_def bindA_def by (auto split: prod.splits sum.splits)

lemma ensures_seq: "ensures P m (\<lambda>_. R) \<Longrightarrow> ensures R n Q \<Longrightarrow> ensures P (seqA m n) Q"
  unfolding seqA_def by (rule ensures_bind)

lemma ensures_weaken: "ensures P m R \<Longrightarrow> (\<And>s. P' s \<Longrightarrow> P s) \<Longrightarrow> (\<And>x s. R x s \<Longrightarrow> Q x s) \<Longrightarrow> ensures P' m Q"
  unfolding ensures_def by blast

lemma ensures_if: "(c \<Longrightarrow> ensures P m Q) \<Longrightarrow> (\<not> c \<Longrightarrow> ensures P n Q) \<Longrightarrow> ensures P (if c then m else n) Q"
  by simp

lemma ensures_True: "ensures P m (\<lambda>_ _. True)"
  by (simp add: ensures_def)

lemma ensures_keeps: "keeps I m \<Longrightarrow> ensures I m (\<lambda>_. I)"
  unfolding ensures_def keeps_def by (metis snd_conv)

lemma ensures_lift: "(\<And>x s. r = Inr x \<Longrightarrow> P s \<Longrightarrow> Q x s) \<Longrightarrow> ensures P (liftA r) Q"
  by (simp add: ensures_def liftA_def)

text \<open>A loop: what each round ensures of its results holds of all of them at the end, when the other
  rounds keep it.\<close>

lemma ensures_collect:
  assumes "\<And>x. x \<in> set xs \<Longrightarrow> ensures P (f x) (\<lambda>ys s. P s \<and> (\<forall>y \<in> set ys. R y s))"
    and "\<And>x y. x \<in> set xs \<Longrightarrow> keeps (R y) (f x)"
  shows "ensures P (collectA f xs) (\<lambda>ys s. P s \<and> (\<forall>y \<in> set ys. R y s))"
  using assms
proof (induction xs)
  case Nil
  then show ?case by (simp add: ensures_def returnA_def)
next
  case (Cons x xs)
  have IH: "ensures P (collectA f xs) (\<lambda>ys s. P s \<and> (\<forall>y \<in> set ys. R y s))"
    by (rule Cons.IH) (use Cons.prems in auto)
  have kept: "keeps (R y) (collectA f xs)" for y by (rule keeps_collect) (use Cons.prems(2) in auto)
  show ?case
    unfolding collectA.simps ensures_def
  proof (intro allI impI)
    fix s zs s'
    assume P: "P s" and run: "bindA (f x) (\<lambda>ys. bindA (collectA f xs) (\<lambda>zs. returnA (ys @ zs))) s = (Inr zs, s')"
    obtain ys s1 us where fx: "f x s = (Inr ys, s1)" and cx: "collectA f xs s1 = (Inr us, s')" and zs: "zs = ys @ us"
      using run by (auto simp: bindA_def returnA_def split: prod.splits sum.splits)
    have 1: "P s1 \<and> (\<forall>y \<in> set ys. R y s1)" using ensuresD [OF Cons.prems(1) P fx] by simp
    then have "P s' \<and> (\<forall>y \<in> set us. R y s')" using ensuresD [OF IH _ cx] by blast
    moreover have "\<forall>y \<in> set ys. R y s'" using 1 keepsD [OF kept _ cx] by blast
    ultimately show "P s' \<and> (\<forall>y \<in> set zs. R y s')" using zs by auto
  qed
qed

end
