(* ===== verification/Claim_Trees.thy ===== *)
theory Claim_Trees
  imports Countries Json "HOL-Library.AList"
begin

text \<open>
  The two depth-8 Merkle trees of the holder: the allowed-country tree of \<open>midnight/merkle.ts\<close> and
  the issuer-signed claim tree of \<open>midnight/owl-root.ts\<close>.  The Midnight runtime
  (\<open>StateBoundedMerkleTree\<close> and the path codec) is the parameter record \<open>compactRuntime\<close>, SHA-256 is
  the parameter \<open>sha\<close>.  Both trees fill 256 slots and keep an index from a name to its slot; the
  locale \<open>slot_tree\<close> states what the path look-ups rely on and is interpreted on both.
\<close>

section \<open>The runtime\<close>

text \<open>
  \<open>pathLeaf\<close> and \<open>pathRoot\<close> are the circuit's reading of a path: its leaf and the root it folds to
  (\<open>merkleTreePathRoot\<close>).
\<close>

record ('t, 'p) compactRuntime =
  newTree :: "nat \<Rightarrow> 't"
  updateTree :: "'t \<Rightarrow> nat \<Rightarrow> bytes \<Rightarrow> 't"
  rehash :: "'t \<Rightarrow> 't"
  rootOf :: "'t \<Rightarrow> bytes option"
  pathForLeaf :: "'t \<Rightarrow> nat \<Rightarrow> bytes \<Rightarrow> 'p res"
  pathLeaf :: "'p \<Rightarrow> bytes"
  pathRoot :: "'p \<Rightarrow> bytes"

record 't builtTree =
  bt_tree :: 't
  bt_leaves :: "bytes list"
  bt_index :: "(string \<times> nat) list"

section \<open>Byte buffers\<close>

definition zeros :: "nat \<Rightarrow> bytes" where "zeros n = replicate n 0"

text \<open>\<open>out.set(b.subarray(0, min(b.length, 32)))\<close> on 32 zero bytes.\<close>

definition fill32 :: "bytes \<Rightarrow> bytes" where
  "fill32 b = take 32 b @ zeros (32 - length b)"

text \<open>\<open>buf.set(xs, off)\<close> throws when \<open>xs\<close> does not fit.\<close>

definition bufSet :: "bytes \<Rightarrow> nat \<Rightarrow> bytes \<Rightarrow> bytes res" where
  "bufSet xs off buf =
     (if off + length xs \<le> length buf then Inr (take off buf @ xs @ drop (off + length xs) buf)
      else Inl (Error ''offset is out of bounds''))"

text \<open>The loop \<open>for (i = 0; i < 16 && v > 0n; i++) { out[i] = v & 0xff; v >>= 8 }\<close>.\<close>

fun leLoop :: "nat \<Rightarrow> int \<Rightarrow> bytes" where
  "leLoop 0 v = []"
| "leLoop (Suc k) v = (if v > 0 then word_of_int (v mod 256) # leLoop k (v div 256) else [])"

section \<open>\<open>merkle.ts\<close>: the allowed-country tree\<close>

definition MERKLE_DEPTH :: nat where "MERKLE_DEPTH = 8"
definition COUNTRY_SET_SLOTS :: nat where "COUNTRY_SET_SLOTS = 2 ^ MERKLE_DEPTH"

definition padCountry :: "string \<Rightarrow> bytes" where
  "padCountry c = fill32 (utf8Bytes (toUpperCase c))"

definition canonicaliseCountries :: "string list \<Rightarrow> string list" where
  "canonicaliseCountries codes =
     sortBy str_le (setOf (filter alpha2Shape (map (\<lambda>raw. toUpperCase (trim raw)) codes)))"

definition countryLeaves :: "string list \<Rightarrow> bytes list" where
  "countryLeaves canon =
     map (\<lambda>i. if i < length canon then padCountry (canon ! i) else zeros 32) [0..<COUNTRY_SET_SLOTS]"

definition indexByCountry :: "string list \<Rightarrow> (string \<times> nat) list" where
  "indexByCountry canon =
     foldl (\<lambda>m i. if i < length canon then AList.update (canon ! i) i m else m) [] [0..<COUNTRY_SET_SLOTS]"

text \<open>\<open>for (i = 0; i < 256; i++) tree = tree.update(i, leaves[i])\<close>, then \<open>tree.rehash()\<close>.\<close>

definition filledTree :: "('t, 'p) compactRuntime \<Rightarrow> nat \<Rightarrow> bytes list \<Rightarrow> 't" where
  "filledTree R depth ls =
     rehash R (foldl (\<lambda>t i. updateTree R t i (ls ! i)) (newTree R depth) [0..<2 ^ depth])"

definition buildCanonicalTree :: "('t, 'p) compactRuntime \<Rightarrow> string list \<Rightarrow> 't builtTree res" where
  "buildCanonicalTree R canon =
     (if length canon > COUNTRY_SET_SLOTS then
        Inl (Error (''allowedCountrySet exceeds cap: '' @ showNat (length canon) @ '' > '' @ showNat COUNTRY_SET_SLOTS))
      else
        let leaves = countryLeaves canon in
        Inr \<lparr>bt_tree = filledTree R MERKLE_DEPTH leaves, bt_leaves = leaves, bt_index = indexByCountry canon\<rparr>)"

definition buildAllowedSetTree :: "('t, 'p) compactRuntime \<Rightarrow> string list \<Rightarrow> 't builtTree res" where
  "buildAllowedSetTree R codes = buildCanonicalTree R (canonicaliseCountries codes)"

definition treeRootBytesLE :: "('t, 'p) compactRuntime \<Rightarrow> 't \<Rightarrow> bytes res" where
  "treeRootBytesLE R t =
     (case rootOf R t of
        None \<Rightarrow> Inl (Error ''StateBoundedMerkleTree.root() returned undefined (call rehash() first)'')
      | Some b \<Rightarrow> Inr (fill32 b))"

definition findPathForCountry :: "('t, 'p) compactRuntime \<Rightarrow> 't builtTree \<Rightarrow> string \<Rightarrow> 'p res" where
  "findPathForCountry R built holderCountry =
     (case map_of (bt_index built) (toUpperCase holderCountry) of
        None \<Rightarrow> Inl (Error (''holder country '' @ [CHR 0x27] @ holderCountry @ [CHR 0x27] @
           '' not in canonical allowed-set (canonical leaves: '' @
           joinWith '','' (sortBy str_le (map fst (bt_index built))) @ '')''))
      | Some idx \<Rightarrow> pathForLeaf R (bt_tree built) idx (bt_leaves built ! idx))"

section \<open>\<open>owl-root.ts\<close>: the claim tree\<close>

definition OWL_MERKLE_DEPTH :: nat where "OWL_MERKLE_DEPTH = 8"
definition SLOTS :: nat where "SLOTS = 2 ^ OWL_MERKLE_DEPTH"

definition pad32 :: "string \<Rightarrow> bytes" where
  "pad32 s = fill32 (utf8Bytes s)"

definition intLE32 :: "int \<Rightarrow> bytes" where
  "intLE32 n = fill32 (leLoop 16 n)"

definition allDigits :: "string \<Rightarrow> bool" where
  "allDigits s = (s \<noteq> [] \<and> list_all isDigit s)"

fun toBigInt :: "json \<Rightarrow> int option" where
  "toBigInt (JNum n) = Some n"
| "toBigInt (JStr s) = (if allDigits (trim s) then Some (int (readNat (trim s))) else None)"
| "toBigInt _ = None"

fun toBool :: "json \<Rightarrow> bool option" where
  "toBool (JBool b) = Some b"
| "toBool (JNum n) = Some (n \<noteq> 0)"
| "toBool (JStr v) =
     (let s = toLowerCase (trim v) in
      if s \<in> {''true'', ''yes'', ''1''} then Some True
      else if s \<in> {''false'', ''no'', ''0''} then Some False
      else None)"
| "toBool _ = None"

text \<open>The match of \<open>/^(\d{4})-(\d{2})-(\d{2})/\<close>.\<close>

definition isoDate :: "string \<Rightarrow> (nat \<times> nat \<times> nat) option" where
  "isoDate s =
     (let y = take 4 s; m = take 2 (drop 5 s); d = take 2 (drop 8 s) in
      if length s \<ge> 10 \<and> list_all isDigit y \<and> s ! 4 = CHR ''-'' \<and> list_all isDigit m \<and> s ! 7 = CHR ''-''
        \<and> list_all isDigit d
      then Some (readNat y, readNat m, readNat d) else None)"

fun dateToYmd :: "json \<Rightarrow> nat option" where
  "dateToYmd (JStr v) =
     (case isoDate (trim v) of
        None \<Rightarrow> None
      | Some (y, mm, dd) \<Rightarrow>
          if mm < 1 \<or> mm > 12 \<or> dd < 1 \<or> dd > 31 then None else Some (y * 10000 + mm * 100 + dd))"
| "dateToYmd _ = None"

fun hexTo32 :: "json \<Rightarrow> bytes option" where
  "hexTo32 (JStr v) =
     (let h = (if startsWith v ''0x'' then drop 2 v else v) in
      if length h \<noteq> 64 \<or> \<not> list_all (\<lambda>c. hexVal c \<noteq> None) h then None else Some (hexToBytes h))"
| "hexTo32 _ = None"

definition verificationLevelToNumber :: "json \<Rightarrow> int option" where
  "verificationLevelToNumber v =
     (case toBigInt v of
        Some n \<Rightarrow> Some n
      | None \<Rightarrow>
          (case v of
             JStr t \<Rightarrow>
               (let s = toLowerCase (trim t) in
                if s = ''none'' \<or> s = '''' then Some 0
                else if s = ''low'' \<or> s = ''basic'' then Some 1
                else if s = ''medium'' \<or> s = ''substantial'' then Some 2
                else if s = ''high'' then Some 3
                else None)
           | _ \<Rightarrow> None))"

definition claimValue32 :: "string \<Rightarrow> json \<Rightarrow> bytes option" where
  "claimValue32 name v =
     (if name = ''verification_level'' then map_option intLE32 (verificationLevelToNumber v)
      else if name = ''birthdate'' then map_option (\<lambda>d. intLE32 (int d)) (dateToYmd v)
      else if name = ''email_verified'' \<or> name = ''resident'' then
        map_option (\<lambda>b. intLE32 (if b then 1 else 0)) (toBool v)
      else if name = ''nationality'' \<or> name = ''residentCountry'' then
        (case v of JStr s \<Rightarrow> Some (pad32 (toUpperCase s)) | _ \<Rightarrow> None)
      else if name = ''personhoodSecret'' then hexTo32 v
      else None)"

definition claimCommit :: "(bytes \<Rightarrow> bytes) \<Rightarrow> string \<Rightarrow> bytes \<Rightarrow> bytes \<Rightarrow> bytes res" where
  "claimCommit sha name value32 salt32 =
     bindR (bufSet (pad32 name) 0 (zeros 96)) (\<lambda>b1.
     bindR (bufSet value32 32 b1) (\<lambda>b2.
     bindR (bufSet salt32 64 b2) (\<lambda>b3. Inr (sha b3))))"

definition salt32For :: "(bytes \<Rightarrow> bytes) \<Rightarrow> string \<Rightarrow> bytes" where
  "salt32For sha disclosureSalt = sha (utf8Bytes disclosureSalt)"

text \<open>A raw disclosure \<open>{name, value, salt}\<close>.\<close>

record claimDisclosure =
  cd_name :: string
  cd_value :: json
  cd_salt :: string

definition commitOf :: "(bytes \<Rightarrow> bytes) \<Rightarrow> claimDisclosure \<Rightarrow> (string \<times> bytes) list res" where
  "commitOf sha c =
     (case claimValue32 (cd_name c) (cd_value c) of
        None \<Rightarrow> Inr []
      | Some v32 \<Rightarrow> bindR (claimCommit sha (cd_name c) v32 (salt32For sha (cd_salt c)))
                     (\<lambda>h. Inr [(cd_name c, h)]))"

definition commitLeaves :: "(string \<times> bytes) list \<Rightarrow> bytes list" where
  "commitLeaves commits = map (\<lambda>i. if i < length commits then snd (commits ! i) else zeros 32) [0..<SLOTS]"

definition indexByName :: "(string \<times> bytes) list \<Rightarrow> (string \<times> nat) list" where
  "indexByName commits =
     foldl (\<lambda>m i. if i < length commits then AList.update (fst (commits ! i)) i m else m) [] [0..<SLOTS]"

definition owlCommits :: "(bytes \<Rightarrow> bytes) \<Rightarrow> claimDisclosure list \<Rightarrow> (string \<times> bytes) list res" where
  "owlCommits sha claims =
     bindR (mapR (commitOf sha) claims) (\<lambda>css. Inr (sortBy (\<lambda>a b. str_le (fst a) (fst b)) (concat css)))"

definition buildOwlRootTree ::
  "(bytes \<Rightarrow> bytes) \<Rightarrow> ('t, 'p) compactRuntime \<Rightarrow> claimDisclosure list \<Rightarrow> 't builtTree res" where
  "buildOwlRootTree sha R claims =
     bindR (owlCommits sha claims) (\<lambda>commits.
       if length commits > SLOTS then
         Inl (Error (''too many predicate claims: '' @ showNat (length commits) @ '' > '' @ showNat SLOTS))
       else
         let leaves = commitLeaves commits in
         Inr \<lparr>bt_tree = filledTree R OWL_MERKLE_DEPTH leaves, bt_leaves = leaves, bt_index = indexByName commits\<rparr>)"

definition owlRootBytesLE :: "('t, 'p) compactRuntime \<Rightarrow> 't builtTree \<Rightarrow> bytes res" where
  "owlRootBytesLE R built =
     (case rootOf R (bt_tree built) of
        None \<Rightarrow> Inl (Error ''owl_root tree not rehashed'')
      | Some b \<Rightarrow> Inr (fill32 b))"

definition findClaimPath :: "('t, 'p) compactRuntime \<Rightarrow> 't builtTree \<Rightarrow> string \<Rightarrow> 'p res" where
  "findClaimPath R built name =
     (case map_of (bt_index built) name of
        None \<Rightarrow> Inl (Error (''claim '' @ [CHR 0x27] @ name @ [CHR 0x27] @ '' is not bound in owl_root''))
      | Some idx \<Rightarrow> pathForLeaf R (bt_tree built) idx (bt_leaves built ! idx))"

section \<open>Buffers\<close>

lemma length_fill32 [simp]: "length (fill32 b) = 32"
  by (simp add: fill32_def zeros_def)

lemma fill32_id: "length b = 32 \<Longrightarrow> fill32 b = b"
  by (simp add: fill32_def zeros_def)

lemma length_zeros [simp]: "length (zeros n) = n"
  by (simp add: zeros_def)

lemma length_pad32 [simp]: "length (pad32 s) = 32" and length_padCountry [simp]: "length (padCountry c) = 32"
  by (simp_all add: pad32_def padCountry_def)

lemma length_intLE32 [simp]: "length (intLE32 n) = 32"
  by (simp add: intLE32_def)

lemma length_hexTo32: "hexTo32 v = Some b \<Longrightarrow> length b = 32"
  by (induction v rule: hexTo32.induct) (auto simp: Let_def length_hexToBytes split: if_split_asm)

lemma claimValue32_cases:
  assumes "claimValue32 name v = Some b"
  obtains n where "b = intLE32 n" | s where "b = pad32 s" | "hexTo32 v = Some b"
proof -
  have "(\<exists>n. b = intLE32 n) \<or> (\<exists>s. b = pad32 s) \<or> hexTo32 v = Some b"
    using assms unfolding claimValue32_def
    by (elim if_SomeE) (auto simp del: hexTo32.simps split: json.split_asm)
  then show ?thesis using that by blast
qed

lemma length_claimValue32: "claimValue32 name v = Some b \<Longrightarrow> length b = 32"
  by (erule claimValue32_cases) (auto dest: length_hexTo32)

lemma claimCommit_32:
  assumes "length v = 32" and "length s = 32"
  shows "claimCommit sha name v s = Inr (sha (pad32 name @ v @ s))"
proof -
  have drop96: "drop 32 (zeros 96) = zeros 64" and drop64: "drop 32 (zeros 64) = zeros 32"
    by (simp_all add: zeros_def)
  show ?thesis using assms by (simp add: claimCommit_def bufSet_def drop96 drop64)
qed

section \<open>Slots and their index\<close>

lemma index_loop_sound:
  "map_of (foldl (\<lambda>m i. if i < n then AList.update (f i) i m else m) m0 is) k = Some j \<Longrightarrow>
     map_of m0 k = Some j \<or> j < n \<and> f j = k"
  by (induction "is" arbitrary: j rule: rev_induct) (auto simp: AList.update_conv' split: if_splits)

lemma index_loop_complete:
  "i \<in> set is \<Longrightarrow> i < n \<Longrightarrow>
     map_of (foldl (\<lambda>m i. if i < n then AList.update (f i) i m else m) m0 is) (f i) \<noteq> None"
  by (induction "is" rule: rev_induct) (auto simp: AList.update_conv')

lemma index_loop_keys:
  "fst ` set (foldl (\<lambda>m i. if i < n then AList.update (f i) i m else m) m0 is) =
     fst ` set m0 \<union> f ` {i \<in> set is. i < n}"
  by (induction "is" rule: rev_induct) (auto simp: dom_map_of_conv_image_fst [symmetric] AList.update_conv')

text \<open>
  What a path look-up needs of a tree's slots: 256 leaves, the leaf of the \<open>i\<close>-th entry in slot
  \<open>i\<close>, and an index that finds a slot exactly for the keys of the entries.
\<close>

locale slot_tree =
  fixes keyOf :: "'c \<Rightarrow> string" and leafOf :: "'c \<Rightarrow> bytes"
    and leaves :: "'c list \<Rightarrow> bytes list" and idx :: "'c list \<Rightarrow> (string \<times> nat) list"
  assumes leaves_length: "length (leaves cs) = 256"
    and leaf_at: "length cs \<le> 256 \<Longrightarrow> i < length cs \<Longrightarrow> leaves cs ! i = leafOf (cs ! i)"
    and idx_sound: "map_of (idx cs) k = Some i \<Longrightarrow> i < length cs \<and> keyOf (cs ! i) = k"
    and idx_complete: "length cs \<le> 256 \<Longrightarrow> c \<in> set cs \<Longrightarrow> map_of (idx cs) (keyOf c) \<noteq> None"
begin

lemma idx_iff:
  assumes "length cs \<le> 256"
  shows "map_of (idx cs) k = None \<longleftrightarrow> k \<notin> keyOf ` set cs"
proof (cases "map_of (idx cs) k")
  case None
  then show ?thesis using idx_complete [OF assms] by fastforce
next
  case (Some i)
  then show ?thesis using idx_sound [OF Some] by (auto intro!: imageI nth_mem)
qed

lemma idx_leaf:
  assumes "length cs \<le> 256" and "map_of (idx cs) k = Some i"
  shows "\<exists>c \<in> set cs. keyOf c = k \<and> i < 256 \<and> leaves cs ! i = leafOf c"
  using idx_sound [OF assms(2)] leaf_at [OF assms(1), of i] assms(1) by (auto intro: nth_mem)

lemma idx_leaf_unique:
  assumes "length cs \<le> 256" and "distinct (map keyOf cs)" and "c \<in> set cs"
  shows "\<exists>i. map_of (idx cs) (keyOf c) = Some i \<and> i < 256 \<and> leaves cs ! i = leafOf c"
proof -
  obtain i where i: "map_of (idx cs) (keyOf c) = Some i" using idx_complete [OF assms(1,3)] by blast
  then obtain d where "d \<in> set cs" and "keyOf d = keyOf c" and "i < 256" and "leaves cs ! i = leafOf d"
    using idx_leaf [OF assms(1)] by blast
  moreover from this have "d = c" using assms(2,3) by (auto simp: distinct_map inj_on_def)
  ultimately show ?thesis using i by blast
qed

end

lemma slots_256: "COUNTRY_SET_SLOTS = 256" "SLOTS = 256"
  by (simp_all add: COUNTRY_SET_SLOTS_def SLOTS_def MERKLE_DEPTH_def OWL_MERKLE_DEPTH_def)

interpretation country_slots: slot_tree "\<lambda>c. c" padCountry countryLeaves indexByCountry
proof
  fix cs :: "string list" and c :: string
  assume "length cs \<le> 256" and "c \<in> set cs"
  then obtain i where "i < length cs" and "c = cs ! i" by (auto simp: in_set_conv_nth)
  then show "map_of (indexByCountry cs) c \<noteq> None"
    using index_loop_complete [of i "[0..<COUNTRY_SET_SLOTS]" "length cs" "(!) cs"] \<open>length cs \<le> 256\<close>
    by (simp add: indexByCountry_def slots_256)
qed (auto simp: countryLeaves_def indexByCountry_def slots_256 dest: index_loop_sound)

interpretation claim_slots: slot_tree fst snd commitLeaves indexByName
proof
  fix cs :: "(string \<times> bytes) list" and c :: "string \<times> bytes"
  assume "length cs \<le> 256" and "c \<in> set cs"
  then obtain i where "i < length cs" and "c = cs ! i" by (auto simp: in_set_conv_nth)
  then show "map_of (indexByName cs) (fst c) \<noteq> None"
    using index_loop_complete [of i "[0..<SLOTS]" "length cs" "\<lambda>i. fst (cs ! i)"] \<open>length cs \<le> 256\<close>
    by (simp add: indexByName_def slots_256)
qed (auto simp: commitLeaves_def indexByName_def slots_256 dest: index_loop_sound)

section \<open>Properties\<close>

text \<open>The valid codes of a verifier's list, in any order, case and multiplicity.\<close>

definition validSet :: "string list \<Rightarrow> string set" where
  "validSet codes = {c \<in> (\<lambda>r. toUpperCase (trim r)) ` set codes. alpha2Shape c}"

lemma set_canonicalise: "set (canonicaliseCountries codes) = validSet codes"
  by (auto simp: canonicaliseCountries_def validSet_def)

lemma distinct_canonicalise [simp]: "distinct (canonicaliseCountries codes)"
  by (simp add: canonicaliseCountries_def)

lemma canonicalise_cong: "validSet xs = validSet ys \<Longrightarrow> canonicaliseCountries xs = canonicaliseCountries ys"
  unfolding canonicaliseCountries_def by (rule sortBy_str_set_eq) (auto simp: validSet_def)

lemma alpha2_normal: "alpha2Shape c \<Longrightarrow> toUpperCase (trim c) = c"
  by (simp add: alpha2Shape_def trim_upper toUpperCase_upper)

lemma validSet_canonicalise: "validSet (canonicaliseCountries codes) = validSet codes"
  unfolding validSet_def set_canonicalise by (auto simp: alpha2_normal)

lemma canonicalise_idem: "canonicaliseCountries (canonicaliseCountries codes) = canonicaliseCountries codes"
  by (rule canonicalise_cong) (rule validSet_canonicalise)

text \<open>
  What the code relies on of the Midnight runtime: a filled and rehashed tree has a root, and the
  path of slot \<open>i\<close> carries that slot's leaf and folds to the root.
\<close>

definition paths_fold :: "('t, 'p) compactRuntime \<Rightarrow> bool" where
  "paths_fold R \<longleftrightarrow> (\<forall>ls. length ls = 256 \<longrightarrow>
     (\<exists>r. rootOf R (filledTree R 8 ls) = Some r \<and>
       (\<forall>i < 256. \<exists>p. pathForLeaf R (filledTree R 8 ls) i (ls ! i) = Inr p \<and>
          pathLeaf R p = ls ! i \<and> pathRoot R p = r)))"

definition sha_32 :: "(bytes \<Rightarrow> bytes) \<Rightarrow> bool" where
  "sha_32 sha \<longleftrightarrow> (\<forall>b. length (sha b) = 32)"

lemma paths_foldE:
  assumes "paths_fold R" and "length ls = 256" and "i < 256"
  obtains r p where "rootOf R (filledTree R 8 ls) = Some r"
    and "pathForLeaf R (filledTree R 8 ls) i (ls ! i) = Inr p" and "pathLeaf R p = ls ! i" and "pathRoot R p = r"
  using assms unfolding paths_fold_def by blast

text \<open>The commitment of a bound claim.\<close>

definition commitment :: "(bytes \<Rightarrow> bytes) \<Rightarrow> claimDisclosure \<Rightarrow> bytes option" where
  "commitment sha c =
     map_option (\<lambda>v. sha (pad32 (cd_name c) @ v @ sha (utf8Bytes (cd_salt c)))) (claimValue32 (cd_name c) (cd_value c))"

lemma commitOf_eq:
  "sha_32 sha \<Longrightarrow>
    commitOf sha c = Inr (case commitment sha c of None \<Rightarrow> [] | Some h \<Rightarrow> [(cd_name c, h)])"
  by (cases "claimValue32 (cd_name c) (cd_value c)")
     (simp_all add: commitOf_def commitment_def salt32For_def claimCommit_32 length_claimValue32 sha_32_def)

lemma mapR_Inr: "(\<And>x. f x = Inr (g x)) \<Longrightarrow> mapR f xs = Inr (map g xs)"
  by (induction xs) simp_all

lemma owlCommits_ok:
  assumes "sha_32 sha"
  obtains cs where "owlCommits sha claims = Inr cs" and "length cs \<le> length claims"
    and "set cs = {(n, h). \<exists>c \<in> set claims. cd_name c = n \<and> commitment sha c = Some h}"
proof -
  let ?g = "\<lambda>c. case commitment sha c of None \<Rightarrow> [] | Some h \<Rightarrow> [(cd_name c, h)]"
  let ?css = "concat (map ?g claims)"
  have "owlCommits sha claims = Inr (sortBy (\<lambda>a b. str_le (fst a) (fst b)) ?css)"
    by (simp add: owlCommits_def mapR_Inr [of _ ?g, OF commitOf_eq [OF assms]])
  moreover have "length ?css \<le> length claims"
    by (induction claims) (auto split: option.splits)
  moreover have "set ?css = {(n, h). \<exists>c \<in> set claims. cd_name c = n \<and> commitment sha c = Some h}"
    by (auto split: option.splits)
  ultimately show ?thesis using that by simp
qed

text \<open>Canonicalising a verifier's country list gives the sorted, duplicate-free list of its valid
  upper-case codes, is idempotent, and gives two lists the same result exactly when they have the
  same set of valid codes, so both sides build the same tree.\<close>

theorem canonicalise_canonical:
  "set (canonicaliseCountries xs) = validSet xs \<and> distinct (canonicaliseCountries xs) \<and>
   sorted_wrt str_le (canonicaliseCountries xs) \<and>
   canonicaliseCountries (canonicaliseCountries xs) = canonicaliseCountries xs \<and>
   (canonicaliseCountries xs = canonicaliseCountries ys \<longleftrightarrow> validSet xs = validSet ys)"
  using canonicalise_cong set_canonicalise sorted_sortBy_str canonicalise_idem
  by (metis canonicaliseCountries_def distinct_canonicalise)

text \<open>The wallet can open every claim the issuer bound and nothing else: the claim tree of up to
  256 disclosures is built, a path is found exactly for the names of bound claims, and the path's
  leaf is the commitment of a disclosed claim of that name and folds to the tree's \<open>owl_root\<close>.\<close>

theorem claim_path_opens:
  assumes "paths_fold R" and "sha_32 sha" and "length claims \<le> 256"
  shows "\<exists>built. buildOwlRootTree sha R claims = Inr built \<and>
    (isInr (findClaimPath R built n) \<longleftrightarrow> (\<exists>c \<in> set claims. cd_name c = n \<and> commitment sha c \<noteq> None)) \<and>
    (\<forall>p. findClaimPath R built n = Inr p \<longrightarrow>
       (\<exists>c \<in> set claims. cd_name c = n \<and> commitment sha c = Some (pathLeaf R p)) \<and>
       owlRootBytesLE R built = Inr (fill32 (pathRoot R p)))"
proof -
  obtain cs where cs: "owlCommits sha claims = Inr cs" and len: "length cs \<le> length claims"
      and set_cs: "set cs = {(n, h). \<exists>c \<in> set claims. cd_name c = n \<and> commitment sha c = Some h}"
    using owlCommits_ok [OF assms(2)] by blast
  define built where "built = \<lparr>bt_tree = filledTree R 8 (commitLeaves cs), bt_leaves = commitLeaves cs,
    bt_index = indexByName cs\<rparr>"
  have len': "length cs \<le> 256" using len assms(3) by simp
  have b: "buildOwlRootTree sha R claims = Inr built"
    using len' by (simp add: buildOwlRootTree_def cs built_def slots_256 OWL_MERKLE_DEPTH_def Let_def)
  show ?thesis
  proof (cases "map_of (indexByName cs) n")
    case None
    then have "n \<notin> fst ` set cs" using claim_slots.idx_iff [OF len'] by simp
    then have "\<not> (\<exists>c \<in> set claims. cd_name c = n \<and> commitment sha c \<noteq> None)" by (force simp: set_cs)
    then show ?thesis using b None by (simp add: findClaimPath_def built_def isInr_def)
  next
    case (Some i)
    then obtain h where h: "(n, h) \<in> set cs" and i: "i < 256" "commitLeaves cs ! i = h"
      using claim_slots.idx_leaf [OF len'] by fastforce
    obtain r p where "rootOf R (bt_tree built) = Some r" and "findClaimPath R built n = Inr p"
        and "pathLeaf R p = h" and "pathRoot R p = r"
      using paths_foldE [OF assms(1) claim_slots.leaves_length [of cs] i(1)] i(2) Some
      by (auto simp: built_def findClaimPath_def)
    then show ?thesis using b h set_cs by (auto simp: owlRootBytesLE_def isInr_def)
  qed
qed

lemma country_path_lookup:
  assumes "paths_fold R" and "card (validSet codes) \<le> 256"
  shows "\<exists>built. buildAllowedSetTree R codes = Inr built \<and>
    (isInr (findPathForCountry R built c) \<longleftrightarrow> toUpperCase c \<in> validSet codes) \<and>
    (\<forall>p. findPathForCountry R built c = Inr p \<longrightarrow>
       pathLeaf R p = padCountry c \<and> treeRootBytesLE R (bt_tree built) = Inr (fill32 (pathRoot R p)))"
proof -
  define cs where "cs = canonicaliseCountries codes"
  define built where "built = \<lparr>bt_tree = filledTree R 8 (countryLeaves cs), bt_leaves = countryLeaves cs,
    bt_index = indexByCountry cs\<rparr>"
  have len: "length cs \<le> 256"
    using assms(2) distinct_card [of cs] by (simp add: cs_def set_canonicalise)
  have b: "buildAllowedSetTree R codes = Inr built"
    using len by (simp add: buildAllowedSetTree_def buildCanonicalTree_def built_def slots_256 MERKLE_DEPTH_def
        Let_def cs_def)
  have mem: "set cs = validSet codes" by (simp add: cs_def set_canonicalise)
  show ?thesis
  proof (cases "map_of (indexByCountry cs) (toUpperCase c)")
    case None
    then have "toUpperCase c \<notin> validSet codes" using country_slots.idx_iff [OF len] mem by simp
    then show ?thesis using b None by (simp add: findPathForCountry_def built_def isInr_def)
  next
    case (Some i)
    then have i: "i < 256" "countryLeaves cs ! i = padCountry (toUpperCase c)" "toUpperCase c \<in> validSet codes"
      using country_slots.idx_leaf [OF len] mem by auto
    obtain r p where "rootOf R (bt_tree built) = Some r" and "findPathForCountry R built c = Inr p"
        and "pathLeaf R p = padCountry (toUpperCase c)" and "pathRoot R p = r"
      using paths_foldE [OF assms(1) country_slots.leaves_length [of cs] i(1)] i(2) Some
      by (auto simp: built_def findPathForCountry_def)
    then show ?thesis using b i(3) by (auto simp: treeRootBytesLE_def isInr_def padCountry_def)
  qed
qed

text \<open>The holder can prove membership exactly when it holds: the allowed-set tree of a list with at
  most 256 valid codes is built, \<open>findPathForCountry\<close> returns a path exactly when the upper-cased
  country is one of them, and that path carries the padded country and folds to the tree's root.\<close>

theorem country_path_iff_member:
  assumes "paths_fold R" and "card (validSet codes) \<le> 256"
  shows "\<exists>built. buildAllowedSetTree R codes = Inr built \<and>
    (isInr (findPathForCountry R built c) \<longleftrightarrow> toUpperCase c \<in> validSet codes) \<and>
    (\<forall>p. findPathForCountry R built c = Inr p \<longrightarrow>
       pathLeaf R p = padCountry c \<and> treeRootBytesLE R (bt_tree built) = Inr (fill32 (pathRoot R p)))"
  using country_path_lookup [OF assms] by blast

section \<open>Witnesses\<close>

text \<open>A stand-in runtime whose tree is its list of leaves, and a stand-in digest of 32 bytes.\<close>

definition exRuntime :: "(bytes list, bytes \<times> bytes) compactRuntime" where
  "exRuntime = \<lparr>newTree = (\<lambda>d. replicate (2 ^ d) []), updateTree = (\<lambda>t i b. t[i := b]), rehash = (\<lambda>t. t),
     rootOf = (\<lambda>t. Some (concat t)),
     pathForLeaf = (\<lambda>t i v. if i < length t \<and> t ! i = v then Inr (v, concat t) else Inl (Error ''no leaf'')),
     pathLeaf = fst, pathRoot = snd\<rparr>"

definition exSha :: "bytes \<Rightarrow> bytes" where "exSha b = fill32 (rev b)"

lemma fill_loop:
  "n \<le> length ls \<Longrightarrow> length t = length ls \<Longrightarrow>
    foldl (\<lambda>t i. t[i := ls ! i]) t [0..<n] = take n ls @ drop n t"
proof (induction n)
  case 0
  then show ?case by simp
next
  case (Suc n)
  then show ?case by (simp add: take_Suc_conv_app_nth list_update_append Cons_nth_drop_Suc [symmetric])
qed

lemma exRuntime_paths_fold: "paths_fold exRuntime"
proof -
  have "filledTree exRuntime 8 ls = ls" if "length ls = 256" for ls
    using fill_loop [of 256 ls "replicate 256 []"] that by (simp add: filledTree_def exRuntime_def)
  then show ?thesis by (auto simp: paths_fold_def exRuntime_def)
qed

lemma exSha_32: "sha_32 exSha"
  by (simp add: sha_32_def exSha_def)

definition exClaims :: "claimDisclosure list" where
  "exClaims = [\<lparr>cd_name = ''nationality'', cd_value = JStr ''nl'', cd_salt = ''s1''\<rparr>,
               \<lparr>cd_name = ''birthdate'', cd_value = JStr ''1990-05-17'', cd_salt = ''s2''\<rparr>]"

theorem claim_path_opens_witness:
  "\<exists>built. buildOwlRootTree exSha exRuntime exClaims = Inr built \<and>
     isInr (findClaimPath exRuntime built ''nationality'')"
proof -
  have "\<exists>c \<in> set exClaims. cd_name c = ''nationality'' \<and> commitment exSha c \<noteq> None"
    by (simp add: exClaims_def commitment_def claimValue32_def)
  moreover have "length exClaims \<le> 256" by (simp add: exClaims_def)
  ultimately show ?thesis
    using claim_path_opens [OF exRuntime_paths_fold exSha_32, of exClaims "''nationality''"] by blast
qed

theorem country_path_iff_member_witness:
  "\<exists>built. buildAllowedSetTree exRuntime [''nl'', ''DE'', ''x''] = Inr built \<and>
     isInr (findPathForCountry exRuntime built ''NL'')"
proof -
  have "canonicaliseCountries [''nl'', ''DE'', ''x''] = [''DE'', ''NL'']" by code_simp
  then have "validSet [''nl'', ''DE'', ''x''] = {''DE'', ''NL''}" by (metis set_canonicalise list.set(1,2))
  moreover have "toUpperCase ''NL'' = ''NL''" by code_simp
  ultimately have "card (validSet [''nl'', ''DE'', ''x'']) \<le> 256" and "toUpperCase ''NL'' \<in> validSet [''nl'', ''DE'', ''x'']"
    by simp_all
  then show ?thesis
    using country_path_iff_member [OF exRuntime_paths_fold, of "[''nl'', ''DE'', ''x'']" "''NL''"] by blast
qed

end
