(* ===== verification/Predicate_Witness.thy ===== *)
theory Predicate_Witness
  imports Claim_Trees
begin

text \<open>
  The predicate kinds of \<open>midnight/kinds.ts\<close> and the witness binding of \<open>midnight/witnesses.ts\<close>: which
  values of the credential reach the circuit of a kind.  A bound witness is a closure in the source,
  so a missing field of a closure is an error only when the circuit asks for it; the fields read
  before the closures are built fail at once.
\<close>

datatype predicateKind = K_age | K_kyc | K_residency | K_email | K_nationality | K_age_range | K_personhood

definition PREDICATE_KINDS :: "predicateKind list" where
  "PREDICATE_KINDS = [K_age, K_kyc, K_residency, K_email, K_nationality, K_age_range, K_personhood]"

fun kindName :: "predicateKind \<Rightarrow> string" where
  "kindName K_age = ''age''"
| "kindName K_kyc = ''kyc''"
| "kindName K_residency = ''residency''"
| "kindName K_email = ''email''"
| "kindName K_nationality = ''nationality''"
| "kindName K_age_range = ''age_range''"
| "kindName K_personhood = ''personhood''"

record 'p predicateWitness =
  dobValue :: "int option"
  kycLevelW :: "int option"
  residentCountry :: "string option"
  emailVerifiedFlag :: "int option"
  nationalityCode :: "string option"
  personhoodSecret :: "bytes option"
  allowedCountrySet :: "string list option"
  verifierIdHashW :: "bytes option"
  claimSalt :: "bytes option"
  claimPath :: "'p option"

definition noWitness :: "'p predicateWitness" where
  "noWitness = \<lparr>dobValue = None, kycLevelW = None, residentCountry = None, emailVerifiedFlag = None,
     nationalityCode = None, personhoodSecret = None, allowedCountrySet = None, verifierIdHashW = None,
     claimSalt = None, claimPath = None\<rparr>"

datatype 'p witnessValue = W_int int | W_bytes bytes | W_path 'p

definition requireField :: "'a option \<Rightarrow> predicateKind \<Rightarrow> string \<Rightarrow> 'a res" where
  "requireField v kind field =
     (case v of
        None \<Rightarrow> Inl (Error (kindName kind @ '' witness: no '' @ field @ '' in credential''))
      | Some x \<Rightarrow> Inr x)"

definition lazyReq :: "('a \<Rightarrow> 'p witnessValue) \<Rightarrow> 'a option \<Rightarrow> predicateKind \<Rightarrow> string \<Rightarrow> string \<times> 'p witnessValue res" where
  "lazyReq f v kind field = (field, bindR (requireField v kind field) (\<lambda>x. Inr (f x)))"

definition claimWitnesses :: "predicateKind \<Rightarrow> 'p predicateWitness \<Rightarrow> (string \<times> 'p witnessValue res) list" where
  "claimWitnesses kind w =
     [lazyReq W_bytes (claimSalt w) kind ''claimSalt'', lazyReq W_path (claimPath w) kind ''claimPath'']"

text \<open>The branch shared by \<open>residency\<close> and \<open>nationality\<close>, up to the name of the country witness.\<close>

definition countryWitnesses ::
  "('t, 'p) compactRuntime \<Rightarrow> predicateKind \<Rightarrow> string \<Rightarrow> string option \<Rightarrow> 'p predicateWitness \<Rightarrow>
    (string \<times> 'p witnessValue res) list res" where
  "countryWitnesses R kind field countryOpt w =
     bindR (requireField countryOpt kind field) (\<lambda>cty.
     bindR (requireField (allowedCountrySet w) kind ''allowedCountrySet'') (\<lambda>cs.
     bindR (requireField (verifierIdHashW w) kind ''verifierIdHash'') (\<lambda>vId.
       if length vId \<noteq> 32 then
         Inl (Error (kindName kind @ '' witness: verifierIdHash must be 32 bytes, got '' @ showNat (length vId)))
       else
         bindR (buildAllowedSetTree R cs) (\<lambda>built.
         bindR (findPathForCountry R built cty) (\<lambda>p.
           Inr ([(field, Inr (W_bytes (padCountry cty))), (''verifierIdHash'', Inr (W_bytes vId)),
                 (''allowedCountryPath'', Inr (W_path p))] @ claimWitnesses kind w))))))"

fun witnessesFor ::
  "('t, 'p) compactRuntime \<Rightarrow> predicateKind \<Rightarrow> 'p predicateWitness \<Rightarrow> (string \<times> 'p witnessValue res) list res" where
  "witnessesFor R K_age w = Inr (lazyReq W_int (dobValue w) K_age ''dobValue'' # claimWitnesses K_age w)"
| "witnessesFor R K_age_range w =
     Inr (lazyReq W_int (dobValue w) K_age_range ''dobValue'' # claimWitnesses K_age_range w)"
| "witnessesFor R K_kyc w = Inr (lazyReq W_int (kycLevelW w) K_kyc ''kycLevel'' # claimWitnesses K_kyc w)"
| "witnessesFor R K_residency w = countryWitnesses R K_residency ''residentCountry'' (residentCountry w) w"
| "witnessesFor R K_email w =
     Inr (lazyReq W_int (emailVerifiedFlag w) K_email ''emailVerifiedFlag'' # claimWitnesses K_email w)"
| "witnessesFor R K_nationality w = countryWitnesses R K_nationality ''nationalityCode'' (nationalityCode w) w"
| "witnessesFor R K_personhood w =
     bindR (requireField (personhoodSecret w) K_personhood ''personhoodSecret'') (\<lambda>secret.
       if length secret \<noteq> 32 then
         Inl (Error (''personhood witness: expected 32 bytes, got '' @ showNat (length secret)))
       else Inr ((''personhoodSecret'', Inr (W_bytes secret)) # claimWitnesses K_personhood w))"

section \<open>Properties\<close>

lemma requireField_Inr: "requireField v kind field = Inr x \<longleftrightarrow> v = Some x"
  by (auto simp: requireField_def split: option.splits)

lemma buildAllowedSetTree_card:
  "buildAllowedSetTree R codes = Inr built \<Longrightarrow> card (validSet codes) \<le> 256"
  using distinct_card [of "canonicaliseCountries codes"]
  by (auto simp: buildAllowedSetTree_def buildCanonicalTree_def slots_256 set_canonicalise split: if_split_asm)

lemma countryWitnesses_iff:
  assumes "paths_fold R"
  shows "isInr (countryWitnesses R kind field c w) \<longleftrightarrow>
    (\<exists>cty codes v. c = Some cty \<and> allowedCountrySet w = Some codes \<and> verifierIdHashW w = Some v \<and>
       length v = 32 \<and> card (validSet codes) \<le> 256 \<and> toUpperCase cty \<in> validSet codes)"
proof -
  have tree: "isInr (bindR (buildAllowedSetTree R codes) (\<lambda>built. bindR (findPathForCountry R built cty) (\<lambda>p. Inr (g p))))
      \<longleftrightarrow> card (validSet codes) \<le> 256 \<and> toUpperCase cty \<in> validSet codes" for codes cty and g :: "'b \<Rightarrow> 'c"
    using country_path_lookup [OF assms, of codes cty] buildAllowedSetTree_card [of R codes]
    by (cases "buildAllowedSetTree R codes") (auto simp: isInr_ex res_simps)
  show ?thesis
    by (cases c; cases "allowedCountrySet w"; cases "verifierIdHashW w")
       (simp_all add: countryWitnesses_def requireField_def tree)
qed

text \<open>A country circuit only ever gets a witness when the holder's country is in the verifier's set:
  the binding of a nationality or residency witness succeeds exactly when the country, the set and a
  32-byte verifier hash are present, the set has at most 256 valid codes and contains the upper-cased
  country.\<close>

theorem country_witness_iff_member:
  assumes "paths_fold R"
  shows "(isInr (witnessesFor R K_nationality w) \<longleftrightarrow>
      (\<exists>cty codes v. nationalityCode w = Some cty \<and> allowedCountrySet w = Some codes \<and> verifierIdHashW w = Some v \<and>
         length v = 32 \<and> card (validSet codes) \<le> 256 \<and> toUpperCase cty \<in> validSet codes)) \<and>
    (isInr (witnessesFor R K_residency w) \<longleftrightarrow>
      (\<exists>cty codes v. residentCountry w = Some cty \<and> allowedCountrySet w = Some codes \<and> verifierIdHashW w = Some v \<and>
         length v = 32 \<and> card (validSet codes) \<le> 256 \<and> toUpperCase cty \<in> validSet codes))"
  using countryWitnesses_iff [OF assms] by simp

section \<open>Witness\<close>

definition exWitness :: "(bytes \<times> bytes) predicateWitness" where
  "exWitness = noWitness\<lparr>nationalityCode := Some ''NL'', allowedCountrySet := Some [''DE'', ''nl''],
     verifierIdHashW := Some (zeros 32)\<rparr>"

lemma exCodes: "validSet [''DE'', ''nl''] = {''DE'', ''NL''}"
proof -
  have "canonicaliseCountries [''DE'', ''nl''] = [''DE'', ''NL'']" by code_simp
  then show ?thesis by (metis set_canonicalise list.set(1,2))
qed

theorem country_witness_iff_member_witness:
  "isInr (witnessesFor exRuntime K_nationality exWitness) \<and> \<not> isInr (witnessesFor exRuntime K_residency exWitness)"
proof -
  have "toUpperCase ''NL'' = ''NL''" by code_simp
  then show ?thesis
    using country_witness_iff_member [OF exRuntime_paths_fold, of exWitness]
    by (simp add: exWitness_def noWitness_def exCodes)
qed

end
