(* ===== verification/Attestation_Keys.thy ===== *)
theory Attestation_Keys
  imports Claim_Trees Routing
begin

text \<open>
  \<open>midnight/attestation-keys.ts\<close>, the TypeScript mirror of the on-chain attestation keys, and
  \<open>OwlVerifier.attestationKeyFor\<close> of \<open>verifier/index.ts\<close>, which uses it.  SHA-256 is the parameter
  \<open>sha\<close>.  The key recipes of the two age circuits (\<open>predicate_age.compact\<close>,
  \<open>predicate_age_range.compact\<close>) are modelled beside it, for the comparison.  Statements about
  digests name the byte strings that would collide instead of assuming that SHA-256 is injective.
\<close>

section \<open>Byte recipes\<close>

definition sha256 :: "(bytes \<Rightarrow> bytes) \<Rightarrow> bytes list \<Rightarrow> bytes" where
  "sha256 sha chunks = sha (concat chunks)"

definition pad32Tag :: "string \<Rightarrow> bytes res" where
  "pad32Tag s =
     (let b = utf8Bytes s in
      if length b > 32 then Inl (Error (''tag '' @ [CHR 0x27] @ s @ [CHR 0x27] @ '' > 32 bytes''))
      else Inr (b @ zeros (32 - length b)))"

definition u128Le32 :: "int \<Rightarrow> bytes" where
  "u128Le32 v = fill32 (leLoop 16 (v mod 2 ^ 128))"

definition u16Le32 :: "int \<Rightarrow> bytes" where
  "u16Le32 v = [word_of_int (v mod 256), word_of_int (v div 256 mod 256)] @ zeros 30"

definition hexToBytes32 :: "string \<Rightarrow> bytes res" where
  "hexToBytes32 hex =
     (let stripped = (if startsWith hex ''0x'' then drop 2 hex else hex) in
      if length stripped \<noteq> 64 then
        Inl (Error (''expected 32-byte hex, got '' @ showNat (length stripped div 2) @
          (if odd (length stripped) then ''.5'' else []) @ '' bytes''))
      else Inr (map (\<lambda>i. u8 (parseInt16 (take 2 (drop (2 * i) stripped)))) [0..<32]))"

definition TAG_AGE :: string where "TAG_AGE = ''owlid:attest:age:''"
definition TAG_KYC :: string where "TAG_KYC = ''owlid:attest:kyc:''"
definition TAG_NATIONALITY :: string where "TAG_NATIONALITY = ''owlid:attest:nat:''"
definition TAG_RESIDENCY :: string where "TAG_RESIDENCY = ''owlid:attest:resin:''"
definition TAG_AGE_RANGE :: string where "TAG_AGE_RANGE = ''owlid:attest:agerng:''"
definition TAG_EMAIL_VERIFIED :: string where "TAG_EMAIL_VERIFIED = ''owlid:attest:email:''"
definition TAG_UNIQUE_PERSONHOOD :: string where "TAG_UNIQUE_PERSONHOOD = ''owlid:attest:uniq:''"

lemmas tag_defs = TAG_AGE_def TAG_KYC_def TAG_NATIONALITY_def TAG_RESIDENCY_def TAG_AGE_RANGE_def
  TAG_EMAIL_VERIFIED_def TAG_UNIQUE_PERSONHOOD_def

section \<open>Keys\<close>

definition keyFromParts :: "(bytes \<Rightarrow> bytes) \<Rightarrow> string \<Rightarrow> bytes \<Rightarrow> bytes \<Rightarrow> bytes res" where
  "keyFromParts sha tag rootHash param = bindR (pad32Tag tag) (\<lambda>t. Inr (sha256 sha [t, rootHash, param]))"

definition verifierIdHash :: "(bytes \<Rightarrow> bytes) \<Rightarrow> string \<Rightarrow> bytes" where
  "verifierIdHash sha clientId = sha (utf8Bytes clientId)"

definition allowedCountrySetHash ::
  "(bytes \<Rightarrow> bytes) \<Rightarrow> ('t, 'p) compactRuntime \<Rightarrow> string \<Rightarrow> string list \<Rightarrow> bytes res" where
  "allowedCountrySetHash sha R clientId countries =
     bindR (buildAllowedSetTree R countries) (\<lambda>built.
     bindR (treeRootBytesLE R (bt_tree built)) (\<lambda>rootBytes.
       Inr (sha256 sha [verifierIdHash sha clientId, rootBytes])))"

definition ageKey :: "(bytes \<Rightarrow> bytes) \<Rightarrow> bytes \<Rightarrow> int \<Rightarrow> bytes res" where
  "ageKey sha rootHash t = keyFromParts sha TAG_AGE rootHash (u128Le32 t)"

definition kycKey :: "(bytes \<Rightarrow> bytes) \<Rightarrow> bytes \<Rightarrow> int \<Rightarrow> bytes res" where
  "kycKey sha rootHash t = keyFromParts sha TAG_KYC rootHash (u128Le32 t)"

definition ageRangeKey :: "(bytes \<Rightarrow> bytes) \<Rightarrow> bytes \<Rightarrow> int \<Rightarrow> int \<Rightarrow> bytes res" where
  "ageRangeKey sha rootHash lo hi =
     (let param = sha256 sha [u16Le32 lo, u16Le32 hi] in keyFromParts sha TAG_AGE_RANGE rootHash param)"

definition emailVerifiedKey :: "(bytes \<Rightarrow> bytes) \<Rightarrow> bytes \<Rightarrow> bytes res" where
  "emailVerifiedKey sha rootHash = keyFromParts sha TAG_EMAIL_VERIFIED rootHash (zeros 32)"

definition uniquePersonhoodKey :: "(bytes \<Rightarrow> bytes) \<Rightarrow> bytes \<Rightarrow> string \<Rightarrow> string \<Rightarrow> string \<Rightarrow> bytes res" where
  "uniquePersonhoodKey sha rootHash ep appId clientId =
     (let vidHash = sha256 sha [utf8Bytes clientId] in
      bindR (hexToBytes32 appId) (\<lambda>app.
        let effectiveAppId = sha256 sha [vidHash, app] in
      bindR (hexToBytes32 ep) (\<lambda>e.
        let param = sha256 sha [e, effectiveAppId] in
        keyFromParts sha TAG_UNIQUE_PERSONHOOD rootHash param)))"

definition nationalityKey ::
  "(bytes \<Rightarrow> bytes) \<Rightarrow> ('t, 'p) compactRuntime \<Rightarrow> bytes \<Rightarrow> string \<Rightarrow> string list \<Rightarrow> bytes res" where
  "nationalityKey sha R rootHash clientId countries =
     bindR (allowedCountrySetHash sha R clientId countries) (\<lambda>setHash. keyFromParts sha TAG_NATIONALITY rootHash setHash)"

definition residencyKey ::
  "(bytes \<Rightarrow> bytes) \<Rightarrow> ('t, 'p) compactRuntime \<Rightarrow> bytes \<Rightarrow> string \<Rightarrow> string list \<Rightarrow> bytes res" where
  "residencyKey sha R rootHash clientId countries =
     bindR (allowedCountrySetHash sha R clientId countries) (\<lambda>setHash. keyFromParts sha TAG_RESIDENCY rootHash setHash)"

definition keyHex :: "bytes \<Rightarrow> string" where
  "keyHex key = bytesToHex key"

text \<open>\<open>OwlVerifier.computeAllowedSetHash\<close> and \<open>OwlVerifier.attestationKeyFor\<close>, with
  \<open>this.verifierId()\<close> as the argument \<open>vid\<close>.\<close>

definition computeAllowedSetHash ::
  "(bytes \<Rightarrow> bytes) \<Rightarrow> ('t, 'p) compactRuntime \<Rightarrow> string \<Rightarrow> string list \<Rightarrow> string res" where
  "computeAllowedSetHash sha R vid countries =
     bindR (allowedCountrySetHash sha R vid countries) (\<lambda>b. Inr (keyHex b))"

fun predicateKey ::
  "(bytes \<Rightarrow> bytes) \<Rightarrow> ('t, 'p) compactRuntime \<Rightarrow> string \<Rightarrow> bytes \<Rightarrow> predicateRequest \<Rightarrow> bytes res" where
  "predicateKey sha R vid rootHash (AgeOver t) = ageKey sha rootHash t"
| "predicateKey sha R vid rootHash (AgeRange lo hi) = ageRangeKey sha rootHash lo hi"
| "predicateKey sha R vid rootHash (KycLevel l) =
     kycKey sha rootHash (case l of Rung n \<Rightarrow> n | High \<Rightarrow> 3 | Substantial \<Rightarrow> 2 | Basic \<Rightarrow> 1)"
| "predicateKey sha R vid rootHash EmailVerified = emailVerifiedKey sha rootHash"
| "predicateKey sha R vid rootHash (UniquePerson e a) = uniquePersonhoodKey sha rootHash e a vid"
| "predicateKey sha R vid rootHash (NationalityIn cs) = nationalityKey sha R rootHash vid cs"
| "predicateKey sha R vid rootHash (ResidencyIn cs) = residencyKey sha R rootHash vid cs"

definition attestationKeyFor ::
  "(bytes \<Rightarrow> bytes) \<Rightarrow> ('t, 'p) compactRuntime \<Rightarrow> string \<Rightarrow> string \<Rightarrow> predicateRequest \<Rightarrow> string res" where
  "attestationKeyFor sha R vid credId p =
     (let rootHash = hexToBytes credId in
      if length rootHash \<noteq> 32 then
        Inl (Error (''credentialId must be 32-byte hex; got '' @ showNat (length rootHash) @ '' bytes''))
      else bindR (predicateKey sha R vid rootHash p) (\<lambda>key. Inr (keyHex key)))"

text \<open>
  The keys the circuits record: \<open>persistentHash\<close> of three 32-byte values is the digest of their
  concatenation, and \<open>threshold as Field as Bytes<32>\<close> is little-endian.
\<close>

definition circuitAgeKey :: "(bytes \<Rightarrow> bytes) \<Rightarrow> bytes \<Rightarrow> int \<Rightarrow> int \<Rightarrow> bytes" where
  "circuitAgeKey sha owlRoot t asOfYmd =
     sha (pad32 TAG_AGE @ owlRoot @ sha (u128Le32 t @ u128Le32 asOfYmd))"

definition circuitAgeRangeKey :: "(bytes \<Rightarrow> bytes) \<Rightarrow> bytes \<Rightarrow> int \<Rightarrow> int \<Rightarrow> int \<Rightarrow> bytes" where
  "circuitAgeRangeKey sha owlRoot minAge maxAge asOfYmd =
     sha (pad32 TAG_AGE_RANGE @ owlRoot @ sha (u16Le32 minAge @ u16Le32 maxAge @ u128Le32 asOfYmd))"

section \<open>Lengths and injectivity of the encodings\<close>

text \<open>The number a little-endian byte string stands for.\<close>

primrec leVal :: "bytes \<Rightarrow> int" where
  "leVal [] = 0"
| "leVal (b # bs) = uint b + 256 * leVal bs"

lemma leVal_zeros [simp]: "leVal (xs @ zeros n) = leVal xs"
  by (induction xs) (induction n, auto simp: zeros_def)

lemma length_leLoop: "length (leLoop k v) \<le> k"
  by (induction k v rule: leLoop.induct) auto

lemma leVal_leLoop: "0 \<le> v \<Longrightarrow> v < 256 ^ k \<Longrightarrow> leVal (leLoop k v) = v"
proof (induction k v rule: leLoop.induct)
  case (2 k v)
  have "v div 256 < 256 ^ k" using 2(3) by simp
  then show ?case using 2 by (simp add: uint_word_of_int)
qed simp

lemma fill32_short: "length b \<le> 32 \<Longrightarrow> fill32 b = b @ zeros (32 - length b)"
  by (simp add: fill32_def)

lemma leVal_u128Le32: "leVal (u128Le32 v) = v mod 2 ^ 128"
proof -
  have "length (leLoop 16 (v mod 2 ^ 128)) \<le> 32" by (rule order_trans [OF length_leLoop]) simp
  then show ?thesis by (simp add: u128Le32_def fill32_short leVal_leLoop)
qed

lemma leVal_u16Le32: "leVal (u16Le32 v) = v mod 65536"
proof -
  have "v mod 65536 = v mod 256 + 256 * (v div 256 mod 256)"
    using zmod_zmult2_eq [of 256 v 256] by (simp add: algebra_simps)
  then show ?thesis using leVal_zeros [of "[]" 30] by (simp add: u16Le32_def uint_word_of_int)
qed

lemma length_u128Le32 [simp]: "length (u128Le32 v) = 32" and length_u16Le32 [simp]: "length (u16Le32 v) = 32"
  by (simp_all add: u128Le32_def u16Le32_def)

lemma hexToBytes32_length: "hexToBytes32 h = Inr b \<Longrightarrow> length b = 32"
  by (auto simp: hexToBytes32_def Let_def split: if_split_asm)

lemma treeRootBytesLE_length: "treeRootBytesLE R t = Inr b \<Longrightarrow> length b = 32"
  by (auto simp: treeRootBytesLE_def split: option.split_asm)

section \<open>What is hashed\<close>

fun tagOf :: "predicateRequest \<Rightarrow> string" where
  "tagOf (AgeOver _) = TAG_AGE"
| "tagOf (AgeRange _ _) = TAG_AGE_RANGE"
| "tagOf (KycLevel _) = TAG_KYC"
| "tagOf EmailVerified = TAG_EMAIL_VERIFIED"
| "tagOf (UniquePerson _ _) = TAG_UNIQUE_PERSONHOOD"
| "tagOf (NationalityIn _) = TAG_NATIONALITY"
| "tagOf (ResidencyIn _) = TAG_RESIDENCY"

text \<open>The 32-byte parameter block of the key, and the byte strings hashed on the way to it.\<close>

definition setRoot :: "('t, 'p) compactRuntime \<Rightarrow> string list \<Rightarrow> bytes res" where
  "setRoot R cs = bindR (buildAllowedSetTree R cs) (\<lambda>built. treeRootBytesLE R (bt_tree built))"

fun innerHashed ::
  "(bytes \<Rightarrow> bytes) \<Rightarrow> ('t, 'p) compactRuntime \<Rightarrow> string \<Rightarrow> predicateRequest \<Rightarrow> bytes list res" where
  "innerHashed sha R vid (AgeRange lo hi) = Inr [u16Le32 lo @ u16Le32 hi]"
| "innerHashed sha R vid (UniquePerson e a) =
     bindR (hexToBytes32 a) (\<lambda>ab. bindR (hexToBytes32 e) (\<lambda>eb.
       Inr [eb @ sha (sha (utf8Bytes vid) @ ab), sha (utf8Bytes vid) @ ab, utf8Bytes vid]))"
| "innerHashed sha R vid (NationalityIn cs) = bindR (setRoot R cs) (\<lambda>r. Inr [sha (utf8Bytes vid) @ r, utf8Bytes vid])"
| "innerHashed sha R vid (ResidencyIn cs) = bindR (setRoot R cs) (\<lambda>r. Inr [sha (utf8Bytes vid) @ r, utf8Bytes vid])"
| "innerHashed sha R vid _ = Inr []"

fun paramOf :: "(bytes \<Rightarrow> bytes) \<Rightarrow> predicateRequest \<Rightarrow> bytes list \<Rightarrow> bytes" where
  "paramOf sha (AgeOver t) _ = u128Le32 t"
| "paramOf sha (KycLevel l) _ = u128Le32 (kycRung l)"
| "paramOf sha EmailVerified _ = zeros 32"
| "paramOf sha _ hs = sha (hd hs)"

definition hashed ::
  "(bytes \<Rightarrow> bytes) \<Rightarrow> ('t, 'p) compactRuntime \<Rightarrow> string \<Rightarrow> bytes \<Rightarrow> predicateRequest \<Rightarrow> bytes list res" where
  "hashed sha R vid root p =
     bindR (innerHashed sha R vid p) (\<lambda>hs. Inr ((pad32 (tagOf p) @ root @ paramOf sha p hs) # hs))"

lemma pad32Tag_tag: "length (utf8Bytes t) \<le> 32 \<Longrightarrow> pad32Tag t = Inr (pad32 t)"
  by (simp add: pad32Tag_def pad32_def fill32_short Let_def)

lemma tag_length: "length (utf8Bytes (tagOf p)) \<le> 32"
  by (cases p) (simp_all add: tag_defs utf8Bytes_def)

lemma keyFromParts_tag: "keyFromParts sha (tagOf p) root param = Inr (sha (pad32 (tagOf p) @ root @ param))"
  by (simp add: keyFromParts_def pad32Tag_tag tag_length sha256_def)

lemma predicateKey_hashed:
  "predicateKey sha R vid root p = bindR (hashed sha R vid root p) (\<lambda>hs. Inr (sha (hd hs)))"
proof (cases p)
  case (KycLevel l)
  then show ?thesis using keyFromParts_tag [of sha p] by (cases l) (simp_all add: hashed_def kycKey_def)
qed (use keyFromParts_tag [of sha p] in
  \<open>simp_all add: hashed_def ageKey_def ageRangeKey_def emailVerifiedKey_def uniquePersonhoodKey_def Let_def
     nationalityKey_def residencyKey_def allowedCountrySetHash_def setRoot_def sha256_def verifierIdHash_def
     bindR_assoc\<close>)

section \<open>Keys are separated\<close>

definition collision :: "(bytes \<Rightarrow> bytes) \<Rightarrow> bytes list \<Rightarrow> bytes list \<Rightarrow> bool" where
  "collision sha xs ys \<longleftrightarrow> (\<exists>x \<in> set xs. \<exists>y \<in> set ys. x \<noteq> y \<and> sha x = sha y)"

text \<open>When two predicates stand for the same on-chain fact: thresholds and bounds as the integers of
  the circuits, country sets by the root of their tree.\<close>

fun sameRequest ::
  "('t, 'p) compactRuntime \<Rightarrow> string \<Rightarrow> string \<Rightarrow> predicateRequest \<Rightarrow> predicateRequest \<Rightarrow> bool" where
  "sameRequest R vid vid' (AgeOver t) (AgeOver u) = (t mod 2 ^ 128 = u mod 2 ^ 128)"
| "sameRequest R vid vid' (AgeRange lo hi) (AgeRange lo' hi') =
     (lo mod 65536 = lo' mod 65536 \<and> hi mod 65536 = hi' mod 65536)"
| "sameRequest R vid vid' (KycLevel l) (KycLevel l') = (kycRung l mod 2 ^ 128 = kycRung l' mod 2 ^ 128)"
| "sameRequest R vid vid' EmailVerified EmailVerified = True"
| "sameRequest R vid vid' (UniquePerson e a) (UniquePerson e' a') =
     (vid = vid' \<and> hexToBytes32 e = hexToBytes32 e' \<and> hexToBytes32 a = hexToBytes32 a')"
| "sameRequest R vid vid' (NationalityIn cs) (NationalityIn cs') = (vid = vid' \<and> setRoot R cs = setRoot R cs')"
| "sameRequest R vid vid' (ResidencyIn cs) (ResidencyIn cs') = (vid = vid' \<and> setRoot R cs = setRoot R cs')"
| "sameRequest R vid vid' _ _ = False"

text \<open>The kind of a predicate, which its tag determines.\<close>

fun kindNo :: "predicateRequest \<Rightarrow> nat" where
  "kindNo (AgeOver _) = 0" | "kindNo (AgeRange _ _) = 1" | "kindNo (KycLevel _) = 2" | "kindNo EmailVerified = 3"
| "kindNo (UniquePerson _ _) = 4" | "kindNo (NationalityIn _) = 5" | "kindNo (ResidencyIn _) = 6"

lemma takeWhile_pad: "c \<notin> set x \<Longrightarrow> takeWhile (\<lambda>d. d \<noteq> c) (x @ replicate n c) = x"
  by (induction x) (cases n, auto)

lemma pad32_inject:
  assumes "pad32 a = pad32 b" and "length a \<le> 32" and "length b \<le> 32" and "CHR 0x00 \<notin> set a" and "CHR 0x00 \<notin> set b"
  shows "a = b"
proof -
  have nul: "byteChar 0 = CHR 0x00" unfolding byteChar_def by code_simp
  have z: "takeWhile (\<lambda>c. c \<noteq> CHR 0x00) (utf8String (pad32 x)) = x" if "length x \<le> 32" and "CHR 0x00 \<notin> set x" for x
  proof -
    have "utf8String (pad32 x) = x @ replicate (32 - length x) (CHR 0x00)"
      using that(1) by (simp add: pad32_def fill32_def utf8Bytes_def utf8String_def zeros_def comp_def nul)
    then show ?thesis using that(2) by (simp add: takeWhile_pad)
  qed
  show ?thesis using z [OF assms(2,4)] z [OF assms(3,5)] unfolding assms(1) by (rule trans [OF sym])
qed

lemma pad32_tag_inject: "pad32 (tagOf p) = pad32 (tagOf q) \<Longrightarrow> kindNo p = kindNo q"
proof -
  assume "pad32 (tagOf p) = pad32 (tagOf q)"
  moreover have "length (tagOf r) \<le> 32 \<and> CHR 0x00 \<notin> set (tagOf r)" for r by (cases r) (simp_all add: tag_defs)
  ultimately have "tagOf p = tagOf q" using pad32_inject by blast
  then show ?thesis by (cases p; cases q) (simp_all add: tag_defs)
qed

lemma collisionI: "x \<in> set xs \<Longrightarrow> y \<in> set ys \<Longrightarrow> sha x = sha y \<Longrightarrow> \<not> collision sha xs ys \<Longrightarrow> x = y"
  by (auto simp: collision_def)

lemma length_paramOf: "sha_32 sha \<Longrightarrow> length (paramOf sha p hs) = 32"
  by (cases p) (simp_all add: sha_32_def)

lemma salted_inject:
  assumes "sha_32 sha" and "sha (utf8Bytes vid) @ r = sha (utf8Bytes vid') @ r'"
    and "utf8Bytes vid \<in> set hs" and "utf8Bytes vid' \<in> set hs'" and "\<not> collision sha hs hs'"
  shows "vid = vid' \<and> r = r'"
proof -
  have "sha (utf8Bytes vid) = sha (utf8Bytes vid') \<and> r = r'"
    using assms(1,2) by (simp add: sha_32_def append_eq_append_conv)
  then show ?thesis using collisionI [OF assms(3,4) _ assms(5)] by simp
qed

lemma param_inject:
  assumes "sha_32 sha" and "kindNo p = kindNo q" and "paramOf sha p hs = paramOf sha q hs'"
    and "innerHashed sha R vid p = Inr hs" and "innerHashed sha R vid' q = Inr hs'"
    and "\<not> collision sha hs hs'"
  shows "sameRequest R vid vid' p q"
proof (cases p)
  case (AgeOver t)
  then obtain u where "q = AgeOver u" using assms(2) by (cases q) auto
  then show ?thesis using AgeOver assms(3) leVal_u128Le32 by (metis paramOf.simps(1) sameRequest.simps(1))
next
  case (AgeRange lo hi)
  then obtain lo' hi' where q: "q = AgeRange lo' hi'" using assms(2) by (cases q) auto
  have "u16Le32 lo @ u16Le32 hi = u16Le32 lo' @ u16Le32 hi'"
    by (rule collisionI [OF _ _ _ assms(6)]) (use AgeRange q assms(3-5) in auto)
  then have "u16Le32 lo = u16Le32 lo' \<and> u16Le32 hi = u16Le32 hi'" by (simp add: append_eq_append_conv)
  then show ?thesis using AgeRange q leVal_u16Le32 by (metis sameRequest.simps(2))
next
  case (KycLevel l)
  then obtain u where "q = KycLevel u" using assms(2) by (cases q) auto
  then show ?thesis using KycLevel assms(3) leVal_u128Le32 by (metis paramOf.simps(2) sameRequest.simps(3))
next
  case (UniquePerson e a)
  then obtain e' a' where q: "q = UniquePerson e' a'" using assms(2) by (cases q) auto
  let ?x = "\<lambda>v ab. sha (utf8Bytes v) @ ab"
  obtain ab eb where h: "hexToBytes32 a = Inr ab" "hexToBytes32 e = Inr eb"
      "hs = [eb @ sha (?x vid ab), ?x vid ab, utf8Bytes vid]"
    using assms(4) UniquePerson by (auto simp: res_simps)
  obtain ab' eb' where h': "hexToBytes32 a' = Inr ab'" "hexToBytes32 e' = Inr eb'"
      "hs' = [eb' @ sha (?x vid' ab'), ?x vid' ab', utf8Bytes vid']"
    using assms(5) q by (auto simp: res_simps)
  have "eb @ sha (?x vid ab) = eb' @ sha (?x vid' ab')"
    by (rule collisionI [OF _ _ _ assms(6)]) (use UniquePerson q h(3) h'(3) assms(3) in auto)
  then have "eb = eb'" and "sha (?x vid ab) = sha (?x vid' ab')"
    using hexToBytes32_length [OF h(2)] hexToBytes32_length [OF h'(2)] by auto
  moreover from this(2) have "?x vid ab = ?x vid' ab'"
    by (rule collisionI [OF _ _ _ assms(6), rotated 2]) (use h(3) h'(3) in auto)
  ultimately show ?thesis
    using salted_inject [OF assms(1) _ _ _ assms(6), of vid ab vid' ab'] UniquePerson q h h' by auto
next
  case (NationalityIn cs)
  then obtain cs' where q: "q = NationalityIn cs'" using assms(2) by (cases q) auto
  obtain r r' where h: "setRoot R cs = Inr r" "setRoot R cs' = Inr r'"
      "hs = [sha (utf8Bytes vid) @ r, utf8Bytes vid]" "hs' = [sha (utf8Bytes vid') @ r', utf8Bytes vid']"
    using assms(4,5) NationalityIn q by (auto simp: res_simps)
  have "sha (utf8Bytes vid) @ r = sha (utf8Bytes vid') @ r'"
    by (rule collisionI [OF _ _ _ assms(6)]) (use NationalityIn q h assms(3) in auto)
  then show ?thesis
    using salted_inject [OF assms(1) _ _ _ assms(6), of vid r vid' r'] NationalityIn q h by auto
next
  case (ResidencyIn cs)
  then obtain cs' where q: "q = ResidencyIn cs'" using assms(2) by (cases q) auto
  obtain r r' where h: "setRoot R cs = Inr r" "setRoot R cs' = Inr r'"
      "hs = [sha (utf8Bytes vid) @ r, utf8Bytes vid]" "hs' = [sha (utf8Bytes vid') @ r', utf8Bytes vid']"
    using assms(4,5) ResidencyIn q by (auto simp: res_simps)
  have "sha (utf8Bytes vid) @ r = sha (utf8Bytes vid') @ r'"
    by (rule collisionI [OF _ _ _ assms(6)]) (use ResidencyIn q h assms(3) in auto)
  then show ?thesis
    using salted_inject [OF assms(1) _ _ _ assms(6), of vid r vid' r'] ResidencyIn q h by auto
next
  case EmailVerified
  then show ?thesis using assms(2) by (cases q) auto
qed

lemma attestationKeyFor_eq:
  "attestationKeyFor sha R vid c p = Inr k \<longleftrightarrow> length (hexToBytes c) = 32 \<and>
     (\<exists>hs. hashed sha R vid (hexToBytes c) p = Inr hs \<and> k = keyHex (sha (hd hs)))"
  by (auto simp: attestationKeyFor_def Let_def predicateKey_hashed res_simps)

lemma keyHex_inject: "keyHex a = keyHex b \<longleftrightarrow> a = b"
  using hex.enc_inject by (auto simp: keyHex_def bytesToHex_eq_hexEncode)

text \<open>C15: Attestation keys are separated: two key look-ups that give the same hex key are for the same
  credential and the same predicate request of the same verifier, or else two different byte strings
  among those hashed for the two keys have the same SHA-256 digest.\<close>

theorem attestation_keys_separate:
  assumes "sha_32 sha" and "attestationKeyFor sha R vid c p = Inr k" and "attestationKeyFor sha R vid' c' q = Inr k"
  shows "hexToBytes c = hexToBytes c' \<and> sameRequest R vid vid' p q \<or>
    (\<exists>hs hs'. hashed sha R vid (hexToBytes c) p = Inr hs \<and> hashed sha R vid' (hexToBytes c') q = Inr hs' \<and>
       collision sha hs hs')"
proof (rule disjCI)
  assume no: "\<nexists>hs hs'. hashed sha R vid (hexToBytes c) p = Inr hs \<and>
    hashed sha R vid' (hexToBytes c') q = Inr hs' \<and> collision sha hs hs'"
  obtain hs hs' where h: "length (hexToBytes c) = 32" "hashed sha R vid (hexToBytes c) p = Inr hs"
      "length (hexToBytes c') = 32" "hashed sha R vid' (hexToBytes c') q = Inr hs'" "sha (hd hs) = sha (hd hs')"
    using assms(2,3) by (auto simp: attestationKeyFor_eq keyHex_inject)
  then have nc: "\<not> collision sha hs hs'" using no by blast
  obtain i i' where i: "innerHashed sha R vid p = Inr i" "innerHashed sha R vid' q = Inr i'"
      "hs = (pad32 (tagOf p) @ hexToBytes c @ paramOf sha p i) # i"
      "hs' = (pad32 (tagOf q) @ hexToBytes c' @ paramOf sha q i') # i'"
    using h(2,4) by (auto simp: hashed_def res_simps)
  have "pad32 (tagOf p) @ hexToBytes c @ paramOf sha p i = pad32 (tagOf q) @ hexToBytes c' @ paramOf sha q i'"
    by (rule collisionI [OF _ _ _ nc]) (use i(3,4) h(5) in auto)
  then have "pad32 (tagOf p) = pad32 (tagOf q)" and root: "hexToBytes c = hexToBytes c'"
      and param: "paramOf sha p i = paramOf sha q i'"
    using h(1,3) by (auto simp: append_eq_append_conv)
  then have "kindNo p = kindNo q" using pad32_tag_inject by blast
  moreover have "\<not> collision sha i i'" using nc i(3,4) by (auto simp: collision_def)
  ultimately show "hexToBytes c = hexToBytes c' \<and> sameRequest R vid vid' p q"
    using param_inject [OF assms(1) _ param i(1,2)] root by blast
qed

text \<open>The TypeScript \<open>ageKey\<close> never finds what the age circuit records: the circuit hashes the
  threshold together with the month epoch, \<open>ageKey\<close> takes the threshold alone.  The two keys agree
  only if SHA-256 maps the two different key preimages to one digest, or maps threshold and epoch to
  a digest whose upper sixteen bytes are zero.\<close>

theorem ageKey_misses_circuit:
  assumes "sha_32 sha" and "length root = 32" and "ageKey sha root t = Inr (circuitAgeKey sha root t ep)"
  shows "collision sha [pad32 TAG_AGE @ root @ u128Le32 t]
           [pad32 TAG_AGE @ root @ sha (u128Le32 t @ u128Le32 ep)] \<or>
         drop 16 (sha (u128Le32 t @ u128Le32 ep)) = zeros 16"
proof (rule disjCI)
  assume ne: "drop 16 (sha (u128Le32 t @ u128Le32 ep)) \<noteq> zeros 16"
  have "drop 16 (u128Le32 t) = zeros 16"
  proof -
    have "length (leLoop 16 (t mod 2 ^ 128)) \<le> 16" by (rule length_leLoop)
    then show ?thesis by (simp add: u128Le32_def fill32_def zeros_def)
  qed
  then have "u128Le32 t \<noteq> sha (u128Le32 t @ u128Le32 ep)" using ne by metis
  moreover have "ageKey sha root t = Inr (sha (pad32 TAG_AGE @ root @ u128Le32 t))"
    using keyFromParts_tag [of sha "AgeOver t"] by (simp add: ageKey_def)
  ultimately show "collision sha [pad32 TAG_AGE @ root @ u128Le32 t]
           [pad32 TAG_AGE @ root @ sha (u128Le32 t @ u128Le32 ep)]"
    using assms(3) by (simp add: collision_def circuitAgeKey_def)
qed

section \<open>Witnesses\<close>

theorem attestation_keys_separate_witness:
  "\<exists>k. attestationKeyFor exSha exRuntime ''v'' (hexEncode (zeros 32)) (AgeOver 18) = Inr k \<and>
     sameRequest exRuntime ''v'' ''v'' (AgeOver 18) (AgeOver 18)"
proof -
  have len: "length (hexToBytes (hexEncode (zeros 32))) = 32" by (simp add: hexToBytes_hexEncode)
  then obtain k where k: "attestationKeyFor exSha exRuntime ''v'' (hexEncode (zeros 32)) (AgeOver 18) = Inr k"
    by (auto simp: attestationKeyFor_eq hashed_def)
  have "\<not> collision exSha hs hs" if "hashed exSha exRuntime ''v'' (zeros 32) (AgeOver 18) = Inr hs" for hs
    using that by (auto simp: hashed_def collision_def)
  then show ?thesis
    using attestation_keys_separate [OF exSha_32 k k] k by (auto simp: hexToBytes_hexEncode)
qed

theorem ageKey_misses_circuit_witness:
  "\<exists>ep. ageKey (\<lambda>_. zeros 32) (zeros 32) 18 = Inr (circuitAgeKey (\<lambda>_. zeros 32) (zeros 32) 18 ep) \<and>
    (collision (\<lambda>_. zeros 32) [pad32 TAG_AGE @ zeros 32 @ u128Le32 18] [pad32 TAG_AGE @ zeros 32 @ zeros 32] \<or>
     drop 16 (zeros 32) = zeros 16)"
proof -
  have "ageKey (\<lambda>_. zeros 32) (zeros 32) 18 = Inr (circuitAgeKey (\<lambda>_. zeros 32) (zeros 32) 18 20250101)"
    using keyFromParts_tag [of "\<lambda>_. zeros 32" "AgeOver 18"] by (simp add: ageKey_def circuitAgeKey_def)
  then show ?thesis
    using ageKey_misses_circuit [of "\<lambda>_. zeros 32" "zeros 32" 18 20250101] by (auto simp: sha_32_def)
qed

end
