(* ===== verification/Orchestrator.thy ===== *)
theory Orchestrator
  imports Js_Async Predicate_Witness Attestation_Keys
begin

text \<open>
  \<open>midnight/orchestrator.ts\<close>: the step that puts every predicate a verifier requires on Midnight
  before the wallet signs.  The transport (\<open>PredicateTransport\<close>), the prover behind
  \<open>proveAttestationUnsubmitted\<close>, the abort signal and the clock are the parameter record \<open>orchEnv\<close>
  over an abstract world; the handler is one action on a state that holds that world, the progress
  events it emitted and the calls it made.  The caller's \<open>onProgress\<close> is code of the caller that runs inside
  \<open>emit\<close>: it is the field \<open>env_onProgress\<close>, a change of the world (it may cancel), and what it throws is caught.
  The elapsed time inside a \<open>confirming\<close> event is left out.
  Numeric strings are read as an optional sign and decimal digits.
\<close>

section \<open>Coercions of credential attributes\<close>

text \<open>\<open>String(v)\<close> of an attribute; \<open>None\<close> is \<open>undefined\<close>.\<close>

fun jsString :: "json \<Rightarrow> string" where
  "jsString JNull = ''null''"
| "jsString (JBool b) = (if b then ''true'' else ''false'')"
| "jsString (JNum n) = showInt n"
| "jsString (JStr s) = s"
| "jsString (JArr xs) = joinWith '','' (map (\<lambda>x. if x = JNull then [] else jsString x) xs)"
| "jsString (JObj _) = ''[object Object]''"

definition jsStringOpt :: "json option \<Rightarrow> string" where
  "jsStringOpt v = (case v of None \<Rightarrow> ''undefined'' | Some x \<Rightarrow> jsString x)"

definition jsNumber :: "string \<Rightarrow> int option" where
  "jsNumber t =
     (let s = trim t in
      if s = [] then Some 0
      else if allDigits s then Some (int (readNat s))
      else if hd s = CHR ''-'' \<and> allDigits (tl s) then Some (- int (readNat (tl s)))
      else if hd s = CHR ''+'' \<and> allDigits (tl s) then Some (int (readNat (tl s)))
      else None)"

definition dobYmd :: "string \<Rightarrow> int res" where
  "dobYmd dateOfBirth =
     (case isoDate (trim dateOfBirth) of
        None \<Rightarrow> Inl (Error (''invalid dateOfBirth: '' @ dateOfBirth))
      | Some (y, m, d) \<Rightarrow> Inr (int (y * 10000 + m * 100 + d)))"

definition kycLevelToNumber :: "json option \<Rightarrow> int res" where
  "kycLevelToNumber v =
     (case v of
        Some (JNum n) \<Rightarrow> Inr n
      | _ \<Rightarrow>
          (let s = toLowerCase (jsStringOpt v) in
           if s \<in> {''0'', ''none'', ''''} then Inr 0
           else if s \<in> {''1'', ''low'', ''basic''} then Inr 1
           else if s \<in> {''2'', ''medium'', ''substantial''} then Inr 2
           else if s \<in> {''3'', ''high''} then Inr 3
           else (case jsNumber s of
                   Some n \<Rightarrow> Inr n
                 | None \<Rightarrow> Inl (Error (''unrecognised verificationLevel: '' @ jsStringOpt v)))))"

definition normalizeCountry :: "json option \<Rightarrow> string res" where
  "normalizeCountry v =
     (case v of
        Some (JStr c) \<Rightarrow>
          (let trimmed = toUpperCase (trim c) in
           if alpha2Shape trimmed then Inr trimmed
           else Inl (Error (''country must be ISO 3166-1 alpha-2: got '' @ [CHR 0x22] @ c @ [CHR 0x22])))
      | _ \<Rightarrow> Inl (Error (''unrecognised country: '' @ jsStringOpt v)))"

definition emailVerifiedToNumber :: "json option \<Rightarrow> int res" where
  "emailVerifiedToNumber v =
     (case v of
        Some (JBool b) \<Rightarrow> Inr (if b then 1 else 0)
      | Some (JNum n) \<Rightarrow> Inr (if n \<ge> 1 then 1 else 0)
      | _ \<Rightarrow>
          (let s = toLowerCase (jsStringOpt v) in
           if s \<in> {''true'', ''1'', ''yes''} then Inr 1
           else if s \<in> {''false'', ''0'', ''no'', ''''} then Inr 0
           else Inl (Error (''unrecognised emailVerified: '' @ jsStringOpt v))))"

section \<open>Families\<close>

fun OWL_BOUND_CLAIM :: "predicateKind \<Rightarrow> string option" where
  "OWL_BOUND_CLAIM K_kyc = Some ''verification_level''"
| "OWL_BOUND_CLAIM K_email = Some ''email_verified''"
| "OWL_BOUND_CLAIM K_nationality = Some ''nationality''"
| "OWL_BOUND_CLAIM K_residency = Some ''residentCountry''"
| "OWL_BOUND_CLAIM K_personhood = Some ''personhoodSecret''"
| "OWL_BOUND_CLAIM K_age = Some ''birthdate''"
| "OWL_BOUND_CLAIM K_age_range = Some ''birthdate''"

definition PREDICATE_NAME_TO_KIND :: "(string \<times> predicateKind) list" where
  "PREDICATE_NAME_TO_KIND =
     [(''age'', K_age), (''kyc'', K_kyc), (''residency'', K_residency), (''email_verified'', K_email),
      (''nationality'', K_nationality), (''age_range'', K_age_range), (''unique_personhood'', K_personhood)]"

definition predicateNameToKind :: "string \<Rightarrow> predicateKind option" where
  "predicateNameToKind p = map_of PREDICATE_NAME_TO_KIND p"

type_synonym attributes = "(string \<times> json) list"

record 'p familySpec =
  fs_kind :: predicateKind
  fs_circuitId :: string
  fs_attribute :: string
  fs_witness :: "attributes \<Rightarrow> 'p predicateWitness res"

definition dobWitness :: "attributes \<Rightarrow> 'p predicateWitness res" where
  "dobWitness attrs =
     bindR (dobYmd (jsStringOpt (map_of attrs ''dateOfBirth''))) (\<lambda>d. Inr (noWitness\<lparr>dobValue := Some d\<rparr>))"

definition FAMILIES :: "(string \<times> 'p familySpec) list" where
  "FAMILIES =
     [(''age'', \<lparr>fs_kind = K_age, fs_circuitId = ''attestAgeGte'', fs_attribute = ''dateOfBirth'', fs_witness = dobWitness\<rparr>),
      (''age_range'', \<lparr>fs_kind = K_age_range, fs_circuitId = ''attestAgeRange'', fs_attribute = ''dateOfBirth'',
         fs_witness = dobWitness\<rparr>),
      (''kyc'', \<lparr>fs_kind = K_kyc, fs_circuitId = ''attestKycGte'', fs_attribute = ''verificationLevel'',
         fs_witness = (\<lambda>attrs. bindR (kycLevelToNumber (map_of attrs ''verificationLevel''))
           (\<lambda>n. Inr (noWitness\<lparr>kycLevelW := Some n\<rparr>)))\<rparr>),
      (''residency'', \<lparr>fs_kind = K_residency, fs_circuitId = ''attestResidencyIn'', fs_attribute = ''residentCountry'',
         fs_witness = (\<lambda>attrs. bindR (normalizeCountry (map_of attrs ''residentCountry''))
           (\<lambda>c. Inr (noWitness\<lparr>residentCountry := Some c\<rparr>)))\<rparr>),
      (''email_verified'', \<lparr>fs_kind = K_email, fs_circuitId = ''attestEmailVerified'', fs_attribute = ''emailVerified'',
         fs_witness = (\<lambda>attrs. bindR (emailVerifiedToNumber (map_of attrs ''emailVerified''))
           (\<lambda>n. Inr (noWitness\<lparr>emailVerifiedFlag := Some n\<rparr>)))\<rparr>),
      (''nationality'', \<lparr>fs_kind = K_nationality, fs_circuitId = ''attestNationalityIn'', fs_attribute = ''nationality'',
         fs_witness = (\<lambda>attrs. bindR (normalizeCountry (map_of attrs ''nationality''))
           (\<lambda>c. Inr (noWitness\<lparr>nationalityCode := Some c\<rparr>)))\<rparr>),
      (''unique_personhood'', \<lparr>fs_kind = K_personhood, fs_circuitId = ''attestUniquePersonhood'',
         fs_attribute = ''personhoodSecret'',
         fs_witness = (\<lambda>attrs. Inr (noWitness\<lparr>personhoodSecret :=
           Some (hexToBytes (jsStringOpt (map_of attrs ''personhoodSecret'')))\<rparr>))\<rparr>)]"

section \<open>Country sets and verifier scopes\<close>

definition orchCanonicaliseCountries :: "string list \<Rightarrow> string list" where
  "orchCanonicaliseCountries codes =
     sortBy str_le (foldl (\<lambda>seen raw. let c = toUpperCase (trim raw) in if alpha2Shape c then setAdd seen c else seen) [] codes)"

definition computeSetHash ::
  "(bytes \<Rightarrow> bytes) \<Rightarrow> ('t, 'p) compactRuntime \<Rightarrow> bytes \<Rightarrow> string list \<Rightarrow> bytes res" where
  "computeSetHash sha R vidHash canonCountries =
     (if length canonCountries > COUNTRY_SET_SLOTS then
        Inl (Error (''allowedCountrySet exceeds cap: '' @ showNat (length canonCountries) @ '' > '' @
          showNat COUNTRY_SET_SLOTS))
      else
        bindR (buildAllowedSetTree R canonCountries) (\<lambda>built.
        bindR (treeRootBytesLE R (bt_tree built)) (\<lambda>rootBytes.
        bindR (bufSet vidHash 0 (zeros 64)) (\<lambda>o1.
        bindR (bufSet rootBytes 32 o1) (\<lambda>o2. Inr (sha o2))))))"

definition computeVerifierIdHash :: "(bytes \<Rightarrow> bytes) \<Rightarrow> string \<Rightarrow> bytes" where
  "computeVerifierIdHash sha verifierId = sha (utf8Bytes verifierId)"

definition personhoodAppId :: "(bytes \<Rightarrow> bytes) \<Rightarrow> string \<Rightarrow> bytes \<Rightarrow> bytes res" where
  "personhoodAppId sha verifierId appId =
     bindR (bufSet (computeVerifierIdHash sha verifierId) 0 (zeros 64)) (\<lambda>b1.
     bindR (bufSet (take 32 appId) 32 b1) (\<lambda>b2. Inr (sha b2)))"

section \<open>Retrying a fetch\<close>

definition transient :: "js_error \<Rightarrow> bool" where
  "transient e = (case e of TypeError m \<Rightarrow> includesStr m ''fetch'' | _ \<Rightarrow> False)"

fun retryLoop ::
  "(nat \<Rightarrow> ('s, unit) act) \<Rightarrow> nat \<Rightarrow> ('s, 'a) act \<Rightarrow> nat \<Rightarrow> nat \<Rightarrow> js_error \<Rightarrow> ('s, 'a) act" where
  "retryLoop sleep baseMs fn 0 i lastErr = throwA lastErr"
| "retryLoop sleep baseMs fn (Suc k) i lastErr =
     tryA fn (\<lambda>e.
       if \<not> transient e then throwA e
       else if k = 0 then throwA e
       else seqA (sleep (baseMs * 2 ^ i)) (retryLoop sleep baseMs fn k (Suc i) e))"

definition retryFetch :: "(nat \<Rightarrow> ('s, unit) act) \<Rightarrow> ('s, 'a) act \<Rightarrow> nat \<Rightarrow> nat \<Rightarrow> ('s, 'a) act" where
  "retryFetch sleep fn attempts baseMs = retryLoop sleep baseMs fn attempts 0 (Error ''undefined'')"

section \<open>The orchestrator's interfaces\<close>

record predicateSnapshot =
  sn_address :: string
  sn_zswapChainState :: string
  sn_contractState :: string
  sn_ledgerParameters :: string

record requiredAttestation =
  rq_predicate :: string
  rq_threshold :: "int option"
  rq_minAge :: "int option"
  rq_maxAge :: "int option"
  rq_epoch :: "string option"
  rq_appId :: "string option"
  rq_countries :: "string list option"
  rq_verifierId :: "string option"

record attestQuery =
  aq_predicate :: string
  aq_rootHash :: string
  aq_owlRoot :: "string option"
  aq_threshold :: "int option"
  aq_minAge :: "int option"
  aq_maxAge :: "int option"
  aq_epoch :: "string option"
  aq_appId :: "string option"
  aq_countries :: "string list option"
  aq_verifierId :: "string option"

datatype circuitArg = A_bytes bytes | A_int int

datatype provingMode = Wasm | ProofServer

record 'p proveParams =
  pp_kind :: predicateKind
  pp_witnesses :: "(string \<times> 'p witnessValue res) list"
  pp_snapshot :: predicateSnapshot
  pp_circuitId :: string
  pp_args :: "circuitArg list"
  pp_privateStateId :: string

datatype attestProgress =
    P_check string
  | P_already_attested string
  | P_snapshot string predicateKind
  | P_prove string predicateKind string provingMode
  | P_relay string predicateKind
  | P_confirming string predicateKind string string
  | P_attested string predicateKind
  | P_skip_unsupported string
  | P_skip_missing_attribute string string
  | P_skip_unsatisfiable string "int option" "int option" string
  | P_unlock string
  | P_sign string

record statusEvent =
  ev_status :: string
  ev_error :: "string option"

text \<open>A status stream is the list of events it delivers before it ends, and the error it ends with,
  if any.\<close>

record ('w, 't, 'p) orchEnv =
  env_sha :: "bytes \<Rightarrow> bytes"
  env_runtime :: "('t, 'p) compactRuntime"
  env_isAttested :: "attestQuery \<Rightarrow> ('w, bool) act"
  env_snapshot :: "predicateKind \<Rightarrow> ('w, predicateSnapshot) act"
  env_relay :: "predicateKind \<Rightarrow> string \<Rightarrow> ('w, string) act"
  env_statusEvents :: "string \<Rightarrow> 'w \<Rightarrow> (statusEvent list \<times> js_error option) \<times> 'w"
  env_prove :: "'p proveParams \<Rightarrow> ('w, bytes) act"
  env_aborted :: "'w \<Rightarrow> bool"
  env_onProgress :: "attestProgress \<Rightarrow> 'w \<Rightarrow> 'w"
  env_today :: "'w \<Rightarrow> nat \<times> nat \<times> nat"
  env_provingMode :: "'w \<Rightarrow> provingMode"

record ensureResult =
  er_predicate :: string
  er_threshold :: "int option"
  er_alreadyOnChain :: bool

text \<open>The calls on the outside, with what they returned; a relay also records whether the caller had
  aborted when it was made.\<close>

datatype orchCall =
    C_isAttested attestQuery bool
  | C_relay string bool
  | C_terminal string string

record 'w orchState =
  os_world :: 'w
  os_progress :: "attestProgress list"
  os_calls :: "orchCall list"

record credentialJson =
  cj_root_hash :: string
  cj_owl_root :: "string option"
  cj_claim_disclosures :: "claimDisclosure list"
  cj_attributes :: attributes
  cj_predicate_attestations :: "owlAttestationRef list"

definition disclosureOfJson :: "json \<Rightarrow> claimDisclosure" where
  "disclosureOfJson v =
     \<lparr>cd_name = the_or [] (asStr (getField ''name'' v)), cd_value = the_or JNull (getField ''value'' v),
      cd_salt = the_or [] (asStr (getField ''salt'' v))\<rparr>"

definition docOfJson :: "json \<Rightarrow> credentialJson" where
  "docOfJson v =
     \<lparr>cj_root_hash = the_or [] (asStr (getField ''root_hash'' v)),
      cj_owl_root = asStr (getField ''owl_root'' v),
      cj_claim_disclosures = map disclosureOfJson (the_or [] (asArr (getField ''claim_disclosures'' v))),
      cj_attributes = (case getField ''attributes'' v of Some (JObj kvs) \<Rightarrow> kvs | _ \<Rightarrow> []),
      cj_predicate_attestations = map refOfJson (the_or [] (asArr (getField ''predicate_attestations'' v)))\<rparr>"

section \<open>Preparing one predicate\<close>

definition isRequired :: "requiredAttestation list option \<Rightarrow> owlAttestationRef \<Rightarrow> bool" where
  "isRequired req sp =
     (case req of
        None \<Rightarrow> True
      | Some rs \<Rightarrow>
          list_ex (\<lambda>r.
            if rq_predicate r \<noteq> predicate sp then False
            else if predicate sp = ''age'' \<or> predicate sp = ''age_range'' then True
            else if predicate sp = ''nationality'' \<or> predicate sp = ''residency'' then
              (case rq_countries r of
                 None \<Rightarrow> False
               | Some cs \<Rightarrow>
                   cs \<noteq> [] \<and> (case country sp of None \<Rightarrow> False | Some c \<Rightarrow> toUpperCase c \<in> set cs))
            else rq_threshold r = threshold sp) rs)"

definition findRequired :: "requiredAttestation list option \<Rightarrow> (requiredAttestation \<Rightarrow> bool) \<Rightarrow> requiredAttestation option" where
  "findRequired req P = (case req of None \<Rightarrow> None | Some rs \<Rightarrow> find P rs)"

definition nonEmpty :: "string option \<Rightarrow> bool" where
  "nonEmpty v = (case v of None \<Rightarrow> False | Some s \<Rightarrow> s \<noteq> [])"

record campaignScope =
  sc_epoch :: string
  sc_appId :: string
  sc_effectiveAppId :: string

text \<open>\<open>Inl\<close>: the predicate is skipped with this event.\<close>

definition personhoodScope ::
  "(bytes \<Rightarrow> bytes) \<Rightarrow> requiredAttestation list option \<Rightarrow> owlAttestationRef \<Rightarrow> (attestProgress + campaignScope) res" where
  "personhoodScope sha req sp =
     (case findRequired req (\<lambda>r. rq_predicate r = predicate sp \<and> nonEmpty (rq_epoch r) \<and> nonEmpty (rq_appId r)
            \<and> nonEmpty (rq_verifierId r)) of
        None \<Rightarrow> Inr (Inl (P_skip_unsupported (predicate sp)))
      | Some r \<Rightarrow>
          (case (rq_epoch r, rq_appId r, rq_verifierId r) of
             (Some ep, Some app, Some vid) \<Rightarrow>
               bindR (personhoodAppId sha vid (hexToBytes app)) (\<lambda>eff.
                 Inr (Inr \<lparr>sc_epoch = ep, sc_appId = app, sc_effectiveAppId = bytesToHex eff\<rparr>))
           | _ \<Rightarrow> Inr (Inl (P_skip_unsupported (predicate sp)))))"

record countryScope =
  cs_canon :: "string list"
  cs_verifierIdHash :: bytes
  cs_setHash :: bytes

definition squote :: "string \<Rightarrow> string" where
  "squote s = [CHR 0x27] @ s @ [CHR 0x27]"

definition skipUnsat :: "owlAttestationRef \<Rightarrow> int option \<Rightarrow> string \<Rightarrow> attestProgress" where
  "skipUnsat sp t reason = P_skip_unsatisfiable (predicate sp) t None reason"

definition countrySet ::
  "(bytes \<Rightarrow> bytes) \<Rightarrow> ('t, 'p) compactRuntime \<Rightarrow> requiredAttestation list option \<Rightarrow> owlAttestationRef \<Rightarrow>
    (attestProgress + countryScope) res" where
  "countrySet sha R req sp =
     (case findRequired req (\<lambda>r. rq_predicate r = predicate sp) of
        None \<Rightarrow> Inr (Inl (P_skip_unsupported (predicate sp)))
      | Some r \<Rightarrow>
          (case rq_countries r of
             None \<Rightarrow> Inr (Inl (P_skip_unsupported (predicate sp)))
           | Some cs \<Rightarrow>
               if cs = [] then Inr (Inl (P_skip_unsupported (predicate sp)))
               else if \<not> nonEmpty (rq_verifierId r) then
                 Inr (Inl (skipUnsat sp None ''verifierId required for nationality / residency (per-verifier salt)''))
               else
                 (let canon = orchCanonicaliseCountries cs in
                  if canon = [] then
                    Inr (Inl (skipUnsat sp None ''verifier-supplied country list contained no valid alpha-2 codes''))
                  else if (case country sp of None \<Rightarrow> True | Some c \<Rightarrow> c = [] \<or> toUpperCase c \<notin> set canon) then
                    Inr (Inl (skipUnsat sp None (''credential stamped country '' @ the_or ''<none>'' (country sp) @
                      '' not in verifier set '' @ joinWith '','' canon)))
                  else
                    (let vidHash = computeVerifierIdHash sha (the_or [] (rq_verifierId r)) in
                     bindR (computeSetHash sha R vidHash canon) (\<lambda>h.
                       Inr (Inr \<lparr>cs_canon = canon, cs_verifierIdHash = vidHash, cs_setHash = h\<rparr>))))))"

record 'p preparedPredicate =
  pr_spec :: "'p familySpec"
  pr_threshold :: "int option"
  pr_minAge :: "int option"
  pr_maxAge :: "int option"
  pr_scope :: "campaignScope option"
  pr_countries :: "countryScope option"

definition bindSkip :: "(attestProgress + 'a) res \<Rightarrow> ('a \<Rightarrow> (attestProgress + 'b) res) \<Rightarrow> (attestProgress + 'b) res" where
  "bindSkip m f = bindR m (\<lambda>r. case r of Inl ev \<Rightarrow> Inr (Inl ev) | Inr x \<Rightarrow> f x)"

definition presentationBounds ::
  "'p familySpec \<Rightarrow> requiredAttestation list option \<Rightarrow> owlAttestationRef \<Rightarrow>
    (attestProgress + int option \<times> int option \<times> int option) res" where
  "presentationBounds spec req sp =
     (if fs_kind spec = K_age \<or> fs_kind spec = K_age_range then
        (case findRequired req (\<lambda>r. rq_predicate r = predicate sp) of
           None \<Rightarrow> Inr (Inl (P_skip_unsupported (predicate sp)))
         | Some r \<Rightarrow> Inr (Inr (rq_threshold r, rq_minAge r, rq_maxAge r)))
      else Inr (Inr (threshold sp, min_age sp, max_age sp)))"

definition preparePredicate ::
  "(bytes \<Rightarrow> bytes) \<Rightarrow> ('t, 'p) compactRuntime \<Rightarrow> credentialJson \<Rightarrow> requiredAttestation list option \<Rightarrow>
    owlAttestationRef \<Rightarrow> (attestProgress + 'p preparedPredicate) res" where
  "preparePredicate sha R doc req sp =
     (case map_of FAMILIES (predicate sp) of
        None \<Rightarrow> Inr (Inl (P_skip_unsupported (predicate sp)))
      | Some spec \<Rightarrow>
          if map_of (cj_attributes doc) (fs_attribute spec) = None then
            Inr (Inl (P_skip_missing_attribute (predicate sp) (fs_attribute spec)))
          else
            bindSkip (if fs_kind spec = K_personhood
                      then bindSkip (personhoodScope sha req sp) (\<lambda>sc. Inr (Inr (Some sc)))
                      else Inr (Inr None)) (\<lambda>scope.
            bindSkip (presentationBounds spec req sp) (\<lambda>(t, lo, hi).
            bindSkip (if predicate sp = ''nationality'' \<or> predicate sp = ''residency''
                      then bindSkip (countrySet sha R req sp) (\<lambda>c. Inr (Inr (Some c)))
                      else Inr (Inr None)) (\<lambda>cset.
              Inr (Inr \<lparr>pr_spec = spec, pr_threshold = t, pr_minAge = lo, pr_maxAge = hi, pr_scope = scope,
                        pr_countries = cset\<rparr>)))))"

section \<open>Attesting one predicate\<close>

type_synonym ('w, 'a) orch = "('w orchState, 'a) act"

text \<open>Runs the caller's \<open>onProgress\<close>, synchronously; the event is kept in the log of the run.\<close>

definition emit :: "('w, 't, 'p) orchEnv \<Rightarrow> attestProgress \<Rightarrow> ('w, unit) orch" where
  "emit E ev = modA (\<lambda>s. s\<lparr>os_world := env_onProgress E ev (os_world s), os_progress := os_progress s @ [ev]\<rparr>)"

definition logCall :: "orchCall \<Rightarrow> ('w, unit) orch" where
  "logCall c = modA (\<lambda>s. s\<lparr>os_calls := os_calls s @ [c]\<rparr>)"

text \<open>Runs an action of the outside on the world part of the state.\<close>

definition outside :: "('w, 'a) act \<Rightarrow> ('w, 'a) orch" where
  "outside m s = (case m (os_world s) of (r, w') \<Rightarrow> (r, s\<lparr>os_world := w'\<rparr>))"

definition aborted :: "('w, 't, 'p) orchEnv \<Rightarrow> ('w, bool) orch" where
  "aborted E = getA (\<lambda>s. env_aborted E (os_world s))"

definition abortError :: js_error where
  "abortError = AbortError ''Presentation aborted by holder''"

definition checkAbort :: "('w, 't, 'p) orchEnv \<Rightarrow> js_error \<Rightarrow> ('w, unit) orch" where
  "checkAbort E e = bindA (aborted E) (\<lambda>a. if a then throwA e else returnA ())"

definition isAttestedA :: "('w, 't, 'p) orchEnv \<Rightarrow> attestQuery \<Rightarrow> ('w, bool) orch" where
  "isAttestedA E q = bindA (outside (env_isAttested E q)) (\<lambda>b. seqA (logCall (C_isAttested q b)) (returnA b))"

definition relayA :: "('w, 't, 'p) orchEnv \<Rightarrow> predicateKind \<Rightarrow> string \<Rightarrow> string \<Rightarrow> ('w, string) orch" where
  "relayA E kind pred tx =
     bindA (aborted E) (\<lambda>a. seqA (logCall (C_relay pred a)) (outside (env_relay E kind tx)))"

text \<open>The abort check point, the progress event and the relay.\<close>

definition guardedRelay ::
  "('w, 't, 'p) orchEnv \<Rightarrow> attestProgress \<Rightarrow> predicateKind \<Rightarrow> string \<Rightarrow> string \<Rightarrow> ('w, string) orch" where
  "guardedRelay E ev kind pred tx = seqA (checkAbort E abortError) (seqA (emit E ev) (relayA E kind pred tx))"

definition IN_FLIGHT :: "string list" where
  "IN_FLIGHT = [''queued'', ''balancing'', ''submitting'']"

text \<open>The \<open>for await\<close> loop over the status stream: the events it emits and the terminal event.  The caller's
  \<open>onProgress\<close> runs for them in order, after the stream's own effects; a callback that cancels ends the stream
  early in the code, and the abort check point that follows throws either way.\<close>

fun readStream ::
  "string \<Rightarrow> predicateKind \<Rightarrow> string \<Rightarrow> statusEvent list \<Rightarrow> attestProgress list \<times> statusEvent option" where
  "readStream pred kind jobId [] = ([], None)"
| "readStream pred kind jobId (ev # evs) =
     (if ev_status ev \<in> set IN_FLIGHT then
        (let (ps, t) = readStream pred kind jobId evs in (P_confirming pred kind jobId (ev_status ev) # ps, t))
      else if ev_status ev = ''submitted'' then
        (let (ps, t) = readStream pred kind jobId evs in (P_confirming pred kind jobId ''pending'' # ps, t))
      else ([], Some ev))"

definition statusA ::
  "('w, 't, 'p) orchEnv \<Rightarrow> string \<Rightarrow> predicateKind \<Rightarrow> string \<Rightarrow> ('w, statusEvent option) orch" where
  "statusA E pred kind jobId s =
     (let ((evs, err), w') = env_statusEvents E jobId (os_world s);
          (ps, t) = readStream pred kind jobId evs;
          s' = s\<lparr>os_world := foldl (\<lambda>w ev. env_onProgress E ev w) w' ps, os_progress := os_progress s @ ps\<rparr>
      in case (t, err) of
           (Some ev, _) \<Rightarrow> (Inr (Some ev), s'\<lparr>os_calls := os_calls s @ [C_terminal pred (ev_status ev)]\<rparr>)
         | (None, Some e) \<Rightarrow> (Inl e, s')
         | (None, None) \<Rightarrow> (Inr None, s'))"

definition emDash :: string where "emDash = [CHR 0xE2, CHR 0x80, CHR 0x94]"

definition ABORT_BUDGET_MS :: nat where "ABORT_BUDGET_MS = 5 * 60000"
definition MAX_ATTEST_ATTEMPTS :: nat where "MAX_ATTEST_ATTEMPTS = 3"

datatype attestOutcome = Skipped | Settled | Succeeded

text \<open>\<open>compiledContract\<close> binds the witnesses; then the holder proves, without submitting.\<close>

definition proveA ::
  "('w, 't, 'p) orchEnv \<Rightarrow> string \<Rightarrow> 'p familySpec \<Rightarrow> 'p predicateWitness \<Rightarrow> circuitArg list \<Rightarrow> ('w, bytes) orch" where
  "proveA E pred spec w args =
     bindA (getA (\<lambda>s. env_provingMode E (os_world s))) (\<lambda>mode.
     bindA (outside (env_snapshot E (fs_kind spec))) (\<lambda>snap.
     seqA (emit E (P_prove pred (fs_kind spec) (fs_circuitId spec) mode))
    (bindA (liftA (witnessesFor (env_runtime E) (fs_kind spec) w)) (\<lambda>ws.
       outside (env_prove E
         \<lparr>pp_kind = fs_kind spec, pp_witnesses = ws, pp_snapshot = snap, pp_circuitId = fs_circuitId spec,
          pp_args = args, pp_privateStateId = ''owlid-predicate-'' @ kindName (fs_kind spec)\<rparr>)))))"

definition failureMessage :: "string \<Rightarrow> string \<Rightarrow> string \<Rightarrow> string option \<Rightarrow> string" where
  "failureMessage pred terminal jobId err =
     ''on-chain attestation for '' @ squote pred @ '' failed: status='' @ terminal @ '', jobId='' @ jobId @
     (case err of None \<Rightarrow> [] | Some e \<Rightarrow> if e = [] then [] else '' ('' @ e @ '')'') @
     (if terminal = ''FailFallible'' then
        '' '' @ emDash @ '' contract state moved between proving and inclusion on all '' @
        showNat MAX_ATTEST_ATTEMPTS @ '' attempts''
      else [])"

definition settledA :: "('w, 't, 'p) orchEnv \<Rightarrow> string \<Rightarrow> ('w, attestOutcome) orch" where
  "settledA E pred = seqA (emit E (P_already_attested pred)) (returnA Settled)"

text \<open>What a terminal status other than success leads to; \<open>again\<close> is the next attempt, if one is left.\<close>

definition failedA ::
  "('w, 't, 'p) orchEnv \<Rightarrow> string \<Rightarrow> predicateKind \<Rightarrow> attestQuery \<Rightarrow> string \<Rightarrow> statusEvent \<Rightarrow>
    ('w, attestOutcome) orch option \<Rightarrow> ('w, attestOutcome) orch" where
  "failedA E pred kind q jobId ev again =
     bindA (if pred = ''unique_personhood'' \<and> includesStr (toLowerCase (the_or [] (ev_error ev))) ''personhood replay''
            then isAttestedA E q else returnA False) (\<lambda>replayed.
       if replayed then settledA E pred
       else bindA (isAttestedA E q) (\<lambda>present.
         if present then settledA E pred
         else (case (if ev_status ev = ''FailFallible'' then again else None) of
                 Some m \<Rightarrow> seqA (emit E (P_snapshot pred kind)) m
               | None \<Rightarrow> throwA (Error (failureMessage pred (ev_status ev) jobId (ev_error ev))))))"

definition relayAndWait ::
  "('w, 't, 'p) orchEnv \<Rightarrow> string \<Rightarrow> predicateKind \<Rightarrow> attestQuery \<Rightarrow> bytes \<Rightarrow> ('w, attestOutcome) orch option \<Rightarrow>
    ('w, attestOutcome) orch" where
  "relayAndWait E pred kind q tx again =
     bindA (guardedRelay E (P_relay pred kind) kind pred (bytesToHex tx)) (\<lambda>jobId.
       if jobId = [] then throwA (Error (''relay for '' @ squote pred @ '' returned no jobId''))
       else bindA (statusA E pred kind jobId) (\<lambda>terminal.
         seqA (checkAbort E (Error (''presentation aborted by caller (jobId='' @ jobId @ '')'')))
        (case terminal of
           None \<Rightarrow> throwA (Error (''on-chain attestation for '' @ squote pred @ '' timed out after '' @
                      showNat ABORT_BUDGET_MS @ ''ms (jobId='' @ jobId @ '')''))
         | Some ev \<Rightarrow>
             if ev_status ev = ''SucceedEntirely'' then returnA Succeeded
             else failedA E pred kind q jobId ev again)))"

definition attemptA ::
  "('w, 't, 'p) orchEnv \<Rightarrow> string \<Rightarrow> int option \<Rightarrow> 'p familySpec \<Rightarrow> 'p predicateWitness \<Rightarrow> circuitArg list \<Rightarrow>
    attestQuery \<Rightarrow> ('w, attestOutcome) orch option \<Rightarrow> ('w, attestOutcome) orch" where
  "attemptA E pred t spec w args q again =
     seqA (emit E (P_snapshot pred (fs_kind spec)))
    (bindA (tryA (bindA (proveA E pred spec w args) (\<lambda>tx. returnA (Some tx)))
              (\<lambda>e. seqA (emit E (P_skip_unsatisfiable pred t None (''attestation prep failed: '' @ message e)))
                     (returnA None))) (\<lambda>proven.
     case proven of
       None \<Rightarrow> returnA Skipped
     | Some tx \<Rightarrow> relayAndWait E pred (fs_kind spec) q tx again))"

text \<open>The loop over the attempts; the first argument is the number of attempts left after this one.\<close>

primrec attestLoop ::
  "nat \<Rightarrow> ('w, 't, 'p) orchEnv \<Rightarrow> string \<Rightarrow> int option \<Rightarrow> 'p familySpec \<Rightarrow> 'p predicateWitness \<Rightarrow> circuitArg list \<Rightarrow>
    attestQuery \<Rightarrow> ('w, attestOutcome) orch" where
  "attestLoop 0 E pred t spec w args q = attemptA E pred t spec w args q None"
| "attestLoop (Suc k) E pred t spec w args q =
     attemptA E pred t spec w args q (Some (attestLoop k E pred t spec w args q))"

section \<open>The handler\<close>

definition currentAgeEpoch :: "nat \<times> nat \<times> nat \<Rightarrow> int" where
  "currentAgeEpoch now = (case now of (y, m, d) \<Rightarrow> int (y * 10000 + m * 100 + 1))"

fun numericWitnessValue :: "nat \<times> nat \<times> nat \<Rightarrow> predicateKind \<Rightarrow> 'p predicateWitness \<Rightarrow> int option" where
  "numericWitnessValue (y, m, d) K_age w = map_option (\<lambda>dob. (int (y * 10000 + m * 100 + d) - dob) div 10000) (dobValue w)"
| "numericWitnessValue (y, m, d) K_age_range w =
     map_option (\<lambda>dob. (int (y * 10000 + m * 100 + d) - dob) div 10000) (dobValue w)"
| "numericWitnessValue now K_kyc w = kycLevelW w"
| "numericWitnessValue now K_email w = emailVerifiedFlag w"
| "numericWitnessValue now K_residency w = None"
| "numericWitnessValue now K_nationality w = None"
| "numericWitnessValue now K_personhood w = None"

text \<open>The binding witness: the claim's salt and its path under \<open>owl_root\<close>.\<close>

definition bindClaim ::
  "(bytes \<Rightarrow> bytes) \<Rightarrow> ('t, 'p) compactRuntime \<Rightarrow> credentialJson \<Rightarrow> string \<Rightarrow> 'p predicateWitness \<Rightarrow> 'p predicateWitness res" where
  "bindClaim sha R doc claimName w =
     bindR (buildOwlRootTree sha R (cj_claim_disclosures doc)) (\<lambda>built.
       case find (\<lambda>d. cd_name d = claimName) (cj_claim_disclosures doc) of
         None \<Rightarrow> Inl (Error (''no disclosure salt for '' @ claimName))
       | Some d \<Rightarrow>
           bindR (findClaimPath R built claimName) (\<lambda>p.
             Inr (w\<lparr>claimSalt := Some (salt32For sha (cd_salt d)), claimPath := Some p\<rparr>)))"

definition withCountries :: "countryScope option \<Rightarrow> 'p predicateWitness \<Rightarrow> 'p predicateWitness" where
  "withCountries cset w =
     (case cset of
        None \<Rightarrow> w
      | Some c \<Rightarrow> w\<lparr>allowedCountrySet := Some (cs_canon c), verifierIdHashW := Some (cs_verifierIdHash c)\<rparr>)"

text \<open>The public arguments of the circuit.  \<open>BigInt(minAge!)\<close> throws on an absent bound.\<close>

definition bigIntOf :: "int option \<Rightarrow> int res" where
  "bigIntOf v = (case v of None \<Rightarrow> Inl (TypeError ''Cannot convert undefined to a BigInt'') | Some n \<Rightarrow> Inr n)"

definition circuitArgs :: "'p preparedPredicate \<Rightarrow> bytes \<Rightarrow> int \<Rightarrow> circuitArg list res" where
  "circuitArgs pr rootBytes ageEpoch =
     (case pr_scope pr of
        Some sc \<Rightarrow> Inr [A_bytes rootBytes, A_bytes (hexToBytes (sc_epoch sc)), A_bytes (hexToBytes (sc_effectiveAppId sc))]
      | None \<Rightarrow>
          if fs_kind (pr_spec pr) = K_age_range then
            bindR (bigIntOf (pr_minAge pr)) (\<lambda>lo. bindR (bigIntOf (pr_maxAge pr)) (\<lambda>hi.
              Inr [A_bytes rootBytes, A_int lo, A_int hi, A_int ageEpoch]))
          else if fs_kind (pr_spec pr) = K_age then
            Inr [A_bytes rootBytes, A_int (the_or 18 (pr_threshold pr)), A_int ageEpoch]
          else (case pr_countries pr of
                  Some c \<Rightarrow> Inr [A_bytes rootBytes, A_bytes (cs_setHash c)]
                | None \<Rightarrow> Inr (A_bytes rootBytes # (case pr_threshold pr of None \<Rightarrow> [] | Some t \<Rightarrow> [A_int t]))))"

definition attestQueryFor ::
  "requiredAttestation list option \<Rightarrow> owlAttestationRef \<Rightarrow> string \<Rightarrow> 'p preparedPredicate \<Rightarrow> attestQuery" where
  "attestQueryFor req sp owlRoot pr =
     \<lparr>aq_predicate = predicate sp, aq_rootHash = owlRoot, aq_owlRoot = Some owlRoot, aq_threshold = pr_threshold pr,
      aq_minAge = pr_minAge pr, aq_maxAge = pr_maxAge pr, aq_epoch = map_option sc_epoch (pr_scope pr),
      aq_appId = map_option sc_appId (pr_scope pr), aq_countries = map_option cs_canon (pr_countries pr),
      aq_verifierId =
        (if predicate sp \<in> {''nationality'', ''residency'', ''unique_personhood''} then
           (case findRequired req (\<lambda>r. rq_predicate r = predicate sp) of None \<Rightarrow> None | Some r \<Rightarrow> rq_verifierId r)
         else None)\<rparr>"

definition resultFor :: "owlAttestationRef \<Rightarrow> int option \<Rightarrow> bool \<Rightarrow> ensureResult" where
  "resultFor sp t already = \<lparr>er_predicate = predicate sp, er_threshold = t, er_alreadyOnChain = already\<rparr>"

text \<open>From the witness on: pre-flight check, abort check point and the proving loop.\<close>

definition proveAndRelay ::
  "('w, 't, 'p) orchEnv \<Rightarrow> owlAttestationRef \<Rightarrow> string \<Rightarrow> 'p preparedPredicate \<Rightarrow> 'p predicateWitness \<Rightarrow> attestQuery \<Rightarrow>
    ('w, ensureResult list) orch" where
  "proveAndRelay E sp anchorHex pr w q =
     bindA (getA (\<lambda>s. env_today E (os_world s))) (\<lambda>now.
     case (pr_threshold pr, numericWitnessValue now (fs_kind (pr_spec pr)) w) of
       (t, actual) \<Rightarrow>
         if (case (t, actual) of (Some th, Some a) \<Rightarrow> a < th | _ \<Rightarrow> False) then
           seqA (emit E (P_skip_unsatisfiable (predicate sp) t actual
             (''credential'' @ [CHR 0x27] @ ''s '' @ fs_attribute (pr_spec pr) @ ''='' @ showInt (the_or 0 actual) @
              '' < required '' @ showInt (the_or 0 t)))) (returnA [])
         else
           bindA (liftA (circuitArgs pr (hexToBytes anchorHex) (currentAgeEpoch now))) (\<lambda>args.
           seqA (checkAbort E abortError)
          (bindA (attestLoop (MAX_ATTEST_ATTEMPTS - 1) E (predicate sp) t (pr_spec pr) w args q) (\<lambda>outcome.
             case outcome of
               Skipped \<Rightarrow> returnA []
             | Settled \<Rightarrow> returnA [resultFor sp t True]
             | Succeeded \<Rightarrow>
                 seqA (emit E (P_attested (predicate sp) (fs_kind (pr_spec pr)))) (returnA [resultFor sp t False])))))"

definition attestPrepared ::
  "('w, 't, 'p) orchEnv \<Rightarrow> credentialJson \<Rightarrow> requiredAttestation list option \<Rightarrow> owlAttestationRef \<Rightarrow> 'p preparedPredicate \<Rightarrow>
    ('w, ensureResult list) orch" where
  "attestPrepared E doc req sp pr =
     seqA (emit E (P_check (predicate sp)))
    (case (OWL_BOUND_CLAIM (fs_kind (pr_spec pr)), cj_owl_root doc) of
       (Some claimName, Some owlRoot) \<Rightarrow>
         (let q = attestQueryFor req sp owlRoot pr; t = pr_threshold pr in
          bindA (isAttestedA E q) (\<lambda>already.
            if already then seqA (emit E (P_already_attested (predicate sp))) (returnA [resultFor sp t True])
            else
              (case fs_witness (pr_spec pr) (cj_attributes doc) of
                 Inl e \<Rightarrow> seqA (emit E (skipUnsat sp t (message e))) (returnA [])
               | Inr w0 \<Rightarrow>
                   (case bindClaim (env_sha E) (env_runtime E) doc claimName (withCountries (pr_countries pr) w0) of
                      Inl e \<Rightarrow> seqA (emit E (skipUnsat sp t (''owl_root binding unavailable: '' @ message e))) (returnA [])
                    | Inr w \<Rightarrow> proveAndRelay E sp owlRoot pr w q))))
     | _ \<Rightarrow> seqA (emit E (skipUnsat sp (pr_threshold pr)
              (''credential predates owl_root binding '' @ emDash @ '' request a fresh credential''))) (returnA []))"

definition attestOne ::
  "('w, 't, 'p) orchEnv \<Rightarrow> credentialJson \<Rightarrow> requiredAttestation list option \<Rightarrow> owlAttestationRef \<Rightarrow>
    ('w, ensureResult list) orch" where
  "attestOne E doc req sp =
     (if \<not> isRequired req sp then returnA []
      else
        bindA (liftA (preparePredicate (env_sha E) (env_runtime E) doc req sp)) (\<lambda>r.
          case r of
            Inl ev \<Rightarrow> seqA (emit E ev) (returnA [])
          | Inr pr \<Rightarrow> attestPrepared E doc req sp pr))"

definition ensureCredentialPredicatesAttested ::
  "('w, 't, 'p) orchEnv \<Rightarrow> string \<Rightarrow> requiredAttestation list option \<Rightarrow> ('w, ensureResult list) orch" where
  "ensureCredentialPredicatesAttested E credJson req =
     bindA (liftA (JSON_parse credJson)) (\<lambda>v.
       let doc = docOfJson v in
       if v = JNull then throwA (TypeError ''Cannot read properties of null'')
       else if cj_predicate_attestations doc = [] then returnA []
       else collectA (attestOne E doc req) (cj_predicate_attestations doc))"

section \<open>What every action keeps\<close>

lemma keeps_case_outcome [keeps_intros]:
  "keeps I a \<Longrightarrow> keeps I b \<Longrightarrow> keeps I c \<Longrightarrow> keeps I (case x of Skipped \<Rightarrow> a | Settled \<Rightarrow> b | Succeeded \<Rightarrow> c)"
  by (cases x) auto

text \<open>
  An invariant on the calls that survives every logged call: a relay is logged with the state of the abort
  signal after the caller's \<open>onProgress\<close> for it ran, in a world where the signal was not set just before.
  Everything the orchestrator does keeps it.
\<close>

locale call_invariant =
  fixes J :: "orchCall list \<Rightarrow> bool" and E :: "('w, 't, 'p) orchEnv"
  assumes log_query: "J cs \<Longrightarrow> J (cs @ [C_isAttested q b])"
    and log_terminal: "J cs \<Longrightarrow> J (cs @ [C_terminal p st])"
    and log_relay: "J cs \<Longrightarrow> \<not> env_aborted E w \<Longrightarrow> J (cs @ [C_relay p (env_aborted E (env_onProgress E (P_relay p k) w))])"
begin

abbreviation I :: "'w orchState \<Rightarrow> bool" where
  "I s \<equiv> J (os_calls s)"

lemma keeps_emit [keeps_intros]: "keeps I (emit E ev)"
  by (simp add: keeps_def emit_def modA_def)

lemma keeps_outside [keeps_intros]: "keeps I (outside m)"
  by (auto simp: keeps_def outside_def split: prod.splits)

lemma keeps_checkAbort [keeps_intros]: "keeps I (checkAbort E e)"
  unfolding checkAbort_def aborted_def by (intro keeps_intros)

lemma keeps_isAttested [keeps_intros]: "keeps I (isAttestedA E q)"
  unfolding isAttestedA_def logCall_def by (intro keeps_intros) (simp add: log_query)

lemma keeps_status [keeps_intros]: "keeps I (statusA E pred kind jobId)"
  by (auto simp: keeps_def statusA_def Let_def intro: log_terminal split: prod.splits option.splits)

lemma keeps_prove [keeps_intros]: "keeps I (proveA E pred spec w args)"
  unfolding proveA_def by (intro keeps_intros)

lemma keeps_guardedRelay [keeps_intros]: "keeps I (guardedRelay E (P_relay p k) k p tx)"
  using log_relay [where p = p and k = k]
  by (auto simp: keeps_def guardedRelay_def checkAbort_def act_defs emit_def relayA_def aborted_def logCall_def outside_def
      split: prod.splits sum.splits)

lemma keeps_attempt:
  assumes "\<And>m. again = Some m \<Longrightarrow> keeps I m"
  shows "keeps I (attemptA E pred t spec w args q again)"
  unfolding attemptA_def relayAndWait_def failedA_def settledA_def
  by (intro keeps_intros) (use assms in \<open>auto split: if_split_asm\<close>)

lemma keeps_attestLoop [keeps_intros]: "keeps I (attestLoop left E pred t spec w args q)"
  by (induction left) (auto intro: keeps_attempt)

lemma keeps_proveAndRelay [keeps_intros]: "keeps I (proveAndRelay E sp anchorHex pr w q)"
  unfolding proveAndRelay_def by (intro keeps_intros)

lemma keeps_attestPrepared [keeps_intros]: "keeps I (attestPrepared E doc req sp pr)"
  unfolding attestPrepared_def Let_def by (intro keeps_intros)

lemma keeps_attestOne [keeps_intros]: "keeps I (attestOne E doc req sp)"
  unfolding attestOne_def by (intro keeps_intros)

lemma keeps_ensure: "keeps I (ensureCredentialPredicatesAttested E credJson req)"
  unfolding ensureCredentialPredicatesAttested_def Let_def by (intro keeps_intros)

end

text \<open>A relay made with the abort signal set was cancelled by the caller's own handler of that relay's progress
  event; and the calls only grow.\<close>

definition relaysLive :: "('w, 't, 'p) orchEnv \<Rightarrow> orchCall list \<Rightarrow> bool" where
  "relaysLive E cs \<longleftrightarrow> (\<forall>p. C_relay p True \<in> set cs \<longrightarrow>
     (\<exists>w k. \<not> env_aborted E w \<and> env_aborted E (env_onProgress E (P_relay p k) w)))"

interpretation live: call_invariant "relaysLive E" E for E
  by unfold_locales (auto simp: relaysLive_def)

interpretation logged: call_invariant "\<lambda>cs. c \<in> set cs" E for c E
  by unfold_locales auto

section \<open>Evidence behind a result\<close>

definition hasCall :: "orchCall \<Rightarrow> 'w orchState \<Rightarrow> bool" where
  "hasCall c s \<longleftrightarrow> c \<in> set (os_calls s)"

lemma keeps_hasCall: "keeps (\<lambda>s. c \<in> set (os_calls s)) m \<Longrightarrow> keeps (hasCall c) m"
  by (simp add: keeps_def hasCall_def)

lemma ensures_isAttested: "ensures (\<lambda>_. True) (isAttestedA E q) (\<lambda>b s. b \<longrightarrow> hasCall (C_isAttested q True) s)"
  by (auto simp: ensures_def isAttestedA_def logCall_def hasCall_def act_defs split: prod.splits sum.splits)

lemma ensures_status:
  "ensures (\<lambda>_. True) (statusA E pred kind jobId)
     (\<lambda>t s. \<forall>ev. t = Some ev \<longrightarrow> hasCall (C_terminal pred (ev_status ev)) s)"
  by (auto simp: ensures_def statusA_def Let_def hasCall_def split: prod.splits option.splits)

fun outcomeEvidence :: "string \<Rightarrow> attestQuery \<Rightarrow> attestOutcome \<Rightarrow> 'w orchState \<Rightarrow> bool" where
  "outcomeEvidence pred q Skipped s = True"
| "outcomeEvidence pred q Settled s = hasCall (C_isAttested q True) s"
| "outcomeEvidence pred q Succeeded s = hasCall (C_terminal pred ''SucceedEntirely'') s"

lemma ensures_settled: "ensures (hasCall (C_isAttested q True)) (settledA E pred) (outcomeEvidence pred q)"
  by (auto simp: ensures_def settledA_def emit_def hasCall_def act_defs)

lemma ensures_checkAbort_call: "ensures (\<lambda>s. \<forall>ev. t = Some ev \<longrightarrow> hasCall (f ev) s) (checkAbort E e)
    (\<lambda>_ s. \<forall>ev. t = Some ev \<longrightarrow> hasCall (f ev) s)"
  by (auto simp: ensures_def checkAbort_def aborted_def act_defs split: if_split_asm)

lemma ensures_failed:
  assumes "\<And>m. again = Some m \<Longrightarrow> ensures (\<lambda>_. True) m (outcomeEvidence pred q)"
  shows "ensures (\<lambda>_. True) (failedA E pred kind q jobId ev again) (outcomeEvidence pred q)"
proof -
  have recheck: "ensures (\<lambda>_. True) (bindA (isAttestedA E q) (\<lambda>present. if present then settledA E pred
         else (case (if ev_status ev = ''FailFallible'' then again else None) of
                 Some m \<Rightarrow> seqA (emit E (P_snapshot pred kind)) m
               | None \<Rightarrow> throwA (Error (failureMessage pred (ev_status ev) jobId (ev_error ev))))))
       (outcomeEvidence pred q)"
  proof (rule ensures_bind [OF ensures_isAttested], rule ensures_if)
    show "ensures (\<lambda>s. present \<longrightarrow> hasCall (C_isAttested q True) s) (settledA E pred) (outcomeEvidence pred q)"
      if present for present
      by (rule ensures_weaken [OF ensures_settled]) (use that in auto)
  next
    show "ensures (\<lambda>s. present \<longrightarrow> hasCall (C_isAttested q True) s)
        (case (if ev_status ev = ''FailFallible'' then again else None) of
           None \<Rightarrow> throwA (Error (failureMessage pred (ev_status ev) jobId (ev_error ev)))
         | Some m \<Rightarrow> seqA (emit E (P_snapshot pred kind)) m)
        (outcomeEvidence pred q)" for present
      by (cases again) (auto intro!: ensures_throw ensures_seq [OF ensures_True] assms)
  qed
  show ?thesis
    unfolding failedA_def
  proof (rule ensures_bind [where R = "\<lambda>b s. b \<longrightarrow> hasCall (C_isAttested q True) s"], goal_cases)
    case 1
    show ?case by (rule ensures_if) (auto intro: ensures_isAttested)
  next
    case (2 replayed)
    show ?case
    proof (rule ensures_if, goal_cases)
      case 1
      then show ?case by (intro ensures_weaken [OF ensures_settled]) auto
    next
      case 2
      show ?case by (rule ensures_weaken [OF recheck]) auto
    qed
  qed
qed

lemma ensures_attempt:
  assumes "\<And>m. again = Some m \<Longrightarrow> ensures (\<lambda>_. True) m (outcomeEvidence pred q)"
  shows "ensures (\<lambda>_. True) (attemptA E pred t spec w args q again) (outcomeEvidence pred q)"
proof -
  have wait: "ensures (\<lambda>_. True) (relayAndWait E pred kind q tx again) (outcomeEvidence pred q)" for kind tx
    unfolding relayAndWait_def
  proof (rule ensures_bind [OF ensures_True], rule ensures_if [OF ensures_throw],
      rule ensures_bind [OF ensures_weaken [OF ensures_status]], assumption, assumption,
      rule ensures_seq [OF ensures_checkAbort_call])
    fix terminal
    show "ensures (\<lambda>s. \<forall>ev. terminal = Some ev \<longrightarrow> hasCall (C_terminal pred (ev_status ev)) s)
        (case terminal of
           None \<Rightarrow> throwA (Error (''on-chain attestation for '' @ squote pred @ '' timed out after '' @
                      showNat ABORT_BUDGET_MS @ ''ms (jobId='' @ jobId @ '')''))
         | Some ev \<Rightarrow> if ev_status ev = ''SucceedEntirely'' then returnA Succeeded
                     else failedA E pred kind q jobId ev again)
        (outcomeEvidence pred q)" for jobId
      by (cases terminal) (auto intro: ensures_weaken [OF ensures_failed [OF assms]])
  qed
  show ?thesis
    unfolding attemptA_def
  proof (rule ensures_seq [OF ensures_True], rule ensures_bind [OF ensures_True])
    show "ensures (\<lambda>_. True) (case proven of None \<Rightarrow> returnA Skipped
        | Some tx \<Rightarrow> relayAndWait E pred (fs_kind spec) q tx again) (outcomeEvidence pred q)" for proven
      by (cases proven) (auto intro: wait)
  qed
qed

lemma ensures_attestLoop:
  "ensures (\<lambda>_. True) (attestLoop left E pred t spec w args q) (outcomeEvidence pred q)"
  by (induction left) (auto intro: ensures_attempt)

text \<open>Why a result may be reported: the chain answered that the predicate's key is attested, or the
  relayed transaction succeeded.\<close>

definition onChain :: "owlAttestationRef \<Rightarrow> string \<Rightarrow> ensureResult \<Rightarrow> 'w orchState \<Rightarrow> bool" where
  "onChain sp owlRoot r s \<longleftrightarrow> er_predicate r = predicate sp \<and>
     (if er_alreadyOnChain r
      then \<exists>q. aq_predicate q = predicate sp \<and> aq_owlRoot q = Some owlRoot \<and> hasCall (C_isAttested q True) s
      else hasCall (C_terminal (predicate sp) ''SucceedEntirely'') s)"

lemma onChain_mono:
  "onChain sp owlRoot r s \<Longrightarrow> (\<And>c. hasCall c s \<Longrightarrow> hasCall c s') \<Longrightarrow> onChain sp owlRoot r s'"
  unfolding onChain_def by (auto split: if_split_asm)

lemma attestQueryFor_fields [simp]:
  "aq_predicate (attestQueryFor req sp owlRoot pr) = predicate sp"
  "aq_owlRoot (attestQueryFor req sp owlRoot pr) = Some owlRoot"
  by (simp_all add: attestQueryFor_def)

lemma ensures_proveAndRelay:
  assumes "aq_predicate q = predicate sp" and "aq_owlRoot q = Some owlRoot"
  shows "ensures (\<lambda>_. True) (proveAndRelay E sp anchor pr w q) (\<lambda>rs s. \<forall>r \<in> set rs. onChain sp owlRoot r s)"
proof -
  have finish: "ensures (outcomeEvidence (predicate sp) q out)
     (case out of Skipped \<Rightarrow> returnA [] | Settled \<Rightarrow> returnA [resultFor sp t True]
      | Succeeded \<Rightarrow> seqA (emit E ev) (returnA [resultFor sp t False]))
     (\<lambda>rs s. \<forall>r \<in> set rs. onChain sp owlRoot r s)" for out t ev
    using assms by (cases out) (auto simp: ensures_def act_defs emit_def onChain_def resultFor_def hasCall_def)
  show ?thesis
    unfolding proveAndRelay_def prod.case
    by (intro ensures_bind [OF ensures_True] ensures_if ensures_seq [OF ensures_True] ensures_return
        ensures_bind [OF ensures_attestLoop] finish) simp
qed

lemma ensures_attestPrepared:
  "ensures (\<lambda>_. True) (attestPrepared E doc req sp pr)
     (\<lambda>rs s. \<forall>r \<in> set rs. \<exists>owlRoot. cj_owl_root doc = Some owlRoot \<and> onChain sp owlRoot r s)"
proof (cases "OWL_BOUND_CLAIM (fs_kind (pr_spec pr))"; cases "cj_owl_root doc")
  fix claimName owlRoot
  assume c: "OWL_BOUND_CLAIM (fs_kind (pr_spec pr)) = Some claimName" and o: "cj_owl_root doc = Some owlRoot"
  let ?q = "attestQueryFor req sp owlRoot pr"
  let ?Q = "\<lambda>rs s. \<forall>r \<in> set rs. onChain sp owlRoot r s"
  have found: "ensures (\<lambda>s. already \<longrightarrow> hasCall (C_isAttested ?q True) s)
      (seqA (emit E ev) (returnA [resultFor sp t True])) ?Q" if already for already ev t
    using that by (auto simp: ensures_def act_defs emit_def onChain_def resultFor_def hasCall_def
        intro!: exI [of _ ?q])
  have skip: "ensures P (seqA (emit E ev) (returnA [])) ?Q" for P ev
    by (intro ensures_seq [OF ensures_True] ensures_return) simp
  have prove: "ensures P (proveAndRelay E sp owlRoot pr w ?q) ?Q" for P w
    by (rule ensures_weaken [OF ensures_proveAndRelay]) auto
  have "ensures (\<lambda>_. True) (attestPrepared E doc req sp pr) ?Q"
    unfolding attestPrepared_def c o prod.case option.case Let_def
    by (intro ensures_seq [OF ensures_True] ensures_bind [OF ensures_isAttested] ensures_if found)
       (auto intro: skip prove split: sum.split)
  then show ?thesis using o by (rule_tac ensures_weaken) auto
qed (auto simp: attestPrepared_def intro!: ensures_seq [OF ensures_True])

lemma ensure_results_on_chain:
  assumes "ensureCredentialPredicatesAttested E credJson req s = (Inr rs, s')" and "JSON_parse credJson = Inr v" and "r \<in> set rs"
  shows "\<exists>sp \<in> set (cj_predicate_attestations (docOfJson v)). isRequired req sp \<and>
    (\<exists>owlRoot. cj_owl_root (docOfJson v) = Some owlRoot \<and> onChain sp owlRoot r s')"
proof -
  define R where "R = (\<lambda>r s. \<exists>sp \<in> set (cj_predicate_attestations (docOfJson v)). isRequired req sp \<and>
    (\<exists>owlRoot. cj_owl_root (docOfJson v) = Some owlRoot \<and> onChain sp owlRoot r (s :: 'a orchState)))"
  have one: "ensures (\<lambda>_. True) (attestOne E (docOfJson v) req sp) (\<lambda>rs s. True \<and> (\<forall>r \<in> set rs. R r s))"
    if "sp \<in> set (cj_predicate_attestations (docOfJson v))" for sp
  proof (cases "isRequired req sp")
    case True
    have "ensures (\<lambda>_. True) (attestPrepared E (docOfJson v) req sp pr) (\<lambda>rs s. \<forall>r \<in> set rs. R r s)" for pr
      by (rule ensures_weaken [OF ensures_attestPrepared]) (use that True in \<open>auto simp: R_def\<close>)
    then show ?thesis
      using True unfolding attestOne_def
      by (auto intro!: ensures_bind [OF ensures_True] ensures_seq [OF ensures_True] ensures_return split: sum.split)
  qed (auto simp: attestOne_def intro!: ensures_return)
  have keep: "keeps (R r) (attestOne E (docOfJson v) req sp)" for r sp
  proof -
    have "hasCall c s \<Longrightarrow> hasCall c (snd (attestOne E (docOfJson v) req sp s))" for c s
      using logged.keeps_attestOne [of c E "docOfJson v" req sp] by (simp add: keeps_def hasCall_def)
    then show ?thesis unfolding keeps_def R_def by (blast intro: onChain_mono)
  qed
  have "collectA (attestOne E (docOfJson v) req) (cj_predicate_attestations (docOfJson v)) s = (Inr rs, s')"
    using assms(1,2)
    by (auto simp: ensureCredentialPredicatesAttested_def act_defs Let_def split: if_split_asm)
  moreover have "ensures (\<lambda>_. True) (collectA (attestOne E (docOfJson v) req) (cj_predicate_attestations (docOfJson v)))
      (\<lambda>rs s. True \<and> (\<forall>r \<in> set rs. R r s))"
    by (rule ensures_collect [OF one keep])
  ultimately have "\<forall>r \<in> set rs. R r s'" by (auto dest: ensuresD)
  then show ?thesis using assms(3) by (simp add: R_def)
qed

text \<open>C11: Every result the orchestrator reports is backed by the chain: it names a stamped predicate the
  caller required, and either the chain answered that this predicate's key under the credential's
  signed \<open>owl_root\<close> is attested, or the relayed attestation of that predicate ended in
  \<open>SucceedEntirely\<close>.\<close>

theorem results_are_on_chain:
  assumes "ensureCredentialPredicatesAttested E credJson req s = (Inr rs, s')" and "JSON_parse credJson = Inr v" and "r \<in> set rs"
  shows "\<exists>sp \<in> set (cj_predicate_attestations (docOfJson v)). isRequired req sp \<and>
    (\<exists>owlRoot. cj_owl_root (docOfJson v) = Some owlRoot \<and> onChain sp owlRoot r s')"
  using assms by (rule ensure_results_on_chain)

text \<open>C12: Once the holder has cancelled, nothing more is written to the chain: whatever the run returns or
  throws, and whenever the signal was set (while proving, between attempts, while a status stream was read), no
  relay was made while the abort signal was set.  The progress handler of the caller runs between the last check and
  the relay, so the statement is for callers whose handler does not itself cancel on the \<open>relay\<close> event.\<close>

theorem no_relay_after_abort:
  assumes "\<And>p k w. \<not> env_aborted E w \<Longrightarrow> \<not> env_aborted E (env_onProgress E (P_relay p k) w)"
    and "\<And>p. C_relay p True \<notin> set (os_calls s)"
  shows "C_relay p True \<notin> set (os_calls (snd (ensureCredentialPredicatesAttested E credJson req s)))"
  using live.keeps_ensure [of E credJson req] assms unfolding keeps_def relaysLive_def by blast

section \<open>The number of relays\<close>

definition relays :: "'w orchState \<Rightarrow> nat" where
  "relays s = length (filter (\<lambda>c. case c of C_relay _ _ \<Rightarrow> True | _ \<Rightarrow> False) (os_calls s))"

text \<open>At most \<open>n\<close> relays, whatever the action returns or throws.\<close>

definition costs :: "nat \<Rightarrow> ('w, 'a) orch \<Rightarrow> bool" where
  "costs n m \<longleftrightarrow> (\<forall>s. relays (snd (m s)) \<le> relays s + n)"

lemma costsD: "costs n m \<Longrightarrow> m s = (r, s') \<Longrightarrow> relays s' \<le> relays s + n"
  unfolding costs_def by (metis snd_conv)

lemma costsI: "(\<And>s r s'. m s = (r, s') \<Longrightarrow> relays s' \<le> relays s + n) \<Longrightarrow> costs n m"
  unfolding costs_def by (metis prod.collapse)

lemma costs_weaken: "costs a m \<Longrightarrow> a \<le> b \<Longrightarrow> costs b m"
  unfolding costs_def by (meson add_left_mono order_trans)

lemma costs_bind:
  assumes "costs a m" and "\<And>x. costs b (f x)"
  shows "costs (a + b) (bindA m f)"
proof (rule costsI)
  fix s r s'
  assume run: "bindA m f s = (r, s')"
  obtain x s1 where m: "m s = (x, s1)" by force
  then have 1: "relays s1 \<le> relays s + a" using costsD [OF assms(1)] by blast
  show "relays s' \<le> relays s + (a + b)"
  proof (cases x)
    case (Inl e)
    then show ?thesis using run m 1 by (simp add: bindA_def)
  next
    case (Inr y)
    then have "f y s1 = (r, s')" using run m by (simp add: bindA_def)
    then show ?thesis using costsD [OF assms(2)] 1 by fastforce
  qed
qed

lemma costs_try:
  assumes "costs a m" and "\<And>e. costs b (h e)"
  shows "costs (a + b) (tryA m h)"
proof (rule costsI)
  fix s r s'
  assume run: "tryA m h s = (r, s')"
  obtain x s1 where m: "m s = (x, s1)" by force
  then have 1: "relays s1 \<le> relays s + a" using costsD [OF assms(1)] by blast
  show "relays s' \<le> relays s + (a + b)"
  proof (cases x)
    case (Inl e)
    then have "h e s1 = (r, s')" using run m by (simp add: tryA_def)
    then show ?thesis using costsD [OF assms(2)] 1 by fastforce
  next
    case (Inr y)
    then show ?thesis using run m 1 by (simp add: tryA_def)
  qed
qed

text \<open>Free actions, and actions that go on with a free or a costly one.\<close>

named_theorems cost_intros \<open>relays of actions\<close>

lemma costs_return [cost_intros]: "costs n (returnA x)" and costs_throw [cost_intros]: "costs n (throwA e)"
  and costs_lift [cost_intros]: "costs n (liftA r)" and costs_get [cost_intros]: "costs n (getA f)"
  by (simp_all add: costs_def act_defs)

lemma costs_emit [cost_intros]: "costs n (emit E ev)"
  by (simp add: costs_def emit_def modA_def relays_def)

lemma costs_outside [cost_intros]: "costs n (outside m)"
  by (auto simp: costs_def outside_def relays_def split: prod.splits)

lemma costs_free: "costs 0 m \<Longrightarrow> (\<And>x. costs n (f x)) \<Longrightarrow> costs n (bindA m f)"
  using costs_bind [of 0 m n f] by simp

lemma costs_free_seq: "costs 0 m \<Longrightarrow> costs n k \<Longrightarrow> costs n (seqA m k)"
  unfolding seqA_def by (rule costs_free)

lemma costs_free_try: "costs 0 m \<Longrightarrow> (\<And>e. costs n (h e)) \<Longrightarrow> costs n (tryA m h)"
  using costs_try [of 0 m n h] by simp

lemma costs_if: "costs n m \<Longrightarrow> costs n k \<Longrightarrow> costs n (if c then m else k)"
  by simp

lemma costs_case_option:
  "(x = None \<Longrightarrow> costs n m) \<Longrightarrow> (\<And>y. x = Some y \<Longrightarrow> costs n (f y)) \<Longrightarrow> costs n (case x of None \<Rightarrow> m | Some y \<Rightarrow> f y)"
  by (cases x) auto

lemma costs_case_sum:
  "(\<And>e. costs n (g e)) \<Longrightarrow> (\<And>y. costs n (f y)) \<Longrightarrow> costs n (case x of Inl e \<Rightarrow> g e | Inr y \<Rightarrow> f y)"
  by (cases x) auto

lemmas cost_flow = costs_free costs_free_seq costs_free_try costs_if costs_case_option costs_case_sum

lemma costs_checkAbort [cost_intros]: "costs n (checkAbort E e)"
  unfolding checkAbort_def aborted_def by (intro cost_intros cost_flow)

lemma costs_isAttested [cost_intros]: "costs n (isAttestedA E q)"
  by (auto simp: costs_def isAttestedA_def logCall_def outside_def relays_def act_defs split: prod.splits sum.splits)

lemma costs_status [cost_intros]: "costs n (statusA E pred kind jobId)"
  by (auto simp: costs_def statusA_def relays_def Let_def split: prod.splits option.splits)

lemma costs_relay: "costs 1 (guardedRelay E ev kind pred tx)"
proof -
  have "costs 1 (relayA E kind pred tx)"
    by (auto simp: costs_def relayA_def aborted_def logCall_def outside_def relays_def act_defs split: prod.splits)
  then show ?thesis unfolding guardedRelay_def by (intro cost_intros cost_flow)
qed

lemma costs_attempt:
  assumes "\<And>m. again = Some m \<Longrightarrow> costs n m"
  shows "costs (Suc n) (attemptA E pred t spec w args q again)"
proof -
  have failed: "costs n (failedA E pred kind q jobId ev again)" for kind jobId ev
    unfolding failedA_def settledA_def
    by (intro cost_flow cost_intros) (use assms in \<open>auto split: if_split_asm\<close>)
  have "costs (1 + n) (relayAndWait E pred kind q tx again)" for kind tx
    unfolding relayAndWait_def by (rule costs_bind [OF costs_relay]) (intro cost_flow cost_intros failed)
  then show ?thesis
    unfolding attemptA_def proveA_def by (intro cost_flow cost_intros) simp_all
qed

lemma costs_attestLoop: "costs (Suc left) (attestLoop left E pred t spec w args q)"
  by (induction left) (auto intro: costs_attempt)

lemma costs_attestOne: "costs (if isRequired req sp then 3 else 0) (attestOne E doc req sp)"
proof -
  have loop: "costs 3 (attestLoop (MAX_ATTEST_ATTEMPTS - 1) E pred t spec w args q)" for pred t spec w args q
    using costs_attestLoop [of 2] by (simp add: MAX_ATTEST_ATTEMPTS_def)
  have go: "costs 3 (bindA (attestLoop (MAX_ATTEST_ATTEMPTS - 1) E pred t spec w args q) f)"
    if "\<And>out. costs 0 (f out)" for pred t spec w args q and f :: "attestOutcome \<Rightarrow> ('a, ensureResult list) orch"
    by (metis add_0_right costs_bind loop that)
  have finish: "costs 0 (case out of Skipped \<Rightarrow> returnA [] | Settled \<Rightarrow> returnA [r] | Succeeded \<Rightarrow> seqA (emit E ev) (returnA [r']))"
    for out and r r' :: ensureResult and ev
    by (cases out) (auto intro!: cost_flow cost_intros)
  have "costs 3 (proveAndRelay E sp anchor pr w q)" for anchor pr w q
    unfolding proveAndRelay_def prod.case
    by (rule costs_free [OF costs_get], rule costs_if, intro cost_flow cost_intros, rule costs_free [OF costs_lift],
        rule costs_free_seq [OF costs_checkAbort], rule go, rule finish)
  then have "costs 3 (attestPrepared E doc req sp pr)" for pr
    unfolding attestPrepared_def Let_def prod.case by (intro cost_flow cost_intros)
  then show ?thesis
    unfolding attestOne_def by (auto intro!: cost_flow cost_intros)
qed

text \<open>C13: Attesting is bounded: a run makes at most three relays per stamped predicate the caller requires
  and none for the others, whatever the transport answers.\<close>

theorem relays_bounded:
  assumes "json_wf v"
  shows "relays (snd (ensureCredentialPredicatesAttested E (stringify v) req s)) \<le>
    relays s + 3 * length (filter (isRequired req) (cj_predicate_attestations (docOfJson v)))"
proof -
  have "costs (3 * length (filter (isRequired req) sps)) (collectA (attestOne E (docOfJson v) req) sps)" for sps
  proof (induction sps)
    case Nil
    show ?case by (simp add: cost_intros)
  next
    case (Cons sp sps)
    have "costs ((if isRequired req sp then 3 else 0) + (3 * length (filter (isRequired req) sps) + 0))
        (collectA (attestOne E (docOfJson v) req) (sp # sps))"
      unfolding collectA.simps by (intro costs_bind costs_attestOne Cons.IH cost_intros)
    then show ?case by (rule costs_weaken) simp
  qed
  then have "costs (3 * length (filter (isRequired req) (cj_predicate_attestations (docOfJson v))))
      (ensureCredentialPredicatesAttested E (stringify v) req)"
    by (auto simp: ensureCredentialPredicatesAttested_def json.dec_enc [OF assms] Let_def costs_def act_defs)
  then show ?thesis by (simp add: costs_def)
qed

section \<open>Retries\<close>

text \<open>The number of times a counted fetch runs.\<close>

definition countedFetch :: "(nat \<Rightarrow> 'a res) \<Rightarrow> (nat \<times> nat list, 'a) act" where
  "countedFetch rs s = (case s of (n, ds) \<Rightarrow> (rs n, (Suc n, ds)))"

definition countedSleep :: "nat \<Rightarrow> (nat \<times> nat list, unit) act" where
  "countedSleep ms s = (case s of (n, ds) \<Rightarrow> (Inr (), (n, ds @ [ms])))"

lemma counted [simp]:
  "countedFetch rs (n, ds) = (rs n, (Suc n, ds))" "countedSleep ms (n, ds) = (Inr (), (n, ds @ [ms]))"
  by (simp_all add: countedFetch_def countedSleep_def)

text \<open>Round \<open>i\<close> is the one that ends the retries: it succeeds, fails for good, or is the last.\<close>

definition endsAt :: "(nat \<Rightarrow> 'a res) \<Rightarrow> nat \<Rightarrow> nat \<Rightarrow> bool" where
  "endsAt rs attempts i \<longleftrightarrow> i < attempts \<and> (\<forall>j < i. \<exists>e. rs j = Inl e \<and> transient e) \<and>
     (i = attempts - 1 \<or> (\<forall>e. rs i = Inl e \<longrightarrow> \<not> transient e))"

lemma retryLoop_runs:
  "k > 0 \<Longrightarrow> endsAt (\<lambda>j. rs (n + j)) k i \<Longrightarrow>
     retryLoop countedSleep b (countedFetch rs) k m e (n, ds) =
       (rs (n + i), (n + Suc i, ds @ map (\<lambda>j. b * 2 ^ (m + j)) [0..<i]))"
proof (induction k arbitrary: n ds m e i)
  case 0
  then show ?case by simp
next
  case (Suc k)
  show ?case
  proof (cases i)
    case 0
    then show ?thesis
      using Suc.prems(2)
      by (cases "rs n") (auto simp: endsAt_def act_defs split: sum.splits)
  next
    case (Suc i')
    obtain e' where e': "rs n = Inl e'" "transient e'" and k: "k > 0"
      using Suc.prems(2) Suc by (auto simp: endsAt_def)
    have "endsAt (\<lambda>j. rs (Suc n + j)) k i'"
      unfolding endsAt_def
    proof (intro conjI allI impI)
      show "i' < k" using Suc.prems(2) Suc by (simp add: endsAt_def)
      show "\<exists>e. rs (Suc n + j) = Inl e \<and> transient e" if "j < i'" for j
        using Suc.prems(2) Suc that unfolding endsAt_def by (metis Suc_mono add_Suc_shift)
      show "i' = k - 1 \<or> (\<forall>e. rs (Suc n + i') = Inl e \<longrightarrow> \<not> transient e)"
        using Suc.prems(2) Suc k unfolding endsAt_def by auto
    qed
    then have IH: "retryLoop countedSleep b (countedFetch rs) k (Suc m) e' (Suc n, ds @ [b * 2 ^ m]) =
        (rs (Suc n + i'), (Suc n + Suc i', (ds @ [b * 2 ^ m]) @ map (\<lambda>j. b * 2 ^ (Suc m + j)) [0..<i']))"
      by (rule Suc.IH [OF k])
    have "map (\<lambda>j. b * 2 ^ (m + j)) [0..<Suc i'] = b * 2 ^ m # map (\<lambda>j. b * 2 ^ (Suc m + j)) [0..<i']"
      by (simp add: upt_conv_Cons map_Suc_upt [symmetric] del: upt_Suc)
    then show ?thesis
      using IH e' k Suc by (simp add: act_defs)
  qed
qed

text \<open>\<open>retryFetch\<close> retries only transient network failures and backs off exponentially: it returns the
  outcome of the first round that succeeds, fails for another reason or is the last allowed one, has
  fetched exactly once per round, and has slept \<open>baseMs * 2 ^ i\<close> after each earlier round \<open>i\<close>.\<close>

theorem retryFetch_backs_off:
  assumes "endsAt rs attempts i"
  shows "retryFetch countedSleep (countedFetch rs) attempts baseMs (0, []) =
    (rs i, (Suc i, map (\<lambda>j. baseMs * 2 ^ j) [0..<i]))"
proof -
  have "attempts > 0" using assms by (simp add: endsAt_def)
  then show ?thesis
    using retryLoop_runs [of attempts rs 0 i baseMs 0 "Error ''undefined''" "[]"] assms by (simp add: retryFetch_def)
qed

section \<open>Holder and verifier derive the same scope\<close>

lemma orchCanonicalise_eq: "orchCanonicaliseCountries codes = canonicaliseCountries codes"
proof -
  have "foldl (\<lambda>seen raw. let c = toUpperCase (trim raw) in if alpha2Shape c then setAdd seen c else seen) acc codes
      = foldl setAdd acc (filter alpha2Shape (map (\<lambda>raw. toUpperCase (trim raw)) codes))" for acc
    by (induction codes arbitrary: acc) (auto simp: Let_def)
  then show ?thesis by (simp add: orchCanonicaliseCountries_def canonicaliseCountries_def setOf_def)
qed

lemma bufSet_64:
  assumes "length a = 32" and "length b = 32"
  shows "bindR (bufSet a 0 (zeros 64)) (\<lambda>x. bindR (bufSet b 32 x) (\<lambda>y. Inr (f y))) = Inr (f (a @ b))"
proof -
  have "drop 32 (zeros 64) = zeros 32" by (simp add: zeros_def)
  then show ?thesis using assms by (simp add: bufSet_def)
qed

lemma hexToBytes_slices:
  "length s = 2 * n \<Longrightarrow> map (\<lambda>i. u8 (parseInt16 (take 2 (drop (2 * i) s)))) [0..<n] = hexToBytes s"
proof (induction n arbitrary: s)
  case 0
  then show ?case by simp
next
  case (Suc n)
  then obtain a b r where s: "s = a # b # r" and r: "length r = 2 * n"
    by (cases s; cases "tl s") auto
  have "map (\<lambda>i. u8 (parseInt16 (take 2 (drop (2 * i) s)))) [0..<Suc n]
      = u8 (parseInt16 [a, b]) # map (\<lambda>i. u8 (parseInt16 (take 2 (drop (2 * i) r)))) [0..<n]"
    by (simp add: upt_conv_Cons map_Suc_upt [symmetric] s numeral_2_eq_2 del: upt_Suc)
  then show ?case using Suc.IH [OF r] s by simp
qed

lemma hexToBytes32_plain: "\<not> startsWith h ''0x'' \<Longrightarrow> hexToBytes32 h = Inr b \<Longrightarrow> hexToBytes h = b"
  using hexToBytes_slices [of h 32] by (auto simp: hexToBytes32_def Let_def split: if_split_asm)

text \<open>Holder and verifier derive the same on-chain scope: for every country list the orchestrator's set
  hash over its canonical list is the verifier's \<open>allowedCountrySetHash\<close> (or the same error), and for
  a 32-byte hex campaign id without the \<open>0x\<close> prefix the effective application id is the one inside
  \<open>uniquePersonhoodKey\<close>.\<close>

theorem scopes_agree:
  assumes "sha_32 sha"
  shows "computeSetHash sha R (computeVerifierIdHash sha vid) (orchCanonicaliseCountries cs) =
      allowedCountrySetHash sha R vid cs \<and>
    (\<forall>b. hexToBytes32 app = Inr b \<and> \<not> startsWith app ''0x'' \<longrightarrow>
      personhoodAppId sha vid (hexToBytes app) = Inr (sha256 sha [sha256 sha [utf8Bytes vid], b]))"
proof (intro conjI allI impI)
  have len: "length (sha x) = 32" for x using assms by (simp add: sha_32_def)
  have root: "treeRootBytesLE R t = Inr b \<Longrightarrow> length b = 32" for t b by (rule treeRootBytesLE_length)
  have tail: "bindR (treeRootBytesLE R t) (\<lambda>rb. bindR (bufSet (sha x) 0 (zeros 64)) (\<lambda>o1. bindR (bufSet rb 32 o1) (\<lambda>o2. Inr (sha o2))))
      = bindR (treeRootBytesLE R t) (\<lambda>rb. Inr (sha (sha x @ rb)))" for t x
    by (cases "treeRootBytesLE R t") (simp_all add: bufSet_64 [OF len root])
  show "computeSetHash sha R (computeVerifierIdHash sha vid) (orchCanonicaliseCountries cs) =
      allowedCountrySetHash sha R vid cs"
    by (simp add: computeSetHash_def allowedCountrySetHash_def orchCanonicalise_eq buildAllowedSetTree_def
        canonicalise_idem buildCanonicalTree_def computeVerifierIdHash_def verifierIdHash_def sha256_def tail)
next
  fix b
  assume h: "hexToBytes32 app = Inr b \<and> \<not> startsWith app ''0x''"
  then have "hexToBytes app = b" and "length b = 32" using hexToBytes32_plain hexToBytes32_length by blast+
  then show "personhoodAppId sha vid (hexToBytes app) = Inr (sha256 sha [sha256 sha [utf8Bytes vid], b])"
    using assms by (simp add: personhoodAppId_def computeVerifierIdHash_def sha256_def bufSet_64 sha_32_def)
qed

section \<open>Witnesses\<close>

text \<open>A chain on which everything is attested already, and a credential stamped with one predicate.\<close>

definition exEnv :: "(unit, bytes list, bytes \<times> bytes) orchEnv" where
  "exEnv = \<lparr>env_sha = exSha, env_runtime = exRuntime, env_isAttested = (\<lambda>q. returnA True),
     env_snapshot = (\<lambda>k. throwA (Error ''no snapshot'')), env_relay = (\<lambda>k tx. returnA ''job''),
     env_statusEvents = (\<lambda>j w. (([], None), w)), env_prove = (\<lambda>p. returnA []), env_aborted = (\<lambda>w. False),
     env_onProgress = (\<lambda>ev w. w),
     env_today = (\<lambda>w. (2025, 6, 20)), env_provingMode = (\<lambda>w. Wasm)\<rparr>"

definition exDoc :: json where
  "exDoc = JObj [(''root_hash'', JStr ''00''), (''owl_root'', JStr ''ab''),
     (''attributes'', JObj [(''emailVerified'', JBool True)]),
     (''predicate_attestations'', JArr [JObj [(''predicate'', JStr ''email_verified'')]])]"

definition exState :: "unit orchState" where
  "exState = \<lparr>os_world = (), os_progress = [], os_calls = []\<rparr>"

lemma exDoc_wf: "json_wf exDoc"
  by (simp add: exDoc_def)

lemma exDoc_stamped:
  "cj_predicate_attestations (docOfJson exDoc) =
     [\<lparr>predicate = ''email_verified'', threshold = None, min_age = None, max_age = None, epoch = None, app_id = None,
       country = None\<rparr>]"
  by (simp add: exDoc_def docOfJson_def refOfJson_def the_or_def)

lemma exRun:
  "\<exists>s'. ensureCredentialPredicatesAttested exEnv (stringify exDoc) None exState =
     (Inr [\<lparr>er_predicate = ''email_verified'', er_threshold = None, er_alreadyOnChain = True\<rparr>], s')"
proof -
  have "preparePredicate exSha exRuntime (docOfJson exDoc) None (hd (cj_predicate_attestations (docOfJson exDoc))) =
      Inr (Inr \<lparr>pr_spec = the (map_of FAMILIES ''email_verified''), pr_threshold = None, pr_minAge = None,
        pr_maxAge = None, pr_scope = None, pr_countries = None\<rparr>)"
    unfolding exDoc_stamped
    by (simp add: preparePredicate_def exDoc_def docOfJson_def FAMILIES_def bindSkip_def presentationBounds_def)
  moreover have "exDoc \<noteq> JNull" by (simp add: exDoc_def)
  moreover have "cj_owl_root (docOfJson exDoc) = Some ''ab''" by (simp add: exDoc_def docOfJson_def)
  ultimately show ?thesis
    using json.dec_enc [OF exDoc_wf]
    by (simp add: ensureCredentialPredicatesAttested_def exDoc_stamped act_defs Let_def attestOne_def isRequired_def
        exEnv_def attestPrepared_def FAMILIES_def isAttestedA_def outside_def logCall_def emit_def resultFor_def)
qed

theorem results_are_on_chain_witness:
  "\<exists>s' r. isRequired None (hd (cj_predicate_attestations (docOfJson exDoc))) \<and>
     onChain (hd (cj_predicate_attestations (docOfJson exDoc))) ''ab'' r (s' :: unit orchState)"
proof -
  obtain s' where run: "ensureCredentialPredicatesAttested exEnv (stringify exDoc) None exState =
     (Inr [\<lparr>er_predicate = ''email_verified'', er_threshold = None, er_alreadyOnChain = True\<rparr>], s')"
    using exRun by blast
  have "cj_owl_root (docOfJson exDoc) = Some ''ab''" by (simp add: exDoc_def docOfJson_def)
  then show ?thesis
    using results_are_on_chain [OF run json.dec_enc [OF exDoc_wf], of "\<lparr>er_predicate = ''email_verified'', er_threshold = None,
      er_alreadyOnChain = True\<rparr>"]
    by (auto simp: exDoc_stamped)
qed

text \<open>A holder who cancels while the second proof is computed: the first attempt was relayed and failed because the
  contract's state had moved.  The world counts the proofs.\<close>

definition exCancel :: "(nat, bytes list, bytes \<times> bytes) orchEnv" where
  "exCancel = \<lparr>env_sha = exSha, env_runtime = exRuntime, env_isAttested = (\<lambda>q. returnA False),
     env_snapshot = (\<lambda>k. returnA \<lparr>sn_address = [], sn_zswapChainState = [], sn_contractState = [], sn_ledgerParameters = []\<rparr>),
     env_relay = (\<lambda>k tx. returnA ''job''),
     env_statusEvents = (\<lambda>j w. (([\<lparr>ev_status = ''FailFallible'', ev_error = None\<rparr>], None), w)),
     env_prove = (\<lambda>p w. (Inr [], Suc w)), env_aborted = (\<lambda>w. w = 2), env_onProgress = (\<lambda>ev w. w),
     env_today = (\<lambda>w. (2025, 6, 20)), env_provingMode = (\<lambda>w. Wasm)\<rparr>"

definition exMail :: json where
  "exMail = JObj [(''root_hash'', JStr ''00''), (''owl_root'', JStr ''ab''),
     (''claim_disclosures'', JArr [JObj [(''name'', JStr ''email_verified''), (''value'', JBool True), (''salt'', JStr ''s'')]]),
     (''attributes'', JObj [(''emailVerified'', JBool True)]),
     (''predicate_attestations'', JArr [JObj [(''predicate'', JStr ''email_verified'')]])]"

lemma exMail_doc:
  "json_wf exMail" "exMail \<noteq> JNull" "cj_owl_root (docOfJson exMail) = Some ''ab''"
  "cj_attributes (docOfJson exMail) = [(''emailVerified'', JBool True)]"
  "cj_claim_disclosures (docOfJson exMail) = [\<lparr>cd_name = ''email_verified'', cd_value = JBool True, cd_salt = ''s''\<rparr>]"
  "cj_predicate_attestations (docOfJson exMail) =
     [\<lparr>predicate = ''email_verified'', threshold = None, min_age = None, max_age = None, epoch = None, app_id = None,
       country = None\<rparr>]"
  by (simp_all add: exMail_def docOfJson_def refOfJson_def disclosureOfJson_def the_or_def)

lemma exMail_binds:
  "\<exists>w. bindClaim exSha exRuntime (docOfJson exMail) ''email_verified'' w0 = Inr w \<and> emailVerifiedFlag w = emailVerifiedFlag w0
     \<and> claimSalt w \<noteq> None \<and> claimPath w \<noteq> None"
proof -
  let ?c = "\<lparr>cd_name = ''email_verified'', cd_value = JBool True, cd_salt = ''s''\<rparr>"
  have "cd_name ?c = ''email_verified'' \<and> commitment exSha ?c \<noteq> None"
    by (simp add: commitment_def claimValue32_def)
  then obtain built where b: "buildOwlRootTree exSha exRuntime [?c] = Inr built" "isInr (findClaimPath exRuntime built ''email_verified'')"
    using claim_path_opens [OF exRuntime_paths_fold exSha_32, of "[?c]" "''email_verified''"] by auto
  then show ?thesis by (auto simp: bindClaim_def exMail_doc isInr_ex)
qed

lemma exMail_run:
  "\<exists>s'. ensureCredentialPredicatesAttested exCancel (stringify exMail) None \<lparr>os_world = 0, os_progress = [], os_calls = []\<rparr>
     = (Inl abortError, s') \<and> os_world s' = 2 \<and> C_relay ''email_verified'' False \<in> set (os_calls s')"
proof -
  let ?sp = "\<lparr>predicate = ''email_verified'', threshold = None, min_age = None, max_age = None, epoch = None, app_id = None,
       country = None\<rparr>"
  define spec :: "(bytes \<times> bytes) familySpec" where "spec = the (map_of FAMILIES ''email_verified'')"
  have spec: "fs_kind spec = K_email" "fs_attribute spec = ''emailVerified''"
      "fs_witness spec [(''emailVerified'', JBool True)] = Inr (noWitness\<lparr>emailVerifiedFlag := Some 1\<rparr>)"
    by (simp_all add: spec_def FAMILIES_def emailVerifiedToNumber_def)
  define pr where "pr = \<lparr>pr_spec = spec, pr_threshold = None, pr_minAge = None, pr_maxAge = None, pr_scope = None, pr_countries = None\<rparr>"
  have pr: "preparePredicate exSha exRuntime (docOfJson exMail) None ?sp = Inr (Inr pr)"
    by (simp add: preparePredicate_def exMail_doc FAMILIES_def bindSkip_def presentationBounds_def pr_def spec_def)
  obtain w where w: "bindClaim exSha exRuntime (docOfJson exMail) ''email_verified'' (noWitness\<lparr>emailVerifiedFlag := Some 1\<rparr>) = Inr w"
      "emailVerifiedFlag w = Some 1" "claimSalt w \<noteq> None" "claimPath w \<noteq> None"
    using exMail_binds [of "noWitness\<lparr>emailVerifiedFlag := Some 1\<rparr>"] by auto
  then obtain ws where ws: "witnessesFor exRuntime K_email w = Inr ws"
    by simp
  show ?thesis
    using json.dec_enc [OF exMail_doc(1)] exMail_doc pr w spec ws
    by (simp add: ensureCredentialPredicatesAttested_def act_defs Let_def attestOne_def isRequired_def
        attestPrepared_def isAttestedA_def outside_def logCall_def emit_def resultFor_def exCancel_def pr_def withCountries_def
        proveAndRelay_def circuitArgs_def checkAbort_def aborted_def MAX_ATTEST_ATTEMPTS_def numeral_2_eq_2 attemptA_def proveA_def
        relayAndWait_def guardedRelay_def relayA_def statusA_def failedA_def IN_FLIGHT_def)
qed

theorem no_relay_after_abort_witness:
  "\<exists>s'. ensureCredentialPredicatesAttested exCancel (stringify exMail) None \<lparr>os_world = 0, os_progress = [], os_calls = []\<rparr>
     = (Inl abortError, s') \<and> env_aborted exCancel (os_world s') \<and> C_relay ''email_verified'' False \<in> set (os_calls s') \<and>
     C_relay ''email_verified'' True \<notin> set (os_calls s')"
proof -
  let ?s = "\<lparr>os_world = 0, os_progress = [], os_calls = []\<rparr>"
  have "C_relay ''email_verified'' True \<notin> set (os_calls (snd (ensureCredentialPredicatesAttested exCancel (stringify exMail) None ?s)))"
    by (rule no_relay_after_abort) (simp_all add: exCancel_def)
  then show ?thesis using exMail_run by (auto simp: exCancel_def)
qed

theorem relays_bounded_witness:
  "relays (snd (ensureCredentialPredicatesAttested exEnv (stringify exDoc) None exState)) \<le> 3"
  using relays_bounded [OF exDoc_wf, of exEnv None exState]
  by (simp add: exDoc_stamped isRequired_def exState_def relays_def)

definition exFetches :: "nat \<Rightarrow> int res" where
  "exFetches n = (if n < 2 then Inl (TypeError ''Failed to fetch'') else Inr 7)"

theorem retryFetch_backs_off_witness:
  "retryFetch countedSleep (countedFetch exFetches) 3 250 (0, []) = (Inr 7, (3, [250, 500]))"
proof -
  have "transient (TypeError ''Failed to fetch'')" by code_simp
  then have "endsAt exFetches 3 2" by (simp add: endsAt_def exFetches_def)
  from retryFetch_backs_off [OF this, of 250] show ?thesis by (simp add: exFetches_def upt_rec)
qed

theorem scopes_agree_witness:
  "computeSetHash exSha exRuntime (computeVerifierIdHash exSha ''v'') (orchCanonicaliseCountries [''nl'', ''DE'']) =
     allowedCountrySetHash exSha exRuntime ''v'' [''nl'', ''DE'']"
  using scopes_agree [OF exSha_32, of exRuntime "''v''" "[''nl'', ''DE'']" "[]"] by blast

end
