(* ===== verification/Wallet.thy ===== *)
theory Wallet
  imports Wallet_Storage Sd_Jwt Orchestrator
begin

text \<open>
  \<open>wallet.ts\<close>: the DCQL matcher, the choice of credentials and the presentation of \<open>OwlWallet\<close>, over the
  storage manager, the SD-JWT code and the orchestrator.  The passkey ceremony (\<open>openHolderKey\<close>,
  \<open>passkeyResolver\<close>), the clock and the revocation service are parameters of \<open>walletEnv\<close>.
\<close>

section \<open>Reading the stamped attestations\<close>

definition alpha2OrUndefined :: "countryData \<Rightarrow> json option \<Rightarrow> string option" where
  "alpha2OrUndefined cd v = (case v of Some (JStr s) \<Rightarrow> toAlpha2 cd s | _ \<Rightarrow> None)"

text \<open>\<open>a ?? b\<close> on attributes.\<close>

definition nullish :: "json option \<Rightarrow> json option \<Rightarrow> json option" where
  "nullish a b = (if a = None \<or> a = Some JNull then b else a)"

definition withCountry :: "json \<Rightarrow> string \<Rightarrow> json" where
  "withCountry r c = (case r of JObj kvs \<Rightarrow> JObj (putField ''country'' (JStr c) kvs) | _ \<Rightarrow> r)"

definition backfillRef :: "string option \<Rightarrow> string option \<Rightarrow> json \<Rightarrow> json res" where
  "backfillRef nationalityAlpha2 residentAlpha2 r =
     (if r = JNull then Inl (TypeError ''Cannot read properties of null'')
      else if \<not> falsy (getField ''country'' r) then Inr r
      else if getField ''predicate'' r = Some (JStr ''nationality'') \<and> truthy nationalityAlpha2 then
        Inr (withCountry r (the nationalityAlpha2))
      else if getField ''predicate'' r = Some (JStr ''residency'') \<and> truthy residentAlpha2 then
        Inr (withCountry r (the residentAlpha2))
      else Inr r)"

definition claimCountries :: "countryData \<Rightarrow> verifiedClaims \<Rightarrow> string option \<times> string option" where
  "claimCountries cd claims =
     (alpha2OrUndefined cd (map_of claims ''nationality''),
      alpha2OrUndefined cd (nullish (map_of claims ''residentCountry'') (map_of claims ''country'')))"

definition rawAttestations :: "countryData \<Rightarrow> walletCredential \<Rightarrow> sdJwtVc \<Rightarrow> json list res" where
  "rawAttestations cd cred parsed =
     bindR (disclosedClaim parsed ''owl_attestation'') (\<lambda>raw.
       case asArr raw of
         None \<Rightarrow> Inr []
       | Some refs \<Rightarrow>
           (let (nat, res) = claimCountries cd (wc_verifiedClaims cred) in mapR (backfillRef nat res) refs))"

definition readOwlAttestations :: "countryData \<Rightarrow> walletCredential \<Rightarrow> owlAttestationRef list res" where
  "readOwlAttestations cd cred =
     (case SdJwtVc_parse (wc_sdJwtVc cred) of
        Inl _ \<Rightarrow> Inr []
      | Inr parsed \<Rightarrow> bindR (rawAttestations cd cred parsed) (\<lambda>refs. Inr (map refOfJson refs)))"

section \<open>The matcher\<close>

fun owlPredicateCovered :: "owlAttestationRef list \<Rightarrow> owlPredicate \<Rightarrow> bool" where
  "owlPredicateCovered refs (Age_gte _) = list_ex (\<lambda>r. predicate r = ''age'') refs"
| "owlPredicateCovered refs (Age_range _ _) = list_ex (\<lambda>r. predicate r = ''age_range'') refs"
| "owlPredicateCovered refs (Kyc_gte t) = list_ex (\<lambda>r. predicate r = ''kyc'' \<and> threshold r = Some t) refs"
| "owlPredicateCovered refs (Nationality_in cs) =
     list_ex (\<lambda>r. predicate r = ''nationality'' \<and>
       (case country r of None \<Rightarrow> False | Some c \<Rightarrow> toUpperCase c \<in> set (map toUpperCase cs))) refs"
| "owlPredicateCovered refs (Residency_in cs) =
     list_ex (\<lambda>r. predicate r = ''residency'' \<and>
       (case country r of None \<Rightarrow> False | Some c \<Rightarrow> toUpperCase c \<in> set (map toUpperCase cs))) refs"
| "owlPredicateCovered refs Email_verified = list_ex (\<lambda>r. predicate r = ''email_verified'') refs"
| "owlPredicateCovered refs (Unique_personhood _ _) = list_ex (\<lambda>r. predicate r = ''unique_personhood'') refs"

text \<open>The loop over the claims of a query without the \<open>owl_predicate\<close> extension.\<close>

fun legacyClaimsCovered :: "countryData \<Rightarrow> owlAttestationRef list \<Rightarrow> dcqlClaim list \<Rightarrow> bool" where
  "legacyClaimsCovered cd refs [] = True"
| "legacyClaimsCovered cd refs (claim # claims) =
     (case path claim of
        [] \<Rightarrow> legacyClaimsCovered cd refs claims
      | path0 # _ \<Rightarrow>
          (case routeClaim cd path0 (the_or [] (vals claim)) of
             None \<Rightarrow> False
           | Some routed \<Rightarrow>
               if \<not> attestationCovers refs routed then False else legacyClaimsCovered cd refs claims))"

definition credentialSatisfies :: "countryData \<Rightarrow> walletCredential \<Rightarrow> dcqlCredentialQuery \<Rightarrow> bool res" where
  "credentialSatisfies cd cred query =
     (if q_format query \<noteq> ''dc+sd-jwt'' then Inr False
      else bindR (readOwlAttestations cd cred) (\<lambda>refs.
        case readOwlPredicate query of
          Some ext \<Rightarrow> Inr (owlPredicateCovered refs ext)
        | None \<Rightarrow> Inr (legacyClaimsCovered cd refs (the_or [] (q_claims query)))))"

definition disclosuresForQuery :: "dcqlCredentialQuery \<Rightarrow> string list" where
  "disclosuresForQuery query = []"

record dcqlMatchEntry =
  me_dcqlId :: string
  me_candidates :: "walletCredential list"
  me_disclosures :: "string list"

record dcqlMatchSummary =
  ms_entries :: "dcqlMatchEntry list"
  ms_satisfiable :: bool
  ms_reason :: "string option"

text \<open>\<open>xs.filter(p)\<close> with a predicate that may throw.\<close>

fun filterR :: "('a \<Rightarrow> bool res) \<Rightarrow> 'a list \<Rightarrow> 'a list res" where
  "filterR p [] = Inr []"
| "filterR p (x # xs) = bindR (p x) (\<lambda>b. bindR (filterR p xs) (\<lambda>ys. Inr (if b then x # ys else ys)))"

fun firstUnsatisfied :: "dcqlCredentialQuery list \<Rightarrow> string list \<Rightarrow> string option" where
  "firstUnsatisfied [] satisfied = None"
| "firstUnsatisfied (cq # cqs) satisfied =
     (if q_id cq \<notin> set satisfied then Some (''DCQL credential '' @ q_id cq @ '' unsatisfied'')
      else firstUnsatisfied cqs satisfied)"

definition rowOk :: "string list \<Rightarrow> string list \<Rightarrow> bool" where
  "rowOk satisfied row = list_all (\<lambda>i. i \<in> set satisfied) row"

fun firstFailedSet :: "dcqlCredentialSet list \<Rightarrow> string list \<Rightarrow> string option" where
  "firstFailedSet [] satisfied = None"
| "firstFailedSet (cset # sets) satisfied =
     (if the_or True (required cset) \<and> \<not> list_ex (rowOk satisfied) (options cset) then
        Some (''DCQL credential_set unsatisfied: '' @ stringify (JArr (map (\<lambda>row. JArr (map JStr row)) (options cset))))
      else firstFailedSet sets satisfied)"

text \<open>\<open>None\<close>: satisfiable; \<open>Some reason\<close> otherwise.\<close>

definition checkCredentialSets :: "dcqlRequest \<Rightarrow> string list \<Rightarrow> string option" where
  "checkCredentialSets query satisfied =
     (case credentialSets query of
        None \<Rightarrow> firstUnsatisfied (credentials query) satisfied
      | Some sets \<Rightarrow> firstFailedSet sets satisfied)"

definition matchEntry :: "countryData \<Rightarrow> walletCredential list \<Rightarrow> dcqlCredentialQuery \<Rightarrow> dcqlMatchEntry res" where
  "matchEntry cd creds cq =
     bindR (filterR (\<lambda>c. credentialSatisfies cd c cq) creds) (\<lambda>candidates.
       Inr \<lparr>me_dcqlId = q_id cq, me_candidates = candidates, me_disclosures = disclosuresForQuery cq\<rparr>)"

definition matchDcqlAgainst :: "countryData \<Rightarrow> walletCredential list \<Rightarrow> dcqlRequest \<Rightarrow> dcqlMatchSummary res" where
  "matchDcqlAgainst cd creds query =
     bindR (mapR (matchEntry cd creds) (credentials query)) (\<lambda>entries.
       let satisfiedIds = setOf (map me_dcqlId (filter (\<lambda>e. me_candidates e \<noteq> []) entries));
           failure = checkCredentialSets query satisfiedIds
       in Inr \<lparr>ms_entries = entries, ms_satisfiable = (failure = None), ms_reason = failure\<rparr>)"

section \<open>The choice of credentials\<close>

record chosenCredential =
  ch_dcqlId :: string
  ch_credential :: walletCredential
  ch_disclosures :: "string list"

definition rowAvailable :: "dcqlMatchSummary \<Rightarrow> string list \<Rightarrow> bool" where
  "rowAvailable summary row =
     list_all (\<lambda>i. list_ex (\<lambda>e. me_dcqlId e = i \<and> me_candidates e \<noteq> []) (ms_entries summary)) row"

definition idsNeeded :: "dcqlMatchSummary \<Rightarrow> dcqlRequest \<Rightarrow> string list" where
  "idsNeeded summary query =
     (case credentialSets query of
        Some sets \<Rightarrow> setOf (concat (map (\<lambda>s. the_or [] (find (rowAvailable summary) (options s))) sets))
      | None \<Rightarrow> map q_id (credentials query))"

definition newestFirst :: "countryData \<Rightarrow> walletCredential list \<Rightarrow> walletCredential list" where
  "newestFirst cd cs = sortBy (\<lambda>a b. localeLe cd (wc_issuedAt b) (wc_issuedAt a)) cs"

definition chooseOne ::
  "countryData \<Rightarrow> dcqlMatchSummary \<Rightarrow> (string \<times> string) list \<Rightarrow> string \<Rightarrow> chosenCredential res" where
  "chooseOne cd summary overrides i =
     (case find (\<lambda>e. me_dcqlId e = i) (ms_entries summary) of
        None \<Rightarrow> Inl (Error (''DCQL id '' @ i @ '' has no candidate (set solver bug?)''))
      | Some entry \<Rightarrow>
          if me_candidates entry = [] then Inl (Error (''DCQL id '' @ i @ '' has no candidate (set solver bug?)''))
          else
            (let explicit = (if truthy (map_of overrides i)
                             then find (\<lambda>c. wc_credentialId c = the (map_of overrides i)) (me_candidates entry)
                             else None)
             in Inr \<lparr>ch_dcqlId = i,
                     ch_credential = (case explicit of Some c \<Rightarrow> c | None \<Rightarrow> hd (newestFirst cd (me_candidates entry))),
                     ch_disclosures = me_disclosures entry\<rparr>))"

definition chooseAcrossSets ::
  "countryData \<Rightarrow> dcqlMatchSummary \<Rightarrow> dcqlRequest \<Rightarrow> (string \<times> string) list \<Rightarrow> chosenCredential list res" where
  "chooseAcrossSets cd summary query overrides = mapR (chooseOne cd summary overrides) (idsNeeded summary query)"

section \<open>The orchestrator's view of a credential\<close>

definition rawDisclosureJson :: "rawDisclosure \<Rightarrow> json" where
  "rawDisclosureJson d = JObj ((''name'', JStr (rd_name d)) # optField ''value'' id (rd_value d) @ [(''salt'', JStr (rd_salt d))])"

definition putOpt :: "string \<Rightarrow> string option \<Rightarrow> (string \<times> json) list \<Rightarrow> (string \<times> json) list" where
  "putOpt k v kvs = (if truthy v then putField k (JStr (the v)) kvs else kvs)"

definition walletCredentialToProofJson :: "noble \<Rightarrow> countryData \<Rightarrow> walletCredential \<Rightarrow> string res" where
  "walletCredentialToProofJson cr cd cred =
     (case SdJwtVc_parse (wc_sdJwtVc cred) of
        Inl e \<Rightarrow> Inl (Error (''Unparseable SD-JWT VC for '' @ wc_credentialId cred @ '': Error: '' @ message e))
      | Inr parsed \<Rightarrow>
          bindR (rawAttestations cd cred parsed) (\<lambda>refs.
            let (nat, res) = claimCountries cd (wc_verifiedClaims cred);
                attrs = putOpt ''residentCountry'' res (putOpt ''nationality'' nat (wc_verifiedClaims cred))
            in bindR (owlRootHex parsed) (\<lambda>owlRoot.
               bindR (disclosuresRaw parsed) (\<lambda>ds.
                 Inr (stringify (JObj
                   [(''root_hash'', JStr (credentialIdHex cr parsed)),
                    (''owl_root'', (case owlRoot of None \<Rightarrow> JNull | Some r \<Rightarrow> JStr r)),
                    (''claim_disclosures'', JArr (map rawDisclosureJson ds)),
                    (''attributes'', JObj attrs),
                    (''predicate_attestations'', JArr refs)]))))))"

section \<open>What the verifier requires\<close>

definition noParams :: "string \<Rightarrow> requiredAttestation" where
  "noParams p = \<lparr>rq_predicate = p, rq_threshold = None, rq_minAge = None, rq_maxAge = None, rq_epoch = None,
     rq_appId = None, rq_countries = None, rq_verifierId = None\<rparr>"

definition requiredAttestationsFor :: "dcqlCredentialQuery \<Rightarrow> string option \<Rightarrow> requiredAttestation list" where
  "requiredAttestationsFor query verifierId =
     (case readOwlPredicate query of
        None \<Rightarrow> []
      | Some ext \<Rightarrow>
          (case ext of
             Age_gte t \<Rightarrow> [(noParams ''age'')\<lparr>rq_threshold := Some t\<rparr>]
           | Age_range lo hi \<Rightarrow> [(noParams ''age_range'')\<lparr>rq_minAge := Some lo, rq_maxAge := Some hi\<rparr>]
           | Kyc_gte t \<Rightarrow> [(noParams ''kyc'')\<lparr>rq_threshold := Some t\<rparr>]
           | Nationality_in cs \<Rightarrow> [(noParams ''nationality'')\<lparr>rq_countries := Some cs, rq_verifierId := verifierId\<rparr>]
           | Residency_in cs \<Rightarrow> [(noParams ''residency'')\<lparr>rq_countries := Some cs, rq_verifierId := verifierId\<rparr>]
           | Email_verified \<Rightarrow> [noParams ''email_verified'']
           | Unique_personhood e a \<Rightarrow>
               [(noParams ''unique_personhood'')\<lparr>rq_epoch := Some e, rq_appId := Some a, rq_verifierId := verifierId\<rparr>]))"

definition unattestedRequiredPredicates :: "requiredAttestation list option \<Rightarrow> ensureResult list \<Rightarrow> string list" where
  "unattestedRequiredPredicates req results =
     (case req of
        None \<Rightarrow> []
      | Some rs \<Rightarrow>
          if rs = [] then []
          else filter (\<lambda>p. p \<notin> set (setOf (map er_predicate results))) (map rq_predicate rs))"

definition PREWARMABLE_PREDICATES :: "requiredAttestation list" where
  "PREWARMABLE_PREDICATES = [noParams ''email_verified'', (noParams ''age'')\<lparr>rq_threshold := Some 18\<rparr>]"

section \<open>Presenting\<close>

record ('w, 't, 'p) walletEnv =
  we_noble :: noble
  we_countries :: countryData
  we_orch :: "('w, 't, 'p) orchEnv"
  we_openHolderKey :: "string option \<Rightarrow> string \<Rightarrow> ('w, string) act"
  we_passkeyResolver :: "('w, string option) act"
  we_now :: "'w \<Rightarrow> int"

record walletPresentRequest =
  wp_dcql :: dcqlRequest
  wp_aud :: string
  wp_nonce :: string
  wp_verifierId :: "string option"
  wp_overrides :: "(string \<times> string) list"

record usedCredential =
  us_dcqlId :: string
  us_credentialId :: string
  us_disclosures :: "string list"

record walletPresentResult =
  wr_vpToken :: "(string \<times> string list) list"
  wr_used :: "usedCredential list"
  wr_attested :: "ensureResult list"

definition requiredFor :: "walletPresentRequest \<Rightarrow> string \<Rightarrow> requiredAttestation list option" where
  "requiredFor req i =
     map_option (\<lambda>cq. requiredAttestationsFor cq (wp_verifierId req)) (find (\<lambda>c. q_id c = i) (credentials (wp_dcql req)))"

definition missingMessage :: "string list \<Rightarrow> string" where
  "missingMessage missing =
     ''Couldn'' @ [CHR 0x27] @ ''t prove '' @ joinWith '', '' missing @ '' on Midnight for this credential '' @ emDash @
     '' the attestation could not be generated. Try again; if it keeps failing, request a fresh credential.''"

text \<open>One round of the loop over the chosen credentials: the presentation and the attestation results.\<close>

definition presentPick ::
  "('w, 't, 'p) walletEnv \<Rightarrow> 's storageAdapter \<Rightarrow> 's \<Rightarrow> walletPresentRequest \<Rightarrow> string option \<Rightarrow> chosenCredential \<Rightarrow>
    ('w, string \<times> ensureResult list) orch" where
  "presentPick W A st req passkeyId pick =
     bindA (liftA (walletCredentialToProofJson (we_noble W) (we_countries W) (ch_credential pick))) (\<lambda>credJson.
     let need = requiredFor req (ch_dcqlId pick) in
     bindA (ensureCredentialPredicatesAttested (we_orch W) credJson need) (\<lambda>ensureResults.
     let missing = unattestedRequiredPredicates need ensureResults in
     if missing \<noteq> [] then throwA (Error (missingMessage missing))
     else
       (let wrapped = getCredentialKeyWrapped A st (wc_credentialId (ch_credential pick)) in
        if \<not> truthy wrapped then
          throwA (Error (''Missing holder key for credential '' @ wc_credentialId (ch_credential pick)))
        else
          seqA (emit (we_orch W) (P_unlock (ch_dcqlId pick)))
         (bindA (outside (we_openHolderKey W passkeyId (the wrapped))) (\<lambda>holderKeyHex.
          seqA (emit (we_orch W) (P_sign (ch_dcqlId pick)))
         (bindA (getA (\<lambda>s. we_now W (os_world s))) (\<lambda>now.
          bindA (liftA (presentSdJwtVc (we_noble W) now (wc_sdJwtVc (ch_credential pick)) holderKeyHex
                   (ch_disclosures pick) (wp_aud req) (wp_nonce req) None)) (\<lambda>presentation.
            returnA (presentation, ensureResults)))))))))"

fun presentLoop ::
  "('w, 't, 'p) walletEnv \<Rightarrow> 's storageAdapter \<Rightarrow> 's \<Rightarrow> walletPresentRequest \<Rightarrow> string option \<Rightarrow> chosenCredential list \<Rightarrow>
    walletPresentResult \<Rightarrow> ('w, walletPresentResult) orch" where
  "presentLoop W A st req passkeyId [] acc = returnA acc"
| "presentLoop W A st req passkeyId (pick # picks) acc =
     bindA (presentPick W A st req passkeyId pick) (\<lambda>(presentation, results).
       presentLoop W A st req passkeyId picks
         \<lparr>wr_vpToken = AList.update (ch_dcqlId pick) [presentation] (wr_vpToken acc),
          wr_used = wr_used acc @ [\<lparr>us_dcqlId = ch_dcqlId pick, us_credentialId = wc_credentialId (ch_credential pick),
                                     us_disclosures = ch_disclosures pick\<rparr>],
          wr_attested = wr_attested acc @ results\<rparr>)"

definition walletPresent ::
  "('w, 't, 'p) walletEnv \<Rightarrow> 's storageAdapter \<Rightarrow> 's \<Rightarrow> walletPresentRequest \<Rightarrow> ('w, walletPresentResult) orch" where
  "walletPresent W A st req =
     bindA (liftA (matchDcqlAgainst (we_countries W) (listCredentials A st) (wp_dcql req))) (\<lambda>summary.
     if \<not> ms_satisfiable summary then
       throwA (Error (the_or ''DCQL request unsatisfied by wallet'' (ms_reason summary)))
     else
       bindA (outside (we_passkeyResolver W)) (\<lambda>passkeyId.
       bindA (liftA (chooseAcrossSets (we_countries W) summary (wp_dcql req) (wp_overrides req))) (\<lambda>chosen.
         presentLoop W A st req passkeyId chosen \<lparr>wr_vpToken = [], wr_used = [], wr_attested = []\<rparr>)))"

definition walletMatch :: "countryData \<Rightarrow> 's storageAdapter \<Rightarrow> 's \<Rightarrow> dcqlRequest \<Rightarrow> dcqlMatchSummary res" where
  "walletMatch cd A st query = matchDcqlAgainst cd (listCredentials A st) query"

definition prewarmCredentialAttestations ::
  "('w, 't, 'p) walletEnv \<Rightarrow> walletCredential \<Rightarrow> requiredAttestation list option \<Rightarrow> ('w, ensureResult list) orch" where
  "prewarmCredentialAttestations W cred predicates =
     bindA (liftA (walletCredentialToProofJson (we_noble W) (we_countries W) cred)) (\<lambda>credJson.
       ensureCredentialPredicatesAttested (we_orch W) credJson (Some (the_or PREWARMABLE_PREDICATES predicates)))"

section \<open>Revoking one's own credential\<close>

definition SELF_REVOKE_AUDIENCE :: string where
  "SELF_REVOKE_AUDIENCE = ''owlid:revocation:self''"

record revokeAnswer =
  ra_revoked :: bool
  ra_credentialId :: string
  ra_alreadyRevoked :: bool

text \<open>The generated client: a fresh challenge, and the revocation of a presented credential.\<close>

record 'w revocationApi =
  rv_generateChallenge :: "('w, string) act"
  rv_revokeOwnCredential :: "string \<Rightarrow> string \<Rightarrow> string option \<Rightarrow> ('w, revokeAnswer) act"

definition walletRevoke ::
  "('w, 't, 'p) walletEnv \<Rightarrow> 'w revocationApi \<Rightarrow> 's storageAdapter \<Rightarrow> 's \<Rightarrow> string \<Rightarrow> string option \<Rightarrow> ('w, revokeAnswer) act" where
  "walletRevoke W api A st credId reason =
     (case find (\<lambda>c. wc_credentialId c = credId) (listCredentials A st) of
        None \<Rightarrow> throwA (Error (''No credential '' @ credId @ '' in this wallet''))
      | Some cred \<Rightarrow>
          (let wrapped = getCredentialKeyWrapped A st credId in
           if \<not> truthy wrapped then throwA (Error (''Missing holder key for credential '' @ credId))
           else
             bindA (rv_generateChallenge api) (\<lambda>challenge.
             bindA (we_passkeyResolver W) (\<lambda>passkeyId.
             bindA (we_openHolderKey W passkeyId (the wrapped)) (\<lambda>holderKeyHex.
             bindA (getA (we_now W)) (\<lambda>now.
             bindA (liftA (presentSdJwtVc (we_noble W) now (wc_sdJwtVc cred) holderKeyHex [] SELF_REVOKE_AUDIENCE challenge None))
               (\<lambda>presentation. rv_revokeOwnCredential api presentation challenge reason)))))))"

section \<open>Lemmas on the matcher\<close>

lemma mapR_all2: "mapR f xs = Inr ys \<longleftrightarrow> list_all2 (\<lambda>x y. f x = Inr y) xs ys"
  by (induction xs arbitrary: ys) (auto simp: res_simps list_all2_Cons1)

lemma mapR_total: "(\<And>x. x \<in> set xs \<Longrightarrow> isInr (f x)) \<Longrightarrow> \<exists>ys. mapR f xs = Inr ys"
  by (induction xs) (force simp: isInr_ex)+

lemma filterR_set: "filterR p xs = Inr ys \<Longrightarrow> set ys = {x \<in> set xs. p x = Inr True}"
  by (induction xs arbitrary: ys) (auto simp: res_simps split: if_split_asm)

lemma matchEntry_facts:
  assumes "matchEntry cd creds cq = Inr e"
  shows "me_dcqlId e = q_id cq" and "me_disclosures e = []"
    and "set (me_candidates e) = {c \<in> set creds. credentialSatisfies cd c cq = Inr True}"
  using assms by (auto simp: matchEntry_def res_simps disclosuresForQuery_def dest: filterR_set)

lemma match_entries:
  assumes "matchDcqlAgainst cd creds query = Inr summary"
  shows "list_all2 (\<lambda>cq e. matchEntry cd creds cq = Inr e) (credentials query) (ms_entries summary)"
    and "ms_satisfiable summary \<longleftrightarrow> checkCredentialSets query
      (setOf (map me_dcqlId (filter (\<lambda>e. me_candidates e \<noteq> []) (ms_entries summary)))) = None"
  using assms by (auto simp: matchDcqlAgainst_def res_simps mapR_all2 Let_def)

lemma entry_query:
  assumes "list_all2 (\<lambda>cq e. matchEntry cd creds cq = Inr e) cqs es" and "e \<in> set es"
  shows "\<exists>cq \<in> set cqs. matchEntry cd creds cq = Inr e"
  using assms by (fastforce simp: list_all2_conv_all_nth in_set_conv_nth)

text \<open>With distinct query ids the entry found for an id is the one that made it satisfied.\<close>

lemma find_entry:
  assumes "list_all2 (\<lambda>cq e. matchEntry cd creds cq = Inr e) cqs es" and "distinct (map q_id cqs)"
    and "e \<in> set es"
  shows "find (\<lambda>e'. me_dcqlId e' = me_dcqlId e) es = Some e"
  using assms
proof (induction cqs es rule: list_all2_induct)
  case Nil
  then show ?case by simp
next
  case (Cons cq cqs e0 es)
  show ?case
  proof (cases "e = e0")
    case False
    then have mem: "e \<in> set es" using Cons.prems(2) by simp
    then obtain cq' where "cq' \<in> set cqs" and "matchEntry cd creds cq' = Inr e"
      using entry_query [OF Cons.hyps(2)] by blast
    then have "me_dcqlId e \<noteq> me_dcqlId e0"
      using Cons.prems(1) matchEntry_facts(1) [OF Cons.hyps(1)] matchEntry_facts(1) [of cd creds cq' e] by force
    then show ?thesis using Cons.IH Cons.prems(1) mem by simp
  qed simp
qed

lemma newestFirst_hd: "cs \<noteq> [] \<Longrightarrow> hd (newestFirst cd cs) \<in> set cs"
  unfolding newestFirst_def by (metis hd_in_set length_0_conv length_sortBy set_sortBy)

lemma chooseOne_ok:
  assumes "list_all2 (\<lambda>cq e. matchEntry cd creds cq = Inr e) cqs (ms_entries summary)" and "distinct (map q_id cqs)"
    and "e \<in> set (ms_entries summary)" and "me_candidates e \<noteq> []"
  shows "\<exists>ch. chooseOne cd summary ov (me_dcqlId e) = Inr ch"
  using find_entry [OF assms(1-3)] assms(4) by (simp add: chooseOne_def Let_def)

lemma chooseOne_facts:
  assumes "list_all2 (\<lambda>cq e. matchEntry cd creds cq = Inr e) cqs (ms_entries summary)"
    and "chooseOne cd summary ov i = Inr ch"
  shows "ch_dcqlId ch = i \<and> ch_disclosures ch = [] \<and> ch_credential ch \<in> set creds \<and>
    (\<exists>cq \<in> set cqs. q_id cq = i \<and> credentialSatisfies cd (ch_credential ch) cq = Inr True)"
proof -
  obtain e where e: "find (\<lambda>e. me_dcqlId e = i) (ms_entries summary) = Some e" and ne: "me_candidates e \<noteq> []"
    using assms(2) by (auto simp: chooseOne_def split: option.splits if_split_asm)
  then have "e \<in> set (ms_entries summary)" and i: "me_dcqlId e = i"
    by (auto simp: find_Some_iff)
  then obtain cq where cq: "cq \<in> set cqs" "matchEntry cd creds cq = Inr e"
    using entry_query [OF assms(1)] by blast
  have "ch_credential ch \<in> set (me_candidates e)"
    using assms(2) e ne newestFirst_hd [of "me_candidates e" cd]
    by (auto simp: chooseOne_def Let_def find_Some_iff split: option.splits if_split_asm)
  moreover have "ch_dcqlId ch = i \<and> ch_disclosures ch = me_disclosures e"
    using assms(2) e ne by (auto simp: chooseOne_def Let_def)
  ultimately show ?thesis using matchEntry_facts [OF cq(2)] cq(1) i by auto
qed

lemma firstUnsatisfied_None: "firstUnsatisfied cqs sat = None \<longleftrightarrow> (\<forall>cq \<in> set cqs. q_id cq \<in> set sat)"
  by (induction cqs) auto

lemma firstFailedSet_None:
  "firstFailedSet sets sat = None \<longleftrightarrow>
    (\<forall>s \<in> set sets. the_or True (required s) \<longrightarrow> (\<exists>row \<in> set (options s). set row \<subseteq> set sat))"
  by (induction sets) (auto simp: rowOk_def list_ex_iff list_all_iff subset_iff)

text \<open>The ids of the satisfiable entries.\<close>

definition satisfied :: "dcqlMatchSummary \<Rightarrow> string set" where
  "satisfied summary = {me_dcqlId e | e. e \<in> set (ms_entries summary) \<and> me_candidates e \<noteq> []}"

lemma rowAvailable_iff: "rowAvailable summary row \<longleftrightarrow> set row \<subseteq> satisfied summary"
  by (auto simp: rowAvailable_def satisfied_def list_all_iff list_ex_iff)

lemma idsNeeded_satisfied:
  assumes "matchDcqlAgainst cd creds query = Inr summary" and "ms_satisfiable summary"
  shows "set (idsNeeded summary query) \<subseteq> satisfied summary"
    and "\<And>sets s. credentialSets query = Some sets \<Longrightarrow> s \<in> set sets \<Longrightarrow> the_or True (required s) \<Longrightarrow>
      \<exists>row \<in> set (options s). set row \<subseteq> set (idsNeeded summary query)"
proof -
  have sat: "set (setOf (map me_dcqlId (filter (\<lambda>e. me_candidates e \<noteq> []) (ms_entries summary)))) = satisfied summary"
    by (auto simp: satisfied_def)
  have ok: "checkCredentialSets query (setOf (map me_dcqlId (filter (\<lambda>e. me_candidates e \<noteq> []) (ms_entries summary)))) = None"
    using match_entries(2) [OF assms(1)] assms(2) by blast
  show "set (idsNeeded summary query) \<subseteq> satisfied summary"
  proof (cases "credentialSets query")
    case None
    then show ?thesis using ok sat by (auto simp: idsNeeded_def checkCredentialSets_def firstUnsatisfied_None)
  next
    case (Some sets)
    have "set (the_or [] (find (rowAvailable summary) (options s))) \<subseteq> satisfied summary" for s
    proof (cases "find (rowAvailable summary) (options s)")
      case (Some row)
      then have "rowAvailable summary row" by (auto simp: find_Some_iff)
      then show ?thesis using Some by (simp add: the_or_def rowAvailable_iff)
    qed (simp add: the_or_def)
    then show ?thesis using Some by (auto simp: idsNeeded_def)
  qed
  fix sets s
  assume sets: "credentialSets query = Some sets" and s: "s \<in> set sets" and req: "the_or True (required s)"
  then obtain row where "row \<in> set (options s)" and "rowAvailable summary row"
    using ok sat by (auto simp: checkCredentialSets_def firstFailedSet_None rowAvailable_iff)
  then obtain row' where row': "find (rowAvailable summary) (options s) = Some row'"
    by (metis find_None_iff option.exhaust)
  then have "row' \<in> set (options s)" by (auto simp: find_Some_iff)
  moreover have "set row' \<subseteq> set (idsNeeded summary query)"
    using sets s row' by (force simp: idsNeeded_def the_or_def)
  ultimately show "\<exists>row \<in> set (options s). set row \<subseteq> set (idsNeeded summary query)" by blast
qed

text \<open>C10: The set solver is complete: when the matcher reports a request with distinct query ids as
  satisfiable, \<open>chooseAcrossSets\<close> never throws, every chosen credential is in the wallet, satisfies the
  query it answers and discloses nothing, and the choice answers every query, or one option of every
  required credential set.\<close>

theorem choose_complete:
  assumes "matchDcqlAgainst cd creds query = Inr summary" and "ms_satisfiable summary"
    and "distinct (map q_id (credentials query))"
  shows "\<exists>chosen. chooseAcrossSets cd summary query ov = Inr chosen \<and>
    (\<forall>ch \<in> set chosen. ch_credential ch \<in> set creds \<and> ch_disclosures ch = [] \<and>
       (\<exists>cq \<in> set (credentials query). q_id cq = ch_dcqlId ch \<and> credentialSatisfies cd (ch_credential ch) cq = Inr True)) \<and>
    (case credentialSets query of
       None \<Rightarrow> map ch_dcqlId chosen = map q_id (credentials query)
     | Some sets \<Rightarrow> \<forall>s \<in> set sets. the_or True (required s) \<longrightarrow>
         (\<exists>row \<in> set (options s). set row \<subseteq> ch_dcqlId ` set chosen))"
proof -
  note entries = match_entries(1) [OF assms(1)]
  have "isInr (chooseOne cd summary ov i)" if "i \<in> set (idsNeeded summary query)" for i
    using that idsNeeded_satisfied(1) [OF assms(1,2)] chooseOne_ok [OF entries assms(3)]
    by (fastforce simp: satisfied_def isInr_ex)
  then obtain chosen where chosen: "mapR (chooseOne cd summary ov) (idsNeeded summary query) = Inr chosen"
    using mapR_total by blast
  then have all2: "list_all2 (\<lambda>i ch. chooseOne cd summary ov i = Inr ch) (idsNeeded summary query) chosen"
    by (simp add: mapR_all2)
  then have ids: "map ch_dcqlId chosen = idsNeeded summary query"
    by (induction rule: list_all2_induct) (auto dest: chooseOne_facts [OF entries])
  have each: "\<exists>i. chooseOne cd summary ov i = Inr ch" if "ch \<in> set chosen" for ch
    using that all2 by (auto simp: list_all2_conv_all_nth in_set_conv_nth)
  have set_ids: "ch_dcqlId ` set chosen = set (idsNeeded summary query)" using ids by (metis set_map)
  show ?thesis
  proof (intro exI [of _ chosen] conjI ballI)
    show "chooseAcrossSets cd summary query ov = Inr chosen" using chosen by (simp add: chooseAcrossSets_def)
    show "case credentialSets query of None \<Rightarrow> map ch_dcqlId chosen = map q_id (credentials query)
       | Some sets \<Rightarrow> \<forall>s \<in> set sets. the_or True (required s) \<longrightarrow> (\<exists>row \<in> set (options s). set row \<subseteq> ch_dcqlId ` set chosen)"
      using ids set_ids idsNeeded_satisfied(2) [OF assms(1,2)]
      by (cases "credentialSets query") (auto simp: idsNeeded_def)
  qed (use each chooseOne_facts [OF entries] in blast)+
qed

section \<open>What is presented\<close>

lemma unattested_Nil:
  "unattestedRequiredPredicates req results = [] \<longleftrightarrow>
    (\<forall>r \<in> set (the_or [] req). rq_predicate r \<in> er_predicate ` set results)"
  by (cases req) (auto simp: unattestedRequiredPredicates_def the_or_def filter_empty_conv)

text \<open>A presentation of a credential that discloses nothing.\<close>

definition discloses_nothing :: "string \<Rightarrow> bool" where
  "discloses_nothing p \<longleftrightarrow> (\<exists>vc. SdJwtVc_parse p = Inr vc \<and> disclosures vc = [])"

lemma presentSdJwtVc_nothing:
  "presentSdJwtVc cr now c k [] aud nonce iat = Inr p \<Longrightarrow> discloses_nothing p"
  using parse_present [OF parse_vc_wf]
  by (auto simp: presentSdJwtVc_def discloses_nothing_def res_simps selected_def)

lemma keeps_presentPick: "keeps (\<lambda>s. c \<in> set (os_calls s)) (presentPick W A st req k pick)"
  unfolding presentPick_def Let_def
  by (intro keeps_intros logged.keeps_ensure logged.keeps_emit logged.keeps_outside)

lemma presentPick_facts:
  assumes "presentPick W A st req k pick s = (Inr (p, rs), s')" and "ch_disclosures pick = []"
  shows "discloses_nothing p"
    and "\<forall>r \<in> set (the_or [] (requiredFor req (ch_dcqlId pick))). rq_predicate r \<in> er_predicate ` set rs"
    and "\<forall>r \<in> set rs. \<exists>sp owlRoot. onChain sp owlRoot r s'"
proof -
  obtain credJson where cj: "walletCredentialToProofJson (we_noble W) (we_countries W) (ch_credential pick) = Inr credJson"
    using assms(1) by (auto simp: presentPick_def act_defs split: sum.splits)
  obtain r1 s1 where run: "ensureCredentialPredicatesAttested (we_orch W) credJson (requiredFor req (ch_dcqlId pick)) s = (r1, s1)"
    by force
  have rs: "r1 = Inr rs \<and> unattestedRequiredPredicates (requiredFor req (ch_dcqlId pick)) rs = [] \<and>
      discloses_nothing p \<and> set (os_calls s1) \<subseteq> set (os_calls s')"
    using assms cj run
    by (auto simp: presentPick_def act_defs Let_def emit_def outside_def split: sum.splits prod.splits if_split_asm
        intro: presentSdJwtVc_nothing)
  then show "discloses_nothing p"
    and "\<forall>r \<in> set (the_or [] (requiredFor req (ch_dcqlId pick))). rq_predicate r \<in> er_predicate ` set rs"
    using unattested_Nil by blast+
  obtain v where v: "JSON_parse credJson = Inr v"
    using run rs by (auto simp: ensureCredentialPredicatesAttested_def act_defs split: sum.splits)
  have "\<exists>sp owlRoot. onChain sp owlRoot r s1" if "r \<in> set rs" for r
    using ensure_results_on_chain [OF _ v that] run rs by blast
  then show "\<forall>r \<in> set rs. \<exists>sp owlRoot. onChain sp owlRoot r s'"
    using rs by (meson hasCall_def onChain_mono subsetD)
qed

text \<open>What holds of the result built so far.\<close>

definition presentInv :: "walletPresentRequest \<Rightarrow> walletPresentResult \<Rightarrow> 'w orchState \<Rightarrow> bool" where
  "presentInv req acc s \<longleftrightarrow>
     (\<forall>(i, ps) \<in> set (wr_vpToken acc). \<exists>p. ps = [p] \<and> discloses_nothing p) \<and>
     fst ` set (wr_vpToken acc) = us_dcqlId ` set (wr_used acc) \<and>
     (\<forall>u \<in> set (wr_used acc). us_disclosures u = [] \<and>
        (\<forall>r \<in> set (the_or [] (requiredFor req (us_dcqlId u))). rq_predicate r \<in> er_predicate ` set (wr_attested acc))) \<and>
     (\<forall>r \<in> set (wr_attested acc). \<exists>sp owlRoot. onChain sp owlRoot r s)"

lemma set_update: "set (AList.update k v al) \<subseteq> insert (k, v) (set al)"
  by (induction al) auto

lemma presentLoop_inv:
  assumes "presentLoop W A st req k picks acc s = (Inr res, s')" and "presentInv req acc s"
    and "\<And>pick. pick \<in> set picks \<Longrightarrow> ch_disclosures pick = []"
  shows "presentInv req res s' \<and>
    map us_credentialId (wr_used res) = map us_credentialId (wr_used acc) @ map (\<lambda>p. wc_credentialId (ch_credential p)) picks"
  using assms
proof (induction picks arbitrary: acc s)
  case Nil
  then show ?case by (simp add: returnA_def)
next
  case (Cons pick picks)
  obtain p rs s1 where pick: "presentPick W A st req k pick s = (Inr (p, rs), s1)"
    using Cons.prems(1) by (auto simp: bindA_def split: prod.splits sum.splits)
  let ?acc = "\<lparr>wr_vpToken = AList.update (ch_dcqlId pick) [p] (wr_vpToken acc),
     wr_used = wr_used acc @ [\<lparr>us_dcqlId = ch_dcqlId pick, us_credentialId = wc_credentialId (ch_credential pick),
                                us_disclosures = ch_disclosures pick\<rparr>],
     wr_attested = wr_attested acc @ rs\<rparr>"
  have rest: "presentLoop W A st req k picks ?acc s1 = (Inr res, s')"
    using Cons.prems(1) pick by (simp add: bindA_def)
  have nil: "ch_disclosures pick = []" using Cons.prems(3) by simp
  note facts = presentPick_facts [OF pick nil]
  have mono: "hasCall c s \<Longrightarrow> hasCall c s1" for c
    using keepsD [OF keeps_presentPick _ pick] by (simp add: hasCall_def)
  have "presentInv req ?acc s1"
    unfolding presentInv_def
  proof (intro conjI)
    have "\<forall>(i, ps) \<in> set (wr_vpToken acc). \<exists>p. ps = [p] \<and> discloses_nothing p"
      using Cons.prems(2) unfolding presentInv_def by blast
    then have "\<forall>(i, ps) \<in> insert (ch_dcqlId pick, [p]) (set (wr_vpToken acc)). \<exists>p. ps = [p] \<and> discloses_nothing p"
      using facts(1) by simp
    then show "\<forall>(i, ps) \<in> set (wr_vpToken ?acc). \<exists>p. ps = [p] \<and> discloses_nothing p"
      using set_update [of "ch_dcqlId pick" "[p]" "wr_vpToken acc"]
      unfolding walletPresentResult.select_convs by blast
    show "fst ` set (wr_vpToken ?acc) = us_dcqlId ` set (wr_used ?acc)"
      using Cons.prems(2) by (simp add: presentInv_def AList.dom_update)
    show "\<forall>u \<in> set (wr_used ?acc). us_disclosures u = [] \<and>
        (\<forall>r \<in> set (the_or [] (requiredFor req (us_dcqlId u))). rq_predicate r \<in> er_predicate ` set (wr_attested ?acc))"
      using Cons.prems(2) facts(2) nil by (auto simp: presentInv_def image_Un)
    show "\<forall>r \<in> set (wr_attested ?acc). \<exists>sp owlRoot. onChain sp owlRoot r s1"
      using Cons.prems(2) facts(3) onChain_mono [OF _ mono] unfolding presentInv_def by fastforce
  qed
  from Cons.IH [OF rest this] Cons.prems(3) show ?case by simp
qed

text \<open>C5: \<open>OwlWallet.present\<close> only signs what the chain backs and never discloses a claim: in the result it
  returns, the tokens are for exactly the answered queries, each is a single presentation that parses
  and carries no disclosure, every predicate a verifier requires of an answered query has an
  attestation result, and every attestation result is backed by a successful chain answer of this run.\<close>

theorem present_backed_and_private:
  assumes "walletPresent W A st req s = (Inr res, s')"
  shows "(\<forall>(i, ps) \<in> set (wr_vpToken res). \<exists>p. ps = [p] \<and> discloses_nothing p) \<and>
     fst ` set (wr_vpToken res) = us_dcqlId ` set (wr_used res) \<and>
     (\<forall>u \<in> set (wr_used res). us_credentialId u \<in> wc_credentialId ` set (listCredentials A st) \<and>
        (\<forall>r \<in> set (the_or [] (requiredFor req (us_dcqlId u))).
           \<exists>a \<in> set (wr_attested res). er_predicate a = rq_predicate r \<and> (\<exists>sp owlRoot. onChain sp owlRoot a s')))"
proof -
  obtain summary where m: "matchDcqlAgainst (we_countries W) (listCredentials A st) (wp_dcql req) = Inr summary"
    using assms by (auto simp: walletPresent_def act_defs split: sum.splits)
  obtain k s1 chosen where ch: "chooseAcrossSets (we_countries W) summary (wp_dcql req) (wp_overrides req) = Inr chosen"
      and loop: "presentLoop W A st req k chosen \<lparr>wr_vpToken = [], wr_used = [], wr_attested = []\<rparr> s1 = (Inr res, s')"
    using assms m by (auto simp: walletPresent_def act_defs outside_def split: sum.splits prod.splits if_split_asm)
  have facts: "ch_disclosures c = [] \<and> ch_credential c \<in> set (listCredentials A st)" if "c \<in> set chosen" for c
    using that ch chooseOne_facts [OF match_entries(1) [OF m]]
    by (fastforce simp: chooseAcrossSets_def mapR_all2 list_all2_conv_all_nth in_set_conv_nth)
  have start: "presentInv req \<lparr>wr_vpToken = [], wr_used = [], wr_attested = []\<rparr> s1" by (simp add: presentInv_def)
  have inv: "presentInv req res s'" and ids: "map us_credentialId (wr_used res) = map (\<lambda>p. wc_credentialId (ch_credential p)) chosen"
    using presentLoop_inv [OF loop start] facts by auto
  have "us_credentialId u \<in> wc_credentialId ` set (listCredentials A st)" if "u \<in> set (wr_used res)" for u
  proof -
    have "us_credentialId u \<in> set (map (\<lambda>p. wc_credentialId (ch_credential p)) chosen)"
      using that ids by (metis image_eqI set_map)
    then show ?thesis using facts by auto
  qed
  moreover have "\<exists>a \<in> set (wr_attested res). er_predicate a = rq_predicate r \<and> (\<exists>sp owlRoot. onChain sp owlRoot a s')"
    if u: "u \<in> set (wr_used res)" and r: "r \<in> set (the_or [] (requiredFor req (us_dcqlId u)))" for u r
  proof -
    have "rq_predicate r \<in> er_predicate ` set (wr_attested res)" using inv u r unfolding presentInv_def by blast
    then obtain a where "a \<in> set (wr_attested res)" and "er_predicate a = rq_predicate r" by auto
    then show ?thesis using inv unfolding presentInv_def by blast
  qed
  moreover have "\<forall>(i, ps) \<in> set (wr_vpToken res). \<exists>p. ps = [p] \<and> discloses_nothing p"
    and "fst ` set (wr_vpToken res) = us_dcqlId ` set (wr_used res)"
    using inv unfolding presentInv_def by blast+
  ultimately show ?thesis by blast
qed

section \<open>Coverage\<close>

text \<open>The routed form of an \<open>owl_predicate\<close>, with the countries upper-cased.\<close>

fun routedOf :: "owlPredicate \<Rightarrow> routedPredicate" where
  "routedOf (Age_gte t) = R_age_gte t"
| "routedOf (Age_range lo hi) = R_age_range lo hi"
| "routedOf (Kyc_gte t) = R_kyc_gte t"
| "routedOf (Nationality_in cs) = R_nationality_in (map toUpperCase cs)"
| "routedOf (Residency_in cs) = R_residency_in (map toUpperCase cs)"
| "routedOf Email_verified = R_email_verified"
| "routedOf (Unique_personhood e a) = R_unique_personhood e a"

text \<open>The declarative request that compiles to the legacy form of an \<open>owl_predicate\<close>.\<close>

fun requestOf :: "owlPredicate \<Rightarrow> predicateRequest" where
  "requestOf (Age_gte t) = AgeOver t"
| "requestOf (Age_range lo hi) = AgeRange lo hi"
| "requestOf (Kyc_gte t) = KycLevel (Rung t)"
| "requestOf (Nationality_in cs) = NationalityIn cs"
| "requestOf (Residency_in cs) = ResidencyIn cs"
| "requestOf Email_verified = EmailVerified"
| "requestOf (Unique_personhood e a) = UniquePerson e a"

lemma covered_routed: "owlPredicateCovered refs ext = attestationCovers refs (routedOf ext)"
  by (cases ext) (simp_all add: attestationCovers_def refCountryIn_def list_ex_iff)

text \<open>The wallet treats both generations of verifiers alike: a query that carries the \<open>owl_predicate\<close>
  extension and a query with the compiled legacy claim of the same predicate are satisfied by the
  same credentials, when a country list has between 1 and 64 codes and all of them are well-formed.\<close>

theorem extension_matches_legacy_claim:
  assumes "0 < length (requestCodes (requestOf ext))" and "length (requestCodes (requestOf ext)) \<le> 64"
    and "validCodes (requestCodes (requestOf ext)) = map toUpperCase (requestCodes (requestOf ext))"
  shows "credentialSatisfies cd cred (owlCredentialQuery i ext) =
    credentialSatisfies cd cred \<lparr>q_id = i, q_format = OWL_DCQL_FORMAT,
      q_claims = Some [toDcqlClaim (requestOf ext)], q_owlPredicate = None\<rparr>"
proof -
  have "0 < length (validCodes (requestCodes (requestOf ext)))" "length (validCodes (requestCodes (requestOf ext))) \<le> 64"
    using assms by simp_all
  from route_toDcqlClaim [OF this, of cd]
  have route: "routeClaim cd (hd (path (toDcqlClaim (requestOf ext)))) (the_or [] (vals (toDcqlClaim (requestOf ext))))
      = Some (meaning (requestOf ext))" .
  obtain h where h: "path (toDcqlClaim (requestOf ext)) = [h]" by (cases ext) simp_all
  have "meaning (requestOf ext) = routedOf ext" using assms(3) by (cases ext) simp_all
  then have "legacyClaimsCovered cd refs [toDcqlClaim (requestOf ext)] = owlPredicateCovered refs ext" for refs
    using route by (simp add: covered_routed h)
  then show ?thesis
    by (simp add: credentialSatisfies_def owlCredentialQuery_def readOwlPredicate_def OWL_DCQL_FORMAT_def the_or_def
        del: legacyClaimsCovered.simps)
qed

text \<open>A verifier that lists its countries in lower case gets a wallet that offers the credential and then
  cannot present it: the matcher upper-cases the list, the orchestrator does not, so the required
  nationality is never attested and \<open>present\<close> would fail with a missing predicate.\<close>

theorem lower_case_countries_never_attested:
  assumes "predicate r = ''nationality''" and "country r = Some ''NL''"
  shows "owlPredicateCovered [r] (Nationality_in [''nl'']) \<and>
    \<not> isRequired (Some (requiredAttestationsFor (owlCredentialQuery i (Nationality_in [''nl''])) vid)) r"
proof -
  have "toUpperCase ''nl'' = ''NL''" and "toUpperCase ''NL'' = ''NL''" by code_simp+
  then show ?thesis
    using assms by (simp add: isRequired_def requiredAttestationsFor_def owlCredentialQuery_def readOwlPredicate_def noParams_def)
qed

text \<open>Self-revocation only ever sends a proof of possession for its own audience: when \<open>revoke\<close> returns,
  the wallet holds the credential and its wrapped key, and the presentation posted with the server's
  challenge was signed for the self-revocation audience and that challenge and discloses nothing.\<close>

theorem revoke_proves_possession:
  assumes "walletRevoke W api A st credId reason w = (Inr ans, w')"
  shows "\<exists>cred wrapped challenge pk key now p w1 w2 w3 w4.
    cred \<in> set (listCredentials A st) \<and> wc_credentialId cred = credId \<and>
    getCredentialKeyWrapped A st credId = Some wrapped \<and> wrapped \<noteq> [] \<and>
    rv_generateChallenge api w = (Inr challenge, w1) \<and> we_openHolderKey W pk wrapped w2 = (Inr key, w3) \<and>
    presentSdJwtVc (we_noble W) now (wc_sdJwtVc cred) key [] SELF_REVOKE_AUDIENCE challenge None = Inr p \<and>
    discloses_nothing p \<and> rv_revokeOwnCredential api p challenge reason w4 = (Inr ans, w')"
proof -
  obtain cred where cred: "find (\<lambda>c. wc_credentialId c = credId) (listCredentials A st) = Some cred"
    using assms by (auto simp: walletRevoke_def act_defs split: option.splits)
  then have mem: "cred \<in> set (listCredentials A st)" "wc_credentialId cred = credId" by (auto simp: find_Some_iff)
  obtain wrapped where key: "getCredentialKeyWrapped A st credId = Some wrapped" "wrapped \<noteq> []"
    using assms cred
    by (cases "getCredentialKeyWrapped A st credId") (auto simp: walletRevoke_def act_defs truthy_def split: if_split_asm)
  obtain challenge w1 where ch: "rv_generateChallenge api w = (Inr challenge, w1)"
    using assms cred key by (auto simp: walletRevoke_def act_defs truthy_def split: sum.splits prod.splits)
  obtain pk w2 where pk: "we_passkeyResolver W w1 = (Inr pk, w2)"
    using assms cred key ch by (auto simp: walletRevoke_def act_defs truthy_def split: sum.splits prod.splits)
  obtain k w3 where k: "we_openHolderKey W pk wrapped w2 = (Inr k, w3)"
    using assms cred key ch pk by (auto simp: walletRevoke_def act_defs truthy_def split: sum.splits prod.splits)
  obtain p where p: "presentSdJwtVc (we_noble W) (we_now W w3) (wc_sdJwtVc cred) k [] SELF_REVOKE_AUDIENCE challenge None = Inr p"
      "rv_revokeOwnCredential api p challenge reason w3 = (Inr ans, w')"
    using assms cred key ch pk k by (auto simp: walletRevoke_def act_defs truthy_def split: sum.splits prod.splits)
  show ?thesis using mem key ch k p presentSdJwtVc_nothing by blast
qed

section \<open>Witnesses\<close>

text \<open>A wallet with one credential that is stamped with \<open>email_verified\<close>, on a chain where it is attested.\<close>

definition exWallet :: "(unit, bytes list, bytes \<times> bytes) walletEnv" where
  "exWallet = \<lparr>we_noble = plainNoble, we_countries = exCountries, we_orch = exEnv,
     we_openHolderKey = (\<lambda>pk w. returnA (hexEncode exHolder)), we_passkeyResolver = returnA None,
     we_now = (\<lambda>w. 1700000000)\<rparr>"

definition exStamp :: string where
  "exStamp = jsonSegment (JArr [JStr ''s'', JStr ''owl_attestation'', JArr [JObj [(''predicate'', JStr ''email_verified'')]]])"

definition exStampPayload :: json where
  "exStampPayload = JObj [(''iss'', JStr ''did:web:issuer''), (''owl_root'', JStr ''ab'')]"

definition exStamped :: sdJwtVc where
  "exStamped = \<lparr>jwt = exSigned issuerHeader exStampPayload exIssuer, disclosures = [(''owl_attestation'', exStamp)]\<rparr>"

definition exHeld :: walletCredential where
  "exHeld = exCred\<lparr>wc_sdJwtVc := serialize exStamped, wc_verifiedClaims := [(''emailVerified'', JBool True)]\<rparr>"

definition exStore :: browser where
  "exStore = addCredential browserStorageAdapter exBrowser exHeld ''wrapped''"

definition exRequest :: walletPresentRequest where
  "exRequest = \<lparr>wp_dcql = \<lparr>credentials = [owlCredentialQuery ''q'' Email_verified], credentialSets = None\<rparr>,
     wp_aud = ''verifier'', wp_nonce = ''n-1'', wp_verifierId = None, wp_overrides = []\<rparr>"

lemma exStamp_parse:
  "parseSegment exStamp = Inr (JArr [JStr ''s'', JStr ''owl_attestation'', JArr [JObj [(''predicate'', JStr ''email_verified'')]]])"
  by (simp add: exStamp_def parseSegment_jsonSegment)

lemma exStamp_facts: "CHR ''~'' \<notin> set exStamp" "exStamp \<noteq> []"
proof -
  have "parseSegment [] \<noteq> Inr v" for v
    by (simp add: parseSegment_def b64urlDecode_def replaceAll_def atob_def dropPadding_def utf8String_def JSON_parse_def)
  then show "exStamp \<noteq> []" using exStamp_parse by metis
qed (simp add: exStamp_def)

lemma exStamped_wf: "vc_wf exStamped"
  using jwsSign_no_tilde [OF exSigned_sign, of issuerHeader exStampPayload exIssuer]
  by (simp add: vc_wf_def exStamped_def exStamp_facts exStamp_parse parseDisclosure_def item_def)

lemma exStamped_parse: "SdJwtVc_parse (serialize exStamped) = Inr exStamped"
  by (rule parse_serialize [OF exStamped_wf])

lemma exStamped_root: "owlRootHex exStamped = Inr (Some ''ab'')"
proof -
  have "splitOn (CHR ''.'') (jwt exStamped) =
      [jsonSegment issuerHeader, jsonSegment exStampPayload,
       b64urlEncode (exIssuer @ utf8Bytes (jsonSegment issuerHeader @ CHR ''.'' # jsonSegment exStampPayload))]"
    by (simp add: exStamped_def exSigned_def Let_def split_jws [simplified])
  moreover have "parseSegment (jsonSegment exStampPayload) = Inr exStampPayload"
    by (rule parseSegment_jsonSegment) (simp add: exStampPayload_def)
  ultimately show ?thesis by (simp add: owlRootHex_def readProp_def exStampPayload_def)
qed

lemma exHeld_facts:
  "listCredentials browserStorageAdapter exStore = [exHeld]"
  "getCredentialKeyWrapped browserStorageAdapter exStore (wc_credentialId exHeld) = Some ''wrapped''"
proof -
  have wf: "cred_wf exHeld" by (simp add: cred_wf_def exHeld_def exCred_def)
  show "listCredentials browserStorageAdapter exStore = [exHeld]"
    by (simp add: listCredentials_def exStore_def bsa.readIndex_add bsa.getCredential_add exBrowser_facts wf)
  show "getCredentialKeyWrapped browserStorageAdapter exStore (wc_credentialId exHeld) = Some ''wrapped''"
    by (simp add: exStore_def bsa.getKey_add exBrowser_facts)
qed

lemma exHeld_raw: "rawAttestations exCountries exHeld exStamped = Inr [JObj [(''predicate'', JStr ''email_verified'')]]"
  by (simp add: rawAttestations_def disclosedClaim_def exStamped_def exStamp_parse item_def backfillRef_def
      claimCountries_def)

lemma exHeld_satisfies: "credentialSatisfies exCountries exHeld (owlCredentialQuery ''q'' Email_verified) = Inr True"
proof -
  have "readOwlAttestations exCountries exHeld = Inr [refOfJson (JObj [(''predicate'', JStr ''email_verified'')])]"
    using exStamped_parse exHeld_raw by (simp add: readOwlAttestations_def exHeld_def)
  then show ?thesis
    by (simp add: credentialSatisfies_def owlCredentialQuery_def readOwlPredicate_def refOfJson_def the_or_def)
qed

definition exSummary :: dcqlMatchSummary where
  "exSummary = \<lparr>ms_entries = [\<lparr>me_dcqlId = ''q'', me_candidates = [exHeld], me_disclosures = []\<rparr>],
     ms_satisfiable = True, ms_reason = None\<rparr>"

lemma exMatch: "matchDcqlAgainst exCountries [exHeld] (wp_dcql exRequest) = Inr exSummary"
proof -
  have "q_id (owlCredentialQuery ''q'' Email_verified) = ''q''" by (simp add: owlCredentialQuery_def)
  then show ?thesis
    by (simp add: matchDcqlAgainst_def exRequest_def matchEntry_def exHeld_satisfies disclosuresForQuery_def
        checkCredentialSets_def exSummary_def setOf_def)
qed

definition exProof :: json where
  "exProof = JObj [(''root_hash'', JStr (credentialIdHex plainNoble exStamped)), (''owl_root'', JStr ''ab''),
     (''claim_disclosures'', JArr [rawDisclosureJson \<lparr>rd_name = ''owl_attestation'',
        rd_value = Some (JArr [JObj [(''predicate'', JStr ''email_verified'')]]), rd_salt = ''s''\<rparr>]),
     (''attributes'', JObj [(''emailVerified'', JBool True)]),
     (''predicate_attestations'', JArr [JObj [(''predicate'', JStr ''email_verified'')]])]"

lemma exProofJson: "walletCredentialToProofJson plainNoble exCountries exHeld = Inr (stringify exProof)"
proof -
  have "disclosuresRaw exStamped = Inr [\<lparr>rd_name = ''owl_attestation'',
        rd_value = Some (JArr [JObj [(''predicate'', JStr ''email_verified'')]]), rd_salt = ''s''\<rparr>]"
    by (simp add: disclosuresRaw_def rawDisclosureOf_def exStamped_def exStamp_parse item_def)
  moreover have "claimCountries exCountries (wc_verifiedClaims exHeld) = (None, None)"
    by (simp add: claimCountries_def exHeld_def alpha2OrUndefined_def nullish_def)
  moreover have "wc_sdJwtVc exHeld = serialize exStamped" and "wc_verifiedClaims exHeld = [(''emailVerified'', JBool True)]"
    by (simp_all add: exHeld_def)
  ultimately show ?thesis
    by (simp add: walletCredentialToProofJson_def exStamped_parse exHeld_raw exStamped_root exProof_def putOpt_def truthy_def)
qed

lemma exEnsure:
  "\<exists>s1. ensureCredentialPredicatesAttested exEnv (stringify exProof) (Some [noParams ''email_verified'']) exState =
     (Inr [\<lparr>er_predicate = ''email_verified'', er_threshold = None, er_alreadyOnChain = True\<rparr>], s1)"
proof -
  have wf: "json_wf exProof" by (simp add: exProof_def rawDisclosureJson_def optField_def)
  have stamped: "cj_predicate_attestations (docOfJson exProof) =
     [\<lparr>predicate = ''email_verified'', threshold = None, min_age = None, max_age = None, epoch = None, app_id = None,
       country = None\<rparr>]"
    by (simp add: exProof_def docOfJson_def refOfJson_def the_or_def)
  have doc: "exProof \<noteq> JNull" "cj_owl_root (docOfJson exProof) = Some ''ab''"
      "cj_attributes (docOfJson exProof) = [(''emailVerified'', JBool True)]"
    by (simp_all add: exProof_def docOfJson_def)
  have "preparePredicate exSha exRuntime (docOfJson exProof) (Some [noParams ''email_verified''])
      (hd (cj_predicate_attestations (docOfJson exProof))) =
      Inr (Inr \<lparr>pr_spec = the (map_of FAMILIES ''email_verified''), pr_threshold = None, pr_minAge = None,
        pr_maxAge = None, pr_scope = None, pr_countries = None\<rparr>)"
    unfolding stamped by (simp add: preparePredicate_def doc FAMILIES_def bindSkip_def presentationBounds_def)
  then show ?thesis
    using json.dec_enc [OF wf] doc
    by (simp add: ensureCredentialPredicatesAttested_def stamped act_defs Let_def attestOne_def isRequired_def noParams_def
        exEnv_def attestPrepared_def FAMILIES_def isAttestedA_def outside_def logCall_def emit_def resultFor_def)
qed

lemma exRequest_fields: "wp_aud exRequest = ''verifier''" "wp_nonce exRequest = ''n-1''" "wp_overrides exRequest = []"
  by (simp_all add: exRequest_def)

lemma exChoose:
  "chooseAcrossSets exCountries exSummary (wp_dcql exRequest) [] =
     Inr [\<lparr>ch_dcqlId = ''q'', ch_credential = exHeld, ch_disclosures = []\<rparr>]"
  by (simp add: chooseAcrossSets_def idsNeeded_def exRequest_def owlCredentialQuery_def chooseOne_def exSummary_def
      truthy_def newestFirst_def sortBy_def)

lemma exWalletRun:
  "\<exists>res s'. walletPresent exWallet browserStorageAdapter exStore exRequest exState = (Inr res, s') \<and>
     us_dcqlId ` set (wr_used res) = {''q''}"
proof -
  obtain s1 where ens: "ensureCredentialPredicatesAttested exEnv (stringify exProof) (Some [noParams ''email_verified'']) exState =
     (Inr [\<lparr>er_predicate = ''email_verified'', er_threshold = None, er_alreadyOnChain = True\<rparr>], s1)"
    using exEnsure by blast
  have need: "requiredFor exRequest ''q'' = Some [noParams ''email_verified'']"
    by (simp add: requiredFor_def exRequest_def owlCredentialQuery_def requiredAttestationsFor_def readOwlPredicate_def)
  have none: "unattestedRequiredPredicates (Some [noParams ''email_verified''])
      [\<lparr>er_predicate = ''email_verified'', er_threshold = None, er_alreadyOnChain = True\<rparr>] = []"
    by (simp add: unattested_Nil the_or_def noParams_def)
  obtain p where p: "presentSdJwtVc plainNoble 1700000000 (serialize exStamped) (hexEncode exHolder) [] ''verifier'' ''n-1'' None = Inr p"
    by (auto simp: presentSdJwtVc_def exStamped_parse present_def exSigned_sign Let_def)
  have "wc_sdJwtVc exHeld = serialize exStamped" by (simp add: exHeld_def)
  then have pick: "\<exists>s2. presentPick exWallet browserStorageAdapter exStore exRequest None
      \<lparr>ch_dcqlId = ''q'', ch_credential = exHeld, ch_disclosures = []\<rparr> exState =
      (Inr (p, [\<lparr>er_predicate = ''email_verified'', er_threshold = None, er_alreadyOnChain = True\<rparr>]), s2)"
    using ens need none exProofJson exHeld_facts(2) p
    by (simp add: presentPick_def exWallet_def act_defs truthy_def emit_def outside_def Let_def exRequest_fields)
  then show ?thesis
    using exMatch exChoose exHeld_facts(1)
    by (auto simp: walletPresent_def exWallet_def act_defs outside_def exRequest_fields exSummary_def exState_def)
qed

theorem present_backed_and_private_witness:
  "\<exists>res s'. walletPresent exWallet browserStorageAdapter exStore exRequest exState = (Inr res, s') \<and>
     fst ` set (wr_vpToken res) = {''q''} \<and> (\<forall>(i, ps) \<in> set (wr_vpToken res). \<exists>p. ps = [p] \<and> discloses_nothing p)"
proof -
  obtain res s' where run: "walletPresent exWallet browserStorageAdapter exStore exRequest exState = (Inr res, s')"
      and used: "us_dcqlId ` set (wr_used res) = {''q''}" by (rule exE [OF exWalletRun]) (elim exE conjE)
  note P = present_backed_and_private [OF run]
  have "fst ` set (wr_vpToken res) = {''q''}" by (rule trans [OF conjunct1 [OF conjunct2 [OF P]] used])
  then show ?thesis using run conjunct1 [OF P] by (intro exI conjI)
qed

theorem choose_complete_witness:
  "\<exists>chosen. chooseAcrossSets exCountries exSummary (wp_dcql exRequest) [] = Inr chosen \<and> map ch_dcqlId chosen = [''q'']"
proof -
  have sat: "ms_satisfiable exSummary" by (simp add: exSummary_def)
  have ids: "map q_id (credentials (wp_dcql exRequest)) = [''q'']" and sets: "credentialSets (wp_dcql exRequest) = None"
    by (simp_all add: exRequest_def owlCredentialQuery_def)
  show ?thesis using choose_complete [OF exMatch sat, of "[]"] unfolding ids sets by auto
qed

theorem extension_matches_legacy_claim_witness:
  "credentialSatisfies exCountries exHeld (owlCredentialQuery ''q'' (Nationality_in [''nl'', ''DE''])) =
     credentialSatisfies exCountries exHeld \<lparr>q_id = ''q'', q_format = OWL_DCQL_FORMAT,
       q_claims = Some [toDcqlClaim (NationalityIn [''nl'', ''DE''])], q_owlPredicate = None\<rparr>"
proof -
  have "validCodes [''nl'', ''DE''] = map toUpperCase [''nl'', ''DE'']" by code_simp
  then show ?thesis
    using extension_matches_legacy_claim [of "Nationality_in [''nl'', ''DE'']" exCountries exHeld "''q''"] by simp
qed

theorem lower_case_countries_never_attested_witness:
  "\<exists>r. owlPredicateCovered [r] (Nationality_in [''nl'']) \<and>
     \<not> isRequired (Some (requiredAttestationsFor (owlCredentialQuery ''q'' (Nationality_in [''nl''])) None)) r"
  using lower_case_countries_never_attested [of "\<lparr>predicate = ''nationality'', threshold = None, min_age = None,
    max_age = None, epoch = None, app_id = None, country = Some ''NL''\<rparr>" "''q''" None] by force

definition exRevocations :: "unit revocationApi" where
  "exRevocations = \<lparr>rv_generateChallenge = returnA ''ch'',
     rv_revokeOwnCredential = (\<lambda>p c r. returnA \<lparr>ra_revoked = True, ra_credentialId = ''c1'', ra_alreadyRevoked = False\<rparr>)\<rparr>"

theorem revoke_proves_possession_witness:
  "\<exists>p. presentSdJwtVc plainNoble 1700000000 (wc_sdJwtVc exHeld) (hexEncode exHolder) [] SELF_REVOKE_AUDIENCE ''ch'' None = Inr p \<and>
     (\<exists>cred \<in> set (listCredentials browserStorageAdapter exStore). wc_credentialId cred = ''c1'')"
proof -
  have held: "wc_credentialId exHeld = ''c1''" "wc_sdJwtVc exHeld = serialize exStamped" by (simp_all add: exHeld_def exCred_def)
  obtain p where p: "presentSdJwtVc plainNoble 1700000000 (serialize exStamped) (hexEncode exHolder) [] SELF_REVOKE_AUDIENCE ''ch'' None = Inr p"
    by (auto simp: presentSdJwtVc_def exStamped_parse present_def exSigned_sign Let_def)
  have "walletRevoke exWallet exRevocations browserStorageAdapter exStore ''c1'' None () =
      (Inr \<lparr>ra_revoked = True, ra_credentialId = ''c1'', ra_alreadyRevoked = False\<rparr>, ())"
    using exHeld_facts held p
    by (simp add: walletRevoke_def exWallet_def exRevocations_def act_defs truthy_def)
  from revoke_proves_possession [OF this] p held show ?thesis by auto
qed

end
