(* ===== verification/Relay_Batcher.thy ===== *)
theory Relay_Batcher
  imports Owl_Prelude "HOL-Library.Multiset"
begin

text \<open>
  The relay batcher of the sidecar (\<open>packages/midnight-sidecar/src/relay-batcher.ts\<close>).  It buffers proven
  transactions for a short window or until the batch is full, hands the batch to \<open>opts.flush\<close> (merge,
  balance, submit) and settles the promise of every job; when a merged transaction fails it submits the
  members one by one.

  The batcher is a machine driven by events: a call of \<open>submit\<close>, the window timer, and the settling of a
  promise that \<open>opts.flush\<close> returned.  JavaScript runs each of them to completion, so one event is one step.
  A job is identified by the number of its \<open>submit\<close> call, a call of \<open>opts.flush\<close> by its own number.  The
  fields \<open>rb_settled\<close> (calls of \<open>resolve\<close> and \<open>reject\<close>) and \<open>rb_replies\<close> (results of \<open>opts.flush\<close>) are
  logs.  The telemetry hook \<open>onEvent\<close> is taken not to throw.
\<close>

section \<open>State and operations\<close>

record 't batchItem =
  bi_id :: nat
  bi_tx :: 't

datatype 't flushCall =
    Whole "'t batchItem list"
  | Single "'t batchItem"

datatype batchTelemetry =
    B_flush nat
  | B_ok nat string
  | B_error nat string
  | B_bisect nat string

record 't relayBatcher =
  rb_buf :: "'t batchItem list"
  rb_timer :: bool
  rb_nextJob :: nat
  rb_calls :: "(nat \<times> 't flushCall) list"
  rb_nextCall :: nat
  rb_settled :: "(nat \<times> (js_error + string)) list"
  rb_replies :: "(nat list \<times> (js_error + string)) list"
  rb_telemetry :: "batchTelemetry list"

datatype 't batcherEvent =
    Submit 't
  | WindowElapsed
  | FlushReply nat "js_error + string"

definition newBatcher :: "'t relayBatcher" where
  "newBatcher = \<lparr>rb_buf = [], rb_timer = False, rb_nextJob = 0, rb_calls = [], rb_nextCall = 0, rb_settled = [],
                 rb_replies = [], rb_telemetry = []\<rparr>"

definition telemetry :: "batchTelemetry \<Rightarrow> 't relayBatcher \<Rightarrow> 't relayBatcher" where
  "telemetry ev s = s\<lparr>rb_telemetry := rb_telemetry s @ [ev]\<rparr>"

text \<open>A call of \<open>opts.flush\<close>: it is outstanding until its promise settles.\<close>

definition callFlush :: "'t flushCall \<Rightarrow> 't relayBatcher \<Rightarrow> 't relayBatcher" where
  "callFlush c s = s\<lparr>rb_calls := rb_calls s @ [(rb_nextCall s, c)], rb_nextCall := Suc (rb_nextCall s)\<rparr>"

definition settleJob :: "(js_error + string) \<Rightarrow> 't relayBatcher \<Rightarrow> 't batchItem \<Rightarrow> 't relayBatcher" where
  "settleJob r s b = s\<lparr>rb_settled := rb_settled s @ [(bi_id b, r)]\<rparr>"

text \<open>\<open>flushNow\<close> up to its first \<open>await\<close>.\<close>

definition flushNow :: "'t relayBatcher \<Rightarrow> 't relayBatcher" where
  "flushNow s =
     (let batch = rb_buf s; s' = s\<lparr>rb_timer := False, rb_buf := []\<rparr> in
      if batch = [] then s' else callFlush (Whole batch) (telemetry (B_flush (length batch)) s'))"

definition submit :: "nat \<Rightarrow> 't relayBatcher \<Rightarrow> 't \<Rightarrow> 't relayBatcher" where
  "submit maxBatch s tx =
     (let s' = s\<lparr>rb_buf := rb_buf s @ [\<lparr>bi_id = rb_nextJob s, bi_tx = tx\<rparr>], rb_nextJob := Suc (rb_nextJob s)\<rparr> in
      if maxBatch \<le> length (rb_buf s') then flushNow s'
      else if \<not> rb_timer s' then s'\<lparr>rb_timer := True\<rparr>
      else s')"

text \<open>\<open>flushNow\<close> after the \<open>await\<close>: the batch landed, its only member failed, or it is split.\<close>

definition wholeReply :: "'t batchItem list \<Rightarrow> (js_error + string) \<Rightarrow> 't relayBatcher \<Rightarrow> 't relayBatcher" where
  "wholeReply batch r s =
     (case r of
        Inr chainTxId \<Rightarrow> foldl (settleJob r) (telemetry (B_ok (length batch) chainTxId) s) batch
      | Inl e \<Rightarrow>
          if length batch = 1 then settleJob r (telemetry (B_error 1 (message e)) s) (hd batch)
          else foldl (\<lambda>t b. callFlush (Single b) t) (telemetry (B_bisect (length batch) (message e)) s) batch)"

fun callJobs :: "'t flushCall \<Rightarrow> 't batchItem list" where
  "callJobs (Whole batch) = batch"
| "callJobs (Single b) = [b]"

definition flushReply :: "nat \<Rightarrow> (js_error + string) \<Rightarrow> 't relayBatcher \<Rightarrow> 't relayBatcher" where
  "flushReply n r s =
     (case map_of (rb_calls s) n of
        None \<Rightarrow> s
      | Some c \<Rightarrow>
          let s' = s\<lparr>rb_calls := filter (\<lambda>(m, _). m \<noteq> n) (rb_calls s),
                     rb_replies := rb_replies s @ [(map bi_id (callJobs c), r)]\<rparr>
          in (case c of
                Whole batch \<Rightarrow> wholeReply batch r s'
              | Single b \<Rightarrow> settleJob r s' b))"

fun batcherStep :: "nat \<Rightarrow> 't relayBatcher \<Rightarrow> 't batcherEvent \<Rightarrow> 't relayBatcher" where
  "batcherStep maxBatch s (Submit tx) = submit maxBatch s tx"
| "batcherStep maxBatch s WindowElapsed = (if rb_timer s then flushNow s else s)"
| "batcherStep maxBatch s (FlushReply n r) = flushReply n r s"

section \<open>Where the jobs are\<close>

definition callIds :: "(nat \<times> 't flushCall) list \<Rightarrow> nat list" where
  "callIds cs = concat (map (\<lambda>(_, c). map bi_id (callJobs c)) cs)"

definition settledIds :: "'t relayBatcher \<Rightarrow> nat list" where
  "settledIds s = map fst (rb_settled s)"

definition jobsOf :: "'t relayBatcher \<Rightarrow> nat multiset" where
  "jobsOf s = mset (map bi_id (rb_buf s)) + mset (callIds (rb_calls s)) + mset (settledIds s)"

fun callOk :: "nat \<Rightarrow> 't flushCall \<Rightarrow> bool" where
  "callOk maxBatch (Whole batch) \<longleftrightarrow> batch \<noteq> [] \<and> length batch \<le> max 1 maxBatch"
| "callOk maxBatch (Single b) \<longleftrightarrow> True"

definition callsOk :: "nat \<Rightarrow> 't relayBatcher \<Rightarrow> bool" where
  "callsOk maxBatch s \<longleftrightarrow>
     distinct (map fst (rb_calls s)) \<and> (\<forall>(n, c) \<in> set (rb_calls s). n < rb_nextCall s \<and> callOk maxBatch c)"

text \<open>A job resolves with what a flush that contained it returned; it is rejected only with the failure of a
  flush of this job alone.\<close>

fun outcomeBacked :: "(nat list \<times> (js_error + string)) list \<Rightarrow> nat \<times> (js_error + string) \<Rightarrow> bool" where
  "outcomeBacked replies (i, Inr c) \<longleftrightarrow> (\<exists>(ids, r) \<in> set replies. i \<in> set ids \<and> r = Inr c)"
| "outcomeBacked replies (i, Inl e) \<longleftrightarrow> ([i], Inl e) \<in> set replies"

definition batcherInv :: "nat \<Rightarrow> 't relayBatcher \<Rightarrow> bool" where
  "batcherInv maxBatch s \<longleftrightarrow>
     (rb_timer s \<longleftrightarrow> rb_buf s \<noteq> []) \<and> length (rb_buf s) < max 1 maxBatch \<and>
     jobsOf s = mset [0..<rb_nextJob s] \<and> callsOk maxBatch s \<and>
     (\<forall>x \<in> set (rb_settled s). outcomeBacked (rb_replies s) x)"


declare mset_upt [simp del]

lemmas batcher_defs =
  newBatcher_def telemetry_def callFlush_def settleJob_def

lemma callIds_simps [simp]:
  "callIds [] = []"
  "callIds ((n, c) # cs) = map bi_id (callJobs c) @ callIds cs"
  "callIds (cs @ ds) = callIds cs @ callIds ds"
  by (simp_all add: callIds_def)

text \<open>Settling a whole batch and splitting it, in closed form.\<close>

lemma foldl_settleJob:
  "foldl (settleJob r) s bs = s\<lparr>rb_settled := rb_settled s @ map (\<lambda>b. (bi_id b, r)) bs\<rparr>"
  by (induction bs arbitrary: s) (simp_all add: settleJob_def)

definition singleCalls :: "nat \<Rightarrow> 't batchItem list \<Rightarrow> (nat \<times> 't flushCall) list" where
  "singleCalls n bs = zip [n..<n + length bs] (map Single bs)"

lemma singleCalls_Cons: "singleCalls n (b # bs) = (n, Single b) # singleCalls (Suc n) bs"
  by (simp add: singleCalls_def upt_conv_Cons del: upt_Suc)

lemma foldl_callFlush:
  "foldl (\<lambda>t b. callFlush (Single b) t) s bs =
   s\<lparr>rb_calls := rb_calls s @ singleCalls (rb_nextCall s) bs, rb_nextCall := rb_nextCall s + length bs\<rparr>"
proof (induction bs arbitrary: s)
  case Nil
  then show ?case by (simp add: singleCalls_def)
next
  case (Cons b bs)
  show ?case by (simp add: Cons.IH singleCalls_Cons) (simp add: callFlush_def)
qed

lemma singleCalls_facts:
  "callIds (singleCalls n bs) = map bi_id bs"
  "map fst (singleCalls n bs) = [n..<n + length bs]"
  "(m, c) \<in> set (singleCalls n bs) \<Longrightarrow> m < n + length bs \<and> callOk k c"
proof -
  show "callIds (singleCalls n bs) = map bi_id bs"
    by (induction bs arbitrary: n) (simp_all add: singleCalls_Cons, simp add: singleCalls_def)
  show "map fst (singleCalls n bs) = [n..<n + length bs]"
    by (simp add: singleCalls_def)
  show "(m, c) \<in> set (singleCalls n bs) \<Longrightarrow> m < n + length bs \<and> callOk k c"
    by (auto simp: singleCalls_def set_zip)
qed

text \<open>Taking one outstanding call out of the list.\<close>

lemma take_call:
  assumes "distinct (map fst cs)" "map_of cs n = Some c"
  shows "mset (callIds cs) = mset (map bi_id (callJobs c)) + mset (callIds (filter (\<lambda>(m, _). m \<noteq> n) cs))"
  using assms
proof (induction cs)
  case (Cons p cs)
  obtain m d where p: "p = (m, d)" by (cases p)
  show ?case
  proof (cases "m = n")
    case True
    with Cons.prems p have "n \<notin> fst ` set cs" by simp
    then have "filter (\<lambda>(m, _). m \<noteq> n) cs = cs" by (intro filter_True) force
    with True Cons.prems p show ?thesis by simp
  next
    case False
    with Cons p show ?thesis by (simp add: add.left_commute)
  qed
qed simp

lemma distinct_filter_fst: "distinct (map fst cs) \<Longrightarrow> distinct (map fst (filter P cs))"
  by (induction cs) auto

section \<open>The invariant\<close>

lemma outcomeBacked_mono: "outcomeBacked rs x \<Longrightarrow> outcomeBacked (rs @ rs') x"
  by (cases "(rs, x)" rule: outcomeBacked.cases) auto

lemma batcherInv_new: "batcherInv maxBatch newBatcher"
  by (simp add: batcherInv_def newBatcher_def jobsOf_def callsOk_def settledIds_def)

lemma callsOk_callFlush:
  assumes "callsOk k s" "callOk k c"
  shows "callsOk k (callFlush c s)"
  using assms by (auto simp: callsOk_def callFlush_def less_Suc_eq)

lemma flushNow_inv:
  assumes "callsOk k s" "jobsOf s = mset [0..<rb_nextJob s]" "length (rb_buf s) \<le> max 1 k"
    "\<forall>x \<in> set (rb_settled s). outcomeBacked (rb_replies s) x"
  shows "batcherInv k (flushNow s)"
  using assms
  by (auto simp: batcherInv_def flushNow_def Let_def jobsOf_def settledIds_def callsOk_def callFlush_def
      telemetry_def less_Suc_eq ac_simps)

lemma submit_inv:
  assumes "batcherInv k s"
  shows "batcherInv k (submit k s tx)"
proof -
  let ?s = "s\<lparr>rb_buf := rb_buf s @ [\<lparr>bi_id = rb_nextJob s, bi_tx = tx\<rparr>], rb_nextJob := Suc (rb_nextJob s)\<rparr>"
  have jobs: "jobsOf ?s = mset [0..<rb_nextJob ?s]"
    using assms by (simp add: batcherInv_def jobsOf_def settledIds_def)
  have calls: "callsOk k ?s" using assms by (simp add: batcherInv_def callsOk_def)
  have out: "\<forall>x \<in> set (rb_settled ?s). outcomeBacked (rb_replies ?s) x"
    using assms by (simp add: batcherInv_def)
  show ?thesis
  proof (cases "k \<le> length (rb_buf ?s)")
    case True
    have "length (rb_buf ?s) \<le> max 1 k" using assms by (auto simp: batcherInv_def)
    from flushNow_inv[OF calls jobs this out] True show ?thesis by (simp add: submit_def)
  next
    case False
    with jobs calls out assms show ?thesis
      by (auto simp: submit_def Let_def batcherInv_def jobsOf_def settledIds_def callsOk_def)
  qed
qed

lemma wholeReply_inv:
  assumes "callsOk k s" "callOk k (Whole batch)"
    "rb_timer s \<longleftrightarrow> rb_buf s \<noteq> []" "length (rb_buf s) < max 1 k"
    "mset (map bi_id batch) + jobsOf s = mset [0..<rb_nextJob s]"
    "\<forall>x \<in> set (rb_settled s). outcomeBacked (rb_replies s) x" "(map bi_id batch, r) \<in> set (rb_replies s)"
  shows "batcherInv k (wholeReply batch r s)"
proof (cases r)
  case (Inr c)
  have "\<forall>b \<in> set batch. outcomeBacked (rb_replies s) (bi_id b, r)"
    using assms(7) Inr by (auto intro!: bexI[of _ "(map bi_id batch, r)"])
  with assms Inr show ?thesis
    by (auto simp: wholeReply_def foldl_settleJob telemetry_def batcherInv_def jobsOf_def settledIds_def callsOk_def
        comp_def ac_simps)
next
  case (Inl e)
  show ?thesis
  proof (cases "length batch = 1")
    case True
    then obtain b where "batch = [b]" by (auto simp: length_Suc_conv)
    with assms Inl show ?thesis
      by (auto simp: wholeReply_def settleJob_def telemetry_def batcherInv_def jobsOf_def settledIds_def callsOk_def)
  next
    case False
    have "callsOk k (wholeReply batch r s)"
      using assms(1) False Inl singleCalls_facts(3)[of _ _ "rb_nextCall s" batch]
      by (auto simp: wholeReply_def foldl_callFlush telemetry_def callsOk_def singleCalls_facts) 
    with assms False Inl show ?thesis
      by (auto simp: wholeReply_def foldl_callFlush telemetry_def batcherInv_def jobsOf_def settledIds_def
          singleCalls_facts ac_simps)
  qed
qed


lemma flushReply_inv:
  assumes "batcherInv k s"
  shows "batcherInv k (flushReply n r s)"
proof (cases "map_of (rb_calls s) n")
  case None
  with assms show ?thesis by (simp add: flushReply_def)
next
  case (Some c)
  let ?s = "s\<lparr>rb_calls := filter (\<lambda>(m, _). m \<noteq> n) (rb_calls s),
              rb_replies := rb_replies s @ [(map bi_id (callJobs c), r)]\<rparr>"
  have calls: "callsOk k ?s" "callOk k c"
    using assms Some map_of_SomeD[OF Some] by (auto simp: batcherInv_def callsOk_def distinct_filter_fst)
  have jobs: "mset (map bi_id (callJobs c)) + jobsOf ?s = mset [0..<rb_nextJob ?s]"
    using assms take_call[OF _ Some]
    by (simp add: batcherInv_def callsOk_def jobsOf_def settledIds_def ac_simps)
  have out: "\<forall>x \<in> set (rb_settled ?s). outcomeBacked (rb_replies ?s) x"
    using assms by (simp add: batcherInv_def outcomeBacked_mono)
  have buf: "rb_timer ?s \<longleftrightarrow> rb_buf ?s \<noteq> []" "length (rb_buf ?s) < max 1 k"
    using assms by (simp_all add: batcherInv_def)
  show ?thesis
  proof (cases c)
    case (Whole batch)
    have "batcherInv k (wholeReply batch r ?s)"
      using calls jobs out buf Whole by (intro wholeReply_inv) simp_all
    with Some Whole show ?thesis by (simp add: flushReply_def Let_def)
  next
    case (Single b)
    have "outcomeBacked (rb_replies ?s) (bi_id b, r)" using Single by (cases r) auto
    with calls jobs out buf Some Single show ?thesis
      by (auto simp: flushReply_def Let_def settleJob_def batcherInv_def jobsOf_def settledIds_def callsOk_def ac_simps)
  qed
qed

lemma window_inv:
  assumes "batcherInv k s"
  shows "batcherInv k (batcherStep k s WindowElapsed)"
proof -
  have "batcherInv k (flushNow s)" by (rule flushNow_inv) (use assms in \<open>simp_all add: batcherInv_def\<close>)
  with assms show ?thesis by simp
qed

lemma batcherStep_inv: "batcherInv k s \<Longrightarrow> batcherInv k (batcherStep k s e)"
  by (cases e) (auto simp: submit_inv flushReply_inv window_inv simp del: batcherStep.simps(2))

interpretation batcher: event_machine "batcherStep k" "batcherInv k" for k
  by unfold_locales (rule batcherStep_inv)

definition runBatcher :: "nat \<Rightarrow> 't batcherEvent list \<Rightarrow> 't relayBatcher" where
  "runBatcher maxBatch es = run_events (batcherStep maxBatch) newBatcher es"

lemma runBatcher_inv: "batcherInv k (runBatcher k es)"
  unfolding runBatcher_def by (rule batcher.run_inv[OF batcherInv_new])

section \<open>Progress\<close>

fun callWork :: "'t flushCall \<Rightarrow> nat" where
  "callWork (Whole batch) = length batch + 1"
| "callWork (Single b) = 1"

definition batcherWork :: "'t relayBatcher \<Rightarrow> nat" where
  "batcherWork s =
     (if rb_buf s = [] then 0 else length (rb_buf s) + 2) + sum_list (map (\<lambda>(_, c). callWork c) (rb_calls s))"

lemma singleCalls_work: "sum_list (map (\<lambda>(_, c). callWork c) (singleCalls n bs)) = length bs"
  by (induction bs arbitrary: n) (simp_all add: singleCalls_Cons, simp add: singleCalls_def)

lemma take_call_work:
  assumes "distinct (map fst cs)" "map_of cs n = Some c"
  shows "sum_list (map (\<lambda>(_, c). callWork c) cs) =
         callWork c + sum_list (map (\<lambda>(_, c). callWork c) (filter (\<lambda>(m, _). m \<noteq> n) cs))"
  using assms
proof (induction cs)
  case (Cons p cs)
  obtain m d where p: "p = (m, d)" by (cases p)
  show ?case
  proof (cases "m = n")
    case True
    with Cons.prems p have "n \<notin> fst ` set cs" by simp
    then have "filter (\<lambda>(m, _). m \<noteq> n) cs = cs" by (intro filter_True) force
    with True Cons.prems p show ?thesis by simp
  next
    case False
    with Cons p show ?thesis by simp
  qed
qed simp

lemma window_work:
  assumes "batcherInv k s" "rb_timer s"
  shows "batcherWork (batcherStep k s WindowElapsed) < batcherWork s"
  using assms by (simp add: batcherInv_def batcherWork_def flushNow_def Let_def callFlush_def telemetry_def)

lemma reply_work:
  assumes "batcherInv k s" "(n, c) \<in> set (rb_calls s)"
  shows "batcherWork (batcherStep k s (FlushReply n r)) < batcherWork s"
proof -
  have d: "distinct (map fst (rb_calls s))" using assms(1) by (simp add: batcherInv_def callsOk_def)
  with assms(2) have m: "map_of (rb_calls s) n = Some c" by simp
  note w = take_call_work[OF d m]
  show ?thesis
    by (cases c; cases r)
      (auto simp: flushReply_def m w Let_def wholeReply_def foldl_settleJob foldl_callFlush settleJob_def telemetry_def
        batcherWork_def singleCalls_work)
qed

lemma calls_work_bound:
  assumes "\<forall>(n, c) \<in> set cs. callOk k c"
  shows "sum_list (map (\<lambda>(_, c). callWork c) cs) \<le> 2 * length (callIds cs)"
  using assms
proof (induction cs)
  case (Cons p cs)
  obtain n c where p: "p = (n, c)" by (cases p)
  with Cons.prems have ok: "callOk k c" by simp
  have "callWork c \<le> 2 * length (callJobs c)"
  proof (cases c)
    case (Whole batch)
    with ok have "1 \<le> length batch" by (cases batch) auto
    with Whole show ?thesis by simp
  qed simp
  with Cons p show ?case by simp
qed simp

section \<open>Properties\<close>

lemma settled_distinct:
  assumes "batcherInv k s"
  shows "distinct (settledIds s)"
proof -
  have "mset (map bi_id (rb_buf s) @ callIds (rb_calls s) @ settledIds s) = mset [0..<rb_nextJob s]"
    using assms by (simp add: batcherInv_def jobsOf_def ac_simps)
  then have "distinct (map bi_id (rb_buf s) @ callIds (rb_calls s) @ settledIds s)"
    using distinct_upt mset_eq_imp_distinct_iff by blast
  then show ?thesis by simp
qed

text \<open>C24: Whatever the order of submissions, window timers and flush results, every job the batcher has accepted is
  in exactly one place: in the buffer, in exactly one outstanding flush, or settled; so no promise is settled
  twice and no job is dropped.  The window timer runs exactly while the buffer holds a job, the buffer stays below
  the batch limit, and no batch handed to \<open>opts.flush\<close> is empty or larger than the limit.\<close>

theorem batcher_jobs_conserved:
  "let s = runBatcher maxBatch es in
     mset (map bi_id (rb_buf s)) + mset (callIds (rb_calls s)) + mset (settledIds s) = mset [0..<rb_nextJob s] \<and>
     distinct (settledIds s) \<and>
     (rb_timer s \<longleftrightarrow> rb_buf s \<noteq> []) \<and>
     length (rb_buf s) < max 1 maxBatch \<and>
     list_all (\<lambda>(n, c). callOk maxBatch c) (rb_calls s)"
  using runBatcher_inv[of maxBatch es] settled_distinct[OF runBatcher_inv[of maxBatch es]]
  by (auto simp: Let_def batcherInv_def jobsOf_def callsOk_def list_all_iff)

text \<open>One invalid transaction cannot take its batch down.  A job resolves only with the chain transaction id
  that a flush containing it returned, and it is rejected only with the failure of a flush of this transaction
  alone: the failure of a merged batch of several jobs never rejects any of them.\<close>

theorem batcher_poison_isolated:
  assumes "(i, r) \<in> set (rb_settled (runBatcher maxBatch es))"
  shows "case r of
           Inr chainTxId \<Rightarrow> \<exists>ids. (ids, Inr chainTxId) \<in> set (rb_replies (runBatcher maxBatch es)) \<and> i \<in> set ids
         | Inl e \<Rightarrow> ([i], Inl e) \<in> set (rb_replies (runBatcher maxBatch es))"
proof -
  have "outcomeBacked (rb_replies (runBatcher maxBatch es)) (i, r)"
    using assms runBatcher_inv[of maxBatch es] by (auto simp: batcherInv_def)
  then show ?thesis by (cases r) auto
qed

text \<open>C26: The batcher always drains.  In every state it can reach, the timer that fires and every flush result that
  comes in strictly lower a measure of the work left, which is at most three times the number of unsettled jobs;
  while work is left, the timer runs or a flush is outstanding, and when none is left every job is settled.\<close>

theorem batcher_drains:
  assumes "s = runBatcher maxBatch es"
  shows "(rb_timer s \<longrightarrow> batcherWork (batcherStep maxBatch s WindowElapsed) < batcherWork s) \<and>
         (\<forall>(n, c) \<in> set (rb_calls s). \<forall>r. batcherWork (batcherStep maxBatch s (FlushReply n r)) < batcherWork s) \<and>
         batcherWork s \<le> 3 * (rb_nextJob s - length (rb_settled s)) \<and>
         (0 < batcherWork s \<longrightarrow> rb_timer s \<or> rb_calls s \<noteq> []) \<and>
         (batcherWork s = 0 \<longrightarrow> mset (settledIds s) = mset [0..<rb_nextJob s])"
proof (intro conjI impI)
  have inv: "batcherInv maxBatch s" unfolding assms by (rule runBatcher_inv)
  show "batcherWork (batcherStep maxBatch s WindowElapsed) < batcherWork s" if "rb_timer s"
    using window_work[OF inv that] .
  show "\<forall>(n, c) \<in> set (rb_calls s). \<forall>r. batcherWork (batcherStep maxBatch s (FlushReply n r)) < batcherWork s"
    using reply_work[OF inv] by blast
  have "size (jobsOf s) = rb_nextJob s" using inv by (simp add: batcherInv_def)
  then have "length (rb_buf s) + length (callIds (rb_calls s)) + length (rb_settled s) = rb_nextJob s"
    by (simp add: jobsOf_def settledIds_def)
  moreover have "sum_list (map (\<lambda>(_, c). callWork c) (rb_calls s)) \<le> 2 * length (callIds (rb_calls s))"
    using inv by (intro calls_work_bound[of _ maxBatch]) (auto simp: batcherInv_def callsOk_def)
  ultimately show "batcherWork s \<le> 3 * (rb_nextJob s - length (rb_settled s))"
    by (cases "rb_buf s") (auto simp: batcherWork_def)
  show "rb_timer s \<or> rb_calls s \<noteq> []" if "0 < batcherWork s"
    using that inv by (auto simp: batcherInv_def batcherWork_def split: if_splits)
  show "mset (settledIds s) = mset [0..<rb_nextJob s]" if "batcherWork s = 0"
  proof -
    have "rb_buf s = []" using that by (auto simp: batcherWork_def split: if_splits)
    moreover have "rb_calls s = []"
    proof (rule ccontr)
      assume "rb_calls s \<noteq> []"
      then obtain n c where "(n, c) \<in> set (rb_calls s)" by (cases "rb_calls s") auto
      from reply_work[OF inv this, of "Inr []"] that show False by simp
    qed
    ultimately show ?thesis using inv by (simp add: batcherInv_def jobsOf_def)
  qed
qed

section \<open>Witnesses\<close>

text \<open>Three jobs in batches of two: the first batch fails as a whole, its second member fails alone; the third job
  waits for the window.\<close>

definition exBatchEvents :: "string batcherEvent list" where
  "exBatchEvents =
     [Submit ''a'', Submit ''b'', FlushReply 0 (Inl (Error ''assert'')), Submit ''c'',
      FlushReply 2 (Inl (Error ''bad b'')), FlushReply 1 (Inr ''tx1'')]"

lemma exBatch_settled: "rb_settled (runBatcher 2 exBatchEvents) = [(1, Inl (Error ''bad b'')), (0, Inr ''tx1'')]"
  by code_simp

theorem batcher_poison_isolated_witness:
  "([1], Inl (Error ''bad b'')) \<in> set (rb_replies (runBatcher 2 exBatchEvents))"
  using batcher_poison_isolated[of 1 "Inl (Error ''bad b'')" 2 exBatchEvents] by (simp add: exBatch_settled)

theorem batcher_drains_witness:
  "batcherWork (batcherStep 2 (runBatcher 2 exBatchEvents) WindowElapsed) < batcherWork (runBatcher 2 exBatchEvents)"
proof -
  have "rb_timer (runBatcher 2 exBatchEvents)" by code_simp
  then show ?thesis using batcher_drains[OF refl, of 2 exBatchEvents] by blast
qed

end
