(* ===== verification/Submit_Pipeline.thy ===== *)
theory Submit_Pipeline
  imports Owl_Prelude
begin

text \<open>
  The submit pipeline of the sidecar's wallet (\<open>packages/midnight-sidecar/src/submit-pipeline.ts\<close>,
  \<open>dust-errors.ts\<close>) on the single-writer promise chain of the wallet supervisor (\<open>serialize\<close> in
  \<open>wallet-supervisor.ts\<close>).  Any number of submits run at once: each one balances and reserves inside the
  chain, broadcasts outside it, and reverts inside it again when the broadcast failed.

  One event is one promise settling, so a run of the machine is one interleaving of all the calls.  The wallet
  of the Midnight SDK is not part of the sources: the model keeps the set of UTXOs it holds as pending and what
  each of its calls does to that set.  \<open>reserve\<close> adds the inputs of a balanced transaction, \<open>revert\<close> removes
  them, the other jobs on the chain (reaper sweep, eviction of finalized transactions, dust registration) may
  leave any set behind, and outside the chain the SDK only ever clears entries.  That \<open>balanceTx\<close> selects
  from the UTXOs that were not pending when it was called is the hypothesis \<open>pipeAllowed\<close>.
\<close>

section \<open>Dust shortfalls\<close>

text \<open>The regular expression \<open>insufficient\s*funds\<close>, searched anywhere in the lower-cased message.\<close>

fun insufficientFunds :: "string \<Rightarrow> bool" where
  "insufficientFunds [] \<longleftrightarrow> False"
| "insufficientFunds (c # cs) \<longleftrightarrow>
     startsWith (c # cs) ''insufficient'' \<and> startsWith (dropWhile isSpace (drop 12 (c # cs))) ''funds'' \<or>
     insufficientFunds cs"

definition isDustShortfallError :: "js_error \<Rightarrow> bool" where
  "isDustShortfallError e \<longleftrightarrow>
     (let msg = toLowerCase (message e) in insufficientFunds msg \<or> includesStr msg ''could not balance dust'')"

section \<open>State and operations\<close>

text \<open>Where a submit is.  \<open>Balancing\<close> remembers the UTXOs that were pending when the balance began.\<close>

datatype ('b, 'u, 'o) phase =
    Queued
  | CheckingReady
  | Balancing nat "'u list"
  | Reserving nat 'b
  | Reaping nat
  | Settling nat
  | Broadcasting 'b
  | RevertQueued 'b js_error
  | Reverting 'b js_error
  | Done "'o res"

datatype serialJob = SubmitJob nat | RevertJob nat | WalletJob

datatype 'b depCall =
    C_ensureReady nat
  | C_balanceTx nat
  | C_reserve nat 'b
  | C_reapStalePending nat
  | C_sleep nat
  | C_broadcast nat 'b
  | C_revert nat 'b

datatype submitTelemetry =
    T_retry nat nat string
  | T_reserved
  | T_broadcast_ok
  | T_broadcast_failed string

record ('b, 'u, 'o) pipeline =
  sp_tasks :: "nat \<Rightarrow> ('b, 'u, 'o) phase option"
  sp_next :: nat
  sp_chain :: "serialJob list"
  sp_running :: "serialJob option"
  sp_depth :: nat
  sp_pending :: "'u list"
  sp_reserved :: "(nat \<times> 'b \<times> 'u list) list"
  sp_calls :: "'b depCall list"
  sp_telemetry :: "submitTelemetry list"

record ('b, 'u) pipeDeps =
  pd_dustRetryAttempts :: "int option"
  pd_inputs :: "'b \<Rightarrow> 'u list"

datatype ('b, 'u, 'o) pipeEvent =
    SubmitCalled
  | WalletJobQueued
  | ChainAdvances
  | ReadyReply nat "unit res"
  | BalanceReply nat "'b res"
  | ReserveReply nat "unit res"
  | ReapReply nat "'u list" "unit res"
  | SleepOver nat
  | BroadcastReply nat "'o res"
  | RevertReply nat "unit res"
  | WalletJobDone "'u list"
  | Finalized "'u list"

definition maxRetries :: "('b, 'u) pipeDeps \<Rightarrow> nat" where
  "maxRetries D = nat (max 0 (the_or 1 (pd_dustRetryAttempts D)))"

definition newPipeline :: "('b, 'u, 'o) pipeline" where
  "newPipeline = \<lparr>sp_tasks = Map.empty, sp_next = 0, sp_chain = [], sp_running = None, sp_depth = 0, sp_pending = [],
                  sp_reserved = [], sp_calls = [], sp_telemetry = []\<rparr>"

definition goTo :: "nat \<Rightarrow> ('b, 'u, 'o) phase \<Rightarrow> ('b, 'u, 'o) pipeline \<Rightarrow> ('b, 'u, 'o) pipeline" where
  "goTo i p s = s\<lparr>sp_tasks := (sp_tasks s)(i \<mapsto> p)\<rparr>"

definition depCalled :: "'b depCall \<Rightarrow> ('b, 'u, 'o) pipeline \<Rightarrow> ('b, 'u, 'o) pipeline" where
  "depCalled c s = s\<lparr>sp_calls := sp_calls s @ [c]\<rparr>"

definition emitted :: "submitTelemetry \<Rightarrow> ('b, 'u, 'o) pipeline \<Rightarrow> ('b, 'u, 'o) pipeline" where
  "emitted t s = s\<lparr>sp_telemetry := sp_telemetry s @ [t]\<rparr>"

definition setPending :: "'u list \<Rightarrow> ('b, 'u, 'o) pipeline \<Rightarrow> ('b, 'u, 'o) pipeline" where
  "setPending us s = s\<lparr>sp_pending := us\<rparr>"

text \<open>\<open>serialize\<close>: a job goes to the end of the chain; when it settles, fulfilled or rejected, the chain moves on.\<close>

definition serializeJob :: "serialJob \<Rightarrow> ('b, 'u, 'o) pipeline \<Rightarrow> ('b, 'u, 'o) pipeline" where
  "serializeJob j s = s\<lparr>sp_depth := Suc (sp_depth s), sp_chain := sp_chain s @ [j]\<rparr>"

definition jobSettled :: "('b, 'u, 'o) pipeline \<Rightarrow> ('b, 'u, 'o) pipeline" where
  "jobSettled s = s\<lparr>sp_running := None, sp_depth := sp_depth s - 1\<rparr>"

definition submitCalled :: "('b, 'u, 'o) pipeline \<Rightarrow> ('b, 'u, 'o) pipeline" where
  "submitCalled s = serializeJob (SubmitJob (sp_next s)) (goTo (sp_next s) Queued (s\<lparr>sp_next := Suc (sp_next s)\<rparr>))"

definition balanceAndReserve :: "nat \<Rightarrow> nat \<Rightarrow> ('b, 'u, 'o) pipeline \<Rightarrow> ('b, 'u, 'o) pipeline" where
  "balanceAndReserve i attempt s = goTo i (Balancing attempt (sp_pending s)) (depCalled (C_balanceTx i) s)"

definition failJob :: "nat \<Rightarrow> js_error \<Rightarrow> ('b, 'u, 'o) pipeline \<Rightarrow> ('b, 'u, 'o) pipeline" where
  "failJob i e s = jobSettled (goTo i (Done (Inl e)) s)"

text \<open>The \<open>catch\<close> of phase 1.\<close>

definition balanceFailed ::
  "('b, 'u) pipeDeps \<Rightarrow> nat \<Rightarrow> nat \<Rightarrow> js_error \<Rightarrow> ('b, 'u, 'o) pipeline \<Rightarrow> ('b, 'u, 'o) pipeline" where
  "balanceFailed D i attempt e s =
     (if \<not> isDustShortfallError e \<or> maxRetries D \<le> attempt then failJob i e s
      else goTo i (Reaping attempt) (depCalled (C_reapStalePending i)
             (emitted (T_retry (attempt + 1) (maxRetries D) (message e)) s)))"

text \<open>\<open>writeChain.then(fn, fn)\<close>: the job at the head of the chain starts once the one before it has settled.\<close>

definition startJob :: "serialJob \<Rightarrow> ('b, 'u, 'o) pipeline \<Rightarrow> ('b, 'u, 'o) pipeline" where
  "startJob j s =
     (case j of
        SubmitJob i \<Rightarrow> goTo i CheckingReady (depCalled (C_ensureReady i) s)
      | RevertJob i \<Rightarrow>
          (case sp_tasks s i of
             Some (RevertQueued b e) \<Rightarrow> goTo i (Reverting b e) (depCalled (C_revert i b) s)
           | _ \<Rightarrow> s)
      | WalletJob \<Rightarrow> s)"

definition chainAdvances :: "('b, 'u, 'o) pipeline \<Rightarrow> ('b, 'u, 'o) pipeline" where
  "chainAdvances s =
     (case (sp_running s, sp_chain s) of
        (None, j # js) \<Rightarrow> startJob j (s\<lparr>sp_running := Some j, sp_chain := js\<rparr>)
      | _ \<Rightarrow> s)"

definition reserveReply ::
  "('b, 'u) pipeDeps \<Rightarrow> nat \<Rightarrow> nat \<Rightarrow> 'b \<Rightarrow> unit res \<Rightarrow> ('b, 'u, 'o) pipeline \<Rightarrow> ('b, 'u, 'o) pipeline" where
  "reserveReply D i attempt b r s =
     (case r of
        Inl e \<Rightarrow> balanceFailed D i attempt e s
      | Inr _ \<Rightarrow>
          goTo i (Broadcasting b) (depCalled (C_broadcast i b) (emitted T_reserved (jobSettled
            (s\<lparr>sp_pending := pd_inputs D b @ sp_pending s, sp_reserved := sp_reserved s @ [(i, b, sp_pending s)]\<rparr>)))))"

definition broadcastReply :: "nat \<Rightarrow> 'b \<Rightarrow> 'o res \<Rightarrow> ('b, 'u, 'o) pipeline \<Rightarrow> ('b, 'u, 'o) pipeline" where
  "broadcastReply i b r s =
     (case r of
        Inr out \<Rightarrow> goTo i (Done (Inr out)) (emitted T_broadcast_ok s)
      | Inl e \<Rightarrow> goTo i (RevertQueued b e) (serializeJob (RevertJob i) (emitted (T_broadcast_failed (message e)) s)))"

definition revertReply ::
  "('b, 'u) pipeDeps \<Rightarrow> nat \<Rightarrow> 'b \<Rightarrow> js_error \<Rightarrow> unit res \<Rightarrow> ('b, 'u, 'o) pipeline \<Rightarrow> ('b, 'u, 'o) pipeline" where
  "revertReply D i b e r s =
     failJob i e (if isInr r then setPending (filter (\<lambda>u. u \<notin> set (pd_inputs D b)) (sp_pending s)) s else s)"

fun pipeStep ::
  "('b, 'u) pipeDeps \<Rightarrow> ('b, 'u, 'o) pipeline \<Rightarrow> ('b, 'u, 'o) pipeEvent \<Rightarrow> ('b, 'u, 'o) pipeline" where
  "pipeStep D s SubmitCalled = submitCalled s"
| "pipeStep D s WalletJobQueued = serializeJob WalletJob s"
| "pipeStep D s ChainAdvances = chainAdvances s"
| "pipeStep D s (ReadyReply i r) =
     (if sp_tasks s i = Some CheckingReady then
        (case r of Inl e \<Rightarrow> failJob i e s | Inr _ \<Rightarrow> balanceAndReserve i 0 s)
      else s)"
| "pipeStep D s (BalanceReply i r) =
     (case sp_tasks s i of
        Some (Balancing n seen) \<Rightarrow>
          (case r of Inl e \<Rightarrow> balanceFailed D i n e s | Inr b \<Rightarrow> goTo i (Reserving n b) (depCalled (C_reserve i b) s))
      | _ \<Rightarrow> s)"
| "pipeStep D s (ReserveReply i r) =
     (case sp_tasks s i of Some (Reserving n b) \<Rightarrow> reserveReply D i n b r s | _ \<Rightarrow> s)"
| "pipeStep D s (ReapReply i us r) =
     (case sp_tasks s i of
        Some (Reaping n) \<Rightarrow>
          (case r of Inl e \<Rightarrow> failJob i e (setPending us s)
           | Inr _ \<Rightarrow> goTo i (Settling n) (depCalled (C_sleep i) (setPending us s)))
      | _ \<Rightarrow> s)"
| "pipeStep D s (SleepOver i) =
     (case sp_tasks s i of Some (Settling n) \<Rightarrow> balanceAndReserve i (Suc n) s | _ \<Rightarrow> s)"
| "pipeStep D s (BroadcastReply i r) =
     (case sp_tasks s i of Some (Broadcasting b) \<Rightarrow> broadcastReply i b r s | _ \<Rightarrow> s)"
| "pipeStep D s (RevertReply i r) =
     (case sp_tasks s i of Some (Reverting b e) \<Rightarrow> revertReply D i b e r s | _ \<Rightarrow> s)"
| "pipeStep D s (WalletJobDone us) =
     (if sp_running s = Some WalletJob then jobSettled (setPending us s) else s)"
| "pipeStep D s (Finalized us) = setPending (filter (\<lambda>u. u \<notin> set us) (sp_pending s)) s"

definition runPipeline ::
  "('b, 'u) pipeDeps \<Rightarrow> ('b, 'u, 'o) pipeEvent list \<Rightarrow> ('b, 'u, 'o) pipeline" where
  "runPipeline D es = run_events (pipeStep D) newPipeline es"

text \<open>What the wallet SDK documents of \<open>balanceTx\<close>: the inputs it selects were not pending when it was called.\<close>

fun pipeAllowed :: "('b, 'u) pipeDeps \<Rightarrow> ('b, 'u, 'o) pipeline \<Rightarrow> ('b, 'u, 'o) pipeEvent \<Rightarrow> bool" where
  "pipeAllowed D s (BalanceReply i (Inr b)) \<longleftrightarrow>
     (case sp_tasks s i of Some (Balancing n seen) \<Rightarrow> set (pd_inputs D b) \<inter> set seen = {} | _ \<Rightarrow> True)"
| "pipeAllowed D s e \<longleftrightarrow> True"

section \<open>The invariant\<close>

fun holdsChain :: "('b, 'u, 'o) phase \<Rightarrow> bool" where
  "holdsChain CheckingReady \<longleftrightarrow> True"
| "holdsChain (Balancing n seen) \<longleftrightarrow> True"
| "holdsChain (Reserving n b) \<longleftrightarrow> True"
| "holdsChain (Reaping n) \<longleftrightarrow> True"
| "holdsChain (Settling n) \<longleftrightarrow> True"
| "holdsChain p \<longleftrightarrow> False"

fun isReverting :: "('b, 'u, 'o) phase \<Rightarrow> bool" where
  "isReverting (Reverting b e) \<longleftrightarrow> True"
| "isReverting p \<longleftrightarrow> False"

fun isRevertQueued :: "('b, 'u, 'o) phase \<Rightarrow> bool" where
  "isRevertQueued (RevertQueued b e) \<longleftrightarrow> True"
| "isRevertQueued p \<longleftrightarrow> False"

definition balancesOf :: "nat \<Rightarrow> 'b depCall list \<Rightarrow> nat" where
  "balancesOf i cs = length (filter (\<lambda>c. c = C_balanceTx i) cs)"

definition broadcastsOf :: "nat \<Rightarrow> 'b depCall list \<Rightarrow> nat" where
  "broadcastsOf i cs = length (filter (\<lambda>c. case c of C_broadcast j b \<Rightarrow> j = i | _ \<Rightarrow> False) cs)"

definition revertsOf :: "nat \<Rightarrow> 'b depCall list \<Rightarrow> nat" where
  "revertsOf i cs = length (filter (\<lambda>c. case c of C_revert j b \<Rightarrow> j = i | _ \<Rightarrow> False) cs)"

text \<open>The calls a submit has made by the time it is in a phase: balances, broadcasts, reverts.\<close>

fun callsAt :: "nat \<Rightarrow> nat \<times> nat \<times> nat \<Rightarrow> ('b, 'u, 'o) phase \<Rightarrow> bool" where
  "callsAt R (n, m, k) Queued \<longleftrightarrow> n = 0 \<and> m = 0 \<and> k = 0"
| "callsAt R (n, m, k) CheckingReady \<longleftrightarrow> n = 0 \<and> m = 0 \<and> k = 0"
| "callsAt R (n, m, k) (Balancing a seen) \<longleftrightarrow> n = Suc a \<and> a \<le> R \<and> m = 0 \<and> k = 0"
| "callsAt R (n, m, k) (Reserving a b) \<longleftrightarrow> n = Suc a \<and> a \<le> R \<and> m = 0 \<and> k = 0"
| "callsAt R (n, m, k) (Reaping a) \<longleftrightarrow> n = Suc a \<and> a < R \<and> m = 0 \<and> k = 0"
| "callsAt R (n, m, k) (Settling a) \<longleftrightarrow> n = Suc a \<and> a < R \<and> m = 0 \<and> k = 0"
| "callsAt R (n, m, k) (Broadcasting b) \<longleftrightarrow> n \<le> Suc R \<and> m = 1 \<and> k = 0"
| "callsAt R (n, m, k) (RevertQueued b e) \<longleftrightarrow> n \<le> Suc R \<and> m = 1 \<and> k = 0"
| "callsAt R (n, m, k) (Reverting b e) \<longleftrightarrow> n \<le> Suc R \<and> m = 1 \<and> k = 1"
| "callsAt R (n, m, k) (Done (Inr out)) \<longleftrightarrow> n \<le> Suc R \<and> m = 1 \<and> k = 0"
| "callsAt R (n, m, k) (Done (Inl e)) \<longleftrightarrow> n \<le> Suc R \<and> m \<le> 1 \<and> k = m"

definition callCounts :: "nat \<Rightarrow> 'b depCall list \<Rightarrow> nat \<times> nat \<times> nat" where
  "callCounts i cs = (balancesOf i cs, broadcastsOf i cs, revertsOf i cs)"

text \<open>The UTXO discipline: what a balance in progress sees as pending covers what is pending now.\<close>

fun freshAt :: "('b, 'u) pipeDeps \<Rightarrow> 'u list \<Rightarrow> ('b, 'u, 'o) phase \<Rightarrow> bool" where
  "freshAt D pend (Balancing n seen) \<longleftrightarrow> set pend \<subseteq> set seen"
| "freshAt D pend (Reserving n b) \<longleftrightarrow> set (pd_inputs D b) \<inter> set pend = {}"
| "freshAt D pend p \<longleftrightarrow> True"

definition taskInv :: "('b, 'u) pipeDeps \<Rightarrow> ('b, 'u, 'o) pipeline \<Rightarrow> nat \<Rightarrow> ('b, 'u, 'o) phase \<Rightarrow> bool" where
  "taskInv D s i p \<longleftrightarrow>
     (holdsChain p \<longleftrightarrow> sp_running s = Some (SubmitJob i)) \<and>
     (isReverting p \<longleftrightarrow> sp_running s = Some (RevertJob i)) \<and>
     (p = Queued \<longleftrightarrow> SubmitJob i \<in> set (sp_chain s)) \<and>
     (isRevertQueued p \<longleftrightarrow> RevertJob i \<in> set (sp_chain s)) \<and>
     callsAt (maxRetries D) (callCounts i (sp_calls s)) p"

fun ownerBelow :: "nat \<Rightarrow> serialJob \<Rightarrow> bool" where
  "ownerBelow n (SubmitJob i) \<longleftrightarrow> i < n"
| "ownerBelow n (RevertJob i) \<longleftrightarrow> i < n"
| "ownerBelow n WalletJob \<longleftrightarrow> True"

definition chainInv :: "('b, 'u, 'o) pipeline \<Rightarrow> bool" where
  "chainInv s \<longleftrightarrow>
     distinct (filter (\<lambda>j. j \<noteq> WalletJob) (sp_chain s)) \<and>
     sp_depth s = length (sp_chain s) + (if sp_running s = None then 0 else 1) \<and>
     (\<forall>j \<in> set (sp_chain s). ownerBelow (sp_next s) j) \<and>
     (\<forall>j. sp_running s = Some j \<longrightarrow> ownerBelow (sp_next s) j)"

definition callsInv :: "('b, 'u, 'o) pipeline \<Rightarrow> bool" where
  "callsInv s \<longleftrightarrow>
     (\<forall>i \<ge> sp_next s. sp_tasks s i = None \<and> callCounts i (sp_calls s) = (0, 0, 0)) \<and>
     (\<forall>i < sp_next s. sp_tasks s i \<noteq> None) \<and>
     (\<forall>i b. C_broadcast i b \<in> set (sp_calls s) \<longrightarrow> (\<exists>pend. (i, b, pend) \<in> set (sp_reserved s)))"

definition pipeInv :: "('b, 'u) pipeDeps \<Rightarrow> ('b, 'u, 'o) pipeline \<Rightarrow> bool" where
  "pipeInv D s \<longleftrightarrow>
     (\<forall>i p. sp_tasks s i = Some p \<longrightarrow> taskInv D s i p \<and> freshAt D (sp_pending s) p) \<and> chainInv s \<and> callsInv s \<and>
     (\<forall>(i, b, pend) \<in> set (sp_reserved s). set (pd_inputs D b) \<inter> set pend = {})"


lemmas pipe_ops [simp] =
  goTo_def depCalled_def emitted_def setPending_def serializeJob_def jobSettled_def balanceAndReserve_def failJob_def

lemma callCounts_Nil [simp]: "callCounts i [] = (0, 0, 0)"
  by (simp add: callCounts_def balancesOf_def broadcastsOf_def revertsOf_def)

lemma callCounts_snoc [simp]:
  "callCounts i (cs @ [C_ensureReady j]) = callCounts i cs"
  "callCounts i (cs @ [C_reserve j b]) = callCounts i cs"
  "callCounts i (cs @ [C_reapStalePending j]) = callCounts i cs"
  "callCounts i (cs @ [C_sleep j]) = callCounts i cs"
  "callCounts i (cs @ [C_balanceTx j]) =
     (case callCounts i cs of (n, m, k) \<Rightarrow> (if j = i then Suc n else n, m, k))"
  "callCounts i (cs @ [C_broadcast j b]) =
     (case callCounts i cs of (n, m, k) \<Rightarrow> (n, if j = i then Suc m else m, k))"
  "callCounts i (cs @ [C_revert j b]) =
     (case callCounts i cs of (n, m, k) \<Rightarrow> (n, m, if j = i then Suc k else k))"
  by (auto simp: callCounts_def balancesOf_def broadcastsOf_def revertsOf_def)

lemma pipeInv_new: "pipeInv D newPipeline"
  by (simp add: pipeInv_def newPipeline_def chainInv_def callsInv_def)

text \<open>A step of one submit: every other submit keeps its phase and its counts.\<close>

lemma pipeInvD:
  assumes "pipeInv D s" "sp_tasks s i = Some p"
  shows "taskInv D s i p" "freshAt D (sp_pending s) p"
  using assms by (auto simp: pipeInv_def)

text \<open>At most one submit holds the chain, and then no pending set but its own view matters.\<close>

lemma chain_holder_unique:
  assumes "pipeInv D s" "sp_tasks s i = Some p" "sp_tasks s j = Some q" "holdsChain p" "holdsChain q"
  shows "i = j"
  using pipeInvD(1)[OF assms(1,2)] pipeInvD(1)[OF assms(1,3)] assms(4,5) by (auto simp: taskInv_def)

lemma fresh_unless_holder: "\<not> holdsChain p \<Longrightarrow> freshAt D pend p"
  by (cases p) auto

lemma fresh_shrink: "freshAt D pend p \<Longrightarrow> set pend' \<subseteq> set pend \<Longrightarrow> freshAt D pend' p"
  by (cases p) auto

lemma ownerBelow_Suc: "ownerBelow n j \<Longrightarrow> ownerBelow (Suc n) j"
  by (cases j) auto

text \<open>A new submit owns no job yet and has made no call.\<close>

lemma new_submit:
  assumes "pipeInv D s"
  shows "SubmitJob (sp_next s) \<notin> set (sp_chain s)" "RevertJob (sp_next s) \<notin> set (sp_chain s)"
    "sp_running s \<noteq> Some (SubmitJob (sp_next s))" "sp_running s \<noteq> Some (RevertJob (sp_next s))"
    "callCounts (sp_next s) (sp_calls s) = (0, 0, 0)"
  using assms unfolding pipeInv_def chainInv_def callsInv_def by force+

lemma submitCalled_inv:
  assumes "pipeInv D s"
  shows "pipeInv D (submitCalled s)"
proof -
  have "taskInv D (submitCalled s) i p \<and> freshAt D (sp_pending (submitCalled s)) p"
    if "sp_tasks (submitCalled s) i = Some p" for i p
  proof (cases "i = sp_next s")
    case True
    with new_submit[OF assms] that show ?thesis by (auto simp: submitCalled_def taskInv_def)
  next
    case False
    with pipeInvD[OF assms, of i p] that show ?thesis by (auto simp: submitCalled_def taskInv_def)
  qed
  moreover have "chainInv (submitCalled s)"
    using assms new_submit[OF assms] by (auto simp: submitCalled_def pipeInv_def chainInv_def ownerBelow_Suc)
  moreover have "callsInv (submitCalled s)"
    using assms by (auto simp: submitCalled_def pipeInv_def callsInv_def less_Suc_eq)
  ultimately show ?thesis using assms by (auto simp: pipeInv_def submitCalled_def)
qed

text \<open>A step of the environment: no submit moves, and pending UTXOs change only while no submit holds the chain.\<close>

lemma env_step_inv:
  assumes inv: "pipeInv D s" and same: "sp_tasks t = sp_tasks s" "sp_next t = sp_next s" "sp_calls t = sp_calls s"
      "sp_reserved t = sp_reserved s"
    and keep: "\<And>i p. sp_tasks s i = Some p \<Longrightarrow> taskInv D s i p \<Longrightarrow> taskInv D t i p"
    and pend: "sp_running s = Some WalletJob \<or> set (sp_pending t) \<subseteq> set (sp_pending s)"
    and chain: "chainInv t"
  shows "pipeInv D t"
proof -
  have "taskInv D t i p \<and> freshAt D (sp_pending t) p" if "sp_tasks t i = Some p" for i p
  proof -
    from that same have i: "sp_tasks s i = Some p" by simp
    note old = pipeInvD[OF inv i]
    have "freshAt D (sp_pending t) p"
      using pend old fresh_unless_holder[of p D] fresh_shrink[OF old(2)] by (auto simp: taskInv_def)
    with keep[OF i old(1)] show ?thesis by simp
  qed
  with inv same chain show ?thesis by (auto simp: pipeInv_def callsInv_def)
qed

lemma walletJob_inv: "pipeInv D s \<Longrightarrow> pipeInv D (serializeJob WalletJob s)"
  by (rule env_step_inv) (auto simp: taskInv_def chainInv_def pipeInv_def)

lemma walletJobDone_inv:
  assumes "pipeInv D s" "sp_running s = Some WalletJob"
  shows "pipeInv D (jobSettled (setPending us s))"
  using assms by (intro env_step_inv[OF assms(1)]) (auto simp: taskInv_def chainInv_def pipeInv_def)

lemma finalized_inv: "pipeInv D s \<Longrightarrow> pipeInv D (setPending (filter P (sp_pending s)) s)"
  by (rule env_step_inv) (auto simp: taskInv_def chainInv_def pipeInv_def)

text \<open>
  The shape of every other step: submit \<open>i\<close> goes from phase \<open>p\<close> to phase \<open>q\<close>; jobs of other submits keep
  their place in the chain.
\<close>

lemma task_step_inv:
  assumes inv: "pipeInv D s" and i: "sp_tasks s i = Some p"
    and tasks: "sp_tasks t = (sp_tasks s)(i \<mapsto> q)" "sp_next t = sp_next s"
    and own: "taskInv D t i q" "freshAt D (sp_pending t) q"
    and others: "\<And>j r. j \<noteq> i \<Longrightarrow> sp_tasks s j = Some r \<Longrightarrow> taskInv D s j r \<Longrightarrow> taskInv D t j r"
    and pend: "holdsChain p \<or> set (sp_pending t) \<subseteq> set (sp_pending s)"
    and chain: "chainInv t"
    and calls: "\<And>j. j \<noteq> i \<Longrightarrow> callCounts j (sp_calls t) = callCounts j (sp_calls s)"
    and log: "set (sp_reserved s) \<subseteq> set (sp_reserved t)"
      "\<And>j b. C_broadcast j b \<in> set (sp_calls t) \<Longrightarrow>
         C_broadcast j b \<in> set (sp_calls s) \<or> (\<exists>pd. (j, b, pd) \<in> set (sp_reserved t))"
      "\<And>j b pd. (j, b, pd) \<in> set (sp_reserved t) \<Longrightarrow>
         (j, b, pd) \<in> set (sp_reserved s) \<or> set (pd_inputs D b) \<inter> set pd = {}"
  shows "pipeInv D t"
proof -
  have lt: "i < sp_next s" using inv i unfolding pipeInv_def callsInv_def by (metis linorder_not_less option.distinct(1))
  have "taskInv D t j r \<and> freshAt D (sp_pending t) r" if r: "sp_tasks t j = Some r" for j r
  proof (cases "j = i")
    case True
    with r own tasks show ?thesis by simp
  next
    case False
    with r tasks have sj: "sp_tasks s j = Some r" by simp
    note old = pipeInvD[OF inv sj]
    have "freshAt D (sp_pending t) r"
    proof (cases "holdsChain p")
      case True
      with chain_holder_unique[OF inv i sj] False have "\<not> holdsChain r" by blast
      then show ?thesis by (rule fresh_unless_holder)
    next
      case False
      with pend old(2) show ?thesis by (auto intro: fresh_shrink)
    qed
    with others[OF False sj old(1)] show ?thesis by simp
  qed
  moreover have "callsInv t"
  proof -
    have "callCounts j (sp_calls t) = (0, 0, 0) \<and> sp_tasks t j = None" if "sp_next s \<le> j" for j
      using that inv lt tasks calls[of j] by (auto simp: pipeInv_def callsInv_def)
    moreover have "\<exists>pd. (j, b, pd) \<in> set (sp_reserved t)" if "C_broadcast j b \<in> set (sp_calls t)" for j b
      using log(2)[OF that] log(1) inv unfolding pipeInv_def callsInv_def by blast
    ultimately show ?thesis using inv tasks by (auto simp: pipeInv_def callsInv_def)
  qed
  ultimately show ?thesis using inv chain log(3) by (fastforce simp: pipeInv_def)
qed


text \<open>The end of a job, by failure, with whatever it did to the pending set.\<close>

lemma failJob_inv:
  assumes inv: "pipeInv D s" and i: "sp_tasks s i = Some p"
    and p: "holdsChain p \<or> isReverting p" "holdsChain p \<or> set us \<subseteq> set (sp_pending s)"
  shows "pipeInv D (failJob i e (setPending us s))"
proof (rule task_step_inv[OF inv i])
  note old = pipeInvD(1)[OF inv i]
  obtain n m k where c: "callCounts i (sp_calls s) = (n, m, k)" by (metis prod_cases3)
  show "taskInv D (failJob i e (setPending us s)) i (Done (Inl e))"
    using old p(1) c by (cases p) (auto simp: taskInv_def)
  show "chainInv (failJob i e (setPending us s))"
    using inv old p(1) by (auto simp: pipeInv_def chainInv_def taskInv_def)
  show "taskInv D (failJob i e (setPending us s)) j r" if "j \<noteq> i" "sp_tasks s j = Some r" "taskInv D s j r" for j r
    using that old p(1) by (auto simp: taskInv_def)
qed (use p in auto)

text \<open>A step inside a job: the chain stays with the submit.\<close>

lemma inside_job_inv:
  assumes inv: "pipeInv D s" and i: "sp_tasks s i = Some p" and hold: "holdsChain p" "holdsChain q"
    and t: "sp_tasks t = (sp_tasks s)(i \<mapsto> q)" "sp_next t = sp_next s" "sp_chain t = sp_chain s"
      "sp_running t = sp_running s" "sp_depth t = sp_depth s" "sp_reserved t = sp_reserved s"
    and calls: "\<And>j. j \<noteq> i \<Longrightarrow> callCounts j (sp_calls t) = callCounts j (sp_calls s)"
      "callsAt (maxRetries D) (callCounts i (sp_calls t)) q"
      "\<And>j b. C_broadcast j b \<in> set (sp_calls t) \<Longrightarrow> C_broadcast j b \<in> set (sp_calls s)"
    and fresh: "freshAt D (sp_pending t) q"
  shows "pipeInv D t"
proof (rule task_step_inv[OF inv i t(1,2)])
  have "q \<noteq> Queued" "\<not> isReverting q" "\<not> isRevertQueued q" using hold(2) by (cases q; simp)+
  moreover have "p \<noteq> Queued" "\<not> isReverting p" "\<not> isRevertQueued p" using hold(1) by (cases p; simp)+
  ultimately show "taskInv D t i q"
    using pipeInvD(1)[OF inv i] hold t calls(2) by (auto simp: taskInv_def)
  show "taskInv D t j r" if "j \<noteq> i" "sp_tasks s j = Some r" "taskInv D s j r" for j r
    using that t calls(1) by (simp add: taskInv_def)
  show "chainInv t" using inv t by (simp add: pipeInv_def chainInv_def)
qed (use hold calls fresh t in auto)

lemma balanceAndReserve_inv:
  assumes inv: "pipeInv D s" and i: "sp_tasks s i = Some p"
    and p: "p = CheckingReady \<and> a = 0 \<or> (\<exists>n. p = Settling n \<and> a = Suc n)"
  shows "pipeInv D (balanceAndReserve i a s)"
proof (rule inside_job_inv[OF inv i])
  obtain n m k where c: "callCounts i (sp_calls s) = (n, m, k)" by (metis prod_cases3)
  with pipeInvD(1)[OF inv i] p
  show "callsAt (maxRetries D) (callCounts i (sp_calls (balanceAndReserve i a s))) (Balancing a (sp_pending s))"
    by (auto simp: taskInv_def)
qed (use p in \<open>auto split: prod.splits\<close>)

lemma balanceFailed_inv:
  assumes inv: "pipeInv D s" and i: "sp_tasks s i = Some p"
    and p: "(\<exists>seen. p = Balancing a seen) \<or> (\<exists>b. p = Reserving a b)"
  shows "pipeInv D (balanceFailed D i a e s)"
proof (cases "\<not> isDustShortfallError e \<or> maxRetries D \<le> a")
  case True
  with failJob_inv[OF inv i, of "sp_pending s"] p show ?thesis by (auto simp: balanceFailed_def)
next
  case False
  let ?t = "balanceFailed D i a e s"
  show ?thesis
  proof (rule inside_job_inv[OF inv i])
    obtain n m k where c: "callCounts i (sp_calls s) = (n, m, k)" by (metis prod_cases3)
    with pipeInvD(1)[OF inv i] p False
    show "callsAt (maxRetries D) (callCounts i (sp_calls ?t)) (Reaping a)"
      by (auto simp: taskInv_def balanceFailed_def)
  qed (use p False in \<open>auto simp: balanceFailed_def\<close>)
qed

lemma callsAt_next:
  "callsAt R c (Balancing a seen) \<Longrightarrow> callsAt R c (Reserving a b)"
  "callsAt R c (Reaping a) \<Longrightarrow> callsAt R c (Settling a)"
  by (cases c; simp)+

lemma balanceReply_inv:
  assumes inv: "pipeInv D s" and ok: "pipeAllowed D s (BalanceReply i r)"
  shows "pipeInv D (pipeStep D s (BalanceReply i r))"
proof (cases "\<exists>n seen. sp_tasks s i = Some (Balancing n seen)")
  case True
  then obtain n seen where i: "sp_tasks s i = Some (Balancing n seen)" by blast
  show ?thesis
  proof (cases r)
    case (Inl e)
    with i balanceFailed_inv[OF inv i] show ?thesis by simp
  next
    case (Inr b)
    have "set (pd_inputs D b) \<inter> set (sp_pending s) = {}"
      using ok Inr i pipeInvD(2)[OF inv i] by auto
    with Inr i pipeInvD(1)[OF inv i] show ?thesis
      by (intro inside_job_inv[OF inv i, of "Reserving n b"]) (auto simp: taskInv_def callsAt_next)
  qed
qed (use inv in \<open>auto split: option.splits phase.splits\<close>)

lemma reapReply_inv:
  assumes inv: "pipeInv D s"
  shows "pipeInv D (pipeStep D s (ReapReply i us r))"
proof (cases "\<exists>n. sp_tasks s i = Some (Reaping n)")
  case True
  then obtain n where i: "sp_tasks s i = Some (Reaping n)" by blast
  show ?thesis
  proof (cases r)
    case (Inl e)
    with i failJob_inv[OF inv i, of us e] show ?thesis by simp
  next
    case (Inr u)
    with i pipeInvD(1)[OF inv i] show ?thesis
      by (intro inside_job_inv[OF inv i, of "Settling n"]) (auto simp: taskInv_def callsAt_next)
  qed
qed (use inv in \<open>auto split: option.splits phase.splits\<close>)


lemma reserveReply_inv:
  assumes inv: "pipeInv D s" and i: "sp_tasks s i = Some (Reserving n b)"
  shows "pipeInv D (reserveReply D i n b r s)"
proof (cases r)
  case (Inl e)
  with balanceFailed_inv[OF inv i] show ?thesis by (simp add: reserveReply_def)
next
  case (Inr u)
  let ?t = "reserveReply D i n b r s"
  note old = pipeInvD[OF inv i]
  show ?thesis
  proof (rule task_step_inv[OF inv i])
    obtain k m l where c: "callCounts i (sp_calls s) = (k, m, l)" by (metis prod_cases3)
    with old Inr show "taskInv D ?t i (Broadcasting b)" by (auto simp: taskInv_def reserveReply_def)
    show "chainInv ?t" using inv old(1) Inr by (auto simp: pipeInv_def chainInv_def taskInv_def reserveReply_def)
    show "taskInv D ?t j q" if "j \<noteq> i" "sp_tasks s j = Some q" "taskInv D s j q" for j q
      using that old(1) Inr by (auto simp: taskInv_def reserveReply_def split: prod.splits)
  qed (use old Inr in \<open>auto simp: reserveReply_def split: prod.splits\<close>)
qed

lemma broadcastReply_inv:
  assumes inv: "pipeInv D s" and i: "sp_tasks s i = Some (Broadcasting b)"
  shows "pipeInv D (broadcastReply i b r s)"
proof -
  note old = pipeInvD(1)[OF inv i]
  obtain k m l where c: "callCounts i (sp_calls s) = (k, m, l)" by (metis prod_cases3)
  have lt: "i < sp_next s" using inv i unfolding pipeInv_def callsInv_def by (metis linorder_not_less option.distinct(1))
  show ?thesis
  proof (cases r)
    case (Inr out)
    show ?thesis
      using old c Inr inv
      by (intro task_step_inv[OF inv i, of _ "Done (Inr out)"])
        (auto simp: taskInv_def broadcastReply_def pipeInv_def chainInv_def)
  next
    case (Inl e)
    show ?thesis
      using old c Inl inv lt
      by (intro task_step_inv[OF inv i, of _ "RevertQueued b e"])
        (auto simp: taskInv_def broadcastReply_def pipeInv_def chainInv_def)
  qed
qed

lemma revertReply_inv:
  assumes inv: "pipeInv D s" and i: "sp_tasks s i = Some (Reverting b e)"
  shows "pipeInv D (revertReply D i b e r s)"
proof -
  let ?us = "filter (\<lambda>u. u \<notin> set (pd_inputs D b)) (sp_pending s)"
  have same: "s = setPending (sp_pending s) s" by simp
  have "pipeInv D (failJob i e (setPending us s))" if "us = ?us \<or> us = sp_pending s" for us
    using that by (intro failJob_inv[OF inv i]) auto
  from this[of ?us] this[of "sp_pending s"] same show ?thesis
    by (cases "isInr r") (simp_all add: revertReply_def)
qed

lemma chainAdvances_inv:
  assumes inv: "pipeInv D s"
  shows "pipeInv D (chainAdvances s)"
proof (cases "sp_running s = None \<and> sp_chain s \<noteq> []")
  case False
  with inv show ?thesis by (auto simp: chainAdvances_def split: list.splits option.splits)
next
  case True
  then obtain j js where run: "sp_running s = None" and ch: "sp_chain s = j # js" by (cases "sp_chain s") auto
  let ?s = "s\<lparr>sp_running := Some j, sp_chain := js\<rparr>"
  have adv: "chainAdvances s = startJob j ?s" using run ch by (simp add: chainAdvances_def)
  have chain: "chainInv ?s" "j \<noteq> WalletJob \<Longrightarrow> j \<notin> set js"
    using inv run ch by (auto simp: pipeInv_def chainInv_def split: if_splits)
  have owner: "\<exists>p. sp_tasks s i = Some p" if "j = SubmitJob i \<or> j = RevertJob i" for i
    using that inv ch unfolding pipeInv_def chainInv_def callsInv_def by force
  show ?thesis
  proof (cases j)
    case WalletJob
    with adv ch run inv chain show ?thesis
      by (auto intro!: env_step_inv[OF inv] simp: startJob_def taskInv_def)
  next
    case (SubmitJob i)
    then obtain p where i: "sp_tasks s i = Some p" using owner by blast
    note old = pipeInvD(1)[OF inv i]
    have p: "p = Queued" using old ch SubmitJob by (simp add: taskInv_def)
    obtain k m l where c: "callCounts i (sp_calls s) = (k, m, l)" by (metis prod_cases3)
    show ?thesis unfolding adv
    proof (rule task_step_inv[OF inv i])
      show "taskInv D (startJob j ?s) i CheckingReady"
        using old p c SubmitJob chain(2) ch run by (auto simp: startJob_def taskInv_def)
      show "taskInv D (startJob j ?s) k r" if "k \<noteq> i" "sp_tasks s k = Some r" "taskInv D s k r" for k r
        using that SubmitJob ch run by (auto simp: startJob_def taskInv_def)
      show "chainInv (startJob j ?s)" using chain(1) SubmitJob by (auto simp: startJob_def chainInv_def)
    qed (use SubmitJob in \<open>auto simp: startJob_def\<close>)
  next
    case (RevertJob i)
    then obtain p where i: "sp_tasks s i = Some p" using owner by blast
    note old = pipeInvD(1)[OF inv i]
    obtain b e where p: "p = RevertQueued b e" using old ch RevertJob by (cases p) (auto simp: taskInv_def)
    obtain k m l where c: "callCounts i (sp_calls s) = (k, m, l)" by (metis prod_cases3)
    show ?thesis unfolding adv
    proof (rule task_step_inv[OF inv i])
      show "taskInv D (startJob j ?s) i (Reverting b e)"
        using old p c i RevertJob chain(2) ch run by (auto simp: startJob_def taskInv_def)
      show "taskInv D (startJob j ?s) k r" if "k \<noteq> i" "sp_tasks s k = Some r" "taskInv D s k r" for k r
        using that p i RevertJob ch run by (auto simp: startJob_def taskInv_def split: prod.splits)
      show "chainInv (startJob j ?s)" using chain(1) p i RevertJob by (auto simp: startJob_def chainInv_def)
    qed (use p i RevertJob in \<open>auto simp: startJob_def split: prod.splits\<close>)
  qed
qed

lemma pipeStep_inv:
  assumes inv: "pipeInv D s" and ok: "pipeAllowed D s e"
  shows "pipeInv D (pipeStep D s e)"
proof (cases e)
  case (ReadyReply i r)
  with inv failJob_inv[OF inv, of i CheckingReady "sp_pending s"] balanceAndReserve_inv[OF inv, of i CheckingReady 0]
  show ?thesis by (auto split: sum.splits)
next
  case (SleepOver i)
  with inv balanceAndReserve_inv[OF inv, of i] show ?thesis by (auto split: option.splits phase.splits)
qed (use inv ok in \<open>auto simp: submitCalled_inv walletJob_inv walletJobDone_inv finalized_inv chainAdvances_inv
       balanceReply_inv reapReply_inv reserveReply_inv broadcastReply_inv revertReply_inv
       simp del: pipe_ops pipeStep.simps(5,7) split: option.splits phase.splits\<close>)

interpretation pipe: guarded_machine "pipeStep D" "pipeInv D" "pipeAllowed D" for D
  by unfold_locales (rule pipeStep_inv)

lemma runPipeline_inv: "allowed_run (pipeAllowed D) (pipeStep D) newPipeline es \<Longrightarrow> pipeInv D (runPipeline D es)"
  unfolding runPipeline_def by (rule pipe.guarded_run[OF pipeInv_new])


section \<open>Progress\<close>

fun phaseWork :: "nat \<Rightarrow> ('b, 'u, 'o) phase \<Rightarrow> nat" where
  "phaseWork R Queued = 4 * R + 9"
| "phaseWork R CheckingReady = 4 * R + 8"
| "phaseWork R (Balancing a seen) = 4 * (R - a) + 7"
| "phaseWork R (Reserving a b) = 4 * (R - a) + 6"
| "phaseWork R (Reaping a) = 4 * (R - a) + 5"
| "phaseWork R (Settling a) = 4 * (R - a) + 4"
| "phaseWork R (Broadcasting b) = 3"
| "phaseWork R (RevertQueued b e) = 2"
| "phaseWork R (Reverting b e) = 1"
| "phaseWork R (Done r) = 0"

fun jobWork :: "serialJob \<Rightarrow> nat" where
  "jobWork WalletJob = 1"
| "jobWork (SubmitJob i) = 0"
| "jobWork (RevertJob i) = 0"

definition tasksWork :: "nat \<Rightarrow> (nat \<Rightarrow> ('b, 'u, 'o) phase option) \<Rightarrow> nat \<Rightarrow> nat" where
  "tasksWork R f n = (\<Sum>i<n. case f i of None \<Rightarrow> 0 | Some p \<Rightarrow> phaseWork R p)"

definition pipeWork :: "('b, 'u) pipeDeps \<Rightarrow> ('b, 'u, 'o) pipeline \<Rightarrow> nat" where
  "pipeWork D s =
     tasksWork (maxRetries D) (sp_tasks s) (sp_next s) + 2 * sum_list (map jobWork (sp_chain s)) +
     (case sp_running s of None \<Rightarrow> 0 | Some j \<Rightarrow> jobWork j)"

text \<open>The events some promise of the pipeline is waiting for.\<close>

fun awaited :: "('b, 'u, 'o) pipeline \<Rightarrow> ('b, 'u, 'o) pipeEvent \<Rightarrow> bool" where
  "awaited s ChainAdvances \<longleftrightarrow> sp_running s = None \<and> sp_chain s \<noteq> []"
| "awaited s (ReadyReply i r) \<longleftrightarrow> sp_tasks s i = Some CheckingReady"
| "awaited s (BalanceReply i r) \<longleftrightarrow> (\<exists>n seen. sp_tasks s i = Some (Balancing n seen))"
| "awaited s (ReserveReply i r) \<longleftrightarrow> (\<exists>n b. sp_tasks s i = Some (Reserving n b))"
| "awaited s (ReapReply i us r) \<longleftrightarrow> (\<exists>n. sp_tasks s i = Some (Reaping n))"
| "awaited s (SleepOver i) \<longleftrightarrow> (\<exists>n. sp_tasks s i = Some (Settling n))"
| "awaited s (BroadcastReply i r) \<longleftrightarrow> (\<exists>b. sp_tasks s i = Some (Broadcasting b))"
| "awaited s (RevertReply i r) \<longleftrightarrow> (\<exists>b e. sp_tasks s i = Some (Reverting b e))"
| "awaited s (WalletJobDone us) \<longleftrightarrow> sp_running s = Some WalletJob"
| "awaited s e \<longleftrightarrow> False"

lemma tasksWork_upd:
  assumes "i < n" "f i = Some p" "phaseWork R q < phaseWork R p"
  shows "tasksWork R (f(i \<mapsto> q)) n < tasksWork R f n"
proof -
  let ?w = "\<lambda>x. case x of None \<Rightarrow> 0 | Some p \<Rightarrow> phaseWork R p"
  have same: "(\<Sum>j \<in> {..<n} - {i}. ?w ((f(i \<mapsto> q)) j)) = (\<Sum>j \<in> {..<n} - {i}. ?w (f j))"
    by (rule sum.cong) auto
  have "(\<Sum>j<n. ?w ((f(i \<mapsto> q)) j)) = phaseWork R q + (\<Sum>j \<in> {..<n} - {i}. ?w (f j))"
    using assms(1) same by (subst sum.remove[of _ i]) auto
  moreover have "(\<Sum>j<n. ?w (f j)) = phaseWork R p + (\<Sum>j \<in> {..<n} - {i}. ?w (f j))"
    using assms(1,2) by (subst sum.remove[of _ i]) auto
  ultimately show ?thesis using assms(3) by (simp add: tasksWork_def)
qed

lemma task_lt_next: "pipeInv D s \<Longrightarrow> sp_tasks s i = Some p \<Longrightarrow> i < sp_next s"
  unfolding pipeInv_def callsInv_def by (metis linorder_not_less option.distinct(1))

text \<open>A step of a submit from \<open>p\<close> to \<open>q\<close> that leaves no wallet job behind.\<close>

lemma task_step_work:
  assumes "pipeInv D s" "sp_tasks s i = Some p" "phaseWork (maxRetries D) q < phaseWork (maxRetries D) p"
    and "sp_tasks t = (sp_tasks s)(i \<mapsto> q)" "sp_next t = sp_next s"
      "sum_list (map jobWork (sp_chain t)) = sum_list (map jobWork (sp_chain s))"
      "sp_running t = None \<or> sp_running t = sp_running s \<or> (\<exists>j. sp_running t = Some j \<and> jobWork j = 0)"
  shows "pipeWork D t < pipeWork D s"
  using tasksWork_upd[of i "sp_next s" "sp_tasks s", OF task_lt_next[OF assms(1,2)] assms(2,3)] assms(4-7)
  by (auto simp: pipeWork_def split: option.splits)

lemma chainAdvances_work:
  assumes inv: "pipeInv D s" and "sp_running s = None" "sp_chain s \<noteq> []"
  shows "pipeWork D (chainAdvances s) < pipeWork D s"
proof -
  obtain j js where ch: "sp_chain s = j # js" using assms(3) by (cases "sp_chain s") auto
  have owner: "\<exists>p. sp_tasks s i = Some p \<and> taskInv D s i p" if "j = SubmitJob i \<or> j = RevertJob i" for i
    using that inv ch unfolding pipeInv_def chainInv_def callsInv_def by force
  show ?thesis
  proof (cases j)
    case WalletJob
    then show ?thesis using assms(2) ch by (simp add: chainAdvances_def startJob_def pipeWork_def)
  next
    case (SubmitJob i)
    then obtain p where p: "sp_tasks s i = Some p" "taskInv D s i p" using owner by blast
    then have "p = Queued" using ch SubmitJob by (simp add: taskInv_def)
    with p SubmitJob ch assms(2) show ?thesis
      by (intro task_step_work[OF inv p(1), of CheckingReady]) (auto simp: chainAdvances_def startJob_def)
  next
    case (RevertJob i)
    then obtain p where p: "sp_tasks s i = Some p" "taskInv D s i p" using owner by blast
    then obtain b e where "p = RevertQueued b e" using ch RevertJob by (cases p) (auto simp: taskInv_def)
    with p RevertJob ch assms(2) show ?thesis
      by (intro task_step_work[OF inv p(1), of "Reverting b e"]) (auto simp: chainAdvances_def startJob_def)
  qed
qed

lemma balanceFailed_work:
  assumes inv: "pipeInv D s" and i: "sp_tasks s i = Some p"
    and p: "(\<exists>seen. p = Balancing a seen) \<or> (\<exists>b. p = Reserving a b)"
  shows "pipeWork D (balanceFailed D i a e s) < pipeWork D s"
proof (cases "\<not> isDustShortfallError e \<or> maxRetries D \<le> a")
  case True
  with p show ?thesis by (intro task_step_work[OF inv i, of "Done (Inl e)"]) (auto simp: balanceFailed_def)
next
  case False
  with p show ?thesis by (intro task_step_work[OF inv i, of "Reaping a"]) (auto simp: balanceFailed_def)
qed

lemma awaited_work:
  assumes inv: "pipeInv D s" and aw: "awaited s e"
  shows "pipeWork D (pipeStep D s e) < pipeWork D s"
  using aw
proof (cases e)
  case (ReadyReply i r)
  with aw have i: "sp_tasks s i = Some CheckingReady" by simp
  with ReadyReply show ?thesis by (cases r) (auto intro!: task_step_work[OF inv i])
next
  case (BalanceReply i r)
  with aw obtain n seen where i: "sp_tasks s i = Some (Balancing n seen)" by auto
  with BalanceReply balanceFailed_work[OF inv i, of n] show ?thesis
    by (cases r) (auto intro!: task_step_work[OF inv i])
next
  case (ReserveReply i r)
  with aw obtain n b where i: "sp_tasks s i = Some (Reserving n b)" by auto
  with ReserveReply balanceFailed_work[OF inv i, of n] show ?thesis
    by (cases r) (auto simp: reserveReply_def intro!: task_step_work[OF inv i])
next
  case (ReapReply i us r)
  with aw obtain n where i: "sp_tasks s i = Some (Reaping n)" by auto
  with ReapReply show ?thesis by (cases r) (auto intro!: task_step_work[OF inv i])
next
  case (SleepOver i)
  with aw obtain n where i: "sp_tasks s i = Some (Settling n)" by auto
  have "n < maxRetries D"
    using pipeInvD(1)[OF inv i] by (cases "callCounts i (sp_calls s)") (auto simp: taskInv_def)
  with i SleepOver show ?thesis by (auto intro!: task_step_work[OF inv i])
next
  case (BroadcastReply i r)
  with aw obtain b where i: "sp_tasks s i = Some (Broadcasting b)" by auto
  with BroadcastReply show ?thesis by (cases r) (auto simp: broadcastReply_def intro!: task_step_work[OF inv i])
next
  case (RevertReply i r)
  with aw obtain b e' where i: "sp_tasks s i = Some (Reverting b e')" by auto
  with RevertReply show ?thesis by (auto simp: revertReply_def intro!: task_step_work[OF inv i])
next
  case ChainAdvances
  with aw chainAdvances_work[OF inv] show ?thesis by simp
qed (auto simp: pipeWork_def)

text \<open>Something is awaited as long as a submit is unfinished: the holder of the chain is never lost.\<close>

lemma holder_awaits:
  assumes "sp_tasks s i = Some p" "holdsChain p \<or> isReverting p"
  shows "\<exists>e. awaited s e"
  using assms
proof (cases p)
  case CheckingReady
  with assms show ?thesis by (intro exI[of _ "ReadyReply i (Inr ())"]) simp
next
  case (Balancing n seen)
  with assms show ?thesis by (intro exI[of _ "BalanceReply i (Inl (Error []))"]) simp
next
  case (Reserving n b)
  with assms show ?thesis by (intro exI[of _ "ReserveReply i (Inr ())"]) simp
next
  case (Reaping n)
  with assms show ?thesis by (intro exI[of _ "ReapReply i [] (Inr ())"]) simp
next
  case (Settling n)
  with assms show ?thesis by (intro exI[of _ "SleepOver i"]) simp
next
  case (Reverting b e)
  with assms show ?thesis by (intro exI[of _ "RevertReply i (Inr ())"]) simp
qed simp_all

lemma unfinished_awaits:
  assumes inv: "pipeInv D s" and i: "sp_tasks s i = Some p" and p: "\<nexists>r. p = Done r"
  shows "\<exists>e. awaited s e"
proof (cases "sp_running s")
  case None
  show ?thesis
  proof (cases "sp_chain s = []")
    case False
    with None show ?thesis by (intro exI[of _ ChainAdvances]) simp
  next
    case True
    with pipeInvD(1)[OF inv i] None p obtain b where "p = Broadcasting b"
      by (cases p) (auto simp: taskInv_def)
    with i show ?thesis by (intro exI[of _ "BroadcastReply i (Inl (Error []))"]) simp
  qed
next
  case (Some j)
  have owner: "\<exists>q. sp_tasks s k = Some q \<and> taskInv D s k q" if "j = SubmitJob k \<or> j = RevertJob k" for k
    using that inv Some unfolding pipeInv_def chainInv_def callsInv_def by force
  show ?thesis
  proof (cases j)
    case WalletJob
    with Some show ?thesis by (intro exI[of _ "WalletJobDone []"]) simp
  next
    case (SubmitJob k)
    with owner[of k] Some show ?thesis by (auto simp: taskInv_def intro: holder_awaits)
  next
    case (RevertJob k)
    with owner[of k] Some show ?thesis by (auto simp: taskInv_def intro: holder_awaits)
  qed
qed


section \<open>Properties\<close>

text \<open>C21: However the submits of the wallet interleave, balancing and reserving are atomic.  At most one submit is
  between its readiness check and its reservation, and no revert runs at that time; and every reservation takes
  UTXOs that nothing else had pending at the moment it was made.\<close>

theorem reservations_never_overlap:
  assumes "allowed_run (pipeAllowed D) (pipeStep D) newPipeline es" and "s = runPipeline D es"
  shows "(\<forall>(i, b, pend) \<in> set (sp_reserved s). set (pd_inputs D b) \<inter> set pend = {}) \<and>
         (\<forall>i j p q. sp_tasks s i = Some p \<and> sp_tasks s j = Some q \<and> holdsChain p \<and> (holdsChain q \<or> isReverting q)
            \<longrightarrow> i = j \<and> \<not> isReverting q)"
proof -
  have inv: "pipeInv D s" using runPipeline_inv[OF assms(1)] assms(2) by simp
  moreover have "i = j \<and> \<not> isReverting q"
    if "sp_tasks s i = Some p" "sp_tasks s j = Some q" "holdsChain p" "holdsChain q \<or> isReverting q" for i j p q
    using pipeInvD(1)[OF inv that(1)] pipeInvD(1)[OF inv that(2)] that(3,4) by (auto simp: taskInv_def)
  ultimately show ?thesis by (auto simp: pipeInv_def)
qed

text \<open>A submit never goes out twice.  It balances at most one time more than the retry limit, broadcasts at most
  once and only what it had reserved; a submit that succeeded broadcast exactly once and reverted nothing, and one
  that failed reverted exactly when it had broadcast.\<close>

theorem submit_calls_bounded:
  assumes "allowed_run (pipeAllowed D) (pipeStep D) newPipeline es" and "s = runPipeline D es"
    and "sp_tasks s i = Some p"
  shows "balancesOf i (sp_calls s) \<le> Suc (maxRetries D) \<and> broadcastsOf i (sp_calls s) \<le> 1 \<and>
         (\<forall>b. C_broadcast i b \<in> set (sp_calls s) \<longrightarrow> (\<exists>pend. (i, b, pend) \<in> set (sp_reserved s))) \<and>
         (\<forall>out. p = Done (Inr out) \<longrightarrow> broadcastsOf i (sp_calls s) = 1 \<and> revertsOf i (sp_calls s) = 0) \<and>
         (\<forall>e. p = Done (Inl e) \<longrightarrow> revertsOf i (sp_calls s) = broadcastsOf i (sp_calls s))"
proof -
  have inv: "pipeInv D s" using runPipeline_inv[OF assms(1)] assms(2) by simp
  have "callsAt (maxRetries D) (balancesOf i (sp_calls s), broadcastsOf i (sp_calls s), revertsOf i (sp_calls s)) p"
    using pipeInvD(1)[OF inv assms(3)] by (simp add: taskInv_def callCounts_def)
  moreover have "\<forall>b. C_broadcast i b \<in> set (sp_calls s) \<longrightarrow> (\<exists>pend. (i, b, pend) \<in> set (sp_reserved s))"
    using inv unfolding pipeInv_def callsInv_def by blast
  ultimately show ?thesis by (cases p; simp split: sum.splits) (auto split: sum.splits elim!: callsAt.elims)
qed

text \<open>C22: No submit gets stuck behind the chain.  While a submit is unfinished some promise is awaited, and every
  awaited promise that settles, fulfilled or rejected, strictly lowers the work left; so a failed job never blocks
  the jobs behind it.  The queue depth the supervisor reports is the number of jobs queued and running.\<close>

theorem pipeline_progress:
  assumes "allowed_run (pipeAllowed D) (pipeStep D) newPipeline es" and "s = runPipeline D es"
  shows "(\<forall>e. awaited s e \<longrightarrow> pipeWork D (pipeStep D s e) < pipeWork D s) \<and>
         (\<forall>i p. sp_tasks s i = Some p \<and> (\<nexists>r. p = Done r) \<longrightarrow> (\<exists>e. awaited s e)) \<and>
         sp_depth s = length (sp_chain s) + (if sp_running s = None then 0 else 1)"
proof -
  have inv: "pipeInv D s" using runPipeline_inv[OF assms(1)] assms(2) by simp
  then show ?thesis using awaited_work[OF inv] unfinished_awaits[OF inv] by (auto simp: pipeInv_def chainInv_def)
qed

section \<open>Witnesses\<close>

text \<open>Two submits at once: the second balances while the first is in the mempool, runs into a dust shortfall, is
  retried once, and lands; the broadcast of the first is refused and reverted.\<close>

definition exDeps :: "(nat list, nat) pipeDeps" where
  "exDeps = \<lparr>pd_dustRetryAttempts = None, pd_inputs = (\<lambda>b. b)\<rparr>"

definition exPipe :: "(nat list, nat, string) pipeEvent list" where
  "exPipe =
     [SubmitCalled, SubmitCalled, ChainAdvances, ReadyReply 0 (Inr ()), BalanceReply 0 (Inr [1, 2]),
      ReserveReply 0 (Inr ()), ChainAdvances, ReadyReply 1 (Inr ()),
      BalanceReply 1 (Inl (Error ''Wallet.InsufficientFunds: could not balance dust'')), BroadcastReply 0 (Inl (Error ''1010'')),
      ReapReply 1 [1, 2] (Inr ()), SleepOver 1, BalanceReply 1 (Inr [3]), ReserveReply 1 (Inr ()),
      BroadcastReply 1 (Inr ''tx''), ChainAdvances, RevertReply 0 (Inr ())]"

lemma exPipe_allowed: "allowed_run (pipeAllowed exDeps) (pipeStep exDeps) newPipeline exPipe"
  by code_simp

lemma exPipe_done:
  "sp_tasks (runPipeline exDeps exPipe) 0 = Some (Done (Inl (Error ''1010'')))"
  "sp_tasks (runPipeline exDeps exPipe) 1 = Some (Done (Inr ''tx''))"
  by code_simp+

theorem reservations_never_overlap_witness:
  "allowed_run (pipeAllowed exDeps) (pipeStep exDeps) newPipeline exPipe \<and>
   list_all (\<lambda>(i, b, pend). set b \<inter> set pend = {}) (sp_reserved (runPipeline exDeps exPipe)) \<and>
   sp_reserved (runPipeline exDeps exPipe) \<noteq> []"
proof -
  have "sp_reserved (runPipeline exDeps exPipe) \<noteq> []" by code_simp
  moreover have "pd_inputs exDeps b = b" for b by (simp add: exDeps_def)
  ultimately show ?thesis
    using reservations_never_overlap[OF exPipe_allowed refl] exPipe_allowed by (auto simp: list_all_iff)
qed

theorem submit_calls_bounded_witness:
  "broadcastsOf 1 (sp_calls (runPipeline exDeps exPipe)) = 1"
  using submit_calls_bounded[OF exPipe_allowed refl exPipe_done(2)] by simp

theorem pipeline_progress_witness:
  "sp_depth (runPipeline exDeps exPipe) = 0 \<and> sp_chain (runPipeline exDeps exPipe) = []"
proof -
  have "sp_chain (runPipeline exDeps exPipe) = []" "sp_running (runPipeline exDeps exPipe) = None" by code_simp+
  then show ?thesis using pipeline_progress[OF exPipe_allowed refl] by simp
qed

end
