(* ===== verification/Ledger_Events.thy ===== *)
theory Ledger_Events
  imports Encoding Predicate_Witness
begin

text \<open>
  The ledger mirror of the sidecar (\<open>packages/midnight-sidecar/src/midnight.ts\<close>, \<open>events.ts\<close>,
  \<open>routes/events.ts\<close>): every contract's state is followed through a subscription with a polling fallback,
  successive ledgers are compared and the changes go out as typed events, and a client that connects to the event
  stream gets a snapshot first.

  A \<open>Map\<close> of a Compact ledger is the list of its entries in iteration order, with distinct keys; a \<open>Set\<close> is the
  list of its elements.  Consumers are modelled by what the stream is for: a cache that keeps, per key, what the
  latest event said.
\<close>

section \<open>Events\<close>

datatype sidecarEvent =
    RevocationEvent string string string "string option" int
  | IssuerEvent string string string string int
  | IdentityEvent string string string string int
  | AttestationEvent string int
  | RelayJobEvent string string "string option" "string option" int

fun eventType :: "sidecarEvent \<Rightarrow> string" where
  "eventType (RevocationEvent h st i r ts) = ''revocation''"
| "eventType (IssuerEvent h st k n ts) = ''issuer''"
| "eventType (IdentityEvent d c st i ts) = ''identity''"
| "eventType (AttestationEvent k ts) = ''attestation''"
| "eventType (RelayJobEvent j ph tx e ts) = ''relay''"

section \<open>Ledgers and their reads\<close>

record issuerLedger =
  issuerStatuses :: "(bytes \<times> int) list"
  issuerKeys :: "(bytes \<times> bytes) list"
  issuerNames :: "(bytes \<times> string) list"
  issuerCount :: int

record revocationLedger =
  credentialStatuses :: "(bytes \<times> int) list"
  credentialIssuers :: "(bytes \<times> bytes) list"
  credentialReasons :: "(bytes \<times> string) list"

record identityLedger =
  commitments :: "(bytes \<times> bytes) list"
  commitmentStatuses :: "(bytes \<times> int) list"
  commitmentIssuers :: "(bytes \<times> bytes) list"
  registeredCommitments :: "bytes list"

record predicateLedger =
  attestations :: "bytes list"
  attestCount :: int

definition zero32 :: bytes where "zero32 = replicate 32 0"

definition issuerStatusName :: "int \<Rightarrow> string" where
  "issuerStatusName n = (if n = 1 then ''ACTIVE'' else if n = 2 then ''DEACTIVATED'' else ''INACTIVE'')"

definition credStatusName :: "int \<Rightarrow> string" where
  "credStatusName n = (if n = 1 then ''REVOKED'' else if n = 2 then ''SUSPENDED'' else ''ACTIVE'')"

definition commitmentStatusName :: "int \<Rightarrow> string" where
  "commitmentStatusName n = (if n = 1 then ''ACTIVE'' else if n = 2 then ''EXPIRED'' else ''INACTIVE'')"

definition isIssuerTrustedFromLedger :: "bytes \<Rightarrow> issuerLedger \<Rightarrow> bool" where
  "isIssuerTrustedFromLedger keyHash l \<longleftrightarrow> map_of (issuerStatuses l) keyHash = Some 1"

definition getIssuerStatusFromLedger :: "bytes \<Rightarrow> issuerLedger \<Rightarrow> int" where
  "getIssuerStatusFromLedger keyHash l = the_or 0 (map_of (issuerStatuses l) keyHash)"

definition isCredentialRevokedFromLedger :: "bytes \<Rightarrow> revocationLedger \<Rightarrow> bool" where
  "isCredentialRevokedFromLedger rootHash l \<longleftrightarrow>
     (case map_of (credentialStatuses l) rootHash of None \<Rightarrow> False | Some st \<Rightarrow> st = 1 \<or> st = 2)"

definition getCredentialStatusFromLedger :: "bytes \<Rightarrow> revocationLedger \<Rightarrow> int" where
  "getCredentialStatusFromLedger rootHash l = the_or 0 (map_of (credentialStatuses l) rootHash)"

definition getCommitmentFromLedger :: "bytes \<Rightarrow> identityLedger \<Rightarrow> bytes option" where
  "getCommitmentFromLedger didHash l = map_of (commitments l) didHash"

definition getCommitmentStatusFromLedger :: "bytes \<Rightarrow> identityLedger \<Rightarrow> int" where
  "getCommitmentStatusFromLedger didHash l = the_or 0 (map_of (commitmentStatuses l) didHash)"

definition isCommitmentRegistered :: "bytes \<Rightarrow> identityLedger \<Rightarrow> bool" where
  "isCommitmentRegistered cmt l \<longleftrightarrow> cmt \<in> set (registeredCommitments l)"

definition isAttestedFromLedger :: "bytes \<Rightarrow> predicateLedger \<Rightarrow> bool" where
  "isAttestedFromLedger key l \<longleftrightarrow> key \<in> set (attestations l)"

section \<open>Diffs\<close>

text \<open>The events of one ledger entry; they also make up the snapshot a new client gets.\<close>

definition issuerEventOf :: "int \<Rightarrow> issuerLedger \<Rightarrow> bytes \<times> int \<Rightarrow> sidecarEvent" where
  "issuerEventOf ts l e =
     IssuerEvent (bytesToHex (fst e)) (issuerStatusName (snd e))
       (bytesToHex (the_or zero32 (map_of (issuerKeys l) (fst e)))) (the_or [] (map_of (issuerNames l) (fst e))) ts"

definition revocationEventOf :: "int \<Rightarrow> revocationLedger \<Rightarrow> bytes \<times> int \<Rightarrow> sidecarEvent" where
  "revocationEventOf ts l e =
     RevocationEvent (bytesToHex (fst e)) (credStatusName (snd e))
       (bytesToHex (the_or zero32 (map_of (credentialIssuers l) (fst e)))) (map_of (credentialReasons l) (fst e)) ts"

definition identityEventOf :: "int \<Rightarrow> identityLedger \<Rightarrow> bytes \<times> bytes \<Rightarrow> sidecarEvent" where
  "identityEventOf ts l e =
     IdentityEvent (bytesToHex (fst e)) (bytesToHex (snd e))
       (commitmentStatusName (the_or 0 (map_of (commitmentStatuses l) (fst e))))
       (bytesToHex (the_or zero32 (map_of (commitmentIssuers l) (fst e)))) ts"

definition diffIssuer :: "int \<Rightarrow> issuerLedger option \<Rightarrow> issuerLedger \<Rightarrow> sidecarEvent list" where
  "diffIssuer ts prev l =
     map (issuerEventOf ts l)
       (filter (\<lambda>(keyHash, status). (case prev of None \<Rightarrow> None | Some p \<Rightarrow> map_of (issuerStatuses p) keyHash) \<noteq> Some status)
          (issuerStatuses l))"

definition diffRevocation :: "int \<Rightarrow> revocationLedger option \<Rightarrow> revocationLedger \<Rightarrow> sidecarEvent list" where
  "diffRevocation ts prev l =
     map (revocationEventOf ts l)
       (filter (\<lambda>(rootHash, status). (case prev of None \<Rightarrow> None | Some p \<Rightarrow> map_of (credentialStatuses p) rootHash) \<noteq> Some status)
          (credentialStatuses l)) @
     (case prev of
        None \<Rightarrow> []
      | Some p \<Rightarrow>
          map (\<lambda>(rootHash, _). RevocationEvent (bytesToHex rootHash) ''ACTIVE'' (bytesToHex zero32) None ts)
            (filter (\<lambda>(rootHash, _). bytesToHex rootHash \<notin> set (map (bytesToHex \<circ> fst) (credentialStatuses l)))
               (credentialStatuses p)))"

definition diffIdentity :: "int \<Rightarrow> identityLedger option \<Rightarrow> identityLedger \<Rightarrow> sidecarEvent list" where
  "diffIdentity ts prev l =
     map (identityEventOf ts l)
       (filter (\<lambda>(didHash, cmt).
            let status = the_or 0 (map_of (commitmentStatuses l) didHash);
                prevCommitment = (case prev of None \<Rightarrow> None | Some p \<Rightarrow> map_of (commitments p) didHash);
                prevStatus = (case prev of None \<Rightarrow> None | Some p \<Rightarrow> map_of (commitmentStatuses p) didHash);
                commitmentChanged = (case prevCommitment of None \<Rightarrow> True | Some c \<Rightarrow> bytesToHex c \<noteq> bytesToHex cmt)
            in commitmentChanged \<or> prevStatus \<noteq> Some status)
          (commitments l))"

definition diffPredicate :: "int \<Rightarrow> predicateLedger option \<Rightarrow> predicateLedger \<Rightarrow> sidecarEvent list" where
  "diffPredicate ts prev l =
     map (\<lambda>k. AttestationEvent (bytesToHex k) ts)
       (filter (\<lambda>k. bytesToHex k \<notin> set (case prev of None \<Rightarrow> [] | Some p \<Rightarrow> map bytesToHex (attestations p)))
          (attestations l))"

section \<open>Following a contract\<close>

text \<open>
  \<open>joinContract\<close> and \<open>openContractStateSubscription\<close>: the subscription delivers states, a poll that is in
  flight delivers one when it is answered, an error or the end of the stream schedules a new subscription, and
  \<open>unsubscribe\<close> stops both.  \<open>ledgerFn\<close> may throw on a transitional state, which is dropped.
\<close>

record ('l, 'e) contractFeed =
  cf_current :: "'l option"
  cf_emitted :: "'e list"
  cf_live :: bool
  cf_reopen :: nat
  cf_polling :: bool
  cf_polls :: nat
  cf_stopped :: bool

datatype 'r feedEvent =
    StateArrives 'r int
  | StreamEnds
  | ReopenElapses
  | PollTick
  | PollAnswers "'r option" int
  | PollFails
  | Unsubscribe

definition observe ::
  "(int \<Rightarrow> 'l option \<Rightarrow> 'l \<Rightarrow> 'e list) \<Rightarrow> ('r \<Rightarrow> 'l res) \<Rightarrow> 'r \<Rightarrow> int \<Rightarrow> ('l, 'e) contractFeed \<Rightarrow> ('l, 'e) contractFeed" where
  "observe diff ledgerFn raw ts s =
     (case ledgerFn raw of
        Inl _ \<Rightarrow> s
      | Inr l \<Rightarrow> s\<lparr>cf_emitted := cf_emitted s @ diff ts (cf_current s) l, cf_current := Some l\<rparr>)"

definition joinContract ::
  "(int \<Rightarrow> 'l option \<Rightarrow> 'l \<Rightarrow> 'e list) \<Rightarrow> ('r \<Rightarrow> 'l res) \<Rightarrow> 'r option \<Rightarrow> int \<Rightarrow> ('l, 'e) contractFeed" where
  "joinContract diff ledgerFn initial ts =
     (let s = \<lparr>cf_current = None, cf_emitted = [], cf_live = True, cf_reopen = 0, cf_polling = True, cf_polls = 0,
               cf_stopped = False\<rparr>
      in case initial of None \<Rightarrow> s | Some raw \<Rightarrow> observe diff ledgerFn raw ts s)"

fun feedStep ::
  "(int \<Rightarrow> 'l option \<Rightarrow> 'l \<Rightarrow> 'e list) \<Rightarrow> ('r \<Rightarrow> 'l res) \<Rightarrow> ('l, 'e) contractFeed \<Rightarrow> 'r feedEvent \<Rightarrow> ('l, 'e) contractFeed" where
  "feedStep diff ledgerFn s (StateArrives raw ts) = (if cf_live s then observe diff ledgerFn raw ts s else s)"
| "feedStep diff ledgerFn s StreamEnds =
     (if cf_live s then
        (if cf_stopped s then s\<lparr>cf_live := False\<rparr> else s\<lparr>cf_live := False, cf_reopen := Suc (cf_reopen s)\<rparr>)
      else s)"
| "feedStep diff ledgerFn s ReopenElapses =
     (case cf_reopen s of
        0 \<Rightarrow> s
      | Suc n \<Rightarrow> if cf_stopped s then s\<lparr>cf_reopen := n\<rparr> else s\<lparr>cf_reopen := n, cf_live := True\<rparr>)"
| "feedStep diff ledgerFn s PollTick = (if cf_polling s then s\<lparr>cf_polls := Suc (cf_polls s)\<rparr> else s)"
| "feedStep diff ledgerFn s (PollAnswers raw ts) =
     (case cf_polls s of
        0 \<Rightarrow> s
      | Suc n \<Rightarrow>
          let s' = s\<lparr>cf_polls := n\<rparr> in
          (case raw of None \<Rightarrow> s' | Some r \<Rightarrow> observe diff ledgerFn r ts s'))"
| "feedStep diff ledgerFn s PollFails = (case cf_polls s of 0 \<Rightarrow> s | Suc n \<Rightarrow> s\<lparr>cf_polls := n\<rparr>)"
| "feedStep diff ledgerFn s Unsubscribe = s\<lparr>cf_polling := False, cf_stopped := True, cf_live := False\<rparr>"

definition ledgerState :: "string \<Rightarrow> ('l, 'e) contractFeed \<Rightarrow> 'l res" where
  "ledgerState addr s =
     (case cf_current s of None \<Rightarrow> Inl (Error (''Ledger state not yet available for '' @ addr)) | Some l \<Rightarrow> Inr l)"

section \<open>Caches\<close>

text \<open>What a consumer knows after a list of events: per key, the value of the latest event.\<close>

fun issuerEntry :: "sidecarEvent \<Rightarrow> (string \<times> string) option" where
  "issuerEntry (IssuerEvent h st k n ts) = Some (h, st)"
| "issuerEntry e = None"

fun revocationEntry :: "sidecarEvent \<Rightarrow> (string \<times> string) option" where
  "revocationEntry (RevocationEvent h st i r ts) = Some (h, st)"
| "revocationEntry e = None"

fun identityEntry :: "sidecarEvent \<Rightarrow> (string \<times> string \<times> string) option" where
  "identityEntry (IdentityEvent d c st i ts) = Some (d, c, st)"
| "identityEntry e = None"

fun attestationEntry :: "sidecarEvent \<Rightarrow> (string \<times> bool) option" where
  "attestationEntry (AttestationEvent k ts) = Some (k, True)"
| "attestationEntry e = None"

definition cacheStep :: "('e \<Rightarrow> ('k \<times> 'v) option) \<Rightarrow> ('k \<Rightarrow> 'v option) \<Rightarrow> 'e \<Rightarrow> ('k \<Rightarrow> 'v option)" where
  "cacheStep entry m e = (case entry e of None \<Rightarrow> m | Some (k, v) \<Rightarrow> m(k \<mapsto> v))"

definition cacheOf :: "('e \<Rightarrow> ('k \<times> 'v) option) \<Rightarrow> 'e list \<Rightarrow> ('k \<Rightarrow> 'v option)" where
  "cacheOf entry es = foldl (cacheStep entry) (\<lambda>_. None) es"

definition issuerView :: "issuerLedger option \<Rightarrow> string \<Rightarrow> string" where
  "issuerView l h = (case l of None \<Rightarrow> ''INACTIVE'' | Some l \<Rightarrow>
     (case find (\<lambda>e. bytesToHex (fst e) = h) (issuerStatuses l) of None \<Rightarrow> ''INACTIVE'' | Some e \<Rightarrow> issuerStatusName (snd e)))"

definition revocationView :: "revocationLedger option \<Rightarrow> string \<Rightarrow> string" where
  "revocationView l h = (case l of None \<Rightarrow> ''ACTIVE'' | Some l \<Rightarrow>
     (case find (\<lambda>e. bytesToHex (fst e) = h) (credentialStatuses l) of None \<Rightarrow> ''ACTIVE'' | Some e \<Rightarrow> credStatusName (snd e)))"

definition identityView :: "identityLedger option \<Rightarrow> string \<Rightarrow> string \<times> string" where
  "identityView l h = (case l of None \<Rightarrow> ([], ''INACTIVE'') | Some l \<Rightarrow>
     (case find (\<lambda>e. bytesToHex (fst e) = h) (commitments l) of
        None \<Rightarrow> ([], ''INACTIVE'')
      | Some e \<Rightarrow> (bytesToHex (snd e), commitmentStatusName (the_or 0 (map_of (commitmentStatuses l) (fst e))))))"

definition attestationView :: "predicateLedger option \<Rightarrow> string \<Rightarrow> bool" where
  "attestationView l h = (case l of None \<Rightarrow> False | Some l \<Rightarrow> h \<in> set (map bytesToHex (attestations l)))"

definition mirrored ::
  "('e \<Rightarrow> ('k \<times> 'v) option) \<Rightarrow> ('l option \<Rightarrow> 'k \<Rightarrow> 'v) \<Rightarrow> ('l \<Rightarrow> bool) \<Rightarrow> ('l, 'e) contractFeed \<Rightarrow> bool" where
  "mirrored entry view valid s \<longleftrightarrow>
     (\<forall>k. the_or (view None k) (cacheOf entry (cf_emitted s) k) = view (cf_current s) k) \<and>
     (case cf_current s of None \<Rightarrow> True | Some l \<Rightarrow> valid l)"

text \<open>What the chain guarantees of a state that arrives, given the one known so far.\<close>

definition goodState :: "('l \<Rightarrow> bool) \<Rightarrow> ('l option \<Rightarrow> 'l \<Rightarrow> bool) \<Rightarrow> ('r \<Rightarrow> 'l res) \<Rightarrow> 'l option \<Rightarrow> 'r \<Rightarrow> bool" where
  "goodState valid follows ledgerFn cur raw \<longleftrightarrow>
     (case ledgerFn raw of Inl _ \<Rightarrow> True | Inr l \<Rightarrow> valid l \<and> follows cur l)"

fun feedAllowed ::
  "('l \<Rightarrow> bool) \<Rightarrow> ('l option \<Rightarrow> 'l \<Rightarrow> bool) \<Rightarrow> ('r \<Rightarrow> 'l res) \<Rightarrow> ('l, 'e) contractFeed \<Rightarrow> 'r feedEvent \<Rightarrow> bool" where
  "feedAllowed valid follows ledgerFn s (StateArrives raw ts) \<longleftrightarrow>
     goodState valid follows ledgerFn (cf_current s) raw"
| "feedAllowed valid follows ledgerFn s (PollAnswers (Some raw) ts) \<longleftrightarrow>
     goodState valid follows ledgerFn (cf_current s) raw"
| "feedAllowed valid follows ledgerFn s e \<longleftrightarrow> True"

lemma cacheOf_Nil [simp]: "cacheOf entry [] k = None"
  by (simp add: cacheOf_def)

lemma foldl_cacheStep:
  "foldl (cacheStep entry) m es k =
     (case foldl (cacheStep entry) (\<lambda>_. None) es k of None \<Rightarrow> m k | Some v \<Rightarrow> Some v)"
proof (induction es arbitrary: m)
  case (Cons e es)
  show ?case
    by (simp add: Cons.IH[of "cacheStep entry m e"] Cons.IH[of "cacheStep entry (\<lambda>_. None) e"])
      (auto simp: cacheStep_def split: option.splits)
qed simp

lemma cacheOf_append:
  "cacheOf entry (xs @ ys) k = (case cacheOf entry ys k of None \<Rightarrow> cacheOf entry xs k | Some v \<Rightarrow> Some v)"
  unfolding cacheOf_def foldl_append by (rule foldl_cacheStep)

text \<open>
  The contract of a diff: read on top of the previous view, its events give the next view.  \<open>follows\<close> is what
  the chain guarantees of successive ledgers, \<open>valid\<close> that the keys of a map are distinct.
\<close>

locale ledger_feed =
  fixes diff :: "int \<Rightarrow> 'l option \<Rightarrow> 'l \<Rightarrow> 'e list"
    and entry :: "'e \<Rightarrow> ('k \<times> 'v) option"
    and view :: "'l option \<Rightarrow> 'k \<Rightarrow> 'v"
    and valid :: "'l \<Rightarrow> bool"
    and follows :: "'l option \<Rightarrow> 'l \<Rightarrow> bool"
  assumes diff_view: "valid l \<Longrightarrow> (\<And>p. prev = Some p \<Longrightarrow> valid p) \<Longrightarrow> follows prev l \<Longrightarrow>
      the_or (view prev k) (cacheOf entry (diff ts prev l) k) = view (Some l) k"
begin

lemma observe_mirrored:
  assumes "mirrored entry view valid s" and "goodState valid follows fn (cf_current s) raw"
  shows "mirrored entry view valid (observe diff fn raw ts s)"
proof (cases "fn raw")
  case (Inl e)
  with assms show ?thesis by (simp add: observe_def)
next
  case (Inr l)
  have prev: "valid p" if "cf_current s = Some p" for p using assms(1) that by (simp add: mirrored_def)
  have good: "valid l" "follows (cf_current s) l" using assms(2) Inr by (simp_all add: goodState_def)
  have "the_or (view None k) (cacheOf entry (cf_emitted s @ diff ts (cf_current s) l) k) = view (Some l) k" for k
  proof -
    have "the_or (view None k) (cacheOf entry (cf_emitted s) k) = view (cf_current s) k"
      using assms(1) by (simp add: mirrored_def)
    with diff_view[OF good(1) prev good(2), of k ts] show ?thesis
      by (cases "cacheOf entry (diff ts (cf_current s) l) k") (simp_all add: cacheOf_append the_or_def)
  qed
  with good Inr show ?thesis by (simp add: observe_def mirrored_def)
qed

lemma mirrored_weaken:
  "mirrored entry view valid s \<Longrightarrow> cf_current t = cf_current s \<Longrightarrow> cf_emitted t = cf_emitted s \<Longrightarrow> mirrored entry view valid t"
  by (simp add: mirrored_def)

lemma feedStep_mirrored:
  assumes "mirrored entry view valid s" "feedAllowed valid follows fn s e"
  shows "mirrored entry view valid (feedStep diff fn s e)"
proof (cases e)
  case (StateArrives raw ts)
  with assms observe_mirrored[of s fn raw ts] show ?thesis by simp
next
  case (PollAnswers raw ts)
  show ?thesis
  proof (cases "cf_polls s")
    case (Suc n)
    have "mirrored entry view valid (s\<lparr>cf_polls := n\<rparr>)" by (rule mirrored_weaken[OF assms(1)]) simp_all
    with assms PollAnswers Suc observe_mirrored[of "s\<lparr>cf_polls := n\<rparr>" fn _ ts] show ?thesis
      by (cases raw) simp_all
  qed (use assms PollAnswers in simp)
qed (use assms in \<open>auto intro: mirrored_weaken split: nat.splits\<close>)

lemma join_mirrored:
  assumes "\<And>raw. initial = Some raw \<Longrightarrow> goodState valid follows fn None raw"
  shows "mirrored entry view valid (joinContract diff fn initial ts)"
proof -
  have "mirrored entry view valid \<lparr>cf_current = None, cf_emitted = [], cf_live = True, cf_reopen = 0, cf_polling = True,
          cf_polls = 0, cf_stopped = False\<rparr>"
    by (simp add: mirrored_def the_or_def)
  from observe_mirrored[OF this] this assms show ?thesis
    by (auto simp: joinContract_def Let_def split: option.splits)
qed

end

sublocale ledger_feed \<subseteq> fed: guarded_machine "feedStep diff fn" "mirrored entry view valid" "feedAllowed valid follows fn" for fn
  by unfold_locales (rule feedStep_mirrored)

section \<open>The four contracts\<close>

text \<open>The events of the entries that pass a test, read as a cache.\<close>

lemma cacheOf_map_filter:
  assumes "distinct (map key xs)" and "\<And>x. entry (ev x) = Some (key x, val x)"
  shows "cacheOf entry (map ev (filter P xs)) h =
     (case find (\<lambda>x. key x = h) xs of None \<Rightarrow> None | Some x \<Rightarrow> if P x then Some (val x) else None)"
  using assms(1)
proof (induction xs rule: rev_induct)
  case (snoc x xs)
  have one: "cacheOf entry [ev x] h = (if key x = h then Some (val x) else None)"
    by (simp add: cacheOf_def cacheStep_def assms(2))
  have miss: "find (\<lambda>x. key x = h) xs = None" if "key x = h"
    using snoc.prems that unfolding find_None_iff by (auto simp: image_iff)
  have "find (\<lambda>x. key x = h) (xs @ [x]) = (case find (\<lambda>x. key x = h) xs of None \<Rightarrow> if key x = h then Some x else None | y \<Rightarrow> y)"
    by (induction xs) auto
  with snoc one miss show ?case by (auto simp: cacheOf_append split: option.splits)
qed simp

lemma bytesToHex_inject [simp]: "bytesToHex a = bytesToHex b \<longleftrightarrow> a = b"
  by (metis bytesToHex_eq_hexEncode hexToBytes_hexEncode)

lemma distinct_hex: "distinct (map fst xs) \<Longrightarrow> distinct (map (\<lambda>e. bytesToHex (fst e)) xs)"
  by (induction xs) force+

lemma find_hex: "find (\<lambda>e. fst e = k) xs = map_option (\<lambda>v. (k, v)) (map_of xs k)"
  by (induction xs) auto

text \<open>Every key a consumer can ask about is the hex form of some bytes, or names no entry.\<close>

lemma find_hex_None: "(\<nexists>k. h = bytesToHex k) \<Longrightarrow> find (\<lambda>e. bytesToHex (fst e) = h) xs = None"
  by (auto simp: find_None_iff)

definition issuer_wf :: "issuerLedger \<Rightarrow> bool" where
  "issuer_wf l \<longleftrightarrow> distinct (map fst (issuerStatuses l))"

definition issuer_follows :: "issuerLedger option \<Rightarrow> issuerLedger \<Rightarrow> bool" where
  "issuer_follows prev l \<longleftrightarrow>
     (case prev of None \<Rightarrow> True | Some p \<Rightarrow> set (map fst (issuerStatuses p)) \<subseteq> set (map fst (issuerStatuses l)))"

definition revocation_wf :: "revocationLedger \<Rightarrow> bool" where
  "revocation_wf l \<longleftrightarrow> distinct (map fst (credentialStatuses l))"

definition identity_wf :: "identityLedger \<Rightarrow> bool" where
  "identity_wf l \<longleftrightarrow> distinct (map fst (commitments l))"

definition identity_follows :: "identityLedger option \<Rightarrow> identityLedger \<Rightarrow> bool" where
  "identity_follows prev l \<longleftrightarrow>
     (case prev of None \<Rightarrow> True | Some p \<Rightarrow> set (map fst (commitments p)) \<subseteq> set (map fst (commitments l)))"

definition predicate_follows :: "predicateLedger option \<Rightarrow> predicateLedger \<Rightarrow> bool" where
  "predicate_follows prev l \<longleftrightarrow>
     (case prev of None \<Rightarrow> True | Some p \<Rightarrow> set (attestations p) \<subseteq> set (attestations l))"

lemma entry_of:
  "issuerEntry (issuerEventOf ts l e) = Some (bytesToHex (fst e), issuerStatusName (snd e))"
  "revocationEntry (revocationEventOf ts r f) = Some (bytesToHex (fst f), credStatusName (snd f))"
  "identityEntry (identityEventOf ts m g) =
     Some (bytesToHex (fst g), bytesToHex (snd g), commitmentStatusName (the_or 0 (map_of (commitmentStatuses m) (fst g))))"
  by (simp_all add: issuerEventOf_def revocationEventOf_def identityEventOf_def)


lemma hex_cases:
  obtains k where "h = bytesToHex k" | "\<And>xs :: (bytes \<times> 'v) list. find (\<lambda>e. bytesToHex (fst e) = h) xs = None"
  by (metis find_hex_None)

lemma issuer_cache:
  assumes "issuer_wf l"
  shows "cacheOf issuerEntry (map (issuerEventOf ts l) (filter P (issuerStatuses l))) h =
    (case find (\<lambda>e. bytesToHex (fst e) = h) (issuerStatuses l) of
       None \<Rightarrow> None | Some e \<Rightarrow> if P e then Some (issuerStatusName (snd e)) else None)"
  using assms by (intro cacheOf_map_filter) (simp_all add: entry_of issuer_wf_def distinct_hex)

lemma revocation_cache:
  assumes "revocation_wf l"
  shows "cacheOf revocationEntry (map (revocationEventOf ts l) (filter P (credentialStatuses l))) h =
    (case find (\<lambda>e. bytesToHex (fst e) = h) (credentialStatuses l) of
       None \<Rightarrow> None | Some e \<Rightarrow> if P e then Some (credStatusName (snd e)) else None)"
  using assms by (intro cacheOf_map_filter) (simp_all add: entry_of revocation_wf_def distinct_hex)

lemma identity_cache:
  assumes "identity_wf l"
  shows "cacheOf identityEntry (map (identityEventOf ts l) (filter P (commitments l))) h =
    (case find (\<lambda>e. bytesToHex (fst e) = h) (commitments l) of
       None \<Rightarrow> None
     | Some e \<Rightarrow> if P e then Some (bytesToHex (snd e), commitmentStatusName (the_or 0 (map_of (commitmentStatuses l) (fst e))))
                else None)"
  using assms by (intro cacheOf_map_filter) (simp_all add: entry_of identity_wf_def distinct_hex)

lemmas issuer_caches = issuer_cache issuer_cache[where P = "\<lambda>_. True", simplified]
lemmas revocation_caches = revocation_cache revocation_cache[where P = "\<lambda>_. True", simplified]
lemmas identity_caches = identity_cache identity_cache[where P = "\<lambda>_. True", simplified]

lemma attestation_cache: "cacheOf attestationEntry (map (\<lambda>k. AttestationEvent (f k) ts) xs) h = (if h \<in> f ` set xs then Some True else None)"
  by (induction xs rule: rev_induct) (auto simp: cacheOf_append, auto simp: cacheOf_def cacheStep_def)

interpretation issuers: ledger_feed diffIssuer issuerEntry issuerView issuer_wf issuer_follows
proof
  fix l prev k ts
  assume wf: "issuer_wf l" and fol: "issuer_follows prev l"
  show "the_or (issuerView prev k) (cacheOf issuerEntry (diffIssuer ts prev l) k) = issuerView (Some l) k"
  proof (cases k rule: hex_cases[where ?'v = int])
    case (1 b)
    have keep: "map_of (issuerStatuses p) b = None" if "prev = Some p" "map_of (issuerStatuses l) b = None" for p
      using fol that by (auto simp: issuer_follows_def map_of_eq_None_iff)
    show ?thesis
    proof (cases prev)
      case None
      with 1 wf show ?thesis
        by (cases "map_of (issuerStatuses l) b")
          (simp_all add: diffIssuer_def issuer_caches issuerView_def find_hex the_or_def)
    next
      case (Some p)
      with 1 wf keep[OF Some] show ?thesis
        by (cases "map_of (issuerStatuses l) b"; cases "map_of (issuerStatuses p) b")
          (simp_all add: diffIssuer_def issuer_caches issuerView_def find_hex the_or_def)
    qed
  next
    case 2
    with wf show ?thesis by (auto simp: diffIssuer_def issuer_caches issuerView_def the_or_def split: option.splits)
  qed
qed

lemma revocation_removed_cache:
  "cacheOf revocationEntry (map (\<lambda>(r, _). RevocationEvent (bytesToHex r) ''ACTIVE'' z None ts) xs) h =
     (if h \<in> bytesToHex ` fst ` set xs then Some ''ACTIVE'' else None)"
proof (induction xs rule: rev_induct)
  case (snoc x xs)
  obtain b v where "x = (b, v)" by (cases x)
  then have "cacheOf revocationEntry (map (\<lambda>(r, _). RevocationEvent (bytesToHex r) ''ACTIVE'' z None ts) [x]) h =
      (if h = bytesToHex b then Some ''ACTIVE'' else None)"
    by (simp add: cacheOf_def cacheStep_def)
  with snoc \<open>x = (b, v)\<close> show ?case by (auto simp: cacheOf_append simp del: bytesToHex_inject)
qed simp

lemma revocation_gone_cache:
  "cacheOf revocationEntry (map (\<lambda>(r, _). RevocationEvent (bytesToHex r) ''ACTIVE'' z None ts)
     (filter (\<lambda>(r, _). bytesToHex r \<notin> set (map (bytesToHex \<circ> fst) xs)) ys)) (bytesToHex b) =
   (if map_of ys b \<noteq> None \<and> map_of xs b = None then Some ''ACTIVE'' else None)"
  unfolding revocation_removed_cache by (force simp: map_of_eq_None_iff)

interpretation revocations: ledger_feed diffRevocation revocationEntry revocationView revocation_wf "\<lambda>_ _. True"
proof
  fix l prev k ts
  assume wf: "revocation_wf l"
  show "the_or (revocationView prev k) (cacheOf revocationEntry (diffRevocation ts prev l) k) = revocationView (Some l) k"
  proof (cases k rule: hex_cases[where ?'v = int])
    case (1 b)
    show ?thesis
    proof (cases prev)
      case None
      with 1 wf show ?thesis
        by (auto simp: diffRevocation_def revocation_caches revocationView_def find_hex the_or_def split: option.splits)
    next
      case (Some p)
      with 1 wf show ?thesis
        by (cases "map_of (credentialStatuses l) b"; cases "map_of (credentialStatuses p) b")
          (simp_all add: diffRevocation_def revocation_caches revocation_gone_cache[simplified] cacheOf_append
            revocationView_def find_hex the_or_def)
    qed
  next
    case 2
    moreover have "k \<noteq> bytesToHex b" for b using 2[of "[(b, 0)]"] by auto
    then have "k \<notin> bytesToHex ` A" for A by auto
    ultimately show ?thesis using wf
      by (auto simp: diffRevocation_def revocation_caches revocation_removed_cache cacheOf_append revocationView_def
          the_or_def split: option.splits)
  qed
qed

interpretation identities: ledger_feed diffIdentity identityEntry identityView identity_wf identity_follows
proof
  fix l prev k ts
  assume wf: "identity_wf l" and fol: "identity_follows prev l"
  show "the_or (identityView prev k) (cacheOf identityEntry (diffIdentity ts prev l) k) = identityView (Some l) k"
  proof (cases k rule: hex_cases[where ?'v = bytes])
    case (1 b)
    have keep: "map_of (commitments p) b = None" if "prev = Some p" "map_of (commitments l) b = None" for p
      using fol that by (auto simp: identity_follows_def map_of_eq_None_iff)
    show ?thesis
    proof (cases prev)
      case None
      with 1 wf show ?thesis
        by (cases "map_of (commitments l) b")
          (simp_all add: diffIdentity_def identity_caches identityView_def find_hex the_or_def Let_def)
    next
      case (Some p)
      with 1 wf keep[OF Some] show ?thesis
        by (cases "map_of (commitments l) b"; cases "map_of (commitments p) b"; cases "map_of (commitmentStatuses p) b")
          (simp_all add: diffIdentity_def identity_caches identityView_def find_hex the_or_def Let_def)
    qed
  next
    case 2
    with wf show ?thesis by (auto simp: diffIdentity_def identity_caches identityView_def the_or_def split: option.splits)
  qed
qed

interpretation attestationsOf: ledger_feed diffPredicate attestationEntry attestationView "\<lambda>_. True" predicate_follows
proof
  fix l :: predicateLedger and prev k ts
  assume fol: "predicate_follows prev l"
  show "the_or (attestationView prev k) (cacheOf attestationEntry (diffPredicate ts prev l) k) = attestationView (Some l) k"
    using fol
    by (cases prev) (auto simp: diffPredicate_def attestation_cache attestationView_def predicate_follows_def the_or_def)
qed


section \<open>Reads and caches\<close>

lemma revocationView_read: "revocationView (Some l) (bytesToHex h) = credStatusName (getCredentialStatusFromLedger h l)"
  by (simp add: revocationView_def getCredentialStatusFromLedger_def find_hex the_or_def credStatusName_def
      split: option.splits)

lemma issuerView_read: "issuerView (Some l) (bytesToHex h) = issuerStatusName (getIssuerStatusFromLedger h l)"
  by (simp add: issuerView_def getIssuerStatusFromLedger_def find_hex the_or_def issuerStatusName_def
      split: option.splits)

lemma attestationView_read: "attestationView (Some l) (bytesToHex k) \<longleftrightarrow> isAttestedFromLedger k l"
  by (auto simp: attestationView_def isAttestedFromLedger_def)

lemma trusted_read: "issuerStatusName (getIssuerStatusFromLedger k l) = ''ACTIVE'' \<longleftrightarrow> isIssuerTrustedFromLedger k l"
  by (auto simp: getIssuerStatusFromLedger_def isIssuerTrustedFromLedger_def issuerStatusName_def the_or_def
      split: option.splits)

lemma revoked_read:
  "isCredentialRevokedFromLedger h l \<longleftrightarrow>
     credStatusName (getCredentialStatusFromLedger h l) \<in> {''REVOKED'', ''SUSPENDED''}"
  by (auto simp: isCredentialRevokedFromLedger_def getCredentialStatusFromLedger_def credStatusName_def the_or_def
      split: option.splits)

section \<open>Properties\<close>

text \<open>C27: The revocations a consumer knows are the ones on the ledger.  Whatever states the subscription and the
  polls deliver, in whatever order, with stream errors, dropped transitional states and reconnects in between, a
  consumer that applied every event the sidecar emitted holds a credential for revoked or suspended exactly when the
  sidecar's own ledger read says so; entries that vanish from the ledger included.\<close>

theorem revocations_mirrored:
  assumes "\<And>raw. initial = Some raw \<Longrightarrow> goodState revocation_wf (\<lambda>_ _. True) fn None raw"
    and "s0 = joinContract diffRevocation fn initial ts"
    and "allowed_run (feedAllowed revocation_wf (\<lambda>_ _. True) fn) (feedStep diffRevocation fn) s0 es"
    and "s = run_events (feedStep diffRevocation fn) s0 es" and "cf_current s = Some l"
  shows "isCredentialRevokedFromLedger rootHash l \<longleftrightarrow>
     the_or ''ACTIVE'' (cacheOf revocationEntry (cf_emitted s) (bytesToHex rootHash)) \<in> {''REVOKED'', ''SUSPENDED''}"
proof -
  have "mirrored revocationEntry revocationView revocation_wf s0"
    unfolding assms(2) by (rule revocations.join_mirrored) (rule assms(1))
  from revocations.fed.guarded_run[OF this assms(3)]
  have "the_or (revocationView None (bytesToHex rootHash)) (cacheOf revocationEntry (cf_emitted s) (bytesToHex rootHash)) =
      revocationView (cf_current s) (bytesToHex rootHash)"
    unfolding assms(4) by (simp add: mirrored_def)
  moreover have "revocationView None (bytesToHex rootHash) = ''ACTIVE''" by (simp add: revocationView_def)
  ultimately show ?thesis using assms(5) by (simp add: revocationView_read revoked_read)
qed

text \<open>The issuers a consumer trusts and the attestations it knows are the ones on the ledger, as long as the chain
  never removes an issuer or an attestation: after any deliveries, polls and reconnects a consumer that applied every
  emitted event holds an issuer for active exactly when the sidecar trusts it, and an attestation for present exactly
  when it is in the contract's set.\<close>

theorem trust_mirrored:
  assumes "\<And>raw. initial = Some raw \<Longrightarrow> goodState issuer_wf issuer_follows fn None raw"
    and "s0 = joinContract diffIssuer fn initial ts"
    and "allowed_run (feedAllowed issuer_wf issuer_follows fn) (feedStep diffIssuer fn) s0 es"
    and "s = run_events (feedStep diffIssuer fn) s0 es" and "cf_current s = Some l"
    and "\<And>raw. initial' = Some raw \<Longrightarrow> goodState (\<lambda>_. True) predicate_follows fn' None raw"
    and "t0 = joinContract diffPredicate fn' initial' ts"
    and "allowed_run (feedAllowed (\<lambda>_. True) predicate_follows fn') (feedStep diffPredicate fn') t0 fs"
    and "t = run_events (feedStep diffPredicate fn') t0 fs" and "cf_current t = Some m"
  shows "(isIssuerTrustedFromLedger keyHash l \<longleftrightarrow>
      the_or ''INACTIVE'' (cacheOf issuerEntry (cf_emitted s) (bytesToHex keyHash)) = ''ACTIVE'') \<and>
    (isAttestedFromLedger key m \<longleftrightarrow> the_or False (cacheOf attestationEntry (cf_emitted t) (bytesToHex key)))"
proof -
  have "mirrored issuerEntry issuerView issuer_wf s0"
    unfolding assms(2) by (rule issuers.join_mirrored) (rule assms(1))
  from issuers.fed.guarded_run[OF this assms(3)]
  have "the_or (issuerView None (bytesToHex keyHash)) (cacheOf issuerEntry (cf_emitted s) (bytesToHex keyHash)) =
      issuerView (cf_current s) (bytesToHex keyHash)"
    unfolding assms(4) by (simp add: mirrored_def)
  moreover have "issuerView None (bytesToHex keyHash) = ''INACTIVE''" by (simp add: issuerView_def)
  moreover have "mirrored attestationEntry attestationView (\<lambda>_. True) t0"
    unfolding assms(7) by (rule attestationsOf.join_mirrored) (rule assms(6))
  from attestationsOf.fed.guarded_run[OF this assms(8)]
  have "the_or (attestationView None (bytesToHex key)) (cacheOf attestationEntry (cf_emitted t) (bytesToHex key)) =
      attestationView (cf_current t) (bytesToHex key)"
    unfolding assms(9) by (simp add: mirrored_def)
  moreover have "attestationView None (bytesToHex key) = False" by (simp add: attestationView_def)
  ultimately show ?thesis using assms(5,10) by (simp add: issuerView_read attestationView_read trusted_read)
qed

text \<open>The subscription is never silently dead.\<close>

definition feedAlive :: "('l, 'e) contractFeed \<Rightarrow> bool" where
  "feedAlive s \<longleftrightarrow> (if cf_stopped s then \<not> cf_live s \<and> \<not> cf_polling s else (cf_live s \<or> 0 < cf_reopen s) \<and> cf_polling s)"

lemma observe_flags [simp]:
  "cf_stopped (observe diff fn raw ts s) = cf_stopped s" "cf_live (observe diff fn raw ts s) = cf_live s"
  "cf_reopen (observe diff fn raw ts s) = cf_reopen s" "cf_polling (observe diff fn raw ts s) = cf_polling s"
  by (simp_all add: observe_def split: sum.splits)

interpretation feed_life: event_machine "feedStep diff fn" feedAlive for diff fn
proof
  show "feedAlive (feedStep diff fn s e)" if "feedAlive s" for s e
    using that by (cases e) (auto simp: feedAlive_def Let_def split: nat.splits option.splits if_splits)
qed

text \<open>A joined contract stays followed.  After any sequence of deliveries, stream errors and completions, timers
  and polls, either the contract was unsubscribed, and then neither a subscription nor a poll timer is left, or a
  subscription is open or about to be reopened and the polling fallback runs.\<close>

theorem feed_never_dies:
  "let s = run_events (feedStep diff fn) (joinContract diff fn initial ts) es in
     (cf_stopped s \<longrightarrow> \<not> cf_live s \<and> \<not> cf_polling s) \<and>
     (\<not> cf_stopped s \<longrightarrow> (cf_live s \<or> 0 < cf_reopen s) \<and> cf_polling s)"
proof -
  have "feedAlive (joinContract diff fn initial ts)"
    by (auto simp: feedAlive_def joinContract_def Let_def split: option.splits)
  from feed_life.run_inv[OF this, of diff fn es] show ?thesis by (auto simp: feedAlive_def Let_def split: if_splits)
qed

section \<open>Witnesses\<close>

definition exRoot :: bytes where "exRoot = replicate 32 7"

definition exRevoked :: "int \<Rightarrow> revocationLedger" where
  "exRevoked st = \<lparr>credentialStatuses = [(exRoot, st)], credentialIssuers = [], credentialReasons = []\<rparr>"

definition exFeed :: "revocationLedger feedEvent list" where
  "exFeed = [StateArrives (exRevoked 1) 1, StreamEnds, PollTick, PollAnswers (Some (exRevoked 2)) 2, ReopenElapses]"

lemmas exFeed_simps = exFeed_def exRevoked_def goodState_def revocation_wf_def issuer_wf_def observe_def joinContract_def
  diffRevocation_def Let_def isCredentialRevokedFromLedger_def isIssuerTrustedFromLedger_def isAttestedFromLedger_def

theorem revocations_mirrored_witness:
  "isCredentialRevokedFromLedger exRoot (exRevoked 2) \<and>
   the_or ''ACTIVE'' (cacheOf revocationEntry
     (cf_emitted (run_events (feedStep diffRevocation Inr) (joinContract diffRevocation Inr (Some (exRevoked 0)) 0) exFeed))
     (bytesToHex exRoot)) \<in> {''REVOKED'', ''SUSPENDED''}"
proof -
  have ok: "goodState revocation_wf (\<lambda>_ _. True) Inr None (exRevoked 0)" by (simp add: exFeed_simps)
  have al: "allowed_run (feedAllowed revocation_wf (\<lambda>_ _. True) Inr) (feedStep diffRevocation Inr)
      (joinContract diffRevocation Inr (Some (exRevoked 0)) 0) exFeed" by (simp add: exFeed_simps)
  have cur: "cf_current (run_events (feedStep diffRevocation Inr) (joinContract diffRevocation Inr (Some (exRevoked 0)) 0) exFeed) =
      Some (exRevoked 2)" by (simp add: exFeed_simps)
  have "isCredentialRevokedFromLedger exRoot (exRevoked 2)" by (simp add: exFeed_simps)
  with revocations_mirrored[OF _ refl al refl cur, of exRoot] ok show ?thesis by simp
qed

definition exIssuers :: issuerLedger where
  "exIssuers = \<lparr>issuerStatuses = [(exRoot, 1)], issuerKeys = [], issuerNames = [], issuerCount = 1\<rparr>"

definition exAttested :: predicateLedger where
  "exAttested = \<lparr>attestations = [exRoot], attestCount = 1\<rparr>"

theorem trust_mirrored_witness:
  "isIssuerTrustedFromLedger exRoot exIssuers \<and> isAttestedFromLedger exRoot exAttested \<and>
   the_or ''INACTIVE'' (cacheOf issuerEntry (cf_emitted (joinContract diffIssuer Inr (Some exIssuers) 0)) (bytesToHex exRoot)) = ''ACTIVE'' \<and>
   the_or False (cacheOf attestationEntry (cf_emitted (joinContract diffPredicate Inr (Some exAttested) 0)) (bytesToHex exRoot))"
proof -
  have ok: "goodState issuer_wf issuer_follows Inr None exIssuers" "goodState (\<lambda>_. True) predicate_follows Inr None exAttested"
    by (simp_all add: exFeed_simps exIssuers_def exAttested_def issuer_follows_def predicate_follows_def)
  have cur: "cf_current (run_events (feedStep diffIssuer Inr) (joinContract diffIssuer Inr (Some exIssuers) 0) []) = Some exIssuers"
    "cf_current (run_events (feedStep diffPredicate Inr) (joinContract diffPredicate Inr (Some exAttested) 0) []) = Some exAttested"
    by (simp_all add: exFeed_simps exIssuers_def exAttested_def issuer_follows_def predicate_follows_def)
  have "isIssuerTrustedFromLedger exRoot exIssuers" "isAttestedFromLedger exRoot exAttested" by (simp_all add: exFeed_simps exIssuers_def exAttested_def issuer_follows_def predicate_follows_def)
  with trust_mirrored[OF _ refl _ refl cur(1) _ refl _ refl cur(2), of exRoot exRoot] ok show ?thesis by simp
qed

theorem feed_never_dies_witness:
  "let s = run_events (feedStep diffRevocation Inr) (joinContract diffRevocation Inr (Some (exRevoked 0)) 0) (take 2 exFeed) in
     \<not> cf_stopped s \<and> \<not> cf_live s \<and> 0 < cf_reopen s \<and> cf_polling s"
proof -
  have "\<not> cf_stopped (run_events (feedStep diffRevocation Inr) (joinContract diffRevocation Inr (Some (exRevoked 0)) 0) (take 2 exFeed))"
    "\<not> cf_live (run_events (feedStep diffRevocation Inr) (joinContract diffRevocation Inr (Some (exRevoked 0)) 0) (take 2 exFeed))"
    by (simp_all add: exFeed_simps)
  with feed_never_dies[of diffRevocation Inr "Some (exRevoked 0)" 0 "take 2 exFeed"] show ?thesis by (simp add: Let_def)
qed

end
