(* ===== verification/Event_Stream.thy ===== *)
theory Event_Stream
  imports Ledger_Events "HOL-Library.AList"
begin

text \<open>
  The event stream of the sidecar (\<open>routes/events.ts\<close>, \<open>snapshotEvents\<close> of \<open>midnight.ts\<close>): a client that
  connects is sent every entry of the current ledgers, part by part, and is then subscribed to the event bus.  The
  generator is lazy: each part reads its ledger when it is reached, and every frame is awaited, so ledger changes
  interleave with the snapshot.
\<close>

section \<open>The snapshot\<close>

record sidecarApis =
  sa_issuer :: "issuerLedger res option"
  sa_revocation :: "revocationLedger res option"
  sa_identity :: "identityLedger res option"
  sa_predicates :: "(predicateKind \<times> predicateLedger res) list"

datatype snapshotPart = PartIssuer | PartRevocation | PartIdentity | PartAttestation predicateKind

definition snapshotParts :: "string list \<Rightarrow> sidecarApis \<Rightarrow> snapshotPart list" where
  "snapshotParts topics A =
     (if ''issuer'' \<in> set topics then [PartIssuer] else []) @
     (if ''revocation'' \<in> set topics then [PartRevocation] else []) @
     (if ''identity'' \<in> set topics then [PartIdentity] else []) @
     (if ''attestation'' \<in> set topics then map (PartAttestation \<circ> fst) (sa_predicates A) else [])"

definition apiEvents :: "('l \<Rightarrow> sidecarEvent list) \<Rightarrow> 'l res option \<Rightarrow> sidecarEvent list res" where
  "apiEvents evs api =
     (case api of None \<Rightarrow> Inr [] | Some (Inl e) \<Rightarrow> Inl e | Some (Inr l) \<Rightarrow> Inr (evs l))"

fun partEvents :: "int \<Rightarrow> sidecarApis \<Rightarrow> snapshotPart \<Rightarrow> sidecarEvent list res" where
  "partEvents ts A PartIssuer = apiEvents (\<lambda>l. map (issuerEventOf ts l) (issuerStatuses l)) (sa_issuer A)"
| "partEvents ts A PartRevocation = apiEvents (\<lambda>l. map (revocationEventOf ts l) (credentialStatuses l)) (sa_revocation A)"
| "partEvents ts A PartIdentity = apiEvents (\<lambda>l. map (identityEventOf ts l) (commitments l)) (sa_identity A)"
| "partEvents ts A (PartAttestation k) =
     apiEvents (\<lambda>l. map (\<lambda>a. AttestationEvent (bytesToHex a) ts) (attestations l)) (map_of (sa_predicates A) k)"

section \<open>A connection\<close>

datatype sseFrame = EventFrame nat sidecarEvent | ErrorFrame string string

datatype ssePhase =
    Snapshotting int "sidecarEvent list" "snapshotPart list"
  | Tailing
  | Aborted

record eventRoute =
  er_apis :: sidecarApis
  er_topics :: "string list"
  er_phase :: ssePhase
  er_id :: nat
  er_frames :: "sseFrame list"

datatype streamEvent =
    IssuerChanges issuerLedger int
  | RevocationChanges revocationLedger int
  | IdentityChanges identityLedger int
  | AttestationsChange predicateKind predicateLedger int
  | ConnectionStep
  | ClientAborts

definition DEFAULT_TOPICS :: string where "DEFAULT_TOPICS = ''revocation,issuer,identity,attestation''"

definition parseTopics :: "string option \<Rightarrow> string list" where
  "parseTopics q = filter (\<lambda>t. t \<noteq> []) (map trim (splitOn (CHR '','') (the_or DEFAULT_TOPICS q)))"

definition openStream :: "sidecarApis \<Rightarrow> string option \<Rightarrow> int \<Rightarrow> eventRoute" where
  "openStream A query ts =
     (let topics = parseTopics query in
      \<lparr>er_apis = A, er_topics = topics, er_phase = Snapshotting ts [] (snapshotParts topics A), er_id = 0, er_frames = []\<rparr>)"

definition send :: "eventRoute \<Rightarrow> sidecarEvent \<Rightarrow> eventRoute" where
  "send s e =
     (if eventType e \<in> set (er_topics s)
      then s\<lparr>er_id := Suc (er_id s), er_frames := er_frames s @ [EventFrame (Suc (er_id s)) e]\<rparr>
      else s)"

text \<open>\<open>eventBus.emit\<close> reaches the connection only once it has subscribed.\<close>

definition busEmit :: "sidecarEvent list \<Rightarrow> eventRoute \<Rightarrow> eventRoute" where
  "busEmit es s = (if er_phase s = Tailing then foldl send s es else s)"

definition connectionStep :: "eventRoute \<Rightarrow> eventRoute" where
  "connectionStep s =
     (case er_phase s of
        Snapshotting ts (e # es) ps \<Rightarrow> (send s e)\<lparr>er_phase := Snapshotting ts es ps\<rparr>
      | Snapshotting ts [] (p # ps) \<Rightarrow>
          (case partEvents ts (er_apis s) p of
             Inr es \<Rightarrow> s\<lparr>er_phase := Snapshotting ts es ps\<rparr>
           | Inl e \<Rightarrow> s\<lparr>er_phase := Tailing,
                         er_frames := er_frames s @ [ErrorFrame ''sidecar not connected'' (''Error: '' @ message e)]\<rparr>)
      | Snapshotting ts [] [] \<Rightarrow> s\<lparr>er_phase := Tailing\<rparr>
      | _ \<Rightarrow> s)"

definition knownLedger :: "'l res option \<Rightarrow> 'l option" where
  "knownLedger api = (case api of Some (Inr l) \<Rightarrow> Some l | _ \<Rightarrow> None)"

fun streamStep :: "eventRoute \<Rightarrow> streamEvent \<Rightarrow> eventRoute" where
  "streamStep s (IssuerChanges l ts) =
     busEmit (diffIssuer ts (knownLedger (sa_issuer (er_apis s))) l)
       (s\<lparr>er_apis := (er_apis s)\<lparr>sa_issuer := Some (Inr l)\<rparr>\<rparr>)"
| "streamStep s (RevocationChanges l ts) =
     busEmit (diffRevocation ts (knownLedger (sa_revocation (er_apis s))) l)
       (s\<lparr>er_apis := (er_apis s)\<lparr>sa_revocation := Some (Inr l)\<rparr>\<rparr>)"
| "streamStep s (IdentityChanges l ts) =
     busEmit (diffIdentity ts (knownLedger (sa_identity (er_apis s))) l)
       (s\<lparr>er_apis := (er_apis s)\<lparr>sa_identity := Some (Inr l)\<rparr>\<rparr>)"
| "streamStep s (AttestationsChange k l ts) =
     busEmit (diffPredicate ts (knownLedger (map_of (sa_predicates (er_apis s)) k)) l)
       (s\<lparr>er_apis := (er_apis s)\<lparr>sa_predicates := AList.update k (Inr l) (sa_predicates (er_apis s))\<rparr>\<rparr>)"
| "streamStep s ConnectionStep = connectionStep s"
| "streamStep s ClientAborts = s\<lparr>er_phase := Aborted\<rparr>"

section \<open>What the client has been told\<close>

fun frameEvents :: "sseFrame \<Rightarrow> sidecarEvent list" where
  "frameEvents (EventFrame n e) = [e]"
| "frameEvents (ErrorFrame m d) = []"

definition received :: "eventRoute \<Rightarrow> sidecarEvent list" where
  "received s = concat (map frameEvents (er_frames s))"

definition clientStatus :: "bytes \<Rightarrow> eventRoute \<Rightarrow> string" where
  "clientStatus h s = the_or ''ACTIVE'' (cacheOf revocationEntry (received s) (bytesToHex h))"

definition ledgerStatus :: "bytes \<Rightarrow> eventRoute \<Rightarrow> string" where
  "ledgerStatus h s =
     (case knownLedger (sa_revocation (er_apis s)) of
        None \<Rightarrow> ''ACTIVE''
      | Some l \<Rightarrow> credStatusName (getCredentialStatusFromLedger h l))"




lemma send_fields [simp]:
  "er_apis (send s e) = er_apis s" "er_topics (send s e) = er_topics s" "er_phase (send s e) = er_phase s"
  by (simp_all add: send_def)

lemma received_apis [simp]: "received (s\<lparr>er_apis := A\<rparr>) = received s"
  by (simp add: received_def)


lemma foldl_send_fields [simp]:
  "er_apis (foldl send s es) = er_apis s" "er_topics (foldl send s es) = er_topics s"
  "er_phase (foldl send s es) = er_phase s"
  by (induction es arbitrary: s) simp_all


lemma busEmit_fields [simp]:
  "er_apis (busEmit es s) = er_apis s" "er_topics (busEmit es s) = er_topics s" "er_phase (busEmit es s) = er_phase s"
  by (simp_all add: busEmit_def)


section \<open>The tail\<close>








section \<open>The snapshot phase\<close>






section \<open>Properties\<close>


text \<open>A change that falls between a client's snapshot and its subscription can be lost.  There is a run of the
  stream in which a credential is revoked while the snapshot is being sent: afterwards the connection tails the bus,
  the ledger says revoked, and the client was told active.\<close>

theorem change_during_snapshot_lost:
  "\<exists>A es. let s = run_events streamStep (openStream A None 0) es in
     er_phase s = Tailing \<and> ledgerStatus exRoot s = ''REVOKED'' \<and> clientStatus exRoot s = ''ACTIVE''"
proof -
  let ?A = "\<lparr>sa_issuer = None, sa_revocation = Some (Inr (exRevoked 0)), sa_identity = None, sa_predicates = []\<rparr>"
  let ?es = "[ConnectionStep, ConnectionStep, RevocationChanges (exRevoked 1) 1, ConnectionStep, ConnectionStep, ConnectionStep]"
  have topics: "parseTopics None = [''revocation'', ''issuer'', ''identity'', ''attestation'']"
    by code_simp
  show ?thesis
    by (intro exI[of _ ?A] exI[of _ ?es])
      (simp add: openStream_def topics snapshotParts_def connectionStep_def apiEvents_def busEmit_def send_def Let_def
        ledgerStatus_def knownLedger_def clientStatus_def received_def exRevoked_def revocationEventOf_def cacheOf_def
        cacheStep_def getCredentialStatusFromLedger_def credStatusName_def the_or_def)
qed

section \<open>Witness\<close>


end
