(* ===== verification/Relay_Jobs.thy ===== *)
theory Relay_Jobs
  imports Ledger_Events Submit_Pipeline "HOL-Library.AList"
begin

text \<open>
  Relay jobs of the sidecar: \<open>relayProvenTx\<close>, \<open>runRelayJob\<close> and \<open>getRelayJob\<close> of \<open>midnight.ts\<close>, and the
  status stream \<open>GET /job/:jobId/events\<close> of \<open>routes/predicates.ts\<close>.  A relay request returns a job id at once;
  the transaction goes through the relay batcher in the background, and every phase change of the job is put on the
  event bus.  The stream writes the phase the job has, then subscribes to the bus until the job is submitted or has
  failed, then waits for the chain.

  One event of the machine is one asynchronous step: a relay request, the batcher settling a job, the removal timer
  of a job record, a frame that has been written, the chain reporting a transaction.  Job ids are 32 random bytes, so
  a request never reuses an id; that is the guard \<open>relayAllowed\<close>.
\<close>

section \<open>Jobs\<close>

datatype jobPhase = J_queued | J_balancing | J_submitting | J_submitted | J_balance_failed | J_submit_failed

fun phaseName :: "jobPhase \<Rightarrow> string" where
  "phaseName J_queued = ''queued''"
| "phaseName J_balancing = ''balancing''"
| "phaseName J_submitting = ''submitting''"
| "phaseName J_submitted = ''submitted''"
| "phaseName J_balance_failed = ''balance-failed''"
| "phaseName J_submit_failed = ''submit-failed''"

record relayJob =
  rj_jobId :: string
  rj_phase :: jobPhase
  rj_chainTxId :: "string option"
  rj_error :: "string option"
  rj_startedAt :: int

definition publishPhase :: "int \<Rightarrow> relayJob \<Rightarrow> sidecarEvent" where
  "publishPhase ts j = RelayJobEvent (rj_jobId j) (phaseName (rj_phase j)) (rj_chainTxId j) (rj_error j) ts"

definition newJob :: "string \<Rightarrow> int \<Rightarrow> relayJob" where
  "newJob jobId ts = \<lparr>rj_jobId = jobId, rj_phase = J_queued, rj_chainTxId = None, rj_error = None, rj_startedAt = ts\<rparr>"

definition jobFailed :: "js_error \<Rightarrow> relayJob \<Rightarrow> relayJob" where
  "jobFailed e j =
     j\<lparr>rj_error := Some (message e),
       rj_phase := (if isDustShortfallError e \<or> rj_phase j = J_balancing then J_balance_failed else J_submit_failed)\<rparr>"

definition jobSubmitted :: "string \<Rightarrow> relayJob \<Rightarrow> relayJob" where
  "jobSubmitted chainTxId j = j\<lparr>rj_chainTxId := Some chainTxId, rj_phase := J_submitted\<rparr>"

section \<open>The status stream\<close>

datatype streamPhase =
    Opening string
  | Written relayJob
  | Subscribed string
  | AwaitingChain string
  | Closed

record relayState =
  rs_joined :: "predicateKind list"
  rs_route :: string
  rs_jobs :: "(string \<times> relayJob) list"
  rs_waiting :: "string list"
  rs_timers :: "string list"
  rs_used :: "string list"
  rs_bus :: "sidecarEvent list"
  rs_stream :: streamPhase
  rs_frames :: "(string \<times> string \<times> string option) list"

datatype relayEvent =
    RelayRequested predicateKind string string int
  | BatchSettles string "string res" int
  | TtlElapses string
  | StreamOpens string "js_error option"
  | FrameWritten
  | ChainReports "string option res"

definition TERMINAL_JOB :: "string list" where
  "TERMINAL_JOB = [''balance-failed'', ''submit-failed'']"

definition writeStatus :: "string \<Rightarrow> string \<Rightarrow> string option \<Rightarrow> relayState \<Rightarrow> relayState" where
  "writeStatus txId status err s = s\<lparr>rs_frames := rs_frames s @ [(txId, status, err)]\<rparr>"

text \<open>The bus listener of a subscribed stream.\<close>

fun onRelayEvent :: "sidecarEvent \<Rightarrow> relayState \<Rightarrow> relayState" where
  "onRelayEvent (RelayJobEvent jobId phase txId err ts) s =
     (case rs_stream s of
        Subscribed j \<Rightarrow>
          if jobId \<noteq> j then s
          else
            let s' = writeStatus j phase err s in
            if phase \<in> set TERMINAL_JOB then s'\<lparr>rs_stream := Closed\<rparr>
            else (case txId of
                    Some tx \<Rightarrow> if phase = ''submitted'' \<and> tx \<noteq> [] then s'\<lparr>rs_stream := AwaitingChain tx\<rparr> else s'
                  | None \<Rightarrow> s')
      | _ \<Rightarrow> s)"
| "onRelayEvent e s = s"

definition publish :: "int \<Rightarrow> relayJob \<Rightarrow> relayState \<Rightarrow> relayState" where
  "publish ts j s =
     onRelayEvent (publishPhase ts j)
       (s\<lparr>rs_jobs := AList.update (rj_jobId j) j (rs_jobs s), rs_bus := rs_bus s @ [publishPhase ts j]\<rparr>)"

text \<open>\<open>Buffer.from(hex, 'hex')\<close>: decoding stops at the first pair that is not two hex digits.\<close>

fun bufferFromHex :: "string \<Rightarrow> bytes" where
  "bufferFromHex (a # b # cs) =
     (case (hexVal a, hexVal b) of
        (Some x, Some y) \<Rightarrow> of_nat (16 * x + y) # bufferFromHex cs
      | _ \<Rightarrow> [])"
| "bufferFromHex cs = []"

text \<open>\<open>relayProvenTx\<close> and \<open>runRelayJob\<close> up to the first \<open>await\<close>: a transaction that does not deserialize fails the job.\<close>

definition relayProvenTx :: "(bytes \<Rightarrow> 'tx res) \<Rightarrow> predicateKind \<Rightarrow> string \<Rightarrow> string \<Rightarrow> int \<Rightarrow> relayState \<Rightarrow> relayState" where
  "relayProvenTx deserialize kind jobId provenHex ts s =
     (if kind \<notin> set (rs_joined s) then s else
      let j = newJob jobId ts;
          s' = s\<lparr>rs_jobs := AList.update jobId j (rs_jobs s), rs_used := jobId # rs_used s\<rparr>
      in case deserialize (bufferFromHex provenHex) of
           Inl e \<Rightarrow> (publish ts (jobFailed e j) s')\<lparr>rs_timers := jobId # rs_timers s\<rparr>
         | Inr _ \<Rightarrow> publish ts (j\<lparr>rj_phase := J_submitting\<rparr>) (s'\<lparr>rs_waiting := jobId # rs_waiting s\<rparr>))"

text \<open>\<open>runRelayJob\<close> after the batcher has settled the job.\<close>

definition batchSettles :: "string \<Rightarrow> string res \<Rightarrow> int \<Rightarrow> relayState \<Rightarrow> relayState" where
  "batchSettles jobId r ts s =
     (if jobId \<notin> set (rs_waiting s) then s
      else case map_of (rs_jobs s) jobId of
             None \<Rightarrow> s
           | Some j \<Rightarrow>
               publish ts (case r of Inr tx \<Rightarrow> jobSubmitted tx j | Inl e \<Rightarrow> jobFailed e j)
                 (s\<lparr>rs_waiting := removeAll jobId (rs_waiting s), rs_timers := jobId # rs_timers s\<rparr>))"

definition getRelayJob :: "string \<Rightarrow> relayState \<Rightarrow> relayJob option" where
  "getRelayJob jobId s = map_of (rs_jobs s) jobId"

text \<open>The stream: the job is looked up, its phase is written, and only then is the bus subscribed.  A client that is
  not connected ends the stream with the status \<open>unknown\<close>.\<close>

definition openJobStream :: "string \<Rightarrow> js_error option \<Rightarrow> relayState \<Rightarrow> relayState" where
  "openJobStream jobId notConnected s =
     (case notConnected of
        Some e \<Rightarrow> writeStatus jobId ''unknown'' (Some (''Error: '' @ message e)) (s\<lparr>rs_stream := Closed\<rparr>)
      | None \<Rightarrow>
          (case getRelayJob jobId s of
             None \<Rightarrow> s\<lparr>rs_stream := AwaitingChain jobId\<rparr>
           | Some j \<Rightarrow> writeStatus jobId (phaseName (rj_phase j)) (rj_error j) (s\<lparr>rs_stream := Written j\<rparr>)))"

definition frameWritten :: "relayState \<Rightarrow> relayState" where
  "frameWritten s =
     (case rs_stream s of
        Written j \<Rightarrow>
          if phaseName (rj_phase j) \<in> set TERMINAL_JOB then s\<lparr>rs_stream := Closed\<rparr>
          else (case rj_chainTxId j of
                  Some tx \<Rightarrow> s\<lparr>rs_stream := AwaitingChain tx\<rparr>
                | None \<Rightarrow> s\<lparr>rs_stream := Subscribed (rj_jobId j)\<rparr>)
      | _ \<Rightarrow> s)"

definition chainReports :: "string option res \<Rightarrow> relayState \<Rightarrow> relayState" where
  "chainReports r s =
     (case rs_stream s of
        AwaitingChain tx \<Rightarrow>
          (case r of
             Inr status \<Rightarrow> writeStatus tx (the_or ''unknown'' status) None (s\<lparr>rs_stream := Closed\<rparr>)
           | Inl e \<Rightarrow> writeStatus (rs_route s) ''unknown'' (Some (''Error: '' @ message e)) (s\<lparr>rs_stream := Closed\<rparr>))
      | _ \<Rightarrow> s)"

fun relayStep :: "(bytes \<Rightarrow> 'tx res) \<Rightarrow> relayState \<Rightarrow> relayEvent \<Rightarrow> relayState" where
  "relayStep deserialize s (RelayRequested kind jobId provenHex ts) = relayProvenTx deserialize kind jobId provenHex ts s"
| "relayStep deserialize s (BatchSettles jobId r ts) = batchSettles jobId r ts s"
| "relayStep deserialize s (TtlElapses jobId) =
     (if jobId \<in> set (rs_timers s)
      then s\<lparr>rs_timers := removeAll jobId (rs_timers s), rs_jobs := AList.delete jobId (rs_jobs s)\<rparr> else s)"
| "relayStep deserialize s (StreamOpens jobId notConnected) =
     (case rs_stream s of Opening i \<Rightarrow> if i = jobId then openJobStream jobId notConnected s else s | _ \<Rightarrow> s)"
| "relayStep deserialize s FrameWritten = frameWritten s"
| "relayStep deserialize s (ChainReports r) = chainReports r s"

definition newRelay :: "predicateKind list \<Rightarrow> string \<Rightarrow> relayState" where
  "newRelay joined jobId = \<lparr>rs_joined = joined, rs_route = jobId, rs_jobs = [], rs_waiting = [], rs_timers = [], rs_used = [], rs_bus = [], rs_stream = Opening jobId,
                     rs_frames = []\<rparr>"

fun relayAllowed :: "relayState \<Rightarrow> relayEvent \<Rightarrow> bool" where
  "relayAllowed s (RelayRequested kind jobId provenHex ts) \<longleftrightarrow> jobId \<notin> set (rs_used s)"
| "relayAllowed s e \<longleftrightarrow> True"


section \<open>The invariant\<close>

definition failedPhase :: "jobPhase \<Rightarrow> bool" where
  "failedPhase p \<longleftrightarrow> p = J_balance_failed \<or> p = J_submit_failed"

text \<open>A job carries a chain transaction exactly when it is submitted, and an error exactly when it has failed.\<close>

definition jobOk :: "relayJob \<Rightarrow> bool" where
  "jobOk j \<longleftrightarrow>
     (rj_phase j = J_submitted \<longleftrightarrow> rj_chainTxId j \<noteq> None) \<and> (failedPhase (rj_phase j) \<longleftrightarrow> rj_error j \<noteq> None)"

fun streamRefs :: "string list \<Rightarrow> streamPhase \<Rightarrow> bool" where
  "streamRefs used (Written j) \<longleftrightarrow> jobOk j \<and> rj_jobId j \<in> set used"
| "streamRefs used (Subscribed i) \<longleftrightarrow> i \<in> set used"
| "streamRefs used p \<longleftrightarrow> True"

definition relayInv :: "relayState \<Rightarrow> bool" where
  "relayInv s \<longleftrightarrow>
     (\<forall>i j. map_of (rs_jobs s) i = Some j \<longrightarrow>
        rj_jobId j = i \<and> jobOk j \<and> i \<in> set (rs_used s) \<and>
        (if i \<in> set (rs_waiting s) then rj_phase j = J_submitting else rj_phase j = J_submitted \<or> failedPhase (rj_phase j))) \<and>
     (\<forall>i \<in> set (rs_waiting s). map_of (rs_jobs s) i \<noteq> None \<and> i \<notin> set (rs_timers s) \<and> i \<in> set (rs_used s)) \<and>
     (\<forall>i \<in> set (rs_timers s). i \<in> set (rs_used s)) \<and>
     streamRefs (rs_used s) (rs_stream s)"

lemma job_facts [simp]:
  "rj_jobId (newJob i ts) = i" "rj_jobId (jobFailed e j) = rj_jobId j" "rj_jobId (jobSubmitted tx j) = rj_jobId j"
  "rj_phase (jobSubmitted tx j) = J_submitted" "failedPhase (rj_phase (jobFailed e j))"
  by (simp_all add: newJob_def jobFailed_def jobSubmitted_def failedPhase_def)

lemma jobOk_steps:
  "jobOk ((newJob i ts)\<lparr>rj_phase := J_submitting\<rparr>)"
  "jobOk j \<Longrightarrow> rj_phase j = J_submitting \<Longrightarrow> jobOk (jobSubmitted tx j)"
  "jobOk j \<Longrightarrow> rj_phase j = J_submitting \<Longrightarrow> jobOk (jobFailed e j)"
  "jobOk (jobFailed e (newJob i ts))"
  by (auto simp: jobOk_def newJob_def jobSubmitted_def jobFailed_def failedPhase_def)

text \<open>The listener touches the stream alone.\<close>

lemma onRelayEvent_fields [simp]:
  "rs_jobs (onRelayEvent e s) = rs_jobs s" "rs_waiting (onRelayEvent e s) = rs_waiting s"
  "rs_timers (onRelayEvent e s) = rs_timers s" "rs_used (onRelayEvent e s) = rs_used s"
  "rs_joined (onRelayEvent e s) = rs_joined s"
  by (cases e; cases "rs_stream s"; auto simp: writeStatus_def Let_def split: option.splits)+

definition streamOk :: "relayState \<Rightarrow> bool" where
  "streamOk s \<longleftrightarrow>
     streamRefs (rs_used s) (rs_stream s)"

lemma streamOk_onRelayEvent: "streamOk s \<Longrightarrow> streamOk (onRelayEvent e s)"
  by (cases e; cases "rs_stream s") (auto simp: streamOk_def writeStatus_def Let_def split: option.splits)

lemma publish_fields [simp]:
  "rs_jobs (publish ts j s) = AList.update (rj_jobId j) j (rs_jobs s)" "rs_waiting (publish ts j s) = rs_waiting s"
  "rs_timers (publish ts j s) = rs_timers s" "rs_used (publish ts j s) = rs_used s"
  by (simp_all add: publish_def)

lemma publish_stream:
  assumes "streamOk s"
  shows "streamOk (publish ts j s)"
proof -
  have "streamOk (s\<lparr>rs_jobs := AList.update (rj_jobId j) j (rs_jobs s), rs_bus := rs_bus s @ [publishPhase ts j]\<rparr>)"
    using assms by (simp add: streamOk_def)
  then show ?thesis unfolding publish_def by (rule streamOk_onRelayEvent)
qed

lemma relayInv_stream: "relayInv s \<Longrightarrow> streamOk s"
  by (simp add: relayInv_def streamOk_def)

lemma relayInvI:
  assumes "\<And>i j. map_of (rs_jobs s) i = Some j \<Longrightarrow> rj_jobId j = i \<and> jobOk j \<and> i \<in> set (rs_used s) \<and>
      (if i \<in> set (rs_waiting s) then rj_phase j = J_submitting else rj_phase j = J_submitted \<or> failedPhase (rj_phase j))"
    and "\<And>i. i \<in> set (rs_waiting s) \<Longrightarrow> map_of (rs_jobs s) i \<noteq> None \<and> i \<notin> set (rs_timers s) \<and> i \<in> set (rs_used s)"
    and "\<And>i. i \<in> set (rs_timers s) \<Longrightarrow> i \<in> set (rs_used s)" and "streamOk s"
  shows "relayInv s"
  using assms unfolding relayInv_def streamOk_def by blast

lemma relayProvenTx_inv:
  assumes inv: "relayInv s" and fresh: "jobId \<notin> set (rs_used s)"
  shows "relayInv (relayProvenTx deserialize kind jobId hex ts s)"
proof (cases "kind \<in> set (rs_joined s)")
  case True
  let ?s = "s\<lparr>rs_jobs := AList.update jobId (newJob jobId ts) (rs_jobs s), rs_used := jobId # rs_used s\<rparr>"
  have none: "jobId \<notin> set (rs_waiting s)" "jobId \<notin> set (rs_timers s)" using inv fresh by (auto simp: relayInv_def)
  have st: "streamOk ?s" "streamOk (?s\<lparr>rs_waiting := jobId # rs_waiting s\<rparr>)"
    using relayInv_stream[OF inv] by (cases "rs_stream s"; simp add: streamOk_def)+
  show ?thesis
  proof (cases "deserialize (bufferFromHex hex)")
    case (Inl e)
    have "streamOk ((publish ts (jobFailed e (newJob jobId ts)) ?s)\<lparr>rs_timers := jobId # rs_timers s\<rparr>)"
      using publish_stream[OF st(1)] by (simp add: streamOk_def)
    with True Inl inv none jobOk_steps(4) show ?thesis
      by (intro relayInvI) (auto simp: relayProvenTx_def Let_def update_conv' relayInv_def split: if_splits)
  next
    case (Inr tx)
    with True inv none jobOk_steps(1) publish_stream[OF st(2)] show ?thesis
      by (intro relayInvI)
        (auto simp: relayProvenTx_def Let_def update_conv' relayInv_def newJob_def split: if_splits)
  qed
qed (use inv in \<open>simp add: relayProvenTx_def\<close>)

lemma batchSettles_inv:
  assumes inv: "relayInv s"
  shows "relayInv (batchSettles jobId r ts s)"
proof (cases "jobId \<in> set (rs_waiting s)")
  case True
  then obtain j where j: "map_of (rs_jobs s) jobId = Some j" using inv by (auto simp: relayInv_def)
  have jf: "rj_jobId j = jobId" "jobOk j" "rj_phase j = J_submitting" using inv True j by (auto simp: relayInv_def)
  let ?s = "s\<lparr>rs_waiting := removeAll jobId (rs_waiting s), rs_timers := jobId # rs_timers s\<rparr>"
  let ?j = "case r of Inr tx \<Rightarrow> jobSubmitted tx j | Inl e \<Rightarrow> jobFailed e j"
  have j': "rj_jobId ?j = jobId" "jobOk ?j" "rj_phase ?j = J_submitted \<or> failedPhase (rj_phase ?j)"
    using jf jobOk_steps(2,3) by (cases r; simp)+
  have "streamOk ?s" using relayInv_stream[OF inv] by (simp add: streamOk_def)
  from publish_stream[OF this] True j j' inv show ?thesis
    by (intro relayInvI) (auto simp: batchSettles_def update_conv' relayInv_def split: if_splits)
qed (use inv in \<open>simp add: batchSettles_def\<close>)

interpretation relay: guarded_machine "relayStep deserialize" relayInv relayAllowed for deserialize
proof
  fix s e assume inv: "relayInv s" and ok: "relayAllowed s e"
  show "relayInv (relayStep deserialize s e)"
  proof (cases e)
    case (RelayRequested kind jobId hex ts)
    with inv ok show ?thesis by (simp add: relayProvenTx_inv)
  next
    case (BatchSettles jobId r ts)
    with inv show ?thesis by (simp add: batchSettles_inv)
  next
    case (TtlElapses jobId)
    with inv show ?thesis by (auto simp: relayInv_def delete_conv' split: if_splits)
  next
    case (StreamOpens jobId nc)
    with inv show ?thesis
      by (cases "rs_stream s") (auto simp: relayInv_def openJobStream_def writeStatus_def getRelayJob_def split: option.splits)
  next
    case FrameWritten
    with inv show ?thesis by (cases "rs_stream s") (auto simp: relayInv_def frameWritten_def split: option.splits)
  next
    case (ChainReports r)
    with inv show ?thesis
      by (cases "rs_stream s"; cases r) (auto simp: relayInv_def chainReports_def writeStatus_def)
  qed
qed

lemma newRelay_inv: "relayInv (newRelay joined jobId)"
  by (simp add: relayInv_def newRelay_def)


lemma relay_reach:
  assumes "allowed_run relayAllowed (relayStep deserialize) (newRelay joined jobId) es"
  shows "relayInv (run_events (relayStep deserialize) (newRelay joined jobId) es)"
  by (rule relay.guarded_run[OF newRelay_inv assms])

text \<open>Events of other jobs leave a subscribed stream alone.\<close>

lemma publish_other:
  assumes "rs_stream s = Subscribed i" "rj_jobId j \<noteq> i"
  shows "rs_stream (publish ts j s) = Subscribed i"
  using assms by (simp add: publish_def publishPhase_def)

definition deaf :: "string \<Rightarrow> relayState \<Rightarrow> bool" where
  "deaf i s \<longleftrightarrow> relayInv s \<and> rs_stream s = Subscribed i \<and> i \<notin> set (rs_waiting s)"

interpretation deaf_stream: guarded_machine "relayStep deserialize" "deaf i" relayAllowed for deserialize i
proof
  fix s e assume d: "deaf i s" and ok: "relayAllowed s e"
  then have inv: "relayInv (relayStep deserialize s e)" by (simp add: relay.guarded_step deaf_def)
  have st: "rs_stream s = Subscribed i" "i \<notin> set (rs_waiting s)" and used: "i \<in> set (rs_used s)"
    using d by (auto simp: deaf_def relayInv_def)
  have "rs_stream (relayStep deserialize s e) = Subscribed i \<and> i \<notin> set (rs_waiting (relayStep deserialize s e))"
  proof (cases e)
    case (RelayRequested kind jobId hex ts)
    with ok used have "jobId \<noteq> i" by auto
    with RelayRequested st show ?thesis
      by (auto simp: relayProvenTx_def Let_def newJob_def publish_other split: sum.splits)
  next
    case (BatchSettles jobId r ts)
    show ?thesis
    proof (cases "jobId \<in> set (rs_waiting s)")
      case True
      then obtain j where "map_of (rs_jobs s) jobId = Some j" "rj_jobId j = jobId"
        using d unfolding deaf_def relayInv_def by blast
      moreover have "jobId \<noteq> i" using True st by auto
      ultimately show ?thesis using BatchSettles st by (cases r) (simp_all add: batchSettles_def publish_other)
    qed (use BatchSettles st in \<open>simp add: batchSettles_def\<close>)
  qed (use st in \<open>simp_all add: frameWritten_def chainReports_def\<close>)
  with inv show "deaf i (relayStep deserialize s e)" by (simp add: deaf_def)
qed

section \<open>Properties\<close>

text \<open>C29: The life of a relay job.  In every state the sidecar reaches, a job record is submitting while the batcher
  holds it and submitted or failed once it is settled; it carries a chain transaction id exactly when it is
  submitted and an error exactly when it failed; and the record of a job the batcher still holds is never dropped.\<close>

theorem relay_job_lifecycle:
  assumes "allowed_run relayAllowed (relayStep deserialize) (newRelay joined route) es"
    and "s = run_events (relayStep deserialize) (newRelay joined route) es"
  shows "(\<forall>i j. getRelayJob i s = Some j \<longrightarrow>
            rj_jobId j = i \<and>
            (i \<in> set (rs_waiting s) \<longrightarrow> rj_phase j = J_submitting) \<and>
            (i \<notin> set (rs_waiting s) \<longrightarrow> rj_phase j \<in> {J_submitted, J_balance_failed, J_submit_failed}) \<and>
            (rj_phase j = J_submitted \<longleftrightarrow> rj_chainTxId j \<noteq> None) \<and>
            (rj_phase j \<in> {J_balance_failed, J_submit_failed} \<longleftrightarrow> rj_error j \<noteq> None)) \<and>
         (\<forall>i \<in> set (rs_waiting s). getRelayJob i s \<noteq> None)"
proof -
  have inv: "relayInv s" using relay_reach[OF assms(1)] assms(2) by simp
  have "rj_jobId j = i \<and> (i \<in> set (rs_waiting s) \<longrightarrow> rj_phase j = J_submitting) \<and>
      (i \<notin> set (rs_waiting s) \<longrightarrow> rj_phase j \<in> {J_submitted, J_balance_failed, J_submit_failed}) \<and>
      (rj_phase j = J_submitted \<longleftrightarrow> rj_chainTxId j \<noteq> None) \<and>
      (rj_phase j \<in> {J_balance_failed, J_submit_failed} \<longleftrightarrow> rj_error j \<noteq> None)"
    if "getRelayJob i s = Some j" for i j
  proof -
    have "rj_jobId j = i" "jobOk j"
      "if i \<in> set (rs_waiting s) then rj_phase j = J_submitting else rj_phase j = J_submitted \<or> failedPhase (rj_phase j)"
      using inv that unfolding relayInv_def getRelayJob_def by blast+
    then show ?thesis by (auto simp: jobOk_def failedPhase_def split: if_splits)
  qed
  moreover have "\<forall>i \<in> set (rs_waiting s). getRelayJob i s \<noteq> None"
    using inv by (simp add: relayInv_def getRelayJob_def)
  ultimately show ?thesis by blast
qed

text \<open>What a subscribed status stream can still do.  While the batcher holds the job, the settling of the job moves
  the stream on: to the end when the job failed, to the chain when it was submitted.  But once the job is settled
  nothing moves the stream any more: a stream that subscribes after its job was settled stays subscribed through every
  later event of the sidecar.\<close>

theorem job_stream_wakes_or_hangs:
  assumes "allowed_run relayAllowed (relayStep deserialize) (newRelay joined route) es"
    and "s = run_events (relayStep deserialize) (newRelay joined route) es" and "rs_stream s = Subscribed jobId"
  shows "(jobId \<in> set (rs_waiting s) \<longrightarrow>
            (\<forall>e ts. rs_stream (relayStep deserialize s (BatchSettles jobId (Inl e) ts)) = Closed) \<and>
            (\<forall>tx ts. tx \<noteq> [] \<longrightarrow>
               rs_stream (relayStep deserialize s (BatchSettles jobId (Inr tx) ts)) = AwaitingChain tx)) \<and>
         (jobId \<notin> set (rs_waiting s) \<longrightarrow>
            (\<forall>fs. allowed_run relayAllowed (relayStep deserialize) s fs \<longrightarrow>
               rs_stream (run_events (relayStep deserialize) s fs) = Subscribed jobId))"
proof (intro conjI impI allI)
  have inv: "relayInv s" using relay_reach[OF assms(1)] assms(2) by simp
  show "rs_stream (run_events (relayStep deserialize) s fs) = Subscribed jobId"
    if "jobId \<notin> set (rs_waiting s)" "allowed_run relayAllowed (relayStep deserialize) s fs" for fs
    using deaf_stream.guarded_run[of jobId s deserialize fs] inv assms(3) that by (simp add: deaf_def)
  have job: "\<exists>j. map_of (rs_jobs s) jobId = Some j \<and> rj_jobId j = jobId \<and> rj_phase j = J_submitting"
    if "jobId \<in> set (rs_waiting s)" using inv that unfolding relayInv_def by (metis option.exhaust)
  show "rs_stream (relayStep deserialize s (BatchSettles jobId (Inl e) ts)) = Closed" if "jobId \<in> set (rs_waiting s)" for e ts
    using job[OF that] that assms(3)
    by (auto simp: batchSettles_def publish_def publishPhase_def jobFailed_def TERMINAL_JOB_def writeStatus_def Let_def)
  show "rs_stream (relayStep deserialize s (BatchSettles jobId (Inr tx) ts)) = AwaitingChain tx"
    if "jobId \<in> set (rs_waiting s)" "tx \<noteq> []" for tx ts
    using job[OF that(1)] that assms(3)
    by (auto simp: batchSettles_def publish_def publishPhase_def jobSubmitted_def TERMINAL_JOB_def writeStatus_def Let_def)
qed

section \<open>Witnesses\<close>

text \<open>The lost wake-up: the job is submitted between the stream's first frame and its subscription.\<close>

definition exRelay :: "relayEvent list" where
  "exRelay =
     [RelayRequested K_age ''job'' ''00'' 0, StreamOpens ''job'' None, BatchSettles ''job'' (Inr ''tx'') 1, FrameWritten]"

definition exRelayed :: relayState where
  "exRelayed = run_events (relayStep (\<lambda>_. Inr ())) (newRelay [K_age] ''job'') exRelay"

lemma exRelay_allowed: "allowed_run relayAllowed (relayStep (\<lambda>_. Inr ())) (newRelay [K_age] ''job'') exRelay"
  by code_simp

theorem lost_wakeup:
  "rs_stream exRelayed = Subscribed ''job'' \<and>
   map_option rj_phase (getRelayJob ''job'' exRelayed) = Some J_submitted \<and> rs_waiting exRelayed = []"
  by code_simp

theorem relay_job_lifecycle_witness:
  "\<exists>j. getRelayJob ''job'' exRelayed = Some j \<and> rj_phase j = J_submitted \<and> rj_chainTxId j \<noteq> None"
proof -
  have "map_option rj_phase (getRelayJob ''job'' exRelayed) = Some J_submitted" by code_simp
  then obtain j where j: "getRelayJob ''job'' exRelayed = Some j" "rj_phase j = J_submitted" by auto
  with relay_job_lifecycle[OF exRelay_allowed exRelayed_def] show ?thesis by metis
qed

theorem job_stream_wakes_or_hangs_witness:
  "rs_stream (run_events (relayStep (\<lambda>_. Inr ())) exRelayed [TtlElapses ''job'', ChainReports (Inr (Some ''SucceedEntirely''))])
     = Subscribed ''job''"
proof -
  have st: "rs_stream exRelayed = Subscribed ''job''" "rs_waiting exRelayed = []" by code_simp+
  have "allowed_run relayAllowed (relayStep (\<lambda>_. Inr ())) exRelayed [TtlElapses ''job'', ChainReports (Inr (Some ''SucceedEntirely''))]"
    by simp
  moreover have "''job'' \<notin> set (rs_waiting exRelayed)" using st(2) by simp
  ultimately show ?thesis using job_stream_wakes_or_hangs[OF exRelay_allowed exRelayed_def st(1)] by blast
qed

end
