(* ===== verification/Passkey.thy ===== *)
theory Passkey
  imports Js_Async Json
begin

text \<open>
  Passkey-wrapped secrets, \<open>packages/sdk/src/webauthn.ts\<close>: the PRF ceremony that derives an AES key from a passkey,
  the sealing and opening of holder keys and of recovery bundles, and the reading of the passkey's public key from an
  attestation.

  The platform is a record of what the code calls: \<open>navigator.credentials.get\<close>, \<open>crypto.getRandomValues\<close>, AES-GCM of
  WebCrypto and the CBOR decoder.  \<open>gcm_correct\<close> states what the round trips rely on: opening what was sealed under the
  same key, initialisation vector and additional data gives the plaintext, and a sealed text, which ends in the
  authentication tag, is not empty.  \<open>prf_stable\<close> states that a ceremony answers with one passkey, whose PRF output for
  a salt does not change.
\<close>

section \<open>The platform\<close>

text \<open>The value under \<open>prf.results.first\<close>: bytes in one of the buffer types, an array or array-like of numbers, or
  something else.\<close>

datatype prfValue = PrfBytes bytes | PrfNumbers "int list" | PrfOther string

record passkeyAssertion =
  pa_rawId :: bytes
  pa_prfFirst :: "prfValue option"

text \<open>Decoded CBOR: a map comes back as a \<open>Map\<close> or, with string keys, as a plain object.\<close>

datatype cbor = CNum int | CBytes bytes | CText string | CMap "(cbor \<times> cbor) list" | CObj "(string \<times> cbor) list" | COther

record 'w platform =
  pf_get :: "bytes option \<Rightarrow> bytes \<Rightarrow> ('w, passkeyAssertion option) act"
  pf_random :: "nat \<Rightarrow> ('w, bytes) act"
  pf_gcmSeal :: "bytes \<Rightarrow> bytes \<Rightarrow> bytes \<Rightarrow> bytes \<Rightarrow> bytes"
  pf_gcmOpen :: "bytes \<Rightarrow> bytes \<Rightarrow> bytes \<Rightarrow> bytes \<Rightarrow> bytes option"
  pf_cborDecode :: "bytes \<Rightarrow> cbor res"

section \<open>The PRF ceremony\<close>

definition HOLDER_KEY_PRF_SALT :: bytes where
  "HOLDER_KEY_PRF_SALT = utf8Bytes ''owlid:sd-jwt-vc:holder-key:v1''"

definition RECOVERY_PRF_SALT :: bytes where
  "RECOVERY_PRF_SALT = utf8Bytes ''owlid:credential-recovery:v1''"

fun normalizePrfOutput :: "prfValue \<Rightarrow> bytes res" where
  "normalizePrfOutput (PrfBytes bs) = Inr bs"
| "normalizePrfOutput (PrfNumbers ns) = Inr (map (\<lambda>n. u8 (Some n)) ns)"
| "normalizePrfOutput (PrfOther t) = Inl (Error (''Passkey PRF returned an unsupported value type ('' @ t @ '')''))"

text \<open>A credential id that is absent or empty leaves the choice of the passkey to the browser.\<close>

definition allowCredentials :: "string option \<Rightarrow> bytes option res" where
  "allowCredentials credentialId =
     (case credentialId of
        None \<Rightarrow> Inr None
      | Some i \<Rightarrow> if i = [] then Inr None else bindR (base64urlToBuffer i) (\<lambda>b. Inr (Some b)))"

definition prfSecret :: "'w platform \<Rightarrow> string option \<Rightarrow> bytes \<Rightarrow> ('w, bytes \<times> string) act" where
  "prfSecret P credentialId salt =
     bindA (pf_random P 32) (\<lambda>_.
     bindA (liftA (allowCredentials credentialId)) (\<lambda>allow.
     bindA (pf_get P allow salt) (\<lambda>assertion.
       case assertion of
         None \<Rightarrow> throwA (Error ''Passkey assertion cancelled'')
       | Some a \<Rightarrow>
           (case pa_prfFirst a of
              None \<Rightarrow> throwA (Error ''Passkey does not support the PRF extension; cannot securely store the holder key'')
            | Some v \<Rightarrow> bindA (liftA (normalizePrfOutput v)) (\<lambda>secret.
                returnA (secret, bufferToBase64url (pa_rawId a)))))))"

text \<open>\<open>importKey('raw', \<dots>, 'AES-GCM')\<close> takes keys of 128, 192 and 256 bits.\<close>

definition importAesKey :: "bytes \<Rightarrow> bytes res" where
  "importAesKey secret =
     (if length secret \<in> {16, 24, 32} then Inr secret else Inl (Error ''AES key data must be 128, 192 or 256 bits''))"

definition prfAesKey :: "'w platform \<Rightarrow> string option \<Rightarrow> bytes \<Rightarrow> ('w, bytes \<times> string) act" where
  "prfAesKey P credentialId salt =
     bindA (prfSecret P credentialId salt) (\<lambda>(secret, selected).
     bindA (liftA (importAesKey secret)) (\<lambda>key. returnA (key, selected)))"

section \<open>Blobs\<close>

definition blobOf :: "bytes \<times> bytes \<Rightarrow> string" where
  "blobOf b = bufferToBase64url (fst b) @ ''.'' @ bufferToBase64url (snd b)"

text \<open>\<open>const [ivB64, ctB64] = blob.split('.')\<close>, with the check that neither part is missing or empty.\<close>

definition splitBlob :: "string \<Rightarrow> string \<Rightarrow> (string \<times> string) res" where
  "splitBlob malformed blob =
     (case splitOn (CHR ''.'') blob of
        ivB64 # ctB64 # _ \<Rightarrow> if ivB64 = [] \<or> ctB64 = [] then Inl (Error malformed) else Inr (ivB64, ctB64)
      | _ \<Rightarrow> Inl (Error malformed))"

definition sealBytes :: "'w platform \<Rightarrow> bytes \<Rightarrow> bytes res \<Rightarrow> ('w, string) act" where
  "sealBytes P key plain =
     bindA (pf_random P 12) (\<lambda>iv.
     bindA (liftA plain) (\<lambda>pt. returnA (blobOf (iv, pf_gcmSeal P key iv [] pt))))"

text \<open>\<open>crypto.subtle.decrypt\<close> rejects with an \<open>OperationError\<close> when the tag does not match.\<close>

definition gcmDecrypt :: "'w platform \<Rightarrow> bytes \<Rightarrow> bytes \<Rightarrow> bytes \<Rightarrow> bytes \<Rightarrow> bytes res" where
  "gcmDecrypt P key iv aad ct =
     (case pf_gcmOpen P key iv aad ct of None \<Rightarrow> Inl (Error ''OperationError'') | Some pt \<Rightarrow> Inr pt)"

definition openParts :: "'w platform \<Rightarrow> bytes \<Rightarrow> string \<times> string \<Rightarrow> bytes res" where
  "openParts P key parts =
     bindR (base64urlToBuffer (fst parts)) (\<lambda>iv.
     bindR (base64urlToBuffer (snd parts)) (\<lambda>ct. gcmDecrypt P key iv [] ct))"

section \<open>Holder keys\<close>

text \<open>A seed that is missing from a restored entry makes \<open>hexToBytes\<close> throw.\<close>

definition seedBytes :: "string option \<Rightarrow> bytes res" where
  "seedBytes seedHex = (case seedHex of None \<Rightarrow> Inl (TypeError ''hexToBytes'') | Some h \<Rightarrow> Inr (hexToBytes h))"

definition sealHolderKey :: "'w platform \<Rightarrow> string option \<Rightarrow> string \<Rightarrow> ('w, string \<times> string) act" where
  "sealHolderKey P credentialId seedHex =
     bindA (prfAesKey P credentialId HOLDER_KEY_PRF_SALT) (\<lambda>(key, selected).
     bindA (sealBytes P key (Inr (hexToBytes seedHex))) (\<lambda>blob. returnA (blob, selected)))"

text \<open>\<open>try { return await decrypt(credentialId) } catch (e) { if (!credentialId) throw e; return await decrypt(null) }\<close>:
  a stale credential id falls back once to the picker.\<close>

definition withPicker :: "string option \<Rightarrow> (string option \<Rightarrow> ('w, 'a) act) \<Rightarrow> ('w, 'a) act" where
  "withPicker credentialId decrypt =
     tryA (decrypt credentialId) (\<lambda>e. if the_or [] credentialId = [] then throwA e else decrypt None)"

definition openHolderKey :: "'w platform \<Rightarrow> string option \<Rightarrow> string \<Rightarrow> ('w, string \<times> string) act" where
  "openHolderKey P credentialId blob =
     bindA (liftA (splitBlob ''Malformed wrapped holder key'' blob)) (\<lambda>parts.
       withPicker credentialId (\<lambda>i.
         bindA (prfAesKey P i HOLDER_KEY_PRF_SALT) (\<lambda>(key, selected).
         bindA (liftA (openParts P key parts)) (\<lambda>pt. returnA (bytesToHex pt, selected)))))"

definition openHolderKeys :: "'w platform \<Rightarrow> string option \<Rightarrow> string list \<Rightarrow> ('w, string list \<times> string) act" where
  "openHolderKeys P credentialId blobs =
     withPicker credentialId (\<lambda>i.
       bindA (prfAesKey P i HOLDER_KEY_PRF_SALT) (\<lambda>(key, selected).
       bindA (liftA (mapR (\<lambda>blob. bindR (splitBlob ''Malformed wrapped holder key'' blob) (openParts P key)) blobs)) (\<lambda>pts.
         returnA (map bytesToHex pts, selected))))"

fun sealAll :: "'w platform \<Rightarrow> bytes \<Rightarrow> string option list \<Rightarrow> ('w, string list) act" where
  "sealAll P key [] = returnA []"
| "sealAll P key (seedHex # rest) =
     bindA (sealBytes P key (seedBytes seedHex)) (\<lambda>blob.
     bindA (sealAll P key rest) (\<lambda>blobs. returnA (blob # blobs)))"

definition sealHolderKeys :: "'w platform \<Rightarrow> string option \<Rightarrow> string option list \<Rightarrow> ('w, string list \<times> string) act" where
  "sealHolderKeys P credentialId seedHexes =
     bindA (prfAesKey P credentialId HOLDER_KEY_PRF_SALT) (\<lambda>(key, selected).
     bindA (sealAll P key seedHexes) (\<lambda>blobs. returnA (blobs, selected)))"

section \<open>Recovery bundles\<close>

definition sealRecoveryBundle :: "'w platform \<Rightarrow> string option \<Rightarrow> string \<Rightarrow> ('w, string \<times> string) act" where
  "sealRecoveryBundle P credentialId payload =
     bindA (prfAesKey P credentialId RECOVERY_PRF_SALT) (\<lambda>(key, selected).
     bindA (sealBytes P key (Inr (utf8Bytes payload))) (\<lambda>blob. returnA (blob, selected)))"

definition openRecoveryBundle :: "'w platform \<Rightarrow> string option \<Rightarrow> string \<Rightarrow> ('w, string \<times> string) act" where
  "openRecoveryBundle P credentialId blob =
     bindA (liftA (splitBlob ''Malformed recovery backup'' blob)) (\<lambda>parts.
       withPicker credentialId (\<lambda>i.
         bindA (prfAesKey P i RECOVERY_PRF_SALT) (\<lambda>(key, selected).
         bindA (liftA (openParts P key parts)) (\<lambda>pt. returnA (utf8String pt, selected)))))"

text \<open>Bundles that are malformed or sealed under another passkey are skipped.\<close>

definition openableBundle :: "'w platform \<Rightarrow> bytes \<Rightarrow> string \<Rightarrow> string list" where
  "openableBundle P key blob =
     (case bindR (splitBlob [] blob) (openParts P key) of Inl _ \<Rightarrow> [] | Inr pt \<Rightarrow> [utf8String pt])"

definition decryptBundles :: "'w platform \<Rightarrow> string list \<Rightarrow> string option \<Rightarrow> ('w, string list \<times> string) act" where
  "decryptBundles P blobs i =
     bindA (prfAesKey P i RECOVERY_PRF_SALT) (\<lambda>(key, selected).
       returnA (concat (map (openableBundle P key) blobs), selected))"

definition openRecoveryBundles :: "'w platform \<Rightarrow> string option \<Rightarrow> string list \<Rightarrow> ('w, string list \<times> string) act" where
  "openRecoveryBundles P credentialId blobs =
     bindA (decryptBundles P blobs credentialId) (\<lambda>first.
       if fst first \<noteq> [] \<or> the_or [] credentialId = [] then returnA first else decryptBundles P blobs None)"

section \<open>The passkey's public key\<close>

fun cborField :: "string \<Rightarrow> cbor \<Rightarrow> cbor option" where
  "cborField k (CObj kvs) = map_of kvs k"
| "cborField k _ = None"

fun getCoseValue :: "cbor \<Rightarrow> int \<Rightarrow> cbor option" where
  "getCoseValue (CMap kvs) k = map_of kvs (CNum k)"
| "getCoseValue (CObj kvs) k = map_of kvs (showInt k)"
| "getCoseValue _ k = None"

text \<open>Coordinates and authenticator data are byte strings; a value of another type counts as missing.\<close>

fun cborBytes :: "cbor option \<Rightarrow> bytes option" where
  "cborBytes (Some (CBytes b)) = Some b"
| "cborBytes _ = None"

text \<open>The authenticator data: 32 bytes of hash, a flag byte, a 4-byte counter, 16 bytes of AAGUID, a 2-byte length and
  the credential id, then the COSE key.  Bytes past the end read as \<open>undefined\<close>, which is 0 in the arithmetic.\<close>

definition byteAt :: "bytes \<Rightarrow> nat \<Rightarrow> nat" where
  "byteAt bs i = (if i < length bs then unat (bs ! i) else 0)"

definition extractPublicKeyFromAttestation :: "'w platform \<Rightarrow> bytes \<Rightarrow> string res" where
  "extractPublicKeyFromAttestation P attestationObject =
     bindR (pf_cborDecode P attestationObject) (\<lambda>attestation.
       case cborBytes (cborField ''authData'' attestation) of
         None \<Rightarrow> Inl (Error ''Could not find authData in attestation object'')
       | Some authData \<Rightarrow>
           if \<not> odd (byteAt authData 32 div 64) then Inl (Error ''No attested credential data in authenticator data'')
           else
             let offset = 32 + 1 + 4 + 16;
                 credIdLen = 256 * byteAt authData offset + byteAt authData (offset + 1)
             in Inr (bufferToBase64 (drop (offset + 2 + credIdLen) authData)))"

definition coseKeyToP256Hex :: "'w platform \<Rightarrow> string \<Rightarrow> string res" where
  "coseKeyToP256Hex P coseKeyBase64 =
     bindR (base64ToBuffer coseKeyBase64) (\<lambda>b.
     bindR (pf_cborDecode P b) (\<lambda>coseKey.
       case (cborBytes (getCoseValue coseKey (- 2)), cborBytes (getCoseValue coseKey (- 3))) of
         (Some x, Some y) \<Rightarrow> Inr (bytesToHex (4 # x @ y))
       | _ \<Rightarrow> Inl (Error ''Could not extract x and y coordinates from COSE key'')))"

section \<open>What the platform guarantees\<close>

definition gcm_correct :: "'w platform \<Rightarrow> bool" where
  "gcm_correct P \<longleftrightarrow>
     (\<forall>key iv aad pt. pf_gcmOpen P key iv aad (pf_gcmSeal P key iv aad pt) = Some pt \<and> pf_gcmSeal P key iv aad pt \<noteq> [])"

definition random_ok :: "'w platform \<Rightarrow> bool" where
  "random_ok P \<longleftrightarrow> (\<forall>n w. \<exists>bs w'. pf_random P n w = (Inr bs, w') \<and> length bs = n)"

text \<open>A ceremony restricted to \<open>allow\<close> answers with the passkey \<open>rawId\<close>, whose PRF is \<open>prf\<close>.\<close>

definition passkey_answers :: "'w platform \<Rightarrow> bytes \<Rightarrow> (bytes \<Rightarrow> bytes) \<Rightarrow> string option \<Rightarrow> bool" where
  "passkey_answers P rawId prf i \<longleftrightarrow>
     (\<exists>allow. allowCredentials i = Inr allow \<and>
        (\<forall>salt w. length (prf salt) = 32 \<and>
           (\<exists>w'. pf_get P allow salt w = (Inr (Some \<lparr>pa_rawId = rawId, pa_prfFirst = Some (PrfBytes (prf salt))\<rparr>), w'))))"

text \<open>No passkey answers for the credential id: it was deleted, or never reached this device.\<close>

definition passkey_refuses :: "'w platform \<Rightarrow> string option \<Rightarrow> bool" where
  "passkey_refuses P i \<longleftrightarrow>
     (case allowCredentials i of
        Inl e \<Rightarrow> True
      | Inr allow \<Rightarrow> \<forall>salt w. \<exists>w'. (\<exists>e. pf_get P allow salt w = (Inl e, w')) \<or> pf_get P allow salt w = (Inr None, w'))"

definition passkey_reached :: "'w platform \<Rightarrow> bytes \<Rightarrow> (bytes \<Rightarrow> bytes) \<Rightarrow> string option \<Rightarrow> bool" where
  "passkey_reached P rawId prf i \<longleftrightarrow>
     passkey_answers P rawId prf i \<or> the_or [] i \<noteq> [] \<and> passkey_refuses P i \<and> passkey_answers P rawId prf None"

section \<open>Lemmas\<close>

text \<open>A blob with both of its parts decoded.\<close>

definition blobParts :: "string \<Rightarrow> string \<Rightarrow> (bytes \<times> bytes) res" where
  "blobParts m s =
     bindR (splitBlob m s) (\<lambda>p. bindR (base64urlToBuffer (fst p)) (\<lambda>iv. bindR (base64urlToBuffer (snd p)) (\<lambda>ct. Inr (iv, ct))))"

lemma open_blobParts:
  "bindR (splitBlob m s) (openParts P key) = bindR (blobParts m s) (\<lambda>(iv, ct). gcmDecrypt P key iv [] ct)"
  by (simp add: openParts_def[abs_def] blobParts_def bindR_assoc)

lemma base64url_nonempty: "bs \<noteq> [] \<Longrightarrow> bufferToBase64url bs \<noteq> []"
  using b64url.enc_inject[of bs "[]"] by (auto simp: bufferToBase64url_eq b64urlEncode_eq b64body_def urlsafe_def replaceAll_def)

lemma splitBlob_blobOf:
  "fst b \<noteq> [] \<Longrightarrow> snd b \<noteq> [] \<Longrightarrow> splitBlob m (blobOf b) = Inr (bufferToBase64url (fst b), bufferToBase64url (snd b))"
  using base64url_nonempty[of "fst b"] base64url_nonempty[of "snd b"]
  by (simp add: splitBlob_def blobOf_def bufferToBase64url_eq splitOn_append_sep splitOn_no_sep)

interpretation blob: codec blobOf "blobParts m" "\<lambda>b. fst b \<noteq> [] \<and> snd b \<noteq> []" for m
  by unfold_locales (simp add: blobParts_def splitBlob_blobOf base64urlToBuffer_bufferToBase64url)

lemma prfAesKey_answers:
  assumes "random_ok P" "passkey_answers P rawId prf i"
  obtains w' where "prfAesKey P i salt w = (Inr (prf salt, bufferToBase64url rawId), w')"
proof -
  from assms(2) obtain allow where a: "allowCredentials i = Inr allow" "length (prf salt) = 32"
    "\<And>w. \<exists>w'. pf_get P allow salt w = (Inr (Some \<lparr>pa_rawId = rawId, pa_prfFirst = Some (PrfBytes (prf salt))\<rparr>), w')"
    unfolding passkey_answers_def by blast
  from assms(1) obtain bs w1 where r: "pf_random P 32 w = (Inr bs, w1)" unfolding random_ok_def by blast
  from a(3)[of w1] obtain w2 where
    "pf_get P allow salt w1 = (Inr (Some \<lparr>pa_rawId = rawId, pa_prfFirst = Some (PrfBytes (prf salt))\<rparr>), w2)" by blast
  with r a(1,2) have "prfAesKey P i salt w = (Inr (prf salt, bufferToBase64url rawId), w2)"
    by (simp add: prfAesKey_def prfSecret_def importAesKey_def act_defs)
  then show thesis by (rule that)
qed

lemma prfAesKey_refuses:
  assumes "random_ok P" "passkey_refuses P i"
  obtains e w' where "prfAesKey P i salt w = (Inl e, w')"
proof -
  from assms(1) obtain bs w1 where r: "pf_random P 32 w = (Inr bs, w1)" unfolding random_ok_def by blast
  have "\<exists>e w'. prfAesKey P i salt w = (Inl e, w')"
  proof (cases "allowCredentials i")
    case (Inr allow)
    with assms(2) obtain w' where "(\<exists>e. pf_get P allow salt w1 = (Inl e, w')) \<or> pf_get P allow salt w1 = (Inr None, w')"
      unfolding passkey_refuses_def by fastforce
    with r Inr show ?thesis by (auto simp: prfAesKey_def prfSecret_def act_defs)
  qed (use r in \<open>simp add: prfAesKey_def prfSecret_def act_defs\<close>)
  then show thesis using that by blast
qed

text \<open>A ceremony that falls back to the picker runs the decryption under the passkey's key.\<close>

lemma withPicker_reached:
  assumes "random_ok P" "passkey_reached P rawId prf i"
    and body: "\<And>w. body (prf salt) (bufferToBase64url rawId) w = (Inr r, w)"
  obtains w' where "withPicker i (\<lambda>j. bindA (prfAesKey P j salt) (\<lambda>(key, selected). body key selected)) w = (Inr r, w')"
proof -
  let ?m = "\<lambda>j. bindA (prfAesKey P j salt) (\<lambda>(key, selected). body key selected)"
  have ok: "\<exists>w'. ?m j w = (Inr r, w')" if "passkey_answers P rawId prf j" for j w
    by (rule prfAesKey_answers[OF assms(1) that, of salt w]) (simp add: bindA_def body)
  show thesis
  proof (cases "passkey_answers P rawId prf i")
    case True
    with ok[of i w] show thesis using that by (auto simp: withPicker_def tryA_def)
  next
    case False
    with assms(2) have f: "the_or [] i \<noteq> []" "passkey_refuses P i" "passkey_answers P rawId prf None"
      by (auto simp: passkey_reached_def)
    obtain e w1 where "prfAesKey P i salt w = (Inl e, w1)" by (rule prfAesKey_refuses[OF assms(1) f(2)])
    then have "?m i w = (Inl e, w1)" by (simp add: bindA_def)
    moreover obtain w2 where "?m None w1 = (Inr r, w2)" using ok[OF f(3)] by blast
    ultimately show thesis using f(1) that by (simp add: withPicker_def tryA_def)
  qed
qed

lemma open_sealed:
  assumes "gcm_correct P" "iv \<noteq> []"
  shows "bindR (splitBlob m (blobOf (iv, pf_gcmSeal P key iv [] pt))) (openParts P key) = Inr pt"
proof -
  have "blobParts m (blobOf (iv, pf_gcmSeal P key iv [] pt)) = Inr (iv, pf_gcmSeal P key iv [] pt)"
    using assms by (intro blob.dec_enc) (simp add: gcm_correct_def)
  then show ?thesis using assms(1) by (simp add: open_blobParts gcmDecrypt_def gcm_correct_def)
qed

lemma sealBytes_opens:
  assumes "gcm_correct P" "random_ok P"
  obtains blob w' where "sealBytes P key (Inr pt) w = (Inr blob, w')"
    "\<And>m. bindR (splitBlob m blob) (openParts P key) = Inr pt"
proof -
  from assms(2) obtain iv w1 where iv: "pf_random P 12 w = (Inr iv, w1)" "length iv = 12" unfolding random_ok_def by blast
  then have "iv \<noteq> []" by auto
  from open_sealed[OF assms(1) this] iv show thesis by (intro that) (auto simp: sealBytes_def act_defs)
qed

lemma seedBytes_hex [simp]: "seedBytes (Some (bytesToHex pt)) = Inr pt"
  by (simp add: seedBytes_def bytesToHex_eq_hexEncode hexToBytes_hexEncode)

lemma sealAll_opens:
  assumes "gcm_correct P" "random_ok P"
  shows "\<exists>blobs w'. sealAll P key (map (\<lambda>b. Some (bytesToHex b)) seeds) w = (Inr blobs, w') \<and> length blobs = length seeds \<and>
    mapR (\<lambda>blob. bindR (splitBlob m blob) (openParts P key)) blobs = Inr seeds"
proof (induction seeds arbitrary: w)
  case (Cons pt seeds)
  obtain blob w1 where b: "sealBytes P key (Inr pt) w = (Inr blob, w1)" "bindR (splitBlob m blob) (openParts P key) = Inr pt"
    using sealBytes_opens[OF assms] by metis
  obtain blobs w2 where "sealAll P key (map (\<lambda>b. Some (bytesToHex b)) seeds) w1 = (Inr blobs, w2)" "length blobs = length seeds"
    "mapR (\<lambda>blob. bindR (splitBlob m blob) (openParts P key)) blobs = Inr seeds" using Cons.IH by blast
  with b show ?case
    by (intro exI[of _ "blob # blobs"] exI[of _ w2])
      (simp add: bindA_def returnA_def)
qed (simp add: returnA_def)

lemma sealed_keys_open:
  assumes "gcm_correct P" "random_ok P" "passkey_answers P rawId prf i" "passkey_reached P rawId prf j"
  shows "\<exists>blobs w1. sealHolderKeys P i (map (\<lambda>b. Some (bytesToHex b)) seeds) w = (Inr (blobs, bufferToBase64url rawId), w1) \<and>
    length blobs = length seeds \<and>
    (\<forall>w2. \<exists>w3. openHolderKeys P j blobs w2 = (Inr (map bytesToHex seeds, bufferToBase64url rawId), w3))"
proof -
  obtain w0 where k: "prfAesKey P i HOLDER_KEY_PRF_SALT w = (Inr (prf HOLDER_KEY_PRF_SALT, bufferToBase64url rawId), w0)"
    by (rule prfAesKey_answers[OF assms(2,3)])
  obtain blobs w1 where b: "sealAll P (prf HOLDER_KEY_PRF_SALT) (map (\<lambda>b. Some (bytesToHex b)) seeds) w0 = (Inr blobs, w1)"
    "length blobs = length seeds"
    "mapR (\<lambda>blob. bindR (splitBlob ''Malformed wrapped holder key'' blob) (openParts P (prf HOLDER_KEY_PRF_SALT))) blobs = Inr seeds"
    using sealAll_opens[OF assms(1,2)] by blast
  have "\<exists>w3. openHolderKeys P j blobs w2 = (Inr (map bytesToHex seeds, bufferToBase64url rawId), w3)" for w2
    unfolding openHolderKeys_def
    by (rule withPicker_reached[OF assms(2,4), where w = w2 and r = "(map bytesToHex seeds, bufferToBase64url rawId)" and
          salt = HOLDER_KEY_PRF_SALT and
          body = "\<lambda>key selected. bindA (liftA (mapR (\<lambda>blob. bindR (splitBlob ''Malformed wrapped holder key'' blob) (openParts P key)) blobs))
            (\<lambda>pts. returnA (map bytesToHex pts, selected))"])
      (use b(3) in \<open>auto simp: act_defs\<close>)
  with k b(1,2) show ?thesis
    by (intro exI[of _ blobs] exI[of _ w1]) (simp add: sealHolderKeys_def bindA_def returnA_def)
qed

lemma openHolderKeys_Inr:
  assumes "openHolderKeys P i blobs w = (Inr (seedHexes, selected), w')"
  obtains key pts where "seedHexes = map bytesToHex pts"
    "mapR (\<lambda>blob. bindR (splitBlob ''Malformed wrapped holder key'' blob) (openParts P key)) blobs = Inr pts"
  using assms by (auto simp: openHolderKeys_def withPicker_def act_defs split: prod.splits sum.splits if_splits)

section \<open>Properties\<close>

text \<open>C30: Holder keys come back.  Sealing any list of seeds under a passkey returns one blob per seed, and opening the
  blobs later under the same passkey, reached directly or through the picker after a stale credential id, returns the
  seeds in their order and names the passkey that was used.\<close>

theorem holder_keys_roundtrip:
  assumes "gcm_correct P" "random_ok P" "passkey_answers P rawId prf i" "passkey_reached P rawId prf j"
  shows "\<exists>blobs w1. sealHolderKeys P i (map (\<lambda>b. Some (bytesToHex b)) seeds) w = (Inr (blobs, bufferToBase64url rawId), w1) \<and>
    length blobs = length seeds \<and>
    (\<forall>w2. \<exists>w3. openHolderKeys P j blobs w2 = (Inr (map bytesToHex seeds, bufferToBase64url rawId), w3))"
  using assms by (rule sealed_keys_open)

text \<open>A recovery export never loses a key silently, and a recovery import never fails for a foreign bundle.  When
  \<open>openHolderKeys\<close> returns, it returns exactly one seed for every blob, each the authenticated content of that blob;
  when the passkey answers, \<open>openRecoveryBundles\<close> returns exactly the contents of the bundles that open under it, in
  their order, whatever the other bundles are.\<close>

theorem openings_complete:
  assumes "random_ok P"
  shows "(openHolderKeys P i blobs w = (Inr (seedHexes, selected), w') \<longrightarrow>
      (\<exists>key. list_all2 (\<lambda>blob seedHex. \<exists>pt. bindR (splitBlob ''Malformed wrapped holder key'' blob) (openParts P key) = Inr pt \<and>
          seedHex = bytesToHex pt) blobs seedHexes)) \<and>
    (passkey_answers P rawId prf i \<and> (the_or [] i = [] \<or> payloads \<noteq> []) \<and>
       payloads = concat (map (openableBundle P (prf RECOVERY_PRF_SALT)) bundles) \<longrightarrow>
      (\<exists>w'. openRecoveryBundles P i bundles w = (Inr (payloads, bufferToBase64url rawId), w')))"
proof (intro conjI impI)
  let ?o = "\<lambda>key blob. bindR (splitBlob ''Malformed wrapped holder key'' blob) (openParts P key)"
  have all: "list_all2 (\<lambda>blob seedHex. \<exists>pt. ?o key blob = Inr pt \<and> seedHex = bytesToHex pt) blobs (map bytesToHex pts)"
    if "mapR (?o key) blobs = Inr pts" for key pts
    using that by (auto simp: mapR_Inr_iff list_all2_conv_all_nth)
  assume "openHolderKeys P i blobs w = (Inr (seedHexes, selected), w')"
  then obtain key pts where "mapR (?o key) blobs = Inr pts" "seedHexes = map bytesToHex pts"
    by (rule openHolderKeys_Inr)
  with all show "\<exists>key. list_all2 (\<lambda>blob seedHex. \<exists>pt. ?o key blob = Inr pt \<and> seedHex = bytesToHex pt) blobs seedHexes" by blast
next
  assume h: "passkey_answers P rawId prf i \<and> (the_or [] i = [] \<or> payloads \<noteq> []) \<and>
    payloads = concat (map (openableBundle P (prf RECOVERY_PRF_SALT)) bundles)"
  obtain w' where "prfAesKey P i RECOVERY_PRF_SALT w = (Inr (prf RECOVERY_PRF_SALT, bufferToBase64url rawId), w')"
    using prfAesKey_answers[OF assms] h by blast
  with h show "\<exists>w'. openRecoveryBundles P i bundles w = (Inr (payloads, bufferToBase64url rawId), w')"
    by (auto simp: openRecoveryBundles_def decryptBundles_def act_defs)
qed

section \<open>Witnesses\<close>

text \<open>A device with one passkey that only the picker reaches, and an authenticated encryption that puts the key, the
  vector and the additional data before the plaintext.\<close>

definition exSeal :: "bytes \<Rightarrow> bytes \<Rightarrow> bytes \<Rightarrow> bytes \<Rightarrow> bytes" where
  "exSeal key iv aad pt = 0 # key @ iv @ aad @ pt"

definition exOpen :: "bytes \<Rightarrow> bytes \<Rightarrow> bytes \<Rightarrow> bytes \<Rightarrow> bytes option" where
  "exOpen key iv aad ct =
     (let tag = 0 # key @ iv @ aad in if take (length tag) ct = tag then Some (drop (length tag) ct) else None)"

definition exPlatform :: "unit platform" where
  "exPlatform =
     \<lparr>pf_get = (\<lambda>allow salt w. (if allow = None then Inr (Some \<lparr>pa_rawId = [9], pa_prfFirst = Some (PrfBytes (replicate 32 5))\<rparr>)
                 else Inl (Error ''NotAllowedError''), w)),
      pf_random = (\<lambda>n w. (Inr (replicate n 3), w)), pf_gcmSeal = exSeal, pf_gcmOpen = exOpen,
      pf_cborDecode = (\<lambda>b. Inr COther)\<rparr>"

lemma exPlatform_facts:
  "gcm_correct exPlatform" "random_ok exPlatform" "passkey_answers exPlatform [9] (\<lambda>_. replicate 32 5) None"
  "passkey_reached exPlatform [9] (\<lambda>_. replicate 32 5) (Some ''AQ'')"
proof -
  have "base64urlToBuffer ''AQ'' = Inr [1]" by code_simp
  then show "passkey_reached exPlatform [9] (\<lambda>_. replicate 32 5) (Some ''AQ'')"
    by (simp add: passkey_reached_def passkey_refuses_def passkey_answers_def exPlatform_def allowCredentials_def)
qed (simp_all add: gcm_correct_def exPlatform_def exSeal_def exOpen_def Let_def random_ok_def passkey_answers_def allowCredentials_def)

theorem holder_keys_roundtrip_witness:
  "\<exists>blobs w1. sealHolderKeys exPlatform None [Some (bytesToHex [1, 2]), Some (bytesToHex [3])] () = (Inr (blobs, bufferToBase64url [9]), w1) \<and>
     (\<exists>w3. openHolderKeys exPlatform (Some ''AQ'') blobs () = (Inr ([bytesToHex [1, 2], bytesToHex [3]], bufferToBase64url [9]), w3))"
  using holder_keys_roundtrip[OF exPlatform_facts(1,2,3,4), of "[[1, 2], [3]]" "()"] by auto

theorem openings_complete_witness:
  "\<exists>w'. openRecoveryBundles exPlatform None [''junk'', blobOf ([3], exSeal (replicate 32 5) [3] [] (utf8Bytes ''backup''))] () =
      (Inr ([''backup''], bufferToBase64url [9]), w')"
proof -
  have "openableBundle exPlatform (replicate 32 5) ''junk'' = []"
    by (simp add: openableBundle_def splitBlob_def)
  moreover have "openableBundle exPlatform (replicate 32 5) (blobOf ([3], exSeal (replicate 32 5) [3] [] (utf8Bytes ''backup''))) = [''backup'']"
    using open_sealed[OF exPlatform_facts(1), of "[3]" "[]" "replicate 32 5" "utf8Bytes ''backup''"]
    by (simp add: openableBundle_def) (simp add: exPlatform_def)
  ultimately show ?thesis
    using openings_complete[OF exPlatform_facts(2), of None _ "()" _ _ "()" "[9]" "\<lambda>_. replicate 32 5" "[''backup'']"
        "[''junk'', blobOf ([3], exSeal (replicate 32 5) [3] [] (utf8Bytes ''backup''))]"] exPlatform_facts(3) by simp
qed

end
