(* ===== verification/Recovery.thy ===== *)
theory Recovery
  imports Passkey Wallet_Storage
begin

unbundle bit_operations_syntax

text \<open>
  Offline recovery of a wallet: the encrypted recovery file of \<open>packages/sdk/src/recovery-file.ts\<close> and the export and
  restore of \<open>packages/sdk/src/recovery-wallet.ts\<close>.

  PBKDF2 is a parameter, AES-GCM is the platform's.  A recovery code is ASCII: \<open>toUpperCase\<close> and the filter act on
  bytes, and a byte above 127 is dropped like every other character outside the alphabet.  The state of a device is its
  storage together with the outside world of its platform.
\<close>

section \<open>The recovery code\<close>

definition FILE_VERSION :: string where "FILE_VERSION = ''owlid-recovery-file-v1''"
definition DOMAIN :: bytes where "DOMAIN = utf8Bytes ''owlid:recovery-file:v1''"
definition PBKDF2_ITERATIONS :: int where "PBKDF2_ITERATIONS = 600000"
definition MIN_ITERATIONS :: int where "MIN_ITERATIONS = 100000"
definition MAX_ITERATIONS :: int where "MAX_ITERATIONS = 2000000"
definition SALT_BYTES :: nat where "SALT_BYTES = 16"
definition IV_BYTES :: nat where "IV_BYTES = 12"
definition ALPHABET :: string where "ALPHABET = ''0123456789ABCDEFGHJKMNPQRSTVWXYZ''"
definition CODE_GROUPS :: nat where "CODE_GROUPS = 6"
definition CODE_GROUP_LEN :: nat where "CODE_GROUP_LEN = 5"

fun codeChars :: "nat \<Rightarrow> bytes \<Rightarrow> string" where
  "codeChars i [] = []"
| "codeChars i (b # bs) =
     (if 0 < i \<and> i mod CODE_GROUP_LEN = 0 then ''-'' else []) @ [ALPHABET ! unat (b AND 31)] @ codeChars (Suc i) bs"

definition generateRecoveryCode :: "'w platform \<Rightarrow> ('w, string) act" where
  "generateRecoveryCode P =
     bindA (pf_random P (CODE_GROUPS * CODE_GROUP_LEN)) (\<lambda>bs. returnA (codeChars 0 bs))"

definition foldConfusable :: "char \<Rightarrow> char" where
  "foldConfusable ch = (if ch = CHR ''O'' then CHR ''0'' else if ch = CHR ''I'' \<or> ch = CHR ''L'' then CHR ''1'' else ch)"

definition normalizeRecoveryCode :: "string \<Rightarrow> string" where
  "normalizeRecoveryCode rcode = filter (\<lambda>ch. ch \<in> set ALPHABET) (map foldConfusable (toUpperCase rcode))"

section \<open>The recovery file\<close>

text \<open>\<open>kdf code salt iterations\<close> is PBKDF2-SHA256 to a 256-bit key.\<close>

type_synonym pbkdf2 = "bytes \<Rightarrow> bytes \<Rightarrow> int \<Rightarrow> bytes"

definition deriveKey :: "pbkdf2 \<Rightarrow> string \<Rightarrow> bytes \<Rightarrow> int \<Rightarrow> bytes res" where
  "deriveKey kdf rcode salt iterations =
     (let normalized = normalizeRecoveryCode rcode in
      if length normalized < CODE_GROUPS * CODE_GROUP_LEN then Inl (Error ''Recovery code is too short'')
      else Inr (kdf (utf8Bytes normalized) salt iterations))"

definition filePayload :: "json list \<Rightarrow> json" where
  "filePayload entries = JObj [(''v'', JStr FILE_VERSION), (''entries'', JArr entries)]"

definition recoveryFile :: "int \<Rightarrow> bytes \<Rightarrow> bytes \<Rightarrow> bytes \<Rightarrow> json" where
  "recoveryFile iterations salt iv ct = JObj
     [(''v'', JStr FILE_VERSION),
      (''kdf'', JObj [(''name'', JStr ''PBKDF2''), (''hash'', JStr ''SHA-256''), (''iterations'', JNum iterations),
                      (''salt'', JStr (bufferToBase64url salt))]),
      (''iv'', JStr (bufferToBase64url iv)), (''ct'', JStr (bufferToBase64url ct))]"

definition encryptRecoveryFile :: "'w platform \<Rightarrow> pbkdf2 \<Rightarrow> json list \<Rightarrow> string \<Rightarrow> ('w, json) act" where
  "encryptRecoveryFile P kdf entries rcode =
     (if entries = [] then throwA (Error ''Nothing to back up'') else
      bindA (pf_random P SALT_BYTES) (\<lambda>salt.
      bindA (pf_random P IV_BYTES) (\<lambda>iv.
      bindA (liftA (deriveKey kdf rcode salt PBKDF2_ITERATIONS)) (\<lambda>key.
        returnA (recoveryFile PBKDF2_ITERATIONS salt iv
          (pf_gcmSeal P key iv DOMAIN (utf8Bytes (stringify (filePayload entries)))))))))"

text \<open>Reading a property of \<open>undefined\<close>, or calling a string method on a value that is not a string, throws.\<close>

definition bufferField :: "json option \<Rightarrow> bytes res" where
  "bufferField v = (case asStr v of None \<Rightarrow> Inl (TypeError ''replace is not a function'') | Some t \<Rightarrow> base64urlToBuffer t)"

definition openFile :: "'w platform \<Rightarrow> bytes \<Rightarrow> json \<Rightarrow> bytes res" where
  "openFile P key f =
     (case bindR (bufferField (getField ''iv'' f)) (\<lambda>iv.
           bindR (bufferField (getField ''ct'' f)) (\<lambda>ct. gcmDecrypt P key iv DOMAIN ct)) of
        Inl _ \<Rightarrow> Inl (Error ''Invalid recovery code or corrupted recovery file'')
      | Inr pt \<Rightarrow> Inr pt)"

definition readPayload :: "bytes \<Rightarrow> json list res" where
  "readPayload pt =
     bindR (JSON_parse (utf8String pt)) (\<lambda>parsed.
       if parsed = JNull then Inl (TypeError ''Cannot read properties of null'')
       else case (getField ''v'' parsed, getField ''entries'' parsed) of
              (Some (JStr v), Some (JArr entries)) \<Rightarrow>
                if v = FILE_VERSION then Inr entries else Inl (Error ''Recovery file payload is malformed'')
            | _ \<Rightarrow> Inl (Error ''Recovery file payload is malformed''))"

definition decryptRecoveryFile :: "'w platform \<Rightarrow> pbkdf2 \<Rightarrow> json \<Rightarrow> string \<Rightarrow> json list res" where
  "decryptRecoveryFile P kdf f rcode =
     (if getField ''v'' f \<noteq> Some (JStr FILE_VERSION) then Inl (Error ''Unsupported recovery file format'') else
      let k = the_or JNull (getField ''kdf'' f) in
      if getField ''name'' k \<noteq> Some (JStr ''PBKDF2'') \<or> getField ''hash'' k \<noteq> Some (JStr ''SHA-256'')
      then Inl (Error ''Unsupported recovery file KDF'') else
      case asNum (getField ''iterations'' k) of
        None \<Rightarrow> Inl (Error ''Recovery file has an out-of-range iteration count'')
      | Some iterations \<Rightarrow>
          if iterations < MIN_ITERATIONS \<or> iterations > MAX_ITERATIONS
          then Inl (Error ''Recovery file has an out-of-range iteration count'') else
          bindR (bufferField (getField ''salt'' k)) (\<lambda>salt.
          bindR (deriveKey kdf rcode salt iterations) (\<lambda>key.
          bindR (openFile P key f) readPayload)))"

section \<open>Export and restore\<close>

text \<open>One step of the device that touches only the storage, or only the platform.\<close>

definition onWorld :: "('w, 'a) act \<Rightarrow> ('s \<times> 'w, 'a) act" where
  "onWorld m d = (case m (snd d) of (r, w) \<Rightarrow> (r, fst d, w))"

definition onStore :: "('s \<Rightarrow> 's) \<Rightarrow> ('s \<times> 'w, unit) act" where
  "onStore f d = (Inr (), f (fst d), snd d)"

record exportedRecoveryFile =
  ex_file :: json
  ex_code :: string
  ex_count :: nat

definition TRANSPORTS :: "string list" where "TRANSPORTS = [''internal'', ''hybrid'']"

definition currentPasskeyId :: "'s storageAdapter \<Rightarrow> 's \<Rightarrow> string option" where
  "currentPasskeyId A s = map_option wa_credentialId (loadWebAuthnCredential A s)"

definition wrappedKeys :: "'s storageAdapter \<Rightarrow> 's \<Rightarrow> walletCredential list \<Rightarrow> string list res" where
  "wrappedKeys A s creds =
     mapR (\<lambda>c. let blob = the_or [] (getCredentialKeyWrapped A s (wc_credentialId c)) in
       if blob = [] then Inl (Error (''Missing wrapped key for credential '' @ wc_credentialId c)) else Inr blob) creds"

definition entryJson :: "walletCredential \<times> string \<Rightarrow> json" where
  "entryJson e = JObj [(''credential'', credToJson (fst e)), (''holderSeedHex'', JStr (snd e))]"

text \<open>The host may wrap the passkey prompt in a \<open>ceremony\<close>; by default it runs the operation directly.\<close>

type_synonym ('s, 'w) ceremony = "('s \<times> 'w, string list \<times> string) act \<Rightarrow> ('s \<times> 'w, string list \<times> string) act"

definition createRecoveryFile ::
  "'s storageAdapter \<Rightarrow> 'w platform \<Rightarrow> pbkdf2 \<Rightarrow> ('s, 'w) ceremony \<Rightarrow> ('s \<times> 'w, exportedRecoveryFile) act" where
  "createRecoveryFile A P kdf ceremony =
     bindA (getA (\<lambda>d. listCredentials A (fst d))) (\<lambda>creds.
       if creds = [] then throwA (Error ''No credentials to back up'') else
       bindA (\<lambda>d. (wrappedKeys A (fst d) creds, d)) (\<lambda>wrapped.
       bindA (ceremony (\<lambda>d. onWorld (openHolderKeys P (currentPasskeyId A (fst d)) wrapped) d)) (\<lambda>(seedHexes, credentialId).
       bindA (onStore (\<lambda>s. fst (saveSelectedWebAuthnCredential A s credentialId TRANSPORTS))) (\<lambda>_.
       bindA (onWorld (generateRecoveryCode P)) (\<lambda>rcode.
       bindA (onWorld (encryptRecoveryFile P kdf (map entryJson (zip creds seedHexes)) rcode)) (\<lambda>f.
         returnA \<lparr>ex_file = f, ex_code = rcode, ex_count = length creds\<rparr>))))))"

text \<open>\<open>addCredential\<close> throws for an entry whose credential is missing; the loop logs it and goes on.\<close>

fun storeAll :: "'s storageAdapter \<Rightarrow> 's \<Rightarrow> (json option \<times> string) list \<Rightarrow> 's \<times> walletCredential list" where
  "storeAll A s [] = (s, [])"
| "storeAll A s ((v, blob) # rest) =
     (case v of
        None \<Rightarrow> storeAll A s rest
      | Some j \<Rightarrow>
          if j = JNull then storeAll A s rest
          else (let c = credOfJson j; r = storeAll A (addCredential A s c blob) rest in (fst r, c # snd r)))"

definition entryField :: "string \<Rightarrow> json \<Rightarrow> json option res" where
  "entryField k e = (if e = JNull then Inl (TypeError ''Cannot read properties of null'') else Inr (getField k e))"

definition restoreRecoveryFile ::
  "'s storageAdapter \<Rightarrow> 'w platform \<Rightarrow> pbkdf2 \<Rightarrow> ('s, 'w) ceremony \<Rightarrow> string \<Rightarrow> string \<Rightarrow> ('s \<times> 'w, walletCredential list) act" where
  "restoreRecoveryFile A P kdf ceremony fileText rcode =
     bindA (liftA (case JSON_parse fileText of Inl _ \<Rightarrow> Inl (Error ''That file is not a valid OwlID recovery file'') | Inr f \<Rightarrow> Inr f)) (\<lambda>f.
     bindA (liftA (decryptRecoveryFile P kdf f rcode)) (\<lambda>entries.
     bindA (liftA (mapR (entryField ''credential'') entries)) (\<lambda>creds.
     bindA (ceremony (\<lambda>d. onWorld (sealHolderKeys P (currentPasskeyId A (fst d)) (map (\<lambda>e. asStr (getField ''holderSeedHex'' e)) entries)) d)) (\<lambda>(blobs, credentialId).
     bindA (onStore (\<lambda>s. fst (saveSelectedWebAuthnCredential A s credentialId TRANSPORTS))) (\<lambda>_.
       (\<lambda>d. case storeAll A (fst d) (zip creds blobs) of (s, restored) \<Rightarrow> (Inr restored, s, snd d)))))))"

section \<open>Lemmas\<close>

lemma symbol_facts:
  "list_all (\<lambda>c. foldConfusable (upperChar c) = c) ALPHABET" "length ALPHABET = 32" "CHR ''-'' \<notin> set ALPHABET"
  by code_simp+

lemma symbol_of_byte: "ALPHABET ! unat (b AND 31 :: byte) \<in> set ALPHABET"
proof -
  have "b AND 31 \<le> (31 :: byte)" by (rule word_and_le1)
  then have "unat (b AND 31) < 32" by (simp add: word_le_nat_alt)
  then show ?thesis using symbol_facts(2) by (intro nth_mem) simp
qed

lemma normalize_append: "normalizeRecoveryCode (xs @ ys) = normalizeRecoveryCode xs @ normalizeRecoveryCode ys"
  by (simp add: normalizeRecoveryCode_def toUpperCase_def)

lemma normalize_symbol: "c \<in> set ALPHABET \<Longrightarrow> normalizeRecoveryCode [c] = [c]"
  using symbol_facts(1) by (simp add: normalizeRecoveryCode_def toUpperCase_def list_all_iff)

lemma normalize_symbols: "set cs \<subseteq> set ALPHABET \<Longrightarrow> normalizeRecoveryCode cs = cs"
proof (induction cs)
  case (Cons c cs)
  then show ?case using normalize_append[of "[c]" cs] by (simp add: normalize_symbol)
qed (simp add: normalizeRecoveryCode_def toUpperCase_def)

lemma normalize_dash: "normalizeRecoveryCode ''-'' = []"
  by code_simp

lemma normalize_codeChars: "normalizeRecoveryCode (codeChars i bs) = map (\<lambda>b. ALPHABET ! unat (b AND 31)) bs"
proof (induction bs arbitrary: i)
  case (Cons b bs)
  have "normalizeRecoveryCode (codeChars i (b # bs)) =
      normalizeRecoveryCode (if 0 < i \<and> i mod CODE_GROUP_LEN = 0 then ''-'' else []) @
      normalizeRecoveryCode [ALPHABET ! unat (b AND 31)] @ normalizeRecoveryCode (codeChars (Suc i) bs)"
    by (simp only: codeChars.simps normalize_append)
  then show ?case
    using normalize_dash normalize_symbols[of "[]"] by (simp add: Cons.IH normalize_symbol symbol_of_byte)
qed (use normalize_symbols[of "[]"] in simp)

lemma generated_code_long:
  assumes "generateRecoveryCode P w = (Inr rcode, w')" "random_ok P"
  shows "length (normalizeRecoveryCode rcode) = CODE_GROUPS * CODE_GROUP_LEN"
proof -
  obtain bs w1 where "pf_random P (CODE_GROUPS * CODE_GROUP_LEN) w = (Inr bs, w1)" "length bs = CODE_GROUPS * CODE_GROUP_LEN"
    using assms(2) unfolding random_ok_def by blast
  with assms(1) show ?thesis by (auto simp: generateRecoveryCode_def act_defs normalize_codeChars)
qed

lemma filePayload_wf: "list_all json_wf entries \<Longrightarrow> json_wf (filePayload entries)"
  by (simp add: filePayload_def)

lemma readPayload_filePayload:
  "list_all json_wf entries \<Longrightarrow> readPayload (utf8Bytes (stringify (filePayload entries))) = Inr entries"
  using json.dec_enc[OF filePayload_wf, of entries]
  by (simp add: readPayload_def) (simp add: filePayload_def)

lemma recoveryFile_wf: "json_wf (recoveryFile n salt iv ct)"
  by (simp add: recoveryFile_def)

lemma decrypt_recoveryFile:
  assumes "MIN_ITERATIONS \<le> n" "n \<le> MAX_ITERATIONS"
  shows "decryptRecoveryFile P kdf (recoveryFile n salt iv ct) rcode =
    bindR (deriveKey kdf rcode salt n) (\<lambda>key.
      bindR (case gcmDecrypt P key iv DOMAIN ct of
               Inl _ \<Rightarrow> Inl (Error ''Invalid recovery code or corrupted recovery file'') | Inr pt \<Rightarrow> Inr pt) readPayload)"
  using assms
  by (simp add: decryptRecoveryFile_def recoveryFile_def bufferField_def base64urlToBuffer_bufferToBase64url openFile_def)

lemma encrypted_file_opens:
  assumes "encryptRecoveryFile P kdf entries rcode w = (Inr f, w')" "gcm_correct Q" "pf_gcmSeal Q = pf_gcmSeal P"
    "list_all json_wf entries" "normalizeRecoveryCode typed = normalizeRecoveryCode rcode"
  shows "json_wf f \<and> decryptRecoveryFile Q kdf f typed = Inr entries"
proof -
  from assms(1) obtain salt iv key where
    f: "deriveKey kdf rcode salt PBKDF2_ITERATIONS = Inr key"
       "f = recoveryFile PBKDF2_ITERATIONS salt iv (pf_gcmSeal P key iv DOMAIN (utf8Bytes (stringify (filePayload entries))))"
    by (auto simp: encryptRecoveryFile_def act_defs split: prod.splits sum.splits if_splits)
  have "deriveKey kdf typed salt PBKDF2_ITERATIONS = Inr key" using f(1) assms(5) by (simp add: deriveKey_def)
  moreover have "MIN_ITERATIONS \<le> PBKDF2_ITERATIONS" "PBKDF2_ITERATIONS \<le> MAX_ITERATIONS"
    by (simp_all add: MIN_ITERATIONS_def PBKDF2_ITERATIONS_def MAX_ITERATIONS_def)
  moreover have "gcmDecrypt Q key iv DOMAIN (pf_gcmSeal P key iv DOMAIN pt) = Inr pt" for pt
    using assms(2) unfolding assms(3)[symmetric] by (simp add: gcmDecrypt_def gcm_correct_def)
  ultimately show ?thesis
    using assms(4) by (simp add: f(2) decrypt_recoveryFile recoveryFile_wf readPayload_filePayload)
qed

lemma encrypt_succeeds:
  assumes "random_ok P" "entries \<noteq> []" "CODE_GROUPS * CODE_GROUP_LEN \<le> length (normalizeRecoveryCode rcode)"
  obtains f w' where "encryptRecoveryFile P kdf entries rcode w = (Inr f, w')"
proof -
  obtain salt w1 where "pf_random P SALT_BYTES w = (Inr salt, w1)" using assms(1) unfolding random_ok_def by blast
  moreover obtain iv w2 where "pf_random P IV_BYTES w1 = (Inr iv, w2)" using assms(1) unfolding random_ok_def by blast
  ultimately show thesis
    using assms(2,3) by (intro that) (auto simp: encryptRecoveryFile_def act_defs deriveKey_def Let_def)
qed

text \<open>Storing a list of credentials with distinct ids stores each with its own blob.\<close>

abbreviation browserSA :: "browser storageAdapter" where "browserSA \<equiv> browserStorageAdapter"

lemma credToJson_not_null [simp]: "credToJson c \<noteq> JNull"
  by (simp add: credToJson_def)

lemma storeAll_stores:
  assumes "isBrowser s" "list_all cred_wf creds" "distinct (map wc_credentialId creds)" "length blobs = length creds"
    "storeAll browserSA s (zip (map (\<lambda>c. Some (credToJson c)) creds) blobs) = (s', restored)"
  shows "restored = creds \<and> isBrowser s' \<and>
    (\<forall>i. getCredential browserSA s' i = (case map_of (map (\<lambda>c. (wc_credentialId c, c)) creds) i of
           Some c \<Rightarrow> Some c | None \<Rightarrow> getCredential browserSA s i) \<and>
         getCredentialKeyWrapped browserSA s' i = (case map_of (zip (map wc_credentialId creds) blobs) i of
           Some k \<Rightarrow> Some k | None \<Rightarrow> getCredentialKeyWrapped browserSA s i))"
  using assms
proof (induction creds arbitrary: s blobs restored)
  case (Cons c creds)
  obtain blob bs where b: "blobs = blob # bs" using Cons.prems(4) by (cases blobs) auto
  obtain r where r: "storeAll browserSA (addCredential browserSA s c blob) (zip (map (\<lambda>c. Some (credToJson c)) creds) bs) = (s', r)"
    "restored = c # r"
    using Cons.prems(5) by (auto simp: b credOfJson_credToJson Let_def prod_eq_iff)
  have br: "isBrowser (addCredential browserSA s c blob)" using Cons.prems(1) by (rule bsa.live_add)
  have "wc_credentialId c \<notin> wc_credentialId ` set creds" using Cons.prems(3) by simp
  then have none: "map_of (map (\<lambda>c. (wc_credentialId c, c)) creds) (wc_credentialId c) = None"
    "map_of (zip (map wc_credentialId creds) bs) (wc_credentialId c) = None"
    using Cons.prems(4) by (auto simp: map_of_eq_None_iff image_image b dest!: set_zip_leftD)
  from Cons.IH[OF br _ _ _ r(1)] Cons.prems b
  have ih: "r = creds \<and> isBrowser s' \<and>
    (\<forall>i. getCredential browserSA s' i = (case map_of (map (\<lambda>c. (wc_credentialId c, c)) creds) i of
           Some c \<Rightarrow> Some c | None \<Rightarrow> getCredential browserSA (addCredential browserSA s c blob) i) \<and>
         getCredentialKeyWrapped browserSA s' i = (case map_of (zip (map wc_credentialId creds) bs) i of
           Some k \<Rightarrow> Some k | None \<Rightarrow> getCredentialKeyWrapped browserSA (addCredential browserSA s c blob) i))" by simp
  show ?case
    using ih r(2) none Cons.prems(1,2)
    by (auto simp: b bsa.getCredential_add bsa.getKey_add cong: option.case_cong)
qed auto

lemma stored_keys:
  assumes "distinct (map f creds)" "length blobs = length creds"
  shows "map (\<lambda>c. map_of (zip (map f creds) blobs) (f c)) creds = map Some blobs"
proof (rule nth_equalityI)
  fix n assume "n < length (map (\<lambda>c. map_of (zip (map f creds) blobs) (f c)) creds)"
  then show "map (\<lambda>c. map_of (zip (map f creds) blobs) (f c)) creds ! n = map Some blobs ! n"
    using assms map_of_zip_nth[of "map f creds" blobs n] by simp
qed (use assms in simp)

lemma map_of_ids:
  "distinct (map f xs) \<Longrightarrow> c \<in> set xs \<Longrightarrow> map_of (map (\<lambda>c. (f c, c)) xs) (f c) = Some c"
  by (rule map_of_is_SomeI) (simp_all add: comp_def)

lemma entries_read:
  "length hexes = length creds \<Longrightarrow> mapR (entryField ''credential'') (map entryJson (zip creds hexes)) = Inr (map (\<lambda>c. Some (credToJson c)) creds)"
  "length hexes = length creds \<Longrightarrow> map (\<lambda>e. asStr (getField ''holderSeedHex'' e)) (map entryJson (zip creds hexes)) = map Some hexes"
proof -
  assume len: "length hexes = length creds"
  have "mapR (entryField ''credential'') (map entryJson es) = Inr (map (\<lambda>e. Some (credToJson (fst e))) es)" for es
    by (induction es) (simp_all add: entryField_def entryJson_def)
  moreover have "map (\<lambda>e. Some (credToJson (fst e))) (zip creds hexes) = map (\<lambda>c. Some (credToJson c)) (map fst (zip creds hexes))" by simp
  ultimately show "mapR (entryField ''credential'') (map entryJson (zip creds hexes)) = Inr (map (\<lambda>c. Some (credToJson c)) creds)"
    using len by (simp add: map_fst_zip)
  have "map (\<lambda>e. asStr (getField ''holderSeedHex'' e)) (map entryJson es) = map Some (map snd es)" for es
    by (simp add: entryJson_def)
  then show "map (\<lambda>e. asStr (getField ''holderSeedHex'' e)) (map entryJson (zip creds hexes)) = map Some hexes"
    using len by (simp only: map_snd_zip)
qed

lemma entries_wf: "list_all cred_wf creds \<Longrightarrow> list_all json_wf (map entryJson (zip creds hexes))"
  by (auto simp: list_all_iff entryJson_def credToJson_wf dest!: set_zip_leftD)

text \<open>What a successful export went through.\<close>

lemma createRecoveryFile_Inr:
  assumes "createRecoveryFile A P kdf (\<lambda>op. op) (s, w) = (Inr ex, d)"
  obtains wrapped hexes sel w1 w2 w3 where "wrappedKeys A s (listCredentials A s) = Inr wrapped"
    "openHolderKeys P (currentPasskeyId A s) wrapped w = (Inr (hexes, sel), w1)"
    "generateRecoveryCode P w1 = (Inr (ex_code ex), w2)"
    "encryptRecoveryFile P kdf (map entryJson (zip (listCredentials A s) hexes)) (ex_code ex) w2 = (Inr (ex_file ex), w3)"
    "ex_count ex = length (listCredentials A s)"
  using assms that
  by (auto simp: createRecoveryFile_def act_defs onWorld_def onStore_def split: prod.splits sum.splits if_splits)

lemma restoreRecoveryFile_steps:
  assumes "JSON_parse fileText = Inr f" "decryptRecoveryFile P kdf f rcode = Inr entries"
    "mapR (entryField ''credential'') entries = Inr creds"
    "sealHolderKeys P (currentPasskeyId A s) (map (\<lambda>e. asStr (getField ''holderSeedHex'' e)) entries) w = (Inr (blobs, sel), w')"
    "storeAll A (fst (saveSelectedWebAuthnCredential A s sel TRANSPORTS)) (zip creds blobs) = (s', restored)"
  shows "restoreRecoveryFile A P kdf (\<lambda>op. op) fileText rcode (s, w) = (Inr restored, s', w')"
  using assms by (simp add: restoreRecoveryFile_def act_defs onWorld_def onStore_def)

lemma createRecoveryFile_succeeds:
  assumes "random_ok P" "listCredentials A s \<noteq> []" "wrappedKeys A s (listCredentials A s) = Inr wrapped"
    "openHolderKeys P (currentPasskeyId A s) wrapped w = (Inr (hexes, sel), w1)"
  shows "\<exists>ex d. createRecoveryFile A P kdf (\<lambda>op. op) (s, w) = (Inr ex, d) \<and> ex_count ex = length (listCredentials A s) \<and>
    length (normalizeRecoveryCode (ex_code ex)) = CODE_GROUPS * CODE_GROUP_LEN"
proof -
  obtain key pts where pts: "hexes = map bytesToHex pts"
    "mapR (\<lambda>blob. bindR (splitBlob ''Malformed wrapped holder key'' blob) (openParts P key)) wrapped = Inr pts"
    by (rule openHolderKeys_Inr[OF assms(4)])
  have "length hexes = length (listCredentials A s)"
    using pts(1) mapR_length[OF pts(2)] mapR_length[OF assms(3)[unfolded wrappedKeys_def]] by simp
  with assms(2) have ne: "map entryJson (zip (listCredentials A s) hexes) \<noteq> []" by (cases hexes; cases "listCredentials A s") auto
  obtain bs w2 where "pf_random P (CODE_GROUPS * CODE_GROUP_LEN) w1 = (Inr bs, w2)"
    using assms(1) unfolding random_ok_def by blast
  then obtain rcode where g: "generateRecoveryCode P w1 = (Inr rcode, w2)" by (simp add: generateRecoveryCode_def act_defs)
  note long = generated_code_long[OF g assms(1)]
  obtain f w3 where "encryptRecoveryFile P kdf (map entryJson (zip (listCredentials A s) hexes)) rcode w2 = (Inr f, w3)"
    using encrypt_succeeds[OF assms(1) ne, of rcode kdf w2] long by auto
  with assms(2-4) g long show ?thesis by (simp add: createRecoveryFile_def act_defs onWorld_def onStore_def)
qed

section \<open>Properties\<close>

text \<open>C31: The recovery file transports a wallet to a new device.  When the export of a well-formed wallet returned a file
  and a code, a device with another passkey restores from the file text and the code, typed in any letter case, with any
  separators and with the usual confusions of letters and digits, exactly the exported credentials: each is stored, and
  the keys stored with them open under the new device's passkey to the holder seeds the old device's passkey opened.\<close>

theorem recovery_restores_wallet:
  assumes "isBrowser s" "wallet_ok browserSA s" "list_all cred_wf (listCredentials browserSA s)"
    and "createRecoveryFile browserSA P kdf (\<lambda>op. op) (s, w) = (Inr ex, d)"
    and "normalizeRecoveryCode typed = normalizeRecoveryCode (ex_code ex)"
    and "gcm_correct Q" "random_ok Q" "pf_gcmSeal Q = pf_gcmSeal P"
    and "isBrowser t" "passkey_answers Q rawId prf (currentPasskeyId browserSA t)" "passkey_reached Q rawId prf j"
  shows "\<exists>t' v' wrapped hexes sel w'.
    restoreRecoveryFile browserSA Q kdf (\<lambda>op. op) (stringify (ex_file ex)) typed (t, v) = (Inr (listCredentials browserSA s), t', v') \<and>
    list_all (\<lambda>c. getCredential browserSA t' (wc_credentialId c) = Some c) (listCredentials browserSA s) \<and>
    wrappedKeys browserSA s (listCredentials browserSA s) = Inr wrapped \<and>
    openHolderKeys P (currentPasskeyId browserSA s) wrapped w = (Inr (hexes, sel), w') \<and>
    (\<exists>blobs. map (\<lambda>c. getCredentialKeyWrapped browserSA t' (wc_credentialId c)) (listCredentials browserSA s) = map Some blobs \<and>
       (\<forall>u. \<exists>u'. openHolderKeys Q j blobs u = (Inr (hexes, bufferToBase64url rawId), u')))"
proof -
  let ?creds = "listCredentials browserSA s"
  obtain wrapped hexes sel w1 w2 w3 where c: "wrappedKeys browserSA s ?creds = Inr wrapped"
    "openHolderKeys P (currentPasskeyId browserSA s) wrapped w = (Inr (hexes, sel), w1)"
    "encryptRecoveryFile P kdf (map entryJson (zip ?creds hexes)) (ex_code ex) w2 = (Inr (ex_file ex), w3)"
    by (rule createRecoveryFile_Inr[OF assms(4)])
  obtain key pts where pts: "hexes = map bytesToHex pts"
    "mapR (\<lambda>blob. bindR (splitBlob ''Malformed wrapped holder key'' blob) (openParts P key)) wrapped = Inr pts"
    by (rule openHolderKeys_Inr[OF c(2)])
  have len: "length hexes = length ?creds"
    using pts(1) mapR_length[OF pts(2)] mapR_length[OF c(1)[unfolded wrappedKeys_def]] by simp
  have f: "json_wf (ex_file ex)" "decryptRecoveryFile Q kdf (ex_file ex) typed = Inr (map entryJson (zip ?creds hexes))"
    using encrypted_file_opens[OF c(3) assms(6,8) entries_wf[OF assms(3)] assms(5)] by auto
  obtain blobs v' where b: "sealHolderKeys Q (currentPasskeyId browserSA t) (map Some hexes) v = (Inr (blobs, bufferToBase64url rawId), v')"
    "length blobs = length ?creds" "\<forall>u. \<exists>u'. openHolderKeys Q j blobs u = (Inr (hexes, bufferToBase64url rawId), u')"
    using sealed_keys_open[OF assms(6,7,10,11), of pts v] len pts(1) by (auto simp: comp_def)
  let ?t = "fst (saveSelectedWebAuthnCredential browserSA t (bufferToBase64url rawId) TRANSPORTS)"
  obtain t' restored where st: "storeAll browserSA ?t (zip (map (\<lambda>c. Some (credToJson c)) ?creds) blobs) = (t', restored)"
    by fastforce
  have bt: "isBrowser ?t" using assms(9) by (simp add: saveSelectedWebAuthnCredential_def Let_def saveWebAuthnCredential_def bsa.live_set)
  have dist: "distinct (map wc_credentialId ?creds)" using assms(2) bsa.list_ids[OF assms(2)] by (simp add: wallet_ok_def)
  note stored = storeAll_stores[OF bt assms(3) dist b(2) st]
  have "restoreRecoveryFile browserSA Q kdf (\<lambda>op. op) (stringify (ex_file ex)) typed (t, v) = (Inr ?creds, t', v')"
    using restoreRecoveryFile_steps[OF json.dec_enc[OF f(1)] f(2) entries_read(1)[OF len], of browserSA t v blobs _ v'] b(1) st stored
    by (simp add: entries_read(2)[OF len, simplified])
  moreover have "list_all (\<lambda>c. getCredential browserSA t' (wc_credentialId c) = Some c) ?creds"
    using stored dist by (auto simp: list_all_iff map_of_ids)
  moreover have "map (\<lambda>c. getCredentialKeyWrapped browserSA t' (wc_credentialId c)) ?creds = map Some blobs"
    using stored stored_keys[OF dist b(2)] by (auto simp: list_eq_iff_nth_eq)
  ultimately show ?thesis using c b(3) by blast
qed

text \<open>An export succeeds and is complete.  When the wallet holds a credential, every credential has its wrapped key and
  the passkey opens the keys, the export returns a file for all of them, and a code of thirty symbols of the alphabet,
  the length that deriving the key demands.\<close>

theorem recovery_export_succeeds:
  assumes "random_ok P" "listCredentials A s \<noteq> []" "wrappedKeys A s (listCredentials A s) = Inr wrapped"
    and "openHolderKeys P (currentPasskeyId A s) wrapped w = (Inr (hexes, sel), w1)"
  shows "\<exists>ex d. createRecoveryFile A P kdf (\<lambda>op. op) (s, w) = (Inr ex, d) \<and> ex_count ex = length (listCredentials A s) \<and>
    length (normalizeRecoveryCode (ex_code ex)) = CODE_GROUPS * CODE_GROUP_LEN"
  using assms by (rule createRecoveryFile_succeeds)

text \<open>What a recovery file must be to be opened.  \<open>decryptRecoveryFile\<close> returns entries only for a file of this version
  and key derivation whose iteration count is between 100,000 and 2,000,000, a code of at least thirty symbols, and a
  ciphertext that authenticates under the derived key with the domain tag as additional data; the entries are those of
  the decrypted payload.\<close>

theorem recovery_file_guarded:
  assumes "decryptRecoveryFile P kdf f rcode = Inr entries"
  shows "\<exists>k n salt iv ct pt. getField ''v'' f = Some (JStr FILE_VERSION) \<and> getField ''kdf'' f = Some k \<and>
    getField ''iterations'' k = Some (JNum n) \<and> 100000 \<le> n \<and> n \<le> 2000000 \<and>
    30 \<le> length (normalizeRecoveryCode rcode) \<and>
    pf_gcmOpen P (kdf (utf8Bytes (normalizeRecoveryCode rcode)) salt n) iv (utf8Bytes ''owlid:recovery-file:v1'') ct = Some pt \<and>
    readPayload pt = Inr entries"
proof -
  obtain k where k: "getField ''kdf'' f = Some k" "getField ''name'' k = Some (JStr ''PBKDF2'')"
    using assms by (cases "getField ''kdf'' f") (auto simp: decryptRecoveryFile_def Let_def split: if_splits)
  obtain n where n: "getField ''iterations'' k = Some (JNum n)" "MIN_ITERATIONS \<le> n" "n \<le> MAX_ITERATIONS"
    and rest: "bindR (bufferField (getField ''salt'' k)) (\<lambda>salt. bindR (deriveKey kdf rcode salt n) (\<lambda>key.
      bindR (openFile P key f) readPayload)) = Inr entries"
    using assms k by (cases "getField ''iterations'' k" rule: asNum.cases)
      (auto simp: decryptRecoveryFile_def Let_def split: if_splits)
  from rest obtain salt key pt where d: "deriveKey kdf rcode salt n = Inr key" "openFile P key f = Inr pt" "readPayload pt = Inr entries"
    by (auto simp: bindR_eq_Inr)
  from d(2) obtain iv ct where "pf_gcmOpen P key iv DOMAIN ct = Some pt"
    by (auto simp: openFile_def bindR_eq_Inr gcmDecrypt_def split: sum.splits option.splits)
  moreover have "getField ''v'' f = Some (JStr FILE_VERSION)"
    using assms by (simp add: decryptRecoveryFile_def split: if_splits)
  ultimately show ?thesis
    using d(1,3) n k(1) by (auto simp: deriveKey_def Let_def CODE_GROUPS_def CODE_GROUP_LEN_def DOMAIN_def
        MIN_ITERATIONS_def MAX_ITERATIONS_def split: if_splits)
qed

section \<open>Witnesses\<close>

lemma normalize_lower: "normalizeRecoveryCode (toLowerCase s) = normalizeRecoveryCode s"
proof -
  have "upperChar (lowerChar c) = upperChar c" for c
    by (auto simp: upperChar_def lowerChar_def isAsciiUpper_def isAsciiLower_def)
  then show ?thesis by (simp add: normalizeRecoveryCode_def toUpperCase_def toLowerCase_def comp_def)
qed

definition exKdf :: pbkdf2 where "exKdf c salt n = replicate 32 1"

definition exKeys :: "string" where "exKeys = blobOf ([3], exSeal (replicate 32 5) [3] [] [1, 2])"

definition exWallet :: browser where "exWallet = addCredential browserSA exBrowser exCred exKeys"

lemma exWallet_facts:
  "isBrowser exWallet" "wallet_ok browserSA exWallet" "listCredentials browserSA exWallet = [exCred]"
  "wrappedKeys browserSA exWallet [exCred] = Inr [exKeys]"
proof -
  show b: "isBrowser exWallet" unfolding exWallet_def by (rule bsa.live_add[OF exBrowser_facts(1)])
  show "wallet_ok browserSA exWallet"
    unfolding exWallet_def by (rule bsa.wallet_ok_add[OF exBrowser_facts(1) exCred_wf exBrowser_facts(3)])
  show "listCredentials browserSA exWallet = [exCred]"
    by (simp add: listCredentials_def exWallet_def bsa.readIndex_add exBrowser_facts bsa.getCredential_add exCred_wf)
  have "exKeys \<noteq> []" by (simp add: exKeys_def blobOf_def)
  then show "wrappedKeys browserSA exWallet [exCred] = Inr [exKeys]"
    by (simp add: wrappedKeys_def exWallet_def bsa.getKey_add exBrowser_facts)
qed

lemma exKeys_open: "\<exists>w'. openHolderKeys exPlatform None [exKeys] () = (Inr ([bytesToHex [1, 2]], bufferToBase64url [9]), w')"
proof -
  obtain w' where "prfAesKey exPlatform None HOLDER_KEY_PRF_SALT () = (Inr (replicate 32 5, bufferToBase64url [9]), w')"
    by (rule prfAesKey_answers[OF exPlatform_facts(2,3)])
  then show ?thesis
    using open_sealed[OF exPlatform_facts(1), of "[3]" _ "replicate 32 5" "[1, 2]"]
    by (simp add: openHolderKeys_def withPicker_def act_defs exKeys_def) (simp add: exPlatform_def returnA_def)
qed

lemma exWallet_passkey: "currentPasskeyId browserSA exWallet = None" "currentPasskeyId browserSA exBrowser = None"
  by (simp_all add: currentPasskeyId_def loadWebAuthnCredential_def exWallet_def bsa.getItem_add exBrowser_facts)
    (simp_all add: browserStorageAdapter_def exBrowser_def parseStored_def)

theorem recovery_export_succeeds_witness:
  "\<exists>ex d. createRecoveryFile browserSA exPlatform exKdf (\<lambda>op. op) (exWallet, ()) = (Inr ex, d) \<and> ex_count ex = 1"
proof -
  obtain w' where "openHolderKeys exPlatform None [exKeys] () = (Inr ([bytesToHex [1, 2]], bufferToBase64url [9]), w')"
    using exKeys_open by blast
  with recovery_export_succeeds[OF exPlatform_facts(2), of browserSA exWallet "[exKeys]" "()"] show ?thesis
    by (fastforce simp: exWallet_facts exWallet_passkey)
qed

theorem recovery_restores_wallet_witness:
  "\<exists>ex d t' v'. createRecoveryFile browserSA exPlatform exKdf (\<lambda>op. op) (exWallet, ()) = (Inr ex, d) \<and>
     restoreRecoveryFile browserSA exPlatform exKdf (\<lambda>op. op) (stringify (ex_file ex)) (toLowerCase (ex_code ex)) (exBrowser, ()) =
       (Inr [exCred], t', v')"
proof -
  obtain w' where o: "openHolderKeys exPlatform None [exKeys] () = (Inr ([bytesToHex [1, 2]], bufferToBase64url [9]), w')"
    using exKeys_open by blast
  obtain ex d where ex: "createRecoveryFile browserSA exPlatform exKdf (\<lambda>op. op) (exWallet, ()) = (Inr ex, d)"
    using createRecoveryFile_succeeds[OF exPlatform_facts(2), of browserSA exWallet "[exKeys]" "()"] o
    by (fastforce simp: exWallet_facts exWallet_passkey)
  have "list_all cred_wf (listCredentials browserSA exWallet)" by (simp add: exWallet_facts exCred_wf)
  from recovery_restores_wallet[OF exWallet_facts(1,2) this ex normalize_lower exPlatform_facts(1,2) refl exBrowser_facts(1)
      exPlatform_facts(3)[folded exWallet_passkey(2)] exPlatform_facts(4), of "()"]
  obtain t' v' where "restoreRecoveryFile browserSA exPlatform exKdf (\<lambda>op. op) (stringify (ex_file ex)) (toLowerCase (ex_code ex))
      (exBrowser, ()) = (Inr [exCred], t', v')" unfolding exWallet_facts by blast
  with ex show ?thesis by blast
qed

theorem recovery_file_guarded_witness:
  "\<exists>f w'. encryptRecoveryFile exPlatform exKdf [JNull] (replicate 30 (CHR ''A'')) () = (Inr f, w') \<and>
     getField ''v'' f = Some (JStr FILE_VERSION)"
proof -
  have c: "normalizeRecoveryCode (replicate 30 (CHR ''A'')) = replicate 30 (CHR ''A'')"
    by (rule normalize_symbols) (simp add: ALPHABET_def)
  obtain f w' where f: "encryptRecoveryFile exPlatform exKdf [JNull] (replicate 30 (CHR ''A'')) () = (Inr f, w')"
    by (rule encrypt_succeeds[OF exPlatform_facts(2), of "[JNull]" "replicate 30 (CHR ''A'')" exKdf "()"])
      (simp_all add: c CODE_GROUPS_def CODE_GROUP_LEN_def)
  have "decryptRecoveryFile exPlatform exKdf f (replicate 30 (CHR ''A'')) = Inr [JNull]"
    using encrypted_file_opens[OF f exPlatform_facts(1) refl] by simp
  from recovery_file_guarded[OF this] f show ?thesis by blast
qed

end
