(* ===== verification/Config.thy ===== *)
theory Config
  imports Owl_Prelude
begin

text \<open>
  Runtime configuration, \<open>packages/config/src/index.ts\<close>: where a setting is looked up, and how WebSocket URLs are made
  from it.  The environment is a record of the sources the code reads; an absent \<open>window\<close>, \<open>import.meta\<close> or
  \<open>process\<close> is a source without values.  The console warning about defaults is left out.
\<close>

section \<open>Settings\<close>

datatype configKey = VerificationUrl | IssuerUrl | ApiKey | WsBaseUrl | ProvingModeKey | ProofServerUrl

type_synonym runtimeConfig = "configKey \<Rightarrow> string option"

record configEnv =
  ce_memory :: runtimeConfig
  ce_window :: runtimeConfig
  ce_meta :: "string \<Rightarrow> string option"
  ce_process :: "string \<Rightarrow> string option"

definition configure :: "runtimeConfig \<Rightarrow> configEnv \<Rightarrow> configEnv" where
  "configure c E = E\<lparr>ce_memory := c\<rparr>"

definition nonEmpty :: "string option \<Rightarrow> bool" where
  "nonEmpty v \<longleftrightarrow> the_or [] v \<noteq> []"

fun firstSet :: "string option list \<Rightarrow> string option" where
  "firstSet [] = None"
| "firstSet (v # vs) = (if nonEmpty v then v else firstSet vs)"

definition readProcess :: "configEnv \<Rightarrow> string list \<Rightarrow> string option" where
  "readProcess E names = firstSet (map (ce_process E) names)"

definition owlidName :: "string \<Rightarrow> string" where
  "owlidName envName = (if startsWith envName ''VITE_'' then ''OWLID_'' @ drop 5 envName else envName)"

definition resolve :: "configEnv \<Rightarrow> configKey \<Rightarrow> string \<Rightarrow> string option \<Rightarrow> string option \<Rightarrow> string option" where
  "resolve E k envName dflt override =
     (if nonEmpty override then override
      else if nonEmpty (ce_memory E k) then ce_memory E k
      else if nonEmpty (ce_window E k) then ce_window E k
      else if nonEmpty (ce_meta E envName) then ce_meta E envName
      else if nonEmpty (readProcess E [envName, owlidName envName]) then readProcess E [envName, owlidName envName]
      else dflt)"

definition DEFAULT_VERIFICATION_URL :: string where "DEFAULT_VERIFICATION_URL = ''http://localhost:8000''"
definition DEFAULT_ISSUER_URL :: string where "DEFAULT_ISSUER_URL = ''http://localhost:8001''"

definition getVerificationUrl :: "configEnv \<Rightarrow> string option \<Rightarrow> string" where
  "getVerificationUrl E override =
     the_or [] (resolve E VerificationUrl ''VITE_VERIFICATION_URL'' (Some DEFAULT_VERIFICATION_URL) override)"

definition getIssuerUrl :: "configEnv \<Rightarrow> string option \<Rightarrow> string" where
  "getIssuerUrl E override = the_or [] (resolve E IssuerUrl ''VITE_ISSUER_URL'' (Some DEFAULT_ISSUER_URL) override)"

definition getApiKey :: "configEnv \<Rightarrow> string option \<Rightarrow> string option" where
  "getApiKey E override = resolve E ApiKey ''VITE_API_KEY'' None override"

definition apiKeyHeaders :: "string option \<Rightarrow> (string \<times> string) list" where
  "apiKeyHeaders key = (if nonEmpty key then [(''Authorization'', ''Bearer '' @ the key)] else [])"

definition getProofServerUrl :: "configEnv \<Rightarrow> string option \<Rightarrow> string option" where
  "getProofServerUrl E override = resolve E ProofServerUrl ''VITE_PROOF_SERVER_URL'' None override"

definition isProvingMode :: "string option \<Rightarrow> bool" where
  "isProvingMode v \<longleftrightarrow> v = Some ''wasm'' \<or> v = Some ''proof-server''"

definition getProvingMode :: "configEnv \<Rightarrow> string option \<Rightarrow> string" where
  "getProvingMode E override =
     the_or ''wasm''
       (if isProvingMode override then override
        else if isProvingMode (ce_memory E ProvingModeKey) then ce_memory E ProvingModeKey
        else if isProvingMode (ce_window E ProvingModeKey) then ce_window E ProvingModeKey
        else if isProvingMode (ce_meta E ''VITE_PROVING_MODE'') then ce_meta E ''VITE_PROVING_MODE''
        else if isProvingMode (readProcess E [''VITE_PROVING_MODE'', ''OWLID_PROVING_MODE''])
        then readProcess E [''VITE_PROVING_MODE'', ''OWLID_PROVING_MODE'']
        else None)"

section \<open>WebSocket URLs\<close>

text \<open>\<open>httpUrl.replace(/^http(s?):/i, 'ws$1:')\<close>.\<close>

definition toWsUrl :: "string \<Rightarrow> string" where
  "toWsUrl url =
     (if toLowerCase (take 5 url) = ''http:'' then ''ws:'' @ drop 5 url
      else if toLowerCase (take 6 url) = ''https:'' then ''ws'' @ [url ! 4] @ '':'' @ drop 6 url
      else url)"

definition getWsBaseUrl :: "configEnv \<Rightarrow> string option \<Rightarrow> string" where
  "getWsBaseUrl E override =
     (let explicit = resolve E WsBaseUrl ''VITE_WS_BASE_URL'' None override in
      if nonEmpty explicit then the explicit else toWsUrl (getVerificationUrl E None))"

text \<open>\<open>/^wss?:\/\//i\<close>.\<close>

definition isWsUrl :: "string \<Rightarrow> bool" where
  "isWsUrl u \<longleftrightarrow> startsWith (toLowerCase u) ''ws://'' \<or> startsWith (toLowerCase u) ''wss://''"

definition dropSlash :: "string \<Rightarrow> string" where
  "dropSlash u = (if u \<noteq> [] \<and> last u = CHR ''/'' then butlast u else u)"

definition resolveWsUrl :: "configEnv \<Rightarrow> string \<Rightarrow> string option \<Rightarrow> string" where
  "resolveWsUrl E pathOrUrl base =
     (if isWsUrl pathOrUrl then pathOrUrl
      else
        let wsBase = dropSlash (toWsUrl (case base of None \<Rightarrow> getWsBaseUrl E None | Some b \<Rightarrow> b));
            path = (if startsWith pathOrUrl ''/'' then pathOrUrl else ''/'' @ pathOrUrl)
        in wsBase @ path)"

section \<open>Properties\<close>

lemma resolve_nonEmpty: "nonEmpty dflt \<Longrightarrow> nonEmpty (resolve E k n dflt o')"
  by (simp add: resolve_def)

text \<open>A relative path is put under the configured base, with the scheme of a WebSocket and one slash in between; the
  result is absolute, so resolving it again changes nothing.\<close>

definition wsScheme :: "string \<Rightarrow> string option" where
  "wsScheme scheme =
     (if scheme = ''http://'' \<or> scheme = ''ws://'' then Some ''ws://''
      else if scheme = ''https://'' \<or> scheme = ''wss://'' then Some ''wss://'' else None)"

lemma lower_literals:
  "lowerChar CHR ''h'' = CHR ''h''" "lowerChar CHR ''t'' = CHR ''t''" "lowerChar CHR ''p'' = CHR ''p''"
  "lowerChar CHR ''s'' = CHR ''s''" "lowerChar CHR ''w'' = CHR ''w''" "lowerChar CHR '':'' = CHR '':''"
  "lowerChar CHR ''/'' = CHR ''/''"
  by code_simp+

lemma toWsUrl_scheme: "wsScheme scheme = Some ws \<Longrightarrow> toWsUrl (scheme @ rest) = ws @ rest"
  by (simp add: wsScheme_def split: if_splits; elim disjE; hypsubst; simp add: toWsUrl_def toLowerCase_def lower_literals)

lemma isWsUrl_ws: "wsScheme scheme = Some ws \<Longrightarrow> isWsUrl (ws @ rest)"
  by (simp add: wsScheme_def split: if_splits; hypsubst; simp add: isWsUrl_def startsWith_def toLowerCase_def lower_literals)

lemma resolveWsUrl_absolute:
  assumes "wsScheme scheme = Some ws" "rest \<noteq> []" "\<not> isWsUrl p"
  shows "resolveWsUrl E p (Some (scheme @ rest)) = ws @ dropSlash rest @ (if startsWith p ''/'' then p else ''/'' @ p)"
    and "resolveWsUrl E (resolveWsUrl E p (Some (scheme @ rest))) b = resolveWsUrl E p (Some (scheme @ rest))"
proof -
  have "dropSlash (ws @ rest) = ws @ dropSlash rest" using assms(2) by (simp add: dropSlash_def butlast_append)
  then show eq: "resolveWsUrl E p (Some (scheme @ rest)) = ws @ dropSlash rest @ (if startsWith p ''/'' then p else ''/'' @ p)"
    using assms(1,3) by (simp add: resolveWsUrl_def toWsUrl_scheme Let_def)
  show "resolveWsUrl E (resolveWsUrl E p (Some (scheme @ rest))) b = resolveWsUrl E p (Some (scheme @ rest))"
    unfolding eq using isWsUrl_ws[OF assms(1)] by (simp add: resolveWsUrl_def[of _ "_ @ _"])
qed

text \<open>A setting given later in the chain never hides one given earlier.\<close>

lemma resolve_order:
  "nonEmpty o' \<Longrightarrow> resolve E k n dflt o' = o'"
  "\<not> nonEmpty o' \<Longrightarrow> nonEmpty (c k) \<Longrightarrow> resolve (configure c E) k n dflt o' = c k"
  by (simp_all add: resolve_def configure_def)

end
