(* ===== verification/Presentation.thy ===== *)
theory Presentation
  imports Config Json
begin

text \<open>
  The presentation session between a verifier and a holder: the QR engagement of \<open>packages/sdk/src/presentation.ts\<close> and
  \<open>verifier/qr.ts\<close>, the holder's \<open>respondToPresentation\<close> of \<open>present.ts\<close>, and the verifier's \<open>runPresentationFlow\<close> of
  \<open>verifier/presentation-flow.ts\<close> with the session that \<open>OwlVerifier.openPresentation\<close> opens for it.

  Each side is a machine whose events are what its WebSocket, its timer and its awaited calls deliver.  A closed socket
  delivers no message and drops what is sent, and a settled promise ignores later settlements.  The wallet and the
  verification service are outside: an event carries the answer of a call, and the calls that were made are part of the
  state.  URL parsing is a parameter.  A legacy engagement is decoded as bytes, which is what the code computes for
  ASCII engagements.
\<close>

section \<open>Engagements\<close>

definition ENGAGEMENT_PREFIX_LEGACY :: string where "ENGAGEMENT_PREFIX_LEGACY = ''OWLP:''"
definition ENGAGEMENT_PREFIX_COMPACT :: string where "ENGAGEMENT_PREFIX_COMPACT = ''OWLP1:''"

definition encodeSessionEngagement :: "string \<Rightarrow> string" where
  "encodeSessionEngagement wsUrl = ENGAGEMENT_PREFIX_COMPACT @ wsUrl"

text \<open>\<open>urlPathname\<close> is \<open>new URL(u, 'wss://placeholder.invalid').pathname\<close>, or nothing when that throws.\<close>

definition sessionIdFromWsUrl :: "(string \<Rightarrow> string option) \<Rightarrow> string \<Rightarrow> string option" where
  "sessionIdFromWsUrl urlPathname wsUrl =
     (let path = the_or wsUrl (urlPathname wsUrl);
          segments = filter (\<lambda>t. t \<noteq> []) (splitOn (CHR ''/'') path)
      in if segments = [] then None else Some (last segments))"

definition compactEngagement :: "(string \<Rightarrow> string option) \<Rightarrow> string \<Rightarrow> json" where
  "compactEngagement urlPathname url =
     JObj [(''version'', JNum 1),
           (''ws'', JObj ((''url'', JStr url) #
              (case sessionIdFromWsUrl urlPathname url of None \<Rightarrow> [] | Some i \<Rightarrow> [(''sessionId'', JStr i)])))]"

definition decodeSessionEngagement :: "(string \<Rightarrow> string option) \<Rightarrow> string \<Rightarrow> json option" where
  "decodeSessionEngagement urlPathname qrData =
     (if startsWith qrData ENGAGEMENT_PREFIX_COMPACT then
        let url = drop (length ENGAGEMENT_PREFIX_COMPACT) qrData in
        if url = [] then None else Some (compactEngagement urlPathname url)
      else if startsWith qrData ENGAGEMENT_PREFIX_LEGACY then
        let b64 = replaceAll (CHR ''_'') (CHR ''/'') (replaceAll (CHR ''-'') (CHR ''+'') (drop (length ENGAGEMENT_PREFIX_LEGACY) qrData)) in
        (case bindR (atob b64) JSON_parse of Inl _ \<Rightarrow> None | Inr v \<Rightarrow> Some v)
      else None)"

definition isPresentationEngagement :: "string \<Rightarrow> bool" where
  "isPresentationEngagement qrData \<longleftrightarrow>
     startsWith qrData ENGAGEMENT_PREFIX_COMPACT \<or> startsWith qrData ENGAGEMENT_PREFIX_LEGACY"

definition isSdJwtVc :: "string \<Rightarrow> bool" where
  "isSdJwtVc v \<longleftrightarrow> startsWith v ''eyJ'' \<and> includesStr v ''~''"

text \<open>The QR payload of the verifier SDK.\<close>

definition encodeQrPayload :: "string \<Rightarrow> string \<Rightarrow> string \<Rightarrow> string" where
  "encodeQrPayload sessionId wsUrl nonce =
     bufferToBase64url (utf8Bytes (stringify (JObj [(''sessionId'', JStr sessionId), (''wsUrl'', JStr wsUrl), (''nonce'', JStr nonce)])))"

section \<open>Opening a session\<close>

record createdSession =
  cs_sessionId :: string
  cs_wsUrl :: string
  cs_nonce :: string
  cs_expiresIn :: int

record presentationSession = createdSession +
  ps_verifierWsUrl :: string
  ps_qrPayload :: string

text \<open>\<open>encodeURIComponent\<close> is a parameter; the session is what the service answered.\<close>

definition openPresentation ::
  "configEnv \<Rightarrow> (string \<Rightarrow> string) \<Rightarrow> string \<Rightarrow> string \<Rightarrow> createdSession res \<Rightarrow> presentationSession res" where
  "openPresentation E encodeURIComponent baseUrl apiKey answer =
     (if \<not> startsWith apiKey ''owlid_pk_'' then
        Inl (Error ''OwlVerifier.openPresentation requires an owlid_pk_* publishable key.'')
      else bindR answer (\<lambda>r. Inr
        \<lparr>cs_sessionId = cs_sessionId r, cs_wsUrl = cs_wsUrl r, cs_nonce = cs_nonce r, cs_expiresIn = cs_expiresIn r,
         ps_verifierWsUrl = resolveWsUrl E (cs_wsUrl r) (Some baseUrl) @ ''?role=verifier&apiKey='' @ encodeURIComponent apiKey,
         ps_qrPayload = encodeQrPayload (cs_sessionId r) (cs_wsUrl r) (cs_nonce r)\<rparr>))"

section \<open>Messages\<close>

definition wsMessage :: "string \<Rightarrow> json \<Rightarrow> string" where
  "wsMessage ty payload = stringify (JObj [(''type'', JStr ty), (''payload'', payload)])"

text \<open>A frame that is not JSON is ignored; so is one that is \<open>null\<close>, on which the handler throws.\<close>

definition readMessage :: "string \<Rightarrow> (string \<times> json option) option" where
  "readMessage frame =
     (case JSON_parse frame of
        Inl _ \<Rightarrow> None
      | Inr v \<Rightarrow> (case asStr (getField ''type'' v) of None \<Rightarrow> None | Some ty \<Rightarrow> Some (ty, getField ''payload'' v)))"

section \<open>The holder\<close>

record presentCall =
  pc_dcql :: "json option"
  pc_aud :: "json option"
  pc_nonce :: "json option"
  pc_verifierId :: "json option"

record presented =
  pd_vpToken :: "(string \<times> string list) list"
  pd_used :: "json list"

datatype holderTask = Asking json | Presenting json

record holderFlow =
  hf_url :: string
  hf_open :: bool
  hf_settled :: "unit res option"
  hf_sent :: "string list"
  hf_tasks :: "(nat \<times> holderTask) list"
  hf_next :: nat
  hf_calls :: "presentCall list"

datatype holderEvent =
    HTimeout
  | HError
  | HClosed
  | HMessage string
  | HConsent nat "bool res"
  | HPresented nat "presented res"

definition settleH :: "unit res \<Rightarrow> holderFlow \<Rightarrow> holderFlow" where
  "settleH r s = s\<lparr>hf_settled := (case hf_settled s of None \<Rightarrow> Some r | Some q \<Rightarrow> Some q)\<rparr>"

definition sendH :: "string \<Rightarrow> holderFlow \<Rightarrow> holderFlow" where
  "sendH m s = (if hf_open s then s\<lparr>hf_sent := hf_sent s @ [m]\<rparr> else s)"

definition cleanupH :: "holderFlow \<Rightarrow> holderFlow" where
  "cleanupH s = s\<lparr>hf_open := False\<rparr>"

definition vpTokenJson :: "(string \<times> string list) list \<Rightarrow> json" where
  "vpTokenJson vp = JObj (map (\<lambda>(k, vs). (k, JArr (map JStr vs))) vp)"

definition responseJson :: "json \<Rightarrow> presented \<Rightarrow> json" where
  "responseJson req r = JObj
     ((case getField ''sessionId'' req of None \<Rightarrow> [] | Some v \<Rightarrow> [(''sessionId'', v)]) @
      [(''vpToken'', vpTokenJson (pd_vpToken r)), (''used'', JArr (pd_used r))])"

definition proofFailedMessage :: string where
  "proofFailedMessage = wsMessage ''proof_failed'' (JObj [(''code'', JStr ''proof_failed'')])"

text \<open>The call of \<open>wallet.present\<close>; reading a property of a \<open>null\<close> request throws before the call.\<close>

definition startPresent :: "nat \<Rightarrow> json \<Rightarrow> holderFlow \<Rightarrow> holderFlow" where
  "startPresent n req s =
     (if req = JNull then settleH (Inl (TypeError ''Cannot read properties of null'')) (cleanupH (sendH proofFailedMessage s))
      else s\<lparr>hf_tasks := (n, Presenting req) # hf_tasks s,
             hf_calls := hf_calls s @ [\<lparr>pc_dcql = getField ''dcql'' req, pc_aud = getField ''verifierName'' req,
                                        pc_nonce = getField ''nonce'' req, pc_verifierId = getField ''verifierId'' req\<rparr>]\<rparr>)"

definition dropTask :: "nat \<Rightarrow> holderFlow \<Rightarrow> holderFlow" where
  "dropTask n s = s\<lparr>hf_tasks := filter (\<lambda>t. fst t \<noteq> n) (hf_tasks s)\<rparr>"

text \<open>\<open>asks\<close> says whether the host gave \<open>onConsent\<close>.  An \<open>onConsent\<close> that throws ends its handler and nothing else.\<close>

fun holderStep :: "bool \<Rightarrow> int \<Rightarrow> holderFlow \<Rightarrow> holderEvent \<Rightarrow> holderFlow" where
  "holderStep asks timeoutMs s HTimeout =
     (if hf_settled s \<noteq> None then s
      else settleH (Inl (Error (''Presentation timed out after '' @ showInt timeoutMs @ ''ms''))) (cleanupH s))"
| "holderStep asks timeoutMs s HError = settleH (Inl (Error ''Presentation WebSocket error'')) (cleanupH s)"
| "holderStep asks timeoutMs s HClosed = cleanupH s"
| "holderStep asks timeoutMs s (HMessage frame) =
     (if \<not> hf_open s then s
      else case readMessage frame of
             None \<Rightarrow> s
           | Some (ty, payload) \<Rightarrow>
               if ty \<noteq> ''request'' then s
               else let n = hf_next s; req = the_or JNull payload; s' = s\<lparr>hf_next := Suc n\<rparr> in
                    if asks then s'\<lparr>hf_tasks := (n, Asking req) # hf_tasks s'\<rparr> else startPresent n req s')"
| "holderStep asks timeoutMs s (HConsent n r) =
     (case map_of (hf_tasks s) n of
        Some (Asking req) \<Rightarrow>
          let s' = dropTask n s in
          (case r of
             Inl e \<Rightarrow> s'
           | Inr approved \<Rightarrow>
               if \<not> approved then settleH (Inr ()) (cleanupH (sendH (wsMessage ''consent_denied'' JNull) s'))
               else startPresent n req s')
      | _ \<Rightarrow> s)"
| "holderStep asks timeoutMs s (HPresented n r) =
     (case map_of (hf_tasks s) n of
        Some (Presenting req) \<Rightarrow>
          let s' = dropTask n s in
          (case r of
             Inr res \<Rightarrow> settleH (Inr ()) (cleanupH (sendH (wsMessage ''response'' (responseJson req res)) s'))
           | Inl e \<Rightarrow> settleH (Inl e) (cleanupH (sendH proofFailedMessage s')))
      | _ \<Rightarrow> s)"

text \<open>Starting the flow: the checks on the QR payload and the URL that is opened.\<close>

definition respondToPresentation :: "configEnv \<Rightarrow> (string \<Rightarrow> string option) \<Rightarrow> string \<Rightarrow> holderFlow res" where
  "respondToPresentation E urlPathname qrPayload =
     (if \<not> isPresentationEngagement qrPayload then Inl (Error ''QR payload is not a valid presentation engagement'')
      else case decodeSessionEngagement urlPathname qrPayload of
             None \<Rightarrow> Inl (Error ''Engagement is missing a WebSocket transport'')
           | Some e \<Rightarrow>
               (case getField ''ws'' e of
                  None \<Rightarrow> Inl (Error ''Engagement is missing a WebSocket transport'')
                | Some JNull \<Rightarrow> Inl (Error ''Engagement is missing a WebSocket transport'')
                | Some ws \<Rightarrow>
                    (case asStr (getField ''url'' ws) of
                       None \<Rightarrow> Inl (TypeError ''startsWith is not a function'')
                     | Some url \<Rightarrow> Inr \<lparr>hf_url = resolveWsUrl E url None @ ''?role=holder'', hf_open = True, hf_settled = None,
                                         hf_sent = [], hf_tasks = [], hf_next = 0, hf_calls = []\<rparr>)))"

section \<open>The verifier\<close>

record flowOptions =
  fo_verifierName :: string
  fo_verifierId :: "string option"
  fo_dcql :: json
  fo_timeoutMs :: int

record verifyResult =
  vr_valid :: bool
  vr_error :: "string option"

record verifyCall =
  vc_vpToken :: json
  vc_challenge :: string
  vc_audience :: string
  vc_query :: json
  vc_verifierId :: "string option"

record verifierFlow =
  vf_open :: bool
  vf_timer :: bool
  vf_settled :: "verifyResult res option"
  vf_sent :: "string list"
  vf_calls :: "verifyCall list"
  vf_verifying :: bool

datatype verifierEvent =
    VTimeout
  | VError
  | VClosed
  | VMessage string
  | VVerified "verifyResult res"

definition failResult :: "string \<Rightarrow> verifyResult" where
  "failResult err = \<lparr>vr_valid = False, vr_error = Some err\<rparr>"

definition requestPayload :: "presentationSession \<Rightarrow> flowOptions \<Rightarrow> int \<Rightarrow> json" where
  "requestPayload session o' ts = JObj
     ([(''sessionId'', JStr (cs_sessionId session)), (''verifierName'', JStr (fo_verifierName o'))] @
      (case fo_verifierId o' of None \<Rightarrow> [] | Some i \<Rightarrow> [(''verifierId'', JStr i)]) @
      [(''dcql'', fo_dcql o'), (''nonce'', JStr (cs_nonce session)), (''timestamp'', JNum ts)])"

definition settleV :: "verifyResult res \<Rightarrow> verifierFlow \<Rightarrow> verifierFlow" where
  "settleV r s = s\<lparr>vf_settled := (case vf_settled s of None \<Rightarrow> Some r | Some q \<Rightarrow> Some q)\<rparr>"

definition cleanupV :: "verifierFlow \<Rightarrow> verifierFlow" where
  "cleanupV s = s\<lparr>vf_open := False, vf_timer := False\<rparr>"

text \<open>\<open>(msg.payload ?? {}).field ?? default\<close>.\<close>

definition payloadField :: "string \<Rightarrow> json option \<Rightarrow> json option" where
  "payloadField k payload =
     (case getField k (the_or JNull payload) of Some JNull \<Rightarrow> None | v \<Rightarrow> v)"

definition onVerifierMessage :: "presentationSession \<Rightarrow> flowOptions \<Rightarrow> int \<Rightarrow> string \<Rightarrow> json option \<Rightarrow> verifierFlow \<Rightarrow> verifierFlow" where
  "onVerifierMessage session o' ts ty payload s =
     (if ty = ''session_ready'' then s\<lparr>vf_sent := vf_sent s @ [wsMessage ''request'' (requestPayload session o' ts)]\<rparr>
      else if ty = ''response'' then
        (cleanupV s)\<lparr>vf_verifying := True,
          vf_calls := vf_calls s @ [\<lparr>vc_vpToken = the_or (JObj []) (payloadField ''vpToken'' payload), vc_challenge = cs_nonce session,
                                     vc_audience = fo_verifierName o', vc_query = fo_dcql o', vc_verifierId = fo_verifierId o'\<rparr>]\<rparr>
      else if ty = ''consent_denied'' then settleV (Inr (failResult ''Holder denied consent'')) (cleanupV s)
      else if ty = ''proof_failed'' then settleV (Inr (failResult ''Holder reported proof failure'')) (cleanupV s)
      else if ty = ''error'' then
        settleV (Inr (failResult (the_or ''Presentation error'' (asStr (payloadField ''message'' payload))))) (cleanupV s)
      else s)"

text \<open>\<open>ts\<close> is the time at which the request was built.\<close>

fun verifierStep :: "presentationSession \<Rightarrow> flowOptions \<Rightarrow> int \<Rightarrow> verifierFlow \<Rightarrow> verifierEvent \<Rightarrow> verifierFlow" where
  "verifierStep session o' ts s VTimeout =
     (if vf_timer s
      then settleV (Inl (Error (''Presentation timed out after '' @ showInt (fo_timeoutMs o') @ ''ms''))) (cleanupV s) else s)"
| "verifierStep session o' ts s VError = settleV (Inl (Error ''Presentation WebSocket error'')) (cleanupV s)"
| "verifierStep session o' ts s VClosed = cleanupV s"
| "verifierStep session o' ts s (VMessage frame) =
     (if \<not> vf_open s then s
      else case readMessage frame of None \<Rightarrow> s | Some (ty, payload) \<Rightarrow> onVerifierMessage session o' ts ty payload s)"
| "verifierStep session o' ts s (VVerified r) =
     (if vf_verifying s then settleV r (s\<lparr>vf_verifying := False\<rparr>) else s)"

definition runPresentationFlow :: verifierFlow where
  "runPresentationFlow =
     \<lparr>vf_open = True, vf_timer = True, vf_settled = None, vf_sent = [], vf_calls = [], vf_verifying = False\<rparr>"

section \<open>Lemmas\<close>

lemmas holder_ops = settleH_def sendH_def cleanupH_def dropTask_def startPresent_def

lemmas verifier_ops = settleV_def cleanupV_def onVerifierMessage_def

text \<open>A text that starts with a brace has a base64url form that starts with \<open>e\<close>.\<close>

lemma base64url_brace: "\<exists>r. bufferToBase64url (utf8Bytes (CHR ''{'' # CHR 0x22 # c # s)) = CHR ''e'' # r"
proof -
  have "b64char 30 = CHR ''e''" by code_simp
  then show ?thesis
    by (simp add: bufferToBase64url_eq b64urlEncode_eq b64body_def utf8Bytes_def comp_def urlsafe_def replaceAll_def)
qed

lemma encodeQrPayload_hd: "\<exists>r. encodeQrPayload i u n = CHR ''e'' # r"
  using base64url_brace[of "CHR ''s''"] by (simp add: encodeQrPayload_def quote_def escChar_def)

lemma respond_compact:
  assumes "url \<noteq> []"
  shows "\<exists>s. respondToPresentation E urlPathname (encodeSessionEngagement url) = Inr s \<and>
    hf_url s = resolveWsUrl E url None @ ''?role=holder'' \<and> hf_open s"
proof -
  have "decodeSessionEngagement urlPathname (encodeSessionEngagement url) = Some (compactEngagement urlPathname url)"
    using assms by (simp add: decodeSessionEngagement_def encodeSessionEngagement_def)
  moreover have "isPresentationEngagement (encodeSessionEngagement url)"
    by (simp add: isPresentationEngagement_def encodeSessionEngagement_def)
  ultimately show ?thesis by (simp add: respondToPresentation_def compactEngagement_def)
qed

lemma readMessage_wsMessage: "json_wf payload \<Longrightarrow> readMessage (wsMessage ty payload) = Some (ty, Some payload)"
proof -
  assume "json_wf payload"
  then have "JSON_parse (wsMessage ty payload) = Inr (JObj [(''type'', JStr ty), (''payload'', payload)])"
    unfolding wsMessage_def by (intro json.dec_enc) simp
  then show ?thesis by (simp add: readMessage_def)
qed

text \<open>The holder: a frame is on the wire only once the socket has been closed after it.\<close>

definition holderInv :: "holderFlow \<Rightarrow> bool" where
  "holderInv s \<longleftrightarrow>
     (hf_open s \<longrightarrow> hf_sent s = [] \<and> hf_settled s = None) \<and> length (hf_sent s) \<le> 1 \<and> (hf_sent s \<noteq> [] \<longrightarrow> hf_settled s \<noteq> None)"

lemma holderInv_finish: "holderInv s \<Longrightarrow> holderInv (settleH r (cleanupH (sendH m s)))"
  by (auto simp: holderInv_def holder_ops split: option.splits)

lemma holderInv_cleanup: "holderInv s \<Longrightarrow> holderInv (cleanupH s)" "holderInv s \<Longrightarrow> holderInv (settleH r (cleanupH s))"
  by (auto simp: holderInv_def holder_ops split: option.splits)

lemma holderInv_drop: "holderInv s \<Longrightarrow> holderInv (dropTask n s)"
  by (auto simp: holderInv_def holder_ops)

lemma holderInv_start: "holderInv s \<Longrightarrow> holderInv (startPresent n req s)"
  using holderInv_finish[of s] by (cases "req = JNull") (simp_all add: startPresent_def holderInv_def)

lemmas holderInv_intros = holderInv_cleanup holderInv_finish holderInv_drop holderInv_start

interpretation holder: event_machine "holderStep asks timeoutMs" holderInv for asks timeoutMs
proof
  fix s e assume i: "holderInv s"
  show "holderInv (holderStep asks timeoutMs s e)"
  proof (cases e)
    case (HMessage frame)
    have new: "holderInv (s\<lparr>hf_next := n\<rparr>)" "holderInv (s\<lparr>hf_next := n, hf_tasks := (k, Asking req) # hf_tasks s\<rparr>)" for n k req
      using i by (auto simp: holderInv_def)
    show ?thesis
      using i new holderInv_start[OF new(1)] by (auto simp: HMessage Let_def split: option.splits)
  next
    case (HConsent n r)
    show ?thesis
      using i by (auto simp: HConsent Let_def split: option.splits holderTask.splits sum.splits intro: holderInv_intros)
  next
    case (HPresented n r)
    show ?thesis
      using i by (auto simp: HPresented Let_def split: option.splits holderTask.splits sum.splits intro: holderInv_intros)
  qed (use i in \<open>auto intro!: holderInv_cleanup\<close>)
qed

text \<open>What happened to the holder, read off the events alone: the requests that were delivered, in order (the \<open>n\<close>-th of
  them is the one that consent dialog \<open>n\<close> and wallet call \<open>n\<close> are about), and whether the holder approved the \<open>n\<close>-th
  after it had arrived.\<close>

fun requestsIn :: "holderEvent list \<Rightarrow> json list" where
  "requestsIn [] = []"
| "requestsIn (HMessage frame # es) =
     (case readMessage frame of
        Some (ty, payload) \<Rightarrow> if ty = ''request'' then the_or JNull payload # requestsIn es else requestsIn es
      | None \<Rightarrow> requestsIn es)"
| "requestsIn (e # es) = requestsIn es"

definition approvedIn :: "nat \<Rightarrow> holderEvent list \<Rightarrow> bool" where
  "approvedIn n es \<longleftrightarrow> (\<exists>fs gs. es = fs @ HConsent n (Inr True) # gs \<and> n < length (requestsIn fs))"

text \<open>The events that may put the frame \<open>m\<close> on the wire, after the events \<open>fs\<close>.\<close>

fun causes :: "bool \<Rightarrow> holderEvent list \<Rightarrow> holderEvent \<Rightarrow> string \<Rightarrow> bool" where
  "causes asks fs (HPresented n r) m =
     (n < length (requestsIn fs) \<and> (asks \<longrightarrow> approvedIn n fs) \<and>
      m = (case r of Inr res \<Rightarrow> wsMessage ''response'' (responseJson (requestsIn fs ! n) res) | Inl e \<Rightarrow> proofFailedMessage))"
| "causes asks fs (HConsent n r) m =
     (asks \<and> n < length (requestsIn fs) \<and>
      (r = Inr False \<and> m = wsMessage ''consent_denied'' JNull \<or> r = Inr True \<and> requestsIn fs ! n = JNull \<and> m = proofFailedMessage))"
| "causes asks fs (HMessage frame) m =
     (\<not> asks \<and> (\<exists>payload. readMessage frame = Some (''request'', payload) \<and> the_or JNull payload = JNull) \<and> m = proofFailedMessage)"
| "causes asks fs e m = False"

definition answerOf :: "bool \<Rightarrow> holderEvent list \<Rightarrow> string \<Rightarrow> bool" where
  "answerOf asks es m \<longleftrightarrow> (\<exists>fs e gs. es = fs @ e # gs \<and> causes asks fs e m)"

definition callFor :: "json \<Rightarrow> presentCall" where
  "callFor req = \<lparr>pc_dcql = getField ''dcql'' req, pc_aud = getField ''verifierName'' req,
     pc_nonce = getField ''nonce'' req, pc_verifierId = getField ''verifierId'' req\<rparr>"

definition calledFor :: "bool \<Rightarrow> holderEvent list \<Rightarrow> presentCall \<Rightarrow> bool" where
  "calledFor asks es c \<longleftrightarrow> (\<exists>n < length (requestsIn es). (asks \<longrightarrow> approvedIn n es) \<and> c = callFor (requestsIn es ! n))"

fun taskFrom :: "bool \<Rightarrow> holderEvent list \<Rightarrow> nat \<times> holderTask \<Rightarrow> bool" where
  "taskFrom asks es (n, Asking req) = (asks \<and> n < length (requestsIn es) \<and> req = requestsIn es ! n)"
| "taskFrom asks es (n, Presenting req) =
     (n < length (requestsIn es) \<and> req = requestsIn es ! n \<and> (asks \<longrightarrow> approvedIn n es))"

definition holderTrace :: "bool \<Rightarrow> holderEvent list \<Rightarrow> holderFlow \<Rightarrow> bool" where
  "holderTrace asks es s \<longleftrightarrow>
     (hf_open s \<longrightarrow> hf_next s = length (requestsIn es)) \<and> list_all (taskFrom asks es) (hf_tasks s) \<and>
     list_all (answerOf asks es) (hf_sent s) \<and> list_all (calledFor asks es) (hf_calls s)"

lemma requestsIn_append: "requestsIn (es @ fs) = requestsIn es @ requestsIn fs"
  by (induction es rule: requestsIn.induct) (auto split: option.split)

lemma approvedIn_append: "approvedIn n es \<Longrightarrow> approvedIn n (es @ fs)"
  unfolding approvedIn_def by (metis append.assoc append_Cons)

lemma answerOf_append: "answerOf asks es m \<Longrightarrow> answerOf asks (es @ fs) m"
  unfolding answerOf_def by (metis append.assoc append_Cons)

lemma answerOf_last: "causes asks es e m \<Longrightarrow> answerOf asks (es @ [e]) m"
  unfolding answerOf_def by blast

lemma taskFrom_append: "taskFrom asks es t \<Longrightarrow> taskFrom asks (es @ fs) t"
  by (cases "(asks, es, t)" rule: taskFrom.cases) (auto simp: requestsIn_append nth_append intro: approvedIn_append)

lemma calledFor_append: "calledFor asks es c \<Longrightarrow> calledFor asks (es @ fs) c"
  unfolding calledFor_def requestsIn_append
  by (elim exE conjE, rename_tac n, rule_tac x = n in exI) (auto simp: nth_append intro: approvedIn_append)

lemma holderTrace_append:
  "holderTrace asks es s \<Longrightarrow> (hf_open s \<Longrightarrow> requestsIn fs = []) \<Longrightarrow> holderTrace asks (es @ fs) s"
  unfolding holderTrace_def requestsIn_append
  by (auto simp: list_all_iff intro: taskFrom_append answerOf_append calledFor_append)

lemma holderTrace_cleanup: "holderTrace asks es s \<Longrightarrow> holderTrace asks es (cleanupH s)"
  and holderTrace_settle: "holderTrace asks es s \<Longrightarrow> holderTrace asks es (settleH r s)"
  and holderTrace_send: "holderTrace asks es s \<Longrightarrow> answerOf asks es m \<Longrightarrow> holderTrace asks es (sendH m s)"
  and holderTrace_drop: "holderTrace asks es s \<Longrightarrow> holderTrace asks es (dropTask n s)"
  by (auto simp: holderTrace_def holder_ops list_all_iff)

lemma holderTrace_start:
  assumes "holderTrace asks es s" "n < length (requestsIn es)" "asks \<longrightarrow> approvedIn n es"
    and "requestsIn es ! n = JNull \<Longrightarrow> answerOf asks es proofFailedMessage"
  shows "holderTrace asks es (startPresent n (requestsIn es ! n) s)"
proof (cases "requestsIn es ! n = JNull")
  case True
  then show ?thesis using assms(1,4)
    by (simp add: startPresent_def holderTrace_send holderTrace_cleanup holderTrace_settle)
next
  case False
  have "calledFor asks es (callFor (requestsIn es ! n))" using assms(2,3) unfolding calledFor_def by blast
  with False assms(1-3) show ?thesis by (simp add: startPresent_def holderTrace_def callFor_def)
qed

lemma holderTrace_task:
  "holderTrace asks es s \<Longrightarrow> map_of (hf_tasks s) n = Some t \<Longrightarrow> taskFrom asks es (n, t)"
  unfolding holderTrace_def by (auto simp: list_all_iff dest: map_of_SomeD)

lemma holderTrace_message:
  assumes "holderTrace asks es s" "hf_open s" "readMessage frame = Some (''request'', payload)"
  shows "holderTrace asks (es @ [HMessage frame]) (holderStep asks timeoutMs s (HMessage frame))"
proof -
  let ?req = "the_or JNull payload" and ?es = "es @ [HMessage frame]" and ?n = "hf_next s"
  have n: "?n = length (requestsIn es)" using assms(1,2) by (simp add: holderTrace_def)
  have reqs: "requestsIn ?es = requestsIn es @ [?req]" using assms(3) by (simp add: requestsIn_append)
  have base: "holderTrace asks ?es (s\<lparr>hf_next := Suc ?n\<rparr>)"
    using assms(1) reqs n unfolding holderTrace_def
    by (auto simp: list_all_iff intro: taskFrom_append answerOf_append calledFor_append)
  have req: "?n < length (requestsIn ?es)" "requestsIn ?es ! ?n = ?req" using reqs n by (simp_all add: nth_append)
  show ?thesis
  proof (cases asks)
    case True
    then show ?thesis using base req assms(2,3) by (auto simp: Let_def holderTrace_def)
  next
    case False
    then have "?req = JNull \<Longrightarrow> answerOf asks ?es proofFailedMessage" using assms(3) by (intro answerOf_last) auto
    then show ?thesis using False holderTrace_start[OF base req(1)] req(2) assms(2,3) by (simp add: Let_def)
  qed
qed

lemma holderTrace_consent:
  assumes "holderTrace asks es s"
  shows "holderTrace asks (es @ [HConsent n r]) (holderStep asks timeoutMs s (HConsent n r))"
proof -
  let ?es = "es @ [HConsent n r]"
  have reqs: "requestsIn ?es = requestsIn es" by (simp add: requestsIn_append)
  have base: "holderTrace asks ?es s" using holderTrace_append[OF assms, of "[HConsent n r]"] by simp
  show ?thesis
  proof (cases "map_of (hf_tasks s) n")
    case None
    with base show ?thesis by simp
  next
    case (Some t)
    show ?thesis
    proof (cases t)
      case (Presenting req)
      with base Some show ?thesis by simp
    next
      case (Asking req)
      then have n: "n < length (requestsIn es)" "req = requestsIn es ! n" using holderTrace_task[OF assms Some] by simp_all
      have asks: asks using assms Some Asking by (auto dest: holderTrace_task)
      have denied: "answerOf asks ?es (wsMessage ''consent_denied'' JNull)" if "r = Inr False"
        by (rule answerOf_last) (use that n(1) asks in simp)
      have failed: "answerOf asks ?es proofFailedMessage" if "r = Inr True" "requestsIn es ! n = JNull"
        by (rule answerOf_last) (use that n(1) asks in simp)
      have approved: "approvedIn n ?es" if "r = Inr True" unfolding approvedIn_def using that n(1) by blast
      have start: "holderTrace asks ?es (startPresent n req (dropTask n s))" if "r = Inr True"
        using holderTrace_start[OF holderTrace_drop[OF base, of n], of n] n approved[OF that] failed[OF that] by (simp add: reqs)
      show ?thesis
      proof (cases r)
        case (Inr b)
        then show ?thesis using Some Asking base denied start
          by (cases b) (simp_all add: Let_def holderTrace_settle holderTrace_cleanup holderTrace_send holderTrace_drop)
      qed (use Some Asking base in \<open>simp add: Let_def holderTrace_drop\<close>)
    qed
  qed
qed

lemma holderTrace_presented:
  assumes "holderTrace asks es s"
  shows "holderTrace asks (es @ [HPresented n r]) (holderStep asks timeoutMs s (HPresented n r))"
proof -
  let ?es = "es @ [HPresented n r]"
  have base: "holderTrace asks ?es s" using holderTrace_append[OF assms, of "[HPresented n r]"] by simp
  show ?thesis
  proof (cases "map_of (hf_tasks s) n")
    case None
    with base show ?thesis by simp
  next
    case (Some t)
    show ?thesis
    proof (cases t)
      case (Asking req)
      with base Some show ?thesis by simp
    next
      case (Presenting req)
      then have n: "n < length (requestsIn es)" "req = requestsIn es ! n" "asks \<longrightarrow> approvedIn n es"
        using holderTrace_task[OF assms Some] by simp_all
      have "answerOf asks ?es (case r of Inr x \<Rightarrow> wsMessage ''response'' (responseJson req x) | Inl e \<Rightarrow> proofFailedMessage)"
        unfolding n(2) by (rule answerOf_last) (use n(1,3) in simp)
      then show ?thesis using Some Presenting base
        by (cases r) (simp_all add: Let_def holderTrace_settle holderTrace_cleanup holderTrace_send holderTrace_drop)
    qed
  qed
qed

lemma holderTrace_run:
  assumes "holderTrace asks [] s"
  shows "holderTrace asks es (run_events (holderStep asks timeoutMs) s es)"
proof (induction es rule: rev_induct)
  case Nil
  show ?case using assms by simp
next
  case (snoc e es)
  let ?s = "run_events (holderStep asks timeoutMs) s es"
  have plain: "holderTrace asks (es @ [e]) ?s" if "hf_open ?s \<Longrightarrow> requestsIn [e] = []"
    using holderTrace_append[OF snoc] that by blast
  have "holderTrace asks (es @ [e]) (holderStep asks timeoutMs ?s e)"
  proof (cases e)
    case (HMessage frame)
    then show ?thesis
      using plain holderTrace_message[OF snoc, of frame]
      by (cases "hf_open ?s"; cases "readMessage frame") (auto simp: Let_def split: if_splits)
  qed (use plain holderTrace_consent[OF snoc] holderTrace_presented[OF snoc] in
      \<open>auto intro: holderTrace_settle holderTrace_cleanup\<close>)
  then show ?case by (simp add: run_events_append)
qed

text \<open>The verifier.\<close>

definition callOf :: "presentationSession \<Rightarrow> flowOptions \<Rightarrow> verifyCall \<Rightarrow> bool" where
  "callOf session o' c \<longleftrightarrow>
     vc_challenge c = cs_nonce session \<and> vc_audience c = fo_verifierName o' \<and> vc_query c = fo_dcql o' \<and>
     vc_verifierId c = fo_verifierId o'"

definition verifierInv :: "presentationSession \<Rightarrow> flowOptions \<Rightarrow> int \<Rightarrow> verifyResult res list \<Rightarrow> verifierFlow \<Rightarrow> bool" where
  "verifierInv session o' ts results s \<longleftrightarrow>
     (vf_open s \<longrightarrow> vf_timer s \<and> vf_settled s = None \<and> vf_calls s = [] \<and> \<not> vf_verifying s) \<and>
     (vf_timer s \<longrightarrow> vf_open s) \<and> length (vf_calls s) \<le> 1 \<and> list_all (callOf session o') (vf_calls s) \<and>
     (vf_verifying s \<longrightarrow> vf_calls s \<noteq> []) \<and>
     list_all (\<lambda>m. m = wsMessage ''request'' (requestPayload session o' ts)) (vf_sent s) \<and>
     (\<forall>r. vf_settled s = Some (Inr r) \<longrightarrow> vr_valid r \<longrightarrow> vf_calls s \<noteq> [] \<and> Inr r \<in> set results)"

text \<open>The results the verification service has given in a run.\<close>

fun verdicts :: "verifierEvent list \<Rightarrow> verifyResult res list" where
  "verdicts [] = []"
| "verdicts (VVerified r # es) = r # verdicts es"
| "verdicts (e # es) = verdicts es"

lemma onVerifierMessage_inv:
  assumes "verifierInv session o' ts R s" "vf_open s"
  shows "verifierInv session o' ts R (onVerifierMessage session o' ts ty payload s)"
proof -
  have f: "vf_timer s" "vf_settled s = None" "vf_calls s = []" "\<not> vf_verifying s"
    "list_all (\<lambda>m. m = wsMessage ''request'' (requestPayload session o' ts)) (vf_sent s)"
    using assms by (simp_all add: verifierInv_def)
  have fail: "verifierInv session o' ts R (settleV (Inr (failResult err)) (cleanupV s))" for err
    using f by (simp add: verifierInv_def settleV_def cleanupV_def failResult_def)
  consider (ready) "ty = ''session_ready''" | (response) "ty = ''response''"
    | (other) "ty \<noteq> ''session_ready''" "ty \<noteq> ''response''" by blast
  then show ?thesis
  proof cases
    case ready
    then show ?thesis using f assms(2) by (simp add: onVerifierMessage_def verifierInv_def)
  next
    case response
    then show ?thesis using f by (simp add: onVerifierMessage_def verifierInv_def cleanupV_def callOf_def)
  next
    case other
    then show ?thesis using fail assms(1) by (simp add: onVerifierMessage_def)
  qed
qed

lemma verifierInv_step:
  assumes "verifierInv session o' ts R s" "set (verdicts [e]) \<subseteq> set R"
  shows "verifierInv session o' ts R (verifierStep session o' ts s e)"
proof (cases e)
  case (VMessage frame)
  then show ?thesis using assms onVerifierMessage_inv by (auto split: option.splits)
next
  case (VVerified r)
  show ?thesis using assms by (auto simp: VVerified verifierInv_def settleV_def split: option.splits)
qed (use assms in \<open>auto simp: verifierInv_def settleV_def cleanupV_def split: option.splits\<close>)

interpretation verifier: guarded_machine "verifierStep session o' ts" "verifierInv session o' ts R"
  "\<lambda>s e. set (verdicts [e]) \<subseteq> set R" for session o' ts R
  by unfold_locales (rule verifierInv_step)

lemma verdicts_allowed: "set (verdicts es) \<subseteq> set R \<Longrightarrow> allowed_run (\<lambda>s e. set (verdicts [e]) \<subseteq> set R) step s es"
proof (induction es arbitrary: s)
  case (Cons e es)
  then show ?case by (cases e) auto
qed simp

section \<open>Properties\<close>

text \<open>The QR payload the verifier SDK makes is never accepted by the holder SDK, while the compact form is.  For every
  session \<open>openPresentation\<close> opens, \<open>respondToPresentation\<close> rejects its \<open>qrPayload\<close>, which carries no engagement
  prefix; an engagement encoded with \<open>encodeSessionEngagement\<close> opens the holder's socket at the session's URL.\<close>

theorem sdk_qr_not_scannable:
  "(openPresentation E enc baseUrl apiKey answer = Inr session \<longrightarrow>
      respondToPresentation E' urlPathname (ps_qrPayload session) = Inl (Error ''QR payload is not a valid presentation engagement'')) \<and>
   (url \<noteq> [] \<longrightarrow>
      (\<exists>s. respondToPresentation E' urlPathname (encodeSessionEngagement url) = Inr s \<and>
         hf_url s = resolveWsUrl E' url None @ ''?role=holder'' \<and> hf_open s))"
proof (intro conjI impI)
  assume "openPresentation E enc baseUrl apiKey answer = Inr session"
  then obtain i u n where "ps_qrPayload session = encodeQrPayload i u n"
    by (auto simp: openPresentation_def bindR_eq_Inr split: if_splits)
  then obtain t where "ps_qrPayload session = CHR ''e'' # t" using encodeQrPayload_hd by metis
  then show "respondToPresentation E' urlPathname (ps_qrPayload session) = Inl (Error ''QR payload is not a valid presentation engagement'')"
    by (simp add: respondToPresentation_def isPresentationEngagement_def startsWith_iff ENGAGEMENT_PREFIX_COMPACT_def
        ENGAGEMENT_PREFIX_LEGACY_def)
next
  assume "url \<noteq> []"
  then show "\<exists>s. respondToPresentation E' urlPathname (encodeSessionEngagement url) = Inr s \<and>
      hf_url s = resolveWsUrl E' url None @ ''?role=holder'' \<and> hf_open s" by (rule respond_compact)
qed

text \<open>C33: The holder answers a session at most once, only with consent, and its call always ends.  Whatever the socket, the
  timer, the consent dialogs and the wallet deliver, and in whatever order, at most one message goes out.  A response
  goes out only when the wallet returned a presentation for a request that had been delivered, the one the response
  answers, and, when the host asks for consent, after the holder had approved that very request; a denial only when the
  holder declined a delivered request; the failure message, which carries no details, only when the wallet failed on a
  delivered and approved request or a request was \<open>null\<close>.  The wallet is asked to present only for such requests, with
  their own query, audience, nonce and verifier id.  And when the timer elapses the call is settled.\<close>

theorem holder_answers_once:
  assumes "respondToPresentation E urlPathname qrPayload = Inr s0"
  shows "let s = run_events (holderStep asks timeoutMs) s0 es in
    length (hf_sent s) \<le> 1 \<and> list_all (answerOf asks es) (hf_sent s) \<and> list_all (calledFor asks es) (hf_calls s) \<and>
    hf_settled (holderStep asks timeoutMs s HTimeout) \<noteq> None"
proof -
  have "holderInv s0" "holderTrace asks [] s0"
    using assms by (auto simp: respondToPresentation_def holderInv_def holderTrace_def split: if_splits option.splits json.splits)
  from holder.run_inv[OF this(1), of asks timeoutMs es] holderTrace_run[OF this(2), of es timeoutMs]
  show ?thesis by (auto simp: Let_def holderInv_def holderTrace_def settleH_def cleanupH_def split: option.splits)
qed

text \<open>C35: What the verifier accepts was verified for this session.  In every run of the flow there is at most one call of
  the verification service, with the nonce of the session and the verifier's own name, query and id; every request the
  flow sends is the one for the session; and the flow reports a valid result only when the service gave it.\<close>

theorem verifier_result_verified:
  "let s = run_events (verifierStep session o' ts) runPresentationFlow es in
     length (vf_calls s) \<le> 1 \<and>
     list_all (\<lambda>c. vc_challenge c = cs_nonce session \<and> vc_audience c = fo_verifierName o' \<and> vc_query c = fo_dcql o' \<and>
        vc_verifierId c = fo_verifierId o') (vf_calls s) \<and>
     list_all (\<lambda>m. m = wsMessage ''request'' (requestPayload session o' ts)) (vf_sent s) \<and>
     (\<forall>r. vf_settled s = Some (Inr r) \<longrightarrow> vr_valid r \<longrightarrow> vf_calls s \<noteq> [] \<and> Inr r \<in> set (verdicts es))"
proof -
  have "verifierInv session o' ts (verdicts es) runPresentationFlow" by (simp add: verifierInv_def runPresentationFlow_def)
  from verifier.guarded_run[OF this verdicts_allowed[OF subset_refl]]
  show ?thesis unfolding verifierInv_def Let_def callOf_def[abs_def] by blast
qed

definition abandoned :: "verifierFlow \<Rightarrow> bool" where
  "abandoned s \<longleftrightarrow> \<not> vf_open s \<and> \<not> vf_timer s \<and> \<not> vf_verifying s \<and> vf_settled s = None"

interpretation abandoned: guarded_machine "verifierStep session o' ts" abandoned "\<lambda>s e. e \<noteq> VError" for session o' ts
proof
  fix s e assume "abandoned s" "e \<noteq> VError"
  then show "abandoned (verifierStep session o' ts s e)" by (cases e) (auto simp: abandoned_def cleanupV_def)
qed

lemma no_error_allowed: "x \<notin> set es \<Longrightarrow> allowed_run (\<lambda>s e. e \<noteq> x) step s es"
  by (induction es arbitrary: s) auto

text \<open>A closed socket leaves the verifier waiting forever.  When the socket closes before the holder has answered, the
  flow's timer is cleared with it, and nothing that can still happen settles the promise (an error event precedes the
  close event of a socket, it never follows it).\<close>

theorem closed_socket_hangs:
  assumes "s = run_events (verifierStep session o' ts) runPresentationFlow es"
    and "vf_settled s = None" "\<not> vf_verifying s" "VError \<notin> set fs"
  shows "vf_settled (run_events (verifierStep session o' ts) (verifierStep session o' ts s VClosed) fs) = None"
proof -
  have "abandoned (verifierStep session o' ts s VClosed)" using assms(2,3) by (simp add: abandoned_def cleanupV_def)
  from abandoned.guarded_run[OF this no_error_allowed[OF assms(4)]] show ?thesis by (simp add: abandoned_def)
qed

text \<open>C32: A whole session.  The holder scans the compact engagement of a session the verifier opened and connects to the
  session's URL as holder.  When the messages of both sides are delivered as they were sent, the holder approves and
  the wallet answers, then the wallet is asked for the verifier's query with the verifier's name as audience and the
  session's nonce; the holder's call resolves; the verification service receives exactly the tokens the wallet
  returned, with that nonce, audience, query and verifier id; and the verifier's promise settles with the verdict of
  that call.\<close>

theorem session_end_to_end:
  assumes "json_wf (fo_dcql o')" "json_wf (vpTokenJson (pd_vpToken r))" "list_all json_wf (pd_used r)"
    and "openPresentation E0 enc baseUrl apiKey answer = Inr session" "cs_wsUrl session \<noteq> []"
    and "respondToPresentation E urlPathname (encodeSessionEngagement (cs_wsUrl session)) = Inr h0"
    and "v1 = verifierStep session o' ts runPresentationFlow (VMessage (wsMessage ''session_ready'' JNull))"
    and "h1 = run_events (holderStep True timeoutMs) h0 [HMessage (hd (vf_sent v1)), HConsent 0 (Inr True), HPresented 0 (Inr r)]"
    and "v2 = verifierStep session o' ts v1 (VMessage (hd (hf_sent h1)))"
    and "v3 = verifierStep session o' ts v2 (VVerified (Inr verdict))"
  shows "hf_url h0 = resolveWsUrl E (cs_wsUrl session) None @ ''?role=holder'' \<and>
    hf_calls h1 = [\<lparr>pc_dcql = Some (fo_dcql o'), pc_aud = Some (JStr (fo_verifierName o')),
                    pc_nonce = Some (JStr (cs_nonce session)), pc_verifierId = map_option JStr (fo_verifierId o')\<rparr>] \<and>
    hf_settled h1 = Some (Inr ()) \<and> length (hf_sent h1) = 1 \<and>
    vf_calls v2 = [\<lparr>vc_vpToken = vpTokenJson (pd_vpToken r), vc_challenge = cs_nonce session, vc_audience = fo_verifierName o',
                    vc_query = fo_dcql o', vc_verifierId = fo_verifierId o'\<rparr>] \<and>
    vf_settled v2 = None \<and> vf_settled v3 = Some (Inr verdict) \<and> vf_calls v3 = vf_calls v2"
proof -
  let ?req = "requestPayload session o' ts"
  have req: "json_wf ?req" "?req \<noteq> JNull" using assms(1) by (auto simp: requestPayload_def split: option.splits)
  have resp: "json_wf (responseJson ?req r)" using assms(2,3) req(1)
    by (auto simp: responseJson_def requestPayload_def vpTokenJson_def list_all_iff split: option.splits)
  have v1: "v1 = runPresentationFlow\<lparr>vf_sent := [wsMessage ''request'' ?req]\<rparr>"
    by (simp add: assms(7) readMessage_wsMessage onVerifierMessage_def) (simp add: runPresentationFlow_def)
  have h0: "hf_open h0" "hf_settled h0 = None" "hf_sent h0 = []" "hf_tasks h0 = []" "hf_next h0 = 0" "hf_calls h0 = []"
    using assms(6) by (auto simp: respondToPresentation_def split: if_splits option.splits json.splits)
  have url: "hf_url h0 = resolveWsUrl E (cs_wsUrl session) None @ ''?role=holder''"
    using respond_compact[OF assms(5), of E urlPathname] assms(6) by auto
  have h1: "hf_sent h1 = [wsMessage ''response'' (responseJson ?req r)]" "hf_settled h1 = Some (Inr ())"
    "hf_calls h1 = [\<lparr>pc_dcql = getField ''dcql'' ?req, pc_aud = getField ''verifierName'' ?req, pc_nonce = getField ''nonce'' ?req,
       pc_verifierId = getField ''verifierId'' ?req\<rparr>]"
    using h0 req by (simp_all add: assms(8) v1 readMessage_wsMessage startPresent_def dropTask_def settleH_def cleanupH_def sendH_def)
  have token: "payloadField ''vpToken'' (Some (responseJson ?req r)) = Some (vpTokenJson (pd_vpToken r))"
    by (simp add: payloadField_def responseJson_def vpTokenJson_def requestPayload_def)
  have v2: "vf_calls v2 = [\<lparr>vc_vpToken = vpTokenJson (pd_vpToken r), vc_challenge = cs_nonce session, vc_audience = fo_verifierName o',
                    vc_query = fo_dcql o', vc_verifierId = fo_verifierId o'\<rparr>]" "vf_verifying v2" "vf_settled v2 = None"
    using h1 v1 resp token by (simp_all add: assms(9) readMessage_wsMessage onVerifierMessage_def cleanupV_def runPresentationFlow_def)
  have "vf_settled v3 = Some (Inr verdict)" "vf_calls v3 = vf_calls v2" using v2 by (simp_all add: assms(10) settleV_def)
  with url h1 v2 show ?thesis by (auto simp: requestPayload_def split: option.splits)
qed

section \<open>Witnesses\<close>

definition exConfig :: configEnv where
  "exConfig = \<lparr>ce_memory = (\<lambda>_. None), ce_window = (\<lambda>_. None), ce_meta = (\<lambda>_. None), ce_process = (\<lambda>_. None)\<rparr>"

definition exCreated :: createdSession where
  "exCreated = \<lparr>cs_sessionId = ''s1'', cs_wsUrl = ''/ws/presentation/s1'', cs_nonce = ''n1'', cs_expiresIn = 300\<rparr>"

definition exOptions :: flowOptions where
  "exOptions = \<lparr>fo_verifierName = ''Acme'', fo_verifierId = Some ''https://acme'', fo_dcql = JObj [(''credentials'', JArr [])],
     fo_timeoutMs = 90000\<rparr>"

definition exPresented :: presented where
  "exPresented = \<lparr>pd_vpToken = [(''p'', [''eyJ~''])], pd_used = []\<rparr>"

lemma exSession:
  "\<exists>session. openPresentation exConfig id ''https://api.owlid.app'' ''owlid_pk_1'' (Inr exCreated) = Inr session \<and> cs_nonce session = ''n1'' \<and>
     cs_wsUrl session = ''/ws/presentation/s1''"
  by (simp add: openPresentation_def startsWith_def exCreated_def)

lemma exHolder_opens: "\<exists>s. respondToPresentation exConfig Some (encodeSessionEngagement ''/ws/presentation/s1'') = Inr s"
  using respond_compact[of "''/ws/presentation/s1''"] by blast

theorem sdk_qr_not_scannable_witness:
  "\<exists>session. openPresentation exConfig id ''https://api.owlid.app'' ''owlid_pk_1'' (Inr exCreated) = Inr session \<and>
     respondToPresentation exConfig Some (ps_qrPayload session) = Inl (Error ''QR payload is not a valid presentation engagement'')"
  using exSession sdk_qr_not_scannable[of exConfig id "''https://api.owlid.app''" "''owlid_pk_1''" "Inr exCreated" _ exConfig Some "''x''"]
  by blast

theorem holder_answers_once_witness:
  "\<exists>s0 s. respondToPresentation exConfig Some (encodeSessionEngagement ''/ws/presentation/s1'') = Inr s0 \<and>
     s = run_events (holderStep True 90000) s0 [HMessage (wsMessage ''request'' (JObj [])), HConsent 0 (Inr False), HError] \<and>
     hf_sent s = [wsMessage ''consent_denied'' JNull] \<and>
     list_all (answerOf True [HMessage (wsMessage ''request'' (JObj [])), HConsent 0 (Inr False), HError]) (hf_sent s)"
proof -
  let ?es = "[HMessage (wsMessage ''request'' (JObj [])), HConsent 0 (Inr False), HError]"
  obtain s0 where s0: "respondToPresentation exConfig Some (encodeSessionEngagement ''/ws/presentation/s1'') = Inr s0"
    using exHolder_opens by blast
  have "hf_sent (run_events (holderStep True 90000) s0 ?es) = [wsMessage ''consent_denied'' JNull]"
    using s0 by (auto simp: respondToPresentation_def readMessage_wsMessage Let_def holder_ops split: if_splits option.splits json.splits)
  moreover have "list_all (answerOf True ?es) (hf_sent (run_events (holderStep True 90000) s0 ?es))"
    using holder_answers_once[OF s0, of True 90000 ?es] unfolding Let_def by blast
  ultimately show ?thesis using s0 by blast
qed

theorem verifier_result_verified_witness:
  "\<exists>session. openPresentation exConfig id ''https://api.owlid.app'' ''owlid_pk_1'' (Inr exCreated) = Inr session \<and>
     list_all (\<lambda>c. vc_challenge c = ''n1'') (vf_calls (run_events (verifierStep session exOptions 0) runPresentationFlow
       [VMessage (wsMessage ''session_ready'' JNull), VMessage (wsMessage ''response'' (JObj [])), VVerified (Inr (failResult ''x''))]))"
proof -
  obtain session where s: "openPresentation exConfig id ''https://api.owlid.app'' ''owlid_pk_1'' (Inr exCreated) = Inr session"
    "cs_nonce session = ''n1''" using exSession by blast
  have "list_all (\<lambda>c. vc_challenge c = ''n1'') (vf_calls (run_events (verifierStep session exOptions 0) runPresentationFlow
      [VMessage (wsMessage ''session_ready'' JNull), VMessage (wsMessage ''response'' (JObj [])), VVerified (Inr (failResult ''x''))]))"
    by (rule list.pred_mono_strong[OF verifier_result_verified[unfolded Let_def, THEN conjunct2, THEN conjunct1]]) (simp add: s(2))
  with s(1) show ?thesis by blast
qed

theorem closed_socket_hangs_witness:
  "\<exists>session. openPresentation exConfig id ''https://api.owlid.app'' ''owlid_pk_1'' (Inr exCreated) = Inr session \<and>
     vf_settled (run_events (verifierStep session exOptions 0) (verifierStep session exOptions 0 runPresentationFlow VClosed)
       [VTimeout, VMessage (wsMessage ''consent_denied'' JNull)]) = None"
proof -
  obtain session where s: "openPresentation exConfig id ''https://api.owlid.app'' ''owlid_pk_1'' (Inr exCreated) = Inr session"
    using exSession by blast
  moreover have "vf_settled (run_events (verifierStep session exOptions 0) (verifierStep session exOptions 0 runPresentationFlow VClosed)
       [VTimeout, VMessage (wsMessage ''consent_denied'' JNull)]) = None"
    by (rule closed_socket_hangs[where es = "[]"]) (simp_all add: runPresentationFlow_def)
  ultimately show ?thesis by blast
qed

theorem session_end_to_end_witness:
  "\<exists>session h0 v1 h1 v2 v3. openPresentation exConfig id ''https://api.owlid.app'' ''owlid_pk_1'' (Inr exCreated) = Inr session \<and>
     respondToPresentation exConfig Some (encodeSessionEngagement ''/ws/presentation/s1'') = Inr h0 \<and>
     v1 = verifierStep session exOptions 0 runPresentationFlow (VMessage (wsMessage ''session_ready'' JNull)) \<and>
     h1 = run_events (holderStep True 90000) h0 [HMessage (hd (vf_sent v1)), HConsent 0 (Inr True), HPresented 0 (Inr exPresented)] \<and>
     v2 = verifierStep session exOptions 0 v1 (VMessage (hd (hf_sent h1))) \<and>
     v3 = verifierStep session exOptions 0 v2 (VVerified (Inr \<lparr>vr_valid = True, vr_error = None\<rparr>)) \<and>
     map vc_vpToken (vf_calls v2) = [vpTokenJson [(''p'', [''eyJ~''])]] \<and> map vc_challenge (vf_calls v2) = [''n1''] \<and>
     vf_settled v3 = Some (Inr \<lparr>vr_valid = True, vr_error = None\<rparr>)"
proof -
  obtain session where s: "openPresentation exConfig id ''https://api.owlid.app'' ''owlid_pk_1'' (Inr exCreated) = Inr session"
    "cs_nonce session = ''n1''" "cs_wsUrl session = ''/ws/presentation/s1''" using exSession by blast
  have url: "cs_wsUrl session \<noteq> []" by (simp add: s(3))
  obtain h0 where h: "respondToPresentation exConfig Some (encodeSessionEngagement (cs_wsUrl session)) = Inr h0"
    using exHolder_opens s(3) by auto
  have wf: "json_wf (fo_dcql exOptions)" "json_wf (vpTokenJson (pd_vpToken exPresented))" "list_all json_wf (pd_used exPresented)"
    by (simp_all add: exOptions_def exPresented_def vpTokenJson_def)
  define v1 where "v1 = verifierStep session exOptions 0 runPresentationFlow (VMessage (wsMessage ''session_ready'' JNull))"
  define h1 where "h1 = run_events (holderStep True 90000) h0 [HMessage (hd (vf_sent v1)), HConsent 0 (Inr True), HPresented 0 (Inr exPresented)]"
  define v2 where "v2 = verifierStep session exOptions 0 v1 (VMessage (hd (hf_sent h1)))"
  define v3 where "v3 = verifierStep session exOptions 0 v2 (VVerified (Inr \<lparr>vr_valid = True, vr_error = None\<rparr>))"
  note E = session_end_to_end[OF wf s(1) url h v1_def h1_def v2_def v3_def]
  then have "map vc_vpToken (vf_calls v2) = [vpTokenJson [(''p'', [''eyJ~''])]]" "map vc_challenge (vf_calls v2) = [''n1'']"
      "vf_settled v3 = Some (Inr \<lparr>vr_valid = True, vr_error = None\<rparr>)" by (simp_all add: exPresented_def s(2))
  with s(1) h[unfolded s(3)] v1_def h1_def v2_def v3_def show ?thesis
    by (intro exI[of _ session] exI[of _ h0] exI[of _ v1] exI[of _ h1] exI[of _ v2] exI[of _ v3] conjI)
qed

end
