(* ===== verification/Midnight_Client.thy ===== *)
theory Midnight_Client
  imports Event_Stream Orchestrator
begin

text \<open>
  The Midnight client of the sidecar, \<open>packages/midnight-sidecar/src/midnight.ts\<close>: joining the contracts, the checks and
  ledger reads of its methods, and the contract writes, which share one private-state database and one slot for the
  private witness and therefore run one at a time on \<open>callTxChain\<close>.  The witness callbacks are those of \<open>witnesses.ts\<close>;
  which of them a circuit calls is read off the Compact contracts.

  A write is a circuit call with its arguments and the witness values of its request.  One event of the chain machine
  is a request, the next link of the chain running, a witness callback of the running circuit, or the end of the
  running call.  Merkle paths are values of a type parameter.
\<close>

section \<open>Witnesses\<close>

record 'p predicatePending =
  pp_age :: "int option"
  pp_kycLevel :: "int option"
  pp_residentCountry :: "bytes option"
  pp_nationalityCode :: "bytes option"
  pp_emailVerified :: "int option"
  pp_personhoodSecret :: "bytes option"
  pp_allowedCountryPath :: "'p option"
  pp_verifierIdHash :: "bytes option"
  pp_dobValue :: "int option"
  pp_claimSalt :: "bytes option"
  pp_claimPath :: "'p option"

definition noPending :: "'p predicatePending" where
  "noPending =
     \<lparr>pp_age = None, pp_kycLevel = None, pp_residentCountry = None, pp_nationalityCode = None, pp_emailVerified = None,
      pp_personhoodSecret = None, pp_allowedCountryPath = None, pp_verifierIdHash = None, pp_dobValue = None,
      pp_claimSalt = None, pp_claimPath = None\<rparr>"

datatype witnessName =
    W_ageValue | W_dobValue | W_kycLevel | W_residentCountry | W_nationalityCode | W_emailVerifiedFlag
  | W_personhoodSecret | W_allowedCountryPath | W_verifierIdHash | W_claimSalt | W_claimPath

datatype 'p witnessValue = WNum int | WBytes bytes | WPath 'p

definition wNum :: "string \<Rightarrow> string \<Rightarrow> int option \<Rightarrow> 'p witnessValue res" where
  "wNum w f v = (case v of None \<Rightarrow> Inl (Error (w @ '' witness: no pending '' @ f)) | Some n \<Rightarrow> Inr (WNum n))"

definition wBytes32 :: "string \<Rightarrow> bytes option \<Rightarrow> 'p witnessValue res" where
  "wBytes32 w v =
     (case v of
        None \<Rightarrow> Inl (Error (w @ '' witness: no pending '' @ w))
      | Some b \<Rightarrow>
          if length b \<noteq> 32 then Inl (Error (w @ '' witness: expected 32 bytes, got '' @ showNat (length b))) else Inr (WBytes b))"

definition wPath :: "string \<Rightarrow> 'p option \<Rightarrow> 'p witnessValue res" where
  "wPath w v = (case v of None \<Rightarrow> Inl (Error (w @ '' witness: no pending '' @ w)) | Some p \<Rightarrow> Inr (WPath p))"

fun registryWitness :: "'p predicatePending \<Rightarrow> witnessName \<Rightarrow> 'p witnessValue res" where
  "registryWitness p W_ageValue = wNum ''ageValue'' ''age'' (pp_age p)"
| "registryWitness p W_dobValue = wNum ''dobValue'' ''dobValue'' (pp_dobValue p)"
| "registryWitness p W_kycLevel = wNum ''kycLevel'' ''kycLevel'' (pp_kycLevel p)"
| "registryWitness p W_residentCountry = wBytes32 ''residentCountry'' (pp_residentCountry p)"
| "registryWitness p W_nationalityCode = wBytes32 ''nationalityCode'' (pp_nationalityCode p)"
| "registryWitness p W_emailVerifiedFlag = wNum ''emailVerifiedFlag'' ''emailVerified'' (pp_emailVerified p)"
| "registryWitness p W_personhoodSecret = wBytes32 ''personhoodSecret'' (pp_personhoodSecret p)"
| "registryWitness p W_allowedCountryPath = wPath ''allowedCountryPath'' (pp_allowedCountryPath p)"
| "registryWitness p W_verifierIdHash = wBytes32 ''verifierIdHash'' (pp_verifierIdHash p)"
| "registryWitness p W_claimSalt =
     (case pp_claimSalt p of None \<Rightarrow> Inl (Error ''claimSalt witness: no pending claimSalt'') | Some b \<Rightarrow> Inr (WBytes b))"
| "registryWitness p W_claimPath = wPath ''claimPath'' (pp_claimPath p)"

text \<open>The witnesses the attest circuit of each contract calls, in order.\<close>

fun circuitWitnesses :: "predicateKind \<Rightarrow> witnessName list" where
  "circuitWitnesses K_age = [W_dobValue, W_claimSalt, W_claimPath]"
| "circuitWitnesses K_kyc = [W_kycLevel, W_claimSalt, W_claimPath]"
| "circuitWitnesses K_residency = [W_residentCountry, W_verifierIdHash, W_allowedCountryPath, W_claimSalt, W_claimPath]"
| "circuitWitnesses K_email = [W_emailVerifiedFlag, W_claimSalt, W_claimPath]"
| "circuitWitnesses K_nationality = [W_nationalityCode, W_verifierIdHash, W_allowedCountryPath, W_claimSalt, W_claimPath]"
| "circuitWitnesses K_age_range = [W_dobValue, W_claimSalt, W_claimPath]"
| "circuitWitnesses K_personhood = [W_personhoodSecret, W_claimSalt, W_claimPath]"

section \<open>The client\<close>

record midnightClient =
  mc_connected :: bool
  mc_ownerSecretKey :: "bytes option"
  mc_apis :: sidecarApis

definition noApis :: sidecarApis where
  "noApis = \<lparr>sa_issuer = None, sa_revocation = None, sa_identity = None, sa_predicates = []\<rparr>"

definition newClient :: midnightClient where
  "newClient = \<lparr>mc_connected = False, mc_ownerSecretKey = None, mc_apis = noApis\<rparr>"

definition setOwnerSecretKey :: "bytes \<Rightarrow> midnightClient \<Rightarrow> midnightClient" where
  "setOwnerSecretKey k c = c\<lparr>mc_ownerSecretKey := Some k\<rparr>"

text \<open>What joining each configured contract gives: an error, or an API with its ledger.  A contract without an address is
  not joined.\<close>

record joinAnswers =
  ja_issuer :: "issuerLedger res res option"
  ja_revocation :: "revocationLedger res res option"
  ja_identity :: "identityLedger res res option"
  ja_predicates :: "(predicateKind \<times> predicateLedger res res) list"

definition joinOne :: "'l res res option \<Rightarrow> ('l res \<Rightarrow> sidecarApis \<Rightarrow> sidecarApis) \<Rightarrow> midnightClient \<Rightarrow> unit res \<times> midnightClient" where
  "joinOne a put c =
     (case a of None \<Rightarrow> (Inr (), c) | Some (Inl e) \<Rightarrow> (Inl e, c) | Some (Inr api) \<Rightarrow> (Inr (), c\<lparr>mc_apis := put api (mc_apis c)\<rparr>))"

fun joinPredicates :: "(predicateKind \<times> predicateLedger res res) list \<Rightarrow> midnightClient \<Rightarrow> midnightClient" where
  "joinPredicates [] c = c"
| "joinPredicates ((k, Inl e) # rest) c = joinPredicates rest c"
| "joinPredicates ((k, Inr api) # rest) c =
     joinPredicates rest (c\<lparr>mc_apis := (mc_apis c)\<lparr>sa_predicates := AList.update k api (sa_predicates (mc_apis c))\<rparr>\<rparr>)"

definition connect :: "joinAnswers \<Rightarrow> midnightClient \<Rightarrow> unit res \<times> midnightClient" where
  "connect J =
     bindA (joinOne (ja_issuer J) (\<lambda>api A. A\<lparr>sa_issuer := Some api\<rparr>)) (\<lambda>_.
     bindA (joinOne (ja_revocation J) (\<lambda>api A. A\<lparr>sa_revocation := Some api\<rparr>)) (\<lambda>_.
     bindA (joinOne (ja_identity J) (\<lambda>api A. A\<lparr>sa_identity := Some api\<rparr>)) (\<lambda>_.
       modA (\<lambda>c. (joinPredicates (ja_predicates J) c)\<lparr>mc_connected := True\<rparr>))))"

definition disconnect :: "midnightClient \<Rightarrow> midnightClient" where
  "disconnect c = c\<lparr>mc_apis := noApis, mc_connected := False\<rparr>"

definition assertConnected :: "midnightClient \<Rightarrow> unit res" where
  "assertConnected c = (if mc_connected c then Inr () else Inl (Error ''MidnightClient is not connected. Call connect() first.''))"

definition assertContract :: "midnightClient \<Rightarrow> 'l res option \<Rightarrow> string \<Rightarrow> 'l res res" where
  "assertContract c api name =
     bindR (assertConnected c) (\<lambda>_. case api of None \<Rightarrow> Inl (Error (name @ '' registry not connected'')) | Some a \<Rightarrow> Inr a)"

definition getPredicateApi :: "midnightClient \<Rightarrow> predicateKind \<Rightarrow> predicateLedger res res" where
  "getPredicateApi c k =
     (case map_of (sa_predicates (mc_apis c)) k of
        None \<Rightarrow> Inl (Error (''Predicate '' @ [CHR 0x27] @ kindName k @ [CHR 0x27] @ '' contract not joined '' @ emDash @ '' '' @
                  ''set MIDNIGHT_PREDICATE_'' @ toUpperCase (kindName k) @ ''_ADDRESS''))
      | Some a \<Rightarrow> Inr a)"

section \<open>Reads\<close>

definition ISSUER_KEY_TAG :: bytes where "ISSUER_KEY_TAG = pad32 ''owlid:issuer:key:''"

text \<open>\<open>buf.set(publicKey.subarray(0, 32), 32)\<close> in a zeroed buffer of 64 bytes: a short key is padded with zeros.\<close>

definition issuerKeyHash :: "(bytes \<Rightarrow> bytes) \<Rightarrow> bytes \<Rightarrow> bytes" where
  "issuerKeyHash sha publicKey = sha (ISSUER_KEY_TAG @ take 32 (publicKey @ replicate 32 0))"

definition issuerTrusted :: "(bytes \<Rightarrow> bytes) \<Rightarrow> midnightClient \<Rightarrow> bytes \<Rightarrow> bool res" where
  "issuerTrusted sha c publicKey =
     bindR (assertContract c (sa_issuer (mc_apis c)) ''Issuer'') (\<lambda>api.
     bindR api (\<lambda>l. Inr (isIssuerTrustedFromLedger (issuerKeyHash sha publicKey) l)))"

definition issuerStatus :: "(bytes \<Rightarrow> bytes) \<Rightarrow> midnightClient \<Rightarrow> bytes \<Rightarrow> int res" where
  "issuerStatus sha c publicKey =
     bindR (assertContract c (sa_issuer (mc_apis c)) ''Issuer'') (\<lambda>api.
     bindR api (\<lambda>l. Inr (getIssuerStatusFromLedger (issuerKeyHash sha publicKey) l)))"

definition getIssuerCount :: "midnightClient \<Rightarrow> int res" where
  "getIssuerCount c =
     bindR (assertContract c (sa_issuer (mc_apis c)) ''Issuer'') (\<lambda>api. bindR api (\<lambda>l. Inr (issuerCount l)))"

definition credentialRevoked :: "midnightClient \<Rightarrow> bytes \<Rightarrow> bool res" where
  "credentialRevoked c rootHash =
     bindR (assertContract c (sa_revocation (mc_apis c)) ''Revocation'') (\<lambda>api.
     bindR api (\<lambda>l. Inr (isCredentialRevokedFromLedger rootHash l)))"

definition credentialStatus :: "midnightClient \<Rightarrow> bytes \<Rightarrow> int res" where
  "credentialStatus c rootHash =
     bindR (assertContract c (sa_revocation (mc_apis c)) ''Revocation'') (\<lambda>api.
     bindR api (\<lambda>l. Inr (getCredentialStatusFromLedger rootHash l)))"

definition commitmentOf :: "midnightClient \<Rightarrow> bytes \<Rightarrow> bytes option res" where
  "commitmentOf c didHash =
     bindR (assertContract c (sa_identity (mc_apis c)) ''Identity'') (\<lambda>api.
     bindR api (\<lambda>l. Inr (getCommitmentFromLedger didHash l)))"

definition commitmentStatus :: "midnightClient \<Rightarrow> bytes \<Rightarrow> int res" where
  "commitmentStatus c didHash =
     bindR (assertContract c (sa_identity (mc_apis c)) ''Identity'') (\<lambda>api.
     bindR api (\<lambda>l. Inr (getCommitmentStatusFromLedger didHash l)))"

definition commitmentRegistered :: "midnightClient \<Rightarrow> bytes \<Rightarrow> bool res" where
  "commitmentRegistered c cmt =
     bindR (assertContract c (sa_identity (mc_apis c)) ''Identity'') (\<lambda>api.
     bindR api (\<lambda>l. Inr (isCommitmentRegistered cmt l)))"

definition predicateAttestCount :: "midnightClient \<Rightarrow> predicateKind \<Rightarrow> int res" where
  "predicateAttestCount c k = bindR (getPredicateApi c k) (\<lambda>api. bindR api (\<lambda>l. Inr (attestCount l)))"

definition attested :: "midnightClient \<Rightarrow> predicateKind \<Rightarrow> bytes \<Rightarrow> bool res" where
  "attested c k key = bindR (getPredicateApi c k) (\<lambda>api. bindR api (\<lambda>l. Inr (isAttestedFromLedger key l)))"

definition joinedPredicateKinds :: "midnightClient \<Rightarrow> predicateKind list" where
  "joinedPredicateKinds c = map fst (sa_predicates (mc_apis c))"

text \<open>\<open>snapshotPredicate\<close>: the indexer's answer is an error, nothing, or the three serialised states.\<close>

record predicateSnapshot =
  sn_address :: string
  sn_zswapChainState :: string
  sn_contractState :: string
  sn_ledgerParameters :: string

definition snapshotPredicate ::
  "midnightClient \<Rightarrow> (predicateKind \<Rightarrow> string option) \<Rightarrow> predicateKind \<Rightarrow> (bytes \<times> bytes \<times> bytes) option res \<Rightarrow> predicateSnapshot res" where
  "snapshotPredicate c addresses k answer =
     bindR (getPredicateApi c k) (\<lambda>_.
       let address = the_or [] (addresses k) in
       if address = [] then Inl (Error (''Predicate '' @ [CHR 0x27] @ kindName k @ [CHR 0x27] @ '' has no configured address''))
       else bindR answer (\<lambda>states.
         case states of
           None \<Rightarrow> Inl (Error (''no public state at '' @ address))
         | Some (zswap, contract, params) \<Rightarrow>
             Inr \<lparr>sn_address = address, sn_zswapChainState = bytesToHex zswap, sn_contractState = bytesToHex contract,
                  sn_ledgerParameters = bytesToHex params\<rparr>))"

section \<open>Writes\<close>

datatype registry = R_issuer | R_revocation | R_identity | R_predicate predicateKind

datatype callArg = A_bytes bytes | A_num int | A_str string

record 'p circuitCall =
  cc_registry :: registry
  cc_circuit :: string
  cc_args :: "callArg list"
  cc_pending :: "'p predicatePending"
  cc_lateCheck :: bool

datatype 'p clientOp =
    AttestAge bytes int int
  | AttestKyc bytes int int
  | AttestNationality bytes bytes 'p bytes bytes
  | AttestResidency bytes bytes 'p bytes bytes
  | AttestEmailVerified bytes int
  | AttestAgeRange bytes int int int
  | AttestUniquePersonhood bytes bytes bytes bytes
  | RegisterIssuer bytes string
  | DeactivateIssuer bytes
  | RevokeCredential bytes bytes string
  | SuspendCredential bytes bytes string
  | ReactivateCredential bytes bytes
  | ProveRevocationInclusion bytes
  | RegisterIdentity bytes bytes bytes
  | UpdateCommitment bytes bytes bytes
  | AdminUpdateCommitment bytes bytes bytes
  | PauseContract registry
  | UnpauseContract registry

definition callOn :: "registry \<Rightarrow> string \<Rightarrow> callArg list \<Rightarrow> 'p predicatePending \<Rightarrow> 'p circuitCall" where
  "callOn r circuit args pending =
     \<lparr>cc_registry = r, cc_circuit = circuit, cc_args = args, cc_pending = pending, cc_lateCheck = False\<rparr>"

definition attestCall :: "midnightClient \<Rightarrow> predicateKind \<Rightarrow> string \<Rightarrow> callArg list \<Rightarrow> 'p predicatePending \<Rightarrow> 'p circuitCall res" where
  "attestCall c k circuit args pending = bindR (getPredicateApi c k) (\<lambda>_. Inr (callOn (R_predicate k) circuit args pending))"

definition registryJoined :: "midnightClient \<Rightarrow> registry \<Rightarrow> unit res" where
  "registryJoined c r =
     (case r of
        R_issuer \<Rightarrow> bindR (assertContract c (sa_issuer (mc_apis c)) ''Issuer'') (\<lambda>_. Inr ())
      | R_revocation \<Rightarrow> bindR (assertContract c (sa_revocation (mc_apis c)) ''Revocation'') (\<lambda>_. Inr ())
      | R_identity \<Rightarrow> bindR (assertContract c (sa_identity (mc_apis c)) ''Identity'') (\<lambda>_. Inr ())
      | R_predicate k \<Rightarrow> bindR (getPredicateApi c k) (\<lambda>_. Inr ()))"

definition registryCall :: "midnightClient \<Rightarrow> registry \<Rightarrow> string \<Rightarrow> callArg list \<Rightarrow> 'p circuitCall res" where
  "registryCall c r circuit args = bindR (registryJoined c r) (\<lambda>_. Inr (callOn r circuit args noPending))"

definition requireOwnerKey :: "midnightClient \<Rightarrow> unit res" where
  "requireOwnerKey c =
     (case mc_ownerSecretKey c of
        None \<Rightarrow> Inl (Error ''Owner secret key not set. Call setOwnerSecretKey() first.'')
      | Some _ \<Rightarrow> Inr ())"

fun clientCall :: "(bytes \<Rightarrow> bytes) \<Rightarrow> midnightClient \<Rightarrow> 'p clientOp \<Rightarrow> 'p circuitCall res" where
  "clientCall sha c (AttestAge rootHash t age) =
     attestCall c K_age ''attestAgeGte'' [A_bytes rootHash, A_num t] (noPending\<lparr>pp_age := Some age\<rparr>)"
| "clientCall sha c (AttestKyc rootHash t level) =
     attestCall c K_kyc ''attestKycGte'' [A_bytes rootHash, A_num t] (noPending\<lparr>pp_kycLevel := Some level\<rparr>)"
| "clientCall sha c (AttestNationality rootHash natCode cpath vid setHash) =
     attestCall c K_nationality ''attestNationalityIn'' [A_bytes rootHash, A_bytes setHash]
       (noPending\<lparr>pp_nationalityCode := Some natCode, pp_allowedCountryPath := Some cpath, pp_verifierIdHash := Some vid\<rparr>)"
| "clientCall sha c (AttestResidency rootHash resCode cpath vid setHash) =
     attestCall c K_residency ''attestResidencyIn'' [A_bytes rootHash, A_bytes setHash]
       (noPending\<lparr>pp_residentCountry := Some resCode, pp_allowedCountryPath := Some cpath, pp_verifierIdHash := Some vid\<rparr>)"
| "clientCall sha c (AttestEmailVerified rootHash flag) =
     attestCall c K_email ''attestEmailVerified'' [A_bytes rootHash] (noPending\<lparr>pp_emailVerified := Some flag\<rparr>)"
| "clientCall sha c (AttestAgeRange rootHash lo hi age) =
     attestCall c K_age_range ''attestAgeRange'' [A_bytes rootHash, A_num lo, A_num hi] (noPending\<lparr>pp_age := Some age\<rparr>)"
| "clientCall sha c (AttestUniquePersonhood rootHash ep app secret) =
     attestCall c K_personhood ''attestUniquePersonhood'' [A_bytes rootHash, A_bytes ep, A_bytes app]
       (noPending\<lparr>pp_personhoodSecret := Some secret\<rparr>)"
| "clientCall sha c (RegisterIssuer publicKey name) = registryCall c R_issuer ''registerIssuer'' [A_bytes publicKey, A_str name]"
| "clientCall sha c (DeactivateIssuer publicKey) = registryCall c R_issuer ''deactivateIssuer'' [A_bytes (issuerKeyHash sha publicKey)]"
| "clientCall sha c (RevokeCredential rootHash pk reason) =
     registryCall c R_revocation ''revoke'' [A_bytes rootHash, A_bytes (issuerKeyHash sha pk), A_str reason]"
| "clientCall sha c (SuspendCredential rootHash pk reason) =
     registryCall c R_revocation ''suspend'' [A_bytes rootHash, A_bytes (issuerKeyHash sha pk), A_str reason]"
| "clientCall sha c (ReactivateCredential rootHash pk) =
     registryCall c R_revocation ''reactivate'' [A_bytes rootHash, A_bytes (issuerKeyHash sha pk)]"
| "clientCall sha c (ProveRevocationInclusion rootHash) = registryCall c R_revocation ''proveRevocationInclusion'' [A_bytes rootHash]"
| "clientCall sha c (RegisterIdentity didHash cmt ikh) =
     bindR (registryCall c R_identity ''registerIdentity'' [A_bytes didHash, A_bytes cmt, A_bytes ikh]) (\<lambda>k.
     bindR (requireOwnerKey c) (\<lambda>_. Inr k))"
| "clientCall sha c (UpdateCommitment didHash cmt ikh) =
     bindR (registryCall c R_identity ''updateCommitment'' [A_bytes didHash, A_bytes cmt, A_bytes ikh]) (\<lambda>k.
     bindR (requireOwnerKey c) (\<lambda>_. Inr k))"
| "clientCall sha c (AdminUpdateCommitment didHash cmt ikh) =
     registryCall c R_identity ''adminUpdateCommitment'' [A_bytes didHash, A_bytes cmt, A_bytes ikh]"
| "clientCall sha c (PauseContract r) = Inr ((callOn r ''pause'' [] noPending)\<lparr>cc_lateCheck := True\<rparr>)"
| "clientCall sha c (UnpauseContract r) = Inr ((callOn r ''unpause'' [] noPending)\<lparr>cc_lateCheck := True\<rparr>)"

section \<open>The chain of writes\<close>

record 'p callChain =
  ch_client :: midnightClient
  ch_queue :: "(nat \<times> 'p circuitCall) list"
  ch_running :: "(nat \<times> 'p circuitCall) option"
  ch_pendingPredicate :: "'p predicatePending"
  ch_next :: nat
  ch_accepted :: "(nat \<times> 'p circuitCall) list"
  ch_reads :: "(nat \<times> witnessName \<times> 'p witnessValue res) list"
  ch_settled :: "(nat \<times> unit res) list"

datatype 'p chainEvent =
    OpRequested "'p clientOp"
  | ChainRuns
  | WitnessCalled witnessName
  | CallSettles "unit res"
  | ClientChanges midnightClient

text \<open>\<open>runCallTx\<close> puts the call at the end of the chain; a method that throws before it rejects at once.\<close>

definition runCallTx :: "(bytes \<Rightarrow> bytes) \<Rightarrow> 'p clientOp \<Rightarrow> 'p callChain \<Rightarrow> 'p callChain" where
  "runCallTx sha op s =
     (let n = ch_next s; s' = s\<lparr>ch_next := Suc n\<rparr> in
      case clientCall sha (ch_client s) op of
        Inl e \<Rightarrow> s'\<lparr>ch_settled := (n, Inl e) # ch_settled s\<rparr>
      | Inr k \<Rightarrow> s'\<lparr>ch_queue := ch_queue s @ [(n, k)], ch_accepted := ch_accepted s @ [(n, k)]\<rparr>)"

definition finishCall :: "nat \<Rightarrow> unit res \<Rightarrow> 'p callChain \<Rightarrow> 'p callChain" where
  "finishCall n r s = s\<lparr>ch_running := None, ch_pendingPredicate := noPending, ch_settled := (n, r) # ch_settled s\<rparr>"

definition runNext :: "'p callChain \<Rightarrow> 'p callChain" where
  "runNext s =
     (case (ch_running s, ch_queue s) of
        (None, (n, k) # q) \<Rightarrow>
          (case (if cc_lateCheck k then registryJoined (ch_client s) (cc_registry k) else Inr ()) of
             Inl e \<Rightarrow> finishCall n (Inl e) (s\<lparr>ch_queue := q\<rparr>)
           | Inr _ \<Rightarrow> s\<lparr>ch_queue := q, ch_running := Some (n, k), ch_pendingPredicate := cc_pending k\<rparr>)
      | _ \<Rightarrow> s)"

fun chainStep :: "(bytes \<Rightarrow> bytes) \<Rightarrow> 'p callChain \<Rightarrow> 'p chainEvent \<Rightarrow> 'p callChain" where
  "chainStep sha s (OpRequested op) = runCallTx sha op s"
| "chainStep sha s ChainRuns = runNext s"
| "chainStep sha s (WitnessCalled w) =
     (case ch_running s of
        None \<Rightarrow> s
      | Some (n, k) \<Rightarrow> s\<lparr>ch_reads := (n, w, registryWitness (ch_pendingPredicate s) w) # ch_reads s\<rparr>)"
| "chainStep sha s (CallSettles r) = (case ch_running s of None \<Rightarrow> s | Some (n, k) \<Rightarrow> finishCall n r s)"
| "chainStep sha s (ClientChanges c) = s\<lparr>ch_client := c\<rparr>"

definition newChain :: "midnightClient \<Rightarrow> 'p callChain" where
  "newChain c =
     \<lparr>ch_client = c, ch_queue = [], ch_running = None, ch_pendingPredicate = noPending, ch_next = 0, ch_accepted = [],
      ch_reads = [], ch_settled = []\<rparr>"

section \<open>The invariant of the chain\<close>

definition ownReads :: "'p callChain \<Rightarrow> bool" where
  "ownReads s \<longleftrightarrow> list_all (\<lambda>(n, w, v). \<exists>k. (n, k) \<in> set (ch_accepted s) \<and> v = registryWitness (cc_pending k) w) (ch_reads s)"

definition running :: "'p callChain \<Rightarrow> (nat \<times> 'p circuitCall) list" where
  "running s = (case ch_running s of None \<Rightarrow> [] | Some x \<Rightarrow> [x])"

definition settledWrites :: "'p callChain \<Rightarrow> nat list" where
  "settledWrites s = filter (\<lambda>i. i \<in> fst ` set (ch_accepted s)) (rev (map fst (ch_settled s)))"

definition fifo :: "'p callChain \<Rightarrow> bool" where
  "fifo s \<longleftrightarrow> map fst (ch_accepted s) = settledWrites s @ map fst (running s) @ map fst (ch_queue s)"

definition slotOk :: "'p callChain \<Rightarrow> bool" where
  "slotOk s \<longleftrightarrow> ch_pendingPredicate s = (case ch_running s of None \<Rightarrow> noPending | Some (n, k) \<Rightarrow> cc_pending k)"

definition refsOk :: "'p callChain \<Rightarrow> bool" where
  "refsOk s \<longleftrightarrow> set (running s) \<union> set (ch_queue s) \<subseteq> set (ch_accepted s)"

definition idsOk :: "'p callChain \<Rightarrow> bool" where
  "idsOk s \<longleftrightarrow> (\<forall>i \<in> fst ` (set (ch_accepted s)) \<union> fst ` (set (ch_settled s)). i < ch_next s)"

definition chainInv :: "'p callChain \<Rightarrow> bool" where
  "chainInv s \<longleftrightarrow> slotOk s \<and> refsOk s \<and> idsOk s \<and> fifo s \<and> ownReads s"

lemma chainInvI: "slotOk s \<Longrightarrow> refsOk s \<Longrightarrow> idsOk s \<Longrightarrow> fifo s \<Longrightarrow> ownReads s \<Longrightarrow> chainInv s"
  by (simp add: chainInv_def)

lemma chainInvD: "chainInv s \<Longrightarrow> slotOk s" "chainInv s \<Longrightarrow> refsOk s" "chainInv s \<Longrightarrow> idsOk s" "chainInv s \<Longrightarrow> fifo s" "chainInv s \<Longrightarrow> ownReads s"
  by (simp_all add: chainInv_def)

lemma ownReads_accept: "ownReads s \<Longrightarrow> set (ch_accepted s) \<subseteq> set (ch_accepted t) \<Longrightarrow> ch_reads t = ch_reads s \<Longrightarrow> ownReads t"
  by (fastforce simp: ownReads_def list_all_iff)

lemma chainInv_request:
  assumes "chainInv s"
  shows "chainInv (runCallTx sha op s)"
proof -
  note i = chainInvD[OF assms]
  have new: "ch_next s \<notin> fst ` set (ch_accepted s)" "ch_next s \<notin> fst ` set (ch_settled s)" using i(3) by (auto simp: idsOk_def)
  show ?thesis
  proof (cases "clientCall sha (ch_client s) op")
    case (Inl e)
    let ?t = "s\<lparr>ch_next := Suc (ch_next s), ch_settled := (ch_next s, Inl e) # ch_settled s\<rparr>"
    have t: "runCallTx sha op s = ?t" by (simp add: runCallTx_def Inl Let_def)
    have "slotOk ?t" using i(1) by (simp add: slotOk_def)
    moreover have "refsOk ?t" using i(2) by (simp add: refsOk_def running_def)
    moreover have "idsOk ?t" using i(3) by (auto simp: idsOk_def less_Suc_eq)
    moreover have "fifo ?t" using i(4) new(1) by (simp add: fifo_def settledWrites_def running_def)
    moreover have "ownReads ?t" by (rule ownReads_accept[OF i(5)]) simp_all
    ultimately show ?thesis unfolding t by (rule chainInvI)
  next
    case (Inr k)
    let ?t = "s\<lparr>ch_next := Suc (ch_next s), ch_queue := ch_queue s @ [(ch_next s, k)], ch_accepted := ch_accepted s @ [(ch_next s, k)]\<rparr>"
    have t: "runCallTx sha op s = ?t" by (simp add: runCallTx_def Inr Let_def)
    have "settledWrites ?t = settledWrites s"
      unfolding settledWrites_def by (rule filter_cong) (use new(2) in \<open>auto simp: image_iff\<close>)
    then have "fifo ?t" using i(4) by (simp add: fifo_def running_def)
    moreover have "slotOk ?t" using i(1) by (simp add: slotOk_def)
    moreover have "refsOk ?t" using i(2) by (auto simp: refsOk_def running_def)
    moreover have "idsOk ?t" using i(3) by (auto simp: idsOk_def less_Suc_eq)
    moreover have "ownReads ?t" by (rule ownReads_accept[OF i(5)]) auto
    ultimately show ?thesis unfolding t by (intro chainInvI)
  qed
qed

lemma chainInv_finish:
  assumes "chainInv s" "ch_running s = Some (n, k)"
  shows "chainInv (finishCall n r s)"
proof -
  note i = chainInvD[OF assms(1)]
  have m: "(n, k) \<in> set (ch_accepted s)" using i(2) assms(2) by (simp add: refsOk_def running_def)
  then have n: "n \<in> fst ` set (ch_accepted s)" by force
  show ?thesis
  proof (rule chainInvI)
    show "slotOk (finishCall n r s)" by (simp add: slotOk_def finishCall_def)
    show "refsOk (finishCall n r s)" using i(2) by (simp add: refsOk_def finishCall_def running_def)
    show "idsOk (finishCall n r s)" using i(3) n by (auto simp: idsOk_def finishCall_def)
    show "fifo (finishCall n r s)" using i(4) n assms(2) by (simp add: fifo_def settledWrites_def finishCall_def running_def)
    show "ownReads (finishCall n r s)" by (rule ownReads_accept[OF i(5)]) (simp_all add: finishCall_def)
  qed
qed

lemma chainInv_start:
  assumes "chainInv s" "ch_running s = None" "ch_queue s = (n, k) # q"
  shows "chainInv (s\<lparr>ch_queue := q, ch_running := Some (n, k), ch_pendingPredicate := cc_pending k\<rparr>)" (is "chainInv ?t")
proof -
  note i = chainInvD[OF assms(1)]
  show ?thesis
  proof (rule chainInvI)
    show "slotOk ?t" by (simp add: slotOk_def)
    show "refsOk ?t" using i(2) assms(3) by (simp add: refsOk_def running_def)
    show "idsOk ?t" using i(3) by (simp add: idsOk_def)
    show "fifo ?t" using i(4) assms(2,3) by (simp add: fifo_def settledWrites_def running_def)
    show "ownReads ?t" by (rule ownReads_accept[OF i(5)]) simp_all
  qed
qed

lemma chainInv_runNext:
  assumes "chainInv s"
  shows "chainInv (runNext s)"
proof (cases "ch_running s = None \<and> ch_queue s \<noteq> []")
  case True
  then obtain n k q where s: "ch_running s = None" "ch_queue s = (n, k) # q" by (cases "ch_queue s") auto
  note start = chainInv_start[OF assms s]
  have "chainInv (finishCall n (Inl e) (s\<lparr>ch_queue := q\<rparr>))" for e
    using chainInv_finish[OF start, of n k "Inl e"] by (simp add: finishCall_def)
  with start show ?thesis by (simp add: runNext_def s split: sum.splits)
qed (use assms in \<open>auto simp: runNext_def split: option.splits list.splits\<close>)

lemma chainInv_witness:
  assumes "chainInv s" "ch_running s = Some (n, k)"
  shows "chainInv (s\<lparr>ch_reads := (n, w, registryWitness (ch_pendingPredicate s) w) # ch_reads s\<rparr>)" (is "chainInv ?t")
proof -
  note i = chainInvD[OF assms(1)]
  have own: "(n, k) \<in> set (ch_accepted s)" "ch_pendingPredicate s = cc_pending k"
    using i(1,2) assms(2) by (simp_all add: refsOk_def running_def slotOk_def)
  show ?thesis
  proof (rule chainInvI)
    show "slotOk ?t" "refsOk ?t" "idsOk ?t" "fifo ?t" using i(1-4)
      by (simp_all add: slotOk_def refsOk_def idsOk_def fifo_def settledWrites_def running_def)
    show "ownReads ?t" using i(5) own unfolding ownReads_def by auto
  qed
qed

lemma chainInv_client: "chainInv s \<Longrightarrow> chainInv (s\<lparr>ch_client := c\<rparr>)"
  unfolding chainInv_def slotOk_def refsOk_def idsOk_def fifo_def settledWrites_def running_def ownReads_def by simp

interpretation chain: event_machine "chainStep sha" chainInv for sha :: "bytes \<Rightarrow> bytes"
proof
  fix s :: "'p callChain" and e assume "chainInv s"
  then show "chainInv (chainStep sha s e)"
    by (cases e) (auto simp: chainInv_request chainInv_runNext chainInv_finish chainInv_witness chainInv_client split: option.splits)
qed

lemma newChain_inv: "chainInv (newChain c)"
  by (simp add: chainInv_def slotOk_def refsOk_def idsOk_def newChain_def running_def fifo_def settledWrites_def ownReads_def)

section \<open>Properties\<close>

text \<open>C39: Private witnesses never leak between requests.  However requests, circuit calls and their ends interleave, every
  witness callback answered with the values of the request whose circuit asked; while no call runs the slot is empty;
  and the writes run one at a time and settle in the order in which they were requested.\<close>

theorem callTx_isolated:
  "let s = run_events (chainStep sha) (newChain c) es in
     list_all (\<lambda>(n, w, v). \<exists>k. (n, k) \<in> set (ch_accepted s) \<and> v = registryWitness (cc_pending k) w) (ch_reads s) \<and>
     (ch_running s = None \<longrightarrow> ch_pendingPredicate s = noPending) \<and>
     map fst (ch_accepted s) = settledWrites s @ map fst (running s) @ map fst (ch_queue s)"
proof -
  have "chainInv (run_events (chainStep sha) (newChain c) es)" by (rule chain.run_inv[OF newChain_inv])
  from chainInvD(1,4,5)[OF this] show ?thesis unfolding Let_def slotOk_def fifo_def ownReads_def by simp
qed

text \<open>An attestation through the sidecar's own attest methods cannot be proved.  Whatever attest method the client is
  asked for, the circuit it calls asks for a witness that the request leaves unset, and the callback throws.\<close>

theorem legacy_attest_never_proves:
  assumes "clientCall sha c op = Inr k" "cc_registry k = R_predicate kind"
    and "cc_lateCheck k = False"
  shows "\<exists>w e. w \<in> set (circuitWitnesses kind) \<and> registryWitness (cc_pending k) w = Inl e"
proof -
  have "pp_claimSalt (cc_pending k) = None"
    using assms by (cases op) (auto simp: attestCall_def registryCall_def callOn_def noPending_def bindR_eq_Inr)
  then have "registryWitness (cc_pending k) W_claimSalt = Inl (Error ''claimSalt witness: no pending claimSalt'')" by simp
  moreover have "W_claimSalt \<in> set (circuitWitnesses kind)" by (cases kind) auto
  ultimately show ?thesis by blast
qed

section \<open>Witnesses\<close>

definition exClient :: midnightClient where
  "exClient = \<lparr>mc_connected = True, mc_ownerSecretKey = None,
     mc_apis = noApis\<lparr>sa_predicates := [(K_age, Inr \<lparr>attestations = [], attestCount = 0\<rparr>)]\<rparr>\<rparr>"

definition exWrites :: "unit chainEvent list" where
  "exWrites = [OpRequested (AttestAge [1] 18 30), OpRequested (AttestAge [2] 21 19), ChainRuns, WitnessCalled W_ageValue,
     CallSettles (Inr ()), ChainRuns, WitnessCalled W_ageValue, CallSettles (Inr ())]"

lemma exWrites_run:
  "ch_running (run_events (chainStep id) (newChain exClient) exWrites) = None"
  "ch_reads (run_events (chainStep id) (newChain exClient) exWrites) = [(1, W_ageValue, Inr (WNum 19)), (0, W_ageValue, Inr (WNum 30))]"
  by (simp_all add: exWrites_def newChain_def exClient_def noApis_def runCallTx_def Let_def attestCall_def getPredicateApi_def
      runNext_def callOn_def noPending_def finishCall_def wNum_def)

theorem callTx_isolated_witness:
  "ch_pendingPredicate (run_events (chainStep id) (newChain exClient) exWrites) = noPending \<and>
   length (ch_reads (run_events (chainStep id) (newChain exClient) exWrites)) = 2"
  using callTx_isolated[of id exClient exWrites] exWrites_run by (simp add: Let_def)

theorem legacy_attest_never_proves_witness:
  "\<exists>k w e. clientCall id exClient (AttestAge [1] 18 30 :: unit clientOp) = Inr k \<and> w \<in> set (circuitWitnesses K_age) \<and>
     registryWitness (cc_pending k) w = Inl e"
proof -
  obtain k where k: "clientCall id exClient (AttestAge [1] 18 30 :: unit clientOp) = Inr k" "cc_registry k = R_predicate K_age"
    "cc_lateCheck k = False"
    by (simp add: exClient_def noApis_def attestCall_def getPredicateApi_def callOn_def)
  with legacy_attest_never_proves[OF k] show ?thesis by blast
qed

end
