(* ===== verification/Sidecar_Routes.thy ===== *)
theory Sidecar_Routes
  imports Midnight_Client
begin

text \<open>
  The HTTP service around the Midnight client: \<open>config.ts\<close>, \<open>client.ts\<close>, the REST routes under \<open>routes/\<close> and the
  authentication, health and reconnect code of \<open>index.ts\<close>, all of \<open>packages/midnight-sidecar/src\<close>.

  A request has a method, the segments of its path, its authorization header and its body.  A handler replies, or asks
  for what it awaits and replies when that settles: a write of the client, a snapshot, a relay job, an event stream, the
  state of the wallet.  Bodies are read at the types the handlers declare for them: a missing text field reads as the
  empty string, and a missing number or hex field makes the handler throw before it asks the client; the reply is the
  same error status.  \<open>HEAD\<close>, which the router answers as \<open>GET\<close>, and the access log are left out.
\<close>

section \<open>Configuration\<close>

definition parseInt10 :: "string \<Rightarrow> int option" where
  "parseInt10 s =
     (let t = trimStart s;
          neg = (t \<noteq> [] \<and> hd t = CHR ''-'');
          u = (if t \<noteq> [] \<and> (hd t = CHR ''-'' \<or> hd t = CHR ''+'') then tl t else t);
          ds = takeWhile isDigit u
      in if ds = [] then None else Some (if neg then - int (readNat ds) else int (readNat ds)))"

record sidecarConfig =
  sc_port :: "int option"
  sc_indexerUri :: string
  sc_indexerWsUri :: string
  sc_proofServerUri :: string
  sc_nodeWsUrl :: string
  sc_networkId :: string
  sc_coinPublicKey :: string
  sc_encryptionPublicKey :: string
  sc_issuerRegistryAddress :: string
  sc_revocationRegistryAddress :: string
  sc_identityRegistryAddress :: string
  sc_predicateAddresses :: "(predicateKind \<times> string) list"
  sc_ownerSecretKey :: string
  sc_apiKey :: string

type_synonym processEnv = "string \<Rightarrow> string option"

definition requiredVar :: "processEnv \<Rightarrow> string \<Rightarrow> string res" where
  "requiredVar env name =
     (let v = the_or [] (env name) in if v = [] then Inl (Error (''Missing required env var: '' @ name)) else Inr v)"

definition optionalVar :: "processEnv \<Rightarrow> string \<Rightarrow> string \<Rightarrow> string" where
  "optionalVar env name fallback = the_or fallback (env name)"

definition predicateVar :: "predicateKind \<Rightarrow> string" where
  "predicateVar k = ''MIDNIGHT_PREDICATE_'' @ toUpperCase (kindName k) @ ''_ADDRESS''"

definition loadConfig :: "processEnv \<Rightarrow> sidecarConfig res" where
  "loadConfig env =
     (let hasWalletSource = the_or [] (env ''MIDNIGHT_WALLET_SEED'') \<noteq> [] \<or> the_or [] (env ''MIDNIGHT_WALLET_MNEMONIC'') \<noteq> [];
          requireOrOptional = (if hasWalletSource then (\<lambda>name. Inr (optionalVar env name [])) else requiredVar env)
      in bindR (requireOrOptional ''MIDNIGHT_COIN_PUBLIC_KEY'') (\<lambda>coin.
         bindR (requireOrOptional ''MIDNIGHT_ENCRYPTION_PUBLIC_KEY'') (\<lambda>enc.
         bindR (requiredVar env ''MIDNIGHT_SIDECAR_API_KEY'') (\<lambda>key. Inr
           \<lparr>sc_port = parseInt10 (optionalVar env ''MIDNIGHT_SIDECAR_PORT'' ''3000''),
            sc_indexerUri = optionalVar env ''MIDNIGHT_INDEXER_URI'' ''http://localhost:8088/api/v3/graphql'',
            sc_indexerWsUri = optionalVar env ''MIDNIGHT_INDEXER_WS_URI'' ''ws://localhost:8088/api/v3/graphql/ws'',
            sc_proofServerUri = optionalVar env ''MIDNIGHT_PROOF_SERVER_URI'' ''http://localhost:6300'',
            sc_nodeWsUrl = optionalVar env ''MIDNIGHT_NODE_WS_URL'' ''ws://localhost:9944'',
            sc_networkId = optionalVar env ''MIDNIGHT_NETWORK_ID'' ''undeployed'',
            sc_coinPublicKey = coin, sc_encryptionPublicKey = enc,
            sc_issuerRegistryAddress = optionalVar env ''MIDNIGHT_ISSUER_REGISTRY_ADDRESS'' [],
            sc_revocationRegistryAddress = optionalVar env ''MIDNIGHT_REVOCATION_REGISTRY_ADDRESS'' [],
            sc_identityRegistryAddress = optionalVar env ''MIDNIGHT_IDENTITY_REGISTRY_ADDRESS'' [],
            sc_predicateAddresses = map (\<lambda>k. (k, optionalVar env (predicateVar k) [])) PREDICATE_KINDS,
            sc_ownerSecretKey = optionalVar env ''MIDNIGHT_OWNER_SECRET_KEY'' [],
            sc_apiKey = key\<rparr>))))"

section \<open>The client of the service\<close>

definition sidecarHexToBytes :: "string \<Rightarrow> bytes" where
  "sidecarHexToBytes h = hexToBytes (if startsWith h ''0x'' then drop 2 h else h)"

definition getClient :: "midnightClient option \<Rightarrow> midnightClient res" where
  "getClient c =
     (case c of
        Some m \<Rightarrow> if mc_connected m then Inr m else Inl (Error ''MidnightClient not initialized. Call initClient() first.'')
      | None \<Rightarrow> Inl (Error ''MidnightClient not initialized. Call initClient() first.''))"

text \<open>The addresses an attempt checks on chain, and the error that names the missing ones.  \<open>probe\<close> is the indexer: an
  error, or whether the contract exists.  The checks run at once; the model reports them in the order of the
  configuration, the code in the order of the answers.\<close>

definition configuredContracts :: "sidecarConfig \<Rightarrow> (string \<times> string) list" where
  "configuredContracts cfg =
     filter (\<lambda>e. snd e \<noteq> [])
       ([(''issuerRegistry'', sc_issuerRegistryAddress cfg), (''revocationRegistry'', sc_revocationRegistryAddress cfg),
         (''identityRegistry'', sc_identityRegistryAddress cfg)] @ map (\<lambda>(k, a). (kindName k, a)) (sc_predicateAddresses cfg))"

definition ellipsis :: string where "ellipsis = [CHR 0xE2, CHR 0x80, CHR 0xA6]"

definition assertContractsOnChain :: "(string \<Rightarrow> bool res) \<Rightarrow> sidecarConfig \<Rightarrow> unit res" where
  "assertContractsOnChain probe cfg =
     bindR (mapR (\<lambda>(name, address). bindR (probe address) (\<lambda>here. Inr (name, address, here))) (configuredContracts cfg)) (\<lambda>rs.
       let missing = map (\<lambda>(name, address, here). name @ ''('' @ take 12 address @ ellipsis @ '')'') (filter (\<lambda>(n, a, here). \<not> here) rs)
       in if missing = [] then Inr ()
          else Inl (Error (''contracts absent from chain '' @ emDash @ '' redeploy and update the *_ADDRESS env vars: '' @
            joinWith '', '' missing)))"

text \<open>The state of \<open>client.ts\<close> and one call of \<open>initClient\<close>.  \<open>wallet\<close> is what \<open>startWalletSupervisor\<close> gives when
  the environment names a wallet; \<open>answers\<close> is what joining gives, or the time-out of the whole connect.\<close>

record clientModule =
  cm_client :: "midnightClient option"
  cm_lastConnectError :: "string option"
  cm_supervised :: bool

definition connectOnce ::
  "unit res option \<Rightarrow> (string \<Rightarrow> bool res) \<Rightarrow> joinAnswers res \<Rightarrow> sidecarConfig \<Rightarrow> clientModule \<Rightarrow> midnightClient res \<times> clientModule" where
  "connectOnce wallet probe answers cfg m0 =
     (let m = m0\<lparr>cm_supervised := cm_supervised m0 \<or> (case wallet of None \<Rightarrow> False | Some u \<Rightarrow> isInr u)\<rparr>;
          c = (if sc_ownerSecretKey cfg = [] then newClient else setOwnerSecretKey (sidecarHexToBytes (sc_ownerSecretKey cfg)) newClient);
          m' = m\<lparr>cm_client := Some c\<rparr>
      in case assertContractsOnChain probe cfg of
           Inl e \<Rightarrow> (Inl e, m')
         | Inr _ \<Rightarrow>
             (case answers of
                Inl e \<Rightarrow> (Inl e, m')
              | Inr J \<Rightarrow> (case connect J c of (Inl e, c') \<Rightarrow> (Inl e, m\<lparr>cm_client := Some c'\<rparr>)
                                           | (Inr _, c') \<Rightarrow> (Inr c', m\<lparr>cm_client := Some c'\<rparr>))))"

definition initClient ::
  "unit res option \<Rightarrow> (string \<Rightarrow> bool res) \<Rightarrow> joinAnswers res \<Rightarrow> sidecarConfig \<Rightarrow> clientModule \<Rightarrow> midnightClient res \<times> clientModule" where
  "initClient wallet probe answers cfg m =
     (case getClient (cm_client m) of
        Inr c \<Rightarrow> (Inr c, m)
      | Inl _ \<Rightarrow>
          (case connectOnce wallet probe answers cfg m of
             (Inr c, m') \<Rightarrow> (Inr c, m'\<lparr>cm_lastConnectError := None\<rparr>)
           | (Inl e, m') \<Rightarrow> (Inl e, m'\<lparr>cm_lastConnectError := Some (message e), cm_client := None\<rparr>)))"

section \<open>Reconnecting\<close>

definition RECONNECT_MIN_MS :: int where "RECONNECT_MIN_MS = 15000"
definition RECONNECT_MAX_MS :: int where "RECONNECT_MAX_MS = 300000"

text \<open>\<open>superviseClient\<close>: the waits between the attempts and the attempt that succeeded.  It need not return: the loop
  tries until an attempt succeeds.\<close>

partial_function (option) superviseFrom :: "(nat \<Rightarrow> unit res) \<Rightarrow> nat \<Rightarrow> int \<Rightarrow> (int list \<times> nat) option" where
  "superviseFrom attempt n delay =
     (case attempt n of
        Inr _ \<Rightarrow> Some ([], n)
      | Inl e \<Rightarrow>
          Option.bind (superviseFrom attempt (Suc n) (min (delay * 2) RECONNECT_MAX_MS)) (\<lambda>r. Some (delay # fst r, snd r)))"

definition superviseClient :: "(nat \<Rightarrow> unit res) \<Rightarrow> (int list \<times> nat) option" where
  "superviseClient attempt = superviseFrom attempt 0 RECONNECT_MIN_MS"

section \<open>Routes\<close>

record httpRequest =
  hr_method :: string
  hr_path :: "string list"
  hr_auth :: "string option"
  hr_topics :: "string option"
  hr_body :: "json res"

datatype 'p routeOutcome =
    Reply int json
  | Await "'p clientOp" "unit res \<Rightarrow> int \<times> json"
  | AwaitSnapshot predicateKind
  | StartRelay predicateKind string
  | StreamJob string
  | AwaitWallet bool
  | OpenEvents "string list"

fun errText :: "js_error \<Rightarrow> string" where
  "errText (Error m) = ''Error: '' @ m"
| "errText (TypeError m) = ''TypeError: '' @ m"
| "errText (AbortError m) = ''AbortError: '' @ m"

definition errorReply :: "int \<Rightarrow> js_error \<Rightarrow> 'p routeOutcome" where
  "errorReply status e = Reply status (JObj [(''error'', JStr (errText e))])"

text \<open>\<open>try { \<dots> } catch (e) { return c.json({ error: String(e) }, status) }\<close>.\<close>

definition guarded :: "int \<Rightarrow> 'p routeOutcome res \<Rightarrow> 'p routeOutcome" where
  "guarded status r = (case r of Inl e \<Rightarrow> errorReply status e | Inr o' \<Rightarrow> o')"

definition submit :: "'p clientOp \<Rightarrow> json \<Rightarrow> 'p routeOutcome" where
  "submit op success =
     Await op (\<lambda>r. case r of Inl e \<Rightarrow> (500, JObj [(''error'', JStr (errText e))]) | Inr _ \<Rightarrow> (200, success))"

definition hexField :: "string \<Rightarrow> json \<Rightarrow> bytes res" where
  "hexField k body = (case asStr (getField k body) of None \<Rightarrow> Inl (TypeError ''startsWith'') | Some h \<Rightarrow> Inr (sidecarHexToBytes h))"

definition textField :: "string \<Rightarrow> json \<Rightarrow> string" where
  "textField k body = the_or [] (asStr (getField k body))"

definition numField :: "string \<Rightarrow> json \<Rightarrow> int res" where
  "numField k body = (case asNum (getField k body) of None \<Rightarrow> Inl (TypeError ''BigInt'') | Some n \<Rightarrow> Inr n)"

definition successJson :: "string \<Rightarrow> json" where
  "successJson m = JObj [(''success'', JBool True), (''message'', JStr m)]"

definition readReply :: "midnightClient res \<Rightarrow> (midnightClient \<Rightarrow> json res) \<Rightarrow> int \<Rightarrow> 'p routeOutcome" where
  "readReply client f status = guarded status (bindR client (\<lambda>c. bindR (f c) (\<lambda>v. Inr (Reply 200 v))))"

definition issuerRoutes :: "(bytes \<Rightarrow> bytes) \<Rightarrow> midnightClient res \<Rightarrow> httpRequest \<Rightarrow> string list \<Rightarrow> 'p routeOutcome option" where
  "issuerRoutes sha client req segs =
     (case segs of
        [a, b] \<Rightarrow>
          if hr_method req = ''GET'' \<and> b = ''status'' then Some
            (readReply client (\<lambda>c. bindR (issuerStatus sha c (sidecarHexToBytes a)) (\<lambda>n.
               Inr (JObj [(''publicKey'', JStr a), (''status'', JNum n)]))) 500)
          else if hr_method req = ''GET'' \<and> b = ''trusted'' then Some
            (readReply client (\<lambda>c. bindR (issuerTrusted sha c (sidecarHexToBytes a)) (\<lambda>t.
               Inr (JObj [(''publicKey'', JStr a), (''trusted'', JBool t)]))) 500)
          else if hr_method req = ''POST'' \<and> b = ''deactivate'' then Some
            (guarded 500 (bindR client (\<lambda>_. Inr (submit (DeactivateIssuer (sidecarHexToBytes a)) (successJson ''Issuer deactivated on-chain'')))))
          else None
      | [a] \<Rightarrow>
          if hr_method req = ''POST'' \<and> a = ''register'' then Some
            (guarded 500 (bindR (hr_body req) (\<lambda>body. bindR client (\<lambda>_. bindR (hexField ''publicKey'' body) (\<lambda>pk.
               Inr (submit (RegisterIssuer pk (textField ''name'' body)) (successJson ''Issuer registered on-chain'')))))))
          else None
      | _ \<Rightarrow> None)"

definition revocationRoutes :: "midnightClient res \<Rightarrow> httpRequest \<Rightarrow> string list \<Rightarrow> 'p routeOutcome option" where
  "revocationRoutes client req segs =
     (case segs of
        [a, b] \<Rightarrow>
          if hr_method req = ''GET'' \<and> b = ''status'' then Some
            (readReply client (\<lambda>c. bindR (credentialStatus c (sidecarHexToBytes a)) (\<lambda>n.
               Inr (JObj [(''rootHash'', JStr a), (''status'', JNum n)]))) 500)
          else if hr_method req = ''GET'' \<and> b = ''revoked'' then Some
            (readReply client (\<lambda>c. bindR (credentialRevoked c (sidecarHexToBytes a)) (\<lambda>t.
               Inr (JObj [(''rootHash'', JStr a), (''revoked'', JBool t)]))) 500)
          else if hr_method req = ''GET'' \<and> b = ''inclusion'' then Some
            (case client of
               Inl e \<Rightarrow> Reply 200 (JObj [(''rootHash'', JStr a), (''included'', JBool False), (''error'', JStr (errText e))])
             | Inr _ \<Rightarrow>
                 Await (ProveRevocationInclusion (sidecarHexToBytes a))
                   (\<lambda>r. case r of
                      Inl e \<Rightarrow> (200, JObj [(''rootHash'', JStr a), (''included'', JBool False), (''error'', JStr (errText e))])
                    | Inr _ \<Rightarrow> (200, JObj [(''rootHash'', JStr a), (''included'', JBool True)])))
          else if hr_method req = ''POST'' \<and> b = ''reactivate'' then Some
            (guarded 500 (bindR (hr_body req) (\<lambda>body. bindR client (\<lambda>_. bindR (hexField ''issuerPublicKey'' body) (\<lambda>pk.
               Inr (submit (ReactivateCredential (sidecarHexToBytes a) pk) (successJson ''Credential reactivated on-chain'')))))))
          else None
      | [a] \<Rightarrow>
          if hr_method req = ''POST'' \<and> (a = ''revoke'' \<or> a = ''suspend'') then Some
            (guarded 500 (bindR (hr_body req) (\<lambda>body. bindR client (\<lambda>_.
               bindR (hexField ''rootHash'' body) (\<lambda>rootHash. bindR (hexField ''issuerPublicKey'' body) (\<lambda>pk.
               Inr (if a = ''revoke''
                    then submit (RevokeCredential rootHash pk (textField ''reason'' body)) (successJson ''Credential revoked on-chain'')
                    else submit (SuspendCredential rootHash pk (textField ''reason'' body)) (successJson ''Credential suspended on-chain'')))))))) 
          else None
      | _ \<Rightarrow> None)"

definition identityRoutes :: "midnightClient res \<Rightarrow> httpRequest \<Rightarrow> string list \<Rightarrow> 'p routeOutcome option" where
  "identityRoutes client req segs =
     (case segs of
        [a, b] \<Rightarrow>
          if hr_method req = ''GET'' \<and> b = ''commitment'' then Some
            (readReply client (\<lambda>c. bindR (commitmentOf c (sidecarHexToBytes a)) (\<lambda>cmt.
               bindR (commitmentStatus c (sidecarHexToBytes a)) (\<lambda>n.
               Inr (JObj [(''didHash'', JStr a), (''commitment'', case cmt of None \<Rightarrow> JNull | Some x \<Rightarrow> JStr (bytesToHex x)),
                          (''status'', JNum n)])))) 500)
          else if hr_method req = ''POST'' \<and> b = ''update'' then Some
            (guarded 500 (bindR (hr_body req) (\<lambda>body. bindR client (\<lambda>_.
               bindR (hexField ''newCommitment'' body) (\<lambda>cmt. bindR (hexField ''issuerKeyHash'' body) (\<lambda>ikh.
               Inr (submit (UpdateCommitment (sidecarHexToBytes a) cmt ikh) (successJson ''Commitment updated on-chain'')))))))) 
          else None
      | [a] \<Rightarrow>
          if hr_method req = ''POST'' \<and> a = ''register'' then Some
            (guarded 500 (bindR (hr_body req) (\<lambda>body. bindR client (\<lambda>_.
               bindR (hexField ''didHash'' body) (\<lambda>didHash. bindR (hexField ''commitment'' body) (\<lambda>cmt.
               bindR (hexField ''issuerKeyHash'' body) (\<lambda>ikh.
               Inr (submit (RegisterIdentity didHash cmt ikh) (successJson ''Identity registered on-chain'')))))))))
          else None
      | _ \<Rightarrow> None)"

subsection \<open>Predicates\<close>

definition parseKind :: "string \<Rightarrow> predicateKind res" where
  "parseKind raw =
     (case find (\<lambda>k. kindName k = raw) PREDICATE_KINDS of
        Some k \<Rightarrow> Inr k
      | None \<Rightarrow> Inl (Error (''Unknown predicate kind '' @ [CHR 0x27] @ raw @ [CHR 0x27] @ ''. Valid kinds: '' @
                  joinWith '', '' (map kindName PREDICATE_KINDS))))"

definition sidecarPadCountry :: "string \<Rightarrow> bytes res" where
  "sidecarPadCountry rawCode =
     (let upper = toUpperCase (trim rawCode) in
      if alpha2Shape upper then Inr (fill32 (utf8Bytes upper))
      else Inl (Error (''country must be ISO 3166-1 alpha-2: got '' @ [CHR 0x22] @ rawCode @ [CHR 0x22])))"

record 'p setMembership =
  sm_code :: bytes
  sm_path :: 'p
  sm_verifierIdHash :: bytes
  sm_setHash :: bytes

definition buildSetMembership ::
  "(bytes \<Rightarrow> bytes) \<Rightarrow> ('t, 'p) compactRuntime \<Rightarrow> string \<Rightarrow> string list \<Rightarrow> string \<Rightarrow> 'p setMembership res" where
  "buildSetMembership sha R countryCode allowedCountries verifierId =
     (if verifierId = [] then Inl (Error ''verifierId required (per-verifier salt for setHash)'') else
      bindR (sidecarPadCountry countryCode) (\<lambda>padded.
      bindR (buildAllowedSetTree R allowedCountries) (\<lambda>built.
      bindR (findPathForCountry R built (toUpperCase countryCode)) (\<lambda>mpath.
      bindR (treeRootBytesLE R (bt_tree built)) (\<lambda>rootBytes.
        let vidHash = sha (utf8Bytes verifierId) in
        bindR (bufSet vidHash 0 (zeros 64)) (\<lambda>o1. bindR (bufSet rootBytes 32 o1) (\<lambda>o2.
        Inr \<lparr>sm_code = padded, sm_path = mpath, sm_verifierIdHash = vidHash, sm_setHash = sha o2\<rparr>)))))))"

text \<open>The reply of an attestation echoes fields of the body; \<open>JSON.stringify\<close> leaves out the absent ones.\<close>

definition predicateSuccess :: "string \<Rightarrow> string list \<Rightarrow> json \<Rightarrow> json" where
  "predicateSuccess kind echoed body =
     JObj ([(''success'', JBool True), (''predicate'', JStr kind)] @
       concat (map (\<lambda>k. case getField k body of None \<Rightarrow> [] | Some v \<Rightarrow> [(k, v)]) echoed))"

definition countryAttest ::
  "(bytes \<Rightarrow> bytes) \<Rightarrow> ('t, 'p) compactRuntime \<Rightarrow> midnightClient res \<Rightarrow> json \<Rightarrow>
    (bytes \<Rightarrow> bytes \<Rightarrow> 'p \<Rightarrow> bytes \<Rightarrow> bytes \<Rightarrow> 'p clientOp) \<Rightarrow> string \<Rightarrow> 'p routeOutcome res" where
  "countryAttest sha R client body op kind =
     bindR (buildSetMembership sha R (textField ''countryCode'' body)
              (concat (map (\<lambda>v. case v of JStr t \<Rightarrow> [t] | _ \<Rightarrow> []) (the_or [] (asArr (getField ''allowedCountries'' body)))))
              (textField ''verifierId'' body)) (\<lambda>m.
     bindR client (\<lambda>_. bindR (hexField ''rootHash'' body) (\<lambda>rootHash.
       Inr (submit (op rootHash (sm_code m) (sm_path m) (sm_verifierIdHash m) (sm_setHash m)) (predicateSuccess kind [''rootHash''] body)))))"

definition attestRoutes ::
  "(bytes \<Rightarrow> bytes) \<Rightarrow> ('t, 'p) compactRuntime \<Rightarrow> midnightClient res \<Rightarrow> httpRequest \<Rightarrow> string \<Rightarrow> 'p routeOutcome option" where
  "attestRoutes sha R client req kind =
     (let handler = (\<lambda>f. Some (guarded 500 (bindR (hr_body req) (\<lambda>body. f body)))) in
      if kind = ''age'' then handler (\<lambda>body. bindR client (\<lambda>_. bindR (hexField ''rootHash'' body) (\<lambda>rootHash.
          bindR (numField ''threshold'' body) (\<lambda>t. bindR (numField ''age'' body) (\<lambda>age.
          Inr (submit (AttestAge rootHash t age) (predicateSuccess kind [''rootHash'', ''threshold''] body)))))))
      else if kind = ''kyc'' then handler (\<lambda>body. bindR client (\<lambda>_. bindR (hexField ''rootHash'' body) (\<lambda>rootHash.
          bindR (numField ''threshold'' body) (\<lambda>t. bindR (numField ''kycLevel'' body) (\<lambda>l.
          Inr (submit (AttestKyc rootHash t l) (predicateSuccess kind [''rootHash'', ''threshold''] body)))))))
      else if kind = ''nationality'' then handler (\<lambda>body. countryAttest sha R client body AttestNationality kind)
      else if kind = ''residency'' then handler (\<lambda>body. countryAttest sha R client body AttestResidency kind)
      else if kind = ''email'' then handler (\<lambda>body. bindR client (\<lambda>_. bindR (hexField ''rootHash'' body) (\<lambda>rootHash.
          bindR (numField ''flag'' body) (\<lambda>flag. Inr (submit (AttestEmailVerified rootHash flag) (predicateSuccess kind [''rootHash''] body))))))
      else if kind = ''age-range'' then handler (\<lambda>body. bindR client (\<lambda>_. bindR (hexField ''rootHash'' body) (\<lambda>rootHash.
          bindR (numField ''minAge'' body) (\<lambda>lo. bindR (numField ''maxAge'' body) (\<lambda>hi. bindR (numField ''age'' body) (\<lambda>age.
          Inr (submit (AttestAgeRange rootHash lo hi age) (predicateSuccess ''age_range'' [''rootHash'', ''minAge'', ''maxAge''] body))))))))
      else if kind = ''personhood'' then handler (\<lambda>body. bindR client (\<lambda>_. bindR (hexField ''rootHash'' body) (\<lambda>rootHash.
          bindR (hexField ''epoch'' body) (\<lambda>ep. bindR (hexField ''appId'' body) (\<lambda>app. bindR (hexField ''personhoodSecret'' body) (\<lambda>sec.
          Inr (submit (AttestUniquePersonhood rootHash ep app sec) (predicateSuccess kind [''rootHash''] body))))))))
      else None)"

definition predicateRoutes ::
  "(bytes \<Rightarrow> bytes) \<Rightarrow> ('t, 'p) compactRuntime \<Rightarrow> midnightClient res \<Rightarrow> httpRequest \<Rightarrow> string list \<Rightarrow> 'p routeOutcome option" where
  "predicateRoutes sha R client req segs =
     (case segs of
        [a, b] \<Rightarrow>
          if hr_method req = ''POST'' \<and> a = ''attest'' \<and> attestRoutes sha R client req b \<noteq> None then attestRoutes sha R client req b
          else if hr_method req = ''GET'' \<and> b = ''count'' then Some
            (guarded 400 (bindR (parseKind a) (\<lambda>k. bindR client (\<lambda>c. bindR (predicateAttestCount c k) (\<lambda>n.
               Inr (Reply 200 (JObj [(''kind'', JStr a), (''attestCount'', JStr (showInt n))])))))))
          else if hr_method req = ''GET'' \<and> b = ''snapshot'' then Some
            (guarded 400 (bindR (parseKind a) (\<lambda>k. bindR client (\<lambda>_. Inr (AwaitSnapshot k)))))
          else if hr_method req = ''POST'' \<and> b = ''relay'' then Some
            (guarded 500 (bindR (parseKind a) (\<lambda>k. bindR (hr_body req) (\<lambda>body.
               if textField ''provenTx'' body = [] then Inr (Reply 400 (JObj [(''error'', JStr ''provenTx required'')]))
               else bindR client (\<lambda>c. bindR (getPredicateApi c k) (\<lambda>_. Inr (StartRelay k (textField ''provenTx'' body))))))))
          else None
      | [a, b, c] \<Rightarrow>
          if hr_method req = ''GET'' \<and> c = ''attested'' then Some
            (guarded 400 (bindR (parseKind a) (\<lambda>k. bindR client (\<lambda>m. bindR (attested m k (sidecarHexToBytes b)) (\<lambda>t.
               Inr (Reply 200 (JObj [(''kind'', JStr a), (''key'', JStr b), (''attested'', JBool t)])))))))
          else if hr_method req = ''GET'' \<and> a = ''job'' \<and> b \<noteq> [] \<and> c = ''events'' then Some (StreamJob b)
          else None
      | _ \<Rightarrow> None)"

subsection \<open>The application\<close>

definition bearerToken :: "string option \<Rightarrow> string" where
  "bearerToken header =
     (let h = the_or [] header in if startsWith h ''Bearer '' then trim (drop 7 h) else [])"

definition authorized :: "string \<Rightarrow> string option \<Rightarrow> bool" where
  "authorized apiKey header \<longleftrightarrow> bearerToken header \<noteq> [] \<and> bearerToken header = apiKey"

definition notFound :: "'p routeOutcome" where
  "notFound = Reply 404 (JStr ''404 Not Found'')"

definition healthRoute :: "sidecarConfig \<Rightarrow> clientModule \<Rightarrow> 'p routeOutcome" where
  "healthRoute cfg m =
     (case getClient (cm_client m) of
        Inr c \<Rightarrow> Reply 200 (JObj [(''status'', JStr ''ok''), (''connected'', JBool (mc_connected c)),
          (''contracts'', JObj [(''issuerRegistry'', JBool (sc_issuerRegistryAddress cfg \<noteq> [])),
                                (''revocationRegistry'', JBool (sc_revocationRegistryAddress cfg \<noteq> [])),
                                (''identityRegistry'', JBool (sc_identityRegistryAddress cfg \<noteq> []))])])
      | Inl _ \<Rightarrow> Reply 503 (JObj [(''status'', JStr ''degraded''), (''connected'', JBool False),
          (''error'', JStr (the_or ''MidnightClient not connected'' (cm_lastConnectError m)))]))"

definition walletHealth :: "clientModule \<Rightarrow> bool \<Rightarrow> 'p routeOutcome" where
  "walletHealth m dust =
     (if cm_supervised m then AwaitWallet dust else Reply 503 (JObj [(''error'', JStr ''no wallet (read-only mode)'')]))"

definition handle ::
  "(bytes \<Rightarrow> bytes) \<Rightarrow> ('t, 'p) compactRuntime \<Rightarrow> sidecarConfig \<Rightarrow> clientModule \<Rightarrow> httpRequest \<Rightarrow> 'p routeOutcome" where
  "handle sha R cfg m req =
     (case hr_path req of
        seg # segs \<Rightarrow>
          if seg = ''health'' \<and> segs = [] \<and> hr_method req = ''GET'' then healthRoute cfg m
          else if seg = ''health'' \<and> segs = [''wallet''] \<and> hr_method req = ''GET'' then walletHealth m False
          else if seg = ''health'' \<and> segs = [''wallet'', ''dust''] \<and> hr_method req = ''GET'' then walletHealth m True
          else if seg = ''api'' \<or> seg = ''events'' \<and> segs = [] then
            if \<not> authorized (sc_apiKey cfg) (hr_auth req) then Reply 401 (JObj [(''error'', JStr ''Unauthorized'')])
            else if seg = ''events'' then (if hr_method req = ''GET'' then OpenEvents (parseTopics (hr_topics req)) else notFound)
            else (case segs of
                    [] \<Rightarrow> notFound
                  | grp # rest \<Rightarrow>
                      let client = getClient (cm_client m) in
                      the_or notFound
                        (if grp = ''issuers'' then issuerRoutes sha client req rest
                         else if grp = ''revocations'' then revocationRoutes client req rest
                         else if grp = ''identities'' then identityRoutes client req rest
                         else if grp = ''predicates'' then predicateRoutes sha R client req rest
                         else None))
          else notFound
      | [] \<Rightarrow> notFound)"


section \<open>Only callers with the key are served\<close>

definition protectedPath :: "httpRequest \<Rightarrow> bool" where
  "protectedPath req \<longleftrightarrow> hr_path req = [''events''] \<or> (\<exists>segs. hr_path req = ''api'' # segs)"

fun publicOutcome :: "'p routeOutcome \<Rightarrow> bool" where
  "publicOutcome (Reply status body) \<longleftrightarrow> status \<in> {200, 404, 503}"
| "publicOutcome (AwaitWallet dust) \<longleftrightarrow> True"
| "publicOutcome _ \<longleftrightarrow> False"

lemma public_simps [simp]: "publicOutcome notFound" "publicOutcome (healthRoute cfg m)" "publicOutcome (walletHealth m dust)"
  by (auto simp: notFound_def healthRoute_def walletHealth_def split: sum.splits)

lemma handle_protected:
  assumes "protectedPath req" "\<not> authorized (sc_apiKey cfg) (hr_auth req)"
  shows "handle sha R cfg m req = Reply 401 (JObj [(''error'', JStr ''Unauthorized'')])"
  using assms by (auto simp: protectedPath_def handle_def)

lemma handle_public:
  assumes "\<not> protectedPath req"
  shows "publicOutcome (handle sha R cfg m req)"
  using assms by (auto simp: protectedPath_def handle_def split: list.splits)

text \<open>What the service starts with: the key is the environment's, and it is not empty.\<close>

lemma loadConfig_key: "loadConfig env = Inr cfg \<Longrightarrow> env ''MIDNIGHT_SIDECAR_API_KEY'' = Some (sc_apiKey cfg) \<and> sc_apiKey cfg \<noteq> []"
  by (cases "env ''MIDNIGHT_SIDECAR_API_KEY''")
    (auto simp: loadConfig_def Let_def requiredVar_def res_simps split: if_splits)

lemma trim_padding:
  obtains pre post where "s = pre @ trim s @ post" "list_all isSpace pre" "list_all isSpace post"
proof -
  define t where "t = rev (dropWhile isSpace s)"
  have t: "t = takeWhile isSpace t @ dropWhile isSpace t" by simp
  then have "dropWhile isSpace s = rev (dropWhile isSpace t) @ rev (takeWhile isSpace t)"
    unfolding t_def by (metis rev_append rev_rev_ident)
  moreover have "rev (dropWhile isSpace t) = trim s" by (simp add: trim_def trimStart_def t_def)
  ultimately have "s = takeWhile isSpace s @ trim s @ rev (takeWhile isSpace t)" by (metis takeWhile_dropWhile_id)
  moreover have "list_all isSpace (takeWhile isSpace s)" "list_all isSpace (rev (takeWhile isSpace t))"
    by (auto simp: list_all_iff dest: set_takeWhileD)
  ultimately show thesis by (rule that)
qed

lemma startsWith_drop: "startsWith s p \<Longrightarrow> s = p @ drop (length p) s"
  unfolding startsWith_def by (metis append_take_drop_id)

lemma bearerToken_header:
  assumes "bearerToken header = k" "k \<noteq> []"
  obtains pre post where "header = Some (''Bearer '' @ pre @ k @ post)" "list_all isSpace pre" "list_all isSpace post"
proof -
  from assms obtain h where h: "header = Some h" "startsWith h ''Bearer ''" "trim (drop 7 h) = k"
    by (cases header) (auto simp: bearerToken_def Let_def startsWith_def split: if_splits)
  obtain pre post where "drop 7 h = pre @ k @ post" "list_all isSpace pre" "list_all isSpace post"
    using trim_padding [of "drop 7 h"] h(3) by metis
  moreover have "h = ''Bearer '' @ drop 7 h" using startsWith_drop [OF h(2)] by (simp add: numeral_eq_Suc)
  ultimately show thesis using that [of pre post] h(1) by simp
qed

lemma authorized_header:
  assumes "authorized k header"
  obtains pre post where "header = Some (''Bearer '' @ pre @ k @ post)" "list_all isSpace pre" "list_all isSpace post"
  using assms bearerToken_header [of header k thesis] that unfolding authorized_def by metis

text \<open>C40: The API key guards the service.  Suppose the service was started with some environment and a request's
  \<open>Authorization\<close> header is not \<open>Bearer\<close> followed by the value of \<open>MIDNIGHT_SIDECAR_API_KEY\<close> in that environment, up to
  white space around the key (it may be absent, use another scheme, or carry any other token, the empty one included).
  Then a request to a path under \<open>/api\<close> or to \<open>/events\<close> gets 401 whatever its method, body and the state of the client,
  and on any other path the request gets a plain answer or the wallet's health: it never makes the service submit, relay,
  snapshot or stream anything.\<close>

theorem routes_require_key:
  assumes "loadConfig env = Inr cfg" "env ''MIDNIGHT_SIDECAR_API_KEY'' = Some k"
    and "\<forall>pre post. list_all isSpace pre \<and> list_all isSpace post \<longrightarrow> hr_auth req \<noteq> Some (''Bearer '' @ pre @ k @ post)"
  shows "if protectedPath req then handle sha R cfg m req = Reply 401 (JObj [(''error'', JStr ''Unauthorized'')])
         else publicOutcome (handle sha R cfg m req)"
proof -
  have "sc_apiKey cfg = k" using loadConfig_key [OF assms(1)] assms(2) by simp
  then have "\<not> authorized (sc_apiKey cfg) (hr_auth req)" using assms(3) by (metis authorized_header)
  then show ?thesis using handle_protected handle_public by auto
qed

section \<open>A service without a client refuses\<close>

fun refused :: "'p routeOutcome \<Rightarrow> bool" where
  "refused (Reply status body) \<longleftrightarrow> status \<ge> 400 \<or> getField ''included'' body = Some (JBool False)"
| "refused (StreamJob _) \<longleftrightarrow> True"
| "refused _ \<longleftrightarrow> False"

fun refusedR :: "'p routeOutcome res \<Rightarrow> bool" where
  "refusedR (Inl e) \<longleftrightarrow> True"
| "refusedR (Inr o') \<longleftrightarrow> refused o'"

lemma refusedR_bind: "(\<And>y. refusedR (f y)) \<Longrightarrow> refusedR (bindR x f)"
  by (cases x) simp_all

lemma refused_guarded: "status \<ge> 400 \<Longrightarrow> refused (guarded status r) = refusedR r"
  by (cases r) (simp_all add: guarded_def errorReply_def)

lemma refused_read: "status \<ge> 400 \<Longrightarrow> refused (readReply (Inl e) f status)"
  by (simp add: readReply_def refused_guarded)

lemmas refused_rules = refused_guarded refused_read refusedR_bind

definition refusedO :: "'p routeOutcome option \<Rightarrow> bool" where
  "refusedO r = (case r of None \<Rightarrow> True | Some o' \<Rightarrow> refused o')"

lemma refusedO_simps [simp]: "refusedO None" "refusedO (Some o') = refused o'"
  by (simp_all add: refusedO_def)

lemma refused_routes:
  "refusedO (issuerRoutes sha (Inl e) req segs)"
  "refusedO (revocationRoutes (Inl e) req segs)"
  "refusedO (identityRoutes (Inl e) req segs)"
  by (auto simp: issuerRoutes_def revocationRoutes_def identityRoutes_def refused_rules split: list.splits)

lemma refused_attest: "refusedO (attestRoutes sha R (Inl e) req kind)"
  by (simp add: attestRoutes_def Let_def countryAttest_def refused_rules)

lemma refused_predicates: "refusedO (predicateRoutes sha R (Inl e) req segs)"
  by (auto simp: predicateRoutes_def refused_rules refused_attest split: list.splits)

text \<open>While the chain client is not connected the service never acts: every request under \<open>/api\<close>, whoever sends it,
  gets an error status, an \<open>included: false\<close> answer, or a job stream, which then reports \<open>unknown\<close>.\<close>

theorem disconnected_refuses:
  assumes "getClient (cm_client m) = Inl e" "hr_path req = ''api'' # segs"
  shows "refused (handle sha R cfg m req)"
proof -
  have opt: "refused (the_or notFound r)" if "refusedO r" for r :: "'p routeOutcome option"
    using that by (cases r) (simp_all add: notFound_def)
  have "refusedO (if g = ''issuers'' then issuerRoutes sha (Inl e) req rest
      else if g = ''revocations'' then revocationRoutes (Inl e) req rest
      else if g = ''identities'' then identityRoutes (Inl e) req rest
      else if g = ''predicates'' then predicateRoutes sha R (Inl e) req rest else None)" for g rest
    by (simp add: refused_routes refused_predicates)
  from opt[OF this] show ?thesis
    using assms by (simp add: handle_def Let_def notFound_def[symmetric] split: list.split) (simp add: notFound_def)
qed


section \<open>The health check tells the truth\<close>

lemma connect_connects: "connect J c = (Inr u, c') \<Longrightarrow> mc_connected c'"
  by (auto simp: connect_def bindA_def modA_def split: prod.splits sum.splits)

lemma getClient_Inr: "getClient (Some c) = Inr c' \<longleftrightarrow> mc_connected c \<and> c' = c"
  by (auto simp: getClient_def)

lemma getClient_eq_Inr: "getClient o' = Inr c \<longleftrightarrow> o' = Some c \<and> mc_connected c"
  by (auto simp: getClient_def split: option.splits if_splits)

lemma connectOnce_client:
  "connectOnce wallet probe answers cfg m = (Inr c, m') \<Longrightarrow> getClient (cm_client m') = Inr c"
  by (auto simp: connectOnce_def Let_def getClient_Inr dest: connect_connects split: sum.splits prod.splits)

text \<open>The health check reports what \<open>initClient\<close> found.  After an attempt that returns, \<open>getClient\<close> gives the client it
  returned and \<open>/health\<close> answers 200; after an attempt that throws, no client is left behind, \<open>/health\<close> answers 503
  with the message of the failure, and the next attempt starts from scratch.\<close>

theorem health_after_init:
  shows "case initClient wallet probe answers cfg m of
      (Inr c, m') \<Rightarrow> getClient (cm_client m') = Inr c \<and> (\<exists>body. healthRoute cfg' m' = Reply 200 body)
    | (Inl e, m') \<Rightarrow> cm_client m' = None \<and>
        healthRoute cfg' m' = Reply 503 (JObj [(''status'', JStr ''degraded''), (''connected'', JBool False),
          (''error'', JStr (message e))])"
proof (cases "getClient (cm_client m)")
  case (Inr c)
  then show ?thesis by (simp add: initClient_def healthRoute_def)
next
  case (Inl e0)
  show ?thesis
  proof (cases "connectOnce wallet probe answers cfg m")
    case (Pair r m')
    then show ?thesis
      using Inl connectOnce_client[of wallet probe answers cfg m _ m']
      by (cases r) (simp_all add: initClient_def healthRoute_def getClient_def)
  qed
qed

section \<open>The reconnect loop\<close>

definition reconnectDelay :: "nat \<Rightarrow> int" where
  "reconnectDelay k = min (RECONNECT_MIN_MS * 2 ^ k) RECONNECT_MAX_MS"

lemma reconnectDelay_Suc: "min (reconnectDelay k * 2) RECONNECT_MAX_MS = reconnectDelay (Suc k)"
  by (simp add: reconnectDelay_def RECONNECT_MAX_MS_def RECONNECT_MIN_MS_def min_def)

lemma superviseFrom_returns:
  "(\<And>k. n \<le> k \<Longrightarrow> k < n + d \<Longrightarrow> \<not> isInr (attempt k)) \<Longrightarrow> isInr (attempt (n + d)) \<Longrightarrow>
    superviseFrom attempt n (reconnectDelay n) = Some (map reconnectDelay [n..<n + d], n + d)"
proof (induction d arbitrary: n)
  case 0
  then show ?case by (subst superviseFrom.simps) (auto simp: isInr_ex)
next
  case (Suc d)
  from Suc.prems(1)[of n] obtain e where "attempt n = Inl e" by (cases "attempt n") auto
  moreover have "superviseFrom attempt (Suc n) (reconnectDelay (Suc n)) =
      Some (map reconnectDelay [Suc n..<Suc n + d], Suc n + d)"
    using Suc.prems by (intro Suc.IH) auto
  moreover have "[n..<n + Suc d] = n # [Suc n..<Suc n + d]" by (simp add: upt_rec)
  ultimately show ?case by (subst superviseFrom.simps) (simp add: reconnectDelay_Suc)
qed

lemma superviseFrom_result:
  assumes "superviseFrom attempt n delay = Some r"
  shows "n \<le> snd r \<and> isInr (attempt (snd r)) \<and> (\<forall>i. n \<le> i \<longrightarrow> i < snd r \<longrightarrow> \<not> isInr (attempt i))"
proof (rule superviseFrom.raw_induct[OF _ assms])
  fix f att n delay r
  assume IH: "\<And>att n delay r. f att n delay = Some r \<Longrightarrow>
      n \<le> snd r \<and> isInr (att (snd r)) \<and> (\<forall>i. n \<le> i \<longrightarrow> i < snd r \<longrightarrow> \<not> isInr (att i))"
    and body: "(case att n of
        Inl e \<Rightarrow> Option.bind (f att (Suc n) (min (delay * 2) RECONNECT_MAX_MS)) (\<lambda>r. Some (delay # fst r, snd r))
      | Inr u \<Rightarrow> Some ([], n)) = Some r"
  show "n \<le> snd r \<and> isInr (att (snd r)) \<and> (\<forall>i. n \<le> i \<longrightarrow> i < snd r \<longrightarrow> \<not> isInr (att i))"
  proof (cases "att n")
    case (Inl e)
    with body obtain r' where r': "f att (Suc n) (min (delay * 2) RECONNECT_MAX_MS) = Some r'" "snd r = snd r'"
      by (auto split: bind_splits)
    have "\<not> isInr (att i)" if "n \<le> i" "i < snd r" for i
      using that IH[OF r'(1)] r'(2) Inl by (cases "i = n") simp_all
    with IH[OF r'(1)] r'(2) show ?thesis by simp
  qed (use body in auto)
qed

text \<open>The reconnect loop never gives up and backs off: it returns exactly when some attempt succeeds, after the first
  attempt that does, having waited 15 s doubled after every failure up to 5 minutes; when no attempt succeeds it
  does not return.\<close>

theorem supervise_first_success:
  "superviseClient attempt = Some (ws, n) \<longleftrightarrow>
     isInr (attempt n) \<and> list_all (\<lambda>k. \<not> isInr (attempt k)) [0..<n] \<and> ws = map reconnectDelay [0..<n]"
proof -
  have start: "superviseClient attempt = superviseFrom attempt 0 (reconnectDelay 0)"
    by (simp add: superviseClient_def reconnectDelay_def RECONNECT_MIN_MS_def RECONNECT_MAX_MS_def)
  then show ?thesis
    using superviseFrom_returns[of 0 n attempt] superviseFrom_result[of attempt 0 "reconnectDelay 0" "(ws, n)"]
    by (auto simp: list_all_iff)
qed

section \<open>Country attestations of the service\<close>

lemma sidecarPadCountry_plain: "alpha2Shape (toUpperCase c) \<Longrightarrow> trim c = c \<Longrightarrow> sidecarPadCountry c = Inr (Claim_Trees.padCountry c)"
  by (simp add: sidecarPadCountry_def Claim_Trees.padCountry_def)

lemma setMembership_tail:
  assumes "sha_32 sha" "length rb = 32"
  shows "bindR (bufSet (sha v) 0 (zeros 64)) (\<lambda>x. bindR (bufSet rb 32 x) (\<lambda>y. Inr (f y))) = Inr (f (sha v @ rb))"
  using bufSet_64[of "sha v" rb f] assms by (simp add: sha_32_def)

lemma isSpace_upperChar: "isSpace x \<Longrightarrow> upperChar x = x \<and> \<not> isAsciiUpper x"
  by (auto simp: isSpace_def upperChar_def isAsciiLower_def isAsciiUpper_def)

lemma upper_shape_plain: "alpha2Shape (toUpperCase c) \<Longrightarrow> trim c = c"
  by (rule trim_no_space) (auto simp: alpha2Shape_def toUpperCase_def list_all_iff, metis isSpace_upperChar)

text \<open>The country attestations of the service scope like the holder's.  For a list of at most 256 valid codes and a
  verifier id, \<open>buildSetMembership\<close> succeeds exactly when the upper-cased country of the request is on the list; the
  set hash it returns is \<open>allowedCountrySetHash\<close>, the one the verifier derives, and the path carries the padded country
  and folds to the root under that hash.\<close>

theorem set_membership_scoped:
  assumes "paths_fold R" "sha_32 sha" "card (validSet codes) \<le> 256" "vid \<noteq> []"
  shows "case buildSetMembership sha R c codes vid of
      Inl e \<Rightarrow> toUpperCase c \<notin> validSet codes
    | Inr s \<Rightarrow> toUpperCase c \<in> validSet codes \<and> sm_code s = pathLeaf R (sm_path s) \<and>
        sm_verifierIdHash s = verifierIdHash sha vid \<and>
        allowedCountrySetHash sha R vid codes = Inr (sm_setHash s) \<and>
        sm_setHash s = sha256 sha [sm_verifierIdHash s, fill32 (pathRoot R (sm_path s))]"
proof -
  obtain built where b: "buildAllowedSetTree R codes = Inr built"
      "isInr (findPathForCountry R built (toUpperCase c)) \<longleftrightarrow> toUpperCase c \<in> validSet codes"
      "\<And>p. findPathForCountry R built (toUpperCase c) = Inr p \<Longrightarrow>
        pathLeaf R p = Claim_Trees.padCountry c \<and> treeRootBytesLE R (bt_tree built) = Inr (fill32 (pathRoot R p))"
    using country_path_lookup[OF assms(1,3), of "toUpperCase c"] by (auto simp: Claim_Trees.padCountry_def)
  show ?thesis
  proof (cases "toUpperCase c \<in> validSet codes")
    case True
    with b(2) obtain p where p: "findPathForCountry R built (toUpperCase c) = Inr p" by (auto simp: isInr_ex)
    have root: "treeRootBytesLE R (bt_tree built) = Inr (fill32 (pathRoot R p))" and leaf: "pathLeaf R p = Claim_Trees.padCountry c"
      using b(3)[OF p] by simp_all
    have shape: "alpha2Shape (toUpperCase c)" using True by (simp add: validSet_def)
    have pad: "sidecarPadCountry c = Inr (Claim_Trees.padCountry c)"
      using sidecarPadCountry_plain[OF shape upper_shape_plain[OF shape]] .
    show ?thesis
      using True assms(4)
      by (simp add: buildSetMembership_def pad b(1) p root Let_def leaf allowedCountrySetHash_def sha256_def
          verifierIdHash_def setMembership_tail[OF assms(2) treeRootBytesLE_length[OF root]])
  next
    case False
    with b(2) have "\<not> isInr (findPathForCountry R built (toUpperCase c))" by simp
    then obtain e where e: "findPathForCountry R built (toUpperCase c) = Inl e"
      by (cases "findPathForCountry R built (toUpperCase c)") auto
    with False assms(4) b(1) show ?thesis
      by (cases "sidecarPadCountry c") (simp_all add: buildSetMembership_def)
  qed
qed


section \<open>Witnesses\<close>

definition exProcess :: processEnv where
  "exProcess name =
     (if name = ''MIDNIGHT_SIDECAR_API_KEY'' then Some ''secret''
      else if name = ''MIDNIGHT_WALLET_SEED'' then Some ''01'' else None)"

definition exModule :: clientModule where
  "exModule = \<lparr>cm_client = None, cm_lastConnectError = None, cm_supervised = False\<rparr>"

definition exRevoke :: httpRequest where
  "exRevoke = \<lparr>hr_method = ''POST'', hr_path = [''api'', ''revocations'', ''revoke''], hr_auth = None, hr_topics = None,
     hr_body = Inr (JObj [])\<rparr>"

lemma exProcess_loads: "isInr (loadConfig exProcess)"
  by (simp add: loadConfig_def exProcess_def requiredVar_def Let_def)

theorem routes_require_key_witness:
  "\<exists>cfg. loadConfig exProcess = Inr cfg \<and> sc_apiKey cfg = ''secret'' \<and>
     handle exSha exRuntime cfg exModule (exRevoke\<lparr>hr_auth := Some ''Bearer secrex''\<rparr>)
       = Reply 401 (JObj [(''error'', JStr ''Unauthorized'')])"
proof -
  let ?req = "exRevoke\<lparr>hr_auth := Some ''Bearer secrex''\<rparr>"
  obtain cfg where cfg: "loadConfig exProcess = Inr cfg" using exProcess_loads by (auto simp: isInr_ex)
  have key: "exProcess ''MIDNIGHT_SIDECAR_API_KEY'' = Some ''secret''" by (simp add: exProcess_def)
  have no: "\<forall>pre post. list_all isSpace pre \<and> list_all isSpace post \<longrightarrow> hr_auth ?req \<noteq> Some (''Bearer '' @ pre @ ''secret'' @ post)"
  proof (intro allI impI)
    fix pre post assume "list_all isSpace pre \<and> list_all isSpace post"
    then have "pre @ ''secret'' @ post \<noteq> ''secrex''" by (auto simp: append_eq_Cons_conv)
    then show "hr_auth ?req \<noteq> Some (''Bearer '' @ pre @ ''secret'' @ post)" by simp
  qed
  have "protectedPath ?req" by (simp add: protectedPath_def exRevoke_def)
  with routes_require_key [OF cfg key no, of exSha exRuntime exModule] loadConfig_key [OF cfg] key cfg show ?thesis by auto
qed

theorem disconnected_refuses_witness:
  "\<exists>cfg. loadConfig exProcess = Inr cfg \<and>
     refused (handle exSha exRuntime cfg exModule (exRevoke\<lparr>hr_auth := Some ''Bearer secret''\<rparr>))"
proof -
  obtain cfg where cfg: "loadConfig exProcess = Inr cfg" using exProcess_loads by (auto simp: isInr_ex)
  have "getClient (cm_client exModule) = Inl (Error ''MidnightClient not initialized. Call initClient() first.'')"
    by (simp add: exModule_def getClient_def)
  from disconnected_refuses[OF this, of "exRevoke\<lparr>hr_auth := Some ''Bearer secret''\<rparr>"] cfg show ?thesis
    by (auto simp: exRevoke_def)
qed

theorem set_membership_scoped_witness:
  "\<exists>s. buildSetMembership exSha exRuntime ''nl'' [''NL'', ''DE''] ''v'' = Inr s \<and>
     allowedCountrySetHash exSha exRuntime ''v'' [''NL'', ''DE''] = Inr (sm_setHash s)"
proof -
  have valid: "validSet [''NL'', ''DE''] = {''NL'', ''DE''}" "toUpperCase ''nl'' = ''NL''" by code_simp+
  then have "card (validSet [''NL'', ''DE'']) \<le> 256" by simp
  from set_membership_scoped[OF exRuntime_paths_fold exSha_32 this, of "''v''" "''nl''"] valid show ?thesis
    by (auto split: sum.splits)
qed

end
