(* ===== verification/Compact_Modules.thy ===== *)
theory Compact_Modules
  imports Js_Async Ledger_Events
begin

text \<open>
  What the Compact contracts of \<open>packages/midnight-sidecar/contracts\<close> share: the vendored modules \<open>lib/security/Initializable\<close>,
  \<open>lib/security/Pausable\<close>, \<open>lib/access/Ownable\<close> and \<open>lib/utils/Utils\<close>, and the histories of a deployed contract.

  A circuit is an action on the contract's ledger that may fail; \<open>ownPublicKey()\<close> is the argument \<open>caller\<close>.  A transaction
  whose circuit fails is not applied, so only successful calls are steps of a contract.  \<open>persistentHash\<close> of a vector of
  32-byte values is the digest \<open>sha\<close> of their concatenation.  Maps are association lists, sets and trees lists of their
  elements in order of insertion.
\<close>

section \<open>Modules\<close>

text \<open>\<open>Either<ZswapCoinPublicKey, ContractAddress>\<close>.\<close>

type_synonym keyOrAddress = "bytes + bytes"

record contractBase =
  cb_isInitialized :: bool
  cb_isPaused :: bool
  cb_owner :: keyOrAddress

definition assertC :: "bool \<Rightarrow> string \<Rightarrow> ('s, unit) act" where
  "assertC c m = (if c then returnA () else throwA (Error m))"

definition assertInitialized :: "('a contractBase_scheme, unit) act" where
  "assertInitialized s = assertC (cb_isInitialized s) ''Initializable: contract not initialized'' s"

definition Initializable_initialize :: "('a contractBase_scheme, unit) act" where
  "Initializable_initialize s =
     seqA (assertC (\<not> cb_isInitialized s) ''Initializable: contract already initialized'')
       (modA (\<lambda>s. s\<lparr>cb_isInitialized := True\<rparr>)) s"

definition assertNotPaused :: "('a contractBase_scheme, unit) act" where
  "assertNotPaused s = assertC (\<not> cb_isPaused s) ''Pausable: paused'' s"

definition pausable_pause :: "('a contractBase_scheme, unit) act" where
  "pausable_pause = seqA assertNotPaused (modA (\<lambda>s. s\<lparr>cb_isPaused := True\<rparr>))"

definition pausable_unpause :: "('a contractBase_scheme, unit) act" where
  "pausable_unpause s =
     seqA (assertC (cb_isPaused s) ''Pausable: not paused'') (modA (\<lambda>s. s\<lparr>cb_isPaused := False\<rparr>)) s"

definition isContractAddress :: "keyOrAddress \<Rightarrow> bool" where
  "isContractAddress k = (case k of Inl _ \<Rightarrow> False | Inr _ \<Rightarrow> True)"

definition isKeyOrAddressZero :: "keyOrAddress \<Rightarrow> bool" where
  "isKeyOrAddressZero k = (case k of Inl key \<Rightarrow> key = zero32 | Inr addr \<Rightarrow> addr = zero32)"

definition unsafeUncheckedTransferOwnership :: "keyOrAddress \<Rightarrow> ('a contractBase_scheme, unit) act" where
  "unsafeUncheckedTransferOwnership newOwner = seqA assertInitialized (modA (\<lambda>s. s\<lparr>cb_owner := newOwner\<rparr>))"

definition transferOwnershipUnchecked :: "keyOrAddress \<Rightarrow> ('a contractBase_scheme, unit) act" where
  "transferOwnershipUnchecked newOwner =
     seqA assertInitialized
    (seqA (assertC (\<not> isContractAddress newOwner) ''Ownable: unsafe ownership transfer'')
          (unsafeUncheckedTransferOwnership newOwner))"

definition Ownable_initialize :: "keyOrAddress \<Rightarrow> ('a contractBase_scheme, unit) act" where
  "Ownable_initialize initialOwner =
     seqA Initializable_initialize
    (seqA (assertC (\<not> isKeyOrAddressZero initialOwner) ''Ownable: invalid initial owner'')
          (transferOwnershipUnchecked initialOwner))"

definition assertOnlyOwner :: "bytes \<Rightarrow> ('a contractBase_scheme, unit) act" where
  "assertOnlyOwner caller s =
     seqA assertInitialized
       (case cb_owner s of
          Inl key \<Rightarrow> assertC (caller = key) ''Ownable: caller is not the owner''
        | Inr _ \<Rightarrow> assertC False ''Ownable: contract address owner authentication is not yet supported'') s"

definition unsafeTransferOwnership :: "bytes \<Rightarrow> keyOrAddress \<Rightarrow> ('a contractBase_scheme, unit) act" where
  "unsafeTransferOwnership caller newOwner =
     seqA assertInitialized (seqA (assertOnlyOwner caller)
    (seqA (assertC (\<not> isKeyOrAddressZero newOwner) ''Ownable: invalid new owner'')
          (unsafeUncheckedTransferOwnership newOwner)))"

definition transferOwnership :: "bytes \<Rightarrow> keyOrAddress \<Rightarrow> ('a contractBase_scheme, unit) act" where
  "transferOwnership caller newOwner =
     seqA assertInitialized
    (seqA (assertC (\<not> isContractAddress newOwner) ''Ownable: unsafe ownership transfer'')
          (unsafeTransferOwnership caller newOwner))"

text \<open>The administrative circuits every contract exports.\<close>

datatype adminTx = TxPause | TxUnpause | TxTransferOwnership keyOrAddress

fun adminCircuit :: "bytes \<Rightarrow> adminTx \<Rightarrow> ('a contractBase_scheme, unit) act" where
  "adminCircuit caller TxPause = seqA (assertOnlyOwner caller) pausable_pause"
| "adminCircuit caller TxUnpause = seqA (assertOnlyOwner caller) pausable_unpause"
| "adminCircuit caller (TxTransferOwnership newOwner) = transferOwnership caller newOwner"

section \<open>Reasoning about circuits\<close>

lemmas module_defs = assertInitialized_def Initializable_initialize_def assertNotPaused_def pausable_pause_def
  pausable_unpause_def unsafeUncheckedTransferOwnership_def transferOwnershipUnchecked_def Ownable_initialize_def
  unsafeTransferOwnership_def transferOwnership_def

lemma assertC_Inr [simp]: "assertC c m s = (Inr x, t) \<longleftrightarrow> c \<and> t = s"
  by (auto simp: assertC_def returnA_def throwA_def)

lemma assertC_run [simp]: "assertC True m = returnA ()" "assertC False m = throwA (Error m)"
  by (simp_all add: assertC_def)

lemma seqA_Inr: "seqA m n s = (Inr x, t) \<longleftrightarrow> (\<exists>y u. m s = (Inr y, u) \<and> n u = (Inr x, t))"
  by (auto simp: seqA_def bindA_def split: prod.splits sum.splits)

lemma bindA_Inr: "bindA m f s = (Inr x, t) \<longleftrightarrow> (\<exists>y u. m s = (Inr y, u) \<and> f y u = (Inr x, t))"
  by (auto simp: bindA_def split: prod.splits sum.splits)

lemma returnA_Inr: "returnA y s = (Inr x, t) \<longleftrightarrow> x = y \<and> t = s"
  by (auto simp: returnA_def)

lemma throwA_Inr: "throwA e s = (Inr x, t) \<longleftrightarrow> False"
  by (simp add: throwA_def)

lemma modA_Inr: "modA f s = (Inr x, t) \<longleftrightarrow> t = f s"
  by (auto simp: modA_def)

lemma liftA_Inr: "liftA r s = (Inr x, t) \<longleftrightarrow> r = Inr x \<and> t = s"
  by (auto simp: liftA_def)

lemmas simple_Inr = returnA_Inr throwA_Inr modA_Inr liftA_Inr

lemma assertOnlyOwner_Inr:
  "assertOnlyOwner caller s = (Inr x, t) \<longleftrightarrow> cb_isInitialized s \<and> cb_owner s = Inl caller \<and> t = s"
  by (auto simp: assertOnlyOwner_def module_defs seqA_Inr simple_Inr split: sum.splits)

lemma assertNotPaused_Inr: "assertNotPaused s = (Inr x, t) \<longleftrightarrow> \<not> cb_isPaused s \<and> t = s"
  by (simp add: assertNotPaused_def)

lemmas circuit_Inr = seqA_Inr bindA_Inr simple_Inr assertOnlyOwner_Inr assertNotPaused_Inr

lemma admin_Inr:
  "adminCircuit caller op s = (Inr x, t) \<longleftrightarrow>
     cb_isInitialized s \<and> cb_owner s = Inl caller \<and>
     (case op of
        TxPause \<Rightarrow> \<not> cb_isPaused s \<and> t = s\<lparr>cb_isPaused := True\<rparr>
      | TxUnpause \<Rightarrow> cb_isPaused s \<and> t = s\<lparr>cb_isPaused := False\<rparr>
      | TxTransferOwnership k \<Rightarrow> \<not> isContractAddress k \<and> \<not> isKeyOrAddressZero k \<and> t = s\<lparr>cb_owner := k\<rparr>)"
  by (cases op) (auto simp: module_defs circuit_Inr)

declare adminCircuit.simps [simp del]

lemma admin_frame:
  assumes "adminCircuit caller op s = (Inr x, t)"
  obtains p k where "t = s\<lparr>cb_isPaused := p, cb_owner := k\<rparr>"
proof -
  have "\<exists>p k. t = s\<lparr>cb_isPaused := p, cb_owner := k\<rparr>"
  proof (cases op)
    case TxPause
    with assms have "t = s\<lparr>cb_isPaused := True, cb_owner := cb_owner s\<rparr>" by (simp add: admin_Inr)
    then show ?thesis by blast
  next
    case TxUnpause
    with assms have "t = s\<lparr>cb_isPaused := False, cb_owner := cb_owner s\<rparr>" by (simp add: admin_Inr)
    then show ?thesis by blast
  next
    case (TxTransferOwnership k)
    with assms have "t = s\<lparr>cb_isPaused := cb_isPaused s, cb_owner := k\<rparr>" by (simp add: admin_Inr)
    then show ?thesis by blast
  qed
  with that show ?thesis by blast
qed

text \<open>A contract deployed with a key as its owner.\<close>

definition deployable :: "keyOrAddress \<Rightarrow> bool" where
  "deployable k \<longleftrightarrow> \<not> isKeyOrAddressZero k \<and> \<not> isContractAddress k"

lemma initialize_Inr:
  "Ownable_initialize k s = (Inr x, t) \<longleftrightarrow>
     \<not> cb_isInitialized s \<and> deployable k \<and> t = s\<lparr>cb_isInitialized := True, cb_owner := k\<rparr>"
  by (auto simp: module_defs circuit_Inr deployable_def)

section \<open>Histories\<close>

text \<open>\<open>reaches circ s t\<close>: successful transactions, by anybody, lead from the ledger \<open>s\<close> to \<open>t\<close>.\<close>

inductive reaches :: "(bytes \<Rightarrow> 'op \<Rightarrow> ('s, unit) act) \<Rightarrow> 's \<Rightarrow> 's \<Rightarrow> bool" for circ where
  same: "reaches circ s s"
| transaction: "reaches circ s t \<Longrightarrow> circ caller op t = (Inr (), u) \<Longrightarrow> reaches circ s u"

lemma reaches_trans: "reaches circ s t \<Longrightarrow> reaches circ t u \<Longrightarrow> reaches circ s u"
proof -
  assume *: "reaches circ s t"
  assume "reaches circ t u"
  then show ?thesis using * by (induction rule: reaches.induct) (auto intro: reaches.transaction)
qed

text \<open>What holds after every transaction of a contract, and what a transaction can never take back.\<close>

locale contract =
  fixes circ :: "bytes \<Rightarrow> 'op \<Rightarrow> ('s, unit) act" and inv :: "'s \<Rightarrow> bool" and grows :: "'s \<Rightarrow> 's \<Rightarrow> bool"
  assumes circ_inv: "inv s \<Longrightarrow> circ caller op s = (Inr (), t) \<Longrightarrow> inv t"
    and circ_grows: "inv s \<Longrightarrow> circ caller op s = (Inr (), t) \<Longrightarrow> grows s t"
    and grows_refl: "grows s s"
    and grows_trans: "grows s t \<Longrightarrow> grows t u \<Longrightarrow> grows s u"
begin

lemma reaches_inv: "reaches circ s t \<Longrightarrow> inv s \<Longrightarrow> inv t"
  by (induction rule: reaches.induct) (auto intro: circ_inv)

lemma reaches_grows: "reaches circ s t \<Longrightarrow> inv s \<Longrightarrow> grows s t"
proof (induction rule: reaches.induct)
  case (transaction s t caller op u)
  then show ?case using circ_grows reaches_inv grows_trans by blast
qed (rule grows_refl)

end

end
