(* ===== verification/Registry_Contracts.thy ===== *)
theory Registry_Contracts
  imports Compact_Modules Midnight_Client
begin

text \<open>
  The registry contracts \<open>revocation_registry.compact\<close>, \<open>issuer_registry.compact\<close> and \<open>identity_registry.compact\<close>.  The part
  of a contract's ledger the sidecar reads is the ledger record of \<open>Ledger_Events\<close>; the properties hold for every history
  of transactions and discharge what the event stream assumes of the ledgers it follows.
\<close>

section \<open>Revocations\<close>

record 'r revocationContract = contractBase +
  rv_ledger :: revocationLedger
  rv_revokedCredentials :: "bytes list"
  rv_revokedTree :: "bytes list"
  rv_roots :: "'r list"
  rv_revocationCount :: int

text \<open>The historic Merkle tree: the root of the leaves inserted so far, and the path the runtime finds for a leaf.\<close>

record ('r, 'p) treeRuntime =
  tr_root :: "bytes list \<Rightarrow> 'r"
  tr_findPathForLeaf :: "bytes list \<Rightarrow> bytes \<Rightarrow> 'p option"
  tr_pathLeaf :: "'p \<Rightarrow> bytes"
  tr_pathRoot :: "'p \<Rightarrow> 'r"

definition S_ACTIVE :: int where "S_ACTIVE = 0"
definition S_REVOKED :: int where "S_REVOKED = 1"
definition S_SUSPENDED :: int where "S_SUSPENDED = 2"

lemmas status_defs = S_ACTIVE_def S_REVOKED_def S_SUSPENDED_def

abbreviation credStatus :: "'r revocationContract \<Rightarrow> bytes \<Rightarrow> int option" where
  "credStatus s h \<equiv> map_of (credentialStatuses (rv_ledger s)) h"

definition setInsert :: "bytes \<Rightarrow> bytes list \<Rightarrow> bytes list" where
  "setInsert x xs = (if x \<in> set xs then xs else xs @ [x])"

text \<open>The writes that \<open>revoke\<close> and \<open>suspend\<close> have in common.\<close>

definition markRevoked :: "('r, 'p) treeRuntime \<Rightarrow> int \<Rightarrow> bytes \<Rightarrow> bytes \<Rightarrow> string \<Rightarrow> 'r revocationContract \<Rightarrow> 'r revocationContract" where
  "markRevoked T st rootHash ikh reason s =
     (let l = rv_ledger s; leaves = rv_revokedTree s @ [rootHash] in
      s\<lparr>rv_ledger := l\<lparr>credentialStatuses := AList.update rootHash st (credentialStatuses l),
                        credentialIssuers := AList.update rootHash ikh (credentialIssuers l),
                        credentialReasons := AList.update rootHash reason (credentialReasons l)\<rparr>,
        rv_revokedCredentials := setInsert rootHash (rv_revokedCredentials s),
        rv_revokedTree := leaves, rv_roots := rv_roots s @ [tr_root T leaves],
        rv_revocationCount := rv_revocationCount s + 1\<rparr>)"

definition revokeC :: "('r, 'p) treeRuntime \<Rightarrow> bytes \<Rightarrow> bytes \<Rightarrow> bytes \<Rightarrow> string \<Rightarrow> ('r revocationContract, unit) act" where
  "revokeC T caller rootHash ikh reason =
     seqA (assertOnlyOwner caller) (seqA assertNotPaused
    (seqA (assertC (rootHash \<noteq> zero32) ''Invalid zero root hash'')
    (seqA (\<lambda>s. assertC (credStatus s rootHash \<noteq> Some S_REVOKED) ''Credential already revoked'' s)
          (modA (markRevoked T S_REVOKED rootHash ikh reason)))))"

definition suspendC :: "('r, 'p) treeRuntime \<Rightarrow> bytes \<Rightarrow> bytes \<Rightarrow> bytes \<Rightarrow> string \<Rightarrow> ('r revocationContract, unit) act" where
  "suspendC T caller rootHash ikh reason =
     seqA (assertOnlyOwner caller) (seqA assertNotPaused
    (seqA (assertC (rootHash \<noteq> zero32) ''Invalid zero root hash'')
    (seqA (\<lambda>s. assertC (credStatus s rootHash \<noteq> Some S_REVOKED) ''Cannot suspend a revoked credential'' s)
    (seqA (\<lambda>s. assertC (credStatus s rootHash \<noteq> Some S_SUSPENDED) ''Credential already suspended'' s)
          (modA (markRevoked T S_SUSPENDED rootHash ikh reason))))))"

text \<open>\<open>lookup\<close> of an absent key fails.\<close>

definition reactivateC :: "bytes \<Rightarrow> bytes \<Rightarrow> bytes \<Rightarrow> ('r revocationContract, unit) act" where
  "reactivateC caller rootHash ikh =
     seqA (assertOnlyOwner caller) (seqA assertNotPaused
    (seqA (\<lambda>s. assertC (credStatus s rootHash \<noteq> None) ''Credential not found'' s)
    (seqA (\<lambda>s. assertC (credStatus s rootHash = Some S_SUSPENDED) ''Only suspended credentials can be reactivated'' s)
    (seqA (\<lambda>s. assertC (map_of (credentialIssuers (rv_ledger s)) rootHash = Some ikh) ''Issuer mismatch'' s)
          (modA (\<lambda>s. let l = rv_ledger s in
             s\<lparr>rv_ledger := l\<lparr>credentialStatuses := AList.update rootHash S_ACTIVE (credentialStatuses l),
                              credentialReasons := AList.delete rootHash (credentialReasons l)\<rparr>,
               rv_revokedCredentials := removeAll rootHash (rv_revokedCredentials s)\<rparr>))))))"

definition isRevokedC :: "'r revocationContract \<Rightarrow> bytes \<Rightarrow> bool" where
  "isRevokedC s rootHash =
     (case credStatus s rootHash of None \<Rightarrow> False | Some st \<Rightarrow> st = S_REVOKED \<or> st = S_SUSPENDED)"

text \<open>\<open>witness\<close> is the caller's \<open>revocationPath\<close>: a path, or an error.\<close>

definition proveRevocationInclusionC ::
  "('r, 'p) treeRuntime \<Rightarrow> ('r revocationContract \<Rightarrow> bytes \<Rightarrow> 'p res) \<Rightarrow> bytes \<Rightarrow> ('r revocationContract, unit) act" where
  "proveRevocationInclusionC T witness rootHash s =
     bindA (liftA (witness s rootHash)) (\<lambda>p.
       assertC (tr_pathRoot T p \<in> set (rv_roots s) \<and> rootHash = tr_pathLeaf T p) ''revocation not in historic tree'') s"

text \<open>\<open>createRevocationRegistryWitnesses\<close> of \<open>witnesses.ts\<close>.\<close>

definition revocationPath :: "('r, 'p) treeRuntime \<Rightarrow> 'r revocationContract \<Rightarrow> bytes \<Rightarrow> 'p res" where
  "revocationPath T s rootHash =
     (case tr_findPathForLeaf T (rv_revokedTree s) rootHash of
        None \<Rightarrow> Inl (Error (''revocationPath: rootHash '' @ bytesToHex rootHash @ '' not present in revokedTree''))
      | Some p \<Rightarrow> Inr p)"

datatype 'w revocationTx =
    TxRevoke bytes bytes string
  | TxSuspend bytes bytes string
  | TxReactivate bytes bytes
  | TxProveInclusion 'w bytes
  | RevocationAdmin adminTx

fun revocationCircuit ::
  "('r, 'p) treeRuntime \<Rightarrow> bytes \<Rightarrow> ('r revocationContract \<Rightarrow> bytes \<Rightarrow> 'p res) revocationTx \<Rightarrow> ('r revocationContract, unit) act" where
  "revocationCircuit T caller (TxRevoke h ikh reason) = revokeC T caller h ikh reason"
| "revocationCircuit T caller (TxSuspend h ikh reason) = suspendC T caller h ikh reason"
| "revocationCircuit T caller (TxReactivate h ikh) = reactivateC caller h ikh"
| "revocationCircuit T caller (TxProveInclusion w h) = proveRevocationInclusionC T w h"
| "revocationCircuit T caller (RevocationAdmin op) = adminCircuit caller op"

definition newRevocations :: "keyOrAddress \<Rightarrow> 'r revocationContract" where
  "newRevocations k =
     \<lparr>cb_isInitialized = True, cb_isPaused = False, cb_owner = k,
      rv_ledger = \<lparr>credentialStatuses = [], credentialIssuers = [], credentialReasons = []\<rparr>,
      rv_revokedCredentials = [], rv_revokedTree = [], rv_roots = [], rv_revocationCount = 0\<rparr>"

subsection \<open>Invariant\<close>

definition rootsOf :: "('r, 'p) treeRuntime \<Rightarrow> bytes list \<Rightarrow> 'r list" where
  "rootsOf T leaves = map (\<lambda>n. tr_root T (take (Suc n) leaves)) [0..<length leaves]"

definition revocationInv :: "('r, 'p) treeRuntime \<Rightarrow> 'r revocationContract \<Rightarrow> bool" where
  "revocationInv T s \<longleftrightarrow>
     revocation_wf (rv_ledger s) \<and>
     (\<forall>h. h \<in> set (rv_revokedCredentials s) \<longleftrightarrow> isRevokedC s h) \<and>
     (\<forall>h. credStatus s h \<noteq> None \<longrightarrow> h \<in> set (rv_revokedTree s)) \<and>
     rv_roots s = rootsOf T (rv_revokedTree s) \<and>
     rv_revocationCount s = int (length (rv_revokedTree s))"

text \<open>What no transaction takes back: a revocation, and the leaves of the tree.\<close>

definition revocationGrows :: "'r revocationContract \<Rightarrow> 'r revocationContract \<Rightarrow> bool" where
  "revocationGrows s t \<longleftrightarrow>
     (\<forall>h. credStatus s h = Some S_REVOKED \<longrightarrow> credStatus t h = Some S_REVOKED) \<and>
     (\<exists>xs. rv_revokedTree t = rv_revokedTree s @ xs)"

lemma set_setInsert [simp]: "set (setInsert x xs) = insert x (set xs)"
  by (auto simp: setInsert_def)

lemma distinct_setInsert [simp]: "distinct xs \<Longrightarrow> distinct (setInsert x xs)"
  by (simp add: setInsert_def)

lemma roots_snoc: "rootsOf T (xs @ [x]) = rootsOf T xs @ [tr_root T (xs @ [x])]"
  by (auto simp: rootsOf_def intro!: map_cong)

lemma markRevoked_inv:
  assumes "revocationInv T s" "st = S_REVOKED \<or> st = S_SUSPENDED"
  shows "revocationInv T (markRevoked T st h ikh reason s)"
  using assms(1) assms(2)
  by (auto simp: revocationInv_def markRevoked_def Let_def revocation_wf_def distinct_update update_conv' isRevokedC_def
      roots_snoc simp del: map_of_eq_Some_iff map_of_eq_None_iff)

lemma revocation_step:
  assumes "revocationInv T s" "revocationCircuit T caller op s = (Inr (), t)"
  shows "revocationInv T t \<and> revocationGrows s t"
  using assms(2)
proof (cases op)
  case (TxReactivate h ikh)
  with assms show ?thesis
    by (auto simp: reactivateC_def circuit_Inr revocationInv_def revocationGrows_def Let_def revocation_wf_def distinct_update
        update_conv' isRevokedC_def status_defs simp del: map_of_eq_Some_iff)
next
  case (RevocationAdmin a)
  with assms(2) obtain p k where "t = s\<lparr>cb_isPaused := p, cb_owner := k\<rparr>" by (auto elim: admin_frame)
  with assms(1) show ?thesis by (simp add: revocationInv_def revocationGrows_def isRevokedC_def)
qed (use assms markRevoked_inv[of T s] in \<open>auto simp: revokeC_def suspendC_def proveRevocationInclusionC_def circuit_Inr
       revocationGrows_def markRevoked_def Let_def update_conv'\<close>)

interpretation revocation_contract: contract "revocationCircuit T" "revocationInv T" revocationGrows for T
proof
  show "revocationGrows s u" if "revocationGrows s t" "revocationGrows t u" for s t u :: "'r revocationContract"
    using that by (auto simp: revocationGrows_def)
qed (auto dest: revocation_step simp: revocationGrows_def)

lemma newRevocations_inv: "revocationInv T (newRevocations k)"
  by (simp add: revocationInv_def newRevocations_def revocation_wf_def isRevokedC_def rootsOf_def)


subsection \<open>What the ledger says\<close>

lemma isRevokedC_read: "isRevokedC s h \<longleftrightarrow> isCredentialRevokedFromLedger h (rv_ledger s)"
  by (cases "credStatus s h") (simp_all add: isRevokedC_def isCredentialRevokedFromLedger_def status_defs)

lemma revocation_reached:
  assumes "reaches (revocationCircuit T) (newRevocations k) s"
  shows "revocationInv T s"
  using revocation_contract.reaches_inv[OF assms newRevocations_inv] .

text \<open>The leaves of the tree are the credentials that were once revoked or suspended.\<close>

lemma tree_step:
  assumes "revocationCircuit T caller op s = (Inr (), t)" "h \<in> set (rv_revokedTree t)" "h \<notin> set (rv_revokedTree s)"
  shows "isRevokedC t h"
proof (cases op)
  case (RevocationAdmin a)
  with assms obtain p k where "t = s\<lparr>cb_isPaused := p, cb_owner := k\<rparr>" by (auto elim: admin_frame)
  with assms show ?thesis by simp
qed (use assms in \<open>auto simp: revokeC_def suspendC_def reactivateC_def proveRevocationInclusionC_def circuit_Inr
       markRevoked_def Let_def update_conv' isRevokedC_def\<close>)

lemma tree_once_revoked:
  assumes "reaches (revocationCircuit T) s0 s" "rv_revokedTree s0 = []" "h \<in> set (rv_revokedTree s)"
  shows "\<exists>u. reaches (revocationCircuit T) s0 u \<and> reaches (revocationCircuit T) u s \<and> isRevokedC u h"
  using assms
proof (induction rule: reaches.induct)
  case (transaction s t caller op u)
  show ?case
  proof (cases "h \<in> set (rv_revokedTree t)")
    case True
    with transaction show ?thesis by (meson reaches.transaction)
  next
    case False
    with tree_step transaction have "isRevokedC u h" by blast
    with transaction show ?thesis by (meson reaches.same reaches.transaction)
  qed
qed simp

text \<open>What the runtime promises of its historic tree: it finds a path exactly for the leaves, and the path carries the
  leaf and folds to the current root.\<close>

definition tree_ok :: "('r, 'p) treeRuntime \<Rightarrow> bool" where
  "tree_ok T \<longleftrightarrow>
     (\<forall>ls h. case tr_findPathForLeaf T ls h of
        None \<Rightarrow> h \<notin> set ls
      | Some p \<Rightarrow> h \<in> set ls \<and> tr_pathLeaf T p = h \<and> tr_pathRoot T p = tr_root T ls)"

lemma last_root: "ls \<noteq> [] \<Longrightarrow> tr_root T ls \<in> set (rootsOf T ls)"
  by (auto simp: rootsOf_def intro!: image_eqI[of _ _ "length ls - 1"])

lemma prove_inclusion_iff:
  assumes "tree_ok T" "revocationInv T s"
  shows "proveRevocationInclusionC T (revocationPath T) h s = (Inr (), s) \<longleftrightarrow> h \<in> set (rv_revokedTree s)"
proof -
  have *: "case tr_findPathForLeaf T (rv_revokedTree s) h of
        None \<Rightarrow> h \<notin> set (rv_revokedTree s)
      | Some p \<Rightarrow> h \<in> set (rv_revokedTree s) \<and> tr_pathLeaf T p = h \<and> tr_pathRoot T p = tr_root T (rv_revokedTree s)"
    using assms(1) unfolding tree_ok_def by blast
  show ?thesis
  proof (cases "tr_findPathForLeaf T (rv_revokedTree s) h")
    case (Some p)
    with * have "rv_revokedTree s \<noteq> []" by auto
    from last_root[OF this, of T] Some * assms(2) show ?thesis
      by (simp add: proveRevocationInclusionC_def revocationPath_def circuit_Inr revocationInv_def)
  qed (use * in \<open>simp add: proveRevocationInclusionC_def revocationPath_def circuit_Inr\<close>)
qed

text \<open>C18: The revocation registry never contradicts itself.  In every state the deployed contract can reach, by
  transactions of anybody, its \<open>isRevoked\<close> circuit, its set of revoked credentials and the sidecar's ledger read agree,
  and the ledger has one status per credential, as the event stream requires; and whatever happens later, a credential
  that is \<open>REVOKED\<close> stays so.\<close>

theorem revocation_registry_consistent:
  assumes "reaches (revocationCircuit T) (newRevocations k) s" "reaches (revocationCircuit T) s t"
  shows "isRevokedC s h = isCredentialRevokedFromLedger h (rv_ledger s) \<and>
    (isRevokedC s h \<longleftrightarrow> h \<in> set (rv_revokedCredentials s)) \<and> revocation_wf (rv_ledger s) \<and>
    (getCredentialStatusFromLedger h (rv_ledger s) = S_REVOKED \<longrightarrow> getCredentialStatusFromLedger h (rv_ledger t) = S_REVOKED)"
proof (intro conjI impI)
  note inv = revocation_reached[OF assms(1)]
  show "isRevokedC s h = isCredentialRevokedFromLedger h (rv_ledger s)" by (rule isRevokedC_read)
  show "isRevokedC s h \<longleftrightarrow> h \<in> set (rv_revokedCredentials s)" "revocation_wf (rv_ledger s)"
    using inv by (simp_all add: revocationInv_def)
  show "getCredentialStatusFromLedger h (rv_ledger t) = S_REVOKED" if "getCredentialStatusFromLedger h (rv_ledger s) = S_REVOKED"
    using that revocation_contract.reaches_grows[OF assms(2) inv]
    by (auto simp: revocationGrows_def getCredentialStatusFromLedger_def the_or_def status_defs split: option.splits)
qed

text \<open>An inclusion proof is about the past.  With the sidecar's own witness \<open>proveRevocationInclusion\<close> succeeds exactly
  for the credentials that were revoked or suspended at some point of the contract's history; reactivating a suspended
  credential does not undo it.\<close>

theorem inclusion_is_historic:
  assumes "tree_ok T" "reaches (revocationCircuit T) (newRevocations k) s"
  shows "proveRevocationInclusionC T (revocationPath T) h s = (Inr (), s) \<longleftrightarrow>
    (\<exists>u. reaches (revocationCircuit T) (newRevocations k) u \<and> reaches (revocationCircuit T) u s \<and> isRevokedC u h)"
proof
  assume "proveRevocationInclusionC T (revocationPath T) h s = (Inr (), s)"
  with prove_inclusion_iff[OF assms(1) revocation_reached[OF assms(2)]] tree_once_revoked[OF assms(2)]
  show "\<exists>u. reaches (revocationCircuit T) (newRevocations k) u \<and> reaches (revocationCircuit T) u s \<and> isRevokedC u h"
    by (simp add: newRevocations_def)
next
  assume "\<exists>u. reaches (revocationCircuit T) (newRevocations k) u \<and> reaches (revocationCircuit T) u s \<and> isRevokedC u h"
  then obtain u where u: "reaches (revocationCircuit T) (newRevocations k) u" "reaches (revocationCircuit T) u s" "isRevokedC u h"
    by blast
  then have "h \<in> set (rv_revokedTree u)"
    using revocation_reached[OF u(1)] by (auto simp: revocationInv_def isRevokedC_def split: option.splits)
  with revocation_contract.reaches_grows[OF u(2) revocation_reached[OF u(1)]] have "h \<in> set (rv_revokedTree s)"
    by (auto simp: revocationGrows_def)
  with prove_inclusion_iff[OF assms(1) revocation_reached[OF assms(2)]]
  show "proveRevocationInclusionC T (revocationPath T) h s = (Inr (), s)" by simp
qed


section \<open>Issuers\<close>

record issuerContract = contractBase +
  ic_ledger :: issuerLedger
  ic_registeredIssuers :: "bytes list"

definition I_ACTIVE :: int where "I_ACTIVE = 1"
definition I_DEACTIVATED :: int where "I_DEACTIVATED = 2"

lemmas issuer_status_defs = I_ACTIVE_def I_DEACTIVATED_def

abbreviation issuerStat :: "issuerContract \<Rightarrow> bytes \<Rightarrow> int option" where
  "issuerStat s h \<equiv> map_of (issuerStatuses (ic_ledger s)) h"

definition issuerKeyHashC :: "(bytes \<Rightarrow> bytes) \<Rightarrow> bytes \<Rightarrow> bytes" where
  "issuerKeyHashC sha publicKey = sha (pad32 ''owlid:issuer:key:'' @ publicKey)"

definition setIssuerStatus :: "bytes \<Rightarrow> int \<Rightarrow> issuerContract \<Rightarrow> issuerContract" where
  "setIssuerStatus keyHash st s =
     s\<lparr>ic_ledger := (ic_ledger s)\<lparr>issuerStatuses := AList.update keyHash st (issuerStatuses (ic_ledger s))\<rparr>\<rparr>"

definition registerIssuerC :: "(bytes \<Rightarrow> bytes) \<Rightarrow> bytes \<Rightarrow> bytes \<Rightarrow> string \<Rightarrow> (issuerContract, unit) act" where
  "registerIssuerC sha caller publicKey name =
     (let keyHash = issuerKeyHashC sha publicKey in
      seqA (assertOnlyOwner caller) (seqA assertNotPaused
     (seqA (assertC (publicKey \<noteq> zero32) ''Invalid zero public key'')
     (seqA (\<lambda>s. assertC (issuerStat s keyHash \<noteq> Some I_ACTIVE) ''Issuer already active'' s)
     (seqA (\<lambda>s. assertC (issuerStat s keyHash \<noteq> Some I_DEACTIVATED) ''Use reactivateIssuer to reactivate'' s)
           (modA (\<lambda>s. let l = ic_ledger s; new = (keyHash \<notin> set (ic_registeredIssuers s)) in
              s\<lparr>ic_ledger := l\<lparr>issuerStatuses := AList.update keyHash I_ACTIVE (issuerStatuses l),
                               issuerKeys := AList.update keyHash publicKey (issuerKeys l),
                               issuerNames := AList.update keyHash name (issuerNames l),
                               issuerCount := (if new then issuerCount l + 1 else issuerCount l)\<rparr>,
                ic_registeredIssuers := setInsert keyHash (ic_registeredIssuers s)\<rparr>)))))))"

definition deactivateIssuerC :: "bytes \<Rightarrow> bytes \<Rightarrow> (issuerContract, unit) act" where
  "deactivateIssuerC caller keyHash =
     seqA (assertOnlyOwner caller) (seqA assertNotPaused
    (seqA (\<lambda>s. assertC (issuerStat s keyHash \<noteq> None) ''Issuer not found'' s)
    (seqA (\<lambda>s. assertC (issuerStat s keyHash = Some I_ACTIVE) ''Issuer not active'' s)
          (modA (setIssuerStatus keyHash I_DEACTIVATED)))))"

definition reactivateIssuerC :: "bytes \<Rightarrow> bytes \<Rightarrow> (issuerContract, unit) act" where
  "reactivateIssuerC caller keyHash =
     seqA (assertOnlyOwner caller) (seqA assertNotPaused
    (seqA (\<lambda>s. assertC (issuerStat s keyHash \<noteq> None) ''Issuer not found'' s)
    (seqA (\<lambda>s. assertC (issuerStat s keyHash = Some I_DEACTIVATED) ''Issuer not deactivated'' s)
          (modA (setIssuerStatus keyHash I_ACTIVE)))))"

definition isTrustedByHashC :: "issuerContract \<Rightarrow> bytes \<Rightarrow> bool" where
  "isTrustedByHashC s keyHash = (case issuerStat s keyHash of None \<Rightarrow> False | Some st \<Rightarrow> st = I_ACTIVE)"

definition isTrustedC :: "(bytes \<Rightarrow> bytes) \<Rightarrow> issuerContract \<Rightarrow> bytes \<Rightarrow> bool" where
  "isTrustedC sha s publicKey = isTrustedByHashC s (issuerKeyHashC sha publicKey)"

datatype issuerTx =
    TxRegisterIssuer bytes string
  | TxDeactivateIssuer bytes
  | TxReactivateIssuer bytes
  | IssuerAdmin adminTx

fun issuerCircuit :: "(bytes \<Rightarrow> bytes) \<Rightarrow> bytes \<Rightarrow> issuerTx \<Rightarrow> (issuerContract, unit) act" where
  "issuerCircuit sha caller (TxRegisterIssuer pk name) = registerIssuerC sha caller pk name"
| "issuerCircuit sha caller (TxDeactivateIssuer h) = deactivateIssuerC caller h"
| "issuerCircuit sha caller (TxReactivateIssuer h) = reactivateIssuerC caller h"
| "issuerCircuit sha caller (IssuerAdmin op) = adminCircuit caller op"

definition newIssuers :: "keyOrAddress \<Rightarrow> issuerContract" where
  "newIssuers k =
     \<lparr>cb_isInitialized = True, cb_isPaused = False, cb_owner = k,
      ic_ledger = \<lparr>issuerStatuses = [], issuerKeys = [], issuerNames = [], issuerCount = 0\<rparr>, ic_registeredIssuers = []\<rparr>"

definition issuerInv :: "(bytes \<Rightarrow> bytes) \<Rightarrow> issuerContract \<Rightarrow> bool" where
  "issuerInv sha s \<longleftrightarrow>
     issuer_wf (ic_ledger s) \<and> distinct (ic_registeredIssuers s) \<and>
     (\<forall>h. issuerStat s h \<noteq> None \<longleftrightarrow> h \<in> set (ic_registeredIssuers s)) \<and>
     issuerCount (ic_ledger s) = int (length (ic_registeredIssuers s)) \<and>
     (\<forall>h. h \<in> set (ic_registeredIssuers s) \<longrightarrow>
        (\<exists>pk. map_of (issuerKeys (ic_ledger s)) h = Some pk \<and> pk \<noteq> zero32 \<and> issuerKeyHashC sha pk = h))"

definition issuerGrows :: "issuerContract \<Rightarrow> issuerContract \<Rightarrow> bool" where
  "issuerGrows s t \<longleftrightarrow>
     set (map fst (issuerStatuses (ic_ledger s))) \<subseteq> set (map fst (issuerStatuses (ic_ledger t)))"

lemma issuer_step:
  assumes "issuerInv sha s" "issuerCircuit sha caller op s = (Inr (), t)"
  shows "issuerInv sha t \<and> issuerGrows s t"
proof (cases op)
  case (IssuerAdmin a)
  with assms(2) obtain p k where "t = s\<lparr>cb_isPaused := p, cb_owner := k\<rparr>" by (auto elim: admin_frame)
  with assms(1) show ?thesis by (simp add: issuerInv_def issuerGrows_def)
next
  case (TxRegisterIssuer pk name)
  with assms show ?thesis
    by (auto simp: registerIssuerC_def circuit_Inr Let_def issuerInv_def issuerGrows_def issuer_wf_def distinct_update
        update_conv' dom_update setInsert_def simp del: map_of_eq_Some_iff map_of_eq_None_iff)
next
  case (TxDeactivateIssuer h)
  with assms show ?thesis
    by (auto simp: deactivateIssuerC_def setIssuerStatus_def circuit_Inr Let_def issuerInv_def issuerGrows_def issuer_wf_def
        distinct_update update_conv' dom_update simp del: map_of_eq_Some_iff map_of_eq_None_iff)
next
  case (TxReactivateIssuer h)
  with assms show ?thesis
    by (auto simp: reactivateIssuerC_def setIssuerStatus_def circuit_Inr Let_def issuerInv_def issuerGrows_def issuer_wf_def
        distinct_update update_conv' dom_update simp del: map_of_eq_Some_iff map_of_eq_None_iff)
qed

interpretation issuer_contract: contract "issuerCircuit sha" "issuerInv sha" issuerGrows for sha
proof
  show "issuerGrows s u" if "issuerGrows s t" "issuerGrows t u" for s t u using that by (auto simp: issuerGrows_def)
qed (use issuer_step in \<open>blast, blast, simp add: issuerGrows_def\<close>)


section \<open>From the chain to the consumers\<close>

text \<open>The states a feed is given, in order.\<close>

fun deliveredStates :: "'r feedEvent list \<Rightarrow> 'r list" where
  "deliveredStates [] = []"
| "deliveredStates (StateArrives r ts # es) = r # deliveredStates es"
| "deliveredStates (PollAnswers (Some r) ts # es) = r # deliveredStates es"
| "deliveredStates (e # es) = deliveredStates es"

lemma deliveredStates_Cons: "set (deliveredStates es) \<subseteq> set (deliveredStates (e # es))"
  by (cases "e # es" rule: deliveredStates.cases) auto

lemma feed_in_order_step:
  assumes "\<And>a b. P a \<Longrightarrow> rel a b \<Longrightarrow> P b \<and> valid (view b) \<and> follows (Some (view a)) (view b)"
    and "cf_current s = Some (view r)" "P r" "sorted_wrt rel (r # deliveredStates (e # es))"
  shows "feedAllowed valid follows (\<lambda>r. Inr (view r)) s e \<and>
    (\<exists>q. P q \<and> cf_current (feedStep diff (\<lambda>r. Inr (view r)) s e) = Some (view q) \<and>
       q \<in> set (r # deliveredStates (e # es)) \<and> sorted_wrt rel (q # deliveredStates es))"
  using assms(2-)
proof (cases "e # es" rule: deliveredStates.cases)
  case (2 q ts fs)
  then show ?thesis using assms by (cases "cf_live s") (auto simp: goodState_def observe_def)
next
  case (3 q ts fs)
  then show ?thesis using assms by (cases "cf_polls s") (auto simp: goodState_def observe_def Let_def)
qed (use assms(2-) in \<open>auto simp: Let_def split: nat.splits\<close>)

lemma feed_in_order:
  assumes good: "\<And>a b. P a \<Longrightarrow> rel a b \<Longrightarrow> P b \<and> valid (view b) \<and> follows (Some (view a)) (view b)"
    and "cf_current s = Some (view r)" "P r" "sorted_wrt rel (r # deliveredStates es)"
  shows "allowed_run (feedAllowed valid follows (\<lambda>r. Inr (view r))) (feedStep diff (\<lambda>r. Inr (view r))) s es \<and>
    (\<exists>r'. P r' \<and> r' \<in> set (r # deliveredStates es) \<and>
       cf_current (run_events (feedStep diff (\<lambda>r. Inr (view r))) s es) = Some (view r'))"
  using assms(2-)
proof (induction es arbitrary: s r)
  case (Cons e es)
  from feed_in_order_step[of P rel valid view follows s r e es diff, OF good Cons.prems]
  obtain q where q: "feedAllowed valid follows (\<lambda>r. Inr (view r)) s e" "P q"
      "cf_current (feedStep diff (\<lambda>r. Inr (view r)) s e) = Some (view q)"
      "q \<in> set (r # deliveredStates (e # es))" "sorted_wrt rel (q # deliveredStates es)" by blast
  from Cons.IH[OF q(3,2,5)] q(1,4) deliveredStates_Cons[of es e] show ?case by fastforce
qed auto


lemma newIssuers_inv: "issuerInv sha (newIssuers k)"
  by (simp add: issuerInv_def newIssuers_def issuer_wf_def)

lemma issuerKeyHash_agrees: "length pk = 32 \<Longrightarrow> issuerKeyHash sha pk = issuerKeyHashC sha pk"
  by (simp add: issuerKeyHash_def issuerKeyHashC_def ISSUER_KEY_TAG_def)

lemma isTrustedByHashC_read: "isTrustedByHashC s h \<longleftrightarrow> isIssuerTrustedFromLedger h (ic_ledger s)"
  by (cases "issuerStat s h") (simp_all add: isTrustedByHashC_def isIssuerTrustedFromLedger_def issuer_status_defs)

lemma issuer_cache_read:
  assumes "mirrored issuerEntry issuerView issuer_wf s" "cf_current s = Some l"
  shows "isIssuerTrustedFromLedger h l \<longleftrightarrow> the_or ''INACTIVE'' (cacheOf issuerEntry (cf_emitted s) (bytesToHex h)) = ''ACTIVE''"
proof -
  have "the_or (issuerView None (bytesToHex h)) (cacheOf issuerEntry (cf_emitted s) (bytesToHex h)) = issuerView (Some l) (bytesToHex h)"
    using assms by (simp add: mirrored_def)
  moreover have "issuerView None (bytesToHex h) = ''INACTIVE''" by (simp add: issuerView_def)
  ultimately show ?thesis by (simp add: issuerView_read trusted_read)
qed

lemma issuer_history:
  assumes "issuerInv sha a" "reaches (issuerCircuit sha) a b"
  shows "issuerInv sha b \<and> issuer_wf (ic_ledger b) \<and> issuer_follows (Some (ic_ledger a)) (ic_ledger b)"
  using issuer_contract.reaches_inv[OF assms(2,1)] issuer_contract.reaches_grows[OF assms(2,1)]
  by (simp add: issuerInv_def issuerGrows_def issuer_follows_def)

text \<open>Trust on chain is trust in the consumers.  Take a deployed issuer registry, any history of transactions, and
  states of that history reaching the sidecar in order through its subscription and polls, with errors, duplicates and
  reconnects in between.  A consumer that applied every emitted event holds the issuer of a 32-byte key for active
  exactly when the contract's \<open>isTrusted\<close> circuit says so in the latest state the sidecar took; the ledger laws the
  mirror needs are the contract's own.\<close>

theorem trust_reaches_consumers:
  assumes "reaches (issuerCircuit sha) (newIssuers k) s0"
    and "sorted_wrt (reaches (issuerCircuit sha)) (s0 # deliveredStates es)" and "length pk = 32"
    and "feed = run_events (feedStep diffIssuer (\<lambda>s. Inr (ic_ledger s))) (joinContract diffIssuer (\<lambda>s. Inr (ic_ledger s)) (Some s0) ts) es"
  shows "\<exists>s. s \<in> set (s0 # deliveredStates es) \<and> cf_current feed = Some (ic_ledger s) \<and>
     (isTrustedC sha s pk \<longleftrightarrow>
        the_or ''INACTIVE'' (cacheOf issuerEntry (cf_emitted feed) (bytesToHex (issuerKeyHash sha pk))) = ''ACTIVE'')"
proof -
  let ?fn = "\<lambda>s. Inr (ic_ledger s) :: issuerLedger res"
  let ?j = "joinContract diffIssuer ?fn (Some s0) ts"
  note inv = issuer_contract.reaches_inv[OF assms(1) newIssuers_inv]
  have cur: "cf_current ?j = Some (ic_ledger s0)" by (simp add: joinContract_def Let_def observe_def)
  have "mirrored issuerEntry issuerView issuer_wf ?j"
    using inv by (intro issuers.join_mirrored) (auto simp: goodState_def issuerInv_def issuer_follows_def)
  then have mirror: "mirrored issuerEntry issuerView issuer_wf feed"
    if "allowed_run (feedAllowed issuer_wf issuer_follows ?fn) (feedStep diffIssuer ?fn) ?j es"
    unfolding assms(4) using that by (rule issuers.fed.guarded_run)
  obtain s where s: "s \<in> set (s0 # deliveredStates es)" "cf_current feed = Some (ic_ledger s)"
      and run: "allowed_run (feedAllowed issuer_wf issuer_follows ?fn) (feedStep diffIssuer ?fn) ?j es"
    using feed_in_order[where P = "issuerInv sha" and rel = "reaches (issuerCircuit sha)" and view = ic_ledger
        and valid = issuer_wf and follows = issuer_follows and diff = diffIssuer, OF issuer_history cur inv assms(2)] assms(4) by blast
  from issuer_cache_read[OF mirror[OF run] s(2)] s show ?thesis
    by (auto simp: isTrustedC_def isTrustedByHashC_read issuerKeyHash_agrees[OF assms(3)])
qed


section \<open>Identities\<close>

record identityContract = contractBase +
  dc_ledger :: identityLedger
  dc_didOwners :: "(bytes \<times> bytes) list"
  dc_identityCount :: int

definition D_ACTIVE :: int where "D_ACTIVE = 1"
definition D_EXPIRED :: int where "D_EXPIRED = 2"

lemmas identity_status_defs = D_ACTIVE_def D_EXPIRED_def

abbreviation didStatus :: "identityContract \<Rightarrow> bytes \<Rightarrow> int option" where
  "didStatus s d \<equiv> map_of (commitmentStatuses (dc_ledger s)) d"

abbreviation didCommitment :: "identityContract \<Rightarrow> bytes \<Rightarrow> bytes option" where
  "didCommitment s d \<equiv> map_of (commitments (dc_ledger s)) d"

definition deriveOwnerHash :: "(bytes \<Rightarrow> bytes) \<Rightarrow> bytes \<Rightarrow> bytes" where
  "deriveOwnerHash sha sk = sha (pad32 ''owlid:did:owner:'' @ sk)"

text \<open>The writes of a commitment that the three circuits share.\<close>

definition writeCommitment :: "bytes \<Rightarrow> bytes \<Rightarrow> bytes \<Rightarrow> identityContract \<Rightarrow> identityContract" where
  "writeCommitment didHash cmt ikh s =
     (let l = dc_ledger s in
      s\<lparr>dc_ledger := l\<lparr>commitments := AList.update didHash cmt (commitments l),
                       commitmentIssuers := AList.update didHash ikh (commitmentIssuers l),
                       registeredCommitments := setInsert cmt (registeredCommitments l)\<rparr>\<rparr>)"

definition setDidStatus :: "bytes \<Rightarrow> int \<Rightarrow> identityContract \<Rightarrow> identityContract" where
  "setDidStatus didHash st s =
     s\<lparr>dc_ledger := (dc_ledger s)\<lparr>commitmentStatuses := AList.update didHash st (commitmentStatuses (dc_ledger s))\<rparr>\<rparr>"

text \<open>\<open>sk\<close> is what the caller's \<open>ownerSecretKey\<close> witness gives.\<close>

definition registerIdentityC :: "(bytes \<Rightarrow> bytes) \<Rightarrow> bytes \<Rightarrow> bytes \<Rightarrow> bytes \<Rightarrow> bytes \<Rightarrow> (identityContract, unit) act" where
  "registerIdentityC sha sk didHash cmt ikh =
     seqA assertNotPaused
    (seqA (assertC (didHash \<noteq> zero32) ''Invalid zero DID hash'')
    (seqA (assertC (cmt \<noteq> zero32) ''Invalid zero commitment'')
    (seqA (assertC (ikh \<noteq> zero32) ''Invalid zero issuer hash'')
    (seqA (\<lambda>s. assertC (didStatus s didHash \<noteq> Some D_ACTIVE) ''DID already has active commitment'' s)
          (modA (\<lambda>s. let s' = setDidStatus didHash D_ACTIVE (writeCommitment didHash cmt ikh s) in
             s'\<lparr>dc_didOwners := AList.update didHash (deriveOwnerHash sha sk) (dc_didOwners s),
                dc_identityCount := dc_identityCount s + 1\<rparr>))))))"

definition updateCommitmentC :: "(bytes \<Rightarrow> bytes) \<Rightarrow> bytes \<Rightarrow> bytes \<Rightarrow> bytes \<Rightarrow> bytes \<Rightarrow> (identityContract, unit) act" where
  "updateCommitmentC sha sk didHash cmt ikh =
     seqA assertNotPaused
    (seqA (assertC (cmt \<noteq> zero32) ''Invalid zero commitment'')
    (seqA (\<lambda>s. assertC (didCommitment s didHash \<noteq> None) ''DID not found'' s)
    (seqA (\<lambda>s. assertC (didStatus s didHash = Some D_ACTIVE) ''Commitment not active'' s)
    (seqA (\<lambda>s. assertC (map_of (dc_didOwners s) didHash = Some (deriveOwnerHash sha sk)) ''Not the DID owner'' s)
          (modA (writeCommitment didHash cmt ikh))))))"

definition adminUpdateCommitmentC :: "bytes \<Rightarrow> bytes \<Rightarrow> bytes \<Rightarrow> bytes \<Rightarrow> (identityContract, unit) act" where
  "adminUpdateCommitmentC caller didHash cmt ikh =
     seqA (assertOnlyOwner caller)
    (seqA (\<lambda>s. assertC (didCommitment s didHash \<noteq> None) ''DID not found'' s)
          (modA (\<lambda>s. setDidStatus didHash D_ACTIVE (writeCommitment didHash cmt ikh s))))"

definition expireCommitmentC :: "bytes \<Rightarrow> bytes \<Rightarrow> (identityContract, unit) act" where
  "expireCommitmentC caller didHash =
     seqA (assertOnlyOwner caller)
    (seqA (\<lambda>s. assertC (didCommitment s didHash \<noteq> None) ''DID not found'' s)
    (seqA (\<lambda>s. assertC (didStatus s didHash = Some D_ACTIVE) ''Commitment not active'' s)
          (modA (setDidStatus didHash D_EXPIRED))))"

datatype identityTx =
    TxRegisterIdentity bytes bytes bytes bytes
  | TxUpdateCommitment bytes bytes bytes bytes
  | TxAdminUpdateCommitment bytes bytes bytes
  | TxExpireCommitment bytes
  | IdentityAdmin adminTx

fun identityCircuit :: "(bytes \<Rightarrow> bytes) \<Rightarrow> bytes \<Rightarrow> identityTx \<Rightarrow> (identityContract, unit) act" where
  "identityCircuit sha caller (TxRegisterIdentity sk d c i) = registerIdentityC sha sk d c i"
| "identityCircuit sha caller (TxUpdateCommitment sk d c i) = updateCommitmentC sha sk d c i"
| "identityCircuit sha caller (TxAdminUpdateCommitment d c i) = adminUpdateCommitmentC caller d c i"
| "identityCircuit sha caller (TxExpireCommitment d) = expireCommitmentC caller d"
| "identityCircuit sha caller (IdentityAdmin op) = adminCircuit caller op"

lemmas identity_circuits = registerIdentityC_def updateCommitmentC_def adminUpdateCommitmentC_def expireCommitmentC_def
  writeCommitment_def setDidStatus_def circuit_Inr Let_def

text \<open>C25: Who can change an identity.  While a DID is active its owner stays the same, and its commitment changes only in
  a call that proves the owner's secret key or in a call of the contract's owner; nobody else's transaction touches it.\<close>

theorem active_identity_protected:
  assumes "identityCircuit sha caller op s = (Inr (), t)" "didStatus s d = Some D_ACTIVE"
  shows "map_of (dc_didOwners t) d = map_of (dc_didOwners s) d \<and>
    (didCommitment t d = didCommitment s d \<and> didStatus t d = didStatus s d \<or> cb_owner s = Inl caller \<or>
     (\<exists>sk c i. op = TxUpdateCommitment sk d c i \<and> map_of (dc_didOwners s) d = Some (deriveOwnerHash sha sk)))"
proof (cases op)
  case (IdentityAdmin a)
  with assms(1) obtain p k where "t = s\<lparr>cb_isPaused := p, cb_owner := k\<rparr>" by (auto elim: admin_frame)
  then show ?thesis by simp
qed (use assms in \<open>auto simp: identity_circuits update_conv' split: if_splits\<close>)

text \<open>An expired identity is up for grabs.  Once the owner of the contract has let a DID expire, anybody can register
  it again with a key of their own: the call succeeds whoever makes it and the DID's owner becomes the caller's key.\<close>

theorem expired_identity_taken_over:
  assumes "didStatus s d = Some D_EXPIRED" "\<not> cb_isPaused s" "d \<noteq> zero32" "c \<noteq> zero32" "i \<noteq> zero32"
  shows "\<exists>t. identityCircuit sha caller (TxRegisterIdentity sk d c i) s = (Inr (), t) \<and>
    map_of (dc_didOwners t) d = Some (deriveOwnerHash sha sk) \<and> didCommitment t d = Some c \<and> didStatus t d = Some D_ACTIVE"
proof -
  have "didStatus s d \<noteq> Some D_ACTIVE" using assms(1) by (simp add: identity_status_defs)
  with assms show ?thesis
    by (simp add: registerIdentityC_def writeCommitment_def setDidStatus_def circuit_Inr Let_def update_conv')
qed

text \<open>Only the owner of a registry changes it.  A transaction that changes the revocation or the issuer registry was
  made by the key that owns the contract; everybody else's calls leave the ledger as it was.\<close>

theorem registry_owner_only:
  assumes "revocationCircuit T caller op s = (Inr (), t)" "issuerCircuit sha caller' op' s' = (Inr (), t')"
  shows "(t = s \<or> cb_owner s = Inl caller) \<and> cb_owner s' = Inl caller'"
proof
  show "t = s \<or> cb_owner s = Inl caller"
    using assms(1) by (cases op)
      (auto simp: revokeC_def suspendC_def reactivateC_def proveRevocationInclusionC_def circuit_Inr admin_Inr)
  show "cb_owner s' = Inl caller'"
    using assms(2) by (cases op')
      (auto simp: registerIssuerC_def deactivateIssuerC_def reactivateIssuerC_def circuit_Inr admin_Inr Let_def)
qed


section \<open>Witnesses\<close>

definition exTree :: "(bytes list, bytes \<times> bytes list) treeRuntime" where
  "exTree = \<lparr>tr_root = (\<lambda>ls. ls), tr_findPathForLeaf = (\<lambda>ls h. if h \<in> set ls then Some (h, ls) else None),
     tr_pathLeaf = fst, tr_pathRoot = snd\<rparr>"

lemma exTree_ok: "tree_ok exTree"
  by (simp add: tree_ok_def exTree_def)

definition exKey :: bytes where "exKey = replicate 32 9"

definition exSuspended :: "bytes list revocationContract" where
  "exSuspended = markRevoked exTree S_SUSPENDED exRoot exRoot '''' (newRevocations (Inl exKey))"

definition exRevokedState :: "bytes list revocationContract" where
  "exRevokedState = markRevoked exTree S_REVOKED exRoot exRoot '''' exSuspended"

definition exReactivated :: "bytes list revocationContract" where
  "exReactivated = exSuspended\<lparr>rv_ledger := (rv_ledger exSuspended)\<lparr>credentialStatuses := [(exRoot, S_ACTIVE)], credentialReasons := []\<rparr>,
     rv_revokedCredentials := []\<rparr>"

lemma exRoot_ne: "exRoot \<noteq> zero32" "exKey \<noteq> zero32"
  by (simp_all add: exRoot_def exKey_def zero32_def)

lemma exSuspends: "revocationCircuit exTree exKey (TxSuspend exRoot exRoot '''') (newRevocations (Inl exKey)) = (Inr (), exSuspended)"
  using exRoot_ne by (simp add: suspendC_def circuit_Inr exSuspended_def newRevocations_def)

lemma exRevokes: "revocationCircuit exTree exKey (TxRevoke exRoot exRoot '''') exSuspended = (Inr (), exRevokedState)"
  using exRoot_ne
  by (simp add: revokeC_def circuit_Inr exRevokedState_def exSuspended_def newRevocations_def markRevoked_def status_defs
      setInsert_def Let_def)

lemma exReactivates: "revocationCircuit exTree exKey (TxReactivate exRoot exRoot) exSuspended = (Inr (), exReactivated)"
  by (simp add: reactivateC_def circuit_Inr exReactivated_def exSuspended_def newRevocations_def markRevoked_def status_defs
      setInsert_def Let_def)

lemma exReaches:
  "reaches (revocationCircuit exTree) (newRevocations (Inl exKey)) exSuspended"
  "reaches (revocationCircuit exTree) exSuspended exRevokedState"
  "reaches (revocationCircuit exTree) exSuspended exReactivated"
  by (rule reaches.transaction[OF reaches.same], (rule exSuspends exRevokes exReactivates))+

theorem revocation_registry_consistent_witness:
  "isCredentialRevokedFromLedger exRoot (rv_ledger exRevokedState) \<and>
   getCredentialStatusFromLedger exRoot (rv_ledger exRevokedState) = S_REVOKED \<and> revocation_wf (rv_ledger exRevokedState)"
proof -
  have "getCredentialStatusFromLedger exRoot (rv_ledger exRevokedState) = S_REVOKED" "isRevokedC exRevokedState exRoot"
    by (simp_all add: exRevokedState_def markRevoked_def getCredentialStatusFromLedger_def isRevokedC_def Let_def update_conv')
  with revocation_registry_consistent[OF reaches_trans[OF exReaches(1,2)] reaches.same, of exRoot] show ?thesis by simp
qed

theorem inclusion_is_historic_witness:
  "\<not> isRevokedC exReactivated exRoot \<and>
   proveRevocationInclusionC exTree (revocationPath exTree) exRoot exReactivated = (Inr (), exReactivated)"
proof -
  have "isRevokedC exSuspended exRoot" "\<not> isRevokedC exReactivated exRoot"
    by (simp_all add: exSuspended_def exReactivated_def markRevoked_def isRevokedC_def status_defs Let_def update_conv')
  with inclusion_is_historic[OF exTree_ok reaches_trans[OF exReaches(1,3)], of exRoot] exReaches(1,3) show ?thesis by blast
qed

text \<open>The digest that keeps the key, so that different issuers stay apart.\<close>

definition exDigest :: "bytes \<Rightarrow> bytes" where "exDigest b = take 32 (drop 32 b)"

lemma exDigest_key: "length pk = 32 \<Longrightarrow> issuerKeyHashC exDigest pk = pk"
  by (simp add: issuerKeyHashC_def exDigest_def pad32_def fill32_def utf8Bytes_def zeros_def)

definition exTrusting :: issuerContract where
  "exTrusting = (newIssuers (Inl exKey))\<lparr>ic_ledger := \<lparr>issuerStatuses = [(exRoot, I_ACTIVE)], issuerKeys = [(exRoot, exRoot)],
     issuerNames = [(exRoot, '''')], issuerCount = 1\<rparr>, ic_registeredIssuers := [exRoot]\<rparr>"

lemma exRegisters: "issuerCircuit exDigest exKey (TxRegisterIssuer exRoot '''') (newIssuers (Inl exKey)) = (Inr (), exTrusting)"
  using exRoot_ne exDigest_key[of exRoot]
  by (simp add: registerIssuerC_def circuit_Inr exTrusting_def newIssuers_def Let_def setInsert_def exRoot_def)

theorem trust_reaches_consumers_witness:
  "isTrustedC exDigest exTrusting exRoot \<and>
   the_or ''INACTIVE'' (cacheOf issuerEntry
     (cf_emitted (run_events (feedStep diffIssuer (\<lambda>s. Inr (ic_ledger s)))
        (joinContract diffIssuer (\<lambda>s. Inr (ic_ledger s)) (Some (newIssuers (Inl exKey))) 0) [StreamEnds, PollTick, PollAnswers (Some exTrusting) 1]))
     (bytesToHex (issuerKeyHash exDigest exRoot))) = ''ACTIVE''"
proof -
  let ?es = "[StreamEnds, PollTick, PollAnswers (Some exTrusting) 1]"
  let ?f = "run_events (feedStep diffIssuer (\<lambda>s. Inr (ic_ledger s)))
        (joinContract diffIssuer (\<lambda>s. Inr (ic_ledger s)) (Some (newIssuers (Inl exKey))) 0) ?es"
  have "reaches (issuerCircuit exDigest) (newIssuers (Inl exKey)) exTrusting"
    by (rule reaches.transaction[OF reaches.same], rule exRegisters)
  then have o: "sorted_wrt (reaches (issuerCircuit exDigest)) (newIssuers (Inl exKey) # deliveredStates ?es)" by simp
  have l: "length exRoot = 32" by (simp add: exRoot_def)
  have trusted: "isTrustedC exDigest exTrusting exRoot"
    using exDigest_key[OF l] by (simp add: isTrustedC_def isTrustedByHashC_def exTrusting_def)
  have cur: "cf_current ?f = Some (ic_ledger exTrusting)" by (simp add: joinContract_def Let_def observe_def)
  obtain s where "cf_current ?f = Some (ic_ledger s)" and iff: "isTrustedC exDigest s exRoot \<longleftrightarrow>
        the_or ''INACTIVE'' (cacheOf issuerEntry (cf_emitted ?f) (bytesToHex (issuerKeyHash exDigest exRoot))) = ''ACTIVE''"
    using trust_reaches_consumers[OF reaches.same o l refl] by blast
  with cur have "ic_ledger s = ic_ledger exTrusting" by simp
  then have "isTrustedC exDigest s exRoot = isTrustedC exDigest exTrusting exRoot"
    by (simp add: isTrustedC_def isTrustedByHashC_def)
  with trusted iff show ?thesis by simp
qed

definition exIdentity :: "int \<Rightarrow> identityContract" where
  "exIdentity st = \<lparr>cb_isInitialized = True, cb_isPaused = False, cb_owner = Inl exKey,
     dc_ledger = \<lparr>commitments = [(exRoot, exRoot)], commitmentStatuses = [(exRoot, st)], commitmentIssuers = [(exRoot, exRoot)],
       registeredCommitments = [exRoot]\<rparr>,
     dc_didOwners = [(exRoot, exRoot)], dc_identityCount = 1\<rparr>"

theorem active_identity_protected_witness:
  "\<exists>t. identityCircuit exDigest [] (TxUpdateCommitment exRoot exRoot exKey exKey) (exIdentity D_ACTIVE) = (Inr (), t) \<and>
     map_of (dc_didOwners t) exRoot = Some exRoot \<and> didCommitment t exRoot = Some exKey"
proof -
  have "deriveOwnerHash exDigest exRoot = exRoot"
    by (simp add: deriveOwnerHash_def exDigest_def pad32_def fill32_def utf8Bytes_def zeros_def exRoot_def)
  then obtain t where t: "identityCircuit exDigest [] (TxUpdateCommitment exRoot exRoot exKey exKey) (exIdentity D_ACTIVE) = (Inr (), t)"
      "didCommitment t exRoot = Some exKey"
    using exRoot_ne by (simp add: updateCommitmentC_def circuit_Inr exIdentity_def writeCommitment_def Let_def update_conv')
  have "didStatus (exIdentity D_ACTIVE) exRoot = Some D_ACTIVE" by (simp add: exIdentity_def)
  from active_identity_protected[OF t(1) this] t show ?thesis by (auto simp: exIdentity_def)
qed

theorem expired_identity_taken_over_witness:
  "\<exists>t. identityCircuit exDigest [] (TxRegisterIdentity exKey exRoot exRoot exRoot) (exIdentity D_EXPIRED) = (Inr (), t) \<and>
     map_of (dc_didOwners t) exRoot = Some (deriveOwnerHash exDigest exKey)"
proof -
  have "didStatus (exIdentity D_EXPIRED) exRoot = Some D_EXPIRED" "\<not> cb_isPaused (exIdentity D_EXPIRED)"
    by (simp_all add: exIdentity_def)
  from expired_identity_taken_over[OF this exRoot_ne(1) exRoot_ne(1) exRoot_ne(1)] show ?thesis by blast
qed

theorem registry_owner_only_witness:
  "revocationCircuit exTree exKey (TxSuspend exRoot exRoot '''') (newRevocations (Inl exKey)) = (Inr (), exSuspended) \<and>
   cb_owner (newIssuers (Inl exKey)) = Inl exKey"
  using registry_owner_only[OF exSuspends exRegisters] exSuspends by simp

end
