(* ===== verification/Predicate_Contracts.thy ===== *)
theory Predicate_Contracts
  imports Registry_Contracts Orchestrator
begin

text \<open>
  The seven predicate contracts \<open>predicate_*.compact\<close>: the attest circuits, their ledgers and what an attestation means.
  A circuit reads its private inputs from the witnesses the prover supplies, whatever they are; \<open>witnessesFor\<close> of
  \<open>Predicate_Witness\<close> gives those of an honest holder.  The types of arguments and witnesses (\<open>Uint<w>\<close>, \<open>Bytes<32>\<close>) are
  checked as the compiled contract checks them, and a subtraction that would go below zero fails.  \<open>n as Field as
  Bytes<32>\<close> is the little-endian encoding \<open>intLE32\<close>, \<open>merkleTreePathRoot\<close> is the \<open>pathRoot\<close> of the runtime.  Nothing is
  assumed about collisions: where a forged credential would need one, the statements name the colliding byte strings.
\<close>

section \<open>State and inputs\<close>

text \<open>\<open>pc_nullifiers\<close> is a field of \<open>predicate_personhood.compact\<close> only and stays empty elsewhere.\<close>

record predicateContract = contractBase +
  pc_ledger :: predicateLedger
  pc_attestTree :: "bytes list"
  pc_nullifiers :: "bytes list"

type_synonym 'p witnesses = "(string \<times> 'p Predicate_Witness.witnessValue res) list"

abbreviation uint_type :: "nat \<Rightarrow> int \<Rightarrow> bool" where "uint_type w n \<equiv> 0 \<le> n \<and> n < 2 ^ w"

definition typed :: "bool \<Rightarrow> ('s, unit) act" where
  "typed c = (if c then returnA () else throwA (Error ''type error''))"

definition witnessRead :: "'p witnesses \<Rightarrow> string \<Rightarrow> 'p Predicate_Witness.witnessValue res" where
  "witnessRead ws field = (case map_of ws field of None \<Rightarrow> Inl (TypeError ''witness is not a function'') | Some r \<Rightarrow> r)"

definition witnessUint :: "nat \<Rightarrow> 'p witnesses \<Rightarrow> string \<Rightarrow> int res" where
  "witnessUint w ws field =
     bindR (witnessRead ws field) (\<lambda>v.
       case v of W_int n \<Rightarrow> if uint_type w n then Inr n else Inl (Error ''type error'') | _ \<Rightarrow> Inl (Error ''type error''))"

definition witnessBytes32 :: "'p witnesses \<Rightarrow> string \<Rightarrow> bytes res" where
  "witnessBytes32 ws field =
     bindR (witnessRead ws field) (\<lambda>v.
       case v of W_bytes b \<Rightarrow> if length b = 32 then Inr b else Inl (Error ''type error'') | _ \<Rightarrow> Inl (Error ''type error''))"

definition witnessPath :: "'p witnesses \<Rightarrow> string \<Rightarrow> 'p res" where
  "witnessPath ws field =
     bindR (witnessRead ws field) (\<lambda>v. case v of W_path p \<Rightarrow> Inr p | _ \<Rightarrow> Inl (Error ''type error''))"

definition subUint :: "int \<Rightarrow> int \<Rightarrow> ('s, int) act" where
  "subUint a b = (if b \<le> a then returnA (a - b) else throwA (Error ''result of subtraction would be negative''))"

section \<open>Circuits\<close>

definition keyOfC :: "(bytes \<Rightarrow> bytes) \<Rightarrow> bytes \<Rightarrow> bytes \<Rightarrow> bytes \<Rightarrow> bytes" where
  "keyOfC sha tag dRootHash dParam = sha (tag @ dRootHash @ dParam)"

definition addKey :: "bytes \<Rightarrow> predicateContract \<Rightarrow> predicateContract" where
  "addKey key s =
     (let l = pc_ledger s in
      if key \<in> set (attestations l) then s
      else s\<lparr>pc_ledger := \<lparr>attestations = attestations l @ [key], attestCount = attestCount l + 1\<rparr>,
             pc_attestTree := pc_attestTree s @ [key]\<rparr>)"

definition recordC :: "bytes \<Rightarrow> (predicateContract, unit) act" where
  "recordC key = modA (addKey key)"

text \<open>The binding of a claim to the issuer-signed root, which every circuit repeats.\<close>

definition boundTo ::
  "(bytes \<Rightarrow> bytes) \<Rightarrow> ('t, 'p) compactRuntime \<Rightarrow> 'p witnesses \<Rightarrow> bytes \<Rightarrow> string \<Rightarrow> bytes \<Rightarrow> string \<Rightarrow> ('s, unit) act" where
  "boundTo sha R ws owlRoot name v msg =
     bindA (liftA (witnessBytes32 ws ''claimSalt'')) (\<lambda>salt.
     bindA (liftA (witnessPath ws ''claimPath'')) (\<lambda>p.
     seqA (assertC (pathLeaf R p = sha (pad32 name @ v @ salt)) msg)
          (assertC (owlRoot = fill32 (pathRoot R p)) ''owl_root mismatch'')))"

definition attestAgeGte ::
  "(bytes \<Rightarrow> bytes) \<Rightarrow> ('t, 'p) compactRuntime \<Rightarrow> 'p witnesses \<Rightarrow> bytes \<Rightarrow> int \<Rightarrow> int \<Rightarrow> (predicateContract, unit) act" where
  "attestAgeGte sha R ws owlRoot t asOfYmd =
     seqA assertNotPaused
    (seqA (assertC (owlRoot \<noteq> zero32) ''zero owlRoot'')
    (seqA (assertC (t \<le> 150) ''threshold out of range'')
    (bindA (liftA (witnessUint 32 ws ''dobValue'')) (\<lambda>dob.
     seqA (boundTo sha R ws owlRoot ''birthdate'' (intLE32 dob) ''claim commitment != birthdate witness'')
    (bindA (subUint asOfYmd (t * 10000)) (\<lambda>cutoff.
     seqA (assertC (dob \<le> cutoff) ''age below threshold'')
          (recordC (keyOfC sha (pad32 ''owlid:attest:age:'') owlRoot (sha (intLE32 t @ intLE32 asOfYmd))))))))))"

definition attestAgeRange ::
  "(bytes \<Rightarrow> bytes) \<Rightarrow> ('t, 'p) compactRuntime \<Rightarrow> 'p witnesses \<Rightarrow> bytes \<Rightarrow> int \<Rightarrow> int \<Rightarrow> int \<Rightarrow> (predicateContract, unit) act" where
  "attestAgeRange sha R ws owlRoot minAge maxAge asOfYmd =
     seqA assertNotPaused
    (seqA (assertC (owlRoot \<noteq> zero32) ''zero owlRoot'')
    (seqA (assertC (minAge \<le> maxAge) ''min must be <= max'')
    (seqA (assertC (maxAge \<le> 150) ''maxAge out of range'')
    (bindA (liftA (witnessUint 32 ws ''dobValue'')) (\<lambda>dob.
     seqA (boundTo sha R ws owlRoot ''birthdate'' (intLE32 dob) ''claim commitment != birthdate witness'')
    (bindA (subUint asOfYmd (minAge * 10000)) (\<lambda>cutoffMin.
     bindA (subUint asOfYmd (maxAge * 10000)) (\<lambda>cutoffMax.
     seqA (assertC (dob \<le> cutoffMin) ''age below minimum'')
    (seqA (assertC (cutoffMax \<le> dob) ''age above maximum'')
          (recordC (keyOfC sha (pad32 ''owlid:attest:agerng:'') owlRoot
             (sha (intLE32 minAge @ intLE32 maxAge @ intLE32 asOfYmd)))))))))))))"

definition attestKycGte ::
  "(bytes \<Rightarrow> bytes) \<Rightarrow> ('t, 'p) compactRuntime \<Rightarrow> 'p witnesses \<Rightarrow> bytes \<Rightarrow> int \<Rightarrow> (predicateContract, unit) act" where
  "attestKycGte sha R ws owlRoot t =
     seqA assertNotPaused
    (seqA (assertC (owlRoot \<noteq> zero32) ''zero owlRoot'')
    (bindA (liftA (witnessUint 8 ws ''kycLevel'')) (\<lambda>lvl.
     seqA (boundTo sha R ws owlRoot ''verification_level'' (intLE32 lvl) ''claim commitment != kycLevel witness'')
    (seqA (assertC (t \<le> lvl) ''kyc below threshold'')
          (recordC (keyOfC sha (pad32 ''owlid:attest:kyc:'') owlRoot (intLE32 t)))))))"

definition attestEmailVerified ::
  "(bytes \<Rightarrow> bytes) \<Rightarrow> ('t, 'p) compactRuntime \<Rightarrow> 'p witnesses \<Rightarrow> bytes \<Rightarrow> (predicateContract, unit) act" where
  "attestEmailVerified sha R ws owlRoot =
     seqA assertNotPaused
    (seqA (assertC (owlRoot \<noteq> zero32) ''zero owlRoot'')
    (bindA (liftA (witnessUint 8 ws ''emailVerifiedFlag'')) (\<lambda>flag.
     seqA (boundTo sha R ws owlRoot ''email_verified'' (intLE32 flag) ''claim commitment != emailVerified witness'')
    (seqA (assertC (1 \<le> flag) ''email not verified by provider'')
          (recordC (keyOfC sha (pad32 ''owlid:attest:email:'') owlRoot (pad32 '''')))))))"

text \<open>The nationality and the residency circuit differ in the witness, the claim, the tag and two messages.\<close>

definition countryMember ::
  "(bytes \<Rightarrow> bytes) \<Rightarrow> ('t, 'p) compactRuntime \<Rightarrow> 'p witnesses \<Rightarrow> string \<Rightarrow> string \<Rightarrow> string \<Rightarrow> string \<Rightarrow> string \<Rightarrow> string \<Rightarrow>
    bytes \<Rightarrow> bytes \<Rightarrow> (predicateContract, unit) act" where
  "countryMember sha R ws field claim tag noneMsg leafMsg claimMsg owlRoot setHash =
     seqA assertNotPaused
    (seqA (assertC (owlRoot \<noteq> zero32) ''zero owlRoot'')
    (seqA (assertC (setHash \<noteq> zero32) ''zero setHash'')
    (bindA (liftA (witnessBytes32 ws field)) (\<lambda>cty.
     bindA (liftA (witnessBytes32 ws ''verifierIdHash'')) (\<lambda>vId.
     bindA (liftA (witnessPath ws ''allowedCountryPath'')) (\<lambda>p.
     seqA (assertC (cty \<noteq> zero32) noneMsg)
    (seqA (assertC (vId \<noteq> zero32) ''missing verifierIdHash'')
    (seqA (assertC (pathLeaf R p = cty) leafMsg)
    (seqA (boundTo sha R ws owlRoot claim cty claimMsg)
    (seqA (assertC (setHash = sha (vId @ fill32 (pathRoot R p))) ''setHash mismatch'')
          (recordC (keyOfC sha (pad32 tag) owlRoot setHash))))))))))))"

definition attestNationalityIn ::
  "(bytes \<Rightarrow> bytes) \<Rightarrow> ('t, 'p) compactRuntime \<Rightarrow> 'p witnesses \<Rightarrow> bytes \<Rightarrow> bytes \<Rightarrow> (predicateContract, unit) act" where
  "attestNationalityIn sha R ws =
     countryMember sha R ws ''nationalityCode'' ''nationality'' ''owlid:attest:nat:'' ''no nationality in credential''
       ''merkle path leaf != nationality'' ''claim commitment != nationality witness''"

definition attestResidencyIn ::
  "(bytes \<Rightarrow> bytes) \<Rightarrow> ('t, 'p) compactRuntime \<Rightarrow> 'p witnesses \<Rightarrow> bytes \<Rightarrow> bytes \<Rightarrow> (predicateContract, unit) act" where
  "attestResidencyIn sha R ws =
     countryMember sha R ws ''residentCountry'' ''residentCountry'' ''owlid:attest:resin:'' ''no residence country in credential''
       ''merkle path leaf != residence country'' ''claim commitment != residentCountry witness''"

definition nullifierOf :: "(bytes \<Rightarrow> bytes) \<Rightarrow> bytes \<Rightarrow> bytes \<Rightarrow> bytes \<Rightarrow> bytes" where
  "nullifierOf sha secret ep appId = sha (pad32 ''owlid:nullifier:uniq:'' @ secret @ ep @ appId)"

definition attestUniquePersonhood ::
  "(bytes \<Rightarrow> bytes) \<Rightarrow> ('t, 'p) compactRuntime \<Rightarrow> 'p witnesses \<Rightarrow> bytes \<Rightarrow> bytes \<Rightarrow> bytes \<Rightarrow> (predicateContract, unit) act" where
  "attestUniquePersonhood sha R ws owlRoot ep appId =
     seqA assertNotPaused
    (seqA (assertC (owlRoot \<noteq> zero32) ''zero owlRoot'')
    (bindA (liftA (witnessBytes32 ws ''personhoodSecret'')) (\<lambda>secret.
     seqA (boundTo sha R ws owlRoot ''personhoodSecret'' secret ''claim commitment != personhoodSecret witness'')
    (seqA (\<lambda>s. assertC (nullifierOf sha secret ep appId \<notin> set (pc_nullifiers s)) ''personhood replay'' s)
    (seqA (modA (\<lambda>s. s\<lparr>pc_nullifiers := pc_nullifiers s @ [nullifierOf sha secret ep appId]\<rparr>))
          (recordC (keyOfC sha (pad32 ''owlid:attest:uniq:'') owlRoot (sha (ep @ appId)))))))))"

definition isAttestedC :: "predicateContract \<Rightarrow> bytes \<Rightarrow> bool" where
  "isAttestedC s key \<longleftrightarrow> key \<in> set (attestations (pc_ledger s))"

text \<open>A call of the contract of a kind with its public arguments.\<close>

fun attestC ::
  "(bytes \<Rightarrow> bytes) \<Rightarrow> ('t, 'p) compactRuntime \<Rightarrow> predicateKind \<Rightarrow> 'p witnesses \<Rightarrow> circuitArg list \<Rightarrow> (predicateContract, unit) act" where
  "attestC sha R K_age ws args =
     (case args of
        [circuitArg.A_bytes r, A_int t, A_int d] \<Rightarrow> seqA (typed (length r = 32 \<and> uint_type 16 t \<and> uint_type 32 d)) (attestAgeGte sha R ws r t d)
      | _ \<Rightarrow> throwA (Error ''type error''))"
| "attestC sha R K_age_range ws args =
     (case args of
        [circuitArg.A_bytes r, A_int lo, A_int hi, A_int d] \<Rightarrow> seqA (typed (length r = 32 \<and> uint_type 16 lo \<and> uint_type 16 hi \<and> uint_type 32 d)) (attestAgeRange sha R ws r lo hi d)
      | _ \<Rightarrow> throwA (Error ''type error''))"
| "attestC sha R K_kyc ws args =
     (case args of
        [circuitArg.A_bytes r, A_int t] \<Rightarrow> seqA (typed (length r = 32 \<and> uint_type 8 t)) (attestKycGte sha R ws r t)
      | _ \<Rightarrow> throwA (Error ''type error''))"
| "attestC sha R K_email ws args =
     (case args of
        [circuitArg.A_bytes r] \<Rightarrow> seqA (typed (length r = 32)) (attestEmailVerified sha R ws r)
      | _ \<Rightarrow> throwA (Error ''type error''))"
| "attestC sha R K_nationality ws args =
     (case args of
        [circuitArg.A_bytes r, circuitArg.A_bytes h] \<Rightarrow> seqA (typed (length r = 32 \<and> length h = 32)) (attestNationalityIn sha R ws r h)
      | _ \<Rightarrow> throwA (Error ''type error''))"
| "attestC sha R K_residency ws args =
     (case args of
        [circuitArg.A_bytes r, circuitArg.A_bytes h] \<Rightarrow> seqA (typed (length r = 32 \<and> length h = 32)) (attestResidencyIn sha R ws r h)
      | _ \<Rightarrow> throwA (Error ''type error''))"
| "attestC sha R K_personhood ws args =
     (case args of
        [circuitArg.A_bytes r, circuitArg.A_bytes e, circuitArg.A_bytes a] \<Rightarrow> seqA (typed (length r = 32 \<and> length e = 32 \<and> length a = 32)) (attestUniquePersonhood sha R ws r e a)
      | _ \<Rightarrow> throwA (Error ''type error''))"

datatype 'p predicateTx = TxAttest "'p witnesses" "circuitArg list" | PredicateAdmin adminTx

fun predicateCircuit ::
  "(bytes \<Rightarrow> bytes) \<Rightarrow> ('t, 'p) compactRuntime \<Rightarrow> predicateKind \<Rightarrow> bytes \<Rightarrow> 'p predicateTx \<Rightarrow> (predicateContract, unit) act" where
  "predicateCircuit sha R kind caller (TxAttest ws args) = attestC sha R kind ws args"
| "predicateCircuit sha R kind caller (PredicateAdmin op) = adminCircuit caller op"

definition newPredicate :: "keyOrAddress \<Rightarrow> predicateContract" where
  "newPredicate k =
     \<lparr>cb_isInitialized = True, cb_isPaused = False, cb_owner = k, pc_ledger = \<lparr>attestations = [], attestCount = 0\<rparr>,
      pc_attestTree = [], pc_nullifiers = []\<rparr>"

section \<open>What a successful call went through\<close>

text \<open>The claim a prover opened: the value it supplied, committed under the root.\<close>

definition opened ::
  "(bytes \<Rightarrow> bytes) \<Rightarrow> ('t, 'p) compactRuntime \<Rightarrow> 'p witnesses \<Rightarrow> bytes \<Rightarrow> string \<Rightarrow> bytes \<Rightarrow> bool" where
  "opened sha R ws owlRoot name v \<longleftrightarrow>
     (\<exists>salt p. witnessBytes32 ws ''claimSalt'' = Inr salt \<and> witnessPath ws ''claimPath'' = Inr p \<and>
        pathLeaf R p = sha (pad32 name @ v @ salt) \<and> owlRoot = fill32 (pathRoot R p))"

lemma boundTo_Inr: "boundTo sha R ws r name v m s = (Inr x, t) \<longleftrightarrow> opened sha R ws r name v \<and> t = s"
  by (auto simp: boundTo_def opened_def circuit_Inr)

lemma recordC_Inr: "recordC key s = (Inr x, t) \<longleftrightarrow> t = addKey key s"
  by (simp add: recordC_def simple_Inr)

lemma typed_Inr: "typed c s = (Inr x, t) \<longleftrightarrow> c \<and> t = s"
  by (auto simp: typed_def simple_Inr)

lemma subUint_Inr: "subUint a b s = (Inr x, t) \<longleftrightarrow> b \<le> a \<and> x = a - b \<and> t = s"
  by (auto simp: subUint_def simple_Inr)

lemmas attest_Inr = circuit_Inr boundTo_Inr recordC_Inr typed_Inr subUint_Inr

lemma witness_Inr:
  "witnessUint w ws f = Inr n \<longleftrightarrow> witnessRead ws f = Inr (W_int n) \<and> uint_type w n"
  "witnessBytes32 ws f = Inr b \<longleftrightarrow> witnessRead ws f = Inr (W_bytes b) \<and> length b = 32"
  "witnessPath ws f = Inr p \<longleftrightarrow> witnessRead ws f = Inr (W_path p)"
  by (cases "witnessRead ws f"; cases "projr (witnessRead ws f)";
      auto simp: witnessUint_def witnessBytes32_def witnessPath_def)+

lemma witnessUint_range: "witnessUint w ws f = Inr n \<Longrightarrow> uint_type w n"
  by (simp add: witness_Inr)

lemma witnessBytes32_length: "witnessBytes32 ws f = Inr b \<Longrightarrow> length b = 32"
  by (simp add: witness_Inr)

lemma zero32_zeros: "zero32 = zeros 32"
  by (simp add: zero32_def zeros_def)

lemma attestAge_Inr:
  "attestC sha R K_age ws [circuitArg.A_bytes r, A_int t, A_int d] s = (Inr (), s') \<longleftrightarrow>
     \<not> cb_isPaused s \<and> length r = 32 \<and> r \<noteq> zero32 \<and> uint_type 16 t \<and> uint_type 32 d \<and> t \<le> 150 \<and>
     (\<exists>dob. witnessUint 32 ws ''dobValue'' = Inr dob \<and> opened sha R ws r ''birthdate'' (intLE32 dob) \<and> dob + t * 10000 \<le> d) \<and>
     s' = addKey (keyOfC sha (pad32 ''owlid:attest:age:'') r (sha (intLE32 t @ intLE32 d))) s"
  using witnessUint_range[of 32 ws "''dobValue''"] by (fastforce simp: attestAgeGte_def attest_Inr)

lemma attestAgeRange_Inr:
  "attestC sha R K_age_range ws [circuitArg.A_bytes r, A_int lo, A_int hi, A_int d] s = (Inr (), s') \<longleftrightarrow>
     \<not> cb_isPaused s \<and> length r = 32 \<and> r \<noteq> zero32 \<and> uint_type 16 lo \<and> uint_type 16 hi \<and> uint_type 32 d \<and>
     lo \<le> hi \<and> hi \<le> 150 \<and> hi * 10000 \<le> d \<and>
     (\<exists>dob. witnessUint 32 ws ''dobValue'' = Inr dob \<and> opened sha R ws r ''birthdate'' (intLE32 dob) \<and>
        dob + lo * 10000 \<le> d \<and> d \<le> dob + hi * 10000) \<and>
     s' = addKey (keyOfC sha (pad32 ''owlid:attest:agerng:'') r (sha (intLE32 lo @ intLE32 hi @ intLE32 d))) s"
  by (auto simp: attestAgeRange_def attest_Inr dest: witnessUint_range)

lemma attestKyc_Inr:
  "attestC sha R K_kyc ws [circuitArg.A_bytes r, A_int t] s = (Inr (), s') \<longleftrightarrow>
     \<not> cb_isPaused s \<and> length r = 32 \<and> r \<noteq> zero32 \<and> uint_type 8 t \<and>
     (\<exists>lvl. witnessUint 8 ws ''kycLevel'' = Inr lvl \<and> opened sha R ws r ''verification_level'' (intLE32 lvl) \<and> t \<le> lvl) \<and>
     s' = addKey (keyOfC sha (pad32 ''owlid:attest:kyc:'') r (intLE32 t)) s"
  by (auto simp: attestKycGte_def attest_Inr)

lemma attestEmail_Inr:
  "attestC sha R K_email ws [circuitArg.A_bytes r] s = (Inr (), s') \<longleftrightarrow>
     \<not> cb_isPaused s \<and> length r = 32 \<and> r \<noteq> zero32 \<and>
     (\<exists>flag. witnessUint 8 ws ''emailVerifiedFlag'' = Inr flag \<and> opened sha R ws r ''email_verified'' (intLE32 flag) \<and> 1 \<le> flag) \<and>
     s' = addKey (keyOfC sha (pad32 ''owlid:attest:email:'') r (pad32 '''')) s"
  by (auto simp: attestEmailVerified_def attest_Inr)

text \<open>Membership in the set behind \<open>setHash\<close>, as the two country circuits check it.\<close>

definition memberShown :: "(bytes \<Rightarrow> bytes) \<Rightarrow> ('t, 'p) compactRuntime \<Rightarrow> 'p witnesses \<Rightarrow> bytes \<Rightarrow> bytes \<Rightarrow> bool" where
  "memberShown sha R ws setHash cty \<longleftrightarrow>
     (\<exists>vId p. witnessBytes32 ws ''verifierIdHash'' = Inr vId \<and> witnessPath ws ''allowedCountryPath'' = Inr p \<and>
        vId \<noteq> zero32 \<and> cty \<noteq> zero32 \<and> pathLeaf R p = cty \<and> setHash = sha (vId @ fill32 (pathRoot R p)))"

lemma countryMember_Inr:
  "countryMember sha R ws field claim tag m1 m2 m3 r h s = (Inr (), s') \<longleftrightarrow>
     \<not> cb_isPaused s \<and> r \<noteq> zero32 \<and> h \<noteq> zero32 \<and>
     (\<exists>cty. witnessBytes32 ws field = Inr cty \<and> opened sha R ws r claim cty \<and> memberShown sha R ws h cty) \<and>
     s' = addKey (keyOfC sha (pad32 tag) r h) s"
  by (auto simp: countryMember_def memberShown_def attest_Inr)

lemma attestCountry_Inr:
  "attestC sha R K_nationality ws [circuitArg.A_bytes r, circuitArg.A_bytes h] s = (Inr (), s') \<longleftrightarrow>
     length r = 32 \<and> length h = 32 \<and> \<not> cb_isPaused s \<and> r \<noteq> zero32 \<and> h \<noteq> zero32 \<and>
     (\<exists>cty. witnessBytes32 ws ''nationalityCode'' = Inr cty \<and> opened sha R ws r ''nationality'' cty \<and> memberShown sha R ws h cty) \<and>
     s' = addKey (keyOfC sha (pad32 ''owlid:attest:nat:'') r h) s"
  "attestC sha R K_residency ws [circuitArg.A_bytes r, circuitArg.A_bytes h] s = (Inr (), s') \<longleftrightarrow>
     length r = 32 \<and> length h = 32 \<and> \<not> cb_isPaused s \<and> r \<noteq> zero32 \<and> h \<noteq> zero32 \<and>
     (\<exists>cty. witnessBytes32 ws ''residentCountry'' = Inr cty \<and> opened sha R ws r ''residentCountry'' cty \<and> memberShown sha R ws h cty) \<and>
     s' = addKey (keyOfC sha (pad32 ''owlid:attest:resin:'') r h) s"
  by (auto simp: attestNationalityIn_def attestResidencyIn_def countryMember_Inr seqA_Inr typed_Inr)

lemma attestPerson_Inr:
  "attestC sha R K_personhood ws [circuitArg.A_bytes r, circuitArg.A_bytes e, circuitArg.A_bytes a] s = (Inr (), s') \<longleftrightarrow>
     \<not> cb_isPaused s \<and> length r = 32 \<and> length e = 32 \<and> length a = 32 \<and> r \<noteq> zero32 \<and>
     (\<exists>secret. witnessBytes32 ws ''personhoodSecret'' = Inr secret \<and> opened sha R ws r ''personhoodSecret'' secret \<and>
        nullifierOf sha secret e a \<notin> set (pc_nullifiers s) \<and>
        s' = addKey (keyOfC sha (pad32 ''owlid:attest:uniq:'') r (sha (e @ a)))
               (s\<lparr>pc_nullifiers := pc_nullifiers s @ [nullifierOf sha secret e a]\<rparr>))"
  by (auto simp: attestUniquePersonhood_def attest_Inr)

declare attestC.simps [simp del]

lemmas attest_kinds_Inr = attestAge_Inr attestAgeRange_Inr attestKyc_Inr attestEmail_Inr attestCountry_Inr attestPerson_Inr

section \<open>Encodings of claim values\<close>

lemma leVal_inject: "length xs = length ys \<Longrightarrow> leVal xs = leVal ys \<Longrightarrow> xs = ys"
proof (induction xs ys rule: list_induct2)
  case (Cons x xs y ys)
  have digit: "(uint w + 256 * n) mod 256 = uint w" for w :: "8 word" and n
    using uint_bounded[of w] by simp
  from Cons.prems have eq: "uint x + 256 * leVal xs = uint y + 256 * leVal ys" by simp
  then have "uint x = uint y" using digit[of x "leVal xs"] digit[of y "leVal ys"] by metis
  with eq show ?case using Cons.IH by (simp add: word_uint_eq_iff)
qed simp

lemma leVal_intLE32: "leVal (intLE32 n) = leVal (leLoop 16 n)"
proof -
  have "length (leLoop 16 n) \<le> 32" by (rule order_trans [OF length_leLoop]) simp
  then show ?thesis by (simp add: intLE32_def fill32_short)
qed

lemma leVal_intLE32_id: "0 \<le> n \<Longrightarrow> n < 2 ^ 128 \<Longrightarrow> leVal (intLE32 n) = n"
  by (simp add: leVal_intLE32 leVal_leLoop)

lemma leVal_leLoop_le: "leVal (leLoop k v) \<le> max 0 v"
proof (induction k v rule: leLoop.induct)
  case (2 k v)
  then show ?case
  proof (cases "v > 0")
    case True
    have "leVal (leLoop (Suc k) v) = v mod 256 + 256 * leVal (leLoop k (v div 256))"
      using True by (simp add: uint_word_of_int)
    also have "\<dots> \<le> v mod 256 + 256 * (v div 256)" using 2[OF True] True by (intro add_left_mono mult_left_mono) (simp_all add: pos_imp_zdiv_nonneg_iff)
    finally show ?thesis using True mult_div_mod_eq[of 256 v] by linarith
  qed simp
qed simp

lemma intLE32_le: "intLE32 a = intLE32 n \<Longrightarrow> 0 \<le> a \<Longrightarrow> a < 2 ^ 128 \<Longrightarrow> a \<le> max 0 n"
  using leVal_leLoop_le[of 16 n] leVal_intLE32[of n] leVal_intLE32_id[of a] by simp

lemma intLE32_inject: "intLE32 a = intLE32 b \<Longrightarrow> 0 \<le> a \<Longrightarrow> a < 2 ^ 128 \<Longrightarrow> 0 \<le> b \<Longrightarrow> b < 2 ^ 128 \<Longrightarrow> a = b"
  by (metis leVal_intLE32_id)

lemma intLE32_u128: "0 \<le> n \<Longrightarrow> n < 2 ^ 128 \<Longrightarrow> u128Le32 n = intLE32 n"
  by (simp add: u128Le32_def intLE32_def)

lemma intLE32_u16: "0 \<le> n \<Longrightarrow> n < 65536 \<Longrightarrow> u16Le32 n = intLE32 n"
  by (rule leVal_inject) (simp_all add: leVal_u16Le32 leVal_intLE32_id)

lemma readNat_bound: "list_all isDigit ds \<Longrightarrow> readNat ds < 10 ^ length ds"
proof (induction ds rule: rev_induct)
  case (snoc d ds)
  then have "readNat ds < 10 ^ length ds" and d: "code d \<le> 57" by (simp_all add: isDigit_def)
  from d have "code d - 48 \<le> 9" by arith
  with \<open>readNat ds < 10 ^ length ds\<close> show ?case by (simp add: readNat_def)
qed (simp add: readNat_def)

lemma dateToYmd_bound: "dateToYmd v = Some d \<Longrightarrow> d < 2 ^ 32"
proof (cases v)
  case (JStr s)
  assume "dateToYmd v = Some d"
  with JStr obtain y m e where iso: "isoDate (trim s) = Some (y, m, e)" and d: "m \<le> 12" "e \<le> 31" "d = y * 10000 + m * 100 + e"
    by (auto split: option.splits if_splits)
  from iso have "list_all isDigit (take 4 (trim s))" "y = readNat (take 4 (trim s))"
    by (auto simp: isoDate_def Let_def split: if_splits)
  with readNat_bound[of "take 4 (trim s)"] have "y < 10 ^ length (take 4 (trim s))" by simp
  also have "\<dots> \<le> 10 ^ 4" by (rule power_increasing) auto
  finally show ?thesis using d by simp
qed auto

lemma claimName_short:
  assumes "claimValue32 n v = Some b"
  shows "length n \<le> 32 \<and> CHR 0x00 \<notin> set n"
proof -
  from assms have "n \<in> {''verification_level'', ''birthdate'', ''email_verified'', ''resident'', ''nationality'', ''residentCountry'',
      ''personhoodSecret''}"
    unfolding claimValue32_def by (rule contrapos_pp) simp
  then show ?thesis by auto
qed

section \<open>Soundness\<close>

text \<open>The contract of a request, the public arguments of its call and the key it is looked up by.\<close>

fun requestKind :: "predicateRequest \<Rightarrow> predicateKind" where
  "requestKind (AgeOver _) = K_age"
| "requestKind (AgeRange _ _) = K_age_range"
| "requestKind (KycLevel _) = K_kyc"
| "requestKind EmailVerified = K_email"
| "requestKind (NationalityIn _) = K_nationality"
| "requestKind (ResidencyIn _) = K_residency"
| "requestKind (UniquePerson _ _) = K_personhood"

fun requestArgs ::
  "(bytes \<Rightarrow> bytes) \<Rightarrow> ('t, 'p) compactRuntime \<Rightarrow> string \<Rightarrow> bytes \<Rightarrow> int \<Rightarrow> predicateRequest \<Rightarrow> circuitArg list res" where
  "requestArgs sha R vid root ep (AgeOver t) = Inr [circuitArg.A_bytes root, A_int t, A_int ep]"
| "requestArgs sha R vid root ep (AgeRange lo hi) = Inr [circuitArg.A_bytes root, A_int lo, A_int hi, A_int ep]"
| "requestArgs sha R vid root ep (KycLevel l) = Inr [circuitArg.A_bytes root, A_int (kycRung l)]"
| "requestArgs sha R vid root ep EmailVerified = Inr [circuitArg.A_bytes root]"
| "requestArgs sha R vid root ep (NationalityIn cs) =
     bindR (allowedCountrySetHash sha R vid cs) (\<lambda>h. Inr [circuitArg.A_bytes root, circuitArg.A_bytes h])"
| "requestArgs sha R vid root ep (ResidencyIn cs) =
     bindR (allowedCountrySetHash sha R vid cs) (\<lambda>h. Inr [circuitArg.A_bytes root, circuitArg.A_bytes h])"
| "requestArgs sha R vid root ep (UniquePerson e a) =
     bindR (hexToBytes32 a) (\<lambda>ab. bindR (hexToBytes32 e) (\<lambda>eb.
       Inr [circuitArg.A_bytes root, circuitArg.A_bytes eb, circuitArg.A_bytes (sha (sha (utf8Bytes vid) @ ab))]))"

fun requestKey ::
  "(bytes \<Rightarrow> bytes) \<Rightarrow> ('t, 'p) compactRuntime \<Rightarrow> string \<Rightarrow> bytes \<Rightarrow> int \<Rightarrow> predicateRequest \<Rightarrow> bytes res" where
  "requestKey sha R vid root ep (AgeOver t) = Inr (circuitAgeKey sha root t ep)"
| "requestKey sha R vid root ep (AgeRange lo hi) = Inr (circuitAgeRangeKey sha root lo hi ep)"
| "requestKey sha R vid root ep p = predicateKey sha R vid root p"

text \<open>What a request asks of the value of its claim; the age is in completed years on the epoch's date.\<close>

fun supports :: "int \<Rightarrow> predicateRequest \<Rightarrow> json \<Rightarrow> bool" where
  "supports ep (AgeOver t) v = (\<exists>d. dateToYmd v = Some d \<and> t \<le> (ep - int d) div 10000)"
| "supports ep (AgeRange lo hi) v =
     (\<exists>d. dateToYmd v = Some d \<and> lo \<le> (ep - int d) div 10000 \<and> (ep - int d) div 10000 \<le> hi)"
| "supports ep (KycLevel l) v = (\<exists>n. verificationLevelToNumber v = Some n \<and> kycRung l \<le> max 0 n)"
| "supports ep EmailVerified v = (toBool v = Some True)"
| "supports ep (NationalityIn cs) v = (\<exists>s c. v = JStr s \<and> c \<in> validSet cs \<and> pad32 (toUpperCase s) = padCountry c)"
| "supports ep (ResidencyIn cs) v = (\<exists>s c. v = JStr s \<and> c \<in> validSet cs \<and> pad32 (toUpperCase s) = padCountry c)"
| "supports ep (UniquePerson e a) v = (hexTo32 v \<noteq> None)"

text \<open>The ways to cheat.  \<open>claimForged\<close>: the prover opened a leaf that is not in the issuer's tree on a path that folds to
  its root, or supplied a value whose commitment collides with that of another claim or hits the empty slots.
  \<open>countryForged\<close>: the same for the verifier's country tree and its salted root.\<close>

definition witnessValue32 :: "predicateKind \<Rightarrow> 'p witnesses \<Rightarrow> bytes res" where
  "witnessValue32 kind ws =
     (case kind of
        K_age \<Rightarrow> bindR (witnessUint 32 ws ''dobValue'') (\<lambda>n. Inr (intLE32 n))
      | K_age_range \<Rightarrow> bindR (witnessUint 32 ws ''dobValue'') (\<lambda>n. Inr (intLE32 n))
      | K_kyc \<Rightarrow> bindR (witnessUint 8 ws ''kycLevel'') (\<lambda>n. Inr (intLE32 n))
      | K_email \<Rightarrow> bindR (witnessUint 8 ws ''emailVerifiedFlag'') (\<lambda>n. Inr (intLE32 n))
      | K_nationality \<Rightarrow> witnessBytes32 ws ''nationalityCode''
      | K_residency \<Rightarrow> witnessBytes32 ws ''residentCountry''
      | K_personhood \<Rightarrow> witnessBytes32 ws ''personhoodSecret'')"

definition claimPreimages :: "(bytes \<Rightarrow> bytes) \<Rightarrow> claimDisclosure list \<Rightarrow> bytes list" where
  "claimPreimages sha claims =
     concat (map (\<lambda>c. case claimValue32 (cd_name c) (cd_value c) of
       None \<Rightarrow> [] | Some v \<Rightarrow> [pad32 (cd_name c) @ v @ sha (utf8Bytes (cd_salt c))]) claims)"

definition claimForged ::
  "(bytes \<Rightarrow> bytes) \<Rightarrow> ('t, 'p) compactRuntime \<Rightarrow> predicateKind \<Rightarrow> 'p witnesses \<Rightarrow> claimDisclosure list \<Rightarrow> 't builtTree \<Rightarrow> bytes \<Rightarrow> bool" where
  "claimForged sha R kind ws claims built root \<longleftrightarrow>
     (\<exists>name v salt p. OWL_BOUND_CLAIM kind = Some name \<and> witnessValue32 kind ws = Inr v \<and>
        witnessBytes32 ws ''claimSalt'' = Inr salt \<and> witnessPath ws ''claimPath'' = Inr p \<and> fill32 (pathRoot R p) = root \<and>
        (pathLeaf R p \<notin> set (bt_leaves built) \<or> sha (pad32 name @ v @ salt) = zeros 32 \<or>
         collision sha [pad32 name @ v @ salt] (claimPreimages sha claims)))"

definition countryForged ::
  "(bytes \<Rightarrow> bytes) \<Rightarrow> ('t, 'p) compactRuntime \<Rightarrow> 'p witnesses \<Rightarrow> string \<Rightarrow> string list \<Rightarrow> bool" where
  "countryForged sha R ws vid cs \<longleftrightarrow>
     (\<exists>vId p built root. witnessBytes32 ws ''verifierIdHash'' = Inr vId \<and> witnessPath ws ''allowedCountryPath'' = Inr p \<and>
        buildAllowedSetTree R cs = Inr built \<and> treeRootBytesLE R (bt_tree built) = Inr root \<and>
        (fill32 (pathRoot R p) = root \<and> pathLeaf R p \<notin> set (bt_leaves built) \<or>
         collision sha [vId @ fill32 (pathRoot R p)] [verifierIdHash sha vid @ root]))"

fun requestForged ::
  "(bytes \<Rightarrow> bytes) \<Rightarrow> ('t, 'p) compactRuntime \<Rightarrow> 'p witnesses \<Rightarrow> string \<Rightarrow> predicateRequest \<Rightarrow> bool" where
  "requestForged sha R ws vid (NationalityIn cs) = countryForged sha R ws vid cs"
| "requestForged sha R ws vid (ResidencyIn cs) = countryForged sha R ws vid cs"
| "requestForged sha R ws vid _ = False"

lemma slot_leaves:
  assumes "x \<in> set (map (\<lambda>i. if i < length xs then f (xs ! i) else z) is)" and "x \<noteq> z"
  shows "x \<in> f ` set xs"
proof -
  obtain i where "x = (if i < length xs then f (xs ! i) else z)" using assms(1) unfolding set_map by blast
  then show ?thesis using assms(2) by (cases "i < length xs") auto
qed

lemma built_leaves:
  assumes "sha_32 sha" and "buildOwlRootTree sha R claims = Inr built" and "h \<in> set (bt_leaves built)" and "h \<noteq> zeros 32"
  obtains c v where "c \<in> set claims" "claimValue32 (cd_name c) (cd_value c) = Some v"
    "h = sha (pad32 (cd_name c) @ v @ sha (utf8Bytes (cd_salt c)))"
proof -
  obtain cs where cs: "owlCommits sha claims = Inr cs"
      and set_cs: "set cs = {(n, h). \<exists>c \<in> set claims. cd_name c = n \<and> commitment sha c = Some h}"
    by (rule owlCommits_ok [OF assms(1)])
  from assms(2) have "bt_leaves built = commitLeaves cs"
    by (cases "length cs > SLOTS") (auto simp: buildOwlRootTree_def cs Let_def)
  with assms(3) have "h \<in> set (commitLeaves cs)" by simp
  then have "h \<in> snd ` set cs" using assms(4) unfolding commitLeaves_def by (rule slot_leaves)
  then obtain c where "c \<in> set claims" "commitment sha c = Some h" by (auto simp: set_cs)
  then show ?thesis using that by (auto simp: commitment_def)
qed

lemma opened_claim:
  assumes "sha_32 sha" and "buildOwlRootTree sha R claims = Inr built"
    and "OWL_BOUND_CLAIM kind = Some name" and "witnessValue32 kind ws = Inr v" and "opened sha R ws root name v" and "length v = 32"
    and "\<not> claimForged sha R kind ws claims built root" and "length name \<le> 32" and "CHR 0x00 \<notin> set name"
  shows "\<exists>c \<in> set claims. cd_name c = name \<and> claimValue32 name (cd_value c) = Some v"
proof -
  obtain salt p where o: "witnessBytes32 ws ''claimSalt'' = Inr salt" "witnessPath ws ''claimPath'' = Inr p"
      "pathLeaf R p = sha (pad32 name @ v @ salt)" "root = fill32 (pathRoot R p)"
    using assms(5) by (auto simp: opened_def)
  with assms(3,4,7) have no: "pathLeaf R p \<in> set (bt_leaves built)" "sha (pad32 name @ v @ salt) \<noteq> zeros 32"
      "\<not> collision sha [pad32 name @ v @ salt] (claimPreimages sha claims)"
    unfolding claimForged_def by blast+
  from built_leaves[OF assms(1,2) no(1)] no(2) o(3) obtain c u where c: "c \<in> set claims"
      "claimValue32 (cd_name c) (cd_value c) = Some u" "sha (pad32 name @ v @ salt) = sha (pad32 (cd_name c) @ u @ sha (utf8Bytes (cd_salt c)))"
    by auto
  then have "pad32 (cd_name c) @ u @ sha (utf8Bytes (cd_salt c)) \<in> set (claimPreimages sha claims)"
    by (force simp: claimPreimages_def)
  from collisionI[OF _ this c(3) no(3)] have eq: "pad32 name @ v @ salt = pad32 (cd_name c) @ u @ sha (utf8Bytes (cd_salt c))" by simp
  then have "pad32 name = pad32 (cd_name c)" "v = u"
    using length_claimValue32[OF c(2)] assms(6) by (auto simp: append_eq_append_conv)
  with pad32_inject[of name "cd_name c"] claimName_short[OF c(2)] assms(8,9) c show ?thesis by auto
qed

lemma member_country:
  assumes "allowedCountrySetHash sha R vid cs = Inr h" and "memberShown sha R ws h cty" and "\<not> countryForged sha R ws vid cs"
    and "sha_32 sha"
  shows "\<exists>c \<in> validSet cs. cty = padCountry c"
proof -
  obtain built root where b: "buildAllowedSetTree R cs = Inr built" "treeRootBytesLE R (bt_tree built) = Inr root"
      "h = sha (verifierIdHash sha vid @ root)"
    using assms(1) by (auto simp: allowedCountrySetHash_def sha256_def res_simps)
  obtain vId p where m: "witnessBytes32 ws ''verifierIdHash'' = Inr vId" "witnessPath ws ''allowedCountryPath'' = Inr p"
      "cty \<noteq> zero32" "pathLeaf R p = cty" "h = sha (vId @ fill32 (pathRoot R p))"
    using assms(2) by (auto simp: memberShown_def)
  have "\<not> collision sha [vId @ fill32 (pathRoot R p)] [verifierIdHash sha vid @ root]"
    using assms(3) b(1,2) m(1,2) unfolding countryForged_def by blast
  from collisionI[OF _ _ _ this] b(3) m(5) have "vId @ fill32 (pathRoot R p) = verifierIdHash sha vid @ root" by simp
  then have "fill32 (pathRoot R p) = root"
    using witnessBytes32_length[OF m(1)] assms(4) by (simp add: append_eq_append_conv verifierIdHash_def sha_32_def)
  with assms(3) b(1,2) m(1,2,4) have "cty \<in> set (bt_leaves built)" unfolding countryForged_def by blast
  moreover have "bt_leaves built = countryLeaves (canonicaliseCountries cs)"
    using b(1) by (auto simp: buildAllowedSetTree_def buildCanonicalTree_def Let_def split: if_splits)
  ultimately have "cty \<in> set (countryLeaves (canonicaliseCountries cs))" by simp
  then have "cty \<in> padCountry ` set (canonicaliseCountries cs)"
    using m(3) unfolding countryLeaves_def zero32_zeros by (rule slot_leaves)
  then show ?thesis by (auto simp: set_canonicalise)
qed

text \<open>The value a successful call supplied for its claim, and what the circuit checked of it.\<close>

fun valueChecked ::
  "(bytes \<Rightarrow> bytes) \<Rightarrow> ('t, 'p) compactRuntime \<Rightarrow> 'p witnesses \<Rightarrow> string \<Rightarrow> int \<Rightarrow> predicateRequest \<Rightarrow> bytes \<Rightarrow> bool" where
  "valueChecked sha R ws vid ep (AgeOver t) v = (\<exists>d. v = intLE32 d \<and> uint_type 32 d \<and> d + t * 10000 \<le> ep)"
| "valueChecked sha R ws vid ep (AgeRange lo hi) v =
     (\<exists>d. v = intLE32 d \<and> uint_type 32 d \<and> d + lo * 10000 \<le> ep \<and> ep \<le> d + hi * 10000)"
| "valueChecked sha R ws vid ep (KycLevel l) v = (\<exists>n. v = intLE32 n \<and> uint_type 8 n \<and> kycRung l \<le> n)"
| "valueChecked sha R ws vid ep EmailVerified v = (\<exists>n. v = intLE32 n \<and> uint_type 8 n \<and> 1 \<le> n)"
| "valueChecked sha R ws vid ep (NationalityIn cs) v = (\<exists>h. allowedCountrySetHash sha R vid cs = Inr h \<and> memberShown sha R ws h v)"
| "valueChecked sha R ws vid ep (ResidencyIn cs) v = (\<exists>h. allowedCountrySetHash sha R vid cs = Inr h \<and> memberShown sha R ws h v)"
| "valueChecked sha R ws vid ep (UniquePerson e a) v = True"

fun claimNameOf :: "predicateRequest \<Rightarrow> string" where
  "claimNameOf (AgeOver _) = ''birthdate''"
| "claimNameOf (AgeRange _ _) = ''birthdate''"
| "claimNameOf (KycLevel _) = ''verification_level''"
| "claimNameOf EmailVerified = ''email_verified''"
| "claimNameOf (NationalityIn _) = ''nationality''"
| "claimNameOf (ResidencyIn _) = ''residentCountry''"
| "claimNameOf (UniquePerson _ _) = ''personhoodSecret''"

lemma claimNameOf_bound: "OWL_BOUND_CLAIM (requestKind p) = Some (claimNameOf p)"
  by (cases p) simp_all

lemma claimNameOf_short: "length (claimNameOf p) \<le> 32" "CHR 0x00 \<notin> set (claimNameOf p)"
  by (cases p; simp)+

lemma attest_opened:
  assumes "requestArgs sha R vid root ep p = Inr args" and "attestC sha R (requestKind p) ws args s = (Inr (), t)"
  obtains v where "witnessValue32 (requestKind p) ws = Inr v" "opened sha R ws root (claimNameOf p) v" "length v = 32"
    "valueChecked sha R ws vid ep p v"
proof -
  have "\<exists>v. witnessValue32 (requestKind p) ws = Inr v \<and> opened sha R ws root (claimNameOf p) v \<and> length v = 32 \<and>
      valueChecked sha R ws vid ep p v"
  proof (cases p)
    case (AgeOver n)
    then show ?thesis using assms witnessUint_range[of 32 ws "''dobValue''"] by (fastforce simp: attestAge_Inr witnessValue32_def)
  next
    case (AgeRange lo hi)
    then show ?thesis using assms witnessUint_range[of 32 ws "''dobValue''"] by (fastforce simp: attestAgeRange_Inr witnessValue32_def)
  next
    case (KycLevel l)
    then show ?thesis using assms witnessUint_range[of 8 ws "''kycLevel''"] by (fastforce simp: attestKyc_Inr witnessValue32_def)
  next
    case EmailVerified
    then show ?thesis using assms witnessUint_range[of 8 ws "''emailVerifiedFlag''"] by (fastforce simp: attestEmail_Inr witnessValue32_def)
  next
    case (NationalityIn cs)
    then show ?thesis using assms witnessBytes32_length[of ws "''nationalityCode''"] by (auto simp: attestCountry_Inr witnessValue32_def res_simps)
  next
    case (ResidencyIn cs)
    then show ?thesis using assms witnessBytes32_length[of ws "''residentCountry''"] by (auto simp: attestCountry_Inr witnessValue32_def res_simps)
  next
    case (UniquePerson e a)
    then show ?thesis using assms witnessBytes32_length[of ws "''personhoodSecret''"] by (auto simp: attestPerson_Inr witnessValue32_def res_simps)
  qed
  with that show ?thesis by blast
qed

lemma age_years:
  "t \<le> (ep - d) div 10000 \<longleftrightarrow> d + t * 10000 \<le> (ep :: int)" "(ep - d) div 10000 \<le> t \<longleftrightarrow> ep < d + t * 10000 + 10000"
proof -
  have "ep - d = 10000 * ((ep - d) div 10000) + (ep - d) mod 10000" "0 \<le> (ep - d) mod 10000" "(ep - d) mod 10000 < 10000" by simp_all
  then show "t \<le> (ep - d) div 10000 \<longleftrightarrow> d + t * 10000 \<le> ep" "(ep - d) div 10000 \<le> t \<longleftrightarrow> ep < d + t * 10000 + 10000"
    by linarith+
qed

lemma value_supports:
  assumes "claimValue32 (claimNameOf p) j = Some v" and "valueChecked sha R ws vid ep p v" and "\<not> requestForged sha R ws vid p"
    and "sha_32 sha"
  shows "supports ep p j"
proof (cases p)
  case (AgeOver t)
  with assms obtain d n where "dateToYmd j = Some n" "intLE32 d = intLE32 (int n)" "uint_type 32 d" "d + t * 10000 \<le> ep"
    by (auto simp: claimValue32_def)
  moreover from this have "d = int n" using dateToYmd_bound[of j n] by (intro intLE32_inject) auto
  ultimately show ?thesis using AgeOver by (simp add: age_years)
next
  case (AgeRange lo hi)
  with assms obtain d n where "dateToYmd j = Some n" "intLE32 d = intLE32 (int n)" "uint_type 32 d" "d + lo * 10000 \<le> ep"
      "ep \<le> d + hi * 10000"
    by (auto simp: claimValue32_def)
  moreover from this have "d = int n" using dateToYmd_bound[of j n] by (intro intLE32_inject) auto
  ultimately show ?thesis using AgeRange by (simp add: age_years)
next
  case (KycLevel l)
  with assms obtain k n where k: "verificationLevelToNumber j = Some n" "intLE32 k = intLE32 n" "uint_type 8 k" "kycRung l \<le> k"
    by (auto simp: claimValue32_def)
  then have "k \<le> max 0 n" by (intro intLE32_le) auto
  with k KycLevel show ?thesis by auto
next
  case EmailVerified
  with assms obtain k b where k: "toBool j = Some b" "intLE32 k = intLE32 (if b then 1 else 0)" "uint_type 8 k" "1 \<le> k"
    by (auto simp: claimValue32_def)
  then have "k \<le> max 0 (if b then 1 else 0)" by (intro intLE32_le) auto
  with k EmailVerified show ?thesis by (cases b) auto
next
  case (NationalityIn cs)
  with assms member_country[of sha R vid cs _ ws v] show ?thesis
    by (auto simp: claimValue32_def split: json.splits)
next
  case (ResidencyIn cs)
  with assms member_country[of sha R vid cs _ ws v] show ?thesis
    by (auto simp: claimValue32_def split: json.splits)
next
  case (UniquePerson e a)
  with assms(1) show ?thesis by (simp add: claimValue32_def)
qed

lemma attest_supports:
  assumes "sha_32 sha" and "buildOwlRootTree sha R claims = Inr built" and "owlRootBytesLE R built = Inr root"
    and "requestArgs sha R vid root ep p = Inr args" and "attestC sha R (requestKind p) ws args s = (Inr (), t)"
  shows "(\<exists>c \<in> set claims. OWL_BOUND_CLAIM (requestKind p) = Some (cd_name c) \<and> supports ep p (cd_value c)) \<or>
    claimForged sha R (requestKind p) ws claims built root \<or> requestForged sha R ws vid p"
proof (rule ccontr)
  assume no: "\<not> ?thesis"
  obtain v where v: "witnessValue32 (requestKind p) ws = Inr v" "opened sha R ws root (claimNameOf p) v" "length v = 32"
      "valueChecked sha R ws vid ep p v"
    using attest_opened[OF assms(4,5)] .
  obtain c where "c \<in> set claims" "cd_name c = claimNameOf p" "claimValue32 (claimNameOf p) (cd_value c) = Some v"
    using opened_claim[OF assms(1,2) claimNameOf_bound v(1-3) _ claimNameOf_short] no by blast
  moreover from this(3) have "supports ep p (cd_value c)" using value_supports v(4) no assms(1) by blast
  ultimately show False using no claimNameOf_bound[of p] by auto
qed

text \<open>C6: An attestation means what it says.  Whoever makes the call and with whatever witnesses: if the contract of a request
  accepts a call with the request's arguments for the root of a credential, then the credential has the claim the request
  is about and its value satisfies the request (the age in completed years on the epoch's date, the level, the verified
  flag, a country of the verifier's list), or the prover forged a Merkle path of the claim or country tree or holds two
  named byte strings with the same digest.\<close>

theorem attestation_sound:
  assumes "sha_32 sha" and "buildOwlRootTree sha R claims = Inr built" and "owlRootBytesLE R built = Inr root"
    and "requestArgs sha R vid root ep p = Inr args" and "attestC sha R (requestKind p) ws args s = (Inr (), t)"
  shows "(\<exists>c \<in> set claims. OWL_BOUND_CLAIM (requestKind p) = Some (cd_name c) \<and> supports ep p (cd_value c)) \<or>
    claimForged sha R (requestKind p) ws claims built root \<or> requestForged sha R ws vid p"
  by (rule attest_supports[OF assms])

section \<open>Keys\<close>

lemma addKey_attestations: "attestations (pc_ledger (addKey k s)) = setInsert k (attestations (pc_ledger s))"
  by (simp add: addKey_def setInsert_def Let_def)

lemma requestKey_preimage:
  assumes "requestArgs sha R vid root ep p = Inr args" and "attestC sha R (requestKind p) ws args s = (Inr (), t)"
  shows "\<exists>k. requestKey sha R vid root ep p = Inr k \<and> attestations (pc_ledger t) = setInsert k (attestations (pc_ledger s))"
proof (cases p)
  case (AgeOver n)
  then show ?thesis using assms
    by (auto simp: attestAge_Inr addKey_attestations keyOfC_def circuitAgeKey_def TAG_AGE_def intLE32_u128)
next
  case (AgeRange lo hi)
  then show ?thesis using assms
    by (auto simp: attestAgeRange_Inr addKey_attestations keyOfC_def circuitAgeRangeKey_def TAG_AGE_RANGE_def intLE32_u128 intLE32_u16)
next
  case (KycLevel l)
  then show ?thesis using assms
    by (auto simp: attestKyc_Inr addKey_attestations keyOfC_def predicateKey_hashed hashed_def TAG_KYC_def intLE32_u128
        simp del: predicateKey.simps)
next
  case EmailVerified
  then show ?thesis using assms
    by (auto simp: attestEmail_Inr addKey_attestations keyOfC_def predicateKey_hashed hashed_def TAG_EMAIL_VERIFIED_def pad32_def
        fill32_def utf8Bytes_def simp del: predicateKey.simps)
next
  case (NationalityIn cs)
  then show ?thesis using assms
    by (auto simp: attestCountry_Inr addKey_attestations keyOfC_def predicateKey_hashed hashed_def TAG_NATIONALITY_def
        allowedCountrySetHash_def setRoot_def sha256_def verifierIdHash_def res_simps simp del: predicateKey.simps)
next
  case (ResidencyIn cs)
  then show ?thesis using assms
    by (auto simp: attestCountry_Inr addKey_attestations keyOfC_def predicateKey_hashed hashed_def TAG_RESIDENCY_def
        allowedCountrySetHash_def setRoot_def sha256_def verifierIdHash_def res_simps simp del: predicateKey.simps)
next
  case (UniquePerson e a)
  then show ?thesis using assms
    by (auto simp: attestPerson_Inr addKey_attestations keyOfC_def predicateKey_hashed hashed_def TAG_UNIQUE_PERSONHOOD_def
        res_simps simp del: predicateKey.simps)
qed

lemma attest_root_length:
  assumes "requestArgs sha R vid root ep p = Inr args" and "attestC sha R (requestKind p) ws args s = (Inr (), t)"
  shows "length root = 32"
proof -
  obtain v where "opened sha R ws root (claimNameOf p) v" by (rule attest_opened[OF assms])
  then show ?thesis by (auto simp: opened_def)
qed

definition keyedByRequest :: "predicateRequest \<Rightarrow> bool" where
  "keyedByRequest p \<longleftrightarrow> requestKind p \<noteq> K_age \<and> requestKind p \<noteq> K_age_range"

lemma requestKey_lookup:
  assumes "keyedByRequest p" and "length root = 32"
  shows "attestationKeyFor sha R vid (keyHex root) p = bindR (requestKey sha R vid root ep p) (\<lambda>k. Inr (keyHex k))"
proof -
  have "requestKey sha R vid root ep p = predicateKey sha R vid root p" using assms(1) by (cases p) (simp_all add: keyedByRequest_def)
  then show ?thesis
    using assms(2) by (simp add: attestationKeyFor_def keyHex_def bytesToHex_eq_hexEncode hexToBytes_hexEncode)
qed

lemma attest_records:
  assumes "requestArgs sha R vid root ep p = Inr args" and "attestC sha R (requestKind p) ws args s = (Inr (), t)"
  shows "\<exists>k. attestations (pc_ledger t) = setInsert k (attestations (pc_ledger s)) \<and> isAttestedC t k \<and>
    (keyedByRequest p \<longrightarrow> attestationKeyFor sha R vid (keyHex root) p = Inr (keyHex k))"
  using requestKey_preimage[OF assms] requestKey_lookup[OF _ attest_root_length[OF assms], where ep = ep and sha = sha and R = R and vid = vid]
  by (auto simp: isAttestedC_def)

text \<open>C8: What the circuit writes is what the verifier looks up, for the level, email, country and personhood requests: a
  successful call of the contract with the arguments of the request for the credential root \<open>root\<close> adds exactly one key
  to the contract's attestations, and it is the key that the verifier's \<open>attestationKeyFor\<close> computes for the hex of that
  root and the same request.  The two age requests are left out, since their circuits also hash the epoch.\<close>

theorem circuit_writes_request_key:
  assumes "requestKind p \<in> {K_kyc, K_email, K_nationality, K_residency, K_personhood}"
    and "requestArgs sha R vid root ep p = Inr args" and "attestC sha R (requestKind p) ws args s = (Inr (), t)"
  shows "\<exists>k. attestationKeyFor sha R vid (keyHex root) p = Inr (keyHex k) \<and>
    attestations (pc_ledger t) = setInsert k (attestations (pc_ledger s)) \<and> isAttestedC t k"
proof -
  have "keyedByRequest p" using assms(1) by (auto simp: keyedByRequest_def)
  with attest_records[OF assms(2,3)] show ?thesis by blast
qed

section \<open>Completeness\<close>

text \<open>What the circuit will check, of the 32-byte value \<open>v\<close> of the claim and the witness \<open>w\<close> the SDK fills in; an auxiliary
  condition, derived below from the meaning of the request.\<close>

fun honest ::
  "(bytes \<Rightarrow> bytes) \<Rightarrow> ('t, 'p) compactRuntime \<Rightarrow> string \<Rightarrow> int \<Rightarrow> predicateRequest \<Rightarrow> 'p predicateWitness \<Rightarrow> bytes \<Rightarrow> predicateContract \<Rightarrow> bool" where
  "honest sha R vid ep (AgeOver t) w v s =
     (0 \<le> t \<and> t \<le> 150 \<and> uint_type 32 ep \<and> (\<exists>d. dobValue w = Some d \<and> uint_type 32 d \<and> v = intLE32 d \<and> d + t * 10000 \<le> ep))"
| "honest sha R vid ep (AgeRange lo hi) w v s =
     (0 \<le> lo \<and> lo \<le> hi \<and> hi \<le> 150 \<and> uint_type 32 ep \<and> hi * 10000 \<le> ep \<and>
      (\<exists>d. dobValue w = Some d \<and> uint_type 32 d \<and> v = intLE32 d \<and> d + lo * 10000 \<le> ep \<and> ep \<le> d + hi * 10000))"
| "honest sha R vid ep (KycLevel l) w v s =
     (0 \<le> kycRung l \<and> (\<exists>n. kycLevelW w = Some n \<and> n < 256 \<and> v = intLE32 n \<and> kycRung l \<le> n))"
| "honest sha R vid ep EmailVerified w v s = (\<exists>n. emailVerifiedFlag w = Some n \<and> n < 256 \<and> v = intLE32 n \<and> 1 \<le> n)"
| "honest sha R vid ep (NationalityIn cs) w v s =
     (\<exists>c h. nationalityCode w = Some c \<and> v = padCountry c \<and> toUpperCase c \<in> validSet cs \<and> card (validSet cs) \<le> 256 \<and>
        allowedCountrySet w = Some (canonicaliseCountries cs) \<and> verifierIdHashW w = Some (verifierIdHash sha vid) \<and>
        verifierIdHash sha vid \<noteq> zero32 \<and> allowedCountrySetHash sha R vid cs = Inr h \<and> h \<noteq> zero32)"
| "honest sha R vid ep (ResidencyIn cs) w v s =
     (\<exists>c h. residentCountry w = Some c \<and> v = padCountry c \<and> toUpperCase c \<in> validSet cs \<and> card (validSet cs) \<le> 256 \<and>
        allowedCountrySet w = Some (canonicaliseCountries cs) \<and> verifierIdHashW w = Some (verifierIdHash sha vid) \<and>
        verifierIdHash sha vid \<noteq> zero32 \<and> allowedCountrySetHash sha R vid cs = Inr h \<and> h \<noteq> zero32)"
| "honest sha R vid ep (UniquePerson e a) w v s =
     (personhoodSecret w = Some v \<and> (\<exists>ab eb. hexToBytes32 a = Inr ab \<and> hexToBytes32 e = Inr eb \<and>
        nullifierOf sha v eb (sha (sha (utf8Bytes vid) @ ab)) \<notin> set (pc_nullifiers s)))"

lemma find_distinct: "distinct (map f xs) \<Longrightarrow> x \<in> set xs \<Longrightarrow> find (\<lambda>y. f y = f x) xs = Some x"
  by (induction xs) auto

lemma bindClaim_opens:
  assumes "paths_fold R" and "sha_32 sha" and "length (cj_claim_disclosures doc) \<le> 256"
    and "distinct (map cd_name (cj_claim_disclosures doc))" and "c \<in> set (cj_claim_disclosures doc)"
    and "claimValue32 (cd_name c) (cd_value c) = Some v"
    and "buildOwlRootTree sha R (cj_claim_disclosures doc) = Inr built" and "owlRootBytesLE R built = Inr root"
  obtains p where "bindClaim sha R doc (cd_name c) w0 = Inr (w0\<lparr>claimSalt := Some (sha (utf8Bytes (cd_salt c))), claimPath := Some p\<rparr>)"
    "pathLeaf R p = sha (pad32 (cd_name c) @ v @ sha (utf8Bytes (cd_salt c)))" "root = fill32 (pathRoot R p)"
proof -
  note opens = claim_path_opens[OF assms(1-3), of "cd_name c"]
  have com: "commitment sha c \<noteq> None" using assms(6) by (simp add: commitment_def)
  with opens assms(5,7) obtain p where p: "findClaimPath R built (cd_name c) = Inr p" by (auto simp: isInr_ex)
  with opens assms(7,8) obtain c' where c': "c' \<in> set (cj_claim_disclosures doc)" "cd_name c' = cd_name c"
      "commitment sha c' = Some (pathLeaf R p)" "root = fill32 (pathRoot R p)" by auto
  then have "c' = c" using assms(4,5) by (auto simp: distinct_map inj_on_def)
  with c' assms(6) have "pathLeaf R p = sha (pad32 (cd_name c) @ v @ sha (utf8Bytes (cd_salt c)))"
    by (simp add: commitment_def)
  moreover have "bindClaim sha R doc (cd_name c) w0 = Inr (w0\<lparr>claimSalt := Some (sha (utf8Bytes (cd_salt c))), claimPath := Some p\<rparr>)"
    using find_distinct[OF assms(4,5)] assms(7) p by (simp add: bindClaim_def salt32For_def)
  ultimately show ?thesis using that c'(4) by blast
qed

lemma claimWitnesses_read:
  assumes "claimSalt w = Some salt" "claimPath w = Some p" "length salt = 32" "map_of ws ''claimSalt'' = None" "map_of ws ''claimPath'' = None"
    and "pathLeaf R p = sha (pad32 name @ v @ salt)" "root = fill32 (pathRoot R p)"
  shows "opened sha R (ws @ claimWitnesses kind w) root name v"
proof -
  have "witnessRead (ws @ claimWitnesses kind w) ''claimSalt'' = Inr (W_bytes salt)"
      "witnessRead (ws @ claimWitnesses kind w) ''claimPath'' = Inr (W_path p)"
    using assms(1,2,4,5) by (simp_all add: witnessRead_def claimWitnesses_def lazyReq_def requireField_def map_add_def)
  with assms(3,6,7) show ?thesis by (auto simp: opened_def witness_Inr)
qed

lemma padCountry_nonzero: "toUpperCase c \<in> validSet cs \<Longrightarrow> padCountry c \<noteq> zero32"
proof
  assume "toUpperCase c \<in> validSet cs" "padCountry c = zero32"
  then have "alpha2Shape (toUpperCase c)" and "pad32 (toUpperCase c) = pad32 ''''"
    by (simp_all add: validSet_def padCountry_def pad32_def zero32_zeros fill32_def utf8Bytes_def zeros_def)
  moreover from this(1) have "length (toUpperCase c) = 2" "CHR 0x00 \<notin> set (toUpperCase c)"
    by (auto simp: alpha2Shape_def isAsciiUpper_def list_all_iff)
  ultimately have "toUpperCase c = ''''" by (intro pad32_inject) auto
  with \<open>length (toUpperCase c) = 2\<close> show False by simp
qed

lemma country_witnesses:
  assumes "paths_fold R" and "card (validSet cs) \<le> 256" and "toUpperCase c \<in> validSet cs" and "sha_32 sha"
    and "allowedCountrySet w = Some (canonicaliseCountries cs)" and "verifierIdHashW w = Some (verifierIdHash sha vid)"
    and "verifierIdHash sha vid \<noteq> zero32" and "allowedCountrySetHash sha R vid cs = Inr h"
    and "field = ''nationalityCode'' \<or> field = ''residentCountry''"
  obtains ws0 where "countryWitnesses R kind field (Some c) w = Inr (ws0 @ claimWitnesses kind w)"
    "map_of ws0 ''claimSalt'' = None" "map_of ws0 ''claimPath'' = None"
    "witnessBytes32 (ws0 @ claimWitnesses kind w) field = Inr (padCountry c)"
    "memberShown sha R (ws0 @ claimWitnesses kind w) h (padCountry c)"
proof -
  obtain built p where b: "buildAllowedSetTree R cs = Inr built" "findPathForCountry R built c = Inr p"
      "pathLeaf R p = padCountry c" "treeRootBytesLE R (bt_tree built) = Inr (fill32 (pathRoot R p))"
    using country_path_lookup[OF assms(1,2), of c] assms(3) by (auto simp: isInr_ex)
  have len: "length (verifierIdHash sha vid) = 32" using assms(4) by (simp add: verifierIdHash_def sha_32_def)
  let ?ws0 = "[(field, Inr (W_bytes (padCountry c))), (''verifierIdHash'', Inr (W_bytes (verifierIdHash sha vid))),
    (''allowedCountryPath'', Inr (W_path p))]"
  have built': "buildAllowedSetTree R (canonicaliseCountries cs) = Inr built"
    using b(1) by (simp add: buildAllowedSetTree_def canonicalise_idem)
  have ws: "countryWitnesses R kind field (Some c) w = Inr (?ws0 @ claimWitnesses kind w)"
    using assms(5,6) len b(2) built' by (simp add: countryWitnesses_def requireField_def)
  have reads: "witnessRead (?ws0 @ claimWitnesses kind w) field = Inr (W_bytes (padCountry c))"
      "witnessRead (?ws0 @ claimWitnesses kind w) ''verifierIdHash'' = Inr (W_bytes (verifierIdHash sha vid))"
      "witnessRead (?ws0 @ claimWitnesses kind w) ''allowedCountryPath'' = Inr (W_path p)"
    using assms(9) by (auto simp: witnessRead_def)
  have h: "h = sha (verifierIdHash sha vid @ fill32 (pathRoot R p))"
    using assms(8) b(1,4) by (simp add: allowedCountrySetHash_def sha256_def)
  have "memberShown sha R (?ws0 @ claimWitnesses kind w) h (padCountry c)"
    unfolding memberShown_def using reads(2,3) len assms(7) b(3) h padCountry_nonzero[OF assms(3)]
    by (auto simp: witness_Inr simp del: append.simps)
  moreover have "witnessBytes32 (?ws0 @ claimWitnesses kind w) field = Inr (padCountry c)"
    using reads(1) by (simp add: witness_Inr del: append.simps)
  moreover have "map_of ?ws0 ''claimSalt'' = None" "map_of ?ws0 ''claimPath'' = None" using assms(9) by auto
  ultimately show ?thesis using that ws by blast
qed

text \<open>The country case, for both contracts.\<close>

lemma honest_country:
  assumes "paths_fold R" and "sha_32 sha" and "field = ''nationalityCode'' \<or> field = ''residentCountry''"
    and opens: "\<And>ws0. map_of ws0 ''claimSalt'' = None \<Longrightarrow> map_of ws0 ''claimPath'' = None \<Longrightarrow>
      opened sha R (ws0 @ claimWitnesses kind w) root name (padCountry c)"
    and c: "toUpperCase c \<in> validSet cs" "card (validSet cs) \<le> 256"
      "allowedCountrySet w = Some (canonicaliseCountries cs)" "verifierIdHashW w = Some (verifierIdHash sha vid)"
      "verifierIdHash sha vid \<noteq> zero32" "allowedCountrySetHash sha R vid cs = Inr h"
  shows "\<exists>ws. countryWitnesses R kind field (Some c) w = Inr ws \<and> witnessBytes32 ws field = Inr (padCountry c) \<and>
    opened sha R ws root name (padCountry c) \<and> memberShown sha R ws h (padCountry c) \<and> length h = 32"
proof -
  have "length h = 32" using c(6) assms(2) by (auto simp: allowedCountrySetHash_def sha256_def sha_32_def res_simps)
  with country_witnesses[OF assms(1) c(2,1) assms(2) c(3-6) assms(3), of kind] opens show ?thesis by metis
qed

lemma honest_call:
  assumes "paths_fold R" and "sha_32 sha" and "length root = 32" and "root \<noteq> zero32" and "\<not> cb_isPaused s" and "length v = 32"
    and "honest sha R vid ep p w0 v s" and w: "w = w0\<lparr>claimSalt := Some salt, claimPath := Some q\<rparr>" and "length salt = 32"
    and "pathLeaf R q = sha (pad32 (claimNameOf p) @ v @ salt)" and "root = fill32 (pathRoot R q)"
  shows "\<exists>ws args t. witnessesFor R (requestKind p) w = Inr ws \<and> requestArgs sha R vid root ep p = Inr args \<and>
    attestC sha R (requestKind p) ws args s = (Inr (), t)"
proof -
  have sp: "claimSalt w = Some salt" "claimPath w = Some q" by (simp_all add: w)
  have open1: "opened sha R (ws0 @ claimWitnesses kind w) root (claimNameOf p) v"
    if "map_of ws0 ''claimSalt'' = None" "map_of ws0 ''claimPath'' = None" for ws0 kind
    using claimWitnesses_read[where R = R and sha = sha, OF sp assms(9) that assms(10,11)] .
  note one = open1[of "[x]" for x, simplified]
  show ?thesis
  proof (cases p)
    case (AgeOver t)
    then obtain d where d: "dobValue w = Some d" "uint_type 32 d" "v = intLE32 d" "d + t * 10000 \<le> ep"
        "0 \<le> t" "t \<le> 150" "uint_type 32 ep" using assms(7) by (auto simp: w)
    then show ?thesis using AgeOver assms(3-5) one[of "lazyReq W_int (dobValue w) K_age ''dobValue''" K_age]
      by (auto simp: attestAge_Inr witness_Inr witnessRead_def lazyReq_def requireField_def)
  next
    case (AgeRange lo hi)
    then obtain d where d: "dobValue w = Some d" "uint_type 32 d" "v = intLE32 d" "d + lo * 10000 \<le> ep" "ep \<le> d + hi * 10000"
        "0 \<le> lo" "lo \<le> hi" "hi \<le> 150" "uint_type 32 ep" "hi * 10000 \<le> ep" using assms(7) by (auto simp: w)
    then show ?thesis using AgeRange assms(3-5) one[of "lazyReq W_int (dobValue w) K_age_range ''dobValue''" K_age_range]
      by (auto simp: attestAgeRange_Inr witness_Inr witnessRead_def lazyReq_def requireField_def)
  next
    case (KycLevel l)
    then obtain n where "kycLevelW w = Some n" "n < 256" "v = intLE32 n" "kycRung l \<le> n" "0 \<le> kycRung l"
      using assms(7) by (auto simp: w)
    then show ?thesis using KycLevel assms(3-5) one[of "lazyReq W_int (kycLevelW w) K_kyc ''kycLevel''" K_kyc]
      by (auto simp: attestKyc_Inr witness_Inr witnessRead_def lazyReq_def requireField_def)
  next
    case EmailVerified
    then obtain n where "emailVerifiedFlag w = Some n" "n < 256" "v = intLE32 n" "1 \<le> n" using assms(7) by (auto simp: w)
    then show ?thesis using EmailVerified assms(3-5) one[of "lazyReq W_int (emailVerifiedFlag w) K_email ''emailVerifiedFlag''" K_email]
      by (auto simp: attestEmail_Inr witness_Inr witnessRead_def lazyReq_def requireField_def)
  next
    case (NationalityIn cs)
    then obtain c h where c: "nationalityCode w = Some c" "v = padCountry c" "toUpperCase c \<in> validSet cs" "card (validSet cs) \<le> 256"
        "allowedCountrySet w = Some (canonicaliseCountries cs)" "verifierIdHashW w = Some (verifierIdHash sha vid)"
        "verifierIdHash sha vid \<noteq> zero32" "allowedCountrySetHash sha R vid cs = Inr h" "h \<noteq> zero32"
      using assms(7) by (auto simp: w)
    have "\<exists>ws. countryWitnesses R K_nationality ''nationalityCode'' (Some c) w = Inr ws \<and> witnessBytes32 ws ''nationalityCode'' = Inr (padCountry c) \<and>
        opened sha R ws root (claimNameOf p) (padCountry c) \<and> memberShown sha R ws h (padCountry c) \<and> length h = 32"
      by (rule honest_country[OF assms(1,2) _ open1[of _ K_nationality, unfolded c(2)] c(3-8)]) simp_all
    then show ?thesis using NationalityIn assms(3-5) c(1,8,9) by (auto simp: attestCountry_Inr)
  next
    case (ResidencyIn cs)
    then obtain c h where c: "residentCountry w = Some c" "v = padCountry c" "toUpperCase c \<in> validSet cs" "card (validSet cs) \<le> 256"
        "allowedCountrySet w = Some (canonicaliseCountries cs)" "verifierIdHashW w = Some (verifierIdHash sha vid)"
        "verifierIdHash sha vid \<noteq> zero32" "allowedCountrySetHash sha R vid cs = Inr h" "h \<noteq> zero32"
      using assms(7) by (auto simp: w)
    have "\<exists>ws. countryWitnesses R K_residency ''residentCountry'' (Some c) w = Inr ws \<and> witnessBytes32 ws ''residentCountry'' = Inr (padCountry c) \<and>
        opened sha R ws root (claimNameOf p) (padCountry c) \<and> memberShown sha R ws h (padCountry c) \<and> length h = 32"
      by (rule honest_country[OF assms(1,2) _ open1[of _ K_residency, unfolded c(2)] c(3-8)]) simp_all
    then show ?thesis using ResidencyIn assms(3-5) c(1,8,9) by (auto simp: attestCountry_Inr)
  next
    case (UniquePerson e a)
    then obtain ab eb where "personhoodSecret w = Some v" "hexToBytes32 a = Inr ab" "hexToBytes32 e = Inr eb"
        "nullifierOf sha v eb (sha (sha (utf8Bytes vid) @ ab)) \<notin> set (pc_nullifiers s)" using assms(7) by (auto simp: w)
    then show ?thesis
      using UniquePerson assms(2-6) hexToBytes32_length[of e eb] one[of "(''personhoodSecret'', Inr (W_bytes v))" K_personhood]
      by (auto simp: attestPerson_Inr witness_Inr witnessRead_def requireField_def sha_32_def)
  qed
qed

text \<open>The witness the holder supplies carries the value of the claim itself, read the way the issuer's tree reads it.\<close>

fun carries :: "predicateRequest \<Rightarrow> 'p predicateWitness \<Rightarrow> json \<Rightarrow> bool" where
  "carries (AgeOver t) w j = (dobValue w = map_option int (dateToYmd j))"
| "carries (AgeRange lo hi) w j = (dobValue w = map_option int (dateToYmd j))"
| "carries (KycLevel l) w j = (kycLevelW w = verificationLevelToNumber j)"
| "carries EmailVerified w j = (emailVerifiedFlag w = map_option (\<lambda>b. if b then 1 else 0) (toBool j))"
| "carries (NationalityIn cs) w j =
     (\<exists>c c'. nationalityCode w = Some c \<and> alpha2Shape (toUpperCase c) \<and> j = JStr c' \<and> toUpperCase c' = toUpperCase c)"
| "carries (ResidencyIn cs) w j =
     (\<exists>c c'. residentCountry w = Some c \<and> alpha2Shape (toUpperCase c) \<and> j = JStr c' \<and> toUpperCase c' = toUpperCase c)"
| "carries (UniquePerson e a) w j = (personhoodSecret w = hexTo32 j)"

text \<open>For the country requests the witness also carries the verifier's scope.\<close>

fun scoped :: "(bytes \<Rightarrow> bytes) \<Rightarrow> string \<Rightarrow> predicateRequest \<Rightarrow> 'p predicateWitness \<Rightarrow> bool" where
  "scoped sha vid (NationalityIn cs) w =
     (allowedCountrySet w = Some (canonicaliseCountries cs) \<and> verifierIdHashW w = Some (verifierIdHash sha vid))"
| "scoped sha vid (ResidencyIn cs) w =
     (allowedCountrySet w = Some (canonicaliseCountries cs) \<and> verifierIdHashW w = Some (verifierIdHash sha vid))"
| "scoped sha vid p w = True"

text \<open>The request is one the contract can serve: its parameters fit the circuit's types, a country list has at most 256
  codes, no digest is the all-zero padding, and a personhood secret is unused.\<close>

fun servable ::
  "(bytes \<Rightarrow> bytes) \<Rightarrow> ('t, 'p) compactRuntime \<Rightarrow> string \<Rightarrow> int \<Rightarrow> predicateRequest \<Rightarrow> json \<Rightarrow> predicateContract \<Rightarrow> bool" where
  "servable sha R vid ep (AgeOver t) j s = (0 \<le> t \<and> t \<le> 150 \<and> 0 \<le> ep \<and> ep < 2 ^ 32)"
| "servable sha R vid ep (AgeRange lo hi) j s = False"
| "servable sha R vid ep (KycLevel l) j s = (0 \<le> kycRung l \<and> (\<exists>n. verificationLevelToNumber j = Some n \<and> 0 \<le> n \<and> n < 256))"
| "servable sha R vid ep EmailVerified j s = True"
| "servable sha R vid ep (NationalityIn cs) j s =
     (card (validSet cs) \<le> 256 \<and> verifierIdHash sha vid \<noteq> zero32 \<and> allowedCountrySetHash sha R vid cs \<noteq> Inr zero32)"
| "servable sha R vid ep (ResidencyIn cs) j s =
     (card (validSet cs) \<le> 256 \<and> verifierIdHash sha vid \<noteq> zero32 \<and> allowedCountrySetHash sha R vid cs \<noteq> Inr zero32)"
| "servable sha R vid ep (UniquePerson e a) j s =
     (\<exists>ab eb. hexToBytes32 a = Inr ab \<and> hexToBytes32 e = Inr eb \<and>
        (\<forall>v. hexTo32 j = Some v \<longrightarrow> nullifierOf sha v eb (sha (sha (utf8Bytes vid) @ ab)) \<notin> set (pc_nullifiers s)))"

lemma padCountry_pad32: "padCountry c = pad32 (toUpperCase c)"
  by (simp add: padCountry_def pad32_def)

lemma alpha2_short: "alpha2Shape c \<Longrightarrow> length c = 2 \<and> CHR 0x00 \<notin> set c"
  by (auto simp: alpha2Shape_def isAsciiUpper_def list_all_iff)

lemma supports_member:
  assumes "alpha2Shape (toUpperCase c)" and "c' \<in> validSet cs" and "pad32 (toUpperCase c) = padCountry c'"
  shows "toUpperCase c \<in> validSet cs"
proof -
  have c': "alpha2Shape c'" using assms(2) by (simp add: validSet_def)
  have "toUpperCase c' = c'" using assms(2) by (auto simp: validSet_def)
  then have "pad32 (toUpperCase c) = pad32 c'" using assms(3) by (simp add: padCountry_pad32)
  then have "toUpperCase c = c'" using alpha2_short[OF assms(1)] alpha2_short[OF c'] by (intro pad32_inject) auto
  then show ?thesis using assms(2) by simp
qed

lemma set_hash_exists:
  assumes "paths_fold R" and "card (validSet cs) \<le> 256" and "toUpperCase c \<in> validSet cs"
  obtains h where "allowedCountrySetHash sha R vid cs = Inr h"
  using country_path_lookup[OF assms(1,2), of c] assms(3) by (auto simp: isInr_ex allowedCountrySetHash_def)

text \<open>The step from the meaning of a request to what its circuit checks.\<close>

lemma supports_honest:
  assumes "paths_fold R" and "supports ep p j" and "carries p w j" and "scoped sha vid p w" and "servable sha R vid ep p j s"
    and "claimValue32 (claimNameOf p) j = Some v"
  shows "honest sha R vid ep p w v s"
proof (cases p)
  case (AgeOver t)
  with assms(2,3,6) obtain d where d: "dateToYmd j = Some d" "dobValue w = Some (int d)" "v = intLE32 (int d)" "t \<le> (ep - int d) div 10000"
    by (auto simp: claimValue32_def)
  moreover have "uint_type 32 (int d)" using dateToYmd_bound[OF d(1)] by simp
  ultimately show ?thesis using AgeOver assms(5) by (auto simp: age_years)
next
  case (AgeRange lo hi)
  with assms(5) show ?thesis by simp
next
  case (KycLevel l)
  with assms(2-6) show ?thesis by (auto simp: claimValue32_def)
next
  case EmailVerified
  with assms(2,3,6) show ?thesis by (auto simp: claimValue32_def)
next
  case (NationalityIn cs)
  then obtain c c' where c: "nationalityCode w = Some c" "alpha2Shape (toUpperCase c)" "j = JStr c'" "toUpperCase c' = toUpperCase c"
    using assms(3) by auto
  then have m: "toUpperCase c \<in> validSet cs" using assms(2) NationalityIn supports_member[OF c(2)] by auto
  obtain h where "allowedCountrySetHash sha R vid cs = Inr h"
    by (rule set_hash_exists[OF assms(1) _ m]) (use assms(5) NationalityIn in auto)
  then show ?thesis using NationalityIn assms(4-6) c m by (auto simp: claimValue32_def padCountry_pad32)
next
  case (ResidencyIn cs)
  then obtain c c' where c: "residentCountry w = Some c" "alpha2Shape (toUpperCase c)" "j = JStr c'" "toUpperCase c' = toUpperCase c"
    using assms(3) by auto
  then have m: "toUpperCase c \<in> validSet cs" using assms(2) ResidencyIn supports_member[OF c(2)] by auto
  obtain h where "allowedCountrySetHash sha R vid cs = Inr h"
    by (rule set_hash_exists[OF assms(1) _ m]) (use assms(5) ResidencyIn in auto)
  then show ?thesis using ResidencyIn assms(4-6) c m by (auto simp: claimValue32_def padCountry_pad32)
next
  case (UniquePerson e a)
  with assms(3,5,6) show ?thesis by (auto simp: claimValue32_def)
qed

lemma supports_claimed: "supports ep p j \<Longrightarrow> \<exists>v. claimValue32 (claimNameOf p) j = Some v"
  by (cases p) (auto simp: claimValue32_def)

lemma satisfying_attested:
  assumes "paths_fold R" and "sha_32 sha" and "length (cj_claim_disclosures doc) \<le> 256"
    and "distinct (map cd_name (cj_claim_disclosures doc))" and "c \<in> set (cj_claim_disclosures doc)"
    and "cd_name c = claimNameOf p" and "supports ep p (cd_value c)" and "carries p w0 (cd_value c)"
    and "scoped sha vid p w0" and "servable sha R vid ep p (cd_value c) s"
    and "buildOwlRootTree sha R (cj_claim_disclosures doc) = Inr built" and "owlRootBytesLE R built = Inr root"
    and "root \<noteq> zero32" and "\<not> cb_isPaused s"
  shows "\<exists>w ws args t k. bindClaim sha R doc (claimNameOf p) w0 = Inr w \<and> witnessesFor R (requestKind p) w = Inr ws \<and>
    requestArgs sha R vid root ep p = Inr args \<and> attestC sha R (requestKind p) ws args s = (Inr (), t) \<and>
    attestations (pc_ledger t) = setInsert k (attestations (pc_ledger s)) \<and> isAttestedC t k \<and>
    (keyedByRequest p \<longrightarrow> attestationKeyFor sha R vid (keyHex root) p = Inr (keyHex k))"
proof -
  obtain v where v: "claimValue32 (cd_name c) (cd_value c) = Some v" using supports_claimed[OF assms(7)] assms(6) by auto
  obtain q where q: "bindClaim sha R doc (cd_name c) w0 = Inr (w0\<lparr>claimSalt := Some (sha (utf8Bytes (cd_salt c))), claimPath := Some q\<rparr>)"
      "pathLeaf R q = sha (pad32 (cd_name c) @ v @ sha (utf8Bytes (cd_salt c)))" "root = fill32 (pathRoot R q)"
    using bindClaim_opens[OF assms(1-5) v assms(11,12)] .
  have "length root = 32" using q(3) by simp
  note ready = supports_honest[OF assms(1,7-10) v[unfolded assms(6)]]
  from honest_call[OF assms(1,2) \<open>length root = 32\<close> assms(13,14) length_claimValue32[OF v] ready refl _ q(2)[unfolded assms(6)] q(3)]
  obtain ws args t where call: "witnessesFor R (requestKind p) (w0\<lparr>claimSalt := Some (sha (utf8Bytes (cd_salt c))), claimPath := Some q\<rparr>) = Inr ws"
      "requestArgs sha R vid root ep p = Inr args" "attestC sha R (requestKind p) ws args s = (Inr (), t)"
    using assms(2) by (auto simp: sha_32_def)
  with attest_records[OF call(2,3)] q(1) assms(6) show ?thesis by metis
qed

text \<open>C7: A holder who meets a request gets its attestation.  Let a credential of up to 256 claims with distinct names have the
  claim of the request with a value that satisfies the request (at least the asked age in completed years on the epoch's
  date, at least the asked level, a verified email, a country of the list, a personhood secret), let the witness carry
  that value and the verifier's scope, and let the request be one the contract can serve (parameters in range, no all-zero
  digest, secret not yet used).  Then the SDK's preparation works out (the claim is bound, the witnesses of the
  kind are built), the call with the request's arguments succeeds on the unpaused contract and adds one key, which for
  the level, email, country and personhood requests is the verifier's \<open>attestationKeyFor\<close> of the root.  Requests for an age
  range are not covered: that circuit refuses holders who are exactly of the maximum age.\<close>

theorem honest_attestation_recorded:
  assumes "paths_fold R" and "sha_32 sha" and "length (cj_claim_disclosures doc) \<le> 256"
    and "distinct (map cd_name (cj_claim_disclosures doc))" and "c \<in> set (cj_claim_disclosures doc)"
    and "requestKind p \<noteq> K_age_range" and "OWL_BOUND_CLAIM (requestKind p) = Some (cd_name c)"
    and "supports ep p (cd_value c)" and "carries p w0 (cd_value c)" and "scoped sha vid p w0"
    and "servable sha R vid ep p (cd_value c) s"
    and "buildOwlRootTree sha R (cj_claim_disclosures doc) = Inr built" and "owlRootBytesLE R built = Inr root"
    and "root \<noteq> zero32" and "\<not> cb_isPaused s"
  shows "\<exists>w ws args t k. bindClaim sha R doc (cd_name c) w0 = Inr w \<and> witnessesFor R (requestKind p) w = Inr ws \<and>
    requestArgs sha R vid root ep p = Inr args \<and> attestC sha R (requestKind p) ws args s = (Inr (), t) \<and>
    attestations (pc_ledger t) = setInsert k (attestations (pc_ledger s)) \<and> isAttestedC t k \<and>
    (requestKind p \<noteq> K_age \<longrightarrow> attestationKeyFor sha R vid (keyHex root) p = Inr (keyHex k))"
proof -
  have name: "cd_name c = claimNameOf p" using assms(7) claimNameOf_bound[of p] by simp
  have "keyedByRequest p \<longleftrightarrow> requestKind p \<noteq> K_age" using assms(6) by (simp add: keyedByRequest_def)
  with satisfying_attested[OF assms(1-5) name assms(8-15)] name show ?thesis by simp
qed

section \<open>Histories of a predicate contract\<close>

lemma attest_step:
  assumes "attestC sha R kind ws args s = (Inr (), t)"
  shows "\<exists>k ns. t = addKey k (s\<lparr>pc_nullifiers := pc_nullifiers s @ ns\<rparr>) \<and> distinct ns \<and> set ns \<inter> set (pc_nullifiers s) = {}"
proof -
  have frame: "s = s\<lparr>pc_nullifiers := pc_nullifiers s @ []\<rparr>" by simp
  have plain: "\<exists>k ns. addKey x s = addKey k (s\<lparr>pc_nullifiers := pc_nullifiers s @ ns\<rparr>) \<and> distinct ns \<and> set ns \<inter> set (pc_nullifiers s) = {}" for x
    using frame by (intro exI[of _ x] exI[of _ "[]"]) simp
  show ?thesis
  proof (cases kind)
    case K_personhood
    then obtain r e a where "args = [circuitArg.A_bytes r, circuitArg.A_bytes e, circuitArg.A_bytes a]"
      using assms by (auto simp: attestC.simps simple_Inr split: list.split_asm circuitArg.split_asm)
    with assms K_personhood obtain k n where "n \<notin> set (pc_nullifiers s)" "t = addKey k (s\<lparr>pc_nullifiers := pc_nullifiers s @ [n]\<rparr>)"
      by (auto simp: attestPerson_Inr)
    then show ?thesis by (intro exI[of _ k] exI[of _ "[n]"]) simp
  qed (use assms plain in \<open>auto simp: attestC.simps attestAgeGte_def attestAgeRange_def attestKycGte_def attestEmailVerified_def
      attestNationalityIn_def attestResidencyIn_def countryMember_Inr attest_Inr split: list.split_asm circuitArg.split_asm\<close>)
qed

definition predicateInv :: "predicateContract \<Rightarrow> bool" where
  "predicateInv s \<longleftrightarrow> distinct (attestations (pc_ledger s)) \<and> attestCount (pc_ledger s) = int (length (attestations (pc_ledger s))) \<and>
     pc_attestTree s = attestations (pc_ledger s) \<and> distinct (pc_nullifiers s)"

definition predicateGrows :: "predicateContract \<Rightarrow> predicateContract \<Rightarrow> bool" where
  "predicateGrows s t \<longleftrightarrow> (\<exists>xs. attestations (pc_ledger t) = attestations (pc_ledger s) @ xs) \<and> set (pc_nullifiers s) \<subseteq> set (pc_nullifiers t)"

lemma predicate_step:
  assumes "predicateInv s" "predicateCircuit sha R kind caller op s = (Inr (), t)"
  shows "predicateInv t \<and> predicateGrows s t"
proof (cases op)
  case (TxAttest ws args)
  with assms(2) obtain k ns where "t = addKey k (s\<lparr>pc_nullifiers := pc_nullifiers s @ ns\<rparr>)" "distinct ns"
      "set ns \<inter> set (pc_nullifiers s) = {}" using attest_step[of sha R kind ws args s t] by auto
  with assms(1) show ?thesis by (auto simp: predicateInv_def predicateGrows_def addKey_def Let_def)
next
  case (PredicateAdmin a)
  with assms(2) obtain p k where "t = s\<lparr>cb_isPaused := p, cb_owner := k\<rparr>" by (auto elim: admin_frame)
  with assms(1) show ?thesis by (simp add: predicateInv_def predicateGrows_def)
qed

interpretation predicate_contract: contract "predicateCircuit sha R kind" predicateInv predicateGrows for sha R kind
proof
  show "predicateGrows s u" if "predicateGrows s t" "predicateGrows t u" for s t u
    using that by (auto simp: predicateGrows_def)
  show "predicateGrows s s" for s by (simp add: predicateGrows_def)
qed (blast dest: predicate_step)+

lemma newPredicate_inv: "predicateInv (newPredicate k)"
  by (simp add: predicateInv_def newPredicate_def)

text \<open>The attestation ledger only grows.  In every state a deployed predicate contract reaches, the set, the historic tree
  and the counter agree: the tree holds each attested key once, in order, and the counter is their number; and what is
  attested in a state is attested in every later one, whoever transacts, paused or not.\<close>

theorem attestation_ledger_consistent:
  assumes "reaches (predicateCircuit sha R kind) (newPredicate owner) s" and "reaches (predicateCircuit sha R kind) s t"
  shows "pc_attestTree s = attestations (pc_ledger s) \<and> distinct (pc_attestTree s) \<and>
    attestCount (pc_ledger s) = int (length (pc_attestTree s)) \<and> (isAttestedC s k \<longrightarrow> isAttestedC t k)"
  using predicate_contract.reaches_inv[OF assms(1) newPredicate_inv] predicate_contract.reaches_grows[OF assms(2)]
  by (auto simp: predicateInv_def predicateGrows_def isAttestedC_def)

text \<open>C16: One person, one attestation per campaign.  Once a personhood secret has been used for an epoch and application, no
  later call with the same secret for that epoch and application succeeds, whatever credential root it names and
  whatever happened in between.\<close>

theorem personhood_once:
  assumes "reaches (predicateCircuit sha R K_personhood) (newPredicate owner) s"
    and "attestC sha R K_personhood ws [circuitArg.A_bytes root, circuitArg.A_bytes e, circuitArg.A_bytes a] s = (Inr (), t)"
    and "reaches (predicateCircuit sha R K_personhood) t u"
    and "witnessRead ws' ''personhoodSecret'' = witnessRead ws ''personhoodSecret''"
  shows "attestC sha R K_personhood ws' [circuitArg.A_bytes root', circuitArg.A_bytes e, circuitArg.A_bytes a] u \<noteq> (Inr (), u')"
proof
  assume again: "attestC sha R K_personhood ws' [circuitArg.A_bytes root', circuitArg.A_bytes e, circuitArg.A_bytes a] u = (Inr (), u')"
  obtain x where x: "witnessBytes32 ws ''personhoodSecret'' = Inr x" and n: "nullifierOf sha x e a \<in> set (pc_nullifiers t)"
    using assms(2) by (auto simp: attestPerson_Inr addKey_def Let_def)
  have "predicateInv s" using predicate_contract.reaches_inv[OF assms(1) newPredicate_inv] .
  moreover have "predicateCircuit sha R K_personhood [] (TxAttest ws [circuitArg.A_bytes root, circuitArg.A_bytes e, circuitArg.A_bytes a]) s = (Inr (), t)"
    using assms(2) by simp
  ultimately have "predicateInv t" by (blast dest: predicate_step)
  with predicate_contract.reaches_grows[OF assms(3)] n have "nullifierOf sha x e a \<in> set (pc_nullifiers u)"
    by (auto simp: predicateGrows_def)
  moreover have "witnessBytes32 ws' ''personhoodSecret'' = Inr x" using x assms(4) by (simp add: witness_Inr)
  ultimately show False using again by (auto simp: attestPerson_Inr)
qed

text \<open>The age-range circuit leaves out the oldest.  Somebody whose age in completed years is exactly \<open>maxAge\<close>, but whose last
  birthday was not on the epoch's date, satisfies the request, yet no call of the circuit with that date of birth
  succeeds.\<close>

theorem age_range_excludes_maximum:
  assumes "dateToYmd v = Some d" and "(ep - int d) div 10000 = hi" and "(ep - int d) mod 10000 \<noteq> 0" and "lo \<le> hi"
    and "witnessRead ws ''dobValue'' = Inr (W_int (int d))"
  shows "supports ep (AgeRange lo hi) v \<and>
    attestC sha R K_age_range ws [circuitArg.A_bytes root, A_int lo, A_int hi, A_int ep] s \<noteq> (Inr (), t)"
proof
  show "supports ep (AgeRange lo hi) v" using assms(1,2,4) by simp
  have "ep - int d = 10000 * hi + (ep - int d) mod 10000" "0 \<le> (ep - int d) mod 10000"
    unfolding assms(2)[symmetric] by simp_all
  then have "int d + hi * 10000 < ep" using assms(3) by linarith
  then show "attestC sha R K_age_range ws [circuitArg.A_bytes root, A_int lo, A_int hi, A_int ep] s \<noteq> (Inr (), t)"
    using assms(5) by (auto simp: attestAgeRange_Inr witness_Inr)
qed

section \<open>From the circuit to the consumers\<close>

lemma predicate_history:
  assumes "predicateInv a" "reaches (predicateCircuit sha R kind) a b"
  shows "predicateInv b \<and> True \<and> predicate_follows (Some (pc_ledger a)) (pc_ledger b)"
  using predicate_contract.reaches_inv[OF assms(2,1)] predicate_contract.reaches_grows[OF assms(2,1)]
  by (auto simp: predicateGrows_def predicate_follows_def)

text \<open>C17: A proved predicate reaches the verifier's side.  Take a deployed predicate contract, any history of transactions and
  states of that history arriving at the sidecar in order, through subscription, polls, errors and reconnects.  A
  consumer that applied every emitted event knows a key as attested exactly when the \<open>isAttested\<close> circuit says so in the
  latest state the sidecar took.\<close>

theorem attestations_reach_consumers:
  assumes "reaches (predicateCircuit sha R kind) (newPredicate owner) s0"
    and "sorted_wrt (reaches (predicateCircuit sha R kind)) (s0 # deliveredStates es)"
    and "feed = run_events (feedStep diffPredicate (\<lambda>s. Inr (pc_ledger s))) (joinContract diffPredicate (\<lambda>s. Inr (pc_ledger s)) (Some s0) ts) es"
  shows "\<exists>s. s \<in> set (s0 # deliveredStates es) \<and> cf_current feed = Some (pc_ledger s) \<and>
     (isAttestedC s key \<longleftrightarrow> the_or False (cacheOf attestationEntry (cf_emitted feed) (bytesToHex key)))"
proof -
  let ?fn = "\<lambda>s. Inr (pc_ledger s) :: predicateLedger res"
  let ?j = "joinContract diffPredicate ?fn (Some s0) ts"
  note inv = predicate_contract.reaches_inv[OF assms(1) newPredicate_inv]
  have cur: "cf_current ?j = Some (pc_ledger s0)" by (simp add: joinContract_def Let_def observe_def)
  have "mirrored attestationEntry attestationView (\<lambda>_. True) ?j"
    by (intro attestationsOf.join_mirrored) (auto simp: goodState_def predicate_follows_def)
  then have mirror: "mirrored attestationEntry attestationView (\<lambda>_. True) feed"
    if "allowed_run (feedAllowed (\<lambda>_. True) predicate_follows ?fn) (feedStep diffPredicate ?fn) ?j es"
    unfolding assms(3) using that by (rule attestationsOf.fed.guarded_run)
  have history: "\<And>a b. predicateInv a \<Longrightarrow> reaches (predicateCircuit sha R kind) a b \<Longrightarrow>
      predicateInv b \<and> True \<and> predicate_follows (Some (pc_ledger a)) (pc_ledger b)" by (rule predicate_history)
  obtain s where s: "s \<in> set (s0 # deliveredStates es)" "cf_current feed = Some (pc_ledger s)"
      and run: "allowed_run (feedAllowed (\<lambda>_. True) predicate_follows ?fn) (feedStep diffPredicate ?fn) ?j es"
    using feed_in_order[where P = predicateInv and rel = "reaches (predicateCircuit sha R kind)" and view = pc_ledger
        and valid = "\<lambda>_. True" and follows = predicate_follows and diff = diffPredicate, OF history cur inv assms(2)] assms(3)
    by blast
  have "the_or (attestationView None (bytesToHex key)) (cacheOf attestationEntry (cf_emitted feed) (bytesToHex key)) =
      attestationView (Some (pc_ledger s)) (bytesToHex key)"
    using mirror[OF run] s(2) by (simp add: mirrored_def)
  then show ?thesis using s by (auto simp: attestationView_read isAttestedC_def isAttestedFromLedger_def attestationView_def[of None])
qed

section \<open>Witnesses\<close>

definition exCredential :: credentialJson where
  "exCredential = \<lparr>cj_root_hash = [], cj_owl_root = None, cj_claim_disclosures = exClaims, cj_attributes = [], cj_predicate_attestations = []\<rparr>"

definition exHolder :: "(bytes \<times> bytes) predicateWitness" where
  "exHolder = noWitness\<lparr>dobValue := Some 19900517\<rparr>"

lemma exDate: "dateToYmd (JStr ''1990-05-17'') = Some 19900517"
proof -
  have "trim ''1990-05-17'' = ''1990-05-17''" by code_simp
  moreover have "code CHR ''0'' = 48" "code CHR ''1'' = 49" "code CHR ''5'' = 53" "code CHR ''7'' = 55" "code CHR ''9'' = 57"
    by code_simp+
  ultimately show ?thesis by (simp add: isoDate_def isDigit_def readNat_def Let_def)
qed

text \<open>The stand-in digest keeps the tail of what it hashes, so no leaf of the example is empty.\<close>

lemma exSha_tail: "exSha (a @ exSha b) = rev (exSha b)"
  using exSha_32 by (simp add: exSha_def[of "a @ exSha b"] fill32_def sha_32_def zeros_def)

lemma exSha_nonzero:
  assumes "b \<noteq> []" and "last b \<noteq> 0"
  shows "rev (exSha b) \<noteq> zeros 32"
proof
  assume "rev (exSha b) = zeros 32"
  then have "exSha b = zeros 32" by (metis rev_rev_ident rev_replicate zeros_def)
  then have "hd (exSha b) = 0" by (simp add: zeros_def)
  moreover have "hd (exSha b) = last b" using assms(1) by (simp add: exSha_def fill32_def hd_rev)
  ultimately show False using assms(2) by simp
qed

lemma exClaim_leaf:
  assumes "c \<in> set exClaims" and "commitment exSha c = Some h"
  shows "h \<noteq> zeros 32"
proof -
  have "last (utf8Bytes (cd_salt c)) \<noteq> 0" "utf8Bytes (cd_salt c) \<noteq> []"
    using assms(1) by (auto simp: exClaims_def utf8Bytes_def charByte_def)
  with assms(2) exSha_nonzero[of "utf8Bytes (cd_salt c)"] show ?thesis
    by (auto simp: commitment_def exSha_tail[of "x @ y" for x y, simplified])
qed

lemma exTree:
  "\<exists>built root. buildOwlRootTree exSha exRuntime exClaims = Inr built \<and> owlRootBytesLE exRuntime built = Inr root \<and> root \<noteq> zero32"
proof -
  obtain cs where cs: "owlCommits exSha exClaims = Inr cs" "length cs \<le> length exClaims"
      "set cs = {(n, h). \<exists>c \<in> set exClaims. cd_name c = n \<and> commitment exSha c = Some h}"
    by (rule owlCommits_ok[OF exSha_32])
  have "(''nationality'', exSha (pad32 ''nationality'' @ pad32 (toUpperCase ''nl'') @ exSha (utf8Bytes ''s1''))) \<in> set cs"
    unfolding cs(3) by (simp add: exClaims_def commitment_def claimValue32_def)
  then obtain c cs' where c: "cs = c # cs'" by (cases cs) auto
  then have "(fst c, snd c) \<in> set cs" by simp
  then have "\<exists>d \<in> set exClaims. commitment exSha d = Some (snd c)" unfolding cs(3) by auto
  then obtain d where d: "d \<in> set exClaims" "commitment exSha d = Some (snd c)" by blast
  then have leaf: "snd c \<noteq> zeros 32" by (rule exClaim_leaf)
  from d(2) obtain b where "exSha b = snd c" unfolding commitment_def map_option_eq_Some by blast
  then have len: "length (snd c) = 32" using exSha_32 unfolding sha_32_def by metis
  let ?ls = "commitLeaves cs"
  have "filledTree exRuntime 8 ?ls = ?ls"
    using fill_loop[of 256 ?ls "replicate 256 []"] by (simp add: filledTree_def exRuntime_def claim_slots.leaves_length)
  then have root: "rootOf exRuntime (filledTree exRuntime 8 ?ls) = Some (concat ?ls)" by (simp add: exRuntime_def)
  have "?ls = snd c # tl ?ls" by (simp add: c commitLeaves_def slots_256 upt_conv_Cons del: upt_Suc)
  then have "concat ?ls = snd c @ concat (tl ?ls)" by (metis concat.simps(2))
  then have "fill32 (concat ?ls) = snd c" using len by (simp add: fill32_def zeros_def)
  moreover have "length cs \<le> 256" using cs(2) by (simp add: exClaims_def)
  ultimately show ?thesis
    using cs(1) root leaf by (simp add: buildOwlRootTree_def owlRootBytesLE_def OWL_MERKLE_DEPTH_def Let_def slots_256 zero32_zeros)
qed

text \<open>The whole path of an honest holder, born on 17 May 1990, who is asked to be over 18 in January 2025.\<close>

lemma exCredential_ok:
  "length (cj_claim_disclosures exCredential) \<le> 256" "distinct (map cd_name (cj_claim_disclosures exCredential))"
  "\<not> cb_isPaused (newPredicate (Inl exKey))"
  by (simp_all add: exCredential_def exClaims_def newPredicate_def)

lemma exHonest: "honest exSha exRuntime vid 20250101 (AgeOver 18) exHolder (intLE32 19900517) s"
  by (simp add: exHolder_def noWitness_def)

lemma exBirthdate:
  obtains c where "c \<in> set (cj_claim_disclosures exCredential)" "cd_name c = claimNameOf (AgeOver 18)"
    "claimValue32 (cd_name c) (cd_value c) = Some (intLE32 19900517)"
proof -
  from exDate have "claimValue32 ''birthdate'' (JStr ''1990-05-17'') = Some (intLE32 19900517)" by (simp add: claimValue32_def)
  then show ?thesis using that[of "\<lparr>cd_name = ''birthdate'', cd_value = JStr ''1990-05-17'', cd_salt = ''s2''\<rparr>"]
    by (simp add: exCredential_def exClaims_def)
qed

lemma exCall:
  "\<exists>built root ws args t. buildOwlRootTree exSha exRuntime exClaims = Inr built \<and> owlRootBytesLE exRuntime built = Inr root \<and>
    requestArgs exSha exRuntime ''v'' root 20250101 (AgeOver 18) = Inr args \<and>
    attestC exSha exRuntime (requestKind (AgeOver 18)) ws args (newPredicate (Inl exKey)) = (Inr (), t)"
proof -
  obtain built root where b: "buildOwlRootTree exSha exRuntime (cj_claim_disclosures exCredential) = Inr built"
      "owlRootBytesLE exRuntime built = Inr root" "root \<noteq> zero32"
    using exTree by (auto simp: exCredential_def)
  obtain c where c: "c \<in> set (cj_claim_disclosures exCredential)" "cd_name c = claimNameOf (AgeOver 18)"
    "claimValue32 (cd_name c) (cd_value c) = Some (intLE32 19900517)" by (rule exBirthdate)
  obtain q where q: "pathLeaf exRuntime q = exSha (pad32 (cd_name c) @ intLE32 19900517 @ exSha (utf8Bytes (cd_salt c)))"
      "root = fill32 (pathRoot exRuntime q)"
    by (rule bindClaim_opens[OF exRuntime_paths_fold exSha_32 exCredential_ok(1,2) c(1,3) b(1,2)])
  have len: "length root = 32" "length (exSha (utf8Bytes (cd_salt c))) = 32" "length (intLE32 19900517) = 32"
    using q(2) exSha_32 by (simp_all add: sha_32_def)
  from honest_call[OF exRuntime_paths_fold exSha_32 len(1) b(3) exCredential_ok(3) len(3) exHonest refl len(2) q(1)[unfolded c(2)] q(2), of "''v''"]
  show ?thesis using b(1,2) by (auto simp: exCredential_def)
qed

theorem attestation_sound_witness:
  "\<exists>built root ws args t. attestC exSha exRuntime K_age ws args (newPredicate (Inl exKey)) = (Inr (), t) \<and>
     ((\<exists>c \<in> set exClaims. cd_name c = ''birthdate'' \<and> supports 20250101 (AgeOver 18) (cd_value c)) \<or>
      claimForged exSha exRuntime K_age ws exClaims built root)"
proof -
  obtain built root ws args t where *: "buildOwlRootTree exSha exRuntime exClaims = Inr built" "owlRootBytesLE exRuntime built = Inr root"
    "requestArgs exSha exRuntime ''v'' root 20250101 (AgeOver 18) = Inr args"
    "attestC exSha exRuntime (requestKind (AgeOver 18)) ws args (newPredicate (Inl exKey)) = (Inr (), t)"
    using exCall by blast
  have "(\<exists>c \<in> set exClaims. cd_name c = ''birthdate'' \<and> supports 20250101 (AgeOver 18) (cd_value c)) \<or>
      claimForged exSha exRuntime K_age ws exClaims built root"
    using attestation_sound[OF exSha_32 *] by (auto simp del: supports.simps)
  moreover have "attestC exSha exRuntime K_age ws args (newPredicate (Inl exKey)) = (Inr (), t)" using *(4) by simp
  ultimately show ?thesis by blast
qed

text \<open>A call for a verified email, with a path the prover made up for a root of its own.\<close>

definition exEmailWitness :: "(bytes \<times> bytes) witnesses" where
  "exEmailWitness = [(''emailVerifiedFlag'', Inr (W_int 1)), (''claimSalt'', Inr (W_bytes exKey)),
     (''claimPath'', Inr (W_path (exSha (pad32 ''email_verified'' @ intLE32 1 @ exKey), exRoot)))]"

theorem circuit_writes_request_key_witness:
  "\<exists>t k. attestC exSha exRuntime K_email exEmailWitness [circuitArg.A_bytes exRoot] (newPredicate (Inl exKey)) = (Inr (), t) \<and>
     isAttestedC t k \<and> attestationKeyFor exSha exRuntime ''v'' (keyHex exRoot) EmailVerified = Inr (keyHex k)"
proof -
  have len: "length exRoot = 32" "length exKey = 32" by (simp_all add: exRoot_def exKey_def)
  have o: "opened exSha exRuntime exEmailWitness exRoot ''email_verified'' (intLE32 1)"
    using len by (auto simp: opened_def witness_Inr exEmailWitness_def witnessRead_def exRuntime_def fill32_id)
  have flag: "witnessUint 8 exEmailWitness ''emailVerifiedFlag'' = Inr 1"
    by (simp add: witness_Inr exEmailWitness_def witnessRead_def)
  from o flag have "\<exists>t. attestC exSha exRuntime K_email exEmailWitness [circuitArg.A_bytes exRoot] (newPredicate (Inl exKey)) = (Inr (), t)"
    using len exRoot_ne by (simp add: attestEmail_Inr newPredicate_def)
  then obtain t where t: "attestC exSha exRuntime K_email exEmailWitness [circuitArg.A_bytes exRoot] (newPredicate (Inl exKey)) = (Inr (), t)" ..
  have "requestArgs exSha exRuntime ''v'' exRoot 0 EmailVerified = Inr [circuitArg.A_bytes exRoot]" by simp
  from circuit_writes_request_key[OF _ this, of exEmailWitness "newPredicate (Inl exKey)" t] t show ?thesis by auto
qed

theorem honest_attestation_recorded_witness:
  "\<exists>w ws args t k. bindClaim exSha exRuntime exCredential ''birthdate'' exHolder = Inr w \<and> witnessesFor exRuntime K_age w = Inr ws \<and>
     attestC exSha exRuntime K_age ws args (newPredicate (Inl exKey)) = (Inr (), t) \<and> isAttestedC t k"
proof -
  obtain built root where b: "buildOwlRootTree exSha exRuntime (cj_claim_disclosures exCredential) = Inr built"
      "owlRootBytesLE exRuntime built = Inr root" "root \<noteq> zero32"
    using exTree by (auto simp: exCredential_def)
  let ?c = "\<lparr>cd_name = ''birthdate'', cd_value = JStr ''1990-05-17'', cd_salt = ''s2''\<rparr>"
  have c: "?c \<in> set (cj_claim_disclosures exCredential)" by (simp add: exCredential_def exClaims_def)
  have meets: "supports 20250101 (AgeOver 18) (cd_value ?c)" "carries (AgeOver 18) exHolder (cd_value ?c)"
      "scoped exSha ''v'' (AgeOver 18) exHolder" "servable exSha exRuntime ''v'' 20250101 (AgeOver 18) (cd_value ?c) (newPredicate (Inl exKey))"
    using exDate by (simp_all add: exHolder_def noWitness_def)
  have kind: "requestKind (AgeOver 18) \<noteq> K_age_range" "OWL_BOUND_CLAIM (requestKind (AgeOver 18)) = Some (cd_name ?c)" by simp_all
  from honest_attestation_recorded[OF exRuntime_paths_fold exSha_32 exCredential_ok(1,2) c kind meets b exCredential_ok(3)]
  obtain w ws args t k where "bindClaim exSha exRuntime exCredential (cd_name ?c) exHolder = Inr w"
      "witnessesFor exRuntime (requestKind (AgeOver 18)) w = Inr ws"
      "attestC exSha exRuntime (requestKind (AgeOver 18)) ws args (newPredicate (Inl exKey)) = (Inr (), t)" "isAttestedC t k"
    by blast
  then show ?thesis by (intro exI[of _ w] exI[of _ ws] exI[of _ args] exI[of _ t] exI[of _ k]) simp
qed

theorem attestation_ledger_consistent_witness:
  "\<exists>ws args t k. attestC exSha exRuntime K_age ws args (newPredicate (Inl exKey)) = (Inr (), t) \<and> isAttestedC t k \<and>
     distinct (pc_attestTree t) \<and> attestCount (pc_ledger t) = int (length (pc_attestTree t))"
proof -
  obtain root ws args t where *:
    "requestArgs exSha exRuntime ''v'' root 20250101 (AgeOver 18) = Inr args"
    "attestC exSha exRuntime (requestKind (AgeOver 18)) ws args (newPredicate (Inl exKey)) = (Inr (), t)"
    using exCall by blast
  have call: "attestC exSha exRuntime K_age ws args (newPredicate (Inl exKey)) = (Inr (), t)" using *(2) by simp
  then have "reaches (predicateCircuit exSha exRuntime K_age) (newPredicate (Inl exKey)) t"
    by (intro reaches.transaction[OF reaches.same, of _ "[]" "TxAttest ws args"]) simp
  from attestation_ledger_consistent[OF this reaches.same] have "distinct (pc_attestTree t)"
      "attestCount (pc_ledger t) = int (length (pc_attestTree t))" by blast+
  moreover have "\<exists>k. isAttestedC t k" using requestKey_preimage[OF *] by (auto simp: isAttestedC_def)
  ultimately show ?thesis using call by blast
qed

theorem age_range_excludes_maximum_witness:
  "supports 20250101 (AgeRange 18 34) (JStr ''1990-05-17'') \<and>
   attestC exSha exRuntime K_age_range [(''dobValue'', Inr (W_int 19900517))]
     [circuitArg.A_bytes zero32, A_int 18, A_int 34, A_int 20250101] (newPredicate (Inl exKey)) \<noteq> (Inr (), newPredicate (Inl exKey))"
proof -
  from age_range_excludes_maximum[OF exDate, of 20250101 34 18 "[(''dobValue'', Inr (W_int 19900517))]"] show ?thesis
    by (simp add: witnessRead_def del: supports.simps)
qed

text \<open>A personhood call, with a path the prover made up for a root of its own.\<close>

definition exPersonWitness :: "(bytes \<times> bytes) witnesses" where
  "exPersonWitness = [(''personhoodSecret'', Inr (W_bytes exRoot)), (''claimSalt'', Inr (W_bytes exKey)),
     (''claimPath'', Inr (W_path (exSha (pad32 ''personhoodSecret'' @ exRoot @ exKey), exRoot)))]"

definition exPerson :: predicateContract where
  "exPerson = addKey (keyOfC exSha (pad32 ''owlid:attest:uniq:'') exRoot (exSha (exKey @ exKey)))
     ((newPredicate (Inl exKey))\<lparr>pc_nullifiers := [nullifierOf exSha exRoot exKey exKey]\<rparr>)"

lemma exPersonCall:
  "attestC exSha exRuntime K_personhood exPersonWitness [circuitArg.A_bytes exRoot, circuitArg.A_bytes exKey, circuitArg.A_bytes exKey]
     (newPredicate (Inl exKey)) = (Inr (), exPerson)"
proof -
  have len: "length exRoot = 32" "length exKey = 32" by (simp_all add: exRoot_def exKey_def)
  have "opened exSha exRuntime exPersonWitness exRoot ''personhoodSecret'' exRoot"
    using len by (auto simp: opened_def witness_Inr exPersonWitness_def witnessRead_def exRuntime_def fill32_id)
  moreover have "witnessBytes32 exPersonWitness ''personhoodSecret'' = Inr exRoot"
    using len by (simp add: witness_Inr exPersonWitness_def witnessRead_def)
  ultimately show ?thesis using len exRoot_ne by (simp add: attestPerson_Inr exPerson_def newPredicate_def)
qed

lemma exPersonReached: "reaches (predicateCircuit exSha exRuntime K_personhood) (newPredicate (Inl exKey)) exPerson"
  by (rule reaches.transaction[OF reaches.same, of _ "[]" "TxAttest exPersonWitness [circuitArg.A_bytes exRoot, circuitArg.A_bytes exKey, circuitArg.A_bytes exKey]"])
    (use exPersonCall in simp)

theorem personhood_once_witness:
  "attestC exSha exRuntime K_personhood exPersonWitness [circuitArg.A_bytes exRoot, circuitArg.A_bytes exKey, circuitArg.A_bytes exKey]
     (newPredicate (Inl exKey)) = (Inr (), exPerson) \<and>
   attestC exSha exRuntime K_personhood exPersonWitness [circuitArg.A_bytes exRoot, circuitArg.A_bytes exKey, circuitArg.A_bytes exKey]
     exPerson \<noteq> (Inr (), exPerson)"
  using personhood_once[OF reaches.same exPersonCall reaches.same refl] exPersonCall by blast

theorem attestations_reach_consumers_witness:
  "\<exists>key. isAttestedC exPerson key \<and>
     the_or False (cacheOf attestationEntry
       (cf_emitted (run_events (feedStep diffPredicate (\<lambda>s. Inr (pc_ledger s)))
          (joinContract diffPredicate (\<lambda>s. Inr (pc_ledger s)) (Some (newPredicate (Inl exKey))) 0)
          [StreamEnds, PollTick, PollAnswers (Some exPerson) 1])) (bytesToHex key))"
proof -
  let ?es = "[StreamEnds, PollTick, PollAnswers (Some exPerson) 1]"
  let ?f = "run_events (feedStep diffPredicate (\<lambda>s. Inr (pc_ledger s)))
          (joinContract diffPredicate (\<lambda>s. Inr (pc_ledger s)) (Some (newPredicate (Inl exKey))) 0) ?es"
  let ?key = "keyOfC exSha (pad32 ''owlid:attest:uniq:'') exRoot (exSha (exKey @ exKey))"
  have o: "sorted_wrt (reaches (predicateCircuit exSha exRuntime K_personhood)) (newPredicate (Inl exKey) # deliveredStates ?es)"
    using exPersonReached by simp
  have key: "isAttestedC exPerson ?key" by (simp add: isAttestedC_def exPerson_def addKey_attestations)
  have cur: "cf_current ?f = Some (pc_ledger exPerson)" by (simp add: joinContract_def Let_def observe_def)
  obtain s where "cf_current ?f = Some (pc_ledger s)"
      and iff: "isAttestedC s ?key \<longleftrightarrow> the_or False (cacheOf attestationEntry (cf_emitted ?f) (bytesToHex ?key))"
    using attestations_reach_consumers[OF reaches.same o refl] by blast
  with cur have "isAttestedC s ?key = isAttestedC exPerson ?key" by (simp add: isAttestedC_def)
  with key iff show ?thesis by blast
qed

end
