(* ===== verification/Attest_Path.thy ===== *)
theory Attest_Path
  imports Predicate_Contracts
begin

text \<open>
  The whole attestation path: from the predicate the orchestrator prepares (\<open>preparePredicate\<close> and \<open>circuitArgs\<close> of
  \<open>midnight/orchestrator.ts\<close>) over the call of its contract to the key the verifier looks up (\<open>verifier/index.ts\<close>).
\<close>

section \<open>The request behind a prepared predicate\<close>

text \<open>The request the orchestrator is answering, and the verifier whose scope it is in: the bounds come from the request for
  the two age kinds and from the stamp otherwise, countries and campaign from the matching required attestation.  A
  campaign names its epoch and application by 32 bytes of plain hex.\<close>

definition plainHex32 :: "string \<Rightarrow> bool" where
  "plainHex32 h \<longleftrightarrow> length h = 64 \<and> \<not> startsWith h ''0x''"

definition campaignRequired :: "owlAttestationRef \<Rightarrow> requiredAttestation \<Rightarrow> bool" where
  "campaignRequired sp r \<longleftrightarrow> rq_predicate r = predicate sp \<and> nonEmpty (rq_epoch r) \<and> nonEmpty (rq_appId r) \<and> nonEmpty (rq_verifierId r)"

definition preparedRequest ::
  "requiredAttestation list option \<Rightarrow> owlAttestationRef \<Rightarrow> 'p preparedPredicate \<Rightarrow> (predicateRequest \<times> string) option" where
  "preparedRequest req sp pr =
     (case fs_kind (pr_spec pr) of
        K_age \<Rightarrow> Some (AgeOver (the_or 18 (pr_threshold pr)), [])
      | K_age_range \<Rightarrow> (case (pr_minAge pr, pr_maxAge pr) of (Some lo, Some hi) \<Rightarrow> Some (AgeRange lo hi, []) | _ \<Rightarrow> None)
      | K_kyc \<Rightarrow> map_option (\<lambda>t. (KycLevel (Rung t), [])) (pr_threshold pr)
      | K_email \<Rightarrow> (if pr_threshold pr = None then Some (EmailVerified, []) else None)
      | K_nationality \<Rightarrow>
          (case findRequired req (\<lambda>r. rq_predicate r = predicate sp) of
             None \<Rightarrow> None
           | Some r \<Rightarrow> Some (NationalityIn (the_or [] (rq_countries r)), the_or [] (rq_verifierId r)))
      | K_residency \<Rightarrow>
          (case findRequired req (\<lambda>r. rq_predicate r = predicate sp) of
             None \<Rightarrow> None
           | Some r \<Rightarrow> Some (ResidencyIn (the_or [] (rq_countries r)), the_or [] (rq_verifierId r)))
      | K_personhood \<Rightarrow>
          (case findRequired req (campaignRequired sp) of
             None \<Rightarrow> None
           | Some r \<Rightarrow>
               (let e = the_or [] (rq_epoch r); a = the_or [] (rq_appId r) in
                if plainHex32 e \<and> plainHex32 a then Some (UniquePerson e a, the_or [] (rq_verifierId r)) else None)))"

lemma plainHex32_bytes: "plainHex32 h \<Longrightarrow> hexToBytes32 h = Inr (hexToBytes h)"
  using hexToBytes_slices[of h 32] by (simp add: plainHex32_def hexToBytes32_def Let_def)

lemma bindSkip_Inr: "bindSkip m f = Inr (Inr y) \<longleftrightarrow> (\<exists>x. m = Inr (Inr x) \<and> f x = Inr (Inr y))"
  by (cases m; cases "projr m") (auto simp: bindSkip_def)

lemma family_names:
  assumes "map_of (FAMILIES :: (string \<times> 'p familySpec) list) n = Some spec"
  shows "n = (case fs_kind spec of K_age \<Rightarrow> ''age'' | K_age_range \<Rightarrow> ''age_range'' | K_kyc \<Rightarrow> ''kyc'' | K_residency \<Rightarrow> ''residency''
     | K_email \<Rightarrow> ''email_verified'' | K_nationality \<Rightarrow> ''nationality'' | K_personhood \<Rightarrow> ''unique_personhood'')"
  using assms unfolding FAMILIES_def by (auto split: if_splits)

lemma countrySet_hash:
  assumes "sha_32 sha" and "countrySet sha R req sp = Inr (Inr c)"
  obtains r cs where "findRequired req (\<lambda>r. rq_predicate r = predicate sp) = Some r" "rq_countries r = Some cs"
    "cs_canon c = canonicaliseCountries cs" "cs_verifierIdHash c = verifierIdHash sha (the_or [] (rq_verifierId r))"
    "allowedCountrySetHash sha R (the_or [] (rq_verifierId r)) cs = Inr (cs_setHash c)"
proof -
  obtain r where r: "findRequired req (\<lambda>r. rq_predicate r = predicate sp) = Some r"
    using assms(2) by (cases "findRequired req (\<lambda>r. rq_predicate r = predicate sp)") (simp_all add: countrySet_def)
  obtain cs where cs: "rq_countries r = Some cs" using assms(2) r by (cases "rq_countries r") (simp_all add: countrySet_def)
  from assms(2) r cs obtain h where h: "computeSetHash sha R (computeVerifierIdHash sha (the_or [] (rq_verifierId r))) (orchCanonicaliseCountries cs) = Inr h"
      "c = \<lparr>cs_canon = orchCanonicaliseCountries cs, cs_verifierIdHash = computeVerifierIdHash sha (the_or [] (rq_verifierId r)), cs_setHash = h\<rparr>"
    by (auto simp: countrySet_def Let_def res_simps split: if_splits)
  with scopes_agree[OF assms(1), of R "the_or [] (rq_verifierId r)" cs] show ?thesis
    using that r cs by (auto simp: orchCanonicalise_eq computeVerifierIdHash_def verifierIdHash_def)
qed

lemma prepared_parts:
  assumes "preparePredicate sha R doc req sp = Inr (Inr pr)"
  shows "map_of FAMILIES (predicate sp) = Some (pr_spec pr) \<and>
    (if fs_kind (pr_spec pr) = K_personhood then \<exists>sc. personhoodScope sha req sp = Inr (Inr sc) \<and> pr_scope pr = Some sc
     else pr_scope pr = None) \<and>
    (if predicate sp = ''nationality'' \<or> predicate sp = ''residency'' then \<exists>c. countrySet sha R req sp = Inr (Inr c) \<and> pr_countries pr = Some c
     else pr_countries pr = None)"
  using assms unfolding preparePredicate_def
  by (auto simp: bindSkip_Inr split: option.split_asm if_split_asm)

lemma country_args:
  assumes "sha_32 sha" and "preparePredicate sha R doc req sp = Inr (Inr pr)"
    and "fs_kind (pr_spec pr) = K_nationality \<or> fs_kind (pr_spec pr) = K_residency"
  obtains r cs and c :: countryScope where "findRequired req (\<lambda>r. rq_predicate r = predicate sp) = Some r" "rq_countries r = Some cs"
    "allowedCountrySetHash sha R (the_or [] (rq_verifierId r)) cs = Inr (cs_setHash c)"
    "circuitArgs pr root ep = Inr [circuitArg.A_bytes root, circuitArg.A_bytes (cs_setHash c)]"
proof -
  note parts = prepared_parts[OF assms(2)]
  have name: "predicate sp = ''nationality'' \<or> predicate sp = ''residency''"
    using family_names[of "predicate sp" "pr_spec pr"] parts assms(3) by auto
  then obtain c where c: "countrySet sha R req sp = Inr (Inr c)" "pr_countries pr = Some c" using parts by auto
  have "pr_scope pr = None" using parts assms(3) by auto
  then have args: "circuitArgs pr root ep = Inr [circuitArg.A_bytes root, circuitArg.A_bytes (cs_setHash c)]"
    using c(2) assms(3) by (auto simp: circuitArgs_def)
  obtain r cs where "findRequired req (\<lambda>r. rq_predicate r = predicate sp) = Some r" "rq_countries r = Some cs"
      "allowedCountrySetHash sha R (the_or [] (rq_verifierId r)) cs = Inr (cs_setHash c)"
    by (rule countrySet_hash[OF assms(1) c(1)])
  from that[OF this args] show ?thesis .
qed

lemma campaign_args:
  assumes "sha_32 sha" and "preparePredicate sha R doc req sp = Inr (Inr pr)" and "fs_kind (pr_spec pr) = K_personhood"
    and "preparedRequest req sp pr = Some (UniquePerson e a, vid)"
  shows "circuitArgs pr root ep =
    Inr [circuitArg.A_bytes root, circuitArg.A_bytes (hexToBytes e), circuitArg.A_bytes (sha (sha (utf8Bytes vid) @ hexToBytes a))]"
proof -
  obtain sc where sc: "personhoodScope sha req sp = Inr (Inr sc)" "pr_scope pr = Some sc"
    using prepared_parts[OF assms(2)] assms(3) by auto
  obtain r where r: "findRequired req (campaignRequired sp) = Some r" "e = the_or [] (rq_epoch r)" "a = the_or [] (rq_appId r)"
      "vid = the_or [] (rq_verifierId r)" "plainHex32 a"
    using assms(3,4) by (auto simp: preparedRequest_def Let_def split: option.split_asm if_split_asm)
  have sel: "campaignRequired sp = (\<lambda>r. rq_predicate r = predicate sp \<and> nonEmpty (rq_epoch r) \<and> nonEmpty (rq_appId r) \<and> nonEmpty (rq_verifierId r))"
    by (rule ext) (simp add: campaignRequired_def)
  from sc(1) r(1-4) obtain eff where eff: "personhoodAppId sha vid (hexToBytes a) = Inr eff" "sc_epoch sc = e" "sc_effectiveAppId sc = bytesToHex eff"
    unfolding sel personhoodScope_def by (auto simp: res_simps split: option.split_asm)
  have "eff = sha (sha (utf8Bytes vid) @ hexToBytes a)"
    using scopes_agree[OF assms(1), of R vid "[]" a] plainHex32_bytes[OF r(5)] r(5) eff(1)
    by (auto simp: plainHex32_def sha256_def)
  then show ?thesis using sc(2) eff(2,3) by (simp add: circuitArgs_def bytesToHex_eq_hexEncode hexToBytes_hexEncode)
qed

text \<open>The arguments the orchestrator passes are the request's arguments.\<close>

lemma prepared_args:
  assumes "sha_32 sha" and "preparePredicate sha R doc req sp = Inr (Inr pr)" and "preparedRequest req sp pr = Some (p, vid)"
  shows "circuitArgs pr root ep = requestArgs sha R vid root ep p \<and> requestKind p = fs_kind (pr_spec pr)"
proof -
  note parts = prepared_parts[OF assms(2)]
  have cty: "pr_countries pr = None" if "fs_kind (pr_spec pr) \<noteq> K_nationality" "fs_kind (pr_spec pr) \<noteq> K_residency"
    using family_names[of "predicate sp" "pr_spec pr"] parts that by (cases "fs_kind (pr_spec pr)") auto
  show ?thesis
  proof (cases "fs_kind (pr_spec pr)")
    case K_nationality
    then have k: "fs_kind (pr_spec pr) = K_nationality \<or> fs_kind (pr_spec pr) = K_residency" by simp
    obtain r cs and c :: countryScope where "findRequired req (\<lambda>r. rq_predicate r = predicate sp) = Some r" "rq_countries r = Some cs"
        "allowedCountrySetHash sha R (the_or [] (rq_verifierId r)) cs = Inr (cs_setHash c)"
        "circuitArgs pr root ep = Inr [circuitArg.A_bytes root, circuitArg.A_bytes (cs_setHash c)]"
      by (rule country_args[OF assms(1,2) k])
    then show ?thesis using assms(3) K_nationality by (auto simp: preparedRequest_def)
  next
    case K_residency
    then have k: "fs_kind (pr_spec pr) = K_nationality \<or> fs_kind (pr_spec pr) = K_residency" by simp
    obtain r cs and c :: countryScope where "findRequired req (\<lambda>r. rq_predicate r = predicate sp) = Some r" "rq_countries r = Some cs"
        "allowedCountrySetHash sha R (the_or [] (rq_verifierId r)) cs = Inr (cs_setHash c)"
        "circuitArgs pr root ep = Inr [circuitArg.A_bytes root, circuitArg.A_bytes (cs_setHash c)]"
      by (rule country_args[OF assms(1,2) k])
    then show ?thesis using assms(3) K_residency by (auto simp: preparedRequest_def)
  next
    case K_personhood
    then obtain e a where p: "p = UniquePerson e a" "plainHex32 e" "plainHex32 a"
      using assms(3) by (auto simp: preparedRequest_def Let_def split: option.split_asm if_split_asm)
    then show ?thesis
      using campaign_args[OF assms(1,2) K_personhood, of e a vid] assms(3) K_personhood by (simp add: plainHex32_bytes)
  qed (use assms(3) parts cty in \<open>auto simp: preparedRequest_def circuitArgs_def bigIntOf_def split: option.split_asm if_split_asm\<close>)
qed

text \<open>The converse of the next property: with whatever witnesses a call with the prepared arguments was accepted, the
  credential satisfies the request, unless a Merkle path was forged or two named byte strings collide.\<close>

theorem prepared_attestation_sound:
  assumes "sha_32 sha" and "preparePredicate sha R doc req sp = Inr (Inr pr)" and "preparedRequest req sp pr = Some (p, vid)"
    and "buildOwlRootTree sha R (cj_claim_disclosures doc) = Inr built" and "owlRootBytesLE R built = Inr root"
    and "circuitArgs pr root ep = Inr args" and "attestC sha R (fs_kind (pr_spec pr)) ws args s = (Inr (), t)"
  shows "(\<exists>c \<in> set (cj_claim_disclosures doc). OWL_BOUND_CLAIM (fs_kind (pr_spec pr)) = Some (cd_name c) \<and> supports ep p (cd_value c)) \<or>
     claimForged sha R (fs_kind (pr_spec pr)) ws (cj_claim_disclosures doc) built root \<or> requestForged sha R ws vid p"
proof -
  have kind: "fs_kind (pr_spec pr) = requestKind p" and args: "requestArgs sha R vid root ep p = Inr args"
    using prepared_args[OF assms(1-3), of root ep] assms(6) by auto
  from attest_supports[OF assms(1,4,5) args assms(7)[unfolded kind]] show ?thesis unfolding kind .
qed

lemma carries_withCountries: "carries p (withCountries cset w) j = carries p w j"
  by (cases p) (simp_all add: withCountries_def split: option.split)

text \<open>The scope the orchestrator adds to the witness is the scope of the request's verifier.\<close>

lemma prepared_scope:
  assumes "sha_32 sha" and "preparePredicate sha R doc req sp = Inr (Inr pr)" and "preparedRequest req sp pr = Some (p, vid)"
  shows "scoped sha vid p (withCountries (pr_countries pr) w)"
proof -
  note parts = prepared_parts[OF assms(2)]
  have kind: "requestKind p = fs_kind (pr_spec pr)" using prepared_args[OF assms] by blast
  show ?thesis
  proof (cases "fs_kind (pr_spec pr) = K_nationality \<or> fs_kind (pr_spec pr) = K_residency")
    case True
    then have "predicate sp = ''nationality'' \<or> predicate sp = ''residency''"
      using family_names[of "predicate sp" "pr_spec pr"] parts by auto
    then obtain c where c: "countrySet sha R req sp = Inr (Inr c)" "pr_countries pr = Some c" using parts by auto
    obtain r cs where "findRequired req (\<lambda>r. rq_predicate r = predicate sp) = Some r" "rq_countries r = Some cs"
        "cs_canon c = canonicaliseCountries cs" "cs_verifierIdHash c = verifierIdHash sha (the_or [] (rq_verifierId r))"
      by (rule countrySet_hash[OF assms(1) c(1)])
    then show ?thesis using True assms(3) c(2) by (auto simp: preparedRequest_def withCountries_def)
  next
    case False
    then show ?thesis using kind by (cases p) simp_all
  qed
qed

text \<open>C9: The wallet's own path to an attestation works.  Take a stamped predicate that the orchestrator has prepared for the
  verifier's requirements, a credential of up to 256 claims with distinct names whose signed claim satisfies the request
  behind it, and the witness the orchestrator reads from the credential's attributes, where attribute and claim agree;
  let the contract be able to serve the request.  Then the orchestrator's country scope and claim binding give the
  witness, the witnesses of the kind are built, the public arguments it computes make the circuit succeed on the
  unpaused contract, and the call adds one key, which for the level, email, country and personhood predicates is the key
  the verifier looks up for the credential's root.  Age ranges are not covered.\<close>

theorem orchestrated_attestation:
  assumes "paths_fold R" and "sha_32 sha" and "length (cj_claim_disclosures doc) \<le> 256"
    and "distinct (map cd_name (cj_claim_disclosures doc))" and "c \<in> set (cj_claim_disclosures doc)"
    and "preparePredicate sha R doc req sp = Inr (Inr pr)" and "preparedRequest req sp pr = Some (p, vid)"
    and "fs_kind (pr_spec pr) \<noteq> K_age_range" and "OWL_BOUND_CLAIM (fs_kind (pr_spec pr)) = Some (cd_name c)"
    and "fs_witness (pr_spec pr) (cj_attributes doc) = Inr w0" and "carries p w0 (cd_value c)"
    and "supports ep p (cd_value c)" and "servable sha R vid ep p (cd_value c) s"
    and "buildOwlRootTree sha R (cj_claim_disclosures doc) = Inr built" and "owlRootBytesLE R built = Inr root"
    and "root \<noteq> zero32" and "\<not> cb_isPaused s"
  shows "\<exists>w ws args t k. bindClaim sha R doc (cd_name c) (withCountries (pr_countries pr) w0) = Inr w \<and>
    witnessesFor R (fs_kind (pr_spec pr)) w = Inr ws \<and> circuitArgs pr root ep = Inr args \<and>
    attestC sha R (fs_kind (pr_spec pr)) ws args s = (Inr (), t) \<and>
    attestations (pc_ledger t) = setInsert k (attestations (pc_ledger s)) \<and> isAttestedC t k \<and>
    (fs_kind (pr_spec pr) \<noteq> K_age \<longrightarrow> attestationKeyFor sha R vid (keyHex root) p = Inr (keyHex k))"
proof -
  have kind: "fs_kind (pr_spec pr) = requestKind p" and args: "circuitArgs pr root ep = requestArgs sha R vid root ep p"
    using prepared_args[OF assms(2,6,7)] by simp_all
  have name: "cd_name c = claimNameOf p" using assms(9) claimNameOf_bound[of p] by (simp add: kind)
  have keyed: "keyedByRequest p \<longleftrightarrow> requestKind p \<noteq> K_age" using assms(8) by (simp add: keyedByRequest_def kind)
  have carried: "carries p (withCountries (pr_countries pr) w0) (cd_value c)" using assms(11) by (simp add: carries_withCountries)
  from satisfying_attested[OF assms(1-5) name assms(12) carried prepared_scope[OF assms(2,6,7)] assms(13-17)]
  show ?thesis unfolding kind args keyed[symmetric] name[symmetric] .
qed

section \<open>Witness\<close>

definition exAdult :: credentialJson where
  "exAdult = exCredential\<lparr>cj_attributes := [(''dateOfBirth'', JStr ''1990-05-17'')]\<rparr>"

definition exAgeStamp :: owlAttestationRef where
  "exAgeStamp = \<lparr>predicate = ''age'', threshold = None, min_age = None, max_age = None, epoch = None, app_id = None, country = None\<rparr>"

definition exAgeRequired :: requiredAttestation where
  "exAgeRequired = \<lparr>rq_predicate = ''age'', rq_threshold = Some 18, rq_minAge = None, rq_maxAge = None, rq_epoch = None, rq_appId = None,
     rq_countries = None, rq_verifierId = None\<rparr>"

lemma exPrepared:
  "\<exists>pr. preparePredicate exSha exRuntime exAdult (Some [exAgeRequired]) exAgeStamp = Inr (Inr pr) \<and>
     fs_kind (pr_spec pr) = K_age \<and> pr_threshold pr = Some 18 \<and> fs_witness (pr_spec pr) = dobWitness"
  by (simp add: preparePredicate_def FAMILIES_def exAgeStamp_def exAdult_def exAgeRequired_def bindSkip_def presentationBounds_def
      findRequired_def)

lemma exDob: "dobWitness (cj_attributes exAdult) = Inr exHolder"
proof -
  have "dobYmd d = Inr (int n)" if "dateToYmd (JStr d) = Some n" for d n
    using that by (auto simp: dobYmd_def split: option.split_asm if_split_asm)
  then have "dobYmd ''1990-05-17'' = Inr 19900517" using exDate by fastforce
  then show ?thesis by (simp add: dobWitness_def exAdult_def jsStringOpt_def exHolder_def)
qed

theorem orchestrated_attestation_witness:
  "\<exists>pr w ws args t k. preparePredicate exSha exRuntime exAdult (Some [exAgeRequired]) exAgeStamp = Inr (Inr pr) \<and>
     bindClaim exSha exRuntime exAdult ''birthdate'' (withCountries (pr_countries pr) exHolder) = Inr w \<and>
     witnessesFor exRuntime K_age w = Inr ws \<and>
     attestC exSha exRuntime K_age ws args (newPredicate (Inl exKey)) = (Inr (), t) \<and> isAttestedC t k"
proof -
  obtain pr where pr: "preparePredicate exSha exRuntime exAdult (Some [exAgeRequired]) exAgeStamp = Inr (Inr pr)"
      "fs_kind (pr_spec pr) = K_age" "pr_threshold pr = Some 18" "fs_witness (pr_spec pr) = dobWitness"
    using exPrepared by blast
  have claims: "cj_claim_disclosures exAdult = exClaims" by (simp add: exAdult_def exCredential_def)
  obtain built root where b: "buildOwlRootTree exSha exRuntime (cj_claim_disclosures exAdult) = Inr built"
      "owlRootBytesLE exRuntime built = Inr root" "root \<noteq> zero32"
    using exTree by (auto simp: claims)
  let ?c = "\<lparr>cd_name = ''birthdate'', cd_value = JStr ''1990-05-17'', cd_salt = ''s2''\<rparr>"
  have c: "length (cj_claim_disclosures exAdult) \<le> 256" "distinct (map cd_name (cj_claim_disclosures exAdult))"
      "?c \<in> set (cj_claim_disclosures exAdult)" by (simp_all add: claims exClaims_def)
  have req: "preparedRequest (Some [exAgeRequired]) exAgeStamp pr = Some (AgeOver 18, [])" using pr(2,3) by (simp add: preparedRequest_def)
  have kind: "fs_kind (pr_spec pr) \<noteq> K_age_range" "OWL_BOUND_CLAIM (fs_kind (pr_spec pr)) = Some (cd_name ?c)" using pr(2) by simp_all
  have w0: "fs_witness (pr_spec pr) (cj_attributes exAdult) = Inr exHolder" using exDob pr(4) by simp
  have meets: "carries (AgeOver 18) exHolder (cd_value ?c)" "supports 20250101 (AgeOver 18) (cd_value ?c)"
      "servable exSha exRuntime [] 20250101 (AgeOver 18) (cd_value ?c) (newPredicate (Inl exKey))"
    using exDate by (simp_all add: exHolder_def noWitness_def)
  from orchestrated_attestation[OF exRuntime_paths_fold exSha_32 c pr(1) req kind w0 meets b exCredential_ok(3)] pr(1)
  show ?thesis unfolding pr(2) claimDisclosure.simps by blast
qed

end
