(* ===== verification/Browser.thy ===== *)
theory Browser
  imports Json
begin

text \<open>
  What the applications use of a browser: the state of a \<open>WebSocket\<close> and the messages of the presentation protocol.
\<close>

datatype readyState = CONNECTING | OPEN | CLOSING | CLOSED

definition connected :: "readyState \<Rightarrow> bool" where
  "connected st \<longleftrightarrow> st = OPEN \<or> st = CONNECTING"

text \<open>\<open>ws.close()\<close>.\<close>

definition closedBy :: "readyState \<Rightarrow> readyState" where
  "closedBy st = (if connected st then CLOSING else st)"

lemma connected_closedBy [simp]: "\<not> connected (closedBy st)"
  by (simp add: connected_def closedBy_def)

record wsMsg =
  wm_type :: string
  wm_payload :: json

text \<open>Two characters of the texts shown, as UTF-8 bytes.\<close>

definition emDash :: string where "emDash = [CHR 0xE2, CHR 0x80, CHR 0x94]"

definition ellipsis :: string where "ellipsis = [CHR 0xE2, CHR 0x80, CHR 0xA6]"

definition endsWith :: "string \<Rightarrow> string \<Rightarrow> bool" where
  "endsWith s suf \<longleftrightarrow> length suf \<le> length s \<and> drop (length s - length suf) s = suf"

text \<open>\<open>if (!x)\<close> on a value that came out of \<open>JSON.parse\<close> or is undefined.\<close>

fun falsy :: "json option \<Rightarrow> bool" where
  "falsy None = True"
| "falsy (Some JNull) = True"
| "falsy (Some (JBool b)) = (\<not> b)"
| "falsy (Some (JNum n)) = (n = 0)"
| "falsy (Some (JStr s)) = (s = [])"
| "falsy (Some v) = False"

end
