(* ===== verification/App_Presentation.thy ===== *)
theory App_Presentation
  imports Presentation Orchestrator Browser "HOL-Library.AList"
begin

text \<open>
  The wallet app's presentation hook, \<open>packages/app/src/hooks/use-presentation.ts\<close>: the holder creates a session, shows its
  QR code, receives the verifier's request over a WebSocket, approves it, and the wallet's presentation is sent back.

  The hook is a machine over the events of a browser: calls of the functions it returns, promises that settle, timers,
  socket events, renders and the unmount.  React state and refs are fields of one record; a value that a callback
  closes over is the one of the last render.  A \<open>WebSocket\<close>, an \<open>AbortController\<close> and a timer are numbers that index
  what the browser keeps for them.  The URL given to \<open>new WebSocket\<close> is taken to be valid.  The match summary of the
  consent screen and the console output are left out.
\<close>

section \<open>Errors for people\<close>

datatype pstate = Idle | Creating | Showing_qr | Waiting | Consent | Generating | Sending | Complete | Denied | ErrorState

definition QUICK_RECONNECT_ATTEMPTS :: nat where "QUICK_RECONNECT_ATTEMPTS = 2"

definition NON_TERMINAL_STATES :: "pstate list" where
  "NON_TERMINAL_STATES = [Creating, Showing_qr, Waiting, Consent, Generating, Sending]"

definition FRIENDLY_PREDICATE_NAME :: "(string \<times> string) list" where
  "FRIENDLY_PREDICATE_NAME =
     [(''age'', ''age''), (''kyc'', ''identity verification level''), (''residency'', ''resident status''),
      (''email_verified'', ''verified email''), (''nationality'', ''nationality''), (''age_range'', ''age range''),
      (''unique_personhood'', ''unique person'')]"

definition friendlyPredicate :: "string \<Rightarrow> string" where
  "friendlyPredicate p = the_or p (map_of FRIENDLY_PREDICATE_NAME p)"

fun attestProgressStageLabel :: "attestProgress option \<Rightarrow> string option" where
  "attestProgressStageLabel (Some (P_check p)) = Some (''Checking your '' @ friendlyPredicate p @ '' proof'')"
| "attestProgressStageLabel (Some (P_snapshot p k)) = Some (''Reading verifier requirements for '' @ friendlyPredicate p)"
| "attestProgressStageLabel (Some (P_prove p k c m)) = Some (''Generating proof for '' @ friendlyPredicate p)"
| "attestProgressStageLabel (Some (P_relay p k)) = Some (''Submitting your '' @ friendlyPredicate p @ '' proof'')"
| "attestProgressStageLabel _ = None"

definition ERROR_TEXTS :: "(string list \<times> string) list" where
  "ERROR_TEXTS =
     [([''failed assert: kyc below threshold''], ''Your ID's identity verification level is too low for this verifier.''),
      ([''failed assert: age below''], ''Your date of birth doesn't meet the age this verifier requires.''),
      ([''failed assert: not a verified resident''], ''Your ID does not show you as a verified resident.''),
      ([''failed assert: email not verified''], ''Your ID does not include a provider-verified email.''),
      ([''failed assert: nationality not in approved set''], ''Your nationality isn't in the verifier's accepted list.''),
      ([''personhood replay''],
       ''You already verified that you are a unique person for this campaign. You can only claim it once.''),
      ([''network id has not been configured''], ''App startup error '' @ emDash @ '' please reload the page.''),
      ([''no passkey''], ''No passkey metadata is stored in this browser. Try signing in with your saved passkey first.''),
      ([''signature error'', ''invalid signature''],
       ''Your ID looks tampered or was issued by a server we no longer trust. Re-issue your ID and try again.''),
      ([''cors'', ''failed to fetch''], ''Couldn't reach the verifier service. Check your connection and retry.'')]"

definition humanizeError :: "string \<Rightarrow> string" where
  "humanizeError msg =
     (case find (\<lambda>(parts, text). list_ex (includesStr (toLowerCase msg)) parts) ERROR_TEXTS of
        None \<Rightarrow> msg | Some (parts, text) \<Rightarrow> text)"

section \<open>Retrying a presentation\<close>

definition MAX_PRESENT_ATTEMPTS :: nat where "MAX_PRESENT_ATTEMPTS = 3"

definition isTransientChainError :: "string \<Rightarrow> bool" where
  "isTransientChainError msg \<longleftrightarrow>
     (let m = toLowerCase msg in
      \<not> list_ex (includesStr m) [''failed assert'', ''signature'', ''personhood replay''] \<and>
      list_ex (includesStr m)
        [''failed to fetch'', ''networkerror'', ''network error'', ''load failed'', ''timeout'', ''timed out'',
         ''econnrefused'', ''econnreset'', ''503'', ''502'', ''unavailable'', ''unreachable'', ''indexer'',
         ''proof server'', ''sidecar''])"

fun isAbortError :: "js_error \<Rightarrow> bool" where
  "isAbortError (AbortError m) = True"
| "isAbortError _ = False"

text \<open>What the catch block of \<open>presentWithChainRetry\<close> does after attempt \<open>i\<close> (from 0) failed: rethrow, or wait and retry.\<close>

definition retriesAfter :: "nat \<Rightarrow> js_error \<Rightarrow> bool" where
  "retriesAfter i e \<longleftrightarrow> \<not> (isAbortError e \<or> i = MAX_PRESENT_ATTEMPTS - 1 \<or> \<not> isTransientChainError (message e))"

definition buildDcql :: "json \<Rightarrow> json res" where
  "buildDcql req =
     (if falsy (getField ''dcql'' req) then Inl (Error (''Verifier sent no DCQL query '' @ emDash @ '' refusing presentation''))
      else Inr (the_or JNull (getField ''dcql'' req)))"

section \<open>The state of the hook\<close>

text \<open>\<open>so_session\<close> is the session the socket's handlers close over; \<open>so_handlers\<close> says whether they are still attached.\<close>

record socket =
  so_url :: string
  so_session :: string
  so_state :: readyState
  so_handlers :: bool

definition liveSocket :: "socket \<Rightarrow> bool" where
  "liveSocket w \<longleftrightarrow> connected (so_state w)"

datatype runPhase = InAttempt nat | InDelay | Finished

text \<open>One call of \<open>approve\<close> that got past its guard: the request and overrides it closed over, the attempt it is in, the
  controller of that attempt, and whether its proving timer is still set.\<close>

record approval =
  ar_request :: json
  ar_overrides :: "(string \<times> string) list"
  ar_attempt :: nat
  ar_phase :: runPhase
  ar_timer :: bool

record hook =
  ap_state :: pstate
  ap_sessionQr :: "string option"
  ap_request :: "json option"
  ap_error :: "string option"
  ap_overrides :: "(string \<times> string) list"
  ap_attestProgress :: "attestProgress option"
  ap_stateRef :: pstate
  ap_shownRequest :: "json option"
  ap_shownOverrides :: "(string \<times> string) list"
  ap_attestProgressRef :: "attestProgress option"
  ap_ws :: "nat option"
  ap_sessionId :: "string option"
  ap_reconnectAttempt :: nat
  ap_abort :: "nat option"
  ap_timedOut :: bool
  ap_reconnectTimer :: "nat option"
  ap_alive :: bool
  ap_startAbort :: "nat option"
  ap_vpToken :: "json option"
  ap_requestSeen :: bool
  ap_sockets :: "socket list"
  ap_timers :: "(nat \<times> string) list"
  ap_timerCount :: nat
  ap_aborted :: "bool list"
  ap_creating :: "nat list"
  ap_runs :: "approval list"
  ap_calls :: "(presentCall \<times> (string \<times> string) list \<times> nat) list"
  ap_sent :: "(nat \<times> wsMsg) list"
  ap_recorded :: "(json \<times> presented) list"

definition usePresentation :: hook where
  "usePresentation =
     \<lparr>ap_state = Idle, ap_sessionQr = None, ap_request = None, ap_error = None, ap_overrides = [], ap_attestProgress = None,
      ap_stateRef = Idle, ap_shownRequest = None, ap_shownOverrides = [], ap_attestProgressRef = None, ap_ws = None,
      ap_sessionId = None, ap_reconnectAttempt = 0, ap_abort = None, ap_timedOut = False, ap_reconnectTimer = None,
      ap_alive = True, ap_startAbort = None, ap_vpToken = None, ap_requestSeen = False, ap_sockets = [], ap_timers = [],
      ap_timerCount = 0, ap_aborted = [], ap_creating = [], ap_runs = [], ap_calls = [], ap_sent = [], ap_recorded = []\<rparr>"

datatype hookEvent =
    Start
  | SessionCreated nat string
  | SessionFailed nat js_error
  | SocketOpens nat
  | SocketMessage nat string
  | SocketCloses nat
  | TimerFires nat
  | WakeUp
  | Rendered
  | SetOverride string string
  | Approve
  | Progress nat attestProgress
  | PresentResolves nat presented
  | PresentRejects nat js_error
  | DelayDone nat
  | ProvingTimeout nat
  | Deny
  | Cancel
  | Unmount

section \<open>Setters, sockets and controllers\<close>

text \<open>A setter of an unmounted component does nothing.\<close>

definition react :: "(hook \<Rightarrow> hook) \<Rightarrow> hook \<Rightarrow> hook" where
  "react f h = (if ap_alive h then f h else h)"

definition setState :: "pstate \<Rightarrow> hook \<Rightarrow> hook" where
  "setState p = react (\<lambda>h. h\<lparr>ap_state := p\<rparr>)"

definition setError :: "string option \<Rightarrow> hook \<Rightarrow> hook" where
  "setError e = react (\<lambda>h. h\<lparr>ap_error := e\<rparr>)"

definition setRequest :: "json option \<Rightarrow> hook \<Rightarrow> hook" where
  "setRequest r = react (\<lambda>h. h\<lparr>ap_request := r\<rparr>)"

definition setSessionQr :: "string option \<Rightarrow> hook \<Rightarrow> hook" where
  "setSessionQr q = react (\<lambda>h. h\<lparr>ap_sessionQr := q\<rparr>)"

definition setAttestProgress :: "attestProgress option \<Rightarrow> hook \<Rightarrow> hook" where
  "setAttestProgress p = react (\<lambda>h. h\<lparr>ap_attestProgress := p\<rparr>)"

definition setOverride :: "string \<Rightarrow> string \<Rightarrow> hook \<Rightarrow> hook" where
  "setOverride dcqlId credentialId = react (\<lambda>h. h\<lparr>ap_overrides := AList.update dcqlId credentialId (ap_overrides h)\<rparr>)"

definition nonTerminal :: "pstate \<Rightarrow> bool" where
  "nonTerminal p \<longleftrightarrow> p \<in> set NON_TERMINAL_STATES"

definition wsOpen :: "hook \<Rightarrow> bool" where
  "wsOpen h = (case ap_ws h of None \<Rightarrow> False | Some i \<Rightarrow> so_state (ap_sockets h ! i) = OPEN)"

text \<open>Sending on the current socket when it is open.\<close>

definition sendOverWs :: "wsMsg \<Rightarrow> hook \<Rightarrow> hook" where
  "sendOverWs m h =
     (case ap_ws h of
        None \<Rightarrow> h
      | Some i \<Rightarrow> if so_state (ap_sockets h ! i) = OPEN then h\<lparr>ap_sent := ap_sent h @ [(i, m)]\<rparr> else h)"

definition proofFailed :: wsMsg where
  "proofFailed = \<lparr>wm_type = ''proof_failed'', wm_payload = JObj [(''code'', JStr ''proof_failed'')]\<rparr>"

definition response :: "json \<Rightarrow> wsMsg" where
  "response payload = \<lparr>wm_type = ''response'', wm_payload = payload\<rparr>"

text \<open>Detaching the handlers of a socket and closing it.\<close>

definition dropped :: "socket \<Rightarrow> socket" where
  "dropped w = w\<lparr>so_handlers := False, so_state := closedBy (so_state w)\<rparr>"

definition dropSocket :: "hook \<Rightarrow> hook" where
  "dropSocket h =
     (case ap_ws h of
        None \<Rightarrow> h
      | Some i \<Rightarrow> h\<lparr>ap_ws := None, ap_sockets := (ap_sockets h)[i := dropped (ap_sockets h ! i)]\<rparr>)"

definition abortCtl :: "nat option \<Rightarrow> hook \<Rightarrow> hook" where
  "abortCtl c h = (case c of None \<Rightarrow> h | Some k \<Rightarrow> h\<lparr>ap_aborted := (ap_aborted h)[k := True]\<rparr>)"

definition clearReconnectTimer :: "hook \<Rightarrow> hook" where
  "clearReconnectTimer h =
     (case ap_reconnectTimer h of
        None \<Rightarrow> h
      | Some t \<Rightarrow> h\<lparr>ap_timers := filter (\<lambda>x. fst x \<noteq> t) (ap_timers h), ap_reconnectTimer := None\<rparr>)"

definition cleanup :: "hook \<Rightarrow> hook" where
  "cleanup h =
     (let h1 = clearReconnectTimer h;
          h2 = (abortCtl (ap_startAbort h1) h1)\<lparr>ap_startAbort := None\<rparr>;
          h3 = (abortCtl (ap_abort h2) h2)\<lparr>ap_abort := None\<rparr> in
      dropSocket (h3\<lparr>ap_vpToken := None, ap_requestSeen := False, ap_reconnectAttempt := 0, ap_sessionId := None\<rparr>))"

definition sessionPath :: "string \<Rightarrow> string" where
  "sessionPath sessionId = ''/ws/presentation/'' @ sessionId"

definition wsLive :: "hook \<Rightarrow> bool" where
  "wsLive h = (case ap_ws h of None \<Rightarrow> False | Some i \<Rightarrow> liveSocket (ap_sockets h ! i))"

definition reusable :: "string \<Rightarrow> hook \<Rightarrow> bool" where
  "reusable sessionId h =
     (case ap_ws h of
        None \<Rightarrow> False
      | Some i \<Rightarrow> includesStr (so_url (ap_sockets h ! i)) (sessionPath sessionId) \<and> liveSocket (ap_sockets h ! i))"

definition connectWebSocket :: "configEnv \<Rightarrow> string \<Rightarrow> hook \<Rightarrow> hook" where
  "connectWebSocket E sessionId h =
     (if \<not> ap_alive h \<or> reusable sessionId h then h
      else let h' = dropSocket h;
               ws = \<lparr>so_url = getWsBaseUrl E None @ sessionPath sessionId @ ''?role=holder'', so_session = sessionId,
                     so_state = CONNECTING, so_handlers = True\<rparr> in
           h'\<lparr>ap_ws := Some (length (ap_sockets h')), ap_sockets := ap_sockets h' @ [ws]\<rparr>)"

definition maybeReconnect :: "configEnv \<Rightarrow> hook \<Rightarrow> hook" where
  "maybeReconnect E h =
     (case ap_sessionId h of
        None \<Rightarrow> h
      | Some sessionId \<Rightarrow>
          if \<not> nonTerminal (ap_stateRef h) \<or> wsLive h then h
          else connectWebSocket E sessionId (h\<lparr>ap_reconnectAttempt := 0\<rparr>))"

section \<open>Socket handlers\<close>

definition onOpen :: "nat \<Rightarrow> hook \<Rightarrow> hook" where
  "onOpen i h =
     (let h1 = h\<lparr>ap_reconnectAttempt := 0\<rparr>;
          h2 = (if ap_stateRef h1 = Creating then setState Showing_qr h1 else h1) in
      case ap_vpToken h2 of None \<Rightarrow> h2 | Some r \<Rightarrow> h2\<lparr>ap_sent := ap_sent h2 @ [(i, response r)]\<rparr>)"

definition onRequest :: "json option \<Rightarrow> hook \<Rightarrow> hook" where
  "onRequest payload h =
     (if ap_requestSeen h \<or> ap_vpToken h \<noteq> None then h
      else setState Consent (setRequest payload (h\<lparr>ap_requestSeen := True\<rparr>)))"

text \<open>\<open>wsErr.message\<close> throws on a payload that is \<open>null\<close> or missing; the handler's catch swallows it.\<close>

definition onServerError :: "json option \<Rightarrow> hook \<Rightarrow> hook" where
  "onServerError payload h =
     (if ap_stateRef h \<in> {Complete, ErrorState, Idle} \<or> payload \<in> {None, Some JNull} then h
      else let text = the_or [] (asStr (getField ''message'' (the_or JNull payload))) in
           setState ErrorState (setError (Some (if text = [] then ''Server error'' else text)) h))"

definition onMessage :: "string \<Rightarrow> hook \<Rightarrow> hook" where
  "onMessage frame h =
     (case readMessage frame of
        None \<Rightarrow> h
      | Some (ty, payload) \<Rightarrow>
          if ty = ''session_ready'' then
            (if ap_stateRef h \<in> {Showing_qr, Creating} then setState Waiting h else h)
          else if ty = ''request'' then onRequest payload h
          else if ty = ''peer_disconnected'' then
            (if ap_stateRef h \<in> {Waiting, Showing_qr} then setState Waiting h else h)
          else if ty = ''error'' then onServerError payload h
          else h)"

definition onClose :: "string \<Rightarrow> hook \<Rightarrow> hook" where
  "onClose sessionId h =
     (if nonTerminal (ap_stateRef h) \<and> ap_reconnectAttempt h < QUICK_RECONNECT_ATTEMPTS
      then let t = ap_timerCount h in
           h\<lparr>ap_reconnectAttempt := ap_reconnectAttempt h + 1, ap_timers := ap_timers h @ [(t, sessionId)],
             ap_timerCount := Suc t, ap_reconnectTimer := Some t\<rparr>
      else h)"

section \<open>Starting a session\<close>

definition startPresentation :: "hook \<Rightarrow> hook" where
  "startPresentation h =
     (let h1 = cleanup h in
      if \<not> ap_alive h1 then h1
      else let h2 = setState Creating (setSessionQr None (setRequest None (setError None h1)));
               abort = length (ap_aborted h2) in
           h2\<lparr>ap_aborted := ap_aborted h2 @ [False], ap_startAbort := Some abort, ap_creating := abort # ap_creating h2\<rparr>)"

text \<open>The continuation of the \<open>createSession\<close> call of a controller, and its finally block.\<close>

definition endCreating :: "nat \<Rightarrow> hook \<Rightarrow> hook" where
  "endCreating k h = (if ap_startAbort h = Some k then h\<lparr>ap_startAbort := None\<rparr> else h)"

definition sessionCreated :: "configEnv \<Rightarrow> nat \<Rightarrow> string \<Rightarrow> hook \<Rightarrow> hook" where
  "sessionCreated E k sessionId h0 =
     (let h = h0\<lparr>ap_creating := removeAll k (ap_creating h0)\<rparr> in
      endCreating k
        (if \<not> ap_alive h \<or> ap_aborted h ! k then h
         else connectWebSocket E sessionId
                (setSessionQr (Some (encodeSessionEngagement (sessionPath sessionId))) (h\<lparr>ap_sessionId := Some sessionId\<rparr>))))"

definition sessionFailed :: "nat \<Rightarrow> js_error \<Rightarrow> hook \<Rightarrow> hook" where
  "sessionFailed k e h0 =
     (let h = h0\<lparr>ap_creating := removeAll k (ap_creating h0)\<rparr> in
      endCreating k
        (if ap_aborted h ! k \<or> \<not> ap_alive h \<or> isAbortError e then h
         else setState ErrorState (setError (Some (message e)) h)))"

section \<open>Approving a request\<close>

definition updRun :: "nat \<Rightarrow> (approval \<Rightarrow> approval) \<Rightarrow> hook \<Rightarrow> hook" where
  "updRun n f h = h\<lparr>ap_runs := (ap_runs h)[n := f (ap_runs h ! n)]\<rparr>"

text \<open>The finally block clears the proving timer.\<close>

definition finishRun :: "nat \<Rightarrow> hook \<Rightarrow> hook" where
  "finishRun n = updRun n (\<lambda>r. r\<lparr>ar_phase := Finished, ar_timer := False\<rparr>)"

text \<open>The argument \<open>freshSignal\<close> of \<open>presentWithChainRetry\<close>, and the attempt that is started with its signal.\<close>

definition freshSignal :: "hook \<Rightarrow> hook" where
  "freshSignal h =
     (let h' = abortCtl (ap_abort h) h in
      h'\<lparr>ap_abort := Some (length (ap_aborted h')), ap_aborted := ap_aborted h' @ [False]\<rparr>)"

definition presentArgs :: "json \<Rightarrow> presentCall" where
  "presentArgs req =
     \<lparr>pc_dcql = getField ''dcql'' req, pc_aud = getField ''verifierName'' req, pc_nonce = getField ''nonce'' req,
      pc_verifierId = getField ''verifierId'' req\<rparr>"

definition startAttempt :: "nat \<Rightarrow> nat \<Rightarrow> hook \<Rightarrow> hook" where
  "startAttempt n i h =
     (let signal = length (ap_aborted h);
          run = ap_runs h ! n;
          h' = updRun n (\<lambda>r. r\<lparr>ar_attempt := i, ar_phase := InAttempt signal\<rparr>) (freshSignal h) in
      h'\<lparr>ap_calls := ap_calls h' @ [(presentArgs (ar_request run), ar_overrides run, signal)]\<rparr>)"

definition TIMEOUT_TEXT :: string where
  "TIMEOUT_TEXT = ''Proof generation timed out '' @ emDash @ '' the proof server or Midnight network is taking too long.''"

definition failureText :: "attestProgress option \<Rightarrow> js_error \<Rightarrow> string" where
  "failureText p e =
     (let friendlyDetail = humanizeError (message e) in
      case attestProgressStageLabel p of None \<Rightarrow> friendlyDetail | Some stageLabel \<Rightarrow> stageLabel @ '': '' @ friendlyDetail)"

definition failRun :: "nat \<Rightarrow> js_error \<Rightarrow> hook \<Rightarrow> hook" where
  "failRun n e h =
     finishRun n
       (if isAbortError e \<and> \<not> ap_timedOut h then h
        else setState ErrorState
               (setError (Some (if ap_timedOut h then TIMEOUT_TEXT else failureText (ap_attestProgressRef h) e))
                 (sendOverWs proofFailed h)))"

definition approve :: "hook \<Rightarrow> hook" where
  "approve h =
     (if falsy (ap_shownRequest h) \<or> ap_ws h = None then setState ErrorState (setError (Some ''No active request'') h)
      else let request = the_or JNull (ap_shownRequest h);
               n = length (ap_runs h);
               run = \<lparr>ar_request = request, ar_overrides = ap_shownOverrides h, ar_attempt = 0, ar_phase = InDelay, ar_timer = True\<rparr>;
               h' = (setAttestProgress None (setState Generating h))\<lparr>ap_timedOut := False, ap_runs := ap_runs h @ [run]\<rparr> in
           case buildDcql request of Inl e \<Rightarrow> failRun n e h' | Inr dcql \<Rightarrow> startAttempt n 0 h')"

definition attestProgressed :: "attestProgress \<Rightarrow> hook \<Rightarrow> hook" where
  "attestProgressed ev h = setAttestProgress (Some ev) (h\<lparr>ap_attestProgressRef := Some ev\<rparr>)"

text \<open>The rest of \<open>approve\<close> once the wallet has answered.\<close>

definition completeRun :: "nat \<Rightarrow> presented \<Rightarrow> hook \<Rightarrow> hook" where
  "completeRun n p h =
     (let request = ar_request (ap_runs h ! n);
          payload = responseJson request p;
          h1 = setState Sending (setAttestProgress None (h\<lparr>ap_attestProgressRef := None\<rparr>));
          h2 = h1\<lparr>ap_vpToken := Some payload, ap_recorded := ap_recorded h1 @ [(request, p)]\<rparr> in
      finishRun n (cleanup (setState Complete (sendOverWs (response payload) h2))))"

definition rejectRun :: "nat \<Rightarrow> js_error \<Rightarrow> hook \<Rightarrow> hook" where
  "rejectRun n e h =
     (if retriesAfter (ar_attempt (ap_runs h ! n)) e then updRun n (\<lambda>r. r\<lparr>ar_phase := InDelay\<rparr>) h else failRun n e h)"

definition provingTimeout :: "nat \<Rightarrow> hook \<Rightarrow> hook" where
  "provingTimeout n h = abortCtl (ap_abort h) ((updRun n (\<lambda>r. r\<lparr>ar_timer := False\<rparr>) h)\<lparr>ap_timedOut := True\<rparr>)"

definition deny :: "hook \<Rightarrow> hook" where
  "deny h =
     setState Denied (setError None (setSessionQr None (setRequest None
       (cleanup (sendOverWs \<lparr>wm_type = ''consent_denied'', wm_payload = JNull\<rparr> h)))))"

definition cancel :: "hook \<Rightarrow> hook" where
  "cancel h =
     setError None (setSessionQr None (setRequest None (setState Idle (cleanup (sendOverWs proofFailed h)))))"

section \<open>The machine\<close>

text \<open>An event that the browser cannot deliver in the current state (a second settlement of a promise, a message on a socket
  that is not open) leaves the state as it is.\<close>

definition setSocketState :: "nat \<Rightarrow> readyState \<Rightarrow> hook \<Rightarrow> hook" where
  "setSocketState i st h = h\<lparr>ap_sockets := (ap_sockets h)[i := (ap_sockets h ! i)\<lparr>so_state := st\<rparr>]\<rparr>"

definition hasSocket :: "nat \<Rightarrow> readyState list \<Rightarrow> hook \<Rightarrow> bool" where
  "hasSocket i sts h \<longleftrightarrow> i < length (ap_sockets h) \<and> so_state (ap_sockets h ! i) \<in> set sts"

definition handled :: "nat \<Rightarrow> (hook \<Rightarrow> hook) \<Rightarrow> hook \<Rightarrow> hook" where
  "handled i f h = (if so_handlers (ap_sockets h ! i) then f h else h)"

definition attempting :: "nat \<Rightarrow> hook \<Rightarrow> bool" where
  "attempting n h \<longleftrightarrow> n < length (ap_runs h) \<and> (case ar_phase (ap_runs h ! n) of InAttempt s \<Rightarrow> True | _ \<Rightarrow> False)"

definition delayed :: "nat \<Rightarrow> hook \<Rightarrow> bool" where
  "delayed n h \<longleftrightarrow> n < length (ap_runs h) \<and> ar_phase (ap_runs h ! n) = InDelay"

fun hookStep :: "configEnv \<Rightarrow> hook \<Rightarrow> hookEvent \<Rightarrow> hook" where
  "hookStep E h Start = startPresentation h"
| "hookStep E h (SessionCreated k sessionId) = (if k \<in> set (ap_creating h) then sessionCreated E k sessionId h else h)"
| "hookStep E h (SessionFailed k e) = (if k \<in> set (ap_creating h) then sessionFailed k e h else h)"
| "hookStep E h (SocketOpens i) =
     (if hasSocket i [CONNECTING] h then handled i (onOpen i) (setSocketState i OPEN h) else h)"
| "hookStep E h (SocketMessage i frame) = (if hasSocket i [OPEN] h then handled i (onMessage frame) h else h)"
| "hookStep E h (SocketCloses i) =
     (if hasSocket i [CONNECTING, OPEN, CLOSING] h
      then handled i (onClose (so_session (ap_sockets h ! i))) (setSocketState i CLOSED h) else h)"
| "hookStep E h (TimerFires t) =
     (case map_of (ap_timers h) t of
        None \<Rightarrow> h
      | Some sessionId \<Rightarrow> connectWebSocket E sessionId (h\<lparr>ap_timers := filter (\<lambda>x. fst x \<noteq> t) (ap_timers h)\<rparr>))"
| "hookStep E h WakeUp = (if ap_alive h then maybeReconnect E h else h)"
| "hookStep E h Rendered =
     (if ap_alive h
      then h\<lparr>ap_stateRef := ap_state h, ap_shownRequest := ap_request h, ap_shownOverrides := ap_overrides h\<rparr> else h)"
| "hookStep E h (SetOverride dcqlId credentialId) = setOverride dcqlId credentialId h"
| "hookStep E h Approve = (if ap_alive h then approve h else h)"
| "hookStep E h (Progress n ev) = (if attempting n h then attestProgressed ev h else h)"
| "hookStep E h (PresentResolves n p) = (if attempting n h then completeRun n p h else h)"
| "hookStep E h (PresentRejects n e) = (if attempting n h then rejectRun n e h else h)"
| "hookStep E h (DelayDone n) = (if delayed n h then startAttempt n (ar_attempt (ap_runs h ! n) + 1) h else h)"
| "hookStep E h (ProvingTimeout n) =
     (if n < length (ap_runs h) \<and> ar_timer (ap_runs h ! n) then provingTimeout n h else h)"
| "hookStep E h Deny = (if ap_alive h then deny h else h)"
| "hookStep E h Cancel = (if ap_alive h then cancel h else h)"
| "hookStep E h Unmount = cleanup (h\<lparr>ap_alive := False\<rparr>)"

section \<open>What the setters leave alone\<close>

lemmas hook_setters = setState_def setError_def setRequest_def setSessionQr_def setAttestProgress_def setOverride_def react_def

text \<open>The part of the state that is not React state.\<close>

definition refs :: "hook \<Rightarrow> hook" where
  "refs h = h\<lparr>ap_state := Idle, ap_sessionQr := None, ap_request := None, ap_error := None, ap_overrides := [],
              ap_attestProgress := None\<rparr>"

lemma refs_setters [simp]:
  "refs (setState p h) = refs h" "refs (setError e h) = refs h" "refs (setRequest r h) = refs h"
  "refs (setSessionQr q h) = refs h" "refs (setAttestProgress a h) = refs h" "refs (setOverride i c h) = refs h"
  by (simp_all add: refs_def hook_setters)

lemma refs_fields:
  assumes "refs h' = refs h"
  shows "ap_ws h' = ap_ws h" "ap_sockets h' = ap_sockets h" "ap_alive h' = ap_alive h" "ap_aborted h' = ap_aborted h"
    "ap_abort h' = ap_abort h" "ap_startAbort h' = ap_startAbort h" "ap_creating h' = ap_creating h" "ap_runs h' = ap_runs h"
    "ap_vpToken h' = ap_vpToken h" "ap_sent h' = ap_sent h" "ap_recorded h' = ap_recorded h" "ap_timers h' = ap_timers h"
    "ap_reconnectTimer h' = ap_reconnectTimer h" "ap_sessionId h' = ap_sessionId h" "ap_stateRef h' = ap_stateRef h"
    "ap_timedOut h' = ap_timedOut h" "ap_timerCount h' = ap_timerCount h" "ap_shownRequest h' = ap_shownRequest h"
    "ap_requestSeen h' = ap_requestSeen h" "ap_calls h' = ap_calls h"
  using assms[THEN arg_cong, of ap_ws] assms[THEN arg_cong, of ap_sockets] assms[THEN arg_cong, of ap_alive]
    assms[THEN arg_cong, of ap_aborted] assms[THEN arg_cong, of ap_abort] assms[THEN arg_cong, of ap_startAbort]
    assms[THEN arg_cong, of ap_creating] assms[THEN arg_cong, of ap_runs] assms[THEN arg_cong, of ap_vpToken]
    assms[THEN arg_cong, of ap_sent] assms[THEN arg_cong, of ap_recorded] assms[THEN arg_cong, of ap_timers]
    assms[THEN arg_cong, of ap_reconnectTimer] assms[THEN arg_cong, of ap_sessionId] assms[THEN arg_cong, of ap_stateRef]
    assms[THEN arg_cong, of ap_timedOut] assms[THEN arg_cong, of ap_timerCount] assms[THEN arg_cong, of ap_shownRequest]
    assms[THEN arg_cong, of ap_requestSeen] assms[THEN arg_cong, of ap_calls]
  by (simp_all add: refs_def)

lemmas setter_fields [simp] =
  refs_fields[OF refs_setters(1)]
  refs_fields[OF refs_setters(2)]
  refs_fields[OF refs_setters(3)]
  refs_fields[OF refs_setters(4)]
  refs_fields[OF refs_setters(5)]
  refs_fields[OF refs_setters(6)]

section \<open>One socket\<close>

definition socketBusy :: "socket \<Rightarrow> bool" where
  "socketBusy w \<longleftrightarrow> liveSocket w \<or> so_handlers w"

text \<open>A socket that is connecting or open, or whose handlers are attached, is the one the hook holds; an unmounted hook
  holds none.\<close>

definition heldIs :: "nat option \<Rightarrow> nat \<Rightarrow> bool" where
  "heldIs held i \<longleftrightarrow> held = Some i"

definition socketsTracked :: "hook \<Rightarrow> bool" where
  "socketsTracked h \<longleftrightarrow>
     (\<forall>i < length (ap_sockets h). socketBusy (ap_sockets h ! i) \<longrightarrow> heldIs (ap_ws h) i) \<and>
     (\<forall>i. heldIs (ap_ws h) i \<longrightarrow> i < length (ap_sockets h) \<and> ap_alive h)"

lemma heldIs_simps [simp]: "\<not> heldIs None i" "heldIs (Some j) i \<longleftrightarrow> j = i"
  by (auto simp: heldIs_def)

lemma socketsTracked_cong:
  "ap_ws h' = ap_ws h \<Longrightarrow> ap_sockets h' = ap_sockets h \<Longrightarrow> ap_alive h' = ap_alive h \<Longrightarrow> socketsTracked h' = socketsTracked h"
  by (simp add: socketsTracked_def)

lemma dropped_idle [simp]: "\<not> socketBusy (dropped w)"
  by (simp add: socketBusy_def dropped_def liveSocket_def)

lemma dropSocket_fields [simp]:
  "ap_ws (dropSocket h) = None" "ap_alive (dropSocket h) = ap_alive h" "ap_aborted (dropSocket h) = ap_aborted h"
  "ap_abort (dropSocket h) = ap_abort h" "ap_startAbort (dropSocket h) = ap_startAbort h"
  "ap_creating (dropSocket h) = ap_creating h" "ap_runs (dropSocket h) = ap_runs h" "ap_vpToken (dropSocket h) = ap_vpToken h"
  "ap_sent (dropSocket h) = ap_sent h" "ap_recorded (dropSocket h) = ap_recorded h"
  "length (ap_sockets (dropSocket h)) = length (ap_sockets h)" "ap_calls (dropSocket h) = ap_calls h"
  by (simp_all add: dropSocket_def split: option.split)

lemma dropSocket_idle:
  assumes "socketsTracked h" "i < length (ap_sockets h)"
  shows "\<not> socketBusy (ap_sockets (dropSocket h) ! i)"
proof (cases "ap_ws h = Some i")
  case True
  then show ?thesis using assms(2) by (simp add: dropSocket_def)
next
  case False
  then have "\<not> socketBusy (ap_sockets h ! i)" using assms unfolding socketsTracked_def heldIs_def by blast
  then show ?thesis using False by (cases "ap_ws h") (simp_all add: dropSocket_def)
qed

lemma dropSocket_tracked: "socketsTracked h \<Longrightarrow> socketsTracked (dropSocket h)"
  using dropSocket_idle[of h] by (simp add: socketsTracked_def[of "dropSocket h"])

lemma controllers_fields [simp]:
  "ap_ws (abortCtl c h) = ap_ws h" "ap_sockets (abortCtl c h) = ap_sockets h" "ap_alive (abortCtl c h) = ap_alive h"
  "ap_abort (abortCtl c h) = ap_abort h" "ap_startAbort (abortCtl c h) = ap_startAbort h"
  "ap_creating (abortCtl c h) = ap_creating h" "ap_runs (abortCtl c h) = ap_runs h" "ap_vpToken (abortCtl c h) = ap_vpToken h"
  "ap_sent (abortCtl c h) = ap_sent h" "ap_recorded (abortCtl c h) = ap_recorded h"
  "length (ap_aborted (abortCtl c h)) = length (ap_aborted h)" "ap_calls (abortCtl c h) = ap_calls h"
  by (simp_all add: abortCtl_def split: option.split)

lemma clearReconnectTimer_fields [simp]:
  "ap_ws (clearReconnectTimer h) = ap_ws h" "ap_sockets (clearReconnectTimer h) = ap_sockets h"
  "ap_alive (clearReconnectTimer h) = ap_alive h" "ap_aborted (clearReconnectTimer h) = ap_aborted h"
  "ap_abort (clearReconnectTimer h) = ap_abort h" "ap_startAbort (clearReconnectTimer h) = ap_startAbort h"
  "ap_creating (clearReconnectTimer h) = ap_creating h" "ap_runs (clearReconnectTimer h) = ap_runs h"
  "ap_sent (clearReconnectTimer h) = ap_sent h" "ap_recorded (clearReconnectTimer h) = ap_recorded h"
  "ap_calls (clearReconnectTimer h) = ap_calls h"
  by (simp_all add: clearReconnectTimer_def split: option.split)

lemma sendOverWs_fields [simp]:
  "ap_ws (sendOverWs m h) = ap_ws h" "ap_sockets (sendOverWs m h) = ap_sockets h" "ap_alive (sendOverWs m h) = ap_alive h"
  "ap_aborted (sendOverWs m h) = ap_aborted h" "ap_abort (sendOverWs m h) = ap_abort h"
  "ap_startAbort (sendOverWs m h) = ap_startAbort h" "ap_creating (sendOverWs m h) = ap_creating h"
  "ap_runs (sendOverWs m h) = ap_runs h" "ap_vpToken (sendOverWs m h) = ap_vpToken h"
  "ap_recorded (sendOverWs m h) = ap_recorded h" "ap_calls (sendOverWs m h) = ap_calls h"
  by (simp_all add: sendOverWs_def split: option.split)

text \<open>\<open>cleanup\<close> drops the socket, which is idle from then on, even when the hook was unmounted just before.\<close>

lemma cleanup_fields [simp]:
  "ap_ws (cleanup h) = None" "ap_alive (cleanup h) = ap_alive h" "ap_abort (cleanup h) = None"
  "ap_startAbort (cleanup h) = None" "ap_creating (cleanup h) = ap_creating h" "ap_runs (cleanup h) = ap_runs h"
  "ap_vpToken (cleanup h) = None" "ap_sent (cleanup h) = ap_sent h" "ap_recorded (cleanup h) = ap_recorded h"
  "length (ap_sockets (cleanup h)) = length (ap_sockets h)" "length (ap_aborted (cleanup h)) = length (ap_aborted h)"
  "ap_calls (cleanup h) = ap_calls h"
  by (simp_all add: cleanup_def Let_def)

lemma dropSocket_sockets_cong:
  "ap_ws h' = ap_ws h \<Longrightarrow> ap_sockets h' = ap_sockets h \<Longrightarrow> ap_sockets (dropSocket h') = ap_sockets (dropSocket h)"
  by (simp add: dropSocket_def split: option.split)

lemma cleanup_sockets: "ap_sockets (cleanup h) = ap_sockets (dropSocket h)"
  unfolding cleanup_def Let_def by (rule dropSocket_sockets_cong) simp_all

lemma cleanup_tracked: "socketsTracked h \<Longrightarrow> socketsTracked (cleanup (h\<lparr>ap_alive := b\<rparr>))"
proof -
  have "ap_sockets (dropSocket (h\<lparr>ap_alive := b\<rparr>)) = ap_sockets (dropSocket h)" by (rule dropSocket_sockets_cong) simp_all
  then show "socketsTracked h \<Longrightarrow> ?thesis"
    using dropSocket_idle[of h] by (simp add: socketsTracked_def[of "cleanup _"] cleanup_sockets)
qed

lemma cleanup_tracked_mounted: "socketsTracked h \<Longrightarrow> socketsTracked (cleanup h)"
  using cleanup_tracked[of h "ap_alive h"] by simp

lemma connectWebSocket_tracked: "socketsTracked h \<Longrightarrow> socketsTracked (connectWebSocket E s h)"
  using dropSocket_idle[of h]
  by (simp add: connectWebSocket_def Let_def socketsTracked_def[of "_\<lparr>ap_ws := _, ap_sockets := _\<rparr>"] nth_append less_Suc_eq)

text \<open>The operations that leave the sockets alone.\<close>

definition sameSockets :: "hook \<Rightarrow> hook \<Rightarrow> bool" where
  "sameSockets h h' \<longleftrightarrow> ap_ws h' = ap_ws h \<and> ap_sockets h' = ap_sockets h \<and> ap_alive h' = ap_alive h"

lemma sameSockets_tracked: "sameSockets h h' \<Longrightarrow> socketsTracked h' = socketsTracked h"
  by (simp add: sameSockets_def socketsTracked_def)

lemmas run_ops = updRun_def finishRun_def freshSignal_def startAttempt_def failRun_def rejectRun_def provingTimeout_def
  endCreating_def attestProgressed_def Let_def

lemma sameSockets_ops:
  "sameSockets h (finishRun n h)" "sameSockets h (startAttempt n i h)" "sameSockets h (failRun n e h)"
  "sameSockets h (rejectRun n e h)" "sameSockets h (provingTimeout n h)" "sameSockets h (endCreating k h)"
  "sameSockets h (attestProgressed ev h)" "sameSockets h (onMessage frame h)" "sameSockets h (onClose s h)"
  "sameSockets h (sessionFailed k e h)" "sameSockets h (setOverride q c h)" "sameSockets h (sendOverWs m h)"
  by (simp_all add: sameSockets_def run_ops onMessage_def onRequest_def onServerError_def onClose_def sessionFailed_def
      split: option.split)

lemma sameSockets_onOpen: "sameSockets h (onOpen i h)"
  by (simp add: sameSockets_def onOpen_def Let_def split: option.split)

lemma sameSockets_approve: "sameSockets h (approve h)"
  using sameSockets_ops(2,3) by (simp add: approve_def Let_def sameSockets_def split: sum.split)

lemma setSocketState_tracked:
  assumes "socketsTracked h" "hasSocket i sts h" "st = CLOSED \<or> set sts \<subseteq> {CONNECTING}"
  shows "socketsTracked (setSocketState i st h)"
proof -
  have "socketBusy ((ap_sockets h ! i)\<lparr>so_state := st\<rparr>) \<Longrightarrow> socketBusy (ap_sockets h ! i)"
    using assms(2,3) by (auto simp: socketBusy_def liveSocket_def connected_def hasSocket_def)
  then have "socketBusy ((ap_sockets h)[i := (ap_sockets h ! i)\<lparr>so_state := st\<rparr>] ! k) \<Longrightarrow> socketBusy (ap_sockets h ! k)"
    if "k < length (ap_sockets h)" for k
    using that by (cases "k = i") simp_all
  then show ?thesis using assms(1) by (simp add: socketsTracked_def setSocketState_def)
qed

lemma socketsTracked_dead:
  "socketsTracked h \<Longrightarrow> socketsTracked (h\<lparr>ap_timers := ts\<rparr>)" "socketsTracked h \<Longrightarrow> socketsTracked (h\<lparr>ap_reconnectAttempt := n\<rparr>)"
  by (simp_all add: socketsTracked_def)

lemma handled_tracked: "(\<And>h. sameSockets h (f h)) \<Longrightarrow> socketsTracked h \<Longrightarrow> socketsTracked (handled i f h)"
  using sameSockets_tracked by (auto simp: handled_def)

lemma completeRun_tracked: "socketsTracked h \<Longrightarrow> socketsTracked (completeRun n p h)"
  unfolding completeRun_def Let_def
  by (subst sameSockets_tracked[OF sameSockets_ops(1)], rule cleanup_tracked_mounted) (simp add: socketsTracked_def)

lemma sessionCreated_tracked: "socketsTracked h \<Longrightarrow> socketsTracked (sessionCreated E k s h)"
  unfolding sessionCreated_def Let_def sameSockets_tracked[OF sameSockets_ops(6)]
  using connectWebSocket_tracked socketsTracked_cong[of "setSessionQr _ (h\<lparr>ap_creating := _, ap_sessionId := _\<rparr>)" h]
    socketsTracked_cong[of "h\<lparr>ap_creating := _\<rparr>" h] by simp

lemma teardown_tracked:
  "socketsTracked h \<Longrightarrow> socketsTracked (startPresentation h)" "socketsTracked h \<Longrightarrow> socketsTracked (deny h)"
  "socketsTracked h \<Longrightarrow> socketsTracked (cancel h)"
  using cleanup_tracked_mounted[of h] cleanup_tracked_mounted[of "sendOverWs _ h"] sameSockets_tracked[OF sameSockets_ops(12)]
  by (simp_all add: startPresentation_def deny_def cancel_def Let_def socketsTracked_def)

lemma hookStep_tracked: "socketsTracked h \<Longrightarrow> socketsTracked (hookStep E h e)"
proof (cases e)
  case (SocketOpens i)
  then show "socketsTracked h \<Longrightarrow> ?thesis"
    using setSocketState_tracked[of h i "[CONNECTING]" OPEN] handled_tracked[OF sameSockets_onOpen] by simp
next
  case (SocketCloses i)
  then show "socketsTracked h \<Longrightarrow> ?thesis"
    using setSocketState_tracked[of h i _ CLOSED] handled_tracked[OF sameSockets_ops(9)] by simp
next
  case (TimerFires t)
  then show "socketsTracked h \<Longrightarrow> ?thesis"
    using connectWebSocket_tracked[OF socketsTracked_dead(1)] by (simp split: option.split)
next
  case WakeUp
  then show "socketsTracked h \<Longrightarrow> ?thesis"
    using connectWebSocket_tracked[OF socketsTracked_dead(2)] by (simp add: maybeReconnect_def split: option.split)
next
  case Unmount
  then show "socketsTracked h \<Longrightarrow> ?thesis" using cleanup_tracked[of h False] by simp
next
  case Rendered
  then show "socketsTracked h \<Longrightarrow> ?thesis"
    using socketsTracked_cong[of "h\<lparr>ap_stateRef := _, ap_shownRequest := _, ap_shownOverrides := _\<rparr>" h] by simp
qed (simp_all add: teardown_tracked sessionCreated_tracked completeRun_tracked handled_tracked[OF sameSockets_ops(8)]
  sameSockets_tracked[OF sameSockets_ops(2)] sameSockets_tracked[OF sameSockets_ops(4)] sameSockets_tracked[OF sameSockets_ops(5)]
  sameSockets_tracked[OF sameSockets_ops(7)] sameSockets_tracked[OF sameSockets_ops(10)] sameSockets_tracked[OF sameSockets_ops(11)]
  sameSockets_tracked[OF sameSockets_approve])

interpretation hook_sockets: event_machine "hookStep E" socketsTracked for E
  by unfold_locales (rule hookStep_tracked)

section \<open>Signals\<close>

text \<open>A controller that is not aborted and whose signal is still in use, by a \<open>createSession\<close> call or by an attempt of the
  wallet, is one that \<open>cleanup\<close> can reach.\<close>

definition signalsHeld :: "hook \<Rightarrow> bool" where
  "signalsHeld h \<longleftrightarrow>
     (\<forall>k \<in> set (ap_creating h). k < length (ap_aborted h) \<and> (\<not> ap_aborted h ! k \<longrightarrow> heldIs (ap_startAbort h) k)) \<and>
     (\<forall>r \<in> set (ap_runs h). \<forall>s. ar_phase r = InAttempt s \<longrightarrow>
        s < length (ap_aborted h) \<and> (\<not> ap_aborted h ! s \<longrightarrow> heldIs (ap_abort h) s))"

definition allAborted :: "hook \<Rightarrow> bool" where
  "allAborted h \<longleftrightarrow>
     (\<forall>k \<in> set (ap_creating h). k < length (ap_aborted h) \<and> ap_aborted h ! k) \<and>
     (\<forall>r \<in> set (ap_runs h). \<forall>s. ar_phase r = InAttempt s \<longrightarrow> s < length (ap_aborted h) \<and> ap_aborted h ! s)"

definition sameSignals :: "hook \<Rightarrow> hook \<Rightarrow> bool" where
  "sameSignals h h' \<longleftrightarrow>
     ap_aborted h' = ap_aborted h \<and> ap_abort h' = ap_abort h \<and> ap_startAbort h' = ap_startAbort h \<and>
     ap_creating h' = ap_creating h \<and> ap_runs h' = ap_runs h \<and> ap_calls h' = ap_calls h"

lemma sameSignals_held: "sameSignals h h' \<Longrightarrow> signalsHeld h' = signalsHeld h"
  by (simp add: sameSignals_def signalsHeld_def)

lemma sameSignals_aborted: "sameSignals h h' \<Longrightarrow> allAborted h' = allAborted h"
  by (simp add: sameSignals_def allAborted_def)

lemma sameSignals_ops:
  "sameSignals h (onMessage frame h)" "sameSignals h (onClose s h)" "sameSignals h (setOverride q c h)"
  "sameSignals h (sendOverWs m h)" "sameSignals h (attestProgressed ev h)" "sameSignals h (connectWebSocket E s h)"
  "sameSignals h (setSocketState i st h)"
  by (simp_all add: sameSignals_def run_ops onMessage_def onRequest_def onServerError_def onClose_def connectWebSocket_def
      setSocketState_def split: option.split)

lemma sameSignals_onOpen: "sameSignals h (onOpen i h)"
  by (simp add: sameSignals_def onOpen_def Let_def split: option.split)

lemma sameSignals_trans: "sameSignals h h' \<Longrightarrow> sameSignals h' h'' \<Longrightarrow> sameSignals h h''"
  by (simp add: sameSignals_def)

lemma sameSignals_handled: "(\<And>h. sameSignals h (f h)) \<Longrightarrow> sameSignals h (handled i f h)"
  by (simp add: handled_def sameSignals_def)

lemma allAborted_held: "allAborted h \<Longrightarrow> signalsHeld h"
  by (simp add: allAborted_def signalsHeld_def)

lemma abortCtl_nth:
  "s < length (ap_aborted h) \<Longrightarrow> ap_aborted (abortCtl c h) ! s \<longleftrightarrow> ap_aborted h ! s \<or> heldIs c s"
  by (cases c; cases "c = Some s") (auto simp: abortCtl_def nth_list_update)

lemma cleanup_aborted:
  assumes "s < length (ap_aborted h)"
  shows "ap_aborted (cleanup h) ! s \<longleftrightarrow> ap_aborted h ! s \<or> heldIs (ap_startAbort h) s \<or> heldIs (ap_abort h) s"
  using assms by (simp add: cleanup_def Let_def abortCtl_nth disj_ac)

lemma cleanup_allAborted: "signalsHeld h \<Longrightarrow> allAborted (cleanup h)"
  by (auto simp: signalsHeld_def allAborted_def cleanup_aborted)

text \<open>A run that leaves its attempt, or finishes, holds no new signal.\<close>

lemma in_updRun:
  assumes "r \<in> set (ap_runs (updRun n f h))" "n < length (ap_runs h)"
  shows "\<exists>r0 \<in> set (ap_runs h). r = r0 \<or> r = f r0"
proof -
  have "r \<in> insert (f (ap_runs h ! n)) (set (ap_runs h))"
    using assms(1) set_update_subset_insert[of "ap_runs h" n "f (ap_runs h ! n)"] unfolding updRun_def by auto
  then show ?thesis using nth_mem[OF assms(2)] by blast
qed

lemma updRun_fields [simp]:
  "ap_aborted (updRun n f h) = ap_aborted h" "ap_abort (updRun n f h) = ap_abort h"
  "ap_startAbort (updRun n f h) = ap_startAbort h" "ap_creating (updRun n f h) = ap_creating h"
  by (simp_all add: updRun_def)

lemma updRun_held:
  assumes "\<And>r s. ar_phase (f r) = InAttempt s \<Longrightarrow> ar_phase r = InAttempt s" "signalsHeld h" "n < length (ap_runs h)"
  shows "signalsHeld (updRun n f h)"
proof -
  have "s < length (ap_aborted h) \<and> (\<not> ap_aborted h ! s \<longrightarrow> heldIs (ap_abort h) s)"
    if upd: "r \<in> set (ap_runs (updRun n f h))" "ar_phase r = InAttempt s" for r s
  proof -
    obtain r0 where "r0 \<in> set (ap_runs h)" "ar_phase r0 = InAttempt s"
      using in_updRun[OF upd(1) assms(3)] upd(2) assms(1) by blast
    then show ?thesis using assms(2) unfolding signalsHeld_def by blast
  qed
  then show ?thesis using assms(2) by (simp add: signalsHeld_def)
qed

lemma freshSignal_held:
  assumes "signalsHeld h" "n < length (ap_runs h)"
  shows "signalsHeld (startAttempt n i h)"
proof -
  let ?A = "ap_aborted (abortCtl (ap_abort h) h)"
  have "s < length ?A \<and> ?A ! s" if "r \<in> set (ap_runs h)" "ar_phase r = InAttempt s" for r s
    using assms(1) that by (auto simp: signalsHeld_def abortCtl_nth)
  moreover have "k < length ?A \<and> (\<not> ?A ! k \<longrightarrow> heldIs (ap_startAbort h) k)" if "k \<in> set (ap_creating h)" for k
    using assms(1) that by (auto simp: signalsHeld_def abortCtl_nth)
  ultimately show ?thesis
    unfolding signalsHeld_def
    by (auto simp: startAttempt_def freshSignal_def updRun_def Let_def nth_append less_Suc_eq
        dest!: set_update_subset_insert[THEN subsetD])
qed

lemma finishRun_held: "signalsHeld h \<Longrightarrow> n < length (ap_runs h) \<Longrightarrow> signalsHeld (finishRun n h)"
  unfolding finishRun_def by (rule updRun_held) simp_all

lemma failRun_held:
  assumes "signalsHeld h" "n < length (ap_runs h)"
  shows "signalsHeld (failRun n e h)"
proof -
  have "sameSignals h (setState ErrorState (setError t (sendOverWs proofFailed h)))" for t by (simp add: sameSignals_def)
  then show ?thesis
    using assms sameSignals_held[of h] unfolding failRun_def by (auto intro!: finishRun_held)
qed

lemma rejectRun_held: "signalsHeld h \<Longrightarrow> n < length (ap_runs h) \<Longrightarrow> signalsHeld (rejectRun n e h)"
  using updRun_held[of "\<lambda>r. r\<lparr>ar_phase := InDelay\<rparr>" h n] by (simp add: rejectRun_def failRun_held)

lemma approve_held:
  assumes "signalsHeld h"
  shows "signalsHeld (approve h)"
proof -
  have "signalsHeld ((setAttestProgress p (setState st h))\<lparr>ap_timedOut := b, ap_runs := ap_runs h @ [r]\<rparr>)"
    if "ar_phase r = InDelay" for p st b r
    using assms that by (simp add: signalsHeld_def)
  then show ?thesis
    using assms sameSignals_held[of h "setState ErrorState (setError (Some _) h)"]
    by (auto simp: approve_def Let_def sameSignals_def intro!: failRun_held freshSignal_held split: sum.split)
qed

lemma completeRun_held:
  assumes "signalsHeld h" "n < length (ap_runs h)"
  shows "signalsHeld (completeRun n p h)"
proof -
  have "signalsHeld (cleanup h')" if "sameSignals h h'" for h'
    using that assms(1) cleanup_allAborted allAborted_held by (simp add: sameSignals_held)
  then show ?thesis
    unfolding completeRun_def Let_def using assms(2) by (intro finishRun_held) (simp_all add: sameSignals_def)
qed

lemma provingTimeout_held:
  assumes "signalsHeld h" "n < length (ap_runs h)"
  shows "signalsHeld (provingTimeout n h)"
proof -
  have "signalsHeld (updRun n (\<lambda>r. r\<lparr>ar_timer := False\<rparr>) h)" using assms by (intro updRun_held) simp_all
  then show ?thesis by (auto simp: provingTimeout_def signalsHeld_def abortCtl_nth)
qed

lemma startPresentation_held:
  assumes "signalsHeld h"
  shows "signalsHeld (startPresentation h)"
  using allAborted_held[OF cleanup_allAborted[OF assms]] cleanup_allAborted[OF assms]
  by (auto simp: startPresentation_def Let_def signalsHeld_def[of "_\<lparr>ap_aborted := _, ap_startAbort := _, ap_creating := _\<rparr>"]
      allAborted_def nth_append less_Suc_eq)

lemma endCreating_held:
  assumes "signalsHeld h" "sameSignals (h\<lparr>ap_creating := removeAll k (ap_creating h)\<rparr>) h'"
  shows "signalsHeld (endCreating k h')"
proof -
  have "heldIs (ap_startAbort (endCreating k h')) j" if "heldIs (ap_startAbort h) j" "j \<noteq> k" for j
    using that assms(2) by (auto simp: endCreating_def sameSignals_def heldIs_def)
  then show ?thesis using assms by (auto simp: signalsHeld_def sameSignals_def endCreating_def)
qed

lemma sessionCreated_held: "signalsHeld h \<Longrightarrow> signalsHeld (sessionCreated E k s h)"
  unfolding sessionCreated_def Let_def
  by (rule endCreating_held, assumption) (use sameSignals_ops(6) in \<open>simp add: sameSignals_def\<close>)

lemma sessionFailed_held: "signalsHeld h \<Longrightarrow> signalsHeld (sessionFailed k e h)"
  unfolding sessionFailed_def Let_def by (rule endCreating_held, assumption) (simp add: sameSignals_def)

lemma teardown_aborts:
  "signalsHeld h \<Longrightarrow> allAborted (deny h)" "signalsHeld h \<Longrightarrow> allAborted (cancel h)"
  "signalsHeld h \<Longrightarrow> allAborted (cleanup (h\<lparr>ap_alive := False\<rparr>))"
  using cleanup_allAborted[of "sendOverWs _ h"] cleanup_allAborted[of "h\<lparr>ap_alive := False\<rparr>"] sameSignals_held[OF sameSignals_ops(4)]
    sameSignals_held[of h "h\<lparr>ap_alive := False\<rparr>"]
  by (simp_all add: deny_def cancel_def sameSignals_def allAborted_def)

lemma hookStep_same_signals:
  "sameSignals h (hookStep E h (SocketOpens i))" "sameSignals h (hookStep E h (SocketCloses i))"
  "sameSignals h (hookStep E h (SocketMessage i frame))" "sameSignals h (hookStep E h (TimerFires t))"
  "sameSignals h (hookStep E h WakeUp)" "sameSignals h (hookStep E h Rendered)"
  "sameSignals h (hookStep E h (SetOverride q c))" "sameSignals h (hookStep E h (Progress n ev))"
proof -
  have refl: "sameSignals h h" by (simp add: sameSignals_def)
  note h = sameSignals_handled[OF sameSignals_onOpen] sameSignals_handled[OF sameSignals_ops(1)] sameSignals_handled[OF sameSignals_ops(2)]
  show "sameSignals h (hookStep E h (SocketOpens i))" "sameSignals h (hookStep E h (SocketCloses i))"
    "sameSignals h (hookStep E h (SocketMessage i frame))"
    using refl h sameSignals_trans[OF sameSignals_ops(7) h(1)] sameSignals_trans[OF sameSignals_ops(7) h(3)] by simp_all
  have c: "sameSignals h (connectWebSocket E s h')" if "sameSignals h h'" for s h'
    using that sameSignals_trans sameSignals_ops(6) by blast
  show "sameSignals h (hookStep E h (TimerFires t))" "sameSignals h (hookStep E h WakeUp)"
    using refl by (auto simp: maybeReconnect_def intro!: c split: option.split) (simp_all add: sameSignals_def)
  show "sameSignals h (hookStep E h Rendered)" "sameSignals h (hookStep E h (SetOverride q c))"
    "sameSignals h (hookStep E h (Progress n ev))"
    using refl sameSignals_ops(3,5) by (simp_all add: sameSignals_def)
qed

lemma hookStep_held: "signalsHeld h \<Longrightarrow> signalsHeld (hookStep E h e)"
proof -
  assume "signalsHeld h"
  then show ?thesis
    using hookStep_same_signals[THEN sameSignals_held, of E h] allAborted_held[OF teardown_aborts(1)[of h]]
      allAborted_held[OF teardown_aborts(2)[of h]] allAborted_held[OF teardown_aborts(3)[of h]]
    by (cases e) (simp_all add: startPresentation_held sessionCreated_held sessionFailed_held approve_held completeRun_held
      rejectRun_held freshSignal_held provingTimeout_held attempting_def delayed_def del: hookStep.simps(4-10,12))
qed

interpretation hook_signals: event_machine "hookStep E" signalsHeld for E
  by unfold_locales (rule hookStep_held)

section \<open>Answers\<close>

definition isResponse :: "nat \<times> wsMsg \<Rightarrow> bool" where
  "isResponse x \<longleftrightarrow> wm_type (snd x) = ''response''"

definition responses :: "hook \<Rightarrow> (nat \<times> wsMsg) list" where
  "responses h = filter isResponse (ap_sent h)"

definition finishedRuns :: "hook \<Rightarrow> nat" where
  "finishedRuns h = (\<Sum>r\<leftarrow>ap_runs h. if ar_phase r = Finished then 1 else 0)"

definition approvedRequests :: "hook \<Rightarrow> json list" where
  "approvedRequests h = map ar_request (ap_runs h)"

text \<open>The proof is never kept between events; what was sent as a response was recorded, for a request that was approved,
  and no approval is answered twice.\<close>

definition answersOk :: "hook \<Rightarrow> bool" where
  "answersOk h \<longleftrightarrow>
     ap_vpToken h = None \<and>
     (\<forall>x \<in> set (responses h). \<exists>(q, p) \<in> set (ap_recorded h). snd x = response (responseJson q p)) \<and>
     fst ` set (ap_recorded h) \<subseteq> set (approvedRequests h) \<and>
     (\<forall>q \<in> set (approvedRequests h). \<not> falsy (Some q)) \<and>
     length (responses h) \<le> length (ap_recorded h) \<and> length (ap_recorded h) \<le> finishedRuns h"

lemma answersOk_mono:
  assumes "answersOk h" "ap_vpToken h' = None" "responses h' = responses h" "ap_recorded h' = ap_recorded h"
    "approvedRequests h' = approvedRequests h" "finishedRuns h \<le> finishedRuns h'"
  shows "answersOk h'"
  using assms by (simp add: answersOk_def)

lemma sum_list_map_update:
  fixes g :: "'a \<Rightarrow> nat"
  shows "n < length xs \<Longrightarrow> sum_list (map g (xs[n := y])) + g (xs ! n) = sum_list (map g xs) + g y"
proof (induction xs arbitrary: n)
  case (Cons x xs)
  then show ?case by (cases n) (simp_all add: add.assoc)
qed simp

lemma finishedRuns_updRun:
  assumes "n < length (ap_runs h)"
  shows "finishedRuns (updRun n f h) + (if ar_phase (ap_runs h ! n) = Finished then 1 else 0)
       = finishedRuns h + (if ar_phase (f (ap_runs h ! n)) = Finished then 1 else 0)"
  using sum_list_map_update[OF assms, of "\<lambda>r. if ar_phase r = Finished then 1 else 0" "f (ap_runs h ! n)"]
  by (simp add: finishedRuns_def updRun_def del: sum_list_eq_0_iff)

lemma updRun_requests: "(\<And>r. ar_request (f r) = ar_request r) \<Longrightarrow> approvedRequests (updRun n f h) = approvedRequests h"
  using list_update_id[of "map ar_request (ap_runs h)" n]
  by (cases "n < length (ap_runs h)") (simp_all add: approvedRequests_def updRun_def map_update list_update_beyond)

lemma updRun_keeps [simp]:
  "ap_vpToken (updRun n f h) = ap_vpToken h" "responses (updRun n f h) = responses h" "ap_recorded (updRun n f h) = ap_recorded h"
  by (simp_all add: updRun_def responses_def)

lemma updRun_answers:
  assumes "answersOk h" "n < length (ap_runs h)" "\<And>r. ar_request (f r) = ar_request r"
    "ar_phase (ap_runs h ! n) = Finished \<Longrightarrow> ar_phase (f (ap_runs h ! n)) = Finished"
  shows "answersOk (updRun n f h)"
proof (rule answersOk_mono[OF assms(1)])
  show "ap_vpToken (updRun n f h) = None" using assms(1) by (simp add: answersOk_def)
  show "finishedRuns h \<le> finishedRuns (updRun n f h)"
    using finishedRuns_updRun[OF assms(2), of f] assms(4) by (simp split: if_splits)
qed (simp_all add: updRun_requests assms(3))

text \<open>Steps that neither run nor answer anything.\<close>

definition sameAnswers :: "hook \<Rightarrow> hook \<Rightarrow> bool" where
  "sameAnswers h h' \<longleftrightarrow>
     (ap_vpToken h = None \<longrightarrow> ap_vpToken h' = None \<and> responses h' = responses h) \<and>
     ap_recorded h' = ap_recorded h \<and> ap_runs h' = ap_runs h"

lemma sameAnswers_ok: "answersOk h \<Longrightarrow> sameAnswers h h' \<Longrightarrow> answersOk h'"
  by (rule answersOk_mono, assumption) (auto simp: sameAnswers_def answersOk_def approvedRequests_def finishedRuns_def)

lemma sameAnswers_trans: "sameAnswers h h' \<Longrightarrow> sameAnswers h' h'' \<Longrightarrow> sameAnswers h h''"
  by (simp add: sameAnswers_def)

lemma sendOverWs_responses: "wm_type m \<noteq> ''response'' \<Longrightarrow> responses (sendOverWs m h) = responses h"
  by (simp add: responses_def sendOverWs_def isResponse_def split: option.split)

lemma sameAnswers_ops:
  "sameAnswers h (onMessage frame h)" "sameAnswers h (onClose s h)" "sameAnswers h (setOverride q c h)"
  "sameAnswers h (sendOverWs proofFailed h)" "sameAnswers h (attestProgressed ev h)" "sameAnswers h (connectWebSocket E s h)"
  "sameAnswers h (setSocketState i st h)" "sameAnswers h (endCreating k h)" "sameAnswers h (cleanup h)"
  "sameAnswers h (startPresentation h)" "sameAnswers h (sessionFailed k e h)"
  by (simp_all add: sameAnswers_def responses_def[of "_ :: hook"] endCreating_def attestProgressed_def onMessage_def onRequest_def onServerError_def
      onClose_def connectWebSocket_def setSocketState_def sessionFailed_def startPresentation_def Let_def
      sendOverWs_responses[unfolded responses_def] proofFailed_def split: option.split)

lemma sameAnswers_onOpen: "sameAnswers h (onOpen i h)"
  by (simp add: sameAnswers_def onOpen_def Let_def responses_def split: option.split)

lemma sameAnswers_handled: "(\<And>h. sameAnswers h (f h)) \<Longrightarrow> sameAnswers h (handled i f h)"
  by (simp add: handled_def sameAnswers_def)

lemma sameAnswers_sessionCreated: "sameAnswers h (sessionCreated E k s h)"
  unfolding sessionCreated_def Let_def
  by (rule sameAnswers_trans[OF _ sameAnswers_ops(8)])
    (use sameAnswers_ops(6) in \<open>simp add: sameAnswers_def responses_def\<close>)

lemma sameAnswers_teardown:
  "sameAnswers h (deny h)" "sameAnswers h (cancel h)" "sameAnswers h (cleanup (h\<lparr>ap_alive := False\<rparr>))"
  by (simp_all add: sameAnswers_def deny_def cancel_def responses_def sendOverWs_responses[unfolded responses_def] proofFailed_def)

lemma hookStep_same_answers:
  "sameAnswers h (hookStep E h (SocketOpens i))" "sameAnswers h (hookStep E h (SocketCloses i))"
  "sameAnswers h (hookStep E h (SocketMessage i frame))" "sameAnswers h (hookStep E h (TimerFires t))"
  "sameAnswers h (hookStep E h WakeUp)" "sameAnswers h (hookStep E h Rendered)"
proof -
  have refl: "sameAnswers h h" by (simp add: sameAnswers_def)
  note hd = sameAnswers_handled[OF sameAnswers_onOpen] sameAnswers_handled[OF sameAnswers_ops(1)] sameAnswers_handled[OF sameAnswers_ops(2)]
  show "sameAnswers h (hookStep E h (SocketOpens i))" "sameAnswers h (hookStep E h (SocketCloses i))"
    "sameAnswers h (hookStep E h (SocketMessage i frame))"
    using refl hd sameAnswers_trans[OF sameAnswers_ops(7) hd(1)] sameAnswers_trans[OF sameAnswers_ops(7) hd(3)] by simp_all
  have c: "sameAnswers h (connectWebSocket E s h')" if "sameAnswers h h'" for s h'
    using that sameAnswers_trans sameAnswers_ops(6) by blast
  show "sameAnswers h (hookStep E h (TimerFires t))" "sameAnswers h (hookStep E h WakeUp)"
    using refl by (auto simp: maybeReconnect_def intro!: c split: option.split) (simp_all add: sameAnswers_def responses_def)
  show "sameAnswers h (hookStep E h Rendered)" by (simp add: sameAnswers_def responses_def)
qed

lemma finishRun_answers: "answersOk h \<Longrightarrow> n < length (ap_runs h) \<Longrightarrow> answersOk (finishRun n h)"
  unfolding finishRun_def by (rule updRun_answers) simp_all

lemma startAttempt_answers:
  assumes "answersOk h" "delayed n h"
  shows "answersOk (startAttempt n i h)"
proof -
  let ?h = "freshSignal h"
  have "sameAnswers h ?h" by (simp add: freshSignal_def Let_def sameAnswers_def responses_def)
  moreover have "ap_runs ?h = ap_runs h" by (simp add: freshSignal_def Let_def)
  ultimately have "answersOk (updRun n (\<lambda>r. r\<lparr>ar_attempt := i, ar_phase := ph\<rparr>) ?h)" for ph
    using assms sameAnswers_ok by (intro updRun_answers) (auto simp: delayed_def)
  then show ?thesis
    by (rule sameAnswers_ok) (simp add: startAttempt_def Let_def sameAnswers_def responses_def updRun_def)
qed

lemma failRun_answers:
  assumes "answersOk h" "n < length (ap_runs h)"
  shows "answersOk (failRun n e h)"
proof -
  have "answersOk (setState ErrorState (setError t (sendOverWs proofFailed h)))" for t
    using sameAnswers_ok[OF assms(1)] sameAnswers_ops(4)[of h] by (simp add: sameAnswers_def responses_def)
  then show ?thesis using assms unfolding failRun_def by (auto intro!: finishRun_answers)
qed

lemma approve_answers:
  assumes "answersOk h"
  shows "answersOk (approve h)"
proof (cases "falsy (ap_shownRequest h) \<or> ap_ws h = None")
  case True
  have "sameAnswers h (setState ErrorState (setError t h))" for t by (simp add: sameAnswers_def responses_def)
  then show ?thesis using True sameAnswers_ok[OF assms] by (auto simp: approve_def)
next
  case False
  have added: "answersOk (h'\<lparr>ap_timedOut := b, ap_runs := ap_runs h @ [r]\<rparr>)"
    if "\<not> falsy (Some (ar_request r))" "sameAnswers h h'" for r b h'
    using assms that by (auto simp: answersOk_def sameAnswers_def approvedRequests_def finishedRuns_def responses_def)
  have "sameAnswers h (setAttestProgress p (setState st h))" for p st by (simp add: sameAnswers_def responses_def)
  moreover from False have "\<not> falsy (Some (the_or JNull (ap_shownRequest h)))"
    by (cases "ap_shownRequest h") (auto simp: the_or_def)
  ultimately show ?thesis
    using False by (auto simp: approve_def Let_def delayed_def nth_append intro!: failRun_answers startAttempt_answers added split: sum.split)
qed

lemma cleanup_responses [simp]: "responses (cleanup h) = responses h" "responses (setState p h) = responses h"
  by (simp_all add: responses_def)

lemma completeRun_answers:
  assumes "answersOk h" "attempting n h"
  shows "answersOk (completeRun n p h)"
proof -
  let ?q = "ar_request (ap_runs h ! n)" and ?m = "response (responseJson (ar_request (ap_runs h ! n)) p)"
  let ?h = "completeRun n p h"
  have n: "n < length (ap_runs h)" "ar_phase (ap_runs h ! n) \<noteq> Finished"
    using assms(2) by (auto simp: attempting_def split: runPhase.splits)
  have sent: "responses ?h = responses h \<or> (\<exists>i. responses ?h = responses h @ [(i, ?m)])"
    by (simp add: completeRun_def Let_def finishRun_def)
      (simp add: responses_def sendOverWs_def isResponse_def response_def split: option.split)
  have rec: "ap_recorded ?h = ap_recorded h @ [(?q, p)]" "ap_vpToken ?h = None"
    by (simp_all add: completeRun_def Let_def finishRun_def)
  have reqs: "approvedRequests ?h = approvedRequests h"
    by (simp add: completeRun_def Let_def finishRun_def updRun_requests) (simp add: approvedRequests_def)
  have "finishedRuns ?h = Suc (finishedRuns h)"
    using finishedRuns_updRun[OF n(1), of "\<lambda>r. r\<lparr>ar_phase := Finished, ar_timer := False\<rparr>"] n(2)
    by (simp add: completeRun_def Let_def finishRun_def finishedRuns_def updRun_def)
  moreover have "?q \<in> set (approvedRequests h)" using n(1) by (simp add: approvedRequests_def)
  ultimately show ?thesis using assms(1) sent rec reqs unfolding answersOk_def by fastforce
qed

lemma hookStep_answers:
  assumes "answersOk h"
  shows "answersOk (hookStep E h e)"
proof -
  note same = sameAnswers_ok[OF assms]
  have timer: "answersOk (provingTimeout n h)" if "n < length (ap_runs h)" for n
  proof (rule sameAnswers_ok)
    show "answersOk (updRun n (\<lambda>r. r\<lparr>ar_timer := False\<rparr>) h)" using assms that by (intro updRun_answers) simp_all
    show "sameAnswers (updRun n (\<lambda>r. r\<lparr>ar_timer := False\<rparr>) h) (provingTimeout n h)"
      by (simp add: provingTimeout_def sameAnswers_def responses_def)
  qed
  have wait: "answersOk (updRun n (\<lambda>r. r\<lparr>ar_phase := InDelay\<rparr>) h)" if "attempting n h" for n
    using assms that by (intro updRun_answers) (auto simp: attempting_def)
  show ?thesis
    using assms hookStep_same_answers[THEN same]
    by (cases e) (simp_all add: same sameAnswers_ops sameAnswers_sessionCreated sameAnswers_teardown approve_answers completeRun_answers
      startAttempt_answers failRun_answers timer wait rejectRun_def attempting_def del: hookStep.simps(4-9))
qed

interpretation hook_answers: event_machine "hookStep E" answersOk for E
  by unfold_locales (rule hookStep_answers)

section \<open>Attempts\<close>

definition attemptsMade :: "hook \<Rightarrow> nat" where
  "attemptsMade h = (\<Sum>r\<leftarrow>ap_runs h. ar_attempt r + 1)"

definition runOk :: "approval \<Rightarrow> bool" where
  "runOk r \<longleftrightarrow> ar_attempt r < MAX_PRESENT_ATTEMPTS \<and> (ar_phase r = InDelay \<longrightarrow> ar_attempt r + 1 < MAX_PRESENT_ATTEMPTS)"

definition runsOk :: "hook \<Rightarrow> bool" where
  "runsOk h \<longleftrightarrow> (\<forall>r \<in> set (ap_runs h). runOk r) \<and> length (ap_calls h) \<le> attemptsMade h"

definition sameRuns :: "hook \<Rightarrow> hook \<Rightarrow> bool" where
  "sameRuns h h' \<longleftrightarrow> ap_runs h' = ap_runs h \<and> ap_calls h' = ap_calls h"

lemma sameRuns_ok: "runsOk h \<Longrightarrow> sameRuns h h' \<Longrightarrow> runsOk h'"
  by (simp add: runsOk_def sameRuns_def attemptsMade_def)

lemma sameSignals_runs: "sameSignals h h' \<Longrightarrow> sameRuns h h'"
  by (simp add: sameSignals_def sameRuns_def)

lemma sameRuns_ops:
  "sameRuns h (startPresentation h)" "sameRuns h (sessionFailed k e h)" "sameRuns h (deny h)" "sameRuns h (cancel h)"
  "sameRuns h (cleanup (h\<lparr>ap_alive := False\<rparr>))"
  by (simp_all add: sameRuns_def startPresentation_def sessionFailed_def endCreating_def deny_def cancel_def Let_def)

lemma sameRuns_sessionCreated: "sameRuns h (sessionCreated E k s h)"
  using sameSignals_ops(6) by (simp add: sameRuns_def sessionCreated_def endCreating_def sameSignals_def Let_def)

lemma updRun_ok:
  assumes "runsOk h" "n < length (ap_runs h)" "\<And>r. r = ap_runs h ! n \<Longrightarrow> runOk (f r)"
    "length (ap_calls h') + ar_attempt (ap_runs h ! n) \<le> length (ap_calls h) + ar_attempt (f (ap_runs h ! n))"
    "ap_runs h' = ap_runs (updRun n f h)"
  shows "runsOk h'"
proof -
  have "attemptsMade h' + ar_attempt (ap_runs h ! n) = attemptsMade h + ar_attempt (f (ap_runs h ! n))"
    using sum_list_map_update[OF assms(2), of "\<lambda>r. ar_attempt r + 1" "f (ap_runs h ! n)"] assms(5)
    by (simp add: attemptsMade_def updRun_def)
  moreover have "\<forall>r \<in> set (ap_runs h'). runOk r"
    using assms(1,3) set_update_subset_insert[of "ap_runs h" n "f (ap_runs h ! n)"]
    by (auto simp: assms(5) updRun_def runsOk_def)
  ultimately show ?thesis using assms(1,4) by (simp add: runsOk_def)
qed

lemma nth_runOk: "runsOk h \<Longrightarrow> n < length (ap_runs h) \<Longrightarrow> runOk (ap_runs h ! n)"
  by (simp add: runsOk_def)

lemma runOk_upd:
  assumes "runOk r"
  shows "runOk (r\<lparr>ar_phase := Finished, ar_timer := False\<rparr>)" "runOk (r\<lparr>ar_timer := False\<rparr>)"
    "ar_phase r = InDelay \<Longrightarrow> runOk (r\<lparr>ar_attempt := Suc (ar_attempt r), ar_phase := InAttempt s\<rparr>)"
    "retriesAfter (ar_attempt r) e \<Longrightarrow> runOk (r\<lparr>ar_phase := InDelay\<rparr>)"
  using assms by (auto simp: runOk_def MAX_PRESENT_ATTEMPTS_def retriesAfter_def)

lemma finishRun_ok:
  assumes "runsOk h" "sameRuns h h'" "n < length (ap_runs h)"
  shows "runsOk (finishRun n h')"
  by (rule updRun_ok[of h n "\<lambda>r. r\<lparr>ar_phase := Finished, ar_timer := False\<rparr>"])
    (use assms nth_runOk[OF assms(1,3)] in \<open>simp_all add: runOk_upd sameRuns_def finishRun_def updRun_def\<close>)

lemma failRun_ok: "runsOk h \<Longrightarrow> n < length (ap_runs h) \<Longrightarrow> runsOk (failRun n e h)"
  unfolding failRun_def by (rule finishRun_ok) (simp_all add: sameRuns_def)

lemma approve_ok:
  assumes "runsOk h"
  shows "runsOk (approve h)"
proof -
  have "runsOk (h'\<lparr>ap_timedOut := b, ap_runs := ap_runs h @ [r]\<rparr>)"
    if "sameRuns h h'" "ar_attempt r = 0" for h' b r
    using assms that by (auto simp: runsOk_def sameRuns_def attemptsMade_def runOk_def MAX_PRESENT_ATTEMPTS_def)
  then have "runsOk (failRun (length (ap_runs h)) e (h'\<lparr>ap_timedOut := b, ap_runs := ap_runs h @ [r]\<rparr>))"
    if "sameRuns h h'" "ar_attempt r = 0" for h' b r e
    using that by (intro failRun_ok) simp_all
  moreover have "runsOk (startAttempt (length (ap_runs h)) 0 (h'\<lparr>ap_timedOut := b, ap_runs := ap_runs h @ [r]\<rparr>))"
    if "sameRuns h h'" for h' b r
    using assms that
    by (auto simp: startAttempt_def freshSignal_def updRun_def runsOk_def sameRuns_def attemptsMade_def runOk_def
      MAX_PRESENT_ATTEMPTS_def Let_def)
  ultimately show ?thesis
    using sameRuns_ok[OF assms] by (auto simp: approve_def Let_def sameRuns_def split: sum.split)
qed

lemma hookStep_runs:
  assumes "runsOk h"
  shows "runsOk (hookStep E h e)"
proof -
  note same = sameRuns_ok[OF assms]
  have upd: "runsOk (updRun n f h)" if "n < length (ap_runs h)" "runOk (f (ap_runs h ! n))"
      "ar_attempt (f (ap_runs h ! n)) = ar_attempt (ap_runs h ! n)" for n f
    by (rule updRun_ok[of h n f]) (use assms that in \<open>simp_all add: updRun_def\<close>)
  have again: "runsOk (startAttempt n (Suc (ar_attempt (ap_runs h ! n))) h)" if "delayed n h" for n
    by (rule updRun_ok[of h n "\<lambda>r. r\<lparr>ar_attempt := Suc (ar_attempt (ap_runs h ! n)), ar_phase := InAttempt (length (ap_aborted h))\<rparr>"])
      (use that assms nth_runOk[OF assms, of n] in
        \<open>simp_all add: delayed_def startAttempt_def freshSignal_def updRun_def Let_def runOk_upd\<close>)
  have timer: "runsOk (provingTimeout n h)" if "n < length (ap_runs h)" for n
    by (rule sameRuns_ok[OF upd[of n "\<lambda>r. r\<lparr>ar_timer := False\<rparr>"]])
      (use that nth_runOk[OF assms that] in \<open>simp_all add: runOk_upd provingTimeout_def sameRuns_def\<close>)
  have reject: "runsOk (rejectRun n e' h)" if "n < length (ap_runs h)" for n e'
    using that nth_runOk[OF assms that] assms by (simp add: rejectRun_def failRun_ok upd runOk_upd)
  have complete: "runsOk (completeRun n p h)" if "n < length (ap_runs h)" for n p
    unfolding completeRun_def Let_def using that assms by (intro finishRun_ok) (simp_all add: sameRuns_def)
  show ?thesis
    using assms hookStep_same_signals[THEN sameSignals_runs, THEN same]
    by (cases e) (simp_all add: same sameRuns_ops sameRuns_sessionCreated approve_ok again timer reject complete attempting_def
      del: hookStep.simps(4-10,12))
qed

interpretation hook_runs: event_machine "hookStep E" runsOk for E
  by unfold_locales (rule hookStep_runs)

section \<open>A run that outlives its session\<close>

lemma start_facts:
  assumes "ap_alive h"
  shows "length (ap_aborted h) \<in> set (ap_creating (startPresentation h))" "ap_alive (startPresentation h)"
    "\<not> ap_aborted (startPresentation h) ! length (ap_aborted h)" "ap_ws (startPresentation h) = None"
    "length (ap_sockets (startPresentation h)) = length (ap_sockets h)" "ap_runs (startPresentation h) = ap_runs h"
    "ap_sent (startPresentation h) = ap_sent h" "ap_vpToken (startPresentation h) = None"
    "ap_recorded (startPresentation h) = ap_recorded h"
  using assms by (simp_all add: startPresentation_def Let_def nth_append)

lemma created_facts:
  assumes "ap_alive h" "ap_ws h = None" "\<not> ap_aborted h ! k"
  shows "ap_ws (sessionCreated E k s h) = Some (length (ap_sockets h))"
    "ap_sockets (sessionCreated E k s h) = ap_sockets h @ [\<lparr>so_url = getWsBaseUrl E None @ sessionPath s @ ''?role=holder'',
       so_session = s, so_state = CONNECTING, so_handlers = True\<rparr>]"
    "ap_runs (sessionCreated E k s h) = ap_runs h" "ap_sent (sessionCreated E k s h) = ap_sent h"
    "ap_vpToken (sessionCreated E k s h) = ap_vpToken h" "ap_recorded (sessionCreated E k s h) = ap_recorded h"
  using assms
  by (simp_all add: sessionCreated_def endCreating_def connectWebSocket_def reusable_def dropSocket_def Let_def)

lemma startAttempt_fields [simp]:
  "ap_ws (startAttempt n i h) = ap_ws h" "ap_sockets (startAttempt n i h) = ap_sockets h"
  "ap_sent (startAttempt n i h) = ap_sent h" "ap_recorded (startAttempt n i h) = ap_recorded h"
  using sameSockets_ops(2)[of h n i] by (simp_all add: sameSockets_def startAttempt_def freshSignal_def updRun_def Let_def)

lemma startAttempt_run:
  assumes "n < length (ap_runs h)"
  shows "attempting n (startAttempt n i h)" "ar_request (ap_runs (startAttempt n i h) ! n) = ar_request (ap_runs h ! n)"
  using assms by (simp_all add: startAttempt_def freshSignal_def updRun_def attempting_def Let_def)

lemma complete_sent:
  assumes "ap_ws h = Some j"
  shows "ap_sent (completeRun n p h) =
      ap_sent h @ (if so_state (ap_sockets h ! j) = OPEN then [(j, response (responseJson (ar_request (ap_runs h ! n)) p))] else [])"
    "ap_sockets (completeRun n p h) = (ap_sockets h)[j := dropped (ap_sockets h ! j)]"
  using assms by (simp_all add: completeRun_def Let_def finishRun_def updRun_def cleanup_sockets dropSocket_def sendOverWs_def)

lemma open_facts:
  assumes "ap_ws h = Some j" "ap_sockets h = xs @ [w]" "j = length xs" "so_state w = CONNECTING" "so_handlers w" "ap_vpToken h = None"
  shows "ap_ws (hookStep E h (SocketOpens j)) = Some j" "ap_sockets (hookStep E h (SocketOpens j)) = xs @ [w\<lparr>so_state := OPEN\<rparr>]"
    "ap_runs (hookStep E h (SocketOpens j)) = ap_runs h" "ap_sent (hookStep E h (SocketOpens j)) = ap_sent h"
  using assms
  by (simp_all add: hasSocket_def handled_def setSocketState_def onOpen_def nth_append Let_def list_update_append)

lemma fresh_attempt_unaborted:
  "ap_runs h' = ap_runs h \<Longrightarrow> n < length (ap_runs h) \<Longrightarrow>
     \<exists>s. ar_phase (ap_runs (startAttempt n i h') ! n) = InAttempt s \<and> \<not> ap_aborted (startAttempt n i h') ! s"
  by (simp add: startAttempt_def freshSignal_def updRun_def Let_def nth_append)

section \<open>Where answers come from\<close>

text \<open>The history of the hook, read off its events: a request that a socket delivered, the \<open>n\<close>-th approval (from 0) with the
  request that was on the screen, and what the wallet returned for it.\<close>

definition delivered :: "hookEvent list \<Rightarrow> json \<Rightarrow> bool" where
  "delivered es req \<longleftrightarrow> (\<exists>fs i frame gs. es = fs @ SocketMessage i frame # gs \<and> readMessage frame = Some (''request'', Some req))"

definition approvedAs :: "configEnv \<Rightarrow> hookEvent list \<Rightarrow> nat \<Rightarrow> json \<Rightarrow> bool" where
  "approvedAs E es n req \<longleftrightarrow>
     (\<exists>fs gs. es = fs @ Approve # gs \<and> delivered fs req \<and>
        (let h = run_events (hookStep E) usePresentation fs in n = length (ap_runs h) \<and> ap_shownRequest h = Some req))"

definition answeredBy :: "configEnv \<Rightarrow> hookEvent list \<Rightarrow> nat \<times> wsMsg \<Rightarrow> bool" where
  "answeredBy E es x \<longleftrightarrow>
     (\<exists>fs n p gs req. es = fs @ PresentResolves n p # gs \<and> approvedAs E fs n req \<and> snd x = response (responseJson req p) \<and>
        (let h = run_events (hookStep E) usePresentation fs in
         ap_ws h = Some (fst x) \<and> so_state (ap_sockets h ! fst x) = OPEN))"

lemma delivered_append: "delivered es req \<Longrightarrow> delivered (es @ fs) req"
  unfolding delivered_def by (metis append.assoc append_Cons)

lemma approvedAs_append: "approvedAs E es n req \<Longrightarrow> approvedAs E (es @ fs) n req"
  unfolding approvedAs_def by (metis append.assoc append_Cons)

lemma answeredBy_append: "answeredBy E es x \<Longrightarrow> answeredBy E (es @ fs) x"
  unfolding answeredBy_def by (metis append.assoc append_Cons)

subsection \<open>What one event adds\<close>

definition shownIn :: "hook \<Rightarrow> json \<Rightarrow> bool" where
  "shownIn h r \<longleftrightarrow> ap_request h = Some r \<or> ap_shownRequest h = Some r"

lemma request_fields [simp]:
  "ap_request (setState p h) = ap_request h" "ap_request (setError t h) = ap_request h" "ap_request (setSessionQr q h) = ap_request h"
  "ap_request (setAttestProgress a h) = ap_request h" "ap_request (setOverride i c h) = ap_request h"
  "ap_request (dropSocket h) = ap_request h" "ap_shownRequest (dropSocket h) = ap_shownRequest h"
  "ap_request (abortCtl k h) = ap_request h" "ap_shownRequest (abortCtl k h) = ap_shownRequest h"
  "ap_request (clearReconnectTimer h) = ap_request h" "ap_shownRequest (clearReconnectTimer h) = ap_shownRequest h"
  "ap_request (sendOverWs m h) = ap_request h" "ap_shownRequest (sendOverWs m h) = ap_shownRequest h"
  "ap_request (updRun n f h) = ap_request h" "ap_shownRequest (updRun n f h) = ap_shownRequest h"
  by (simp_all add: hook_setters dropSocket_def abortCtl_def clearReconnectTimer_def sendOverWs_def updRun_def split: option.split)

lemma request_fields_ops [simp]:
  "ap_request (cleanup h) = ap_request h" "ap_shownRequest (cleanup h) = ap_shownRequest h"
  "ap_request (connectWebSocket E s h) = ap_request h" "ap_shownRequest (connectWebSocket E s h) = ap_shownRequest h"
  "ap_request (startAttempt n i h) = ap_request h" "ap_shownRequest (startAttempt n i h) = ap_shownRequest h"
  "ap_request (finishRun n h) = ap_request h" "ap_shownRequest (finishRun n h) = ap_shownRequest h"
  "ap_request (failRun n e h) = ap_request h" "ap_shownRequest (failRun n e h) = ap_shownRequest h"
  "ap_request (endCreating k h) = ap_request h" "ap_shownRequest (endCreating k h) = ap_shownRequest h"
  "ap_request (onOpen i h) = ap_request h" "ap_shownRequest (onOpen i h) = ap_shownRequest h"
  "ap_request (onClose s h) = ap_request h" "ap_shownRequest (onClose s h) = ap_shownRequest h"
  by (simp_all add: cleanup_def connectWebSocket_def startAttempt_def freshSignal_def finishRun_def failRun_def endCreating_def
      onOpen_def onClose_def Let_def split: option.split)

lemma request_cleared: "ap_request (setRequest None h) = Some r \<Longrightarrow> ap_request h = Some r"
  by (simp add: setRequest_def react_def split: if_splits)

lemma request_received:
  "ap_request (onMessage frame h) = Some r \<Longrightarrow> ap_request h = Some r \<or> readMessage frame = Some (''request'', Some r)"
  by (auto simp: onMessage_def onRequest_def onServerError_def setRequest_def react_def Let_def split: option.splits if_splits)

lemma shown_received: "ap_shownRequest (onMessage frame h) = ap_shownRequest h"
  by (simp add: onMessage_def onRequest_def onServerError_def Let_def split: option.split)

lemma hookStep_shown:
  assumes "shownIn (hookStep E h e) r"
  shows "shownIn h r \<or> (\<exists>i frame. e = SocketMessage i frame \<and> readMessage frame = Some (''request'', Some r))"
proof (cases e)
  case (SocketMessage i frame)
  then show ?thesis
    using assms request_received[of frame h r] shown_received[of frame h] by (auto simp: shownIn_def handled_def split: if_splits)
qed (use assms in \<open>auto simp: shownIn_def startPresentation_def sessionCreated_def sessionFailed_def handled_def setSocketState_def
      maybeReconnect_def approve_def attestProgressed_def completeRun_def rejectRun_def provingTimeout_def deny_def cancel_def Let_def
      dest!: request_cleared split: if_splits option.splits sum.splits\<close>)

lemma startAttempt_requests [simp]:
  "approvedRequests (startAttempt n i h) = approvedRequests h" "approvedRequests (finishRun n h) = approvedRequests h"
  "approvedRequests (failRun n e h) = approvedRequests h"
proof -
  have upd: "approvedRequests (updRun n f k) = approvedRequests h"
    if "\<And>r. ar_request (f r) = ar_request r" "ap_runs k = ap_runs h" for f k
    using updRun_requests[OF that(1)] that(2) by (simp add: approvedRequests_def)
  show "approvedRequests (startAttempt n i h) = approvedRequests h"
    using upd[of "\<lambda>r. r\<lparr>ar_attempt := i, ar_phase := InAttempt (length (ap_aborted h))\<rparr>" "freshSignal h"]
    by (simp add: startAttempt_def Let_def freshSignal_def) (simp add: approvedRequests_def updRun_def)
  show "approvedRequests (finishRun n h) = approvedRequests h" "approvedRequests (failRun n e h) = approvedRequests h"
    by (simp_all add: finishRun_def failRun_def upd)
qed

text \<open>The guard of \<open>approve\<close>.\<close>

definition accepts :: "hook \<Rightarrow> hookEvent \<Rightarrow> bool" where
  "accepts h e \<longleftrightarrow> e = Approve \<and> ap_alive h \<and> \<not> falsy (ap_shownRequest h) \<and> ap_ws h \<noteq> None"

lemma approvedRequests_cong: "ap_runs h' = ap_runs h \<Longrightarrow> approvedRequests h' = approvedRequests h"
  by (simp add: approvedRequests_def)

lemma hookStep_same_runs: "e \<notin> {Approve} \<Longrightarrow> \<forall>n p. e \<noteq> PresentResolves n p \<Longrightarrow> \<forall>n x. e \<noteq> PresentRejects n x \<Longrightarrow>
    \<forall>n. e \<noteq> DelayDone n \<and> e \<noteq> ProvingTimeout n \<Longrightarrow> sameRuns h (hookStep E h e)"
proof -
  have refl: "sameRuns h h" by (simp add: sameRuns_def)
  show "e \<notin> {Approve} \<Longrightarrow> \<forall>n p. e \<noteq> PresentResolves n p \<Longrightarrow> \<forall>n x. e \<noteq> PresentRejects n x \<Longrightarrow>
      \<forall>n. e \<noteq> DelayDone n \<and> e \<noteq> ProvingTimeout n \<Longrightarrow> ?thesis"
    using hookStep_same_signals[THEN sameSignals_runs, of h E] refl
    by (cases e) (simp_all add: sameRuns_ops sameRuns_sessionCreated del: hookStep.simps(4-10,12))
qed

lemma hookStep_requests:
  "approvedRequests (hookStep E h e) =
     approvedRequests h @ (if accepts h e then [the_or JNull (ap_shownRequest h)] else [])"
proof -
  have plain: ?thesis if "sameRuns h (hookStep E h e)" "e \<noteq> Approve"
    using that by (simp add: sameRuns_def approvedRequests_def accepts_def)
  show ?thesis
  proof (cases e)
    case Approve
    then show ?thesis
      by (auto simp: accepts_def approve_def Let_def split: sum.split) (simp_all add: approvedRequests_def)
  next
    case (PresentResolves n p)
    then show ?thesis
      by (simp add: accepts_def completeRun_def Let_def) (simp add: approvedRequests_def)
  next
    case (PresentRejects n x)
    then show ?thesis by (simp add: accepts_def rejectRun_def updRun_requests)
  next
    case (DelayDone n)
    then show ?thesis by (simp add: accepts_def)
  next
    case (ProvingTimeout n)
    have "approvedRequests (provingTimeout n h) = approvedRequests (updRun n (\<lambda>r. r\<lparr>ar_timer := False\<rparr>) h)"
      by (simp add: provingTimeout_def approvedRequests_def)
    then show ?thesis using ProvingTimeout by (simp add: accepts_def updRun_requests)
  qed (rule plain[OF hookStep_same_runs]; simp)+
qed

lemma hookStep_calls:
  assumes "c \<in> set (ap_calls (hookStep E h e))"
  shows "c \<in> set (ap_calls h) \<or> fst c \<in> presentArgs ` set (approvedRequests (hookStep E h e))"
proof -
  have attempt: "c \<in> set (ap_calls k) \<or> fst c \<in> presentArgs ` set (approvedRequests k)"
    if "c \<in> set (ap_calls (startAttempt n i k))" "n < length (ap_runs k)" for n i k
    using that by (auto simp: startAttempt_def freshSignal_def updRun_def Let_def approvedRequests_def)
  have finish: "ap_calls (failRun n x k) = ap_calls k" "ap_calls (finishRun n k) = ap_calls k" for n x k
    by (simp_all add: failRun_def finishRun_def updRun_def)
  show ?thesis
  proof (cases e)
    case Approve
    define k where "k = (setAttestProgress None (setState Generating h))\<lparr>ap_timedOut := False, ap_runs := ap_runs h @
      [\<lparr>ar_request = the_or JNull (ap_shownRequest h), ar_overrides = ap_shownOverrides h, ar_attempt = 0, ar_phase = InDelay, ar_timer = True\<rparr>]\<rparr>"
    have k: "ap_calls k = ap_calls h" "length (ap_runs h) < length (ap_runs k)" by (simp_all add: k_def)
    have step: "hookStep E h e = (if \<not> ap_alive h then h
      else if falsy (ap_shownRequest h) \<or> ap_ws h = None then setState ErrorState (setError (Some ''No active request'') h)
      else case buildDcql (the_or JNull (ap_shownRequest h)) of Inl x \<Rightarrow> failRun (length (ap_runs h)) x k
        | Inr d \<Rightarrow> startAttempt (length (ap_runs h)) 0 k)"
      unfolding k_def by (simp add: Approve approve_def Let_def)
    show ?thesis using assms attempt[of "length (ap_runs h)" 0 k] k finish(1)
      unfolding step by (auto split: if_splits sum.splits)
  next
    case (PresentResolves n p)
    then show ?thesis using assms by (auto simp: completeRun_def Let_def finish)
  next
    case (PresentRejects n x)
    then show ?thesis using assms by (auto simp: rejectRun_def finish updRun_def split: if_splits)
  next
    case (DelayDone n)
    then show ?thesis using assms attempt[of n "ar_attempt (ap_runs h ! n) + 1" h] by (auto simp: delayed_def split: if_splits)
  next
    case (ProvingTimeout n)
    then show ?thesis using assms by (auto simp: provingTimeout_def updRun_def split: if_splits)
  qed (use assms hookStep_same_runs[of e h E] in \<open>auto simp: sameRuns_def simp del: hookStep.simps\<close>)
qed

lemma hookStep_responses:
  assumes "ap_vpToken h = None" "x \<in> set (responses (hookStep E h e))"
  shows "x \<in> set (responses h) \<or> (\<exists>n p. e = PresentResolves n p \<and> n < length (approvedRequests h) \<and> ap_ws h = Some (fst x) \<and>
     so_state (ap_sockets h ! fst x) = OPEN \<and> snd x = response (responseJson (approvedRequests h ! n) p))"
proof -
  have same: ?thesis if "sameAnswers h (hookStep E h e)" using that assms by (simp add: sameAnswers_def)
  have keep: "responses (failRun n e' k) = responses k" "responses (startAttempt n i k) = responses k" for n e' k i
    by (simp_all add: failRun_def finishRun_def updRun_def responses_def[of "_ :: hook"] sendOverWs_responses[unfolded responses_def] proofFailed_def)
  show ?thesis
  proof (cases e)
    case (PresentResolves n p)
    then show ?thesis
      using assms(2)
      by (auto simp: completeRun_def Let_def finishRun_def updRun_def responses_def sendOverWs_def isResponse_def response_def
          attempting_def approvedRequests_def split: option.splits if_splits)
  next
    case Approve
    then show ?thesis
      using assms(2) by (auto simp: approve_def Let_def keep split: if_splits sum.splits) (simp_all add: responses_def)
  next
    case (PresentRejects n e')
    then show ?thesis using assms(2) by (auto simp: rejectRun_def keep split: if_splits)
  next
    case (DelayDone n)
    then show ?thesis using assms(2) by (auto simp: keep split: if_splits)
  next
    case (ProvingTimeout n)
    then show ?thesis using assms(2) by (auto simp: provingTimeout_def responses_def updRun_def split: if_splits)
  qed (rule same, simp add: hookStep_same_answers sameAnswers_ops sameAnswers_sessionCreated sameAnswers_teardown del: hookStep.simps(4-9);
       simp add: sameAnswers_def)+
qed

definition hookTrace :: "configEnv \<Rightarrow> hookEvent list \<Rightarrow> hook \<Rightarrow> bool" where
  "hookTrace E es h \<longleftrightarrow>
     (\<forall>r. shownIn h r \<longrightarrow> delivered es r) \<and>
     (\<forall>n < length (approvedRequests h). approvedAs E es n (approvedRequests h ! n)) \<and>
     (\<forall>x \<in> set (responses h). answeredBy E es x) \<and>
     (\<forall>c \<in> set (ap_calls h). \<exists>n req. approvedAs E es n req \<and> fst c = presentArgs req)"

lemma hookTrace_step:
  assumes "h = run_events (hookStep E) usePresentation es" "hookTrace E es h" "ap_vpToken h = None"
  shows "hookTrace E (es @ [e]) (hookStep E h e)"
proof -
  let ?h = "hookStep E h e"
  have shown: "delivered (es @ [e]) r" if "shownIn ?h r" for r
    using hookStep_shown[OF that] assms(2) delivered_append[of es r "[e]"] unfolding hookTrace_def delivered_def by blast
  have requests: "approvedAs E (es @ [e]) n (approvedRequests ?h ! n)" if "n < length (approvedRequests ?h)" for n
  proof (cases "n < length (approvedRequests h)")
    case True
    then show ?thesis using assms(2) approvedAs_append by (simp add: hookStep_requests nth_append hookTrace_def)
  next
    case False
    then have acc: "accepts h e" "n = length (approvedRequests h)" using that by (auto simp: hookStep_requests split: if_splits)
    then obtain r where r: "ap_shownRequest h = Some r" by (cases "ap_shownRequest h") (auto simp: accepts_def)
    then have "delivered es r" using assms(2) by (simp add: hookTrace_def shownIn_def)
    then have "approvedAs E (es @ [e]) n r"
      using acc r assms(1) unfolding approvedAs_def Let_def by (auto simp: accepts_def approvedRequests_def)
    then show ?thesis using acc r by (simp add: hookStep_requests)
  qed
  have responses: "answeredBy E (es @ [e]) x" if "x \<in> set (responses ?h)" for x
    using hookStep_responses[OF assms(3) that]
  proof
    assume "x \<in> set (responses h)"
    then show ?thesis using assms(2) answeredBy_append by (simp add: hookTrace_def)
  next
    assume "\<exists>n p. e = PresentResolves n p \<and> n < length (approvedRequests h) \<and> ap_ws h = Some (fst x) \<and>
     so_state (ap_sockets h ! fst x) = OPEN \<and> snd x = response (responseJson (approvedRequests h ! n) p)"
    then obtain n p where e: "e = PresentResolves n p" "n < length (approvedRequests h)" "ap_ws h = Some (fst x)"
        "so_state (ap_sockets h ! fst x) = OPEN" "snd x = response (responseJson (approvedRequests h ! n) p)" by blast
    then have "approvedAs E es n (approvedRequests h ! n)" using assms(2) by (simp add: hookTrace_def)
    then show ?thesis unfolding answeredBy_def Let_def using e assms(1) by blast
  qed
  have calls: "\<exists>n req. approvedAs E (es @ [e]) n req \<and> fst c = presentArgs req" if "c \<in> set (ap_calls ?h)" for c
    using hookStep_calls[OF that]
  proof
    assume "c \<in> set (ap_calls h)"
    then show ?thesis using assms(2) approvedAs_append unfolding hookTrace_def by blast
  next
    assume "fst c \<in> presentArgs ` set (approvedRequests ?h)"
    then obtain n where "n < length (approvedRequests ?h)" "fst c = presentArgs (approvedRequests ?h ! n)"
      by (metis imageE in_set_conv_nth)
    then show ?thesis using requests by blast
  qed
  show ?thesis using shown requests responses calls by (simp add: hookTrace_def)
qed

lemma hookTrace_run: "hookTrace E es (run_events (hookStep E) usePresentation es)"
proof (induction es rule: rev_induct)
  case Nil
  show ?case by (simp add: hookTrace_def usePresentation_def shownIn_def approvedRequests_def responses_def)
next
  case (snoc e es)
  have "ap_vpToken (run_events (hookStep E) usePresentation es) = None"
    using hook_answers.run_inv[of usePresentation E es] by (simp add: answersOk_def usePresentation_def responses_def approvedRequests_def)
  then show ?case using hookTrace_step[OF refl snoc] by (simp add: run_events_append del: hookStep.simps)
qed

section \<open>Theorems\<close>

lemma hook_start: "socketsTracked usePresentation" "signalsHeld usePresentation" "answersOk usePresentation" "runsOk usePresentation"
  by (simp_all add: usePresentation_def socketsTracked_def signalsHeld_def answersOk_def runsOk_def responses_def approvedRequests_def)

lemmas hook_reachable =
  hook_sockets.run_inv[OF hook_start(1)] hook_signals.run_inv[OF hook_start(2)]
  hook_answers.run_inv[OF hook_start(3)] hook_runs.run_inv[OF hook_start(4)]

text \<open>Closing the modal, denying and cancelling tear everything down: no socket is connecting, open or has handlers, and
  every signal in use, by an attempt of the wallet or by a pending session request, is aborted.\<close>

theorem teardown_complete:
  assumes "h = run_events (hookStep E) usePresentation es" "ap_alive h" "e \<in> {Cancel, Deny, Unmount}"
  shows "(\<forall>w \<in> set (ap_sockets (hookStep E h e)). \<not> socketBusy w) \<and> allAborted (hookStep E h e)"
proof -
  have inv: "socketsTracked h" "signalsHeld h" using assms(1) hook_reachable by simp_all
  have "ap_ws (hookStep E h e) = None" using assms(2,3) by (auto simp: cancel_def deny_def)
  then have "\<not> socketBusy w" if "w \<in> set (ap_sockets (hookStep E h e))" for w
    using that hookStep_tracked[OF inv(1), of E e] by (auto simp: in_set_conv_nth socketsTracked_def)
  then show ?thesis using inv(2) teardown_aborts assms(2,3) by auto
qed

text \<open>C34: What the wallet app sends was approved.  In every run of the hook, a response goes out only when the wallet
  returned a presentation for an approval of the holder: an earlier click on approve, while the request was on the
  screen, of a request that a socket had delivered before; the response answers that very request with that very
  presentation, on the socket that is open then.  The wallet is asked to present only for approved requests, with the
  query, audience, nonce and verifier id of the request, and in total at most three times per approval.\<close>

theorem responses_were_approved:
  assumes "h = run_events (hookStep E) usePresentation es"
  shows "(\<forall>x \<in> set (ap_sent h). wm_type (snd x) = ''response'' \<longrightarrow> answeredBy E es x) \<and>
    (\<forall>c \<in> set (ap_calls h). \<exists>n req. approvedAs E es n req \<and> fst c = presentArgs req) \<and>
    length (ap_calls h) \<le> 3 * length (ap_runs h)"
proof -
  have inv: "runsOk h" "hookTrace E es h" using assms hook_reachable hookTrace_run by simp_all
  have "attemptsMade h \<le> (\<Sum>r\<leftarrow>ap_runs h. 3)"
    unfolding attemptsMade_def using inv(1) by (intro sum_list_mono) (auto simp: runsOk_def runOk_def MAX_PRESENT_ATTEMPTS_def)
  then have "length (ap_calls h) \<le> 3 * length (ap_runs h)" using inv(1) by (simp add: runsOk_def sum_list_triv)
  moreover have "answeredBy E es x" if "x \<in> set (ap_sent h)" "wm_type (snd x) = ''response''" for x
    using inv(2) that by (cases x) (simp add: hookTrace_def responses_def isResponse_def)
  ultimately show ?thesis using inv(2) unfolding hookTrace_def by blast
qed

text \<open>When the wallet answers while the socket is down, the hook shows the completed screen and records the proof, but
  sends nothing and keeps nothing: the session and the kept proof are gone, so that no socket that opens later sends it.\<close>

theorem answer_lost_while_reconnecting:
  assumes "h = run_events (hookStep E) usePresentation es" "ap_alive h" "attempting n h" "\<not> wsOpen h"
    and "h' = hookStep E h (PresentResolves n p)"
  shows "ap_state h' = Complete \<and> ap_recorded h' = ap_recorded h @ [(ar_request (ap_runs h ! n), p)] \<and>
    ap_sent h' = ap_sent h \<and> ap_sessionId h' = None \<and> ap_ws h' = None \<and> ap_vpToken h' = None \<and>
    ap_sent (hookStep E h' (SocketOpens i)) = ap_sent h"
proof -
  have sent: "ap_sent h' = ap_sent h" "ap_recorded h' = ap_recorded h @ [(ar_request (ap_runs h ! n), p)]"
    using assms(3,4,5)
    by (auto simp: completeRun_def Let_def finishRun_def updRun_def sendOverWs_def wsOpen_def split: option.splits)
  have gone: "ap_sessionId h' = None" "ap_ws h' = None" "ap_vpToken h' = None"
    using assms(3,5)
    by (simp_all add: completeRun_def Let_def finishRun_def updRun_def cleanup_def dropSocket_def split: option.split)
  have "ap_state (cleanup k) = ap_state k" for k
    by (simp add: cleanup_def Let_def dropSocket_def abortCtl_def clearReconnectTimer_def split: option.split)
  then have "ap_state h' = Complete"
    using assms(2,3,5) by (simp add: completeRun_def Let_def finishRun_def updRun_def setState_def react_def)
  moreover have "ap_sent (hookStep E h' (SocketOpens i)) = ap_sent h'"
    using gone(3) by (simp add: handled_def onOpen_def setSocketState_def Let_def)
  ultimately show ?thesis using sent gone by simp
qed

text \<open>A run that waits to retry is not stopped by a new session: its next attempt gets a signal that is not aborted, and
  when it succeeds, the presentation made for the old verifier is sent on the socket of the new session.  Unmounting
  the hook does not stop it either.\<close>

theorem delayed_run_survives:
  assumes "h = run_events (hookStep E) usePresentation es" "ap_alive h" "delayed n h"
    and "k = length (ap_aborted h)" "j = length (ap_sockets h)"
    and "h' = run_events (hookStep E) h [Start, SessionCreated k s, SocketOpens j, DelayDone n, PresentResolves n p]"
    and "u = run_events (hookStep E) h [Unmount, DelayDone n]"
  shows "ap_sent h' = ap_sent h @ [(j, response (responseJson (ar_request (ap_runs h ! n)) p))] \<and>
    so_session (ap_sockets h' ! j) = s \<and>
    (\<exists>c. ar_phase (ap_runs u ! n) = InAttempt c \<and> \<not> ap_aborted u ! c)"
proof -
  let ?h1 = "startPresentation h" let ?h2 = "sessionCreated E k s ?h1" let ?h3 = "hookStep E ?h2 (SocketOpens j)"
  let ?h4 = "startAttempt n (ar_attempt (ap_runs h ! n) + 1) ?h3"
  note s1 = start_facts[OF assms(2), folded assms(4,5)]
  note s2 = created_facts[OF s1(2,4,3), of E s, unfolded s1(5,6,7,8)]
  have "ap_vpToken ?h2 = None" using s2(5) s1(8) by simp
  then have s3: "ap_ws ?h3 = Some j" "ap_runs ?h3 = ap_runs h" "ap_sent ?h3 = ap_sent h"
    "ap_sockets ?h3 = ap_sockets ?h1 @ [\<lparr>so_url = getWsBaseUrl E None @ sessionPath s @ ''?role=holder'', so_session = s,
       so_state = OPEN, so_handlers = True\<rparr>]"
    using open_facts[OF s2(1,2) s1(5)[symmetric], of E] s2(3,4) by (simp_all del: hookStep.simps)
  have n: "n < length (ap_runs h)" "ar_phase (ap_runs h ! n) = InDelay" using assms(3) by (simp_all add: delayed_def)
  have "h' = completeRun n p ?h4"
    using n s1 s2 s3 startAttempt_run(1)[of n ?h3 "ar_attempt (ap_runs h ! n) + 1"] by (simp add: assms(6) delayed_def del: hookStep.simps(4))
  then have "ap_sent h' = ap_sent h @ [(j, response (responseJson (ar_request (ap_runs h ! n)) p))]" "so_session (ap_sockets h' ! j) = s"
    using s1 s2 s3 n complete_sent[of ?h4 j n p] startAttempt_run(2)[of n ?h3]
    by (simp_all del: hookStep.simps(4) add: nth_append dropped_def)
  moreover have "\<exists>c. ar_phase (ap_runs u ! n) = InAttempt c \<and> \<not> ap_aborted u ! c"
    using n fresh_attempt_unaborted[of "cleanup (h\<lparr>ap_alive := False\<rparr>)" h n] by (simp add: assms(7) delayed_def)
  ultimately show ?thesis by blast
qed

section \<open>Witnesses\<close>

definition exRequest :: json where
  "exRequest = JObj [(''sessionId'', JStr ''s1''), (''verifierName'', JStr ''Bar''), (''dcql'', JObj []), (''nonce'', JStr ''n'')]"

definition exApproving :: "hookEvent list" where
  "exApproving = [Start, SessionCreated 0 ''s1'', SocketOpens 0, SocketMessage 0 (wsMessage ''request'' exRequest), Rendered, Approve]"

lemma exRequest_read: "readMessage (wsMessage ''request'' exRequest) = Some (''request'', Some exRequest)"
  by (rule readMessage_wsMessage) (simp add: exRequest_def)

lemmas hook_eval = usePresentation_def startPresentation_def cleanup_def clearReconnectTimer_def abortCtl_def dropSocket_def
  hook_setters sessionCreated_def connectWebSocket_def reusable_def endCreating_def hasSocket_def handled_def setSocketState_def
  onOpen_def onMessage_def onRequest_def approve_def buildDcql_def startAttempt_def freshSignal_def updRun_def attempting_def
  delayed_def Let_def the_or_def

lemma exApproving_state:
  fixes E :: configEnv
  defines "h \<equiv> run_events (hookStep E) usePresentation exApproving"
  shows "ap_alive h" "ap_ws h = Some 0" "length (ap_sockets h) = 1" "so_state (ap_sockets h ! 0) = OPEN" "length (ap_aborted h) = 2"
    "ap_runs h = [\<lparr>ar_request = exRequest, ar_overrides = [], ar_attempt = 0, ar_phase = InAttempt 1, ar_timer = True\<rparr>]"
    "ap_sent h = []"
  by (simp_all add: h_def exApproving_def exRequest_read hook_eval) (simp_all add: exRequest_def)

text \<open>A reconnect timer that a second one replaced is never cleared: when it fires after the holder has denied the request,
  the hook connects to the session again.\<close>

theorem stale_timer_reopens:
  fixes E :: configEnv and s :: string
  defines "h \<equiv> run_events (hookStep E) usePresentation [Start, SessionCreated 0 s, SocketOpens 0, Rendered, SocketCloses 0, WakeUp,
     SocketCloses 1, Deny, TimerFires 0]"
  shows "ap_state h = Denied" "ap_sessionId h = None" "ap_ws h = Some 2" "so_session (ap_sockets h ! 2) = s"
    "so_state (ap_sockets h ! 2) = CONNECTING"
  by (simp_all add: h_def hook_eval onClose_def nonTerminal_def NON_TERMINAL_STATES_def QUICK_RECONNECT_ATTEMPTS_def maybeReconnect_def
      wsLive_def liveSocket_def connected_def closedBy_def deny_def sendOverWs_def dropped_def)

theorem responses_were_approved_witness:
  "\<exists>h. h = run_events (hookStep exConfig) usePresentation (exApproving @ [PresentResolves 0 exPresented]) \<and>
     ap_sent h = [(0, response (responseJson exRequest exPresented))] \<and>
     answeredBy exConfig (exApproving @ [PresentResolves 0 exPresented]) (0, response (responseJson exRequest exPresented)) \<and>
     length (ap_calls h) \<le> 3 * length (ap_runs h)"
proof -
  let ?g = "run_events (hookStep exConfig) usePresentation exApproving"
  let ?h = "run_events (hookStep exConfig) usePresentation (exApproving @ [PresentResolves 0 exPresented])"
  have "?h = completeRun 0 exPresented ?g" using exApproving_state(6)[of exConfig] by (simp add: run_events_append attempting_def)
  then have sent: "ap_sent ?h = [(0, response (responseJson exRequest exPresented))]"
    using complete_sent(1)[of ?g 0 0 exPresented] exApproving_state[of exConfig] by simp
  have "wm_type (response (responseJson exRequest exPresented)) = ''response''" by (simp add: response_def)
  then show ?thesis
    using responses_were_approved[of ?h exConfig "exApproving @ [PresentResolves 0 exPresented]", OF refl] sent by auto
qed

theorem answer_lost_while_reconnecting_witness:
  "\<exists>h'. h' = run_events (hookStep exConfig) usePresentation (exApproving @ [SocketCloses 0, PresentResolves 0 exPresented]) \<and>
     ap_state h' = Complete \<and> ap_sent h' = [] \<and> ap_vpToken h' = None"
proof -
  let ?g = "run_events (hookStep exConfig) usePresentation exApproving"
  let ?h = "run_events (hookStep exConfig) usePresentation (exApproving @ [SocketCloses 0])"
  have h: "?h = hookStep exConfig ?g (SocketCloses 0)" by (simp add: run_events_append)
  have same: "ap_runs ?h = ap_runs ?g" "ap_alive ?h" "ap_sent ?h = ap_sent ?g" "ap_ws ?h = Some 0" "so_state (ap_sockets ?h ! 0) = CLOSED"
    using exApproving_state(1,2,3)[of exConfig] h
    by (simp_all add: hasSocket_def handled_def onClose_def setSocketState_def Let_def exApproving_state(4))
  have "attempting 0 ?h" "\<not> wsOpen ?h" using same exApproving_state(6)[of exConfig] by (simp_all add: attempting_def wsOpen_def)
  then have "ap_state (hookStep exConfig ?h (PresentResolves 0 exPresented)) = Complete \<and>
      ap_sent (hookStep exConfig ?h (PresentResolves 0 exPresented)) = ap_sent ?h \<and>
      ap_vpToken (hookStep exConfig ?h (PresentResolves 0 exPresented)) = None"
    using answer_lost_while_reconnecting[OF refl same(2) _ _ refl] by blast
  then show ?thesis using same(3) exApproving_state(7)[of exConfig] by (simp add: run_events_append del: hookStep.simps)
qed

lemma exTransient: "retriesAfter 0 (Error ''indexer down'')"
  by code_simp

theorem delayed_run_survives_witness:
  "\<exists>h'. h' = run_events (hookStep exConfig) (run_events (hookStep exConfig) usePresentation (exApproving @ [PresentRejects 0 (Error ''indexer down'')]))
       [Start, SessionCreated 2 ''s2'', SocketOpens 1, DelayDone 0, PresentResolves 0 exPresented] \<and>
     ap_sent h' = [(1, response (responseJson exRequest exPresented))] \<and> so_session (ap_sockets h' ! 1) = ''s2''"
proof -
  let ?g = "run_events (hookStep exConfig) usePresentation exApproving"
  let ?es = "exApproving @ [PresentRejects 0 (Error ''indexer down'')]"
  let ?h = "run_events (hookStep exConfig) usePresentation ?es"
  have "?h = updRun 0 (\<lambda>r. r\<lparr>ar_phase := InDelay\<rparr>) ?g"
    using exApproving_state(6)[of exConfig] exTransient by (simp add: run_events_append attempting_def rejectRun_def)
  then have "ap_alive ?h" "delayed 0 ?h" "length (ap_aborted ?h) = 2" "length (ap_sockets ?h) = 1" "ap_sent ?h = []"
    "ar_request (ap_runs ?h ! 0) = exRequest"
    using exApproving_state[of exConfig] by (simp_all add: updRun_def delayed_def)
  then show ?thesis using delayed_run_survives[OF refl, of exConfig ?es 0 2 1 _ "''s2''" exPresented, OF _ _ _ _ refl refl] by simp
qed

end
