(* ===== verification/Mrz.thy ===== *)
theory Mrz
  imports Countries Json
begin

text \<open>
  The machine-readable zone of the holder app (\<open>app/src/utils/mrz.ts\<close>): the two lines a passport prints, with the check
  digits of ICAO 9303.  \<open>upper\<close> and \<open>nfd\<close> stand for \<open>String.toUpperCase\<close> and \<open>String.normalize('NFD')\<close> on Unicode text, of
  which nothing is assumed.  Strings are UTF-8 bytes: a combining mark U+0300 to U+036F is the byte CC with a byte from
  80 on, or CD with a byte up to AF, and a character that is not a letter becomes one filler after the runs are merged.
\<close>

section \<open>The generator\<close>

definition FILLER :: char where "FILLER = CHR 0x3C"

definition WEIGHTS :: "nat list" where "WEIGHTS = [7, 3, 1]"

definition charValue :: "char \<Rightarrow> nat" where
  "charValue ch =
     (if isDigit ch then code ch - 48 else if isAsciiUpper ch then code ch - 55 else 0)"

definition checkSum :: "string \<Rightarrow> nat" where
  "checkSum field = sum_list (map (\<lambda>i. charValue (field ! i) * WEIGHTS ! (i mod 3)) [0..<length field])"

definition checkDigit :: "string \<Rightarrow> string" where
  "checkDigit field = showNat (checkSum field mod 10)"

definition padMrz :: "string \<Rightarrow> nat \<Rightarrow> string" where
  "padMrz s len = take len (s @ replicate len FILLER)"

text \<open>\<open>.replace(/[U+0300-U+036F]/g, '')\<close> on UTF-8.\<close>

fun dropMarks :: "string \<Rightarrow> string" where
  "dropMarks (a # b # r) =
     (if a = CHR 0xCC \<and> 128 \<le> code b \<or> a = CHR 0xCD \<and> 128 \<le> code b \<and> code b \<le> 175 then dropMarks r
      else a # dropMarks (b # r))"
| "dropMarks s = s"

text \<open>\<open>.replace(/<+/g, '<')\<close> and \<open>.replace(/^<|<$/g, '')\<close>.\<close>

fun mergeFillers :: "string \<Rightarrow> string" where
  "mergeFillers (a # b # r) = (if a = FILLER \<and> b = FILLER then mergeFillers (b # r) else a # mergeFillers (b # r))"
| "mergeFillers s = s"

definition trimFillers :: "string \<Rightarrow> string" where
  "trimFillers s =
     (let t = (if s \<noteq> [] \<and> hd s = FILLER then tl s else s) in if t \<noteq> [] \<and> last t = FILLER then butlast t else t)"

definition transliterate :: "(string \<Rightarrow> string) \<Rightarrow> (string \<Rightarrow> string) \<Rightarrow> string \<Rightarrow> string" where
  "transliterate upper nfd s =
     trimFillers (mergeFillers (map (\<lambda>c. if isAsciiUpper c then c else FILLER) (dropMarks (nfd (upper s)))))"

definition alnum :: "(string \<Rightarrow> string) \<Rightarrow> string \<Rightarrow> string" where
  "alnum upper s = filter (\<lambda>c. isAsciiUpper c \<or> isDigit c) (upper s)"

definition isoParts :: "string \<Rightarrow> (string \<times> string \<times> string) option" where
  "isoParts s =
     (let y = take 4 s; m = take 2 (drop 5 s); d = take 2 (drop 8 s) in
      if length s \<ge> 10 \<and> list_all isDigit y \<and> s ! 4 = CHR ''-'' \<and> list_all isDigit m \<and> s ! 7 = CHR ''-''
        \<and> list_all isDigit d
      then Some (y, m, d) else None)"

definition mrzDate :: "string option \<Rightarrow> string" where
  "mrzDate isoDay =
     (case isoParts (trim (the_or [] isoDay)) of
        Some (y, m, d) \<Rightarrow> drop 2 y @ m @ d
      | None \<Rightarrow> replicate 6 FILLER)"

definition sexChar :: "string option \<Rightarrow> char" where
  "sexChar gender =
     (let g = toLowerCase (trim (the_or [] gender)) in
      if startsWith g ''m'' then CHR ''M'' else if startsWith g ''f'' then CHR ''F'' else FILLER)"

definition ALPHA3 :: "(string \<times> string) list" where
  "ALPHA3 =
     [(''AT'', ''AUT''), (''BE'', ''BEL''), (''BG'', ''BGR''), (''HR'', ''HRV''), (''CY'', ''CYP''),
      (''CZ'', ''CZE''), (''DK'', ''DNK''), (''EE'', ''EST''), (''FI'', ''FIN''), (''FR'', ''FRA''),
      (''DE'', ''DEU''), (''GR'', ''GRC''), (''HU'', ''HUN''), (''IE'', ''IRL''), (''IT'', ''ITA''),
      (''LV'', ''LVA''), (''LT'', ''LTU''), (''LU'', ''LUX''), (''MT'', ''MLT''), (''NL'', ''NLD''),
      (''PL'', ''POL''), (''PT'', ''PRT''), (''RO'', ''ROU''), (''SK'', ''SVK''), (''SI'', ''SVN''),
      (''ES'', ''ESP''), (''SE'', ''SWE''), (''GB'', ''GBR''), (''US'', ''USA''), (''CA'', ''CAN''),
      (''AU'', ''AUS''), (''CH'', ''CHE''), (''NO'', ''NOR''), (''IS'', ''ISL''), (''JP'', ''JPN''),
      (''BR'', ''BRA''), (''TR'', ''TUR'')]"

definition NAME_ALPHA3 :: "(string \<times> string) list" where
  "NAME_ALPHA3 =
     [(''AUSTRIAN'', ''AUT''), (''AUSTRIA'', ''AUT''), (''BELGIAN'', ''BEL''), (''BELGIUM'', ''BEL''), (''CROATIAN'', ''HRV''),
      (''CROATIA'', ''HRV''), (''CZECH'', ''CZE''), (''DANISH'', ''DNK''), (''DENMARK'', ''DNK''), (''DUTCH'', ''NLD''),
      (''NETHERLANDS'', ''NLD''), (''FINNISH'', ''FIN''), (''FINLAND'', ''FIN''), (''FRENCH'', ''FRA''), (''FRANCE'', ''FRA''),
      (''GERMAN'', ''DEU''), (''GERMANY'', ''DEU''), (''GREEK'', ''GRC''), (''GREECE'', ''GRC''), (''IRISH'', ''IRL''),
      (''IRELAND'', ''IRL''), (''ITALIAN'', ''ITA''), (''ITALY'', ''ITA''), (''POLISH'', ''POL''), (''POLAND'', ''POL''),
      (''PORTUGUESE'', ''PRT''), (''PORTUGAL'', ''PRT''), (''SPANISH'', ''ESP''), (''SPAIN'', ''ESP''), (''SWEDISH'', ''SWE''),
      (''SWEDEN'', ''SWE''), (''BRITISH'', ''GBR''), (''UNITED KINGDOM'', ''GBR''), (''AMERICAN'', ''USA''), (''UNITED STATES'', ''USA''),
      (''USA'', ''USA''), (''CANADIAN'', ''CAN''), (''CANADA'', ''CAN''), (''SWISS'', ''CHE''), (''SWITZERLAND'', ''CHE''),
      (''NORWEGIAN'', ''NOR''), (''NORWAY'', ''NOR'')]"

definition toAlpha3 :: "(string \<Rightarrow> string) \<Rightarrow> string \<Rightarrow> string" where
  "toAlpha3 up input =
     (let v = trim input in
      if v = [] then ''XXX''
      else let u = up v in
        if length u = 3 \<and> list_all isAsciiUpper u then u
        else if length u = 2 \<and> map_of ALPHA3 u \<noteq> None then the (map_of ALPHA3 u)
        else the_or ''XXX'' (map_of NAME_ALPHA3 u))"

definition nameField :: "(string \<Rightarrow> string) \<Rightarrow> (string \<Rightarrow> string) \<Rightarrow> string \<Rightarrow> string \<Rightarrow> string" where
  "nameField upper nfd surname given =
     padMrz (transliterate upper nfd surname @ [FILLER, FILLER] @ transliterate upper nfd given) 39"

record mrzClaims =
  mc_firstName :: "string option"
  mc_lastName :: "string option"
  mc_nationality :: "string option"
  mc_issuingCountry :: "string option"
  mc_passportNumber :: "string option"
  mc_documentNumber :: "string option"
  mc_nationalId :: "string option"
  mc_dateOfBirth :: "string option"
  mc_gender :: "string option"
  mc_documentExpiry :: "string option"

text \<open>\<open>a || b || ''\<close>.\<close>

fun firstGiven :: "string option list \<Rightarrow> string" where
  "firstGiven [] = []"
| "firstGiven (v # vs) = (case v of Some s \<Rightarrow> if s \<noteq> [] then s else firstGiven vs | None \<Rightarrow> firstGiven vs)"

record td3Mrz =
  line1 :: string
  line2 :: string

definition buildTd3Mrz :: "(string \<Rightarrow> string) \<Rightarrow> (string \<Rightarrow> string) \<Rightarrow> mrzClaims \<Rightarrow> td3Mrz" where
  "buildTd3Mrz upper nfd c =
     (let issuing = toAlpha3 upper (firstGiven [mc_issuingCountry c, mc_nationality c]);
          nationality = toAlpha3 upper (firstGiven [mc_nationality c, mc_issuingCountry c]);
          l1 = padMrz ([CHR ''P'', FILLER] @ issuing @ nameField upper nfd (the_or [] (mc_lastName c)) (the_or [] (mc_firstName c))) 44;
          docNo = padMrz (alnum upper (firstGiven [mc_passportNumber c, mc_documentNumber c, mc_nationalId c])) 9;
          docCd = checkDigit docNo;
          dob = mrzDate (mc_dateOfBirth c);
          dobCd = checkDigit dob;
          sex = sexChar (mc_gender c);
          expiry = mrzDate (mc_documentExpiry c);
          expiryCd = checkDigit expiry;
          personal = padMrz (alnum upper (firstGiven [mc_nationalId c])) 14;
          personalCd = checkDigit personal;
          compositeCd = checkDigit (docNo @ docCd @ dob @ dobCd @ expiry @ expiryCd @ personal @ personalCd);
          l2 = padMrz (docNo @ docCd @ nationality @ dob @ dobCd @ [sex] @ expiry @ expiryCd @ personal @ personalCd @ compositeCd) 44
      in \<lparr>line1 = l1, line2 = l2\<rparr>)"

section \<open>Fields\<close>

definition mrzChar :: "char \<Rightarrow> bool" where
  "mrzChar c \<longleftrightarrow> isAsciiUpper c \<or> isDigit c \<or> c = FILLER"

lemma length_padMrz [simp]: "length (padMrz s n) = n"
  by (simp add: padMrz_def)

lemma padMrz_id: "length s = n \<Longrightarrow> padMrz s n = s"
  by (simp add: padMrz_def)

lemma padMrz_chars: "list_all mrzChar s \<Longrightarrow> list_all mrzChar (padMrz s n)"
  by (auto simp: padMrz_def list_all_iff mrzChar_def dest: in_set_takeD)

lemma showNat_digit: "n < 10 \<Longrightarrow> showNat n = [char_of (48 + n)] \<and> isDigit (char_of (48 + n))"
  by (subst showNat.simps) (simp add: isDigit_def)

lemma checkDigit_facts: "length (checkDigit f) = 1" "list_all mrzChar (checkDigit f)"
  using showNat_digit[of "checkSum f mod 10"] by (simp_all add: checkDigit_def mrzChar_def)

lemma isoParts_digits:
  assumes "isoParts s = Some (y, m, d)"
  shows "length (drop 2 y @ m @ d) = 6" "list_all isDigit (drop 2 y @ m @ d)"
  using assms by (auto simp: isoParts_def Let_def list_all_iff split: if_split_asm dest: in_set_dropD)

lemma mrzDate_facts: "length (mrzDate v) = 6" "list_all mrzChar (mrzDate v)"
proof -
  have "length (mrzDate v) = 6 \<and> list_all mrzChar (mrzDate v)"
  proof (cases "isoParts (trim (the_or [] v))")
    case None
    then show ?thesis by (simp add: mrzDate_def list_all_iff mrzChar_def)
  next
    case (Some p)
    then obtain y m d where "isoParts (trim (the_or [] v)) = Some (y, m, d)" by (cases p) auto
    with isoParts_digits[OF this] show ?thesis by (auto simp: mrzDate_def list_all_iff mrzChar_def)
  qed
  then show "length (mrzDate v) = 6" "list_all mrzChar (mrzDate v)" by blast+
qed

lemma sexChar_mrz: "mrzChar (sexChar g)"
proof -
  have "isAsciiUpper CHR ''M''" "isAsciiUpper CHR ''F''" by code_simp+
  then show ?thesis by (simp add: sexChar_def mrzChar_def Let_def)
qed

lemma alpha3_tables:
  "list_all (\<lambda>p. length (snd p) = 3 \<and> list_all isAsciiUpper (snd p)) ALPHA3"
  "list_all (\<lambda>p. length (snd p) = 3 \<and> list_all isAsciiUpper (snd p)) NAME_ALPHA3"
  by code_simp+

lemma toAlpha3_facts: "length (toAlpha3 up s) = 3 \<and> list_all isAsciiUpper (toAlpha3 up s)"
proof -
  have x: "list_all isAsciiUpper ''XXX''" by code_simp
  have t: "length w = 3 \<and> list_all isAsciiUpper w" if "map_of ALPHA3 u = Some w" for u w
    using that alpha3_tables(1) by (auto simp: list_all_iff dest!: map_of_SomeD)
  have n: "length w = 3 \<and> list_all isAsciiUpper w" if "map_of NAME_ALPHA3 u = Some w" for u w
    using that alpha3_tables(2) by (auto simp: list_all_iff dest!: map_of_SomeD)
  show ?thesis using x by (auto simp: toAlpha3_def Let_def the_or_def split: option.split dest: t n)
qed

lemma alnum_chars: "list_all mrzChar (alnum up s)"
  by (auto simp: alnum_def list_all_iff mrzChar_def)

lemma set_mergeFillers: "set (mergeFillers s) \<subseteq> set s"
  by (induction s rule: mergeFillers.induct) auto

lemma transliterate_chars: "list_all mrzChar (transliterate up nfd s)"
proof -
  have "set (trimFillers t) \<subseteq> set t" for t
    by (cases t) (auto simp: trimFillers_def Let_def dest: in_set_butlastD)
  with set_mergeFillers show ?thesis unfolding transliterate_def list_all_iff by (fastforce simp: mrzChar_def)
qed

section \<open>A reader of the zone\<close>

text \<open>How ICAO 9303 reads the second line: the fields by position, and the five check digits over them.\<close>

definition sub :: "string \<Rightarrow> nat \<Rightarrow> nat \<Rightarrow> string" where
  "sub l i n = take n (drop i l)"

definition td3Valid :: "string \<Rightarrow> bool" where
  "td3Valid l \<longleftrightarrow> length l = 44 \<and> list_all mrzChar l \<and>
     sub l 9 1 = checkDigit (sub l 0 9) \<and> sub l 19 1 = checkDigit (sub l 13 6) \<and> sub l 27 1 = checkDigit (sub l 21 6) \<and>
     sub l 42 1 = checkDigit (sub l 28 14) \<and> sub l 43 1 = checkDigit (sub l 0 10 @ sub l 13 7 @ sub l 21 22)"

lemma td3_layout:
  assumes "length a = 9" "length b = 1" "length c = 3" "length d = 6" "length e = 1" "length f = 6" "length g = 1" "length h = 14"
    "length i = 1" "length j = 1" and l: "l = a @ b @ c @ d @ e @ [x] @ f @ g @ h @ i @ j"
  shows "length l = 44" "sub l 0 9 = a" "sub l 9 1 = b" "sub l 10 3 = c" "sub l 13 6 = d" "sub l 19 1 = e" "sub l 20 1 = [x]"
    "sub l 21 6 = f" "sub l 27 1 = g" "sub l 28 14 = h" "sub l 42 1 = i" "sub l 43 1 = j"
    "sub l 0 10 = a @ b" "sub l 13 7 = d @ e" "sub l 21 22 = f @ g @ h @ i"
  using assms(1-10) unfolding l sub_def by simp_all

text \<open>Every zone the app prints is valid.  Whatever the claims hold, both lines have 44 characters of the MRZ
  alphabet, the second passes all five checks of a reader, and the reader finds the dates, the sex and the three-letter
  nationality in their places.\<close>

theorem td3_readable:
  assumes "m = buildTd3Mrz upper nfd c"
  shows "length (line1 m) = 44 \<and> list_all mrzChar (line1 m) \<and> take 2 (line1 m) = [CHR ''P'', FILLER] \<and> td3Valid (line2 m) \<and>
    sub (line2 m) 13 6 = mrzDate (mc_dateOfBirth c) \<and> sub (line2 m) 21 6 = mrzDate (mc_documentExpiry c) \<and>
    sub (line2 m) 20 1 = [sexChar (mc_gender c)] \<and>
    sub (line2 m) 10 3 = toAlpha3 upper (firstGiven [mc_nationality c, mc_issuingCountry c])"
proof -
  let ?issuing = "toAlpha3 upper (firstGiven [mc_issuingCountry c, mc_nationality c])"
  let ?nat = "toAlpha3 upper (firstGiven [mc_nationality c, mc_issuingCountry c])"
  let ?name = "nameField upper nfd (the_or [] (mc_lastName c)) (the_or [] (mc_firstName c))"
  let ?doc = "padMrz (alnum upper (firstGiven [mc_passportNumber c, mc_documentNumber c, mc_nationalId c])) 9"
  let ?dob = "mrzDate (mc_dateOfBirth c)" and ?exp = "mrzDate (mc_documentExpiry c)"
  let ?pers = "padMrz (alnum upper (firstGiven [mc_nationalId c])) 14"
  let ?comp = "checkDigit (?doc @ checkDigit ?doc @ ?dob @ checkDigit ?dob @ ?exp @ checkDigit ?exp @ ?pers @ checkDigit ?pers)"
  let ?l = "?doc @ checkDigit ?doc @ ?nat @ ?dob @ checkDigit ?dob @ [sexChar (mc_gender c)] @ ?exp @ checkDigit ?exp @ ?pers @
    checkDigit ?pers @ ?comp"
  have up: "list_all mrzChar s" if "list_all isAsciiUpper s" for s using that by (auto simp: list_all_iff mrzChar_def)
  have nats: "length ?nat = 3" "list_all mrzChar ?nat" "length ?issuing = 3" "list_all mrzChar ?issuing"
    using toAlpha3_facts up by blast+
  have P: "isAsciiUpper CHR ''P''" by code_simp
  note layout = td3_layout[OF length_padMrz checkDigit_facts(1) nats(1) mrzDate_facts(1) checkDigit_facts(1) mrzDate_facts(1)
      checkDigit_facts(1) length_padMrz checkDigit_facts(1) checkDigit_facts(1) refl]
  have l2: "line2 m = ?l" unfolding assms buildTd3Mrz_def Let_def using layout(1) by (simp add: padMrz_id)
  have "list_all mrzChar ?l"
    using nats(2) checkDigit_facts(2) mrzDate_facts(2) sexChar_mrz padMrz_chars[OF alnum_chars] by simp
  then have valid: "td3Valid (line2 m)" unfolding l2 td3Valid_def layout by simp
  have name: "list_all mrzChar ?name" "length ?name = 39"
    unfolding nameField_def by (intro padMrz_chars) (simp_all add: transliterate_chars mrzChar_def)
  have l1: "line1 m = [CHR ''P'', FILLER] @ ?issuing @ ?name"
    unfolding assms buildTd3Mrz_def Let_def using nats(3) name(2) by (simp add: padMrz_id)
  have "length (line1 m) = 44" "list_all mrzChar (line1 m)" "take 2 (line1 m) = [CHR ''P'', FILLER]"
    unfolding l1 using nats(3,4) name P by (simp_all add: mrzChar_def)
  with valid show ?thesis unfolding l2 layout by simp
qed

text \<open>The check digit finds every single wrong digit of a field.\<close>

lemma checkSum_upd:
  assumes "i < length f"
  shows "checkSum (f[i := c]) + charValue (f ! i) * WEIGHTS ! (i mod 3) = checkSum f + charValue c * WEIGHTS ! (i mod 3)"
proof -
  let ?g = "\<lambda>f j. charValue (f ! j) * WEIGHTS ! (j mod 3)"
  have split: "checkSum h = ?g h i + (\<Sum>j \<in> {..<length h} - {i}. ?g h j)" if "length h = length f" for h
  proof -
    have "checkSum h = (\<Sum>j \<in> {..<length h}. ?g h j)"
      by (simp add: checkSum_def sum_list_distinct_conv_sum_set atLeast0LessThan)
    then show ?thesis using assms that by (simp add: sum.remove)
  qed
  have "(\<Sum>j \<in> {..<length f} - {i}. ?g (f[i := c]) j) = (\<Sum>j \<in> {..<length f} - {i}. ?g f j)"
    by (rule sum.cong) auto
  then show ?thesis using split[of f] split[of "f[i := c]"] assms by simp
qed

theorem check_digit_detects:
  assumes "i < length f" and "isDigit (f ! i)" and "isDigit c" and "c \<noteq> f ! i"
  shows "checkDigit (f[i := c]) \<noteq> checkDigit f"
proof
  define a b w where "a = int (code (f ! i) - 48)" and "b = int (code c - 48)" and "w = int (WEIGHTS ! (i mod 3))"
  assume "checkDigit (f[i := c]) = checkDigit f"
  then have "checkSum (f[i := c]) mod 10 = checkSum f mod 10" unfolding checkDigit_def by (metis readNat_showNat)
  then have "int (checkSum (f[i := c])) mod 10 = int (checkSum f) mod 10" by (metis of_nat_mod of_nat_numeral)
  then have "10 dvd int (checkSum f) - int (checkSum (f[i := c]))" by (metis mod_eq_dvd_iff)
  moreover have "int (checkSum f) - int (checkSum (f[i := c])) = (a - b) * w"
  proof -
    have "int (checkSum (f[i := c]) + (code (f ! i) - 48) * WEIGHTS ! (i mod 3)) = int (checkSum f + (code c - 48) * WEIGHTS ! (i mod 3))"
      using checkSum_upd[OF assms(1), of c] assms(2,3) by (simp add: charValue_def)
    then have "int (checkSum (f[i := c])) + a * w = int (checkSum f) + b * w"
      unfolding a_def b_def w_def by (simp only: of_nat_add of_nat_mult)
    then show ?thesis by (simp add: left_diff_distrib)
  qed
  ultimately have "10 dvd (a - b) * w" by simp
  moreover have "w = 7 \<or> w = 3 \<or> w = 1"
  proof -
    have "i mod 3 = 0 \<or> i mod 3 = 1 \<or> i mod 3 = 2" by presburger
    then show ?thesis by (auto simp: WEIGHTS_def w_def)
  qed
  moreover have "10 dvd d" if "10 dvd d * 7 \<or> 10 dvd d * 3 \<or> 10 dvd d * 1" for d :: int using that by presburger
  ultimately have "10 dvd a - b" by blast
  moreover have "code c \<noteq> code (f ! i)" using assms(4) by simp
  then have "a - b \<noteq> 0" "\<bar>a - b\<bar> < 10" using assms(2,3) unfolding a_def b_def isDigit_def by arith+
  ultimately show False using zdvd_not_zless[of "\<bar>a - b\<bar>" 10] by simp
qed

end
