(* ===== verification/Verifier_Checks.thy ===== *)
theory Verifier_Checks
  imports Routing Config Browser "HOL-Library.AList"
begin

text \<open>
  The parts of the verifier app (\<open>packages/verifier-app/src\<close>) around its session machine: the catalog of checks
  (\<open>design-data.ts\<close>) and the DCQL query that a selection of them becomes (\<open>App.tsx\<close>), the verification call and its
  verdict (\<open>api.ts\<close>), the texts shown (\<open>dcql-labels.ts\<close>, \<open>error-messages.ts\<close>), the health banner (\<open>health-monitor.ts\<close>)
  and the verification history (\<open>history-store.ts\<close>).
\<close>

section \<open>From a selection of checks to a query\<close>

datatype predicateParamInput = ThresholdInput int | RangeInput int int | CountriesInput "string list"

text \<open>An entry of the predicate registry, which the verification service serves; the app reads its id and its route.\<close>

record predicateInfo =
  pi_id :: string
  pi_route :: string

definition EU_COUNTRY_CODES :: "string list" where
  "EU_COUNTRY_CODES =
     [''AT'', ''BE'', ''BG'', ''CY'', ''CZ'', ''DE'', ''DK'', ''EE'', ''ES'', ''FI'', ''FR'', ''GR'', ''HR'', ''HU'', ''IE'', ''IT'', ''LT'',
      ''LU'', ''LV'', ''MT'', ''NL'', ''PL'', ''PT'', ''RO'', ''SE'', ''SI'', ''SK'']"

record checkRequest =
  cr_predicateId :: string
  cr_param :: "predicateParamInput option"

definition CHECK_REQUESTS :: "(string \<times> checkRequest) list" where
  "CHECK_REQUESTS =
     [(''age_18'', \<lparr>cr_predicateId = ''age:gte'', cr_param = Some (ThresholdInput 18)\<rparr>),
      (''age_21'', \<lparr>cr_predicateId = ''age:gte'', cr_param = Some (ThresholdInput 21)\<rparr>),
      (''age_65'', \<lparr>cr_predicateId = ''age:gte'', cr_param = Some (ThresholdInput 65)\<rparr>),
      (''eu_citizen'', \<lparr>cr_predicateId = ''nationality:in'', cr_param = Some (CountriesInput EU_COUNTRY_CODES)\<rparr>),
      (''verified_resident'', \<lparr>cr_predicateId = ''residency:in'', cr_param = Some (CountriesInput EU_COUNTRY_CODES)\<rparr>),
      (''kyc_basic'', \<lparr>cr_predicateId = ''kyc:>=basic'', cr_param = Some (ThresholdInput 1)\<rparr>),
      (''kyc_substantial'', \<lparr>cr_predicateId = ''kyc:>=substantial'', cr_param = Some (ThresholdInput 2)\<rparr>),
      (''kyc_high'', \<lparr>cr_predicateId = ''kyc:>=high'', cr_param = Some (ThresholdInput 3)\<rparr>),
      (''email_verified'', \<lparr>cr_predicateId = ''email:verified'', cr_param = None\<rparr>)]"

definition predicateForRoute :: "predicateInfo \<Rightarrow> predicateParamInput option \<Rightarrow> owlPredicate option" where
  "predicateForRoute p input =
     (let route = pi_route p in
      if route = ''age_over'' then (case input of Some (ThresholdInput t) \<Rightarrow> Some (Age_gte t) | _ \<Rightarrow> None)
      else if route = ''age_range'' then (case input of Some (RangeInput a b) \<Rightarrow> Some (Age_range a b) | _ \<Rightarrow> None)
      else if route = ''verification_level'' then
        Some (Kyc_gte (case input of Some (ThresholdInput t) \<Rightarrow> t | _ \<Rightarrow> 1))
      else if route = ''nationality_in'' then (case input of Some (CountriesInput cs) \<Rightarrow> Some (Nationality_in cs) | _ \<Rightarrow> None)
      else if route = ''resident_in'' then (case input of Some (CountriesInput cs) \<Rightarrow> Some (Residency_in cs) | _ \<Rightarrow> None)
      else if route = ''email_verified'' then Some Email_verified
      else None)"

text \<open>\<open>p.id.replace(/[^a-zA-Z0-9_-]/g, '_')\<close>.\<close>

definition sanitizeId :: "string \<Rightarrow> string" where
  "sanitizeId = map (\<lambda>c. if isAsciiUpper c \<or> isAsciiLower c \<or> isDigit c \<or> c = CHR ''_'' \<or> c = CHR ''-'' then c else CHR ''_'')"

definition MAX_SAFE_INTEGER :: int where "MAX_SAFE_INTEGER = 9007199254740991"

definition queryFor :: "(string \<times> predicateParamInput) list \<Rightarrow> predicateInfo \<Rightarrow> dcqlCredentialQuery" where
  "queryFor params p =
     owlCredentialQuery (sanitizeId (pi_id p))
       (case predicateForRoute p (map_of params (pi_id p)) of
          None \<Rightarrow> Kyc_gte MAX_SAFE_INTEGER
        | Some q \<Rightarrow> q)"

definition buildDcqlFromPredicates :: "predicateInfo list \<Rightarrow> (string \<times> predicateParamInput) list \<Rightarrow> dcqlRequest" where
  "buildDcqlFromPredicates predicates params =
     \<lparr>credentials = map (queryFor params) (filter (\<lambda>p. pi_id p \<noteq> ''personhood:unique'') predicates), credentialSets = None\<rparr>"

text \<open>One turn of the loop over the selected checks; the set \<open>seen\<close> holds the ids of \<open>predicates\<close>.\<close>

definition addCheck ::
  "predicateInfo list \<Rightarrow> string \<Rightarrow> predicateInfo list \<times> (string \<times> predicateParamInput) list \<Rightarrow>
     predicateInfo list \<times> (string \<times> predicateParamInput) list" where
  "addCheck registry checkId acc =
     (case map_of CHECK_REQUESTS checkId of
        None \<Rightarrow> acc
      | Some req \<Rightarrow>
          (case find (\<lambda>p. pi_id p = cr_predicateId req) registry of
             None \<Rightarrow> acc
           | Some info \<Rightarrow>
               (if pi_id info \<in> pi_id ` set (fst acc) then fst acc else fst acc @ [info],
                case cr_param req of None \<Rightarrow> snd acc | Some param \<Rightarrow> AList.update (cr_predicateId req) param (snd acc))))"

definition buildSelectedRequest ::
  "predicateInfo list \<Rightarrow> string list \<Rightarrow> predicateInfo list \<times> (string \<times> predicateParamInput) list" where
  "buildSelectedRequest registry selected = fold (addCheck registry) selected ([], [])"

definition selectedDcql :: "predicateInfo list \<Rightarrow> string list \<Rightarrow> dcqlRequest" where
  "selectedDcql registry selected = (case buildSelectedRequest registry selected of (ps, params) \<Rightarrow> buildDcqlFromPredicates ps params)"

section \<open>The verification call\<close>

definition getVerifierApiKey :: "configEnv \<Rightarrow> string option \<Rightarrow> string res" where
  "getVerifierApiKey E overrideKey =
     (let apiKey = (if nonEmpty overrideKey then overrideKey else getApiKey E None) in
      if \<not> nonEmpty apiKey then Inl (Error ''Verifier API key is not configured.'')
      else if \<not> startsWith (the apiKey) ''owlid_pk_'' then
        Inl (Error ''Verifier app must be configured with a publishable API key (set VITE_VERIFIER_API_KEY).'')
      else Inr (the apiKey))"

fun objectKeys :: "json \<Rightarrow> string list" where
  "objectKeys (JObj fs) = map fst fs"
| "objectKeys _ = []"

text \<open>The query of a call that was given none: the ids of the token itself, with nothing asked of them.\<close>

definition openQuery :: "json \<Rightarrow> dcqlRequest" where
  "openQuery vpToken =
     \<lparr>credentials = map (\<lambda>i. \<lparr>q_id = i, q_format = ''dc+sd-jwt'', q_claims = Some [], q_owlPredicate = None\<rparr>) (objectKeys vpToken),
      credentialSets = None\<rparr>"

record dcqlCall =
  dc_vpToken :: json
  dc_challenge :: string
  dc_verifierId :: "string option"
  dc_query :: dcqlRequest

definition verifyDcqlVpToken :: "json \<Rightarrow> string \<Rightarrow> dcqlRequest option \<Rightarrow> string option \<Rightarrow> dcqlCall" where
  "verifyDcqlVpToken vpToken challenge query verifierId =
     \<lparr>dc_vpToken = vpToken, dc_challenge = challenge, dc_verifierId = verifierId, dc_query = the_or (openQuery vpToken) query\<rparr>"

record verdict =
  vd_valid :: bool
  vd_subjects :: "string list"
  vd_error :: "string option"

record dcqlAnswer =
  da_valid :: bool
  da_perCredential :: "(string \<times> bool \<times> string option) list"
  da_subjects :: "string list"
  da_error :: "string option"

text \<open>What the service answered: a body, an HTTP error with its status and text, or no answer.\<close>

datatype serviceReply = Answered dcqlAnswer | HttpError nat string | NoReply js_error

definition firstFailure :: "string list \<Rightarrow> (string \<times> bool \<times> string option) list \<Rightarrow> (bool \<times> string option) option" where
  "firstFailure ids per = find (\<lambda>x. \<not> fst x) (List.map_filter (map_of per) ids)"

definition orElse :: "string option \<Rightarrow> string option \<Rightarrow> string option" where
  "orElse a b = (case a of None \<Rightarrow> b | Some x \<Rightarrow> Some x)"

definition httpText :: "nat \<Rightarrow> string \<Rightarrow> string" where
  "httpText status body =
     (let fallback = ''HTTP '' @ showNat status in
      case JSON_parse body of
        Inl _ \<Rightarrow> if body = [] then fallback else body
      | Inr v \<Rightarrow>
          if v = JNull then body
          else if falsy (getField ''error'' v) then fallback else the_or fallback (asStr (getField ''error'' v)))"

fun verdictOf :: "string list \<Rightarrow> serviceReply \<Rightarrow> verdict res" where
  "verdictOf ids (Answered r) =
     Inr \<lparr>vd_valid = da_valid r, vd_subjects = da_subjects r,
          vd_error = orElse (case firstFailure ids (da_perCredential r) of None \<Rightarrow> None | Some x \<Rightarrow> snd x) (da_error r)\<rparr>"
| "verdictOf ids (HttpError status body) = Inr \<lparr>vd_valid = False, vd_subjects = [], vd_error = Some (httpText status body)\<rparr>"
| "verdictOf ids (NoReply e) = Inl e"

section \<open>Texts\<close>

definition FRIENDLY :: "(string \<times> string) list" where
  "FRIENDLY =
     [(''age_gte'', ''Age check''), (''age_range'', ''Age range''), (''nationality_in'', ''Nationality''),
      (''nationality_eu'', ''EU citizen''), (''resident_in'', ''Country of residence''), (''residency_verified'', ''Verified resident''),
      (''email_verified'', ''Verified email''), (''kyc___basic'', ''ID check: basic''),
      (''kyc___substantial'', ''ID check: substantial''), (''kyc___high'', ''ID check: high''),
      (''verification_level'', ''ID verification level''), (''unique_person'', ''Unique person'')]"

text \<open>\<open>.replace(/c+/g, ' ')\<close> for the characters that satisfy \<open>P\<close>.\<close>

fun blankRuns :: "(char \<Rightarrow> bool) \<Rightarrow> string \<Rightarrow> string" where
  "blankRuns P [] = []"
| "blankRuns P [c] = (if P c then '' '' else [c])"
| "blankRuns P (c # d # s) =
     (if \<not> P c then c # blankRuns P (d # s) else if P d then blankRuns P (d # s) else CHR 0x20 # blankRuns P (d # s))"

definition tidy :: "string \<Rightarrow> string" where
  "tidy raw =
     (case trim (blankRuns isSpace (blankRuns (\<lambda>c. c = CHR ''_'') raw)) of
        [] \<Rightarrow> []
      | c # s \<Rightarrow> (if isAsciiLower c then upperChar c else c) # s)"

definition friendlyCheckLabel :: "string \<Rightarrow> string" where
  "friendlyCheckLabel dcqlId = the_or (tidy dcqlId) (map_of FRIENDLY dcqlId)"

text \<open>\<open>/^DCQL credential (\S+) not satisfied$/\<close>.\<close>

definition dcqlNotSatisfied :: "string \<Rightarrow> bool" where
  "dcqlNotSatisfied raw \<longleftrightarrow>
     (let pre = ''DCQL credential ''; suf = '' not satisfied''; mid = take (length raw - length pre - length suf) (drop (length pre) raw) in
      startsWith raw pre \<and> endsWith raw suf \<and> length pre + length suf < length raw \<and> \<not> list_ex isSpace mid)"

definition friendlyVerifyError :: "string option \<Rightarrow> string option" where
  "friendlyVerifyError raw =
     (case raw of
        None \<Rightarrow> None
      | Some e \<Rightarrow>
          if e = [] then None
          else Some
            (if dcqlNotSatisfied e \<or> startsWith e ''DCQL credential_set unsatisfied'' then
               ''The wallet doesn't hold a credential that can answer this request '' @ emDash @
               '' the holder may need to add or re-verify the matching credential.''
             else if includesStr e ''not attested on Midnight'' then
               ''This check isn't anchored on Midnight for the presented credential '' @ emDash @
               '' make sure the holder signed the same check you selected, or use the live QR session.''
             else if e = ''Response returned an error code'' then
               ''The verification service rejected the request. Try again, and check the service status if it keeps failing.''
             else e))"

section \<open>The health banner\<close>

fun healthLoop :: "(nat \<Rightarrow> bool res) \<Rightarrow> nat \<Rightarrow> nat \<Rightarrow> bool" where
  "healthLoop check i 0 = False"
| "healthLoop check i (Suc k) = (if check i = Inr True then True else healthLoop check (Suc i) k)"

definition checkHealthWithRetry :: "(nat \<Rightarrow> bool res) \<Rightarrow> nat \<Rightarrow> bool" where
  "checkHealthWithRetry check attempts = healthLoop check 0 attempts"

definition decideServiceOnline :: "bool option \<Rightarrow> bool \<Rightarrow> nat \<Rightarrow> nat \<Rightarrow> bool option" where
  "decideServiceOnline prev healthy consecutiveFailures offlineThreshold =
     (if healthy then Some True else if consecutiveFailures \<ge> offlineThreshold then Some False else prev)"

record healthState =
  hs_failures :: nat
  hs_online :: "bool option"

definition runCheck :: "healthState \<Rightarrow> bool \<Rightarrow> healthState" where
  "runCheck s healthy =
     (let failures = (if healthy then 0 else hs_failures s + 1) in
      \<lparr>hs_failures = failures, hs_online = decideServiceOnline (hs_online s) healthy failures 2\<rparr>)"

section \<open>The history\<close>

record historyRecord =
  hr_id :: string
  hr_timestamp :: int
  hr_valid :: bool
  hr_checks :: "string list"
  hr_error :: "string option"

text \<open>The object store, keyed by id; \<open>put\<close> replaces the record with the same key.\<close>

definition addHistory :: "historyRecord \<Rightarrow> historyRecord list \<Rightarrow> historyRecord list" where
  "addHistory rec db = filter (\<lambda>r. hr_id r \<noteq> hr_id rec) db @ [rec]"

text \<open>The order in which a cursor on the timestamp index walks backwards: latest first, then by descending key.\<close>

definition newerEq :: "historyRecord \<Rightarrow> historyRecord \<Rightarrow> bool" where
  "newerEq a b \<longleftrightarrow> hr_timestamp b < hr_timestamp a \<or> hr_timestamp a = hr_timestamp b \<and> str_le (hr_id b) (hr_id a)"

fun cursorWalk :: "nat \<Rightarrow> nat \<Rightarrow> nat \<Rightarrow> historyRecord list \<Rightarrow> historyRecord list \<Rightarrow> historyRecord list" where
  "cursorWalk offset limit skipped records [] = records"
| "cursorWalk offset limit skipped records (cursor # rest) =
     (if length records \<ge> limit then records
      else if skipped < offset then cursorWalk offset limit (skipped + 1) records rest
      else cursorWalk offset limit skipped (records @ [cursor]) rest)"

record historyPage =
  hp_records :: "historyRecord list"
  hp_total :: nat

definition listHistory :: "nat \<Rightarrow> nat \<Rightarrow> historyRecord list \<Rightarrow> historyPage" where
  "listHistory offset limit db =
     \<lparr>hp_records = cursorWalk offset limit 0 [] (sortBy newerEq db), hp_total = length db\<rparr>"

definition clearHistory :: "historyRecord list \<Rightarrow> historyRecord list" where
  "clearHistory db = []"

section \<open>Lemmas\<close>

text \<open>What each check of the catalog asks for, and the route the registry has for its predicate.\<close>

definition CHECK_MEANINGS :: "(string \<times> owlPredicate) list" where
  "CHECK_MEANINGS =
     [(''age_18'', Age_gte 18), (''age_21'', Age_gte 21), (''age_65'', Age_gte 65), (''eu_citizen'', Nationality_in EU_COUNTRY_CODES),
      (''verified_resident'', Residency_in EU_COUNTRY_CODES), (''kyc_basic'', Kyc_gte 1), (''kyc_substantial'', Kyc_gte 2),
      (''kyc_high'', Kyc_gte 3), (''email_verified'', Email_verified)]"

definition REGISTRY_ROUTES :: "(string \<times> string) list" where
  "REGISTRY_ROUTES =
     [(''age:gte'', ''age_over''), (''nationality:in'', ''nationality_in''), (''kyc:>=basic'', ''verification_level''),
      (''kyc:>=substantial'', ''verification_level''), (''kyc:>=high'', ''verification_level''), (''residency:in'', ''resident_in''),
      (''email:verified'', ''email_verified'')]"

definition registryOk :: "predicateInfo list \<Rightarrow> bool" where
  "registryOk registry \<longleftrightarrow>
     list_all (\<lambda>(pid, route). find (\<lambda>p. pi_id p = pid) registry = Some \<lparr>pi_id = pid, pi_route = route\<rparr>) REGISTRY_ROUTES"

definition checkPredicate :: "string \<Rightarrow> string" where
  "checkPredicate c = (case map_of CHECK_REQUESTS c of None \<Rightarrow> [] | Some req \<Rightarrow> cr_predicateId req)"

definition checkParam :: "string \<Rightarrow> predicateParamInput option" where
  "checkParam c = (case map_of CHECK_REQUESTS c of None \<Rightarrow> None | Some req \<Rightarrow> cr_param req)"

definition checkInfo :: "string \<Rightarrow> predicateInfo" where
  "checkInfo c = \<lparr>pi_id = checkPredicate c, pi_route = the_or [] (map_of REGISTRY_ROUTES (checkPredicate c))\<rparr>"

definition inCatalog :: "string \<Rightarrow> bool" where
  "inCatalog c \<longleftrightarrow> c \<in> set (map fst CHECK_REQUESTS)"

text \<open>The facts about the nine checks of the catalog.\<close>

lemma catalog_facts:
  assumes "inCatalog c"
  shows "map_of CHECK_REQUESTS c = Some \<lparr>cr_predicateId = checkPredicate c, cr_param = checkParam c\<rparr>"
    "map_of REGISTRY_ROUTES (checkPredicate c) = Some (pi_route (checkInfo c))"
    "predicateForRoute (checkInfo c) (checkParam c) = map_of CHECK_MEANINGS c" "map_of CHECK_MEANINGS c \<noteq> None"
    "checkPredicate c \<noteq> ''personhood:unique''"
  using assms
  by (auto simp: inCatalog_def CHECK_REQUESTS_def checkPredicate_def checkParam_def checkInfo_def REGISTRY_ROUTES_def
      CHECK_MEANINGS_def predicateForRoute_def the_or_def)

lemma registry_finds:
  assumes "registryOk registry" "inCatalog c"
  shows "find (\<lambda>p. pi_id p = checkPredicate c) registry = Some (checkInfo c)"
proof -
  have "(checkPredicate c, pi_route (checkInfo c)) \<in> set REGISTRY_ROUTES"
    using catalog_facts(2)[OF assms(2)] by (rule map_of_SomeD)
  then show ?thesis using assms(1) unfolding registryOk_def list_all_iff by (fastforce simp: checkInfo_def)
qed

lemma addCheck_catalog:
  assumes "registryOk registry" "inCatalog c"
  shows "addCheck registry c acc =
    (if checkPredicate c \<in> pi_id ` set (fst acc) then fst acc else fst acc @ [checkInfo c],
     case checkParam c of None \<Rightarrow> snd acc | Some p \<Rightarrow> AList.update (checkPredicate c) p (snd acc))"
  using registry_finds[OF assms] by (simp add: addCheck_def catalog_facts(1)[OF assms(2)] checkInfo_def split: option.split)

lemma buildSelected_distinct:
  assumes "registryOk registry" "list_all inCatalog selected" "distinct (map checkPredicate selected)"
  shows "fst (buildSelectedRequest registry selected) = map checkInfo selected \<and>
    (\<forall>pid. map_of (snd (buildSelectedRequest registry selected)) pid =
       (case find (\<lambda>c. checkPredicate c = pid) selected of None \<Rightarrow> None | Some c \<Rightarrow> checkParam c))"
  using assms(2,3)
proof (induction selected rule: rev_induct)
  case Nil
  then show ?case by (simp add: buildSelectedRequest_def)
next
  case (snoc c selected)
  let ?acc = "buildSelectedRequest registry selected"
  have IH: "fst ?acc = map checkInfo selected"
    "map_of (snd ?acc) pid = (case find (\<lambda>c. checkPredicate c = pid) selected of None \<Rightarrow> None | Some c \<Rightarrow> checkParam c)" for pid
    using snoc by auto
  have step: "buildSelectedRequest registry (selected @ [c]) = addCheck registry c ?acc" by (simp add: buildSelectedRequest_def)
  have new: "checkPredicate c \<notin> checkPredicate ` set selected" using snoc.prems(2) by simp
  have "find (\<lambda>c. checkPredicate c = pid) (selected @ [c]) =
      (case find (\<lambda>c. checkPredicate c = pid) selected of None \<Rightarrow> if checkPredicate c = pid then Some c else None | r \<Rightarrow> r)" for pid
    by (induction selected) auto
  moreover have "find (\<lambda>d. checkPredicate d = checkPredicate c) selected = None" using new by (simp add: find_None_iff) (metis image_eqI)
  moreover have "checkPredicate c \<notin> pi_id ` set (fst ?acc)" using new by (auto simp: IH(1) checkInfo_def)
  ultimately show ?case
    using snoc.prems(1) addCheck_catalog[OF assms(1), of c ?acc]
    by (auto simp: step IH update_conv' fun_upd_def split: option.splits)
qed

lemma find_checkPredicate:
  "distinct (map checkPredicate selected) \<Longrightarrow> c \<in> set selected \<Longrightarrow> find (\<lambda>d. checkPredicate d = checkPredicate c) selected = Some c"
  by (induction selected) auto

lemma healthLoop_iff: "healthLoop check i k \<longleftrightarrow> (\<exists>j. i \<le> j \<and> j < i + k \<and> check j = Inr True)"
proof (induction k arbitrary: i)
  case (Suc k)
  have "(\<exists>j. i \<le> j \<and> j < i + Suc k \<and> check j = Inr True) \<longleftrightarrow>
      check i = Inr True \<or> (\<exists>j. Suc i \<le> j \<and> j < Suc i + k \<and> check j = Inr True)"
    by (metis Suc_leD Suc_leI add_Suc_right add_Suc_shift le_eq_less_or_eq less_add_Suc1)
  then show ?case by (simp add: Suc.IH)
qed simp

text \<open>The banner as a function of the checks so far: online after a healthy one, offline after two unhealthy ones in a
  row, and otherwise what it was before the single failure.\<close>

fun banner :: "bool list \<Rightarrow> bool option" where
  "banner [] = None"
| "banner (True # _) = Some True"
| "banner [False] = None"
| "banner (False # True # _) = Some True"
| "banner (False # False # _) = Some False"

definition failuresSince :: "bool list \<Rightarrow> nat" where
  "failuresSince hs = length (takeWhile Not hs)"

lemma runChecks_state:
  "foldr (\<lambda>h s. runCheck s h) hs \<lparr>hs_failures = 0, hs_online = None\<rparr> = \<lparr>hs_failures = failuresSince hs, hs_online = banner hs\<rparr>"
proof (induction hs)
  case (Cons h hs)
  then show ?case by (cases hs rule: banner.cases; cases h) (auto simp: runCheck_def Let_def decideServiceOnline_def failuresSince_def)
qed (simp add: failuresSince_def)

lemma cursorWalk_eq: "length records \<le> limit \<Longrightarrow> skipped \<le> offset \<Longrightarrow> (records \<noteq> [] \<longrightarrow> skipped = offset) \<Longrightarrow>
    cursorWalk offset limit skipped records cs = records @ take (limit - length records) (drop (offset - skipped) cs)"
proof (induction cs arbitrary: skipped records)
  case (Cons c cs)
  consider "length records \<ge> limit" | "length records < limit" "skipped < offset" | "length records < limit" "skipped = offset"
    using Cons.prems(2) by linarith
  then show ?case
  proof cases
    case 2
    then have "offset - skipped = Suc (offset - Suc skipped)" by simp
    then show ?thesis using 2 Cons.IH[of records "Suc skipped"] Cons.prems by auto
  next
    case 3
    then have "limit - length records = Suc (limit - Suc (length records))" by simp
    then show ?thesis using 3 Cons.IH[of "records @ [c]" skipped] Cons.prems by auto
  qed simp
qed simp

section \<open>Theorems\<close>

text \<open>The health check fails only when every attempt fails, and the banner says offline only after two failed checks in a
  row and online at once after a healthy one.\<close>

theorem banner_debounced:
  "checkHealthWithRetry check n \<longleftrightarrow> (\<exists>j < n. check j = Inr True)"
  "hs_online (foldl runCheck \<lparr>hs_failures = 0, hs_online = None\<rparr> hs) = banner (rev hs)"
  by (auto simp: checkHealthWithRetry_def healthLoop_iff) (simp add: foldl_conv_foldr runChecks_state)

text \<open>A page of the history is the part of the records, newest first, that its offset and limit say; consecutive pages
  put together are one larger page.\<close>

theorem history_pages:
  "hp_records (listHistory offset limit db) = take limit (drop offset (sortBy newerEq db))"
  "hp_records (listHistory offset (m + n) db) = hp_records (listHistory offset m db) @ hp_records (listHistory (offset + m) n db)"
  by (simp_all add: listHistory_def cursorWalk_eq take_add add.commute)

text \<open>C38: For checks that rest on different predicates the verifier app asks for exactly what was selected: one query per
  check, in order, with the predicate that the check stands for.\<close>

theorem selected_checks_requested:
  assumes "registryOk registry" "list_all inCatalog selected" "distinct (map checkPredicate selected)"
  shows "credentials (selectedDcql registry selected) =
    map (\<lambda>c. owlCredentialQuery (sanitizeId (checkPredicate c)) (the (map_of CHECK_MEANINGS c))) selected"
proof -
  obtain params where built: "buildSelectedRequest registry selected = (map checkInfo selected, params)"
    and params: "\<And>pid. map_of params pid = (case find (\<lambda>c. checkPredicate c = pid) selected of None \<Rightarrow> None | Some c \<Rightarrow> checkParam c)"
    using buildSelected_distinct[OF assms] by (metis prod.collapse)
  have "queryFor params (checkInfo c) = owlCredentialQuery (sanitizeId (checkPredicate c)) (the (map_of CHECK_MEANINGS c))"
    if "c \<in> set selected" for c
  proof -
    have "inCatalog c" using assms(2) that by (simp add: list_all_iff)
    moreover have "map_of params (pi_id (checkInfo c)) = checkParam c"
      using params find_checkPredicate[OF assms(3) that] by (simp add: checkInfo_def)
    ultimately show ?thesis using catalog_facts(3,4)[of c] by (auto simp: queryFor_def checkInfo_def[of c])
  qed
  moreover have "filter (\<lambda>p. pi_id p \<noteq> ''personhood:unique'') (map checkInfo selected) = map checkInfo selected"
    using assms(2) catalog_facts(5) by (auto simp: filter_id_conv list_all_iff checkInfo_def)
  ultimately show ?thesis by (simp add: selectedDcql_def built buildDcqlFromPredicates_def)
qed

text \<open>Two checks on the same predicate become one query, for the one selected last: with \<open>Age 21\<close> and then \<open>Age 18\<close>
  selected the holder is asked to be 18, although the screen shows both checks as selected.\<close>

theorem overlapping_checks_collapse:
  assumes "registryOk registry" "inCatalog a" "inCatalog b" "checkPredicate a = checkPredicate b" "checkParam b \<noteq> None"
  shows "credentials (selectedDcql registry [a, b]) =
    [owlCredentialQuery (sanitizeId (checkPredicate b)) (the (map_of CHECK_MEANINGS b))]"
proof -
  obtain pa where pa: "buildSelectedRequest registry [a] = ([checkInfo a], pa)"
    using addCheck_catalog[OF assms(1,2), of "([], [])"] by (simp add: buildSelectedRequest_def)
  obtain p where p: "checkParam b = Some p" using assms(5) by blast
  have same: "checkInfo a = checkInfo b" using assms(4) by (simp add: checkInfo_def)
  have "buildSelectedRequest registry [a, b] = ([checkInfo b], AList.update (checkPredicate b) p pa)"
    using addCheck_catalog[OF assms(1,3), of "([checkInfo a], pa)"] pa p same by (simp add: buildSelectedRequest_def checkInfo_def)
  moreover have "queryFor (AList.update (checkPredicate b) p pa) (checkInfo b) =
      owlCredentialQuery (sanitizeId (checkPredicate b)) (the (map_of CHECK_MEANINGS b))"
    using catalog_facts(3,4)[OF assms(3)] p by (auto simp: queryFor_def update_conv' checkInfo_def[of b])
  ultimately show ?thesis
    using catalog_facts(5)[OF assms(3)] by (simp add: selectedDcql_def buildDcqlFromPredicates_def checkInfo_def)
qed

section \<open>Witnesses\<close>

definition exRegistry :: "predicateInfo list" where
  "exRegistry = map (\<lambda>(i, r). \<lparr>pi_id = i, pi_route = r\<rparr>) (REGISTRY_ROUTES @ [(''age:range'', ''age_range''), (''personhood:unique'', ''unique_person'')])"

lemma exRegistry_ok: "registryOk exRegistry"
  by (simp add: registryOk_def exRegistry_def REGISTRY_ROUTES_def)

theorem selected_checks_requested_witness:
  "credentials (selectedDcql exRegistry [''age_21'', ''kyc_high'']) =
     [owlCredentialQuery ''age_gte'' (Age_gte 21), owlCredentialQuery ''kyc___high'' (Kyc_gte 3)]"
proof -
  have "list_all inCatalog [''age_21'', ''kyc_high'']" by (simp add: inCatalog_def CHECK_REQUESTS_def)
  moreover have "checkPredicate ''age_21'' = ''age:gte''" "checkPredicate ''kyc_high'' = ''kyc:>=high''"
    by (simp_all add: checkPredicate_def CHECK_REQUESTS_def)
  moreover have "sanitizeId ''age:gte'' = ''age_gte''" "sanitizeId ''kyc:>=high'' = ''kyc___high''" by code_simp+
  ultimately show ?thesis
    using selected_checks_requested[OF exRegistry_ok, of "[''age_21'', ''kyc_high'']"] by (simp add: CHECK_MEANINGS_def)
qed

theorem overlapping_checks_collapse_witness:
  "credentials (selectedDcql exRegistry [''age_21'', ''age_18'']) = [owlCredentialQuery ''age_gte'' (Age_gte 18)]"
proof -
  have "inCatalog ''age_21''" "inCatalog ''age_18''" by (simp_all add: inCatalog_def CHECK_REQUESTS_def)
  moreover have "checkPredicate ''age_21'' = ''age:gte''" "checkPredicate ''age_18'' = ''age:gte''" "checkParam ''age_18'' \<noteq> None"
    by (simp_all add: checkPredicate_def checkParam_def CHECK_REQUESTS_def)
  moreover have "sanitizeId ''age:gte'' = ''age_gte''" by code_simp
  ultimately show ?thesis
    using overlapping_checks_collapse[OF exRegistry_ok, of "''age_21''" "''age_18''"] by (simp add: CHECK_MEANINGS_def)
qed

end
