(* ===== verification/Verifier_App.thy ===== *)
theory Verifier_App
  imports Verifier_Checks Presentation
begin

text \<open>
  The verifier app's session machine, \<open>App\<close> of \<open>packages/verifier-app/src/App.tsx\<close>: the operator selects checks, scans a
  holder's code, and the app sends the DCQL request once the session is ready and shows the verdict on the holder's
  response.

  The component is a machine over the events of a browser.  Refs and state are fields of one record; a ref that an
  effect mirrors is updated by a render.  \<open>encodeURIComponent\<close>, the path of a URL, the origin of the page and the
  build-time API key are parameters.  Toasts and the console are left out, and so is the unmount of this root component.
\<close>

section \<open>State\<close>

datatype vstep = Step_idle | Step_scanning | Step_connecting | Step_selecting | Step_waiting | Step_verifying | Step_result | Step_error

definition RECOVERABLE_STEPS :: "vstep list" where
  "RECOVERABLE_STEPS = [Step_connecting, Step_selecting, Step_waiting]"

definition MAX_QUICK_RECONNECTS :: nat where "MAX_QUICK_RECONNECTS = 2"

text \<open>A socket with the engagement its handlers close over.\<close>

record vsocket =
  vs_url :: string
  vs_engagement :: json
  vs_state :: readyState

record sentRequest =
  sr_sessionId :: string
  sr_verifierName :: string
  sr_verifierId :: string
  sr_dcql :: dcqlRequest
  sr_nonce :: string

record verifierApp =
  va_step :: vstep
  va_shownStep :: vstep
  va_result :: "verdict option"
  va_denied :: bool
  va_statusMessage :: string
  va_engagement :: "json option"
  va_errorMessage :: string
  va_displayName :: string
  va_selected :: "string list"
  va_registry :: "predicateInfo list option"
  va_displayNameRef :: string
  va_selectedRef :: "string list"
  va_registryRef :: "predicateInfo list option"
  va_ws :: "nat option"
  va_engagementRef :: "json option"
  va_reconnectAttempt :: nat
  va_reconnectTimer :: "nat option"
  va_requestSent :: bool
  va_sentDcql :: "dcqlRequest option"
  va_nonce :: "string option"
  va_sockets :: "vsocket list"
  va_timers :: "(nat \<times> json) list"
  va_timerCount :: nat
  va_fetching :: nat
  va_sends :: "(nat \<times> readyState \<times> sentRequest) list"
  va_calls :: "dcqlCall list"
  va_unsettled :: "nat list"
  va_history :: "(bool \<times> string list \<times> string option) list"

definition initialApp :: "string \<Rightarrow> verifierApp" where
  "initialApp displayName =
     \<lparr>va_step = Step_idle, va_shownStep = Step_idle, va_result = None, va_denied = False, va_statusMessage = [], va_engagement = None,
      va_errorMessage = [], va_displayName = displayName, va_selected = [''age_18''], va_registry = None,
      va_displayNameRef = displayName, va_selectedRef = [''age_18''], va_registryRef = None, va_ws = None, va_engagementRef = None,
      va_reconnectAttempt = 0, va_reconnectTimer = None, va_requestSent = False, va_sentDcql = None, va_nonce = None,
      va_sockets = [], va_timers = [], va_timerCount = 0, va_fetching = 0, va_sends = [], va_calls = [], va_unsettled = [],
      va_history = []\<rparr>"

record appEnv =
  ae_config :: configEnv
  ae_overrideKey :: "string option"
  ae_encode :: "string \<Rightarrow> string"
  ae_pathname :: "string \<Rightarrow> string option"
  ae_origin :: string

datatype appEvent =
    Continue "bool option"
  | QrScanned string
  | Opens nat
  | Receives nat string
  | Closes nat nat
  | ReconnectTimer nat
  | PageWakes
  | Renders
  | ToggleCheck string
  | SetSelected "string list"
  | SetDisplayName string
  | RegistryPrefetched "predicateInfo list res"
  | RegistryFetched "predicateInfo list res"
  | VerifyReturns nat serviceReply
  | BackToHome
  | VerifyAnother

section \<open>Steps and sockets\<close>

definition recoverable :: "vstep \<Rightarrow> bool" where
  "recoverable s \<longleftrightarrow> s \<in> set RECOVERABLE_STEPS"

definition transitionStep :: "vstep \<Rightarrow> verifierApp \<Rightarrow> verifierApp" where
  "transitionStep s a = a\<lparr>va_step := s\<rparr>"

definition goToError :: "string \<Rightarrow> verifierApp \<Rightarrow> verifierApp" where
  "goToError msg a =
     (if va_step a \<in> {Step_verifying, Step_result, Step_error} then a
      else (transitionStep Step_error (a\<lparr>va_errorMessage := msg\<rparr>))\<lparr>va_engagement := None\<rparr>)"

definition recordHistory :: "verdict \<Rightarrow> verifierApp \<Rightarrow> verifierApp" where
  "recordHistory r a =
     a\<lparr>va_history := va_history a @
       [(vd_valid r,
         map friendlyCheckLabel (filter (\<lambda>k. k \<notin> set [''issuerKey'', ''ownerKey'', ''rootHash'', ''salt'']) (vd_subjects r)),
         vd_error r)]\<rparr>"

definition closeSocket :: "nat option \<Rightarrow> vsocket list \<Rightarrow> vsocket list" where
  "closeSocket ws socks =
     (case ws of None \<Rightarrow> socks | Some i \<Rightarrow> socks[i := (socks ! i)\<lparr>vs_state := closedBy (vs_state (socks ! i))\<rparr>])"

definition closeWs :: "verifierApp \<Rightarrow> verifierApp" where
  "closeWs a =
     a\<lparr>va_timers := (case va_reconnectTimer a of None \<Rightarrow> va_timers a | Some t \<Rightarrow> filter (\<lambda>x. fst x \<noteq> t) (va_timers a)),
       va_reconnectTimer := None, va_engagementRef := None, va_requestSent := False, va_nonce := None,
       va_reconnectAttempt := 0, va_sockets := closeSocket (va_ws a) (va_sockets a), va_ws := None\<rparr>"

definition wsConnected :: "verifierApp \<Rightarrow> bool" where
  "wsConnected a = (case va_ws a of None \<Rightarrow> False | Some i \<Rightarrow> connected (vs_state (va_sockets a ! i)))"

section \<open>Requests\<close>

definition engagementWs :: "json option \<Rightarrow> json option" where
  "engagementWs e = (case e of None \<Rightarrow> None | Some eng \<Rightarrow> getField ''ws'' eng)"

definition engagementNonce :: "json \<Rightarrow> string option" where
  "engagementNonce eng = asStr (getField ''nonce'' eng)"

definition theNonce :: "verifierApp \<Rightarrow> json \<Rightarrow> string" where
  "theNonce a eng = the_or (the_or [] (engagementNonce eng)) (va_nonce a)"

text \<open>\<open>va_sends\<close> are the calls of \<open>send\<close>, with the state of the socket: \<open>send\<close> transmits on an open socket, throws on one that
  is still connecting, which ends the handler, and drops the frame on one that is closed.\<close>

definition handleSendRequest ::
  "appEnv \<Rightarrow> predicateInfo list \<Rightarrow> (string \<times> predicateParamInput) list \<Rightarrow> verifierApp \<Rightarrow> verifierApp" where
  "handleSendRequest A predicates params a =
     (case (va_engagementRef a, va_ws a) of
        (Some eng, Some i) \<Rightarrow>
          if falsy (getField ''ws'' eng) then transitionStep Step_idle a
          else
            let ws = the_or JNull (getField ''ws'' eng);
                dcql = buildDcqlFromPredicates predicates params;
                sessionId = (case asStr (getField ''sessionId'' ws) of
                   Some s \<Rightarrow> s
                 | None \<Rightarrow> the_or [] (sessionIdFromWsUrl (ae_pathname A) (the_or [] (asStr (getField ''url'' ws)))));
                request = \<lparr>sr_sessionId = sessionId,
                   sr_verifierName = (if va_displayNameRef a = [] then ''Verifier'' else va_displayNameRef a),
                   sr_verifierId = ae_origin A, sr_dcql = dcql, sr_nonce = theNonce a eng\<rparr>;
                a1 = a\<lparr>va_sentDcql := Some dcql, va_sends := va_sends a @ [(i, vs_state (va_sockets a ! i), request)]\<rparr>
            in if vs_state (va_sockets a ! i) = CONNECTING then a1
               else (transitionStep Step_waiting (a1\<lparr>va_requestSent := True\<rparr>))\<lparr>va_statusMessage := ''Waiting for holder approval'' @ ellipsis\<rparr>
      | _ \<Rightarrow> transitionStep Step_idle a)"

definition sendSelected :: "appEnv \<Rightarrow> predicateInfo list \<Rightarrow> verifierApp \<Rightarrow> verifierApp" where
  "sendSelected A reg a =
     (case buildSelectedRequest reg (va_selectedRef a) of
        (predicates, params) \<Rightarrow>
          if predicates = [] then
            goToError (if va_selectedRef a = [] then ''No checks selected '' @ emDash @ '' go back and pick at least one.''
                       else ''Verification checks are unavailable right now. Try again.'') a
          else handleSendRequest A predicates params a)"

text \<open>\<open>va_fetching\<close> counts the calls that wait for \<open>listPredicates\<close>.\<close>

definition sendConfiguredRequest :: "appEnv \<Rightarrow> verifierApp \<Rightarrow> verifierApp" where
  "sendConfiguredRequest A a =
     (if va_requestSent a then a
      else case va_registryRef a of
             None \<Rightarrow> a\<lparr>va_fetching := va_fetching a + 1\<rparr>
           | Some reg \<Rightarrow> if reg = [] then a\<lparr>va_fetching := va_fetching a + 1\<rparr> else sendSelected A reg a)"

definition registryFetched :: "appEnv \<Rightarrow> predicateInfo list res \<Rightarrow> verifierApp \<Rightarrow> verifierApp" where
  "registryFetched A r a0 =
     (let a = a0\<lparr>va_fetching := va_fetching a0 - 1\<rparr> in
      case r of
        Inl e \<Rightarrow> goToError ''Could not load the verification checks. Try again.'' a
      | Inr reg \<Rightarrow> sendSelected A reg (a\<lparr>va_registryRef := Some reg, va_registry := Some reg\<rparr>))"

section \<open>Verification\<close>

definition handleVerifyPresentation :: "appEnv \<Rightarrow> json \<Rightarrow> string \<Rightarrow> verifierApp \<Rightarrow> verifierApp" where
  "handleVerifyPresentation A vpToken nonce a =
     (let a1 = (transitionStep Step_verifying a)\<lparr>va_statusMessage := ''Verifying proof'' @ ellipsis\<rparr> in
      a1\<lparr>va_calls := va_calls a1 @ [verifyDcqlVpToken vpToken nonce (va_sentDcql a1) (Some (ae_origin A))],
         va_unsettled := va_unsettled a1 @ [length (va_calls a1)]\<rparr>)"

text \<open>The continuation of a verification call, with its catch and finally blocks.\<close>

definition verifyReturned :: "nat \<Rightarrow> serviceReply \<Rightarrow> verifierApp \<Rightarrow> verifierApp" where
  "verifyReturned n reply a0 =
     (let a = a0\<lparr>va_unsettled := removeAll n (va_unsettled a0)\<rparr>;
          ids = objectKeys (dc_vpToken (va_calls a ! n));
          r = (case verdictOf ids reply of
                 Inr v \<Rightarrow> v
               | Inl e \<Rightarrow> \<lparr>vd_valid = False, vd_subjects = [], vd_error = Some (message e)\<rparr>) in
      closeWs (recordHistory r (transitionStep Step_result (a\<lparr>va_result := Some r\<rparr>))))"

definition declined :: verdict where
  "declined = \<lparr>vd_valid = False, vd_subjects = [], vd_error = Some ''Holder declined the request.''\<rparr>"

definition proofFailedVerdict :: verdict where
  "proofFailedVerdict = \<lparr>vd_valid = False, vd_subjects = [], vd_error = Some ''Holder could not generate a valid proof.''\<rparr>"

definition handleWsMessage :: "appEnv \<Rightarrow> string \<Rightarrow> json option \<Rightarrow> json \<Rightarrow> verifierApp \<Rightarrow> verifierApp" where
  "handleWsMessage A ty payload eng a =
     (if ty = ''session_ready'' then
        let nonce = the_or [] (asStr (getField ''nonce'' (the_or JNull payload)));
            a1 = (if nonce = [] then a else a\<lparr>va_nonce := Some nonce\<rparr>) in
        if va_requestSent a1 then a1 else sendConfiguredRequest A a1
      else if ty = ''response'' then
        let vpToken = (case getField ''vpToken'' (the_or JNull payload) of None \<Rightarrow> JObj [] | Some JNull \<Rightarrow> JObj [] | Some v \<Rightarrow> v) in
        if objectKeys vpToken = [] then closeWs (goToError ''Holder sent an empty response.'' a)
        else handleVerifyPresentation A vpToken (theNonce a eng) a
      else if ty = ''consent_denied'' then
        closeWs (recordHistory declined (transitionStep Step_result (a\<lparr>va_denied := True, va_result := None\<rparr>)))
      else if ty = ''proof_failed'' then
        closeWs (recordHistory proofFailedVerdict
          (transitionStep Step_result (a\<lparr>va_denied := False, va_result := Some proofFailedVerdict\<rparr>)))
      else if ty = ''peer_disconnected'' then
        (if recoverable (va_step a)
         then a\<lparr>va_statusMessage := ''Holder disconnected '' @ emDash @ '' waiting for them to reconnect'' @ ellipsis\<rparr> else a)
      else if ty = ''error'' then
        (let text = the_or [] (asStr (getField ''message'' (the_or JNull payload))) in
         goToError (if text = [] then ''Session error.'' else text) a)
      else a)"

section \<open>Connections\<close>

definition connectToSession :: "appEnv \<Rightarrow> json \<Rightarrow> verifierApp \<Rightarrow> verifierApp" where
  "connectToSession A eng a =
     (if falsy (getField ''ws'' eng) then transitionStep Step_idle a
      else if wsConnected a then a
      else
        let a1 = a\<lparr>va_engagementRef := Some eng, va_engagement := Some eng\<rparr>;
            a2 = (if recoverable (va_step a1) then a1
                  else (transitionStep Step_connecting a1)\<lparr>va_statusMessage := ''Connecting to session'' @ ellipsis\<rparr>)
        in case asStr (getField ''url'' (the_or JNull (getField ''ws'' eng))) of
             None \<Rightarrow> a2
           | Some url \<Rightarrow>
               let baseUrl = resolveWsUrl (ae_config A) url None in
               (case getVerifierApiKey (ae_config A) (ae_overrideKey A) of
                  Inl e \<Rightarrow> goToError (message e) a2
                | Inr apiKey \<Rightarrow>
                    let fullUrl = baseUrl @ (if includesStr baseUrl ''?'' then ''&'' else ''?'') @
                          ''role=verifier&apiKey='' @ ae_encode A apiKey in
                    a2\<lparr>va_ws := Some (length (va_sockets a2)),
                       va_sockets := va_sockets a2 @ [\<lparr>vs_url = fullUrl, vs_engagement = eng, vs_state = CONNECTING\<rparr>]\<rparr>))"

definition handleQrScan :: "appEnv \<Rightarrow> string \<Rightarrow> verifierApp \<Rightarrow> verifierApp" where
  "handleQrScan A qr a =
     (if isPresentationEngagement qr then
        (case decodeSessionEngagement (ae_pathname A) qr of
           None \<Rightarrow> a
         | Some eng \<Rightarrow> if falsy (Some eng) then a else connectToSession A eng a)
      else a)"

definition onOpened :: "verifierApp \<Rightarrow> verifierApp" where
  "onOpened a0 =
     (let a = a0\<lparr>va_reconnectAttempt := 0\<rparr> in
      if va_requestSent a \<and> va_step a \<noteq> Step_verifying
      then a\<lparr>va_statusMessage := ''Waiting for holder approval'' @ ellipsis\<rparr> else a)"

definition onClosed :: "json \<Rightarrow> nat \<Rightarrow> verifierApp \<Rightarrow> verifierApp" where
  "onClosed eng closeCode a =
     (if closeCode = 1000 \<or> \<not> recoverable (va_step a) then a
      else if va_reconnectAttempt a < MAX_QUICK_RECONNECTS then
        let t = va_timerCount a in
        a\<lparr>va_reconnectAttempt := va_reconnectAttempt a + 1,
          va_statusMessage := ''Connection lost '' @ emDash @ '' reconnecting'' @ ellipsis,
          va_timers := va_timers a @ [(t, eng)], va_timerCount := Suc t, va_reconnectTimer := Some t\<rparr>
      else a\<lparr>va_statusMessage := ''Waiting to reconnect'' @ ellipsis\<rparr>)"

definition wakeUp :: "appEnv \<Rightarrow> verifierApp \<Rightarrow> verifierApp" where
  "wakeUp A a =
     (case va_engagementRef a of
        None \<Rightarrow> a
      | Some eng \<Rightarrow>
          if \<not> recoverable (va_shownStep a) \<or> \<not> recoverable (va_step a) \<or> wsConnected a then a
          else connectToSession A eng (a\<lparr>va_reconnectAttempt := 0\<rparr>))"

definition resetSession :: "verifierApp \<Rightarrow> verifierApp" where
  "resetSession a =
     closeWs (a\<lparr>va_result := None, va_denied := False, va_engagement := None, va_statusMessage := [], va_errorMessage := [],
                va_sentDcql := None\<rparr>)"

definition toggleCheck :: "string \<Rightarrow> verifierApp \<Rightarrow> verifierApp" where
  "toggleCheck i a =
     a\<lparr>va_selected := (if i \<in> set (va_selected a) then filter (\<lambda>x. x \<noteq> i) (va_selected a) else va_selected a @ [i])\<rparr>"

section \<open>The machine\<close>

definition socketIn :: "nat \<Rightarrow> readyState list \<Rightarrow> verifierApp \<Rightarrow> bool" where
  "socketIn i sts a \<longleftrightarrow> i < length (va_sockets a) \<and> vs_state (va_sockets a ! i) \<in> set sts"

definition setVsState :: "nat \<Rightarrow> readyState \<Rightarrow> verifierApp \<Rightarrow> verifierApp" where
  "setVsState i st a = a\<lparr>va_sockets := (va_sockets a)[i := (va_sockets a ! i)\<lparr>vs_state := st\<rparr>]\<rparr>"

fun appStep :: "appEnv \<Rightarrow> verifierApp \<Rightarrow> appEvent \<Rightarrow> verifierApp" where
  "appStep A a (Continue serviceOnline) = (if serviceOnline = Some False then a else transitionStep Step_scanning a)"
| "appStep A a (QrScanned qr) = handleQrScan A qr a"
| "appStep A a (Opens i) = (if socketIn i [CONNECTING] a then onOpened (setVsState i OPEN a) else a)"
| "appStep A a (Receives i frame) =
     (if socketIn i [OPEN] a
      then (case readMessage frame of
              None \<Rightarrow> a
            | Some (ty, payload) \<Rightarrow> handleWsMessage A ty payload (vs_engagement (va_sockets a ! i)) a)
      else a)"
| "appStep A a (Closes i closeCode) =
     (if socketIn i [CONNECTING, OPEN, CLOSING] a
      then onClosed (vs_engagement (va_sockets a ! i)) closeCode (setVsState i CLOSED a) else a)"
| "appStep A a (ReconnectTimer t) =
     (case map_of (va_timers a) t of
        None \<Rightarrow> a
      | Some eng \<Rightarrow> connectToSession A eng (a\<lparr>va_timers := filter (\<lambda>x. fst x \<noteq> t) (va_timers a)\<rparr>))"
| "appStep A a PageWakes = wakeUp A a"
| "appStep A a Renders =
     a\<lparr>va_shownStep := va_step a, va_displayNameRef := va_displayName a, va_selectedRef := va_selected a, va_registryRef := va_registry a\<rparr>"
| "appStep A a (ToggleCheck i) = toggleCheck i a"
| "appStep A a (SetSelected ids) = a\<lparr>va_selected := ids\<rparr>"
| "appStep A a (SetDisplayName s) = a\<lparr>va_displayName := s\<rparr>"
| "appStep A a (RegistryPrefetched r) = (case r of Inl e \<Rightarrow> a | Inr reg \<Rightarrow> a\<lparr>va_registry := Some reg\<rparr>)"
| "appStep A a (RegistryFetched r) = (if va_fetching a > 0 then registryFetched A r a else a)"
| "appStep A a (VerifyReturns n reply) = (if n \<in> set (va_unsettled a) then verifyReturned n reply a else a)"
| "appStep A a BackToHome = transitionStep Step_idle (resetSession a)"
| "appStep A a VerifyAnother = transitionStep Step_scanning (resetSession a)"

section \<open>What a verdict rests on\<close>

text \<open>The query of the last request that the app gave to a socket since the operator last reset the session, from the
  initial state on; none when it gave no request to a socket.\<close>

definition isReset :: "appEvent \<Rightarrow> bool" where
  "isReset e \<longleftrightarrow> e = BackToHome \<or> e = VerifyAnother"

definition newSends :: "appEnv \<Rightarrow> verifierApp \<Rightarrow> appEvent \<Rightarrow> sentRequest list" where
  "newSends A a e = map (\<lambda>x. snd (snd x)) (drop (length (va_sends a)) (va_sends (appStep A a e)))"

fun asked :: "appEnv \<Rightarrow> verifierApp \<Rightarrow> dcqlRequest option \<Rightarrow> appEvent list \<Rightarrow> dcqlRequest option" where
  "asked A a q [] = q"
| "asked A a q (e # es) =
     asked A (appStep A a e)
       (if isReset e then None else if newSends A a e = [] then q else Some (sr_dcql (last (newSends A a e)))) es"

definition appRun :: "appEnv \<Rightarrow> string \<Rightarrow> appEvent list \<Rightarrow> verifierApp" where
  "appRun A name es = run_events (appStep A) (initialApp name) es"

definition askedIn :: "appEnv \<Rightarrow> string \<Rightarrow> appEvent list \<Rightarrow> dcqlRequest option" where
  "askedIn A name es = asked A (initialApp name) None es"

text \<open>The token of a response.\<close>

definition tokenOf :: "json option \<Rightarrow> json" where
  "tokenOf payload = (case getField ''vpToken'' (the_or JNull payload) of None \<Rightarrow> JObj [] | Some JNull \<Rightarrow> JObj [] | Some v \<Rightarrow> v)"



subsection \<open>What one event changes\<close>

lemma appRun_snoc: "appRun A name (es @ [e]) = appStep A (appRun A name es) e"
  by (simp add: appRun_def run_events_append del: appStep.simps)

definition sameLog :: "verifierApp \<Rightarrow> verifierApp \<Rightarrow> bool" where
  "sameLog a a' \<longleftrightarrow>
     va_calls a' = va_calls a \<and> va_sentDcql a' = va_sentDcql a \<and> va_unsettled a' = va_unsettled a \<and>
     va_sends a' = va_sends a \<and> va_result a' = va_result a"

lemma sameLog_refl [simp]: "sameLog a a"
  by (simp add: sameLog_def)

lemma sameLog_trans: "sameLog a a' \<Longrightarrow> sameLog a' a'' \<Longrightarrow> sameLog a a''"
  by (simp add: sameLog_def)

lemma log_fields [simp]:
  "va_calls (closeWs a) = va_calls a" "va_sentDcql (closeWs a) = va_sentDcql a" "va_unsettled (closeWs a) = va_unsettled a"
  "va_sends (closeWs a) = va_sends a" "va_result (closeWs a) = va_result a" "va_step (closeWs a) = va_step a"
  "va_calls (recordHistory r a) = va_calls a" "va_sentDcql (recordHistory r a) = va_sentDcql a"
  "va_unsettled (recordHistory r a) = va_unsettled a" "va_sends (recordHistory r a) = va_sends a"
  "va_result (recordHistory r a) = va_result a" "va_step (recordHistory r a) = va_step a"
  by (simp_all add: closeWs_def recordHistory_def)

lemma sameLog_goToError: "sameLog a (goToError m a)"
  by (simp add: sameLog_def goToError_def transitionStep_def)

lemma sameLog_connect: "sameLog a (connectToSession A eng a)"
  by (simp add: connectToSession_def Let_def transitionStep_def sameLog_def goToError_def split: option.split sum.split)

lemma sameLog_scan: "sameLog a (handleQrScan A qr a)"
  using sameLog_connect by (simp add: handleQrScan_def split: option.split)

lemma sameLog_wake: "sameLog a (wakeUp A a)"
  using sameLog_connect[of "a\<lparr>va_reconnectAttempt := 0\<rparr>" A] by (simp add: wakeUp_def sameLog_def split: option.split)

lemma sameLog_timer: "sameLog a (connectToSession A eng (a\<lparr>va_timers := ts\<rparr>))"
  using sameLog_connect[of "a\<lparr>va_timers := ts\<rparr>" A eng] by (simp add: sameLog_def)

lemma sameLog_sockets: "sameLog a (onOpened (setVsState i OPEN a))" "sameLog a (onClosed eng closeCode (setVsState i CLOSED a))"
  by (simp_all add: onOpened_def onClosed_def setVsState_def sameLog_def Let_def)

text \<open>Sending: at most one call of \<open>send\<close>, with the query that is remembered, for the selected checks.\<close>

definition sendsOne :: "verifierApp \<Rightarrow> predicateInfo list \<Rightarrow> verifierApp \<Rightarrow> bool" where
  "sendsOne a reg a' \<longleftrightarrow>
     sameLog a a' \<or>
     (\<exists>x. va_sends a' = va_sends a @ [x] \<and> va_sentDcql a' = Some (sr_dcql (snd (snd x))) \<and>
        sr_dcql (snd (snd x)) = selectedDcql reg (va_selectedRef a) \<and>
        va_calls a' = va_calls a \<and> va_unsettled a' = va_unsettled a \<and> va_result a' = va_result a)"

lemma sendSelected_one: "sendsOne a reg (sendSelected A reg a)"
proof -
  obtain ps params where b: "buildSelectedRequest reg (va_selectedRef a) = (ps, params)" by fastforce
  have d: "selectedDcql reg (va_selectedRef a) = buildDcqlFromPredicates ps params" by (simp add: selectedDcql_def b)
  have "sameLog a (transitionStep st a)" for st by (simp add: sameLog_def transitionStep_def)
  moreover have "sendsOne a reg (handleSendRequest A ps params a)"
    using calculation
    by (auto simp: handleSendRequest_def transitionStep_def Let_def sendsOne_def d split: option.split)
  ultimately show ?thesis using sameLog_goToError by (simp add: sendSelected_def b sendsOne_def)
qed

lemma sendsOne_cong:
  "sameLog a b \<Longrightarrow> va_selectedRef b = va_selectedRef a \<Longrightarrow> sendsOne b reg a' \<Longrightarrow> sendsOne a reg a'"
  by (auto simp: sendsOne_def sameLog_def)

lemma sendConfigured_one: "sameLog a (sendConfiguredRequest A a) \<or> (\<exists>reg. va_registryRef a = Some reg \<and> sendsOne a reg (sendConfiguredRequest A a))"
  using sendSelected_one by (simp add: sendConfiguredRequest_def sameLog_def split: option.split)

lemma fetched_one:
  "sameLog a (registryFetched A r a) \<or> (\<exists>reg. r = Inr reg \<and> sendsOne a reg (registryFetched A r a))"
proof (cases r)
  case (Inl e)
  then show ?thesis using sameLog_goToError[of "a\<lparr>va_fetching := va_fetching a - 1\<rparr>"] by (simp add: registryFetched_def Let_def sameLog_def)
next
  case (Inr reg)
  let ?b = "a\<lparr>va_fetching := va_fetching a - 1, va_registryRef := Some reg, va_registry := Some reg\<rparr>"
  have "sendsOne a reg (sendSelected A reg ?b)" by (rule sendsOne_cong[OF _ _ sendSelected_one]) (simp_all add: sameLog_def)
  then show ?thesis using Inr by (simp add: registryFetched_def Let_def)
qed

text \<open>The effects of an event on the log: a send, a call of the service, a verdict, a reset or nothing.\<close>

datatype effect = Quiet | Asks "predicateInfo list" | Calls dcqlCall | Shows "verdict option" | Resets

fun effects :: "effect \<Rightarrow> verifierApp \<Rightarrow> verifierApp \<Rightarrow> bool" where
  "effects Quiet a a' = sameLog a a'"
| "effects (Asks reg) a a' = sendsOne a reg a'"
| "effects (Calls c) a a' =
     (va_calls a' = va_calls a @ [c] \<and> va_unsettled a' = va_unsettled a @ [length (va_calls a)] \<and> va_sentDcql a' = va_sentDcql a \<and>
      va_sends a' = va_sends a \<and> va_result a' = va_result a)"
| "effects (Shows v) a a' =
     (va_result a' = v \<and> set (va_unsettled a') \<subseteq> set (va_unsettled a) \<and> va_calls a' = va_calls a \<and> va_sentDcql a' = va_sentDcql a \<and>
      va_sends a' = va_sends a)"
| "effects Resets a a' =
     (va_result a' = None \<and> va_sentDcql a' = None \<and> va_calls a' = va_calls a \<and> va_unsettled a' = va_unsettled a \<and> va_sends a' = va_sends a)"

definition callAt :: "appEnv \<Rightarrow> verifierApp \<Rightarrow> nat \<Rightarrow> json \<Rightarrow> dcqlCall" where
  "callAt A a i vpToken =
     verifyDcqlVpToken vpToken (theNonce a (vs_engagement (va_sockets a ! i))) (va_sentDcql a) (Some (ae_origin A))"

definition shownFor :: "nat \<Rightarrow> serviceReply \<Rightarrow> verifierApp \<Rightarrow> verdict" where
  "shownFor n reply a =
     (case verdictOf (objectKeys (dc_vpToken (va_calls a ! n))) reply of
        Inr v \<Rightarrow> v | Inl e \<Rightarrow> \<lparr>vd_valid = False, vd_subjects = [], vd_error = Some (message e)\<rparr>)"

fun effectOf :: "appEnv \<Rightarrow> verifierApp \<Rightarrow> appEvent \<Rightarrow> effect \<Rightarrow> bool" where
  "effectOf A a e Quiet = (\<not> isReset e)"
| "effectOf A a e (Asks reg) = (\<not> isReset e \<and> (va_registryRef a = Some reg \<or> e = RegistryFetched (Inr reg)))"
| "effectOf A a e (Calls c) =
     (\<exists>i frame payload. e = Receives i frame \<and> socketIn i [OPEN] a \<and> readMessage frame = Some (''response'', payload) \<and>
        objectKeys (tokenOf payload) \<noteq> [] \<and> c = callAt A a i (tokenOf payload))"
| "effectOf A a e (Shows v) =
     (\<not> isReset e \<and> (v = None \<or> v = Some proofFailedVerdict \<or>
       (\<exists>n reply. e = VerifyReturns n reply \<and> n \<in> set (va_unsettled a) \<and> v = Some (shownFor n reply a))))"
| "effectOf A a e Resets = isReset e"

lemma effect_message:
  assumes "socketIn i [OPEN] a" "readMessage frame = Some (ty, payload)"
  shows "\<exists>f. effectOf A a (Receives i frame) f \<and>
    effects f a (handleWsMessage A ty payload (vs_engagement (va_sockets a ! i)) a)"
proof -
  let ?eng = "vs_engagement (va_sockets a ! i)"
  let ?a' = "handleWsMessage A ty payload ?eng a"
  have plain: "\<not> isReset (Receives i frame)" by (simp add: isReset_def)
  have quiet: ?thesis if "sameLog a ?a'" using that plain by (intro exI[of _ Quiet]) simp
  consider (ready) "ty = ''session_ready''" | (response) "ty = ''response''" | (denied) "ty = ''consent_denied''"
    | (failed) "ty = ''proof_failed''" | (other) "ty \<notin> {''session_ready'', ''response'', ''consent_denied'', ''proof_failed''}" by blast
  then show ?thesis
  proof cases
    case ready
    define m where "m = the_or [] (asStr (getField ''nonce'' (the_or JNull payload)))"
    define b where "b = (if m = [] then a else a\<lparr>va_nonce := Some m\<rparr>)"
    have b: "sameLog a b" "va_selectedRef b = va_selectedRef a" "va_registryRef b = va_registryRef a" by (simp_all add: b_def sameLog_def)
    have "?a' = (if va_requestSent b then b else sendConfiguredRequest A b)"
      by (simp add: ready handleWsMessage_def Let_def b_def m_def)
    then consider "sameLog a ?a'" | reg where "va_registryRef a = Some reg" "sendsOne a reg ?a'"
      using b sendConfigured_one[of b A] sameLog_trans sendsOne_cong by (auto split: if_splits)
    then show ?thesis
    proof cases
      case 2
      then show ?thesis using plain by (intro exI[of _ "Asks reg"]) simp
    qed (rule quiet)
  next
    case response
    show ?thesis
    proof (cases "objectKeys (tokenOf payload) = []")
      case True
      then have "?a' = closeWs (goToError ''Holder sent an empty response.'' a)"
        by (simp add: response handleWsMessage_def tokenOf_def Let_def)
      then show ?thesis using quiet sameLog_goToError[of a] by (simp add: sameLog_def)
    next
      case False
      then have "?a' = handleVerifyPresentation A (tokenOf payload) (theNonce a ?eng) a"
        by (simp add: response handleWsMessage_def tokenOf_def[symmetric] Let_def)
      then have "effects (Calls (callAt A a i (tokenOf payload))) a ?a'"
        by (simp add: handleVerifyPresentation_def transitionStep_def callAt_def Let_def)
      then show ?thesis using assms False response by (intro exI[of _ "Calls (callAt A a i (tokenOf payload))"]) simp
    qed
  next
    case denied
    then have "effects (Shows None) a ?a'" by (simp add: handleWsMessage_def transitionStep_def)
    then show ?thesis using plain by (intro exI[of _ "Shows None"]) simp
  next
    case failed
    then have "effects (Shows (Some proofFailedVerdict)) a ?a'" by (simp add: handleWsMessage_def transitionStep_def)
    then show ?thesis using plain by (intro exI[of _ "Shows (Some proofFailedVerdict)"]) simp
  next
    case other
    then have "sameLog a ?a'"
      using sameLog_goToError[of a] by (simp add: handleWsMessage_def Let_def) (simp add: sameLog_def)
    then show ?thesis by (rule quiet)
  qed
qed

lemma effect_step: "\<exists>f. effectOf A a e f \<and> effects f a (appStep A a e)"
proof (cases e)
  case (Receives i frame)
  have "\<not> isReset e" by (simp add: Receives isReset_def)
  then show ?thesis
    using effect_message[of i a frame] Receives by (cases "socketIn i [OPEN] a"; cases "readMessage frame") (auto intro: exI[of _ Quiet])
next
  case (RegistryFetched r)
  have "\<not> isReset e" by (simp add: RegistryFetched isReset_def)
  then show ?thesis
    using fetched_one[of a A r] RegistryFetched by (cases "va_fetching a > 0") (auto intro: exI[of _ Quiet] exI[of _ "Asks _"])
next
  case (VerifyReturns n reply)
  have plain: "\<not> isReset e" by (simp add: VerifyReturns isReset_def)
  show ?thesis
  proof (cases "n \<in> set (va_unsettled a)")
    case True
    then have "effects (Shows (Some (shownFor n reply a))) a (appStep A a e)"
      by (auto simp: VerifyReturns verifyReturned_def transitionStep_def shownFor_def Let_def)
    then show ?thesis using True plain VerifyReturns by (intro exI[of _ "Shows (Some (shownFor n reply a))"]) simp
  qed (use plain VerifyReturns in \<open>auto intro: exI[of _ Quiet]\<close>)
next
  case BackToHome
  then show ?thesis by (intro exI[of _ Resets]) (simp add: isReset_def resetSession_def transitionStep_def)
next
  case VerifyAnother
  then show ?thesis by (intro exI[of _ Resets]) (simp add: isReset_def resetSession_def transitionStep_def)
qed (rule exI[of _ Quiet], use sameLog_scan sameLog_wake sameLog_sockets sameLog_timer in
    \<open>simp add: isReset_def sameLog_def transitionStep_def toggleCheck_def split: option.split sum.split\<close>)+

lemma newSends_effects:
  assumes "effectOf A a e f" "effects f a (appStep A a e)"
  shows "va_sentDcql (appStep A a e) =
    (if isReset e then None else if newSends A a e = [] then va_sentDcql a else Some (sr_dcql (last (newSends A a e))))"
  using assms by (cases f) (auto simp: newSends_def sameLog_def sendsOne_def isReset_def simp del: appStep.simps)

lemma asked_remembered: "va_sentDcql (run_events (appStep A) a es) = asked A a (va_sentDcql a) es"
proof (induction es arbitrary: a)
  case (Cons e es)
  obtain f where "effectOf A a e f" "effects f a (appStep A a e)" using effect_step by blast
  from newSends_effects[OF this] Cons[of "appStep A a e"] show ?case by (simp del: appStep.simps)
qed simp

lemma askedIn_sentDcql: "va_sentDcql (appRun A name es) = askedIn A name es"
  using asked_remembered[of A "initialApp name" es] by (simp add: appRun_def askedIn_def initialApp_def)

subsection \<open>The history behind the log\<close>












lemma sent_fields [simp]:
  "va_unsettled (goToError m a) = va_unsettled a" "va_unsettled (handleSendRequest A ps params a) = va_unsettled a"
  "va_unsettled (sendSelected A reg a) = va_unsettled a" "va_unsettled (sendConfiguredRequest A a) = va_unsettled a"
  "va_unsettled (registryFetched A x a) = va_unsettled a"
  by (auto simp: goToError_def handleSendRequest_def sendSelected_def sendConfiguredRequest_def registryFetched_def transitionStep_def
      Let_def split: option.split prod.split sum.split)

lemma unsettled_kept:
  assumes "n \<in> set (va_unsettled a)" "\<forall>r. e \<noteq> VerifyReturns n r"
  shows "n \<in> set (va_unsettled (appStep A a e))"
proof -
  have same: "va_unsettled a' = va_unsettled a" if "sameLog a a'" for a' using that by (simp add: sameLog_def)
  have "n \<in> set (va_unsettled (handleWsMessage A ty payload eng a))" for ty payload eng
    using assms(1) by (simp add: handleWsMessage_def handleVerifyPresentation_def transitionStep_def Let_def)
  moreover have "va_unsettled (connectToSession A eng (a\<lparr>va_timers := ts\<rparr>)) = va_unsettled a" for eng ts
    using sameLog_connect[of "a\<lparr>va_timers := ts\<rparr>" A eng] by (simp add: sameLog_def)
  ultimately show ?thesis
    using assms same[OF sameLog_scan] same[OF sameLog_sockets(1)] same[OF sameLog_sockets(2)] same[OF sameLog_wake]
    by (cases e) (auto simp: verifyReturned_def resetSession_def transitionStep_def toggleCheck_def Let_def split: option.split sum.split)
qed

lemma verdict_shown:
  assumes "n \<in> set (va_unsettled a)" "\<forall>r. VerifyReturns n r \<notin> set es"
  shows "va_step (appStep A (run_events (appStep A) a es) (VerifyReturns n (Answered r))) = Step_result \<and>
    map_option vd_valid (va_result (appStep A (run_events (appStep A) a es) (VerifyReturns n (Answered r)))) = Some (da_valid r) \<and>
    va_ws (appStep A (run_events (appStep A) a es) (VerifyReturns n (Answered r))) = None"
proof -
  have "n \<in> set (va_unsettled (run_events (appStep A) a es))"
    using assms
  proof (induction es arbitrary: a)
    case (Cons e es)
    then have "n \<in> set (va_unsettled (appStep A a e))" by (intro unsettled_kept) auto
    then show ?case using Cons by simp
  qed simp
  then show ?thesis by (simp add: verifyReturned_def transitionStep_def Let_def) (simp add: closeWs_def)
qed

section \<open>Theorems\<close>


text \<open>C37: A response that nobody asked for is verified against nothing.  Take any run in which the app gave no request to a
  socket since the last reset, and a response with a non-empty token on an open socket.  The verification call it makes
  carries a query that asks for no claim and no predicate, whatever checks are selected; and whatever happens before
  the answer to it arrives, a valid answer is shown as a valid result.\<close>

theorem unsolicited_response_verified:
  assumes "askedIn A name es = None" "socketIn i [OPEN] (appRun A name es)"
    and "readMessage frame = Some (''response'', payload)" "objectKeys (tokenOf payload) \<noteq> []"
    and "n = length (va_calls (appRun A name es))" "\<forall>x. VerifyReturns n x \<notin> set gs" "da_valid r"
  shows "\<exists>c v. va_calls (appRun A name (es @ [Receives i frame])) = va_calls (appRun A name es) @ [c] \<and>
    dc_vpToken c = tokenOf payload \<and> dc_query c = openQuery (tokenOf payload) \<and>
    list_all (\<lambda>q. readOwlPredicate q = None \<and> q_claims q = Some []) (credentials (dc_query c)) \<and>
    va_result (appRun A name (es @ Receives i frame # gs @ [VerifyReturns n (Answered r)])) = Some v \<and> vd_valid v \<and>
    va_step (appRun A name (es @ Receives i frame # gs @ [VerifyReturns n (Answered r)])) = Step_result"
proof -
  let ?a = "appRun A name es" and ?t = "tokenOf payload"
  let ?b = "appRun A name (es @ [Receives i frame])"
  have "?b = handleVerifyPresentation A ?t (theNonce ?a (vs_engagement (va_sockets ?a ! i))) ?a"
    using assms(2-4) by (simp add: appRun_snoc handleWsMessage_def tokenOf_def[symmetric] Let_def)
  moreover have "va_sentDcql ?a = None" using assms(1) by (simp add: askedIn_sentDcql)
  ultimately have b: "\<exists>c. va_calls ?b = va_calls ?a @ [c] \<and> dc_vpToken c = ?t \<and> dc_query c = openQuery ?t" "n \<in> set (va_unsettled ?b)"
    using assms(5) by (simp_all add: handleVerifyPresentation_def transitionStep_def Let_def verifyDcqlVpToken_def the_or_def)
  have "appRun A name (es @ Receives i frame # gs @ [VerifyReturns n (Answered r)]) =
      appStep A (run_events (appStep A) ?b gs) (VerifyReturns n (Answered r))"
    by (simp add: appRun_def run_events_append del: appStep.simps)
  then have "\<exists>v. va_result (appRun A name (es @ Receives i frame # gs @ [VerifyReturns n (Answered r)])) = Some v \<and> vd_valid v"
      "va_step (appRun A name (es @ Receives i frame # gs @ [VerifyReturns n (Answered r)])) = Step_result"
    using verdict_shown[OF b(2) assms(6), of A r] assms(7) by (auto simp del: appStep.simps)
  moreover obtain c where c: "va_calls ?b = va_calls ?a @ [c]" "dc_vpToken c = ?t" "dc_query c = openQuery ?t" using b(1) by blast
  moreover have "list_all (\<lambda>q. readOwlPredicate q = None \<and> q_claims q = Some []) (credentials (dc_query c))"
    by (simp add: c(3) openQuery_def readOwlPredicate_def list_all_iff)
  ultimately show ?thesis by blast
qed

text \<open>A verification that is still running decides whatever is on the screen when it returns: after the operator has gone
  back, selected other checks and started another session, its verdict is shown for that session, which it closes.\<close>

theorem verdict_outlives_session:
  assumes "n \<in> set (va_unsettled a)" "\<forall>r. VerifyReturns n r \<notin> set es"
  shows "va_step (appStep A (run_events (appStep A) a es) (VerifyReturns n (Answered r))) = Step_result \<and>
    map_option vd_valid (va_result (appStep A (run_events (appStep A) a es) (VerifyReturns n (Answered r)))) = Some (da_valid r) \<and>
    va_ws (appStep A (run_events (appStep A) a es) (VerifyReturns n (Answered r))) = None"
  using assms by (rule verdict_shown)

text \<open>A request that waited for the predicate registry is sent in the session that is current when the registry arrives: in
  a session that has just been joined it carries the empty nonce, and the nonce that \<open>session_ready\<close> brings afterwards,
  against which the response will be checked, is not asked for again.\<close>

theorem late_request_has_no_nonce:
  assumes "va_fetching a > 0" "isPresentationEngagement qr" "decodeSessionEngagement (ae_pathname A) qr = Some (JObj fs)"
    and "getField ''nonce'' (JObj fs) = None" "getField ''ws'' (JObj fs) = Some (JObj ws)" "getField ''url'' (JObj ws) = Some (JStr url)"
    and "getVerifierApiKey (ae_config A) (ae_overrideKey A) = Inr apiKey" "fst (buildSelectedRequest reg (va_selectedRef a)) \<noteq> []"
    and "nonce \<noteq> []" "j = length (va_sockets a)"
    and "a' = run_events (appStep A) a [VerifyAnother, QrScanned qr, Opens j, RegistryFetched (Inr reg),
      Receives j (wsMessage ''session_ready'' (JObj [(''nonce'', JStr nonce)]))]"
  shows "\<exists>req. va_sends a' = va_sends a @ [(j, OPEN, req)] \<and> sr_nonce req = [] \<and> va_nonce a' = Some nonce"
proof -
  obtain ps params where b: "buildSelectedRequest reg (va_selectedRef a) = (ps, params)" "ps \<noteq> []"
    using assms(8) by (metis prod.collapse)
  define g where "g = run_events (appStep A) a [VerifyAnother, QrScanned qr, Opens j]"
  have len: "length (closeSocket w socks) = length socks" for w socks by (simp add: closeSocket_def split: option.split)
  have g: "va_engagementRef g = Some (JObj fs)" "va_ws g = Some j" "va_nonce g = None" "va_fetching g = va_fetching a"
    "va_sends g = va_sends a" "va_selectedRef g = va_selectedRef a" "j < length (va_sockets g)" "vs_state (va_sockets g ! j) = OPEN"
    using assms(2-7,10)
    by (simp_all add: g_def resetSession_def closeWs_def handleQrScan_def connectToSession_def transitionStep_def wsConnected_def
        socketIn_def setVsState_def onOpened_def recoverable_def RECOVERABLE_STEPS_def Let_def the_or_def len nth_append list_update_append)
  have a': "a' = run_events (appStep A) g [RegistryFetched (Inr reg), Receives j (wsMessage ''session_ready'' (JObj [(''nonce'', JStr nonce)]))]"
    by (simp add: assms(11) g_def)
  have "json_wf (JObj [(''nonce'', JStr nonce)])" by simp
  then show ?thesis
    using g b assms(1,4,5,9)
    by (simp add: a' registryFetched_def sendSelected_def handleSendRequest_def transitionStep_def theNonce_def engagementNonce_def
        socketIn_def readMessage_wsMessage handleWsMessage_def Let_def the_or_def)
qed

section \<open>Witnesses\<close>

text \<open>An engagement in the older form, with its own nonce.\<close>

definition exFields :: "(string \<times> json) list" where
  "exFields = [(''nonce'', JStr ''n''), (''ws'', JObj [(''url'', JStr ''/ws/presentation/s'')])]"

definition exQr :: string where
  "exQr = ENGAGEMENT_PREFIX_LEGACY @ urlsafe (b64body (stringify (JObj exFields)))"

definition exApp :: appEnv where
  "exApp = \<lparr>ae_config = exConfig, ae_overrideKey = Some ''owlid_pk_1'', ae_encode = id, ae_pathname = Some, ae_origin = ''https://bar''\<rparr>"

definition exAnswer :: dcqlAnswer where
  "exAnswer = \<lparr>da_valid = True, da_perCredential = [], da_subjects = [], da_error = None\<rparr>"

definition exResponse :: json where
  "exResponse = JObj [(''vpToken'', JObj [(''any'', JArr [JStr ''t''])])]"

definition exScanned :: "appEvent list" where
  "exScanned = [SetSelected [''age_21''], Renders, Continue (Some True), QrScanned exQr, Opens 0]"

lemma exQr_decodes: "isPresentationEngagement exQr" "decodeSessionEngagement (ae_pathname exApp) exQr = Some (JObj exFields)"
proof -
  have wf: "json_wf (JObj exFields)" by (simp add: exFields_def)
  show "isPresentationEngagement exQr" by (simp add: isPresentationEngagement_def exQr_def)
  have "\<not> startsWith exQr ENGAGEMENT_PREFIX_COMPACT"
    by (simp add: exQr_def ENGAGEMENT_PREFIX_LEGACY_def ENGAGEMENT_PREFIX_COMPACT_def startsWith_def)
  then show "decodeSessionEngagement (ae_pathname exApp) exQr = Some (JObj exFields)"
    using JSON_parse_stringify[OF wf]
    by (simp add: decodeSessionEngagement_def exQr_def urlplain_urlsafe[unfolded urlplain_def] atob_b64body bindR_def)
qed

lemma exKey: "getVerifierApiKey (ae_config exApp) (ae_overrideKey exApp) = Inr ''owlid_pk_1''"
  by (simp add: getVerifierApiKey_def exApp_def startsWith_def nonEmpty_def)

lemma exScanned_state:
  "va_sends (appRun exApp name exScanned) = []" "va_calls (appRun exApp name exScanned) = []" "va_unsettled (appRun exApp name exScanned) = []"
  "va_sentDcql (appRun exApp name exScanned) = None" "socketIn 0 [OPEN] (appRun exApp name exScanned)"
  "vs_engagement (va_sockets (appRun exApp name exScanned) ! 0) = JObj exFields" "va_engagementRef (appRun exApp name exScanned) = Some (JObj exFields)"
  "va_ws (appRun exApp name exScanned) = Some 0" "\<not> va_requestSent (appRun exApp name exScanned)"
  "va_registryRef (appRun exApp name exScanned) = None" "va_selectedRef (appRun exApp name exScanned) = [''age_21'']"
  "va_fetching (appRun exApp name exScanned) = 0"
proof -
  have "getField ''ws'' (JObj exFields) = Some (JObj [(''url'', JStr ''/ws/presentation/s'')])" by (simp add: exFields_def)
  then show "va_sends (appRun exApp name exScanned) = []" "va_calls (appRun exApp name exScanned) = []" "va_unsettled (appRun exApp name exScanned) = []"
    "va_sentDcql (appRun exApp name exScanned) = None" "socketIn 0 [OPEN] (appRun exApp name exScanned)"
    "vs_engagement (va_sockets (appRun exApp name exScanned) ! 0) = JObj exFields" "va_engagementRef (appRun exApp name exScanned) = Some (JObj exFields)"
    "va_ws (appRun exApp name exScanned) = Some 0" "\<not> va_requestSent (appRun exApp name exScanned)"
    "va_registryRef (appRun exApp name exScanned) = None" "va_selectedRef (appRun exApp name exScanned) = [''age_21'']"
    "va_fetching (appRun exApp name exScanned) = 0"
    using exQr_decodes exKey
    by (simp_all add: exScanned_def appRun_def initialApp_def handleQrScan_def connectToSession_def transitionStep_def wsConnected_def socketIn_def
        setVsState_def onOpened_def recoverable_def RECOVERABLE_STEPS_def Let_def the_or_def)
qed

lemma exResponse_read:
  "readMessage (wsMessage ''response'' exResponse) = Some (''response'', Some exResponse)"
  "tokenOf (Some exResponse) = JObj [(''any'', JArr [JStr ''t''])]" "objectKeys (tokenOf (Some exResponse)) \<noteq> []" "da_valid exAnswer"
  using readMessage_wsMessage[of exResponse] by (simp_all add: exResponse_def exAnswer_def tokenOf_def)

theorem unsolicited_response_verified_witness:
  "\<exists>c v. va_calls (appRun exApp ''Bar'' (exScanned @ [Receives 0 (wsMessage ''response'' exResponse)])) = [c] \<and>
     dc_query c = openQuery (JObj [(''any'', JArr [JStr ''t''])]) \<and>
     va_result (appRun exApp ''Bar'' (exScanned @ [Receives 0 (wsMessage ''response'' exResponse), BackToHome, VerifyReturns 0 (Answered exAnswer)])) = Some v \<and>
     vd_valid v"
proof -
  have none: "askedIn exApp ''Bar'' exScanned = None" using askedIn_sentDcql exScanned_state(4) by metis
  have n: "0 = length (va_calls (appRun exApp ''Bar'' exScanned))" by (simp add: exScanned_state(2))
  have gs: "\<forall>x. VerifyReturns 0 x \<notin> set [BackToHome]" by simp
  from unsolicited_response_verified[OF none exScanned_state(5) exResponse_read(1,3) n gs exResponse_read(4)]
  show ?thesis by (auto simp: exScanned_state(2) exResponse_read(2))
qed




end
