(* ===== verification/Wallet_Supervisor.thy ===== *)
theory Wallet_Supervisor
  imports Owl_Prelude
begin

text \<open>
  The upkeep of the sidecar's wallet: the supervisor of \<open>packages/midnight-sidecar/src/wallet-supervisor.ts\<close> with its health
  monitor, its reaper of stale pending transactions, its dust registration loop and its dust alert, and the functions
  of \<open>wallet.ts\<close> that it or the operator scripts call: the dust telemetry and the split of NIGHT into lanes.

  The wallet SDK is a parameter: what its observables emit and whether its calls succeed are events.  The jobs of the
  single-writer chain run one at a time, as \<open>Submit_Pipeline\<close> shows; here a job stays at the head of the queue until the
  event that ends it.  Amounts are unbounded, as the code's bigints.  The calls the supervisor makes when it starts are the
  first job of the queue and the first ticks of a run.
\<close>

section \<open>Health\<close>

text \<open>The progress of a sub-wallet: what \<open>isCompleteWithin()\<close> returns or throws, and the indices of the two shapes.\<close>

record progress =
  pg_completeWithin :: "bool res"
  pg_index :: "(int \<times> int) option"
  pg_id :: "(int \<times> int) option"

record walletState =
  ws_shielded :: "progress option"
  ws_unshielded :: "progress option"
  ws_dust :: "progress option"
  ws_isSynced :: bool
  ws_dustBalance :: "int option res"

definition safeBool :: "bool res option \<Rightarrow> bool" where
  "safeBool r = (case r of Some (Inr b) \<Rightarrow> b | _ \<Rightarrow> False)"

text \<open>A ratio is a numerator and a denominator; the absent one is \<open>NaN\<close>.\<close>

definition safeRatio :: "progress option \<Rightarrow> (int \<times> int) option" where
  "safeRatio p =
     (case p of
        None \<Rightarrow> None
      | Some g \<Rightarrow>
          (case (pg_index g, pg_id g) of
             (Some (applied, hi), _) \<Rightarrow> Some (if hi = 0 then (1, 1) else (applied, hi))
           | (None, Some (applied, hi)) \<Rightarrow> Some (if hi = 0 then (1, 1) else (applied, hi))
           | (None, None) \<Rightarrow> None))"

record walletHealth =
  wh_ready :: bool
  wh_fullySynced :: bool
  wh_shieldedConnected :: bool
  wh_unshieldedConnected :: bool
  wh_dustConnected :: bool
  wh_ratios :: "(int \<times> int) option list"
  wh_dust :: int
  wh_at :: int

definition completeWithin :: "progress option \<Rightarrow> bool" where
  "completeWithin p = safeBool (map_option pg_completeWithin p)"

definition computeHealth :: "int \<Rightarrow> walletState \<Rightarrow> walletHealth" where
  "computeHealth now st =
     (let shieldedConnected = completeWithin (ws_shielded st);
          unshieldedConnected = completeWithin (ws_unshielded st);
          dustConnected = completeWithin (ws_dust st) in
      \<lparr>wh_ready = (shieldedConnected \<and> unshieldedConnected \<and> dustConnected), wh_fullySynced = ws_isSynced st,
       wh_shieldedConnected = shieldedConnected, wh_unshieldedConnected = unshieldedConnected, wh_dustConnected = dustConnected,
       wh_ratios = [safeRatio (ws_shielded st), safeRatio (ws_unshielded st), safeRatio (ws_dust st)],
       wh_dust = (case ws_dustBalance st of Inr (Some b) \<Rightarrow> b | _ \<Rightarrow> 0), wh_at = now\<rparr>)"

text \<open>\<open>ensureReady\<close>: the wait ends with the first state that is ready, or when the timer fires; the list holds the states
  emitted until then with their times since the call.\<close>

fun firstReady :: "int \<Rightarrow> (int \<times> walletState) list \<Rightarrow> unit res" where
  "firstReady timeoutMs [] = Inl (Error (''wallet not ready within '' @ showInt timeoutMs @ ''ms''))"
| "firstReady timeoutMs ((t, st) # rest) =
     (if t \<ge> timeoutMs then Inl (Error (''wallet not ready within '' @ showInt timeoutMs @ ''ms''))
      else if completeWithin (ws_shielded st) \<and> completeWithin (ws_unshielded st) \<and> completeWithin (ws_dust st) then Inr ()
      else firstReady timeoutMs rest)"

definition ensureReady :: "walletHealth option \<Rightarrow> int \<Rightarrow> (int \<times> walletState) list \<Rightarrow> unit res" where
  "ensureReady latest timeoutMs emitted =
     (if (case latest of None \<Rightarrow> False | Some h \<Rightarrow> wh_ready h) then Inr () else firstReady timeoutMs emitted)"

section \<open>Stale pending transactions\<close>

text \<open>The shapes of a creation time; \<open>Date.parse\<close> gives no number for a text it cannot read.\<close>

datatype creationTime = T_absent | T_number int | T_text "int option" | T_epoch int | T_other

fun creationTimeToMs :: "creationTime \<Rightarrow> int option" where
  "creationTimeToMs T_absent = None"
| "creationTimeToMs (T_number n) = Some n"
| "creationTimeToMs (T_text parsed) = parsed"
| "creationTimeToMs (T_epoch n) = Some n"
| "creationTimeToMs T_other = None"

record pendingTx =
  pt_tx :: nat
  pt_created :: creationTime
  pt_status :: "string option"

record sweep =
  sw_reverted :: "nat list"
  sw_failed :: "nat list"
  sw_kept :: nat

text \<open>The loop over the pending entries; \<open>fails\<close> holds the transactions whose revert throws.\<close>

fun reapLoop :: "int \<Rightarrow> int \<Rightarrow> nat set \<Rightarrow> pendingTx list \<Rightarrow> sweep \<Rightarrow> sweep" where
  "reapLoop nowMs grace fails [] s = s"
| "reapLoop nowMs grace fails (item # rest) s =
     reapLoop nowMs grace fails rest
       (case creationTimeToMs (pt_created item) of
          None \<Rightarrow> s
        | Some createdMs \<Rightarrow>
            if nowMs - createdMs < grace then s\<lparr>sw_kept := sw_kept s + 1\<rparr>
            else if pt_tx item \<in> fails then s\<lparr>sw_failed := sw_failed s @ [pt_tx item]\<rparr>
            else s\<lparr>sw_reverted := sw_reverted s @ [pt_tx item]\<rparr>)"

definition PENDING_REAPER_GRACE_MS :: int where "PENDING_REAPER_GRACE_MS = 2100000"

definition reapStalePending :: "int option \<Rightarrow> int \<Rightarrow> nat set \<Rightarrow> pendingTx list \<Rightarrow> sweep" where
  "reapStalePending graceMsOverride nowMs fails items =
     reapLoop nowMs (the_or PENDING_REAPER_GRACE_MS graceMsOverride) fails items \<lparr>sw_reverted = [], sw_failed = [], sw_kept = 0\<rparr>"

definition finalizedFailed :: "pendingTx list \<Rightarrow> nat list" where
  "finalizedFailed snap = map pt_tx (filter (\<lambda>it. pt_status it = Some ''FAILURE'' \<or> pt_status it = Some ''PARTIAL_SUCCESS'') snap)"

section \<open>Dust telemetry\<close>

record nightCoin =
  nc_registered :: "bool option"
  nc_value :: int

record dustEstimate =
  de_nightValue :: "int option"
  de_generatedNow :: "int option"
  de_maxCap :: "int option"
  de_rate :: "int option"
  de_dtime :: "int option"
  de_maxCapReachedAt :: "int option"

record coinHealth =
  ch_nightValue :: string
  ch_generatedNow :: string
  ch_maxCap :: string
  ch_rate :: string
  ch_decayTimeMs :: "int option"
  ch_maxCapReachedAtMs :: "int option"

record dustGeneration =
  dh_currentValue :: int
  dh_maxCap :: int
  dh_rate :: int
  dh_decayTimeMs :: "int option"
  dh_maxCapReachedAtMs :: "int option"
  dh_registered :: nat
  dh_unregistered :: nat
  dh_perCoin :: "coinHealth list"

definition pickTime :: "(int \<Rightarrow> int \<Rightarrow> bool) \<Rightarrow> int option \<Rightarrow> int option \<Rightarrow> int option" where
  "pickTime better cand cur =
     (case cand of None \<Rightarrow> cur | Some t \<Rightarrow> (case cur of None \<Rightarrow> Some t | Some u \<Rightarrow> if better t u then Some t else Some u))"

definition coinOf :: "dustEstimate \<Rightarrow> coinHealth" where
  "coinOf d =
     \<lparr>ch_nightValue = (case de_nightValue d of None \<Rightarrow> '''' | Some v \<Rightarrow> showInt v), ch_generatedNow = showInt (the_or 0 (de_generatedNow d)),
      ch_maxCap = showInt (the_or 0 (de_maxCap d)), ch_rate = showInt (the_or 0 (de_rate d)), ch_decayTimeMs = de_dtime d,
      ch_maxCapReachedAtMs = de_maxCapReachedAt d\<rparr>"

text \<open>An estimate without dust details is skipped.\<close>

fun sumEstimates :: "dustEstimate option list \<Rightarrow> dustGeneration \<Rightarrow> dustGeneration" where
  "sumEstimates [] h = h"
| "sumEstimates (None # ds) h = sumEstimates ds h"
| "sumEstimates (Some d # ds) h =
     sumEstimates ds
       (h\<lparr>dh_currentValue := dh_currentValue h + the_or 0 (de_generatedNow d), dh_maxCap := dh_maxCap h + the_or 0 (de_maxCap d),
          dh_rate := dh_rate h + the_or 0 (de_rate d), dh_decayTimeMs := pickTime (<) (de_dtime d) (dh_decayTimeMs h),
          dh_maxCapReachedAtMs := pickTime (>) (de_maxCapReachedAt d) (dh_maxCapReachedAtMs h),
          dh_perCoin := dh_perCoin h @ [coinOf d]\<rparr>)"

definition isRegistered :: "nightCoin \<Rightarrow> bool" where
  "isRegistered c \<longleftrightarrow> nc_registered c = Some True"

text \<open>An \<open>estimateRegistration\<close> that throws gives no estimates.\<close>

definition dustGenerationHealth :: "nightCoin list \<Rightarrow> (nightCoin list \<Rightarrow> dustEstimate option list res) \<Rightarrow> dustGeneration" where
  "dustGenerationHealth allNight estimateRegistration =
     (let registered = filter isRegistered allNight;
          empty = \<lparr>dh_currentValue = 0, dh_maxCap = 0, dh_rate = 0, dh_decayTimeMs = None, dh_maxCapReachedAtMs = None,
                   dh_registered = length registered, dh_unregistered = length (filter (\<lambda>c. \<not> isRegistered c) allNight),
                   dh_perCoin = []\<rparr> in
      if registered = [] then empty
      else sumEstimates (case estimateRegistration registered of Inr details \<Rightarrow> details | Inl e \<Rightarrow> []) empty)"

definition MAX_SAFE_MS :: int where "MAX_SAFE_MS = 9007199254740991"

definition computeRunwayMs :: "int \<Rightarrow> int \<Rightarrow> int \<Rightarrow> int option \<Rightarrow> int option" where
  "computeRunwayMs balance rate flr decayTimeMs =
     (if rate \<le> 0 then None
      else if decayTimeMs = None then None
      else if balance \<le> flr then Some 0
      else let ms = (balance - flr) div rate in Some (if ms > MAX_SAFE_MS then MAX_SAFE_MS else ms))"

section \<open>Splitting NIGHT\<close>

definition splitOutputs :: "int \<Rightarrow> int \<Rightarrow> int list res" where
  "splitOutputs amount lanes =
     (if lanes < 1 then Inl (Error ''lanes must be >= 1'')
      else if amount \<le> 0 then Inl (Error ''nothing to split'')
      else let per = amount div lanes in
           if per \<le> 0 then Inl (Error (''total '' @ showInt amount @ '' too small to split into '' @ showInt lanes @ '' lanes''))
           else Inr (replicate (nat (lanes - 1)) per @ [amount - per * (lanes - 1)]))"

section \<open>The supervisor\<close>

datatype serialTask = ReapTask | RevertTask "nat list" | RegisterTask | SubmitTask

text \<open>Edge-triggered logs, and the calls of \<open>registerNightForDust\<close> with the coins they register.\<close>

datatype upkeepLog = L_ready | L_unready | L_dustLow | L_dustRecovered | L_register "nightCoin list"

record supervisor =
  su_latest :: "walletHealth option"
  su_latestDust :: "dustGeneration option"
  su_readyLogged :: "bool option"
  su_belowFloorLogged :: bool
  su_lastSubmitOkAt :: "int option"
  su_lastSubmitFailAt :: "int option"
  su_lastRegistrationAt :: "int option"
  su_stopped :: bool
  su_queue :: "serialTask list"
  su_dustChecks :: nat
  su_reverted :: "nat list"
  su_registrations :: "int list"
  su_log :: "upkeepLog list"

text \<open>How the job at the head of the chain ends: what it read of the wallet, which reverts threw and what the registration
  returned.\<close>

datatype taskEnd =
    Swept int "nat set" "pendingTx list"
  | RevertsDone "nat set"
  | Registration int "nightCoin list" "bool res"
  | TaskSettled

datatype upkeepEvent =
    StateEmitted int walletState
  | ReapTick
  | PendingEmitted "pendingTx list"
  | RegisterTick int
  | DustTick
  | DustHealth dustGeneration "int option res"
  | SubmitQueued
  | SubmitSettled int bool
  | TaskEnds taskEnd
  | StopCalled

definition startWalletSupervisor :: supervisor where
  "startWalletSupervisor =
     \<lparr>su_latest = None, su_latestDust = None, su_readyLogged = None, su_belowFloorLogged = False, su_lastSubmitOkAt = None,
      su_lastSubmitFailAt = None, su_lastRegistrationAt = None, su_stopped = False, su_queue = [ReapTask], su_dustChecks = 0,
      su_reverted = [], su_registrations = [], su_log = []\<rparr>"

definition logged :: "upkeepLog \<Rightarrow> supervisor \<Rightarrow> supervisor" where
  "logged l s = s\<lparr>su_log := su_log s @ [l]\<rparr>"

definition enqueue :: "serialTask \<Rightarrow> supervisor \<Rightarrow> supervisor" where
  "enqueue t s = s\<lparr>su_queue := su_queue s @ [t]\<rparr>"

definition onWalletState :: "int \<Rightarrow> walletState \<Rightarrow> supervisor \<Rightarrow> supervisor" where
  "onWalletState now st s0 =
     (let h = computeHealth now st; s = s0\<lparr>su_latest := Some h\<rparr> in
      if su_readyLogged s = Some (wh_ready h) then s
      else (logged (if wh_ready h then L_ready else L_unready) s)\<lparr>su_readyLogged := Some (wh_ready h)\<rparr>)"

definition REGISTRATION_FINALIZATION_GUARD_MS :: int where "REGISTRATION_FINALIZATION_GUARD_MS = 600000"

text \<open>The head of \<open>dustRegistrationLoop\<close>, up to the call of \<open>serialize\<close>, and the job it queues.\<close>

definition dustRegistrationTick :: "int \<Rightarrow> supervisor \<Rightarrow> supervisor" where
  "dustRegistrationTick now s =
     (if su_stopped s \<or> (case su_lastRegistrationAt s of None \<Rightarrow> False | Some t \<Rightarrow> now - t < REGISTRATION_FINALIZATION_GUARD_MS)
      then s else enqueue RegisterTask s)"

definition registrationJob :: "int \<Rightarrow> nightCoin list \<Rightarrow> bool res \<Rightarrow> supervisor \<Rightarrow> supervisor" where
  "registrationJob now coins result s =
     (let unreg = filter (\<lambda>c. nc_registered c = Some False) coins in
      if unreg = [] then s
      else let s' = logged (L_register unreg) s in
           if result = Inr True then s'\<lparr>su_lastRegistrationAt := Some now, su_registrations := su_registrations s' @ [now]\<rparr> else s')"

definition DUST_FLOOR :: int where "DUST_FLOOR = 300000000000000"

text \<open>\<open>emitDustHealth\<close> once its reads have answered; a balance that throws leaves only the telemetry.\<close>

definition emitDustHealth :: "dustGeneration \<Rightarrow> int option res \<Rightarrow> supervisor \<Rightarrow> supervisor" where
  "emitDustHealth gen read s0 =
     (let s = s0\<lparr>su_latestDust := Some gen\<rparr> in
      case read of
        Inl e \<Rightarrow> s
      | Inr b \<Rightarrow>
          let balance = the_or 0 b;
              balanceUnknown = (balance = 0 \<and> dh_registered gen > 0);
              belowFloor = (\<not> balanceUnknown \<and> balance < DUST_FLOOR) in
          if belowFloor = su_belowFloorLogged s then s
          else (logged (if belowFloor then L_dustLow else L_dustRecovered) s)\<lparr>su_belowFloorLogged := belowFloor\<rparr>)"

fun endTask :: "serialTask \<Rightarrow> taskEnd \<Rightarrow> supervisor \<Rightarrow> supervisor" where
  "endTask ReapTask (Swept now fails items) s =
     s\<lparr>su_reverted := su_reverted s @ sw_reverted (reapStalePending None now fails items)\<rparr>"
| "endTask (RevertTask txs) (RevertsDone fails) s = s\<lparr>su_reverted := su_reverted s @ filter (\<lambda>t. t \<notin> fails) txs\<rparr>"
| "endTask RegisterTask (Registration now coins result) s = registrationJob now coins result s"
| "endTask _ _ s = s"

fun upkeepStep :: "supervisor \<Rightarrow> upkeepEvent \<Rightarrow> supervisor" where
  "upkeepStep s (StateEmitted now st) = (if su_stopped s then s else onWalletState now st s)"
| "upkeepStep s ReapTick = (if su_stopped s then s else enqueue ReapTask s)"
| "upkeepStep s (PendingEmitted snap) =
     (if su_stopped s \<or> finalizedFailed snap = [] then s else enqueue (RevertTask (finalizedFailed snap)) s)"
| "upkeepStep s (RegisterTick now) = dustRegistrationTick now s"
| "upkeepStep s DustTick = (if su_stopped s then s else s\<lparr>su_dustChecks := su_dustChecks s + 1\<rparr>)"
| "upkeepStep s (DustHealth gen read) =
     (if su_dustChecks s = 0 then s else emitDustHealth gen read (s\<lparr>su_dustChecks := su_dustChecks s - 1\<rparr>))"
| "upkeepStep s SubmitQueued = enqueue SubmitTask s"
| "upkeepStep s (SubmitSettled now ok) =
     (if ok then s\<lparr>su_lastSubmitOkAt := Some now\<rparr> else s\<lparr>su_lastSubmitFailAt := Some now\<rparr>)"
| "upkeepStep s (TaskEnds r) = (case su_queue s of [] \<Rightarrow> s | t # rest \<Rightarrow> endTask t r (s\<lparr>su_queue := rest\<rparr>))"
| "upkeepStep s StopCalled = s\<lparr>su_stopped := True\<rparr>"

text \<open>The part of \<open>dustSnapshot\<close> that the dust telemetry gives; \<open>reading\<close> is what \<open>dustGenerationHealth\<close> returned, and the
  reading kept last stands in for one that threw.\<close>

record dustSnapshotPayload =
  ds_balance :: string
  ds_floor :: string
  ds_belowFloor :: bool
  ds_generation :: "dustGeneration option"
  ds_runwayMs :: "int option"
  ds_lastSubmitOkAt :: "int option"
  ds_lastSubmitFailAt :: "int option"
  ds_queueDepth :: nat

definition dustSnapshot :: "dustGeneration res \<Rightarrow> int option \<Rightarrow> supervisor \<Rightarrow> dustSnapshotPayload" where
  "dustSnapshot reading bal s =
     (let gen = (case reading of Inr g \<Rightarrow> Some g | Inl e \<Rightarrow> su_latestDust s); balance = the_or 0 bal in
      \<lparr>ds_balance = showInt balance, ds_floor = showInt DUST_FLOOR, ds_belowFloor = (balance < DUST_FLOOR), ds_generation = gen,
       ds_runwayMs = computeRunwayMs balance (case gen of None \<Rightarrow> 0 | Some g \<Rightarrow> dh_rate g) DUST_FLOOR (Option.bind gen dh_decayTimeMs),
       ds_lastSubmitOkAt = (if su_lastSubmitOkAt s = Some 0 then None else su_lastSubmitOkAt s),
       ds_lastSubmitFailAt = (if su_lastSubmitFailAt s = Some 0 then None else su_lastSubmitFailAt s),
       ds_queueDepth = length (su_queue s)\<rparr>)"


section \<open>Sweeps, splits and telemetry\<close>

definition staleBy :: "int \<Rightarrow> int \<Rightarrow> pendingTx \<Rightarrow> bool" where
  "staleBy nowMs grace item \<longleftrightarrow> (case creationTimeToMs (pt_created item) of None \<Rightarrow> False | Some c \<Rightarrow> c + grace \<le> nowMs)"

definition youngBy :: "int \<Rightarrow> int \<Rightarrow> pendingTx \<Rightarrow> bool" where
  "youngBy nowMs grace item \<longleftrightarrow> (case creationTimeToMs (pt_created item) of None \<Rightarrow> False | Some c \<Rightarrow> nowMs < c + grace)"

lemma reapLoop_spec:
  "reapLoop now g fails items s =
     \<lparr>sw_reverted = sw_reverted s @ map pt_tx (filter (\<lambda>i. staleBy now g i \<and> pt_tx i \<notin> fails) items),
      sw_failed = sw_failed s @ map pt_tx (filter (\<lambda>i. staleBy now g i \<and> pt_tx i \<in> fails) items),
      sw_kept = sw_kept s + length (filter (youngBy now g) items)\<rparr>"
  by (induction items arbitrary: s) (auto simp: staleBy_def youngBy_def split: option.split)

text \<open>A sweep tries exactly the entries whose age is known and has reached the grace, in their order, and a revert
  that throws does not keep the others from being reverted.\<close>

theorem reap_exact:
  "reapStalePending ov now fails items =
     \<lparr>sw_reverted = map pt_tx (filter (\<lambda>i. staleBy now (the_or PENDING_REAPER_GRACE_MS ov) i \<and> pt_tx i \<notin> fails) items),
      sw_failed = map pt_tx (filter (\<lambda>i. staleBy now (the_or PENDING_REAPER_GRACE_MS ov) i \<and> pt_tx i \<in> fails) items),
      sw_kept = length (filter (youngBy now (the_or PENDING_REAPER_GRACE_MS ov)) items)\<rparr>"
  by (simp add: reapStalePending_def reapLoop_spec)

lemma split_ok_iff: "(\<exists>outs. splitOutputs amount lanes = Inr outs) \<longleftrightarrow> 1 \<le> lanes \<and> lanes \<le> amount"
proof (cases "1 \<le> lanes \<and> 0 < amount")
  case True
  then have "amount div lanes \<le> 0 \<longleftrightarrow> amount < lanes"
    using pos_imp_zdiv_pos_iff [of lanes amount] by linarith
  with True show ?thesis by (auto simp: splitOutputs_def Let_def)
next
  case False
  then show ?thesis by (auto simp: splitOutputs_def)
qed

lemma split_sum: "1 \<le> lanes \<Longrightarrow> sum_list (replicate (nat (lanes - 1)) (q :: int) @ [a - q * (lanes - 1)]) = a"
  by (simp add: sum_list_replicate algebra_simps)

lemma split_last: "(1 :: int) \<le> lanes \<Longrightarrow> a - a div lanes * (lanes - 1) = a div lanes + a mod lanes"
  using div_mult_mod_eq [of a lanes] by (simp add: algebra_simps)

text \<open>\<open>splitOutputs\<close> succeeds exactly when there is at least one lane and at least one unit for each of them, and then
  the outputs are as many as the lanes, sum to the amount exactly, and each is at least its share and exceeds the share by
  less than the number of lanes.\<close>

theorem split_partitions:
  "if 1 \<le> lanes \<and> lanes \<le> amount
   then \<exists>outs. splitOutputs amount lanes = Inr outs \<and> int (length outs) = lanes \<and> sum_list outs = amount
          \<and> list_all (\<lambda>out. 0 < out \<and> amount div lanes \<le> out \<and> out < amount div lanes + lanes) outs
   else \<exists>e. splitOutputs amount lanes = Inl e"
proof (cases "1 \<le> lanes \<and> lanes \<le> amount")
  case True
  let ?q = "amount div lanes" and ?outs = "replicate (nat (lanes - 1)) (amount div lanes) @ [amount - amount div lanes * (lanes - 1)]"
  from True have q: "0 < ?q" using pos_imp_zdiv_pos_iff [of lanes amount] by linarith
  then have "splitOutputs amount lanes = Inr ?outs" using True by (simp add: splitOutputs_def Let_def)
  moreover have "int (length ?outs) = lanes" using True by simp
  moreover have "sum_list ?outs = amount" using True by (intro split_sum) simp
  moreover have "0 \<le> amount mod lanes" "amount mod lanes < lanes" using True by auto
  then have "list_all (\<lambda>out. 0 < out \<and> ?q \<le> out \<and> out < ?q + lanes) ?outs"
    using True q split_last [of lanes amount] by (auto simp: list_all_iff intro: add_pos_nonneg)
  ultimately show ?thesis unfolding if_P [OF True] by blast
next
  case False
  then have "\<nexists>outs. splitOutputs amount lanes = Inr outs" using split_ok_iff by blast
  then show ?thesis using False by (cases "splitOutputs amount lanes") auto
qed

text \<open>A runway is never negative, fits a JavaScript number, and at the current rate the balance is still not below the
  floor when it has passed.\<close>

theorem runway_bounds:
  "computeRunwayMs balance rate flr decay = Some ms \<Longrightarrow>
     0 \<le> ms \<and> ms \<le> MAX_SAFE_MS \<and> flr + ms * rate \<le> max flr balance"
proof -
  assume run: "computeRunwayMs balance rate flr decay = Some ms"
  then have r: "0 < rate" and d: "decay \<noteq> None" by (auto simp: computeRunwayMs_def split: if_splits)
  show ?thesis
  proof (cases "balance \<le> flr")
    case True
    with run r d show ?thesis by (simp add: computeRunwayMs_def MAX_SAFE_MS_def)
  next
    case False
    with run r d have ms: "ms = min MAX_SAFE_MS ((balance - flr) div rate)" by (auto simp: computeRunwayMs_def Let_def min_def)
    have nn: "0 \<le> (balance - flr) div rate" using False r by (simp add: pos_imp_zdiv_nonneg_iff)
    have "ms * rate \<le> (balance - flr) div rate * rate" using r ms by (intro mult_right_mono) auto
    also have "\<dots> \<le> balance - flr"
      using pos_mod_sign [OF r, of "balance - flr"] div_mult_mod_eq [of "balance - flr" rate] by linarith
    finally show ?thesis using ms nn by (auto simp: MAX_SAFE_MS_def)
  qed
qed

lemma sumEstimates_spec:
  defines "given \<equiv> \<lambda>f ds. sum_list (map (\<lambda>d. the_or 0 (f d)) (List.map_filter id ds))"
  shows "dh_currentValue (sumEstimates ds h) = dh_currentValue h + given de_generatedNow ds"
    and "dh_maxCap (sumEstimates ds h) = dh_maxCap h + given de_maxCap ds"
    and "dh_rate (sumEstimates ds h) = dh_rate h + given de_rate ds"
    and "dh_registered (sumEstimates ds h) = dh_registered h"
    and "dh_unregistered (sumEstimates ds h) = dh_unregistered h"
    and "dh_perCoin (sumEstimates ds h) = dh_perCoin h @ map coinOf (List.map_filter id ds)"
  unfolding given_def by (induction ds h rule: sumEstimates.induct) (simp_all add: map_filter_def)


section \<open>The dust alert\<close>

fun isDustLog :: "upkeepLog \<Rightarrow> bool" where
  "isDustLog L_dustLow = True"
| "isDustLog L_dustRecovered = True"
| "isDustLog _ = False"

definition dustAlerts :: "supervisor \<Rightarrow> upkeepLog list" where
  "dustAlerts s = filter isDustLog (su_log s)"

text \<open>Alternating alerts: whether one more low or one more recovery may follow.\<close>

fun alternates :: "bool \<Rightarrow> upkeepLog list \<Rightarrow> bool" where
  "alternates low [] = True"
| "alternates low (l # ls) = (l = (if low then L_dustRecovered else L_dustLow) \<and> alternates (\<not> low) ls)"

definition lowAfter :: "upkeepLog list \<Rightarrow> bool" where
  "lowAfter ls \<longleftrightarrow> ls \<noteq> [] \<and> last ls = L_dustLow"

lemma alternates_snoc:
  "alternates low (ls @ [l]) \<longleftrightarrow> alternates low ls \<and> l = (if (if ls = [] then low else lowAfter ls) then L_dustRecovered else L_dustLow)"
  by (induction ls arbitrary: low) (auto simp: lowAfter_def)

definition alertsOk :: "supervisor \<Rightarrow> bool" where
  "alertsOk s \<longleftrightarrow> alternates False (dustAlerts s) \<and> su_belowFloorLogged s = lowAfter (dustAlerts s)"

lemma dustAlerts_logged [simp]: "dustAlerts (logged l s) = dustAlerts s @ (if isDustLog l then [l] else [])"
  by (simp add: dustAlerts_def logged_def)

lemma alertsOk_cong: "dustAlerts s' = dustAlerts s \<Longrightarrow> su_belowFloorLogged s' = su_belowFloorLogged s \<Longrightarrow> alertsOk s' = alertsOk s"
  by (simp add: alertsOk_def)

lemma alertsOk_emit:
  assumes "alertsOk s"
  shows "alertsOk (emitDustHealth gen read s)"
proof -
  have flip: "alertsOk (if b = su_belowFloorLogged t then t
      else (logged (if b then L_dustLow else L_dustRecovered) t)\<lparr>su_belowFloorLogged := b\<rparr>)" if "alertsOk t" for b t
    using that by (auto simp: alertsOk_def dustAlerts_def logged_def alternates_snoc lowAfter_def)
  have kept: "alertsOk (s\<lparr>su_latestDust := Some gen\<rparr>)" using assms by (simp add: alertsOk_def dustAlerts_def)
  show ?thesis by (cases read) (simp_all only: emitDustHealth_def Let_def sum.case kept flip [OF kept])
qed

lemma alertsOk_step: "alertsOk s \<Longrightarrow> alertsOk (upkeepStep s e)"
proof (cases e)
  case (DustHealth gen read)
  assume ok: "alertsOk s"
  then have "alertsOk (s\<lparr>su_dustChecks := su_dustChecks s - 1\<rparr>)" by (simp add: alertsOk_def dustAlerts_def)
  with ok show ?thesis unfolding DustHealth by (simp add: alertsOk_emit)
next
  case (TaskEnds r)
  assume ok: "alertsOk s"
  have "alertsOk (endTask t r s') = alertsOk s'" for t and s'
    by (rule alertsOk_cong; cases "(t, r, s')" rule: endTask.cases)
       (auto simp: registrationJob_def logged_def dustAlerts_def Let_def)
  moreover have "alertsOk (s\<lparr>su_queue := q\<rparr>)" for q using ok by (simp add: alertsOk_def dustAlerts_def)
  ultimately show ?thesis using ok by (simp add: TaskEnds split: list.split)
qed (auto simp: alertsOk_def dustAlerts_def onWalletState_def dustRegistrationTick_def logged_def enqueue_def Let_def)

interpretation alerts: event_machine upkeepStep alertsOk
  by unfold_locales (rule alertsOk_step)

lemma alertsOk_start: "alertsOk startWalletSupervisor"
  by (simp add: alertsOk_def dustAlerts_def startWalletSupervisor_def lowAfter_def)

text \<open>Over every run the dust alerts alternate, a low one first.\<close>

theorem alerts_alternate: "alternates False (dustAlerts (run_events upkeepStep startWalletSupervisor es))"
  using alerts.run_inv [OF alertsOk_start, of es] by (simp add: alertsOk_def)

text \<open>A balance that has sunk to zero while NIGHT is registered counts as unknown, and an unknown balance as not low: a
  wallet whose alert is low and which then runs dry is logged as recovered, while \<open>dustSnapshot\<close>, asked in the same state,
  says that it is below the floor.\<close>

theorem drained_wallet_recovers:
  assumes "su_dustChecks s > 0" and "su_belowFloorLogged s" and "dh_registered gen > 0"
  shows "dustAlerts (upkeepStep s (DustHealth gen (Inr (Some 0)))) = dustAlerts s @ [L_dustRecovered]
       \<and> ds_belowFloor (dustSnapshot (Inr gen) (Some 0) (upkeepStep s (DustHealth gen (Inr (Some 0)))))"
  using assms by (simp add: emitDustHealth_def dustSnapshot_def Let_def DUST_FLOOR_def dustAlerts_def logged_def)

definition oneCoin :: dustGeneration where
  "oneCoin = dustGenerationHealth [\<lparr>nc_registered = Some True, nc_value = 1\<rparr>] (\<lambda>_. Inl (Error ''offline''))"

theorem drained_wallet_recovers_witness:
  "dustAlerts (run_events upkeepStep startWalletSupervisor
      [DustTick, DustHealth oneCoin (Inr (Some 5)), DustTick, DustHealth oneCoin (Inr (Some 0))]) = [L_dustLow, L_dustRecovered]"
proof -
  define s where "s = run_events upkeepStep startWalletSupervisor [DustTick, DustHealth oneCoin (Inr (Some 5)), DustTick]"
  have reg: "dh_registered oneCoin > 0" by (simp add: oneCoin_def dustGenerationHealth_def isRegistered_def)
  have s: "su_dustChecks s > 0" "su_belowFloorLogged s" "dustAlerts s = [L_dustLow]"
    by (simp_all add: s_def startWalletSupervisor_def emitDustHealth_def DUST_FLOOR_def Let_def logged_def dustAlerts_def)
  have "run_events upkeepStep startWalletSupervisor
      [DustTick, DustHealth oneCoin (Inr (Some 5)), DustTick, DustHealth oneCoin (Inr (Some 0))]
      = upkeepStep s (DustHealth oneCoin (Inr (Some 0)))"
    unfolding s_def by (simp only: run_events.simps)
  then show ?thesis using drained_wallet_recovers [OF s(1) s(2) reg] s(3) by simp
qed


section \<open>Registration of NIGHT for dust\<close>

text \<open>The supervisor beside the clock its handlers read.\<close>

fun eventTime :: "upkeepEvent \<Rightarrow> int option" where
  "eventTime (StateEmitted t _) = Some t"
| "eventTime (RegisterTick t) = Some t"
| "eventTime (SubmitSettled t _) = Some t"
| "eventTime (TaskEnds (Swept t _ _)) = Some t"
| "eventTime (TaskEnds (Registration t _ _)) = Some t"
| "eventTime _ = None"

definition clockStep :: "int \<times> supervisor \<Rightarrow> upkeepEvent \<Rightarrow> int \<times> supervisor" where
  "clockStep = (\<lambda>(clk, s) e. (the_or clk (eventTime e), upkeepStep s e))"

text \<open>The clock does not run backwards.\<close>

definition onTime :: "int \<times> supervisor \<Rightarrow> upkeepEvent \<Rightarrow> bool" where
  "onTime cs e \<longleftrightarrow> fst cs \<le> the_or (fst cs) (eventTime e)"

definition registrationQueued :: "supervisor \<Rightarrow> bool" where
  "registrationQueued s \<longleftrightarrow> RegisterTask \<in> set (su_queue s)"

text \<open>A tick that comes while no registration waits in the chain or runs.\<close>

fun freeTick :: "int \<times> supervisor \<Rightarrow> upkeepEvent \<Rightarrow> bool" where
  "freeTick cs (RegisterTick t) = (\<not> registrationQueued (snd cs))"
| "freeTick cs _ = True"

definition apart :: "int \<Rightarrow> int \<Rightarrow> bool" where
  "apart t u \<longleftrightarrow> t + REGISTRATION_FINALIZATION_GUARD_MS \<le> u"

definition spacedOk :: "int \<times> supervisor \<Rightarrow> bool" where
  "spacedOk cs \<longleftrightarrow>
     (let s = snd cs; regs = su_registrations s in
      sorted_wrt apart regs \<and> list_all (\<lambda>t. t \<le> fst cs) regs
      \<and> (case su_lastRegistrationAt s of None \<Rightarrow> regs = [] | Some u \<Rightarrow> list_all (\<lambda>t. t \<le> u) regs)
      \<and> count_list (su_queue s) RegisterTask \<le> 1
      \<and> (registrationQueued s \<longrightarrow> list_all (\<lambda>t. apart t (fst cs)) regs))"

lemma spacedOk_later: "spacedOk (clk, s) \<Longrightarrow> clk \<le> clk' \<Longrightarrow> spacedOk (clk', s)"
  by (auto simp: spacedOk_def Let_def list_all_iff apart_def)

text \<open>The fields the spacing reads.\<close>

lemma spacedOk_cong:
  assumes "su_registrations s' = su_registrations s" "su_lastRegistrationAt s' = su_lastRegistrationAt s"
    and "count_list (su_queue s') RegisterTask \<le> count_list (su_queue s) RegisterTask"
  shows "spacedOk (clk, s) \<Longrightarrow> spacedOk (clk, s')"
proof -
  have "registrationQueued s' \<Longrightarrow> registrationQueued s"
    using assms(3) count_list_0_iff unfolding registrationQueued_def by (metis le_zero_eq)
  then show "spacedOk (clk, s) \<Longrightarrow> spacedOk (clk, s')" using assms by (auto simp: spacedOk_def Let_def split: option.splits)
qed

lemma spacedOk_tick:
  assumes "spacedOk (clk, s)" and "\<not> registrationQueued s"
  shows "spacedOk (clk, dustRegistrationTick clk s)"
  using assms by (fastforce simp: spacedOk_def Let_def dustRegistrationTick_def enqueue_def registrationQueued_def list_all_iff apart_def count_list_0_iff
      split: option.splits)

lemma spacedOk_registers:
  assumes "spacedOk (clk, s)" and "su_queue s = RegisterTask # rest"
  shows "spacedOk (clk, registrationJob clk coins result (s\<lparr>su_queue := rest\<rparr>))"
proof -
  have "RegisterTask \<notin> set rest" using assms by (auto simp: spacedOk_def Let_def count_list_0_iff)
  then show ?thesis
    using assms by (auto simp: spacedOk_def Let_def registrationJob_def logged_def registrationQueued_def sorted_wrt_append
        list_all_iff apart_def count_list_0_iff split: option.splits)
qed

lemma spacedOk_ends:
  assumes "spacedOk (clk, s)" and "eventTime (TaskEnds r) \<in> {None, Some clk}"
  shows "spacedOk (clk, upkeepStep s (TaskEnds r))"
proof (cases "su_queue s")
  case Nil
  then show ?thesis using assms by simp
next
  case (Cons t rest)
  show ?thesis
  proof (cases "t = RegisterTask \<and> (\<exists>now coins result. r = Registration now coins result)")
    case True
    then show ?thesis using assms Cons spacedOk_registers by auto
  next
    case False
    have "spacedOk (clk, endTask t r (s\<lparr>su_queue := rest\<rparr>))"
      by (rule spacedOk_cong [OF _ _ _ assms(1)]; cases "(t, r, s\<lparr>su_queue := rest\<rparr>)" rule: endTask.cases) (use False Cons in auto)
    then show ?thesis using Cons by simp
  qed
qed

lemma spacedOk_step:
  assumes "spacedOk cs" and "onTime cs e \<and> freeTick cs e"
  shows "spacedOk (clockStep cs e)"
proof -
  obtain clk0 s where cs: "cs = (clk0, s)" by (cases cs)
  define clk where "clk = the_or clk0 (eventTime e)"
  have ok: "spacedOk (clk, s)" using assms spacedOk_later by (auto simp: cs clk_def onTime_def)
  have "spacedOk (clk, upkeepStep s e)"
  proof (cases e)
    case (RegisterTick t)
    then show ?thesis using assms(2) spacedOk_tick [OF ok] by (simp add: cs clk_def)
  next
    case (TaskEnds r)
    then show ?thesis unfolding TaskEnds by (intro spacedOk_ends [OF ok]) (auto simp: TaskEnds clk_def the_or_def split: option.splits)
  qed (auto intro!: spacedOk_cong [OF _ _ _ ok]
      simp: onWalletState_def logged_def enqueue_def emitDustHealth_def Let_def split: sum.splits)
  then show ?thesis by (simp add: cs clk_def clockStep_def)
qed

interpretation registering: guarded_machine clockStep spacedOk "\<lambda>cs e. onTime cs e \<and> freeTick cs e"
  by unfold_locales (rule spacedOk_step)

lemma spacedOk_start: "spacedOk (clk, startWalletSupervisor)"
  by (simp add: spacedOk_def startWalletSupervisor_def registrationQueued_def)


text \<open>C23: Under a clock that does not run backwards, and as long as no registration waits in the write chain or runs when
  the registration timer fires, the registrations of NIGHT that succeed are at least ten minutes apart: what is being
  finalized is not registered, and paid for, again.\<close>

theorem registrations_spaced:
  assumes "allowed_run (\<lambda>cs e. onTime cs e \<and> freeTick cs e) clockStep (clk, startWalletSupervisor) es"
  shows "sorted_wrt apart (su_registrations (snd (run_events clockStep (clk, startWalletSupervisor) es)))"
  using registering.guarded_run [OF spacedOk_start assms] by (simp add: spacedOk_def Let_def)

definition freshCoin :: nightCoin where
  "freshCoin = \<lparr>nc_registered = Some False, nc_value = 7\<rparr>"

theorem registrations_spaced_witness:
  "\<exists>s. run_events clockStep (0, startWalletSupervisor)
          [RegisterTick 0, TaskEnds TaskSettled, TaskEnds (Registration 5 [freshCoin] (Inr True)), RegisterTick 300000,
           RegisterTick 600005, TaskEnds (Registration 600009 [freshCoin] (Inr True))] = (600009, s)
     \<and> su_registrations s = [5, 600009] \<and> sorted_wrt apart (su_registrations s)"
proof -
  let ?es = "[RegisterTick 0, TaskEnds TaskSettled, TaskEnds (Registration 5 [freshCoin] (Inr True)), RegisterTick 300000,
           RegisterTick 600005, TaskEnds (Registration 600009 [freshCoin] (Inr True))]"
  note run = clockStep_def onTime_def registrationQueued_def startWalletSupervisor_def dustRegistrationTick_def enqueue_def
    registrationJob_def logged_def freshCoin_def REGISTRATION_FINALIZATION_GUARD_MS_def Let_def
  have "sorted_wrt apart (su_registrations (snd (run_events clockStep (0, startWalletSupervisor) ?es)))"
    by (rule registrations_spaced) (simp add: run)
  then show ?thesis by (simp add: run)
qed

text \<open>Two ticks before the first registration has run: the guard was read when they came, so the second job registers the
  coins the first one is registering.\<close>

theorem queued_ticks_register_twice:
  "su_log (run_events upkeepStep startWalletSupervisor
      [RegisterTick t, RegisterTick (t + 300000), TaskEnds TaskSettled,
       TaskEnds (Registration u [freshCoin] (Inr True)), TaskEnds (Registration v [freshCoin] (Inr True))])
   = [L_register [freshCoin], L_register [freshCoin]]"
  by (simp add: startWalletSupervisor_def dustRegistrationTick_def enqueue_def registrationJob_def logged_def freshCoin_def Let_def)

end
