(* ===== verification/Proving.thy ===== *)
theory Proving
  imports Config Encoding Json
begin

text \<open>
  What the holder's device loads before it proves, and where it proves: the artifact provider of
  \<open>sdk/src/midnight/assets.ts\<close>, the proving parameters and the choice of a prover of \<open>midnight/prover.ts\<close>, the network id of
  \<open>midnight/network.ts\<close>, the chain snapshot of \<open>midnight/snapshot.ts\<close>, and the settings of \<open>app/src/lib/settings.ts\<close> that
  choose the prover.

  Three of these memoise a download and share the one in flight.  Their common contract is the step relation \<open>flight\<close>;
  the locale \<open>single_flight\<close> holds what follows from it, and each of the three is an interpretation.  HTTP, IndexedDB, the
  URL parser and the serializers of the Midnight libraries are parameters or events.
\<close>

section \<open>Sharing a download in flight\<close>

text \<open>The view of a memoised download: the downloads started, each with its key and whether it has settled, the one in
  flight for a key, and the keys whose result is kept.\<close>

type_synonym 'k flights = "('k \<times> bool) list \<times> ('k \<Rightarrow> nat option) \<times> ('k \<Rightarrow> bool)"

inductive flight :: "'k flights \<Rightarrow> 'k flights \<Rightarrow> bool" where
  flight_hold: "(\<And>k. memo k \<Longrightarrow> memo' k) \<Longrightarrow> flight (ls, fl, memo) (ls, fl, memo')"
| flight_start: "fl k = None \<Longrightarrow> \<not> memo k \<Longrightarrow> flight (ls, fl, memo) (ls @ [(k, False)], fl(k \<mapsto> length ls), memo)"
| flight_settle: "n < length ls \<Longrightarrow> ls ! n = (k, False) \<Longrightarrow> flight (ls, fl, memo) (ls[n := (k, True)], fl(k := None), memo)"

inductive_cases flight_elim: "flight (ls, fl, memo) v"

lemma flight_refl: "flight v v"
  by (cases v) (simp add: flight_hold)

definition flightInv :: "'k flights \<Rightarrow> bool" where
  "flightInv v \<longleftrightarrow> (case v of (ls, fl, memo) \<Rightarrow> \<forall>n k. (n < length ls \<and> ls ! n = (k, False)) = (fl k = Some n))"

lemma flightInvD: "flightInv (ls, fl, memo) \<Longrightarrow> (n < length ls \<and> ls ! n = (k, False)) = (fl k = Some n)"
  by (simp add: flightInv_def)

lemma flightInvI: "(\<And>n k. (n < length ls \<and> ls ! n = (k, False)) = (fl k = Some n)) \<Longrightarrow> flightInv (ls, fl, memo)"
  by (simp add: flightInv_def)

lemma flightInv_step:
  assumes "flight v v'" and "flightInv v"
  shows "flightInv v'"
  using assms
proof (induction rule: flight.induct)
  case (flight_hold memo memo' ls fl)
  then show ?case by (simp add: flightInv_def)
next
  case (flight_start fl k memo ls)
  show ?case
  proof (rule flightInvI)
    fix n k'
    show "(n < length (ls @ [(k, False)]) \<and> (ls @ [(k, False)]) ! n = (k', False)) = ((fl(k \<mapsto> length ls)) k' = Some n)"
      using flightInvD [OF flight_start(3), of n k'] flight_start(1) by (cases "n = length ls") (auto simp: nth_append)
  qed
next
  case (flight_settle n ls k fl memo)
  have at: "fl k = Some n" using flightInvD [OF flight_settle(3), of n k] flight_settle(1,2) by simp
  show ?case
  proof (rule flightInvI)
    fix m k'
    show "(m < length (ls[n := (k, True)]) \<and> ls[n := (k, True)] ! m = (k', False)) = ((fl(k := None)) k' = Some m)"
      using flightInvD [OF flight_settle(3), of m k'] at flight_settle(1,2) by (cases "m = n") (auto simp: nth_list_update)
  qed
qed

text \<open>How many downloads a key has had.\<close>

definition started :: "'k \<Rightarrow> 'k flights \<Rightarrow> nat" where
  "started k v = length (filter (\<lambda>l. fst l = k) (fst v))"

lemma started_eq: "started k v = count_list (map fst (fst v)) k"
  unfolding started_def by (induction "fst v" arbitrary: v) (auto simp: count_list_eq_length_filter length_filter_map filter_map comp_def)

lemma flight_memo:
  assumes "flight v v'" and "snd (snd v) k"
  shows "snd (snd v') k \<and> started k v' = started k v"
  using assms
proof (induction rule: flight.induct)
  case (flight_settle n ls k' fl memo)
  then have "map fst (ls[n := (k', True)]) = map fst ls" by (metis fst_conv list_update_id map_update)
  with flight_settle show ?case by (simp add: started_eq)
qed (auto simp: started_def)

locale single_flight =
  fixes step :: "'s \<Rightarrow> 'e \<Rightarrow> 's" and view :: "'s \<Rightarrow> 'k flights"
  assumes simulates: "flight (view s) (view (step s e))"
begin

lemma run_flightInv: "flightInv (view s) \<Longrightarrow> flightInv (view (run_events step s es))"
  by (induction es arbitrary: s) (auto intro: flightInv_step simulates)

lemma run_memo:
  "snd (snd (view s)) k \<Longrightarrow> snd (snd (view (run_events step s es))) k \<and> started k (view (run_events step s es)) = started k (view s)"
proof (induction es arbitrary: s)
  case (Cons e es)
  have "snd (snd (view (step s e))) k \<and> started k (view (step s e)) = started k (view s)"
    by (rule flight_memo [OF simulates Cons.prems])
  with Cons.IH [of "step s e"] show ?case by simp
qed simp

text \<open>Never two downloads of one key at the same time.\<close>

lemma run_one_in_flight:
  assumes "flightInv (view s)" and "view (run_events step s es) = (ls, fl, memo)"
    and "m < length ls" "n < length ls" and "ls ! m = (k, False)" "ls ! n = (k, False)"
  shows "m = n"
proof -
  have "flightInv (ls, fl, memo)" using run_flightInv [OF assms(1), of es] assms(2) by simp
  then have "fl k = Some m" "fl k = Some n" using flightInvD [of ls fl memo] assms(3-6) by blast+
  then show ?thesis by simp
qed

end

text \<open>A promise between its start and the callback of \<open>finally\<close>.\<close>

datatype loadPhase = ReadingIdb | Fetching | Settling "bytes res" | Settled "bytes res"

fun isSettled :: "loadPhase \<Rightarrow> bool" where
  "isSettled (Settled r) = True"
| "isSettled _ = False"

datatype artifactHandle = Resolved bytes | Awaiting nat

section \<open>Artifacts\<close>

record artifactLoad =
  al_name :: string
  al_phase :: loadPhase

record artifactProvider =
  ap_mem :: "string \<Rightarrow> bytes option"
  ap_inflight :: "string \<Rightarrow> nat option"
  ap_loads :: "artifactLoad list"
  ap_idb :: "string \<Rightarrow> bytes option"
  ap_writes :: "(string \<times> bytes) list"
  ap_fetches :: "string list"
  ap_handles :: "(string \<times> artifactHandle) list"

record assetsOptions =
  ao_loader :: bool
  ao_cache :: bool

definition usesIdb :: "assetsOptions \<Rightarrow> bool" where
  "usesIdb O' \<longleftrightarrow> ao_cache O' \<and> \<not> ao_loader O'"

text \<open>The provider of a new page: nothing in memory, whatever earlier pages persisted.\<close>

definition newProvider :: "(string \<Rightarrow> bytes option) \<Rightarrow> artifactProvider" where
  "newProvider idb =
     \<lparr>ap_mem = (\<lambda>_. None), ap_inflight = (\<lambda>_. None), ap_loads = [], ap_idb = idb, ap_writes = [], ap_fetches = [], ap_handles = []\<rparr>"

definition artifactName :: "(string \<Rightarrow> string option) \<Rightarrow> string \<Rightarrow> string \<Rightarrow> string" where
  "artifactName hashes circuitId ext =
     (let base = circuitId @ ''.'' @ ext; h = the_or [] (hashes base) in
      if h = [] then base else circuitId @ ''.'' @ h @ ''.'' @ ext)"

text \<open>The head of \<open>load\<close>, up to its first \<open>await\<close>.\<close>

definition startLoad :: "assetsOptions \<Rightarrow> string \<Rightarrow> artifactProvider \<Rightarrow> artifactProvider" where
  "startLoad O' name a =
     (if usesIdb O' then a\<lparr>ap_loads := ap_loads a @ [\<lparr>al_name = name, al_phase = ReadingIdb\<rparr>]\<rparr>
      else a\<lparr>ap_loads := ap_loads a @ [\<lparr>al_name = name, al_phase = Fetching\<rparr>], ap_fetches := ap_fetches a @ [name]\<rparr>)"

definition handed :: "string \<Rightarrow> artifactHandle \<Rightarrow> artifactProvider \<Rightarrow> artifactProvider" where
  "handed name h a = a\<lparr>ap_handles := ap_handles a @ [(name, h)]\<rparr>"

definition artifact :: "assetsOptions \<Rightarrow> (string \<Rightarrow> string option) \<Rightarrow> string \<Rightarrow> string \<Rightarrow> artifactProvider \<Rightarrow> artifactProvider" where
  "artifact O' hashes circuitId ext a =
     (let name = artifactName hashes circuitId ext in
      case ap_mem a name of
        Some b \<Rightarrow> handed name (Resolved b) a
      | None \<Rightarrow>
          (case ap_inflight a name of
             Some n \<Rightarrow> handed name (Awaiting n) a
           | None \<Rightarrow>
               let n = length (ap_loads a); a' = startLoad O' name a in
               handed name (Awaiting n) (a'\<lparr>ap_inflight := (ap_inflight a')(name \<mapsto> n)\<rparr>)))"

definition setPhase :: "nat \<Rightarrow> loadPhase \<Rightarrow> artifactProvider \<Rightarrow> artifactProvider" where
  "setPhase n p a = a\<lparr>ap_loads := (ap_loads a)[n := (ap_loads a ! n)\<lparr>al_phase := p\<rparr>]\<rparr>"

definition loadedFrom :: "nat \<Rightarrow> bytes \<Rightarrow> artifactProvider \<Rightarrow> artifactProvider" where
  "loadedFrom n b a = setPhase n (Settling (Inr b)) (a\<lparr>ap_mem := (ap_mem a)(al_name (ap_loads a ! n) \<mapsto> b)\<rparr>)"

text \<open>\<open>readIdb(filename).catch(() => null)\<close> has answered.\<close>

definition idbAnswered :: "nat \<Rightarrow> bool \<Rightarrow> artifactProvider \<Rightarrow> artifactProvider" where
  "idbAnswered n readable a =
     (let name = al_name (ap_loads a ! n) in
      case (if readable then ap_idb a name else None) of
        Some b \<Rightarrow> loadedFrom n b a
      | None \<Rightarrow> setPhase n Fetching (a\<lparr>ap_fetches := ap_fetches a @ [name]\<rparr>))"

text \<open>The loader or the service has answered.\<close>

definition fetched :: "assetsOptions \<Rightarrow> nat \<Rightarrow> bytes res \<Rightarrow> artifactProvider \<Rightarrow> artifactProvider" where
  "fetched O' n r a =
     (case r of
        Inl e \<Rightarrow> setPhase n (Settling (Inl e)) a
      | Inr b \<Rightarrow>
          let a' = loadedFrom n b a in
          if usesIdb O' then a'\<lparr>ap_writes := ap_writes a' @ [(al_name (ap_loads a ! n), b)]\<rparr> else a')"

definition flightEnded :: "nat \<Rightarrow> bytes res \<Rightarrow> artifactProvider \<Rightarrow> artifactProvider" where
  "flightEnded n r a = setPhase n (Settled r) (a\<lparr>ap_inflight := (ap_inflight a)(al_name (ap_loads a ! n) := None)\<rparr>)"

datatype assetEvent =
    Requests string string
  | IdbAnswers nat bool
  | Fetched nat "bytes res"
  | FlightEnds nat
  | IdbWrites string bytes bool

definition inPhase :: "artifactProvider \<Rightarrow> nat \<Rightarrow> loadPhase option" where
  "inPhase a n = (if n < length (ap_loads a) then Some (al_phase (ap_loads a ! n)) else None)"

fun assetStep :: "assetsOptions \<Rightarrow> (string \<Rightarrow> string option) \<Rightarrow> artifactProvider \<Rightarrow> assetEvent \<Rightarrow> artifactProvider" where
  "assetStep O' hashes a (Requests circuitId ext) = artifact O' hashes circuitId ext a"
| "assetStep O' hashes a (IdbAnswers n readable) = (if inPhase a n = Some ReadingIdb then idbAnswered n readable a else a)"
| "assetStep O' hashes a (Fetched n r) = (if inPhase a n = Some Fetching then fetched O' n r a else a)"
| "assetStep O' hashes a (FlightEnds n) = (case inPhase a n of Some (Settling r) \<Rightarrow> flightEnded n r a | _ \<Rightarrow> a)"
| "assetStep O' hashes a (IdbWrites name b ok) =
     (if (name, b) \<in> set (ap_writes a)
      then a\<lparr>ap_writes := remove1 (name, b) (ap_writes a), ap_idb := (if ok then (ap_idb a)(name \<mapsto> b) else ap_idb a)\<rparr>
      else a)"

definition assetView :: "artifactProvider \<Rightarrow> string flights" where
  "assetView a = (map (\<lambda>l. (al_name l, isSettled (al_phase l))) (ap_loads a), ap_inflight a, (\<lambda>name. ap_mem a name \<noteq> None))"

text \<open>Moving a running download to another phase is invisible, and keeping bytes only adds a key.\<close>

lemma view_setPhase:
  assumes "n < length (ap_loads a)" and "\<not> isSettled (al_phase (ap_loads a ! n))" and "\<not> isSettled p"
  shows "map (\<lambda>l. (al_name l, isSettled (al_phase l))) ((ap_loads a)[n := (ap_loads a ! n)\<lparr>al_phase := p\<rparr>])
       = map (\<lambda>l. (al_name l, isSettled (al_phase l))) (ap_loads a)"
  using assms by (intro nth_equalityI) (auto simp: nth_list_update)

lemma assetView_setPhase:
  assumes "inPhase a n = Some q" and "\<not> isSettled q" and "\<not> isSettled p"
  shows "assetView (setPhase n p a) = assetView a"
  using assms by (simp add: assetView_def setPhase_def inPhase_def view_setPhase split: if_splits)

lemma assetView_unseen [simp]:
  "assetView (a\<lparr>ap_fetches := x\<rparr>) = assetView a" "assetView (a\<lparr>ap_writes := y\<rparr>) = assetView a" "assetView (a\<lparr>ap_idb := z\<rparr>) = assetView a"
  "assetView (handed name h a) = assetView a" "inPhase (a\<lparr>ap_fetches := x\<rparr>) n = inPhase a n" "inPhase (a\<lparr>ap_mem := m\<rparr>) n = inPhase a n"
  by (simp_all add: assetView_def inPhase_def handed_def)

lemma flight_loadedFrom:
  assumes "inPhase a n = Some q" and "\<not> isSettled q"
  shows "flight (assetView a) (assetView (loadedFrom n b a))"
proof -
  have "assetView (loadedFrom n b a) = assetView (a\<lparr>ap_mem := (ap_mem a)(al_name (ap_loads a ! n) \<mapsto> b)\<rparr>)"
    unfolding loadedFrom_def using assms by (simp add: assetView_setPhase)
  then show ?thesis unfolding assetView_def by (auto intro: flight_hold)
qed

lemma flight_artifact: "flight (assetView a) (assetView (artifact O' hashes circuitId ext a))"
proof -
  define name where "name = artifactName hashes circuitId ext"
  show ?thesis
  proof (cases "ap_mem a name = None \<and> ap_inflight a name = None")
    case True
    let ?ls = "map (\<lambda>l. (al_name l, isSettled (al_phase l))) (ap_loads a)" and ?memo = "\<lambda>name. ap_mem a name \<noteq> None"
    from True have "assetView (artifact O' hashes circuitId ext a) = (?ls @ [(name, False)], (ap_inflight a)(name \<mapsto> length ?ls), ?memo)"
      by (auto simp: artifact_def Let_def name_def [symmetric] assetView_def handed_def startLoad_def)
    moreover have "flight (?ls, ap_inflight a, ?memo) (?ls @ [(name, False)], (ap_inflight a)(name \<mapsto> length ?ls), ?memo)"
      using True by (intro flight_start) simp_all
    ultimately show ?thesis unfolding assetView_def [of a] by metis
  next
    case False
    then have "assetView (artifact O' hashes circuitId ext a) = assetView a"
      by (auto simp: artifact_def Let_def name_def [symmetric] split: option.splits)
    then show ?thesis by (simp add: flight_refl)
  qed
qed

lemma flight_ended:
  assumes "inPhase a n = Some q" and "\<not> isSettled q"
  shows "flight (assetView a) (assetView (flightEnded n r a))"
proof -
  let ?f = "\<lambda>l. (al_name l, isSettled (al_phase l))"
  have at: "n < length (ap_loads a)" "\<not> isSettled (al_phase (ap_loads a ! n))" using assms by (auto simp: inPhase_def split: if_splits)
  have "assetView (flightEnded n r a) =
      ((map ?f (ap_loads a))[n := (al_name (ap_loads a ! n), True)], (ap_inflight a)(al_name (ap_loads a ! n) := None), \<lambda>k. ap_mem a k \<noteq> None)"
    by (simp add: assetView_def flightEnded_def setPhase_def map_update)
  then show ?thesis using at by (simp add: assetView_def flight_settle)
qed

lemma assetStep_flight: "flight (assetView a) (assetView (assetStep O' hashes a e))"
proof (cases e)
  case (Requests c x)
  then show ?thesis by (simp add: flight_artifact)
next
  case (IdbAnswers n readable)
  then show ?thesis
    using flight_loadedFrom [of a n ReadingIdb] by (simp add: idbAnswered_def Let_def assetView_setPhase flight_refl split: option.split)
next
  case (Fetched n r)
  then show ?thesis
    using flight_loadedFrom [of a n Fetching] by (simp add: fetched_def Let_def assetView_setPhase flight_refl split: sum.split)
next
  case (FlightEnds n)
  then show ?thesis by (auto intro!: flight_ended flight_refl split: option.split loadPhase.split)
next
  case (IdbWrites name b ok)
  then show ?thesis by (simp add: assetView_def flight_hold)
qed

interpretation artifacts: single_flight "assetStep O' hashes" assetView for O' hashes
  by unfold_locales (rule assetStep_flight)


section \<open>The bytes the prover gets\<close>

text \<open>The service gives one content for each name, the assumption behind its immutable caching.\<close>

definition served :: "(string \<Rightarrow> bytes) \<Rightarrow> (string \<Rightarrow> bytes option) \<Rightarrow> bool" where
  "served serve m \<longleftrightarrow> (\<forall>k b. m k = Some b \<longrightarrow> b = serve k)"

fun servesName :: "(string \<Rightarrow> bytes) \<Rightarrow> artifactProvider \<Rightarrow> assetEvent \<Rightarrow> bool" where
  "servesName serve a (Fetched n (Inr b)) = (n < length (ap_loads a) \<longrightarrow> b = serve (al_name (ap_loads a ! n)))"
| "servesName serve a _ = True"

fun gives :: "loadPhase \<Rightarrow> bytes option" where
  "gives (Settling (Inr b)) = Some b"
| "gives (Settled (Inr b)) = Some b"
| "gives _ = None"

definition loadOk :: "(string \<Rightarrow> bytes) \<Rightarrow> artifactLoad \<Rightarrow> bool" where
  "loadOk serve l \<longleftrightarrow> gives (al_phase l) \<in> {None, Some (serve (al_name l))}"

fun handleOk :: "(string \<Rightarrow> bytes) \<Rightarrow> string list \<Rightarrow> string \<times> artifactHandle \<Rightarrow> bool" where
  "handleOk serve names (name, Resolved b) = (b = serve name)"
| "handleOk serve names (name, Awaiting n) = (n < length names \<and> names ! n = name)"

definition assetsOk :: "(string \<Rightarrow> bytes) \<Rightarrow> artifactProvider \<Rightarrow> bool" where
  "assetsOk serve a \<longleftrightarrow>
     served serve (ap_mem a) \<and> served serve (ap_idb a) \<and> list_all (\<lambda>(k, b). b = serve k) (ap_writes a)
     \<and> list_all (loadOk serve) (ap_loads a) \<and> list_all (handleOk serve (map al_name (ap_loads a))) (ap_handles a)
     \<and> flightInv (assetView a)"

lemma served_upd: "served serve m \<Longrightarrow> served serve (m(k \<mapsto> serve k))"
  by (simp add: served_def)

lemma handleOk_append: "handleOk serve names h \<Longrightarrow> handleOk serve (names @ ys) h"
  by (cases h; cases "snd h") (auto simp: nth_append)

lemma assetInvD:
  "flightInv (assetView a) \<Longrightarrow>
     (ap_inflight a k = Some n) = (n < length (ap_loads a) \<and> al_name (ap_loads a ! n) = k \<and> \<not> isSettled (al_phase (ap_loads a ! n)))"
  using flightInvD [of "map (\<lambda>l. (al_name l, isSettled (al_phase l))) (ap_loads a)" "ap_inflight a" "\<lambda>name. ap_mem a name \<noteq> None" n k]
  unfolding assetView_def by auto

lemma names_setPhase [simp]: "map al_name ((ap_loads a)[n := (ap_loads a ! n)\<lparr>al_phase := p\<rparr>]) = map al_name (ap_loads a)"
  by (cases "n < length (ap_loads a)") (auto intro!: nth_equalityI simp: nth_list_update)

lemma loads_setPhase:
  assumes "list_all (loadOk serve) ls" and "gives p \<in> {None, Some (serve (al_name (ls ! n)))}"
  shows "list_all (loadOk serve) (ls[n := (ls ! n)\<lparr>al_phase := p\<rparr>])"
  using assms by (cases "n < length ls") (auto simp: list_all_length nth_list_update loadOk_def)

lemma assetsOk_loadedFrom:
  assumes "assetsOk serve a" and "inPhase a n = Some q" and "\<not> isSettled q" and "b = serve (al_name (ap_loads a ! n))"
  shows "assetsOk serve (loadedFrom n b a)"
proof -
  have "flightInv (assetView (loadedFrom n b a))"
    using assms flight_loadedFrom flightInv_step unfolding assetsOk_def by blast
  then show ?thesis using assms(1,4) by (simp add: assetsOk_def loadedFrom_def setPhase_def served_upd loads_setPhase)
qed

lemma assetsOk_setPhase:
  assumes "assetsOk serve a" and "inPhase a n = Some q" and "\<not> isSettled q" "\<not> isSettled p" and "gives p = None"
  shows "assetsOk serve (setPhase n p a)"
proof -
  have "flightInv (assetView (setPhase n p a))" using assms by (simp add: assetView_setPhase assetsOk_def)
  then show ?thesis using assms(1,5) by (simp add: assetsOk_def setPhase_def loads_setPhase)
qed

lemma assetsOk_artifact:
  assumes "assetsOk serve a"
  shows "assetsOk serve (artifact O' hashes circuitId ext a)"
proof -
  define name where "name = artifactName hashes circuitId ext"
  have inv: "flightInv (assetView (artifact O' hashes circuitId ext a))"
    using assms flight_artifact flightInv_step unfolding assetsOk_def by blast
  show ?thesis
  proof (cases "ap_mem a name = None \<and> ap_inflight a name = None")
    case True
    then show ?thesis using assms inv
      by (auto simp: assetsOk_def artifact_def Let_def name_def [symmetric] handed_def startLoad_def loadOk_def list_all_iff
          handleOk_append nth_append)
  next
    case False
    then show ?thesis using assms inv assetInvD [of a name]
      by (auto simp: assetsOk_def artifact_def Let_def name_def [symmetric] handed_def served_def split: option.splits)
  qed
qed

lemma assetsOk_ended:
  assumes "assetsOk serve a" and "inPhase a n = Some (Settling r)"
  shows "assetsOk serve (flightEnded n r a)"
proof -
  have inv: "flightInv (assetView (flightEnded n r a))"
    using assms flight_ended [OF assms(2)] flightInv_step unfolding assetsOk_def by (metis isSettled.simps(4))
  have "loadOk serve (ap_loads a ! n)" "al_phase (ap_loads a ! n) = Settling r"
    using assms by (auto simp: assetsOk_def inPhase_def list_all_length split: if_splits)
  then have "gives (Settled r) \<in> {None, Some (serve (al_name (ap_loads a ! n)))}" by (cases r) (auto simp: loadOk_def)
  with inv show ?thesis using assms(1) by (simp add: assetsOk_def flightEnded_def setPhase_def loads_setPhase)
qed

lemma assetsOk_unseen [simp]:
  "assetsOk serve (a\<lparr>ap_fetches := x\<rparr>) = assetsOk serve a"
  by (simp add: assetsOk_def)

lemma assetsOk_step:
  assumes "assetsOk serve a" and "servesName serve a e"
  shows "assetsOk serve (assetStep O' hashes a e)"
proof (cases e)
  case (Requests c x)
  then show ?thesis using assms by (simp add: assetsOk_artifact)
next
  case (IdbAnswers n readable)
  have "ap_idb a k = Some b \<Longrightarrow> b = serve k" for k b using assms by (simp add: assetsOk_def served_def)
  then show ?thesis using assms(1) IdbAnswers
    by (auto simp: idbAnswered_def Let_def intro!: assetsOk_loadedFrom assetsOk_setPhase split: option.split)
next
  case (Fetched n r)
  show ?thesis
  proof (cases "inPhase a n = Some Fetching")
    case True
    then have n: "n < length (ap_loads a)" by (simp add: inPhase_def split: if_splits)
    show ?thesis
    proof (cases r)
      case (Inl err)
      then show ?thesis using assms(1) True Fetched by (simp add: fetched_def assetsOk_setPhase)
    next
      case (Inr b)
      have b: "b = serve (al_name (ap_loads a ! n))" using assms(2) n Inr Fetched by simp
      then have "assetsOk serve (loadedFrom n b a)" using assms(1) True by (intro assetsOk_loadedFrom) auto
      then show ?thesis using True Fetched Inr b by (simp add: fetched_def Let_def assetsOk_def)
    qed
  qed (use assms Fetched in simp)
next
  case (FlightEnds n)
  then show ?thesis using assms by (auto intro: assetsOk_ended split: option.split loadPhase.split)
next
  case (IdbWrites name b ok)
  then show ?thesis using assms(1)
    by (auto simp: assetsOk_def served_def list_all_iff dest: notin_set_remove1)
qed

interpretation serving: guarded_machine "assetStep O' hashes" "assetsOk serve" "servesName serve" for O' hashes serve
  by unfold_locales (rule assetsOk_step)

lemma assetsOk_new: "served serve idb \<Longrightarrow> assetsOk serve (newProvider idb)"
  by (simp add: assetsOk_def newProvider_def served_def flightInv_def assetView_def)

text \<open>The downloads that have not settled.\<close>

definition running :: "artifactProvider \<Rightarrow> string list" where
  "running a = map al_name (filter (\<lambda>l. \<not> isSettled (al_phase l)) (ap_loads a))"

lemma distinct_map_filterI:
  assumes "\<And>m n. m < length ls \<Longrightarrow> n < length ls \<Longrightarrow> P (ls ! m) \<Longrightarrow> P (ls ! n) \<Longrightarrow> f (ls ! m) = f (ls ! n) \<Longrightarrow> m = n"
  shows "distinct (map f (filter P ls))"
  using assms
proof (induction ls)
  case (Cons x xs)
  have "distinct (map f (filter P xs))" by (rule Cons.IH) (use Cons.prems [of "Suc m" "Suc n" for m n] in auto)
  moreover have "f x \<notin> f ` {y \<in> set xs. P y}" if "P x"
    using that Cons.prems [of 0 "Suc n" for n] by (force simp: in_set_conv_nth)
  ultimately show ?case by auto
qed simp

lemma running_distinct:
  assumes "flightInv (assetView a)"
  shows "distinct (running a)"
  unfolding running_def by (rule distinct_map_filterI) (metis assetInvD [OF assms] option.inject)

text \<open>C14: Whatever order the requests, the database and the network answer in, and whatever fails, every request for an
  artifact is answered from memory with the bytes the service has under the name requested, or shares the download of
  that name, and a download that gives bytes gives those; and no two downloads of one name run at the same time.\<close>

theorem artifacts_served_once:
  assumes "served serve idb" and "allowed_run (servesName serve) (assetStep O' hashes) (newProvider idb) es"
    and "a = run_events (assetStep O' hashes) (newProvider idb) es"
  shows "list_all (handleOk serve (map al_name (ap_loads a))) (ap_handles a) \<and> list_all (loadOk serve) (ap_loads a) \<and> distinct (running a)"
proof -
  have "assetsOk serve a" using serving.guarded_run [OF assetsOk_new [OF assms(1)] assms(2)] assms(3) by simp
  then show ?thesis by (simp add: assetsOk_def running_distinct)
qed

text \<open>Once a name is in memory it is never downloaded again, whatever follows.\<close>

theorem kept_artifact_not_reloaded:
  "ap_mem a name \<noteq> None \<Longrightarrow>
     started name (assetView (run_events (assetStep O' hashes) a es)) = started name (assetView a)"
  using artifacts.run_memo [of a name] by (simp add: assetView_def)

text \<open>A failed download leaves nothing behind: the next request starts another.\<close>

theorem failed_download_retried:
  assumes "inPhase a n = Some Fetching" and "name = al_name (ap_loads a ! n)"
    and "name = artifactName hashes circuitId ext" and "ap_mem a name = None"
  shows "\<exists>b. run_events (assetStep O' hashes) a [Fetched n (Inl e), FlightEnds n, Requests circuitId ext] = b
       \<and> started name (assetView b) = Suc (started name (assetView a)) \<and> ap_handles b = ap_handles a @ [(name, Awaiting (length (ap_loads a)))]"
proof -
  have n: "n < length (ap_loads a)" "al_phase (ap_loads a ! n) = Fetching" using assms(1) by (auto simp: inPhase_def split: if_splits)
  define b where "b = flightEnded n (Inl e) (setPhase n (Settling (Inl e)) a)"
  have b: "run_events (assetStep O' hashes) a [Fetched n (Inl e), FlightEnds n, Requests circuitId ext] = artifact O' hashes circuitId ext b"
    using n assms(1) by (simp add: fetched_def setPhase_def inPhase_def b_def)
  have "ap_inflight b name = None" "ap_mem b name = None" "length (ap_loads b) = length (ap_loads a)" "ap_handles b = ap_handles a"
    "map al_name (ap_loads b) = map al_name (ap_loads a)"
    using n assms(2,4) list_update_id [of "map al_name (ap_loads a)" n] by (simp_all add: b_def flightEnded_def setPhase_def map_update nth_list_update)
  then show ?thesis unfolding b using assms(3)
    by (simp add: artifact_def Let_def handed_def startLoad_def started_eq assetView_def comp_def)
qed


definition exServe :: "string \<Rightarrow> bytes" where "exServe name = map (\<lambda>c. of_nat (code c)) name"

definition exHashes :: "string \<Rightarrow> string option" where
  "exHashes base = (if base = ''attestKycGte.prover'' then Some ''81c50e4fd493355b'' else None)"

definition exDownloads :: "assetEvent list" where
  "exDownloads =
     [Requests ''attestKycGte'' ''prover'', Requests ''attestKycGte'' ''prover'', IdbAnswers 0 False, Fetched 0 (Inl (Error ''offline'')),
      FlightEnds 0, Requests ''attestKycGte'' ''prover'', IdbAnswers 1 True,
      Fetched 1 (Inr (exServe ''attestKycGte.81c50e4fd493355b.prover'')), FlightEnds 1, Requests ''attestKycGte'' ''prover'']"

lemma exName: "artifactName exHashes ''attestKycGte'' ''prover'' = ''attestKycGte.81c50e4fd493355b.prover''"
  by (simp add: artifactName_def exHashes_def)

lemmas asset_run = exDownloads_def newProvider_def artifact_def exName handed_def startLoad_def usesIdb_def inPhase_def idbAnswered_def
  fetched_def loadedFrom_def setPhase_def flightEnded_def Let_def

theorem artifacts_served_once_witness:
  "\<exists>a. a = run_events (assetStep \<lparr>ao_loader = False, ao_cache = True\<rparr> exHashes) (newProvider (\<lambda>_. None)) exDownloads
     \<and> map snd (ap_handles a) = [Awaiting 0, Awaiting 0, Awaiting 1, Resolved (exServe ''attestKycGte.81c50e4fd493355b.prover'')]
     \<and> length (ap_fetches a) = 2 \<and> distinct (running a)"
proof -
  let ?O = "\<lparr>ao_loader = False, ao_cache = True\<rparr>"
  let ?a = "run_events (assetStep ?O exHashes) (newProvider (\<lambda>_. None)) exDownloads"
  have "distinct (running ?a)"
    using artifacts_served_once [of exServe "\<lambda>_. None" ?O exHashes exDownloads ?a] by (simp add: asset_run served_def)
  then show ?thesis by (simp add: asset_run)
qed

section \<open>Parameters and network id\<close>

record paramsState =
  pc_cache :: "nat \<Rightarrow> bytes option"
  pc_inflight :: "nat \<Rightarrow> nat option"
  pc_loads :: "(nat \<times> loadPhase) list"
  pc_handles :: "(nat \<times> artifactHandle) list"

definition fetchParams :: "nat \<Rightarrow> paramsState \<Rightarrow> paramsState" where
  "fetchParams k s =
     (case pc_cache s k of
        Some b \<Rightarrow> s\<lparr>pc_handles := pc_handles s @ [(k, Resolved b)]\<rparr>
      | None \<Rightarrow>
          (case pc_inflight s k of
             Some n \<Rightarrow> s\<lparr>pc_handles := pc_handles s @ [(k, Awaiting n)]\<rparr>
           | None \<Rightarrow>
               let n = length (pc_loads s) in
               s\<lparr>pc_loads := pc_loads s @ [(k, Fetching)], pc_inflight := (pc_inflight s)(k \<mapsto> n),
                 pc_handles := pc_handles s @ [(k, Awaiting n)]\<rparr>))"

datatype paramsEvent = ParamsRequested nat | ParamsFetched nat "bytes res" | ParamsFlightEnds nat

fun paramsStep :: "paramsState \<Rightarrow> paramsEvent \<Rightarrow> paramsState" where
  "paramsStep s (ParamsRequested k) = fetchParams k s"
| "paramsStep s (ParamsFetched n r) =
     (if n < length (pc_loads s) \<and> snd (pc_loads s ! n) = Fetching
      then let k = fst (pc_loads s ! n); s' = s\<lparr>pc_loads := (pc_loads s)[n := (k, Settling r)]\<rparr> in
           (case r of Inl e \<Rightarrow> s' | Inr b \<Rightarrow> s'\<lparr>pc_cache := (pc_cache s)(k \<mapsto> b)\<rparr>)
      else s)"
| "paramsStep s (ParamsFlightEnds n) =
     (if n < length (pc_loads s)
      then (case pc_loads s ! n of
              (k, Settling r) \<Rightarrow> s\<lparr>pc_loads := (pc_loads s)[n := (k, Settled r)], pc_inflight := (pc_inflight s)(k := None)\<rparr>
            | _ \<Rightarrow> s)
      else s)"

definition paramsView :: "paramsState \<Rightarrow> nat flights" where
  "paramsView s = (map (map_prod id isSettled) (pc_loads s), pc_inflight s, (\<lambda>k. pc_cache s k \<noteq> None))"

lemma paramsView_running:
  assumes "n < length (pc_loads s)" and "\<not> isSettled (snd (pc_loads s ! n))" and "\<not> isSettled p"
  shows "map (map_prod id isSettled) ((pc_loads s)[n := (fst (pc_loads s ! n), p)]) = map (map_prod id isSettled) (pc_loads s)"
  using assms by (intro nth_equalityI) (auto simp: nth_list_update map_prod_def split: prod.splits)

lemma paramsStep_flight: "flight (paramsView s) (paramsView (paramsStep s e))"
proof (cases e)
  case (ParamsRequested k)
  show ?thesis
  proof (cases "pc_cache s k = None \<and> pc_inflight s k = None")
    case True
    let ?ls = "map (map_prod id isSettled) (pc_loads s)" and ?memo = "\<lambda>k. pc_cache s k \<noteq> None"
    have "flight (?ls, pc_inflight s, ?memo) (?ls @ [(k, False)], (pc_inflight s)(k \<mapsto> length ?ls), ?memo)"
      using True by (intro flight_start) simp_all
    with True show ?thesis by (simp add: ParamsRequested fetchParams_def paramsView_def Let_def)
  next
    case False
    then have "paramsView (paramsStep s e) = paramsView s"
      by (auto simp: ParamsRequested fetchParams_def paramsView_def split: option.splits)
    then show ?thesis by (simp add: flight_refl)
  qed
next
  case (ParamsFetched n r)
  then show ?thesis
    using paramsView_running [of n s "Settling r"] by (auto simp: paramsView_def Let_def intro!: flight_hold split: sum.split)
next
  case (ParamsFlightEnds n)
  show ?thesis
  proof (cases "n < length (pc_loads s) \<and> (\<exists>k r. pc_loads s ! n = (k, Settling r))")
    case True
    then obtain k r where at: "n < length (pc_loads s)" "pc_loads s ! n = (k, Settling r)" by blast
    then show ?thesis by (simp add: ParamsFlightEnds paramsView_def map_update flight_settle)
  next
    case False
    then have "paramsStep s e = s" by (auto simp: ParamsFlightEnds split: prod.split loadPhase.split)
    then show ?thesis by (simp add: flight_refl)
  qed
qed

interpretation params: single_flight paramsStep paramsView
  by unfold_locales (rule paramsStep_flight)


text \<open>\<open>ensureMidnightNetworkConfigured\<close>: one key; a settled call keeps nothing but its outcome.\<close>

datatype netPhase = AskingNetwork | NetSettling "unit res" | NetSettled "unit res"

record networkModule =
  nw_configured :: bool
  nw_inflight :: "nat option"
  nw_loads :: "netPhase list"
  nw_networkId :: "string option"

definition ensureMidnightNetworkConfigured :: "networkModule \<Rightarrow> networkModule" where
  "ensureMidnightNetworkConfigured s =
     (if nw_configured s then s
      else case nw_inflight s of
             Some n \<Rightarrow> s
           | None \<Rightarrow> s\<lparr>nw_loads := nw_loads s @ [AskingNetwork], nw_inflight := Some (length (nw_loads s))\<rparr>)"

datatype networkEvent = EnsureCalled | InfoAnswered nat "string res" | NetFlightEnds nat

definition phaseOf :: "networkModule \<Rightarrow> nat \<Rightarrow> netPhase option" where
  "phaseOf s n = (if n < length (nw_loads s) then Some (nw_loads s ! n) else None)"

fun networkStep :: "networkModule \<Rightarrow> networkEvent \<Rightarrow> networkModule" where
  "networkStep s EnsureCalled = ensureMidnightNetworkConfigured s"
| "networkStep s (InfoAnswered n r) =
     (if phaseOf s n = Some AskingNetwork
      then (case r of
              Inl e \<Rightarrow> s\<lparr>nw_loads := (nw_loads s)[n := NetSettling (Inl e)]\<rparr>
            | Inr networkId \<Rightarrow>
                s\<lparr>nw_loads := (nw_loads s)[n := NetSettling (Inr ())], nw_networkId := Some networkId, nw_configured := True\<rparr>)
      else s)"
| "networkStep s (NetFlightEnds n) =
     (case phaseOf s n of
        Some (NetSettling r) \<Rightarrow> s\<lparr>nw_loads := (nw_loads s)[n := NetSettled r], nw_inflight := None\<rparr>
      | _ \<Rightarrow> s)"

fun netDone :: "netPhase \<Rightarrow> bool" where
  "netDone (NetSettled r) = True"
| "netDone _ = False"

definition networkView :: "networkModule \<Rightarrow> unit flights" where
  "networkView s = (map (\<lambda>p. ((), netDone p)) (nw_loads s), (\<lambda>_. nw_inflight s), (\<lambda>_. nw_configured s))"

lemma phaseOf_SomeD: "phaseOf s n = Some p \<Longrightarrow> n < length (nw_loads s) \<and> nw_loads s ! n = p"
  by (simp add: phaseOf_def split: if_splits)

lemma networkView_running:
  "n < length ps \<Longrightarrow> \<not> netDone (ps ! n) \<Longrightarrow> \<not> netDone p \<Longrightarrow> map (\<lambda>p. ((), netDone p)) (ps[n := p]) = map (\<lambda>p. ((), netDone p)) ps"
  by (intro nth_equalityI) (auto simp: nth_list_update)

lemma networkStep_flight: "flight (networkView s) (networkView (networkStep s e))"
proof (cases e)
  case EnsureCalled
  let ?ls = "map (\<lambda>p. ((), netDone p)) (nw_loads s)"
  have "flight (?ls, \<lambda>_. nw_inflight s, \<lambda>_. nw_configured s)
      (?ls @ [((), False)], (\<lambda>_. nw_inflight s)(() \<mapsto> length ?ls), \<lambda>_. nw_configured s)"
    if "nw_inflight s = None" "\<not> nw_configured s"
    using that by (intro flight_start) simp_all
  moreover have "(\<lambda>_. nw_inflight s)(() \<mapsto> length (nw_loads s)) = (\<lambda>_. Some (length (nw_loads s)))" by auto
  ultimately show ?thesis
    by (auto simp: EnsureCalled ensureMidnightNetworkConfigured_def networkView_def intro: flight_refl split: option.split)
next
  case (InfoAnswered n r)
  then show ?thesis
    by (auto simp: networkView_def networkView_running intro!: flight_hold dest!: phaseOf_SomeD split: sum.split)
next
  case (NetFlightEnds n)
  show ?thesis
  proof (cases "\<exists>r. phaseOf s n = Some (NetSettling r)")
    case True
    then obtain r where r: "phaseOf s n = Some (NetSettling r)" by blast
    have "flight (networkView s) ((map (\<lambda>p. ((), netDone p)) (nw_loads s))[n := ((), True)], (\<lambda>_. nw_inflight s)(() := None), \<lambda>_. nw_configured s)"
      unfolding networkView_def using phaseOf_SomeD [OF r] by (intro flight_settle) simp_all
    moreover have "(\<lambda>_. nw_inflight s)(() := None) = (\<lambda>_. None)" by auto
    ultimately show ?thesis using r by (simp add: NetFlightEnds networkView_def map_update)
  next
    case False
    then have "networkStep s e = s" by (auto simp: NetFlightEnds split: option.split netPhase.split)
    then show ?thesis by (simp add: flight_refl)
  qed
qed

interpretation network: single_flight networkStep networkView
  by unfold_locales (rule networkStep_flight)

text \<open>The parameters of a size and the network id are asked for at most once at a time, and never again once known.\<close>

theorem memo_loads_settle:
  "pc_cache s k \<noteq> None \<Longrightarrow> started k (paramsView (run_events paramsStep s es)) = started k (paramsView s)"
  "nw_configured w \<Longrightarrow> started () (networkView (run_events networkStep w fs)) = started () (networkView w)"
  using params.run_memo [of s k es] network.run_memo [of w "()" fs] by (simp_all add: paramsView_def networkView_def started_def)

section \<open>The chain snapshot\<close>

text \<open>The serializers of the chain states are parameters; \<open>states\<close> are the three parts the snapshot carries.\<close>

record predicateSnapshot =
  sn_address :: string
  sn_zswapChainState :: string
  sn_contractState :: string
  sn_ledgerParameters :: string

record ('z, 'c, 'l) stateCodec =
  sc_zswap :: "'z \<Rightarrow> bytes"
  sc_unzswap :: "bytes \<Rightarrow> 'z res"
  sc_contract :: "'c \<Rightarrow> bytes"
  sc_uncontract :: "bytes \<Rightarrow> 'c res"
  sc_ledger :: "'l \<Rightarrow> bytes"
  sc_unledger :: "bytes \<Rightarrow> 'l res"

definition encodePredicateSnapshot :: "('z, 'c, 'l) stateCodec \<Rightarrow> string \<Rightarrow> 'z \<times> 'c \<times> 'l \<Rightarrow> predicateSnapshot" where
  "encodePredicateSnapshot C address states =
     (case states of (z, c, l) \<Rightarrow>
        \<lparr>sn_address = address, sn_zswapChainState = bytesToHex (sc_zswap C z), sn_contractState = bytesToHex (sc_contract C c),
         sn_ledgerParameters = bytesToHex (sc_ledger C l)\<rparr>)"

datatype chainQuery =
    QueryZSwapAndContractState string | QueryContractState | QueryDeployContractState | QueryUnshieldedBalances
  | WatchForContractState | WatchForUnshieldedBalances | WatchForDeployTxData | WatchForTxData | ContractStateObservable

fun methodName :: "chainQuery \<Rightarrow> string" where
  "methodName (QueryZSwapAndContractState a) = ''queryZSwapAndContractState''"
| "methodName QueryContractState = ''queryContractState''"
| "methodName QueryDeployContractState = ''queryDeployContractState''"
| "methodName QueryUnshieldedBalances = ''queryUnshieldedBalances''"
| "methodName WatchForContractState = ''watchForContractState''"
| "methodName WatchForUnshieldedBalances = ''watchForUnshieldedBalances''"
| "methodName WatchForDeployTxData = ''watchForDeployTxData''"
| "methodName WatchForTxData = ''watchForTxData''"
| "methodName ContractStateObservable = ''contractStateObservable''"

definition HolderOffChainError :: "string \<Rightarrow> js_error" where
  "HolderOffChainError m =
     Error (''PublicDataProvider.'' @ m @ '' is unavailable on the holder device (hidden-chain rule). '' @
            ''Only queryZSwapAndContractState (from the backend snapshot) is permitted.'')"

text \<open>The provider is built only when all three parts can be read.\<close>

definition createSnapshotPublicDataProvider ::
  "('z, 'c, 'l) stateCodec \<Rightarrow> predicateSnapshot \<Rightarrow> (chainQuery \<Rightarrow> ('z \<times> 'c \<times> 'l) res) res" where
  "createSnapshotPublicDataProvider C snapshot =
     (case (sc_unzswap C (hexToBytes (sn_zswapChainState snapshot)), sc_uncontract C (hexToBytes (sn_contractState snapshot)),
            sc_unledger C (hexToBytes (sn_ledgerParameters snapshot))) of
        (Inr z, Inr c, Inr l) \<Rightarrow>
          Inr (\<lambda>q. case q of
                 QueryZSwapAndContractState contractAddress \<Rightarrow>
                   if contractAddress \<noteq> sn_address snapshot
                   then Inl (Error (''snapshot is for '' @ sn_address snapshot @ '', not '' @ contractAddress))
                   else Inr (z, c, l)
               | _ \<Rightarrow> Inl (HolderOffChainError (methodName q)))
      | (Inl e, _, _) \<Rightarrow> Inl e
      | (_, Inl e, _) \<Rightarrow> Inl e
      | (_, _, Inl e) \<Rightarrow> Inl e)"

definition codecOk :: "('z, 'c, 'l) stateCodec \<Rightarrow> bool" where
  "codecOk C \<longleftrightarrow>
     (\<forall>z. sc_unzswap C (sc_zswap C z) = Inr z) \<and> (\<forall>c. sc_uncontract C (sc_contract C c) = Inr c) \<and> (\<forall>l. sc_unledger C (sc_ledger C l) = Inr l)"

text \<open>The holder reads from a snapshot the states the backend encoded, for the contract it was taken of, and nothing else of
  the chain.\<close>

theorem snapshot_roundtrip:
  assumes "codecOk C"
  shows "\<exists>provider. createSnapshotPublicDataProvider C (encodePredicateSnapshot C address states) = Inr provider
       \<and> provider (QueryZSwapAndContractState address) = Inr states
       \<and> (\<forall>q. q \<noteq> QueryZSwapAndContractState address \<longrightarrow> (\<exists>e. provider q = Inl e))"
proof -
  obtain z c l where "states = (z, c, l)" by (cases states)
  then show ?thesis using assms
    by (auto simp: createSnapshotPublicDataProvider_def encodePredicateSnapshot_def codecOk_def bytesToHex_eq_hexEncode
        hexToBytes_hexEncode split: chainQuery.split)
qed

end
