(* ===== verification/App_Settings.thy ===== *)
theory App_Settings
  imports Proving Browser
begin

text \<open>
  Where a proof is made: the choice of a prover of \<open>sdk/src/midnight/prover.ts\<close> and the settings of the wallet app,
  \<open>app/src/lib/settings.ts\<close>, that decide it.  The parser of \<open>new URL\<close> is a parameter that gives the protocol and the host
  name; local storage is the value under the settings key.
\<close>

section \<open>The prover\<close>

text \<open>A remote configuration may have an empty URL; the timeout and the headers of an explicit one are passed on and left
  out.\<close>

datatype provingProviderConfig = WasmConfig | ProofServerConfig string

definition resolveProvingConfig :: "configEnv \<Rightarrow> provingProviderConfig option \<Rightarrow> provingProviderConfig" where
  "resolveProvingConfig E override =
     (case override of
        Some c \<Rightarrow> c
      | None \<Rightarrow>
          if getProvingMode E None = ''proof-server'' \<and> nonEmpty (getProofServerUrl E None)
          then ProofServerConfig (the (getProofServerUrl E None)) else WasmConfig)"

text \<open>The server that \<open>createProofProviderFor\<close> hands the unproven transaction to, if any.\<close>

definition createProofProviderFor :: "provingProviderConfig option \<Rightarrow> string option" where
  "createProofProviderFor config =
     (case config of Some (ProofServerConfig url) \<Rightarrow> if url = [] then None else Some url | _ \<Rightarrow> None)"

section \<open>Settings\<close>

datatype provingMode = Wasm | Proof_server

fun modeName :: "provingMode \<Rightarrow> string" where
  "modeName Wasm = ''wasm''"
| "modeName Proof_server = ''proof-server''"

record appSettings =
  st_provingMode :: provingMode
  st_proofServerUrl :: string
  st_encryptedRecoveryEnabled :: bool

definition DEFAULT_SETTINGS :: appSettings where
  "DEFAULT_SETTINGS = \<lparr>st_provingMode = Wasm, st_proofServerUrl = [], st_encryptedRecoveryEnabled = False\<rparr>"

definition getOperatorProofServerUrl :: "configEnv \<Rightarrow> string" where
  "getOperatorProofServerUrl E =
     (if nonEmpty (ce_window E ProofServerUrl) then the (ce_window E ProofServerUrl) else the_or [] (ce_meta E ''VITE_PROOF_SERVER_URL''))"

definition hasOperatorProofServer :: "configEnv \<Rightarrow> bool" where
  "hasOperatorProofServer E \<longleftrightarrow> getOperatorProofServerUrl E \<noteq> []"

definition loadSettings :: "string option \<Rightarrow> appSettings" where
  "loadSettings raw =
     (case raw of
        None \<Rightarrow> DEFAULT_SETTINGS
      | Some text \<Rightarrow>
          if text = [] then DEFAULT_SETTINGS
          else (case JSON_parse text of
                  Inl e \<Rightarrow> DEFAULT_SETTINGS
                | Inr parsed \<Rightarrow>
                    if parsed = JNull then DEFAULT_SETTINGS
                    else \<lparr>st_provingMode = (if getField ''provingMode'' parsed = Some (JStr ''proof-server'') then Proof_server else Wasm),
                          st_proofServerUrl = (case getField ''proofServerUrl'' parsed of Some (JStr u) \<Rightarrow> u | _ \<Rightarrow> []),
                          st_encryptedRecoveryEnabled = (getField ''encryptedRecoveryEnabled'' parsed = Some (JBool True))\<rparr>))"

definition settingsJson :: "appSettings \<Rightarrow> json" where
  "settingsJson s =
     JObj [(''provingMode'', JStr (modeName (st_provingMode s))), (''proofServerUrl'', JStr (st_proofServerUrl s)),
           (''encryptedRecoveryEnabled'', JBool (st_encryptedRecoveryEnabled s))]"

definition applySettingsToSdk :: "appSettings \<Rightarrow> configEnv \<Rightarrow> configEnv" where
  "applySettingsToSdk s E =
     (let url = (if st_provingMode s = Proof_server
                 then (if st_proofServerUrl s \<noteq> [] then Some (st_proofServerUrl s)
                       else if hasOperatorProofServer E then Some (getOperatorProofServerUrl E) else None)
                 else None) in
      configure
        (\<lambda>k. case k of
           VerificationUrl \<Rightarrow> Some (getVerificationUrl E None)
         | IssuerUrl \<Rightarrow> Some (getIssuerUrl E None)
         | ApiKey \<Rightarrow> getApiKey E None
         | WsBaseUrl \<Rightarrow> Some (getWsBaseUrl E None)
         | ProvingModeKey \<Rightarrow> Some (modeName (st_provingMode s))
         | ProofServerUrl \<Rightarrow> url) E)"

definition saveSettings :: "appSettings \<Rightarrow> configEnv \<Rightarrow> string option \<times> configEnv" where
  "saveSettings s E = (Some (stringify (settingsJson s)), applySettingsToSdk s E)"

text \<open>The message for a URL the user typed, if it is not usable.\<close>

definition validateProofServerUrl :: "(string \<Rightarrow> (string \<times> string) option) \<Rightarrow> string \<Rightarrow> string option" where
  "validateProofServerUrl parseUrl raw =
     (let trimmed = trim raw in
      if trimmed = [] then None
      else case parseUrl trimmed of
             None \<Rightarrow> Some ''Not a valid URL''
           | Some (protocol, host) \<Rightarrow>
               if protocol \<noteq> ''http:'' \<and> protocol \<noteq> ''https:'' then Some ''Must be http:// or https://''
               else if protocol = ''http:'' \<and> \<not> (host = ''localhost'' \<or> host = ''127.0.0.1'' \<or> endsWith host ''.local'')
               then Some (''Plain http is only allowed for localhost '' @ emDash @ '' use https'')
               else None)"

definition normalizeProofServerUrl :: "string \<Rightarrow> string" where
  "normalizeProofServerUrl raw = stripTrailing (CHR ''/'') (trim raw)"

definition arrow :: string where "arrow = [CHR 0xE2, CHR 0x86, CHR 0x92]"

definition effectiveBackendLabel :: "(string \<Rightarrow> (string \<times> string) option) \<Rightarrow> provingMode \<Rightarrow> string \<Rightarrow> string \<Rightarrow> string" where
  "effectiveBackendLabel parseUrl mode url operatorUrl =
     (if mode = Wasm then ''WASM (in-process)''
      else let trimmed = trim url in
           if validateProofServerUrl parseUrl trimmed \<noteq> None then ''proof server '' @ arrow @ '' enter a valid URL above''
           else let target = normalizeProofServerUrl (if trimmed = [] then operatorUrl else trimmed) in
                ''proof server '' @ arrow @ '' '' @ (if target = [] then ''(unset)'' else target))"

text \<open>What the proving section of the settings screen saves; its button is disabled while the URL is not usable.\<close>

definition savedFromScreen :: "provingMode \<Rightarrow> string \<Rightarrow> appSettings \<Rightarrow> appSettings" where
  "savedFromScreen mode url s =
     \<lparr>st_provingMode = mode, st_proofServerUrl = normalizeProofServerUrl url, st_encryptedRecoveryEnabled = st_encryptedRecoveryEnabled s\<rparr>"

section \<open>Properties\<close>

text \<open>Settings survive a reload.\<close>

theorem settings_roundtrip: "loadSettings (fst (saveSettings s E)) = s"
proof -
  have "json_wf (settingsJson s)" by (simp add: settingsJson_def)
  then have parse: "JSON_parse (stringify (settingsJson s)) = Inr (settingsJson s)" by (rule JSON_parse_stringify)
  have "stringify (settingsJson s) \<noteq> []" by (simp add: settingsJson_def)
  then show ?thesis using parse
    by (cases s; cases "st_provingMode s") (auto simp: loadSettings_def saveSettings_def settingsJson_def)
qed

lemma trimStart_trim: "trimStart (trim s) = trim s"
proof (cases "trim s")
  case (Cons c cs)
  then have "\<exists>xs. trimStart s = (c # cs) @ xs"
    unfolding trim_def by (metis append_eq_append_conv2 rev_append rev_rev_ident takeWhile_dropWhile_id)
  then have "\<not> isSpace c" unfolding trimStart_def by (metis append_Cons hd_dropWhile list.sel(1) list.distinct(1))
  with Cons show ?thesis by (simp add: trimStart_def)
qed (simp add: trimStart_def)

lemma trim_trim: "trim (trim s) = trim s"
  using trimStart_trim [of s] unfolding trim_def [of "trim s"] by (simp add: trim_def dropWhile_idem)

lemma provingMode_applied: "getProvingMode (applySettingsToSdk s E) None = modeName (st_provingMode s)"
  by (cases "st_provingMode s") (simp_all add: getProvingMode_def applySettingsToSdk_def configure_def isProvingMode_def Let_def)

lemma resolve_applied:
  "resolveProvingConfig (applySettingsToSdk s E) None =
     (if st_provingMode s = Proof_server \<and> nonEmpty (getProofServerUrl (applySettingsToSdk s E) None)
      then ProofServerConfig (the (getProofServerUrl (applySettingsToSdk s E) None)) else WasmConfig)"
  by (cases "st_provingMode s") (simp_all add: resolveProvingConfig_def provingMode_applied)

lemma serverUrl_applied:
  assumes "st_provingMode s = Proof_server"
    and "url = (if st_proofServerUrl s \<noteq> [] then st_proofServerUrl s else getOperatorProofServerUrl E)" and "url \<noteq> []"
  shows "getProofServerUrl (applySettingsToSdk s E) None = Some url"
  using assms by (auto simp: getProofServerUrl_def resolve_def applySettingsToSdk_def configure_def Let_def nonEmpty_def hasOperatorProofServer_def)

lemma remote_applied:
  assumes "st_provingMode s = Proof_server"
    and "url = (if st_proofServerUrl s \<noteq> [] then st_proofServerUrl s else getOperatorProofServerUrl E)" and "url \<noteq> []"
  shows "createProofProviderFor (Some (resolveProvingConfig (applySettingsToSdk s E) None)) = Some url"
  using assms serverUrl_applied [OF assms] by (simp add: resolve_applied createProofProviderFor_def nonEmpty_def)

text \<open>Whatever the operator configured, a holder whose settings say so proves on the device; a server is used only when the
  holder chose one, and then it is the holder's, or the operator's when the holder named none.\<close>

theorem remote_only_by_choice:
  assumes "createProofProviderFor (Some (resolveProvingConfig (applySettingsToSdk s E) None)) = Some url"
  shows "st_provingMode s = Proof_server \<and>
    (st_proofServerUrl s \<noteq> [] \<or> hasOperatorProofServer E \<longrightarrow>
       url = (if st_proofServerUrl s \<noteq> [] then st_proofServerUrl s else getOperatorProofServerUrl E))"
proof
  show mode: "st_provingMode s = Proof_server"
    using assms by (auto simp: resolve_applied createProofProviderFor_def split: if_splits)
  show "st_proofServerUrl s \<noteq> [] \<or> hasOperatorProofServer E \<longrightarrow>
      url = (if st_proofServerUrl s \<noteq> [] then st_proofServerUrl s else getOperatorProofServerUrl E)"
    using remote_applied [OF mode refl, of E] assms by (auto simp: hasOperatorProofServer_def split: if_splits)
qed

text \<open>The label of the settings screen tells the truth about a URL that can be saved.\<close>

theorem label_is_effective:
  assumes "validateProofServerUrl parseUrl (trim url) = None" and "normalizeProofServerUrl url \<noteq> []"
  shows "effectiveBackendLabel parseUrl Proof_server url operatorUrl = ''proof server '' @ arrow @ '' '' @ normalizeProofServerUrl url
       \<and> createProofProviderFor (Some (resolveProvingConfig (applySettingsToSdk (savedFromScreen Proof_server url s) E) None))
         = Some (normalizeProofServerUrl url)"
proof
  have "trim url \<noteq> []" using assms(2) by (auto simp: normalizeProofServerUrl_def stripTrailing_def)
  then show "effectiveBackendLabel parseUrl Proof_server url operatorUrl = ''proof server '' @ arrow @ '' '' @ normalizeProofServerUrl url"
    using assms by (simp add: effectiveBackendLabel_def Let_def normalizeProofServerUrl_def trim_trim)
  show "createProofProviderFor (Some (resolveProvingConfig (applySettingsToSdk (savedFromScreen Proof_server url s) E) None))
      = Some (normalizeProofServerUrl url)"
    using assms(2) by (intro remote_applied) (simp_all add: savedFromScreen_def)
qed

lemma toWsUrl_nonEmpty: "u \<noteq> [] \<Longrightarrow> toWsUrl u \<noteq> []"
  by (auto simp: toWsUrl_def)

text \<open>Saving settings changes nothing else of the configuration.\<close>

theorem settings_keep_the_rest:
  "getVerificationUrl (applySettingsToSdk s E) None = getVerificationUrl E None"
  "getIssuerUrl (applySettingsToSdk s E) None = getIssuerUrl E None"
  "getApiKey (applySettingsToSdk s E) None = getApiKey E None"
  "getWsBaseUrl (applySettingsToSdk s E) None = getWsBaseUrl E None"
proof -
  have ver: "getVerificationUrl E None \<noteq> []" and iss: "getIssuerUrl E None \<noteq> []"
    using resolve_nonEmpty [of "Some DEFAULT_VERIFICATION_URL" E] resolve_nonEmpty [of "Some DEFAULT_ISSUER_URL" E]
    by (auto simp: getVerificationUrl_def getIssuerUrl_def nonEmpty_def DEFAULT_VERIFICATION_URL_def DEFAULT_ISSUER_URL_def)
  show "getVerificationUrl (applySettingsToSdk s E) None = getVerificationUrl E None"
    using ver unfolding getVerificationUrl_def [of "applySettingsToSdk s E"] by (simp add: resolve_def applySettingsToSdk_def configure_def Let_def nonEmpty_def)
  show "getIssuerUrl (applySettingsToSdk s E) None = getIssuerUrl E None"
    using iss unfolding getIssuerUrl_def [of "applySettingsToSdk s E"] by (simp add: resolve_def applySettingsToSdk_def configure_def Let_def nonEmpty_def)
  show "getApiKey (applySettingsToSdk s E) None = getApiKey E None"
    by (auto simp: getApiKey_def resolve_def applySettingsToSdk_def configure_def Let_def nonEmpty_def readProcess_def)
  have "getWsBaseUrl E None \<noteq> []" using toWsUrl_nonEmpty [OF ver] by (auto simp: getWsBaseUrl_def Let_def nonEmpty_def the_or_def split: if_splits option.splits)
  then show "getWsBaseUrl (applySettingsToSdk s E) None = getWsBaseUrl E None"
    unfolding getWsBaseUrl_def [of "applySettingsToSdk s E"] by (simp add: resolve_def applySettingsToSdk_def configure_def Let_def nonEmpty_def)
qed

end
