(* ===== verification/Spec2Isabelle.thy ===== *)
theory Spec2Isabelle
  imports Owl_Prelude Encoding Json Sd_Jwt Countries Routing Wallet_Storage Wallet Relay_Batcher Submit_Pipeline
    Event_Stream Relay_Jobs Recovery Presentation Sidecar_Routes Registry_Contracts Attest_Path App_Presentation Mrz Verifier_App
    Wallet_Supervisor App_Settings
begin

text \<open>
  Verification of the OWLID wallet SDK (\<open>src/packages/sdk/src\<close>), its runtime configuration (\<open>src/packages/config/src\<close>),
  the presentation hook and passport page of the wallet app (\<open>src/packages/app/src\<close>), the session of the verifier app
  (\<open>src/packages/verifier-app/src\<close>), the Midnight sidecar
  (\<open>src/packages/midnight-sidecar/src\<close>) and the Compact contracts (\<open>src/packages/midnight-sidecar/contracts\<close>).

  \<^bold>\<open>The program.\<close>  An issuer signs a credential as an SD-JWT VC.  The holder's wallet keeps the credential and, sealed
  under a passkey, the holder key.  A verifier opens a presentation session and sends a DCQL query; the wallet matches
  the query against its credentials, discloses the claims that were asked for, signs a key-binding JWT, and proves the
  remaining predicates (age, country sets, KYC level, email, personhood) on the Midnight chain.  The SDK's orchestrator
  builds the private witnesses, proves locally and relays the proven transactions through the sidecar, which merges,
  balances and submits them, mirrors the contract ledgers and streams their changes to the backend.  Seven predicate
  contracts record what was proved; three registries hold issuers, revocations and identities.

  \<^bold>\<open>Theories and sources.\<close>
  \<^item> \<open>Owl_Prelude\<close>: errors as values (\<open>js_error + 'a\<close>), JavaScript strings, sorting, and the shared locales: \<open>codec\<close> for
    encoders with a decoder, \<open>event_machine\<close> and \<open>guarded_machine\<close> for state machines driven by event lists.
    \<open>Encoding\<close> (\<open>encoding.ts\<close>) and \<open>Json\<close> (\<open>JSON.parse\<close> and \<open>JSON.stringify\<close>) hold the codecs.
  \<^item> \<open>Sd_Jwt\<close> (\<open>sd-jwt.ts\<close>): parsing, disclosing, signing and verifying SD-JWT VCs.
  \<^item> \<open>Countries\<close> (\<open>countries.ts\<close>), \<open>Routing\<close> (\<open>predicates.ts\<close>, \<open>owl-dcql.ts\<close>, \<open>midnight/routing.ts\<close>, \<open>midnight/kinds.ts\<close>): from
    a DCQL claim to the predicate that answers it.
  \<^item> \<open>Claim_Trees\<close> (\<open>midnight/merkle.ts\<close>, \<open>midnight/owl-root.ts\<close>), \<open>Attestation_Keys\<close> (\<open>midnight/attestation-keys.ts\<close>),
    \<open>Predicate_Witness\<close> (\<open>midnight/witnesses.ts\<close>): Merkle trees, on-chain keys and circuit inputs.
  \<^item> \<open>Js_Async\<close>: asynchronous code as state-passing actions with errors.  \<open>Orchestrator\<close> (\<open>midnight/orchestrator.ts\<close>) and
    \<open>Wallet\<close> (\<open>wallet.ts\<close>, with \<open>Wallet_Storage\<close> for \<open>storage.ts\<close>): attesting, matching and presenting.
  \<^item> \<open>Passkey\<close> (\<open>webauthn.ts\<close>), \<open>Recovery\<close> (\<open>recovery-file.ts\<close>, \<open>recovery-wallet.ts\<close>): keys at rest and their recovery.
  \<^item> \<open>Config\<close> (\<open>config/src/index.ts\<close>), \<open>Presentation\<close> (\<open>presentation.ts\<close>, \<open>present.ts\<close>, \<open>verifier/qr.ts\<close>,
    \<open>verifier/presentation-flow.ts\<close>): the session between a holder and a verifier.
  \<^item> \<open>Relay_Batcher\<close> (\<open>relay-batcher.ts\<close>), \<open>Submit_Pipeline\<close> (\<open>submit-pipeline.ts\<close>, \<open>wallet-supervisor.ts\<close>), \<open>Relay_Jobs\<close>
    (the relay jobs of \<open>midnight.ts\<close> and their status stream): from a relayed transaction to the chain.
  \<^item> \<open>Ledger_Events\<close> and \<open>Event_Stream\<close> (\<open>midnight.ts\<close>, \<open>events.ts\<close>, \<open>routes/events.ts\<close>): ledger diffs and the event stream.
  \<^item> \<open>Midnight_Client\<close> (\<open>midnight.ts\<close>, \<open>witnesses.ts\<close>), \<open>Sidecar_Routes\<close> (\<open>config.ts\<close>, \<open>client.ts\<close>, \<open>index.ts\<close>, \<open>routes/\<close>):
    the contract client and the HTTP service around it.
  \<^item> \<open>Compact_Modules\<close> (\<open>contracts/lib\<close>): circuits as actions on a ledger, ownership and pausing, the histories of a
    contract and the locale \<open>contract\<close> of what every transaction keeps.  \<open>Registry_Contracts\<close> (\<open>revocation_registry\<close>,
    \<open>issuer_registry\<close>, \<open>identity_registry\<close>) and \<open>Predicate_Contracts\<close> (\<open>predicate_*.compact\<close>): the ledgers, the circuits,
    and their links to the SDK's witnesses and keys and to the sidecar's mirror.  \<open>Attest_Path\<close>: from what the
    orchestrator prepares to the circuit that accepts it.
  \<^item> \<open>App_Presentation\<close> (\<open>app/src/hooks/use-presentation.ts\<close>): the holder's side of a session in the wallet app, with its
    sockets, timers, controllers and retries.  \<open>Mrz\<close> (\<open>app/src/utils/mrz.ts\<close>): the machine-readable zone of a passport.
  \<^item> \<open>Browser\<close> (sockets and messages as the two apps use them), \<open>Verifier_Checks\<close> (\<open>verifier-app/src\<close>: \<open>design-data.ts\<close>,
    \<open>api.ts\<close>, \<open>dcql-labels.ts\<close>, \<open>error-messages.ts\<close>, \<open>health-monitor.ts\<close>, \<open>history-store.ts\<close> and the query building of
    \<open>App.tsx\<close>) and \<open>Verifier_App\<close> (the session of \<open>App.tsx\<close>): from the checks an operator selects to the verdict shown.
  \<^item> \<open>Wallet_Supervisor\<close> (\<open>wallet-supervisor.ts\<close>, parts of \<open>wallet.ts\<close>): health, stale transactions, dust registration, the
    dust alert and telemetry of the sidecar's wallet, and the split of its NIGHT.
  \<^item> \<open>Proving\<close> (\<open>sdk/src/midnight\<close>: \<open>assets.ts\<close>, \<open>network.ts\<close>, \<open>snapshot.ts\<close> and the parameters of \<open>prover.ts\<close>): what the device
    loads before it proves, over the step relation \<open>flight\<close> and the locale \<open>single_flight\<close>.  \<open>App_Settings\<close> (the rest of
    \<open>prover.ts\<close>, \<open>app/src/lib/settings.ts\<close>): where it proves.

  \<^bold>\<open>How code becomes definitions.\<close>  A class or module state is a record, a tagged union a datatype, a function a
  definition with the name of the source.  Strings are their UTF-8 bytes; bytes are 8-bit words; numbers of the protocol
  are integers.  A thrown error is \<open>Inl\<close>.  Code whose outcome depends on the order of callbacks is a step function over
  events (a timer, a socket message, a promise that settles), and its properties hold for every list of events.

  \<^bold>\<open>What is shown.\<close>  Sd_Jwt: what the verifier accepts was signed by the issuer and, when key-bound, by the holder for
  this audience and nonce; a presentation discloses exactly what was asked; an honest one is accepted.  Wallet and
  Orchestrator: a presentation covers the query, discloses nothing else and rests on predicates found on chain; nothing
  is relayed after an abort, for a caller whose progress handler does not itself abort when a relay is announced; relays
  are bounded.  Attestation_Keys and Claim_Trees: keys separate credentials and
  predicates, holder and verifier derive the same scopes, a Merkle path exists exactly for members.  Wallet_Storage,
  Passkey, Recovery: the store refines a dictionary and erases what is removed, sealed keys open again, a recovery file restores the wallet.
  Presentation: one answer per session, for a request that was delivered and approved, a valid result only from a
  verification, and a whole session from the scanned engagement to the verdict.  Relay_Batcher, Submit_Pipeline,
  Relay_Jobs: no job is lost, a poisoned job fails alone, balancing never overlaps, jobs only advance.  Ledger_Events,
  Event_Stream: the event stream mirrors the ledger when nothing changes during the snapshot, and an example shows that
  a change during it can be lost.  Midnight_Client,
  Sidecar_Routes: writes are isolated, the API key guards every route, the reconnect loop returns at the first success.
  Predicate_Contracts: an attestation implies that the issuer's credential satisfies the predicate, a holder whose
  credential meets a request (age ranges apart) gets it, its key is the one the verifier looks up (ages apart), a personhood secret counts once per campaign, and attested
  keys reach the consumers of the event stream.  Registry_Contracts: revocations are final and consistent, trust in an
  issuer reaches the consumers, an active identity is safe from others (an expired one is not).  Together with
  \<open>attestation_keys_separate\<close> and \<open>results_are_on_chain\<close> these link a wallet's presentation to the issuer's signature.
  Attest_Path: what the orchestrator prepares is what the circuit accepts and records, and only for credentials that
  satisfy the request.  App_Presentation: the hook keeps one socket, every response it sends answers a request that was
  delivered and approved, and teardown aborts every attempt in flight, but not one that waits to retry; an answer that
  meets a closed socket is lost.  Mrz: every zone printed is well-formed and read back by a
  checking reader, and a single wrong digit changes the check digit.  Verifier_Checks: the request asks for exactly the
  checks selected when they are on different predicates, and only for the last of those on the same one; the banner is
  debounced; history pages partition the store.  Verifier_App: a verdict on the screen is the
  answer of the service to a call for a received response, with the query last sent since the reset, built from the
  selected checks, or, for a response nobody asked for, one that asks nothing.  Wallet_Supervisor: a
  sweep reverts exactly the stale entries, a split is an exact partition, runways and alerts stay within their bounds, and
  registrations are spaced as long as none is queued twice.  Proving: artifacts, parameters and the network id are each
  downloaded by one call at a time and not again once known, callers get the bytes of the name they asked for, and a
  snapshot gives the holder the states that were encoded and nothing else.  App_Settings: settings survive a reload, and a
  proof server is used only by the holder's choice.

  \<^bold>\<open>Assumptions on code outside the repository.\<close>  SHA-256, Ed25519, AES-GCM, PBKDF2, the browser's credential store, the
  Compact runtime, the indexer and the wallet SDK are parameters.  What a property needs of them is a named hypothesis
  with a concrete instance in its witness: \<open>sha_32\<close> (digests have 32 bytes), \<open>sig_correct\<close> (a signature verifies under
  its key), \<open>gcm_correct\<close>, \<open>random_ok\<close>, \<open>passkey_answers\<close>, \<open>paths_fold\<close> and \<open>tree_ok\<close> (a Merkle path carries its leaf and folds
  to the root of its tree).  Collision resistance is never assumed: separation and soundness results exhibit the
  colliding strings or the forged path instead.  The proof system itself is taken as given: a transaction is accepted
  exactly when its circuit succeeds on some witnesses.

  \<^bold>\<open>Bounds.\<close>  Country and claim trees have 256 leaves, as in the code.  Loops are structural recursions, except the
  reconnect loop, a \<open>partial_function\<close> with the exact condition under which it returns, and the parser \<open>Json.pvalue\<close>,
  whose fuel is bounded by the length of the text: \<open>JSON_parse_stringify\<close> shows that it is enough for every printed value.

  \<^bold>\<open>Simplifications.\<close>  JSON numbers are integers: fractions and exponents are refused.  \<open>verificationLevelToNumber\<close> works on
  exact integers where the source converts with \<open>Number\<close>.  The retry limit of the submit pipeline is a natural number, while
  \<open>Number\<close> of its environment variable could be \<open>NaN\<close> or \<open>Infinity\<close>.  The \<open>isTrusted\<close>, \<open>isRevoked\<close> and \<open>getCommitment\<close> circuit
  calls of the contract client, which are not serialized and have no callers, are left out.  The progress handler of
  \<open>present\<close> may have any effect on the outside world but is taken not to throw.

  \<^bold>\<open>Not modelled.\<close>  The React applications beyond the parts named above, the documentation site, the operator scripts
  and the generated API clients (user interface and I/O); the Rust services; the compiler output of the Compact contracts
  beyond its type checks (the circuits are modelled from their sources); the capacity of the historic trees; the wrappers
  of \<open>wallet.ts\<close> and \<open>inprocess-proof.ts\<close> around the Midnight SDK, apart from the telemetry and the split named above.
\<close>

end
